(* ===== verification/Prelude.thy ===== *)
theory Prelude
  imports Main "HOL-Library.Word"
begin

text \<open>
  What every component shares: the machine types of the source, the pieces of the Rust
  standard library the code calls (checked and saturating \<open>usize\<close> arithmetic, slice
  searches, \<open>Ordering\<close>, \<open>Result\<close> chaining), the allocator that decides which fallible
  reservations succeed, and the generic list lemmas and \<^theory_text>\<open>named_theorems\<close>
  collections the component proofs rest on.

  \<open>usize\<close> is 64 bits wide (the only supported target is \<open>x86_64-pc-windows-msvc\<close>). A
  \<open>usize\<close> value is a \<open>nat\<close>; every checked, saturating or wrapping operation of the source
  is written with the bound \<open>2 ^ 64\<close>.
\<close>

named_theorems counter_simps \<open>size accounting: lengths, separators and aggregate sums\<close>
named_theorems row_simps \<open>what an operation does to one row\<close>
named_theorems contract_intros \<open>introduction rules for the contracts of the operations\<close>

type_synonym u8 = "8 word"
type_synonym u16 = "16 word"
type_synonym u32 = "32 word"
type_synonym u64 = "64 word"
type_synonym u128 = "128 word"
type_synonym usize = nat

abbreviation USIZE_LIMIT :: nat where
  "USIZE_LIMIT \<equiv> 18446744073709551616"

section \<open>Integer operations of the standard library\<close>

definition checked_add :: "usize \<Rightarrow> usize \<Rightarrow> usize option" where
  "checked_add a b = (if a + b < USIZE_LIMIT then Some (a + b) else None)"

definition checked_sub :: "usize \<Rightarrow> usize \<Rightarrow> usize option" where
  "checked_sub a b = (if b \<le> a then Some (a - b) else None)"

definition checked_mul :: "usize \<Rightarrow> usize \<Rightarrow> usize option" where
  "checked_mul a b = (if a * b < USIZE_LIMIT then Some (a * b) else None)"

definition saturating_add :: "usize \<Rightarrow> usize \<Rightarrow> usize" where
  "saturating_add a b = min (a + b) (USIZE_LIMIT - 1)"

definition saturating_mul :: "usize \<Rightarrow> usize \<Rightarrow> usize" where
  "saturating_mul a b = min (a * b) (USIZE_LIMIT - 1)"

text \<open>\<open>nat\<close> subtraction stops at 0, exactly as \<open>saturating_sub\<close> does.\<close>

definition saturating_sub :: "usize \<Rightarrow> usize \<Rightarrow> usize" where
  "saturating_sub a b = a - b"

text \<open>
  A plain \<open>a - b\<close> on \<open>usize\<close>: the release profile of the workspace leaves overflow checks
  off, so an underflow wraps. The components prove that it never happens.
\<close>

definition wrapping_sub :: "usize \<Rightarrow> usize \<Rightarrow> usize" where
  "wrapping_sub a b = (if b \<le> a then a - b else a + USIZE_LIMIT - b)"

lemma checked_add_Some [simp]:
  "checked_add a b = Some c \<longleftrightarrow> c = a + b \<and> a + b < USIZE_LIMIT"
  by (auto simp: checked_add_def)

lemma checked_add_None [simp]: "checked_add a b = None \<longleftrightarrow> USIZE_LIMIT \<le> a + b"
  by (auto simp: checked_add_def)

lemma checked_sub_Some [simp]: "checked_sub a b = Some c \<longleftrightarrow> c = a - b \<and> b \<le> a"
  by (auto simp: checked_sub_def)

lemma checked_sub_None [simp]: "checked_sub a b = None \<longleftrightarrow> a < b"
  by (auto simp: checked_sub_def)

lemma checked_mul_Some [simp]:
  "checked_mul a b = Some c \<longleftrightarrow> c = a * b \<and> a * b < USIZE_LIMIT"
  by (auto simp: checked_mul_def)

lemma checked_mul_None [simp]: "checked_mul a b = None \<longleftrightarrow> USIZE_LIMIT \<le> a * b"
  by (auto simp: checked_mul_def)

lemma wrapping_sub_exact [simp]: "b \<le> a \<Longrightarrow> wrapping_sub a b = a - b"
  by (simp add: wrapping_sub_def)

lemma saturating_sub_le [simp]: "saturating_sub a b \<le> a"
  by (simp add: saturating_sub_def)

section \<open>Result chaining\<close>

text \<open>The question-mark operator: \<open>Inl\<close> is \<open>Err\<close>, \<open>Inr\<close> is \<open>Ok\<close>.\<close>

definition and_then :: "'e + 'a \<Rightarrow> ('a \<Rightarrow> 'e + 'b) \<Rightarrow> 'e + 'b" where
  "and_then r f = (case r of Inl e \<Rightarrow> Inl e | Inr x \<Rightarrow> f x)"

lemma and_then_simps [simp]:
  "and_then (Inl e) f = Inl e"
  "and_then (Inr x) f = f x"
  by (simp_all add: and_then_def)

lemma and_then_Inr: "and_then r f = Inr y \<longleftrightarrow> (\<exists>x. r = Inr x \<and> f x = Inr y)"
  by (cases r) auto

lemma and_then_Inl:
  "and_then r f = Inl e \<longleftrightarrow> r = Inl e \<or> (\<exists>x. r = Inr x \<and> f x = Inl e)"
  by (cases r) auto

definition ok_or :: "'e \<Rightarrow> 'a option \<Rightarrow> 'e + 'a" where
  "ok_or e x = (case x of None \<Rightarrow> Inl e | Some y \<Rightarrow> Inr y)"

lemma ok_or_simps [simp]:
  "ok_or e None = Inl e"
  "ok_or e (Some y) = Inr y"
  by (simp_all add: ok_or_def)

lemma ok_or_Inr [simp]: "ok_or e x = Inr y \<longleftrightarrow> x = Some y"
  by (cases x) auto

lemma ok_or_Inl [simp]: "ok_or e x = Inl e' \<longleftrightarrow> x = None \<and> e = e'"
  by (cases x) auto

definition ok_if :: "'e \<Rightarrow> bool \<Rightarrow> 'e + unit" where
  "ok_if e b = (if b then Inr () else Inl e)"

lemma ok_if_Inr [simp]: "ok_if e b = Inr u \<longleftrightarrow> b"
  by (simp add: ok_if_def)

lemma ok_if_Inl [simp]: "ok_if e b = Inl e' \<longleftrightarrow> \<not> b \<and> e = e'"
  by (simp add: ok_if_def)

lemma ok_if_True [simp]: "ok_if e True = Inr ()"
  by (simp add: ok_if_def)

lemma ok_if_False [simp]: "ok_if e False = Inl e"
  by (simp add: ok_if_def)

text \<open>A cascade of early returns succeeds when no guard fires.\<close>

lemma if_Inl_eq_Inr: "(if c then Inl e else r) = Inr x \<longleftrightarrow> \<not> c \<and> r = Inr x"
  by simp

section \<open>Ordering\<close>

datatype ordering = Less | Equal | Greater

fun reverse_ordering :: "ordering \<Rightarrow> ordering" where
  "reverse_ordering Less = Greater"
| "reverse_ordering Equal = Equal"
| "reverse_ordering Greater = Less"

fun then_with :: "ordering \<Rightarrow> ordering \<Rightarrow> ordering" where
  "then_with Equal b = b"
| "then_with a b = a"

definition cmp_of :: "'a::linorder \<Rightarrow> 'a \<Rightarrow> ordering" where
  "cmp_of a b = (if a < b then Less else if a = b then Equal else Greater)"

lemma cmp_of_simps [simp]:
  "cmp_of a b = Less \<longleftrightarrow> a < b"
  "cmp_of a b = Equal \<longleftrightarrow> a = b"
  "cmp_of a b = Greater \<longleftrightarrow> b < a"
  by (auto simp: cmp_of_def)

lemma reverse_ordering_simps [simp]:
  "reverse_ordering x = Less \<longleftrightarrow> x = Greater"
  "reverse_ordering x = Equal \<longleftrightarrow> x = Equal"
  "reverse_ordering x = Greater \<longleftrightarrow> x = Less"
  by (cases x; simp)+

lemma then_with_simps:
  "then_with a b = Less \<longleftrightarrow> a = Less \<or> a = Equal \<and> b = Less"
  "then_with a b = Equal \<longleftrightarrow> a = Equal \<and> b = Equal"
  "then_with a b = Greater \<longleftrightarrow> a = Greater \<or> a = Equal \<and> b = Greater"
  by (cases a; simp)+

text \<open>The lexicographic comparison of slices (\<open>Ord\<close> of \<open>[T]\<close>).\<close>

fun cmp_slices :: "'a::linorder list \<Rightarrow> 'a list \<Rightarrow> ordering" where
  "cmp_slices [] [] = Equal"
| "cmp_slices [] (y # ys) = Less"
| "cmp_slices (x # xs) [] = Greater"
| "cmp_slices (x # xs) (y # ys) = then_with (cmp_of x y) (cmp_slices xs ys)"

lemma cmp_slices_Equal [simp]: "cmp_slices xs ys = Equal \<longleftrightarrow> xs = ys"
  by (induction xs ys rule: cmp_slices.induct) (auto simp: then_with_simps)

lemma cmp_slices_swap: "cmp_slices ys xs = reverse_ordering (cmp_slices xs ys)"
proof (induction xs ys rule: cmp_slices.induct)
  case (4 x xs y ys)
  then show ?case
    by (cases rule: linorder_cases [of x y]) (auto simp: cmp_of_def)
qed auto

lemma cmp_slices_trans:
  "cmp_slices xs ys \<noteq> Greater \<Longrightarrow> cmp_slices ys zs \<noteq> Greater \<Longrightarrow> cmp_slices xs zs \<noteq> Greater"
proof (induction xs ys arbitrary: zs rule: cmp_slices.induct)
  case (4 x xs y ys)
  then show ?case
    by (cases zs) (auto simp: then_with_simps not_less)
qed (auto elim: cmp_slices.elims)

section \<open>Slice searches\<close>

fun position :: "('a \<Rightarrow> bool) \<Rightarrow> 'a list \<Rightarrow> usize option" where
  "position p [] = None"
| "position p (x # xs) = (if p x then Some 0 else map_option Suc (position p xs))"

definition rposition :: "('a \<Rightarrow> bool) \<Rightarrow> 'a list \<Rightarrow> usize option" where
  "rposition p xs = map_option (\<lambda>i. length xs - Suc i) (position p (rev xs))"

lemma position_None: "position p xs = None \<longleftrightarrow> (\<forall>x\<in>set xs. \<not> p x)"
  by (induction xs) auto

lemma position_Some:
  "position p xs = Some i \<longleftrightarrow> i < length xs \<and> p (xs ! i) \<and> (\<forall>j<i. \<not> p (xs ! j))"
proof (induction xs arbitrary: i)
  case (Cons x xs)
  show ?case
    by (cases i) (auto simp: Cons.IH All_less_Suc2)
qed simp

lemma position_bound: "position p xs = Some i \<Longrightarrow> i < length xs"
  by (simp add: position_Some)

lemma rposition_None: "rposition p xs = None \<longleftrightarrow> (\<forall>x\<in>set xs. \<not> p x)"
  by (simp add: rposition_def position_None)

lemma rposition_Nil [simp]: "rposition p [] = None"
  by (simp add: rposition_def)

lemma rposition_snoc:
  "rposition p (xs @ [x]) = (if p x then Some (length xs) else rposition p xs)"
  by (simp add: rposition_def option.map_comp comp_def)

lemma rposition_append:
  "rposition p (xs @ ys) =
     (case rposition p ys of Some i \<Rightarrow> Some (length xs + i) | None \<Rightarrow> rposition p xs)"
proof (induction ys rule: rev_induct)
  case (snoc y ys)
  show ?case
    unfolding append_assoc [symmetric] rposition_snoc using snoc by simp
qed simp

lemma rposition_Some:
  "rposition p xs = Some i \<longleftrightarrow>
     i < length xs \<and> p (xs ! i) \<and> (\<forall>j. i < j \<longrightarrow> j < length xs \<longrightarrow> \<not> p (xs ! j))"
proof (induction xs rule: rev_induct)
  case (snoc x xs)
  show ?case
    unfolding rposition_snoc using snoc
    by (auto simp: nth_append less_Suc_eq)
qed simp

lemma rposition_bound: "rposition p xs = Some i \<Longrightarrow> i < length xs"
  by (simp add: rposition_Some)

lemma rposition_split:
  assumes "rposition p xs = Some i"
  shows "p (xs ! i)" and "\<forall>x\<in>set (drop (Suc i) xs). \<not> p x"
    and "xs = take i xs @ xs ! i # drop (Suc i) xs"
proof -
  from assms show "p (xs ! i)" by (simp add: rposition_Some)
  from assms show "\<forall>x\<in>set (drop (Suc i) xs). \<not> p x"
    by (auto simp: rposition_Some in_set_conv_nth)
  from assms have "i < length xs" by (rule rposition_bound)
  then show "xs = take i xs @ xs ! i # drop (Suc i) xs" by (simp add: id_take_nth_drop)
qed

definition starts_with :: "'a list \<Rightarrow> 'a list \<Rightarrow> bool" where
  "starts_with xs p \<longleftrightarrow> take (length p) xs = p"

lemma starts_with_append [simp]: "starts_with (p @ xs) p"
  by (simp add: starts_with_def)

section \<open>The allocator\<close>

text \<open>
  The code stages its work with \<open>try_reserve\<close> and reports a failed reservation. Every
  reservation of an operation is a \<open>site\<close> (with the row it belongs to), reached at most once
  per call; an \<open>allocator\<close> says which of them succeed. Quantifying over all allocators covers
  every pattern of failures.
\<close>

datatype alloc_site =
    AtBuild nat | AtStage nat | AtChanged
  | AtRebuild | AtRebuildText nat | AtChunkList | AtChunk nat
  | AtAccepted nat | AtSources | AtSourceText nat | AtItems
  | AtInsertChunk nat | AtInsertOuter nat | AtSplitChunk nat | AtSplitOuter nat
  | AtExtension | AtParent | AtShared | AtStagedParents | AtParentText nat

type_synonym allocator = "alloc_site \<Rightarrow> bool"

section \<open>Lists\<close>

lemma filter_upt_sorted [simp]: "sorted (filter p [0..<n])"
  by (simp add: sorted_wrt_filter)

lemma sum_list_map_update:
  fixes f :: "'a \<Rightarrow> nat"
  assumes "i < length xs"
  shows "sum_list (map f (xs[i := x])) + f (xs ! i) = sum_list (map f xs) + f x"
  using assms
proof (induction xs arbitrary: i)
  case (Cons y ys)
  then show ?case by (cases i) (auto simp: algebra_simps)
qed simp

lemma member_le_sum_list_nth:
  fixes f :: "'a \<Rightarrow> nat"
  shows "i < length xs \<Longrightarrow> f (xs ! i) \<le> sum_list (map f xs)"
  by (simp add: member_le_sum_list)

lemma drop_eq_Cons_iff:
  "drop i xs = y # ys \<longleftrightarrow> i < length xs \<and> xs ! i = y \<and> drop (Suc i) xs = ys"
proof (cases "i < length xs")
  case True
  then show ?thesis by (simp add: Cons_nth_drop_Suc [symmetric])
qed simp

text \<open>Rust's \<open>slice::swap\<close>.\<close>

definition swap_at :: "'a list \<Rightarrow> usize \<Rightarrow> usize \<Rightarrow> 'a list" where
  "swap_at xs i j = xs[i := xs ! j, j := xs ! i]"

lemma length_swap_at [simp]: "length (swap_at xs i j) = length xs"
  by (simp add: swap_at_def)

lemma nth_swap_at:
  "k < length xs \<Longrightarrow> i < length xs \<Longrightarrow> j < length xs \<Longrightarrow>
     swap_at xs i j ! k = (if k = j then xs ! i else if k = i then xs ! j else xs ! k)"
  by (auto simp: swap_at_def nth_list_update)

end
