(* ===== verification/Legacy_Text.thy ===== *)
theory Legacy_Text
  imports Prelude
begin

text \<open>
  \<open>LegacyText\<close> of \<open>crates/darknamer-core/src/lib.rs\<close>: text is the exact list of UTF-16 code
  units, unpaired surrogates included. The theory models the case-insensitive comparison,
  the trimming of import lines and the CRLF export, and proves that the comparison is a
  total preorder for every lower-casing table, that trimming removes exactly the outer white
  space, and that exported lines are read back.
\<close>

section \<open>Comparators\<close>

text \<open>
  What the list workbench relies on from a text comparator: a total preorder. The original
  program used \<open>CompareString\<close>; the code takes any comparator and falls back on
  \<open>case_insensitive_cmp\<close>.
\<close>

locale total_cmp =
  fixes cmp :: "'a \<Rightarrow> 'a \<Rightarrow> ordering"
  assumes swap: "cmp y x = reverse_ordering (cmp x y)"
    and trans: "cmp x y \<noteq> Greater \<Longrightarrow> cmp y z \<noteq> Greater \<Longrightarrow> cmp x z \<noteq> Greater"
begin

lemma refl [simp]: "cmp x x = Equal"
  using swap [of x x] by (cases "cmp x x") auto

lemma less_iff: "cmp x y = Less \<longleftrightarrow> cmp y x = Greater"
  by (simp add: swap [of x y])

lemma equal_sym: "cmp x y = Equal \<longleftrightarrow> cmp y x = Equal"
  by (simp add: swap [of x y])

lemma not_less: "cmp x y \<noteq> Less \<longleftrightarrow> cmp y x \<noteq> Greater"
  by (simp add: swap [of x y])

lemma equal_iff: "cmp x y = Equal \<longleftrightarrow> cmp x y \<noteq> Greater \<and> cmp y x \<noteq> Greater"
  by (cases "cmp x y") (auto simp: swap [of x y])

lemma equal_cong: "cmp x y = Equal \<Longrightarrow> cmp x z = cmp y z"
  by (metis equal_iff less_iff ordering.exhaust trans)

lemma equal_cong_right: "cmp x y = Equal \<Longrightarrow> cmp z x = cmp z y"
  by (metis equal_cong swap)

lemma less_le_trans: "cmp x y = Less \<Longrightarrow> cmp y z \<noteq> Greater \<Longrightarrow> cmp x z = Less"
  by (metis equal_cong_right less_iff ordering.exhaust trans)

lemma le_less_trans: "cmp x y \<noteq> Greater \<Longrightarrow> cmp y z = Less \<Longrightarrow> cmp x z = Less"
  by (metis equal_cong less_iff ordering.exhaust trans)

end

section \<open>Code units\<close>

type_synonym legacy_text = "u16 list"

abbreviation BACKSLASH :: u16 where "BACKSLASH \<equiv> 92"
abbreviation SLASH :: u16 where "SLASH \<equiv> 47"
abbreviation DOT :: u16 where "DOT \<equiv> 46"
abbreviation COLON :: u16 where "COLON \<equiv> 58"
abbreviation UNDERSCORE :: u16 where "UNDERSCORE \<equiv> 95"
abbreviation ZERO_DIGIT :: u16 where "ZERO_DIGIT \<equiv> 48"
abbreviation CR :: u16 where "CR \<equiv> 13"
abbreviation LF :: u16 where "LF \<equiv> 10"

text \<open>\<open>LegacyText::truncate_units\<close> and the two private appends.\<close>

definition truncate_units :: "legacy_text \<Rightarrow> usize \<Rightarrow> legacy_text" where
  "truncate_units t n = take n t"

definition push :: "legacy_text \<Rightarrow> legacy_text \<Rightarrow> legacy_text" where
  "push t other = t @ other"

definition push_unit :: "legacy_text \<Rightarrow> u16 \<Rightarrow> legacy_text" where
  "push_unit t u = t @ [u]"

section \<open>Lower-casing and comparison\<close>

text \<open>The items of \<open>char::decode_utf16\<close>: a scalar value or an unpaired surrogate.\<close>

datatype decoded = Scalar nat | Unpaired u16

fun decode_utf16 :: "u16 list \<Rightarrow> decoded list" where
  "decode_utf16 [] = []"
| "decode_utf16 (u # us) =
     (if u < 0xD800 \<or> 0xDFFF < u then Scalar (unat u) # decode_utf16 us
      else if 0xDC00 \<le> u then Unpaired u # decode_utf16 us
      else case us of
             [] \<Rightarrow> [Unpaired u]
           | v # vs \<Rightarrow>
               if v < 0xDC00 \<or> 0xDFFF < v then Unpaired u # decode_utf16 us
               else Scalar ((unat u - 0xD800) * 1024 + (unat v - 0xDC00) + 0x10000)
                    # decode_utf16 vs)"

definition encode_utf16_char :: "nat \<Rightarrow> u16 list" where
  "encode_utf16_char c =
     (if c < 0x10000 then [of_nat c]
      else [of_nat (0xD800 + (c - 0x10000) div 1024), of_nat (0xDC00 + (c - 0x10000) mod 1024)])"

text \<open>
  The table behind \<open>char::to_lowercase\<close> is Unicode data of the standard library: the
  parameter \<open>to_lowercase\<close> maps a scalar value to its lower-case scalar values.
\<close>

fun lowercase_units :: "(nat \<Rightarrow> nat list) \<Rightarrow> u16 list \<Rightarrow> u16 list" where
  "lowercase_units to_lowercase units =
     concat (map (\<lambda>d. case d of
        Scalar c \<Rightarrow> concat (map encode_utf16_char (to_lowercase c))
      | Unpaired u \<Rightarrow> [u]) (decode_utf16 units))"

definition case_insensitive_cmp ::
  "(nat \<Rightarrow> nat list) \<Rightarrow> legacy_text \<Rightarrow> legacy_text \<Rightarrow> ordering" where
  "case_insensitive_cmp to_lowercase a b =
     cmp_slices (lowercase_units to_lowercase a) (lowercase_units to_lowercase b)"

interpretation ci: total_cmp "case_insensitive_cmp to_lowercase" for to_lowercase
  by unfold_locales (auto simp: case_insensitive_cmp_def
      intro: cmp_slices_swap dest: cmp_slices_trans)

text \<open>Decoding loses nothing: encoding every item again gives the units back.\<close>

lemma encode_scalar_unit: "encode_utf16_char (unat (u::u16)) = [u]"
proof -
  have "unat u < 2 ^ LENGTH(16)" by (rule unsigned_less)
  then show ?thesis by (simp add: encode_utf16_char_def)
qed

lemma encode_surrogate_pair:
  assumes "0xD800 \<le> (u::u16)" and "u < 0xDC00" and "0xDC00 \<le> (v::u16)" and "v \<le> 0xDFFF"
  shows "encode_utf16_char ((unat u - 0xD800) * 1024 + (unat v - 0xDC00) + 0x10000) = [u, v]"
proof -
  from assms have u: "0xD800 \<le> unat u" "unat u < 0xDC00" and v: "0xDC00 \<le> unat v" "unat v \<le> 0xDFFF"
    by (simp_all add: word_le_nat_alt word_less_nat_alt)
  let ?d = "(unat u - 0xD800) * 1024 + (unat v - 0xDC00)"
  from v have "unat v - 0xDC00 < 1024" by simp
  then have "?d div 1024 = unat u - 0xD800" and "?d mod 1024 = unat v - 0xDC00"
    by simp_all
  with u v show ?thesis
    by (simp add: encode_utf16_char_def)
qed

lemma lowercase_units_identity: "lowercase_units (\<lambda>c. [c]) units = units"
proof (induction units rule: decode_utf16.induct)
  case (2 u us)
  show ?case
  proof (cases "u < 0xD800 \<or> 0xDFFF < u")
    case True
    with 2 show ?thesis by (simp add: encode_scalar_unit)
  next
    case surrogate: False
    show ?thesis
    proof (cases "0xDC00 \<le> u")
      case True
      with surrogate 2 show ?thesis by simp
    next
      case lead: False
      with surrogate 2 show ?thesis
        by (auto simp: encode_surrogate_pair not_less not_le split: list.split)
    qed
  qed
qed simp

section \<open>Import lines\<close>

text \<open>\<open>char::is_whitespace\<close> on the basic plane; a surrogate unit is no \<open>char\<close>.\<close>

definition is_trim_unit :: "u16 \<Rightarrow> bool" where
  "is_trim_unit u \<longleftrightarrow>
     9 \<le> u \<and> u \<le> 13 \<or> u = 32 \<or> u = 0x85 \<or> u = 0xA0 \<or> u = 0x1680 \<or>
     0x2000 \<le> u \<and> u \<le> 0x200A \<or> u = 0x2028 \<or> u = 0x2029 \<or> u = 0x202F \<or> u = 0x205F \<or> u = 0x3000"

text \<open>\<open>slice::split\<close>: the pieces between separators, at least one.\<close>

fun split_units :: "('a \<Rightarrow> bool) \<Rightarrow> 'a list \<Rightarrow> 'a list list" where
  "split_units p [] = [[]]"
| "split_units p (x # xs) =
     (if p x then [] # split_units p xs
      else case split_units p xs of [] \<Rightarrow> [[x]] | l # ls \<Rightarrow> (x # l) # ls)"

definition trimmed_slice :: "u16 list \<Rightarrow> u16 list option" where
  "trimmed_slice units =
     (let first = (case position (\<lambda>u. \<not> is_trim_unit u) units of
                     None \<Rightarrow> length units | Some i \<Rightarrow> i);
          last = (case rposition (\<lambda>u. \<not> is_trim_unit u) units of
                     None \<Rightarrow> first | Some i \<Rightarrow> i + 1)
      in if first < last then Some (take (last - first) (drop first units)) else None)"

definition trimmed_import_unit_slices :: "legacy_text \<Rightarrow> u16 list list" where
  "trimmed_import_unit_slices text =
     List.map_filter trimmed_slice (split_units (\<lambda>u. u = LF) text)"

definition parse_import_lines :: "legacy_text \<Rightarrow> legacy_text list" where
  "parse_import_lines text = trimmed_import_unit_slices text"

fun export_lines :: "legacy_text list \<Rightarrow> legacy_text" where
  "export_lines [] = []"
| "export_lines (line # lines) = push_unit (push_unit line CR) LF @ export_lines lines"

text \<open>Trimming by index is trimming from both ends.\<close>

definition trim_both :: "u16 list \<Rightarrow> u16 list" where
  "trim_both units = rev (dropWhile is_trim_unit (rev (dropWhile is_trim_unit units)))"

lemma position_dropWhile:
  "position (\<lambda>u. \<not> p u) xs = Some i \<Longrightarrow> dropWhile p xs = drop i xs"
  by (induction xs arbitrary: i) (auto split: if_splits)

lemma rposition_dropWhile_rev:
  assumes "rposition (\<lambda>u. \<not> p u) xs = Some i"
  shows "rev (dropWhile p (rev xs)) = take (Suc i) xs"
proof -
  from assms obtain j where j: "position (\<lambda>u. \<not> p u) (rev xs) = Some j" and i: "i = length xs - Suc j"
    by (auto simp: rposition_def)
  from position_bound [OF j] have "length xs - j = Suc i"
    by (simp add: i Suc_diff_Suc)
  with position_dropWhile [OF j] show ?thesis
    by (simp add: rev_drop)
qed

lemma trimmed_slice_trim_both:
  "trimmed_slice units = (if trim_both units = [] then None else Some (trim_both units))"
proof (cases "position (\<lambda>u. \<not> is_trim_unit u) units")
  case None
  then have d: "dropWhile is_trim_unit units = []"
    and r: "rposition (\<lambda>u. \<not> is_trim_unit u) units = None"
    by (simp_all add: position_None rposition_None)
  show ?thesis
    unfolding trimmed_slice_def trim_both_def None d r by simp
next
  case (Some i)
  then obtain j where j: "rposition (\<lambda>u. \<not> is_trim_unit u) units = Some j"
    by (metis not_None_eq position_None rposition_None)
  from Some j have i: "i < length units" "\<not> is_trim_unit (units ! i)"
    by (auto simp: position_Some)
  have ij: "i \<le> j"
    using i j by (auto simp: rposition_Some not_less [symmetric])
  have "units ! i \<in> set (drop i units)"
    using i(1) by (metis Cons_nth_drop_Suc list.set_intros(1))
  with i(2) obtain k where k: "rposition (\<lambda>u. \<not> is_trim_unit u) (drop i units) = Some k"
    by (metis not_None_eq rposition_None)
  have "rposition (\<lambda>u. \<not> is_trim_unit u) (take i units @ drop i units) = Some j"
    using j by simp
  with k i(1) have "rposition (\<lambda>u. \<not> is_trim_unit u) (drop i units) = Some (j - i)"
    unfolding rposition_append by auto
  then have "trim_both units = take (Suc (j - i)) (drop i units)"
    unfolding trim_both_def position_dropWhile [OF Some] by (rule rposition_dropWhile_rev)
  with Some j ij i show ?thesis
    by (simp add: trimmed_slice_def Suc_diff_le)
qed

text \<open>What an import keeps of a text, said without indices.\<close>

lemma parse_import_lines_trim:
  "parse_import_lines text =
     filter (\<lambda>l. l \<noteq> []) (map trim_both (split_units (\<lambda>u. u = LF) text))"
proof -
  have "List.map_filter trimmed_slice ls = filter (\<lambda>l. l \<noteq> []) (map trim_both ls)" for ls
    by (induction ls) (auto simp: List.map_filter_def trimmed_slice_trim_both)
  then show ?thesis
    by (simp add: parse_import_lines_def trimmed_import_unit_slices_def)
qed

lemma split_units_nonempty [simp]: "split_units p xs \<noteq> []"
  by (induction xs) (auto split: list.splits)

lemma split_units_append:
  "\<forall>x\<in>set xs. \<not> p x \<Longrightarrow> p y \<Longrightarrow> split_units p (xs @ y # ys) = xs # split_units p ys"
  by (induction xs) auto

lemma trim_both_CR [simp]: "trim_both [] = []"
  by (simp add: trim_both_def)

definition importable_line :: "legacy_text \<Rightarrow> bool" where
  "importable_line l \<longleftrightarrow>
     l \<noteq> [] \<and> LF \<notin> set l \<and> \<not> is_trim_unit (hd l) \<and> \<not> is_trim_unit (last l)"

lemma trim_both_importable:
  assumes "importable_line l"
  shows "trim_both (l @ [CR]) = l"
proof -
  from assms have "dropWhile is_trim_unit (l @ [CR]) = l @ [CR]"
    by (cases l) (auto simp: importable_line_def)
  moreover have "is_trim_unit CR" by (simp add: is_trim_unit_def)
  moreover from assms have "dropWhile is_trim_unit (rev l) = rev l"
    by (cases l rule: rev_cases) (auto simp: importable_line_def)
  ultimately show ?thesis
    by (simp add: trim_both_def)
qed

lemma parse_export_lines:
  assumes "\<forall>l\<in>set ls. importable_line l"
  shows "parse_import_lines (export_lines ls) = ls"
  using assms
proof (induction ls)
  case Nil
  show ?case by (simp add: parse_import_lines_trim)
next
  case (Cons l ls)
  have "split_units (\<lambda>u. u = LF) (export_lines (l # ls)) =
      (l @ [CR]) # split_units (\<lambda>u. u = LF) (export_lines ls)"
    using Cons.prems split_units_append [of "l @ [CR]" "\<lambda>u. u = LF" LF]
    by (auto simp: push_unit_def importable_line_def)
  with Cons show ?case
    by (simp add: parse_import_lines_trim trim_both_importable) (simp add: importable_line_def)
qed

end
