(* ===== verification/Leaf_Name.thy ===== *)
theory Leaf_Name
  imports Legacy_Text
begin

text \<open>
  \<open>crates/darknamer-core/src/windows_leaf_name.rs\<close>: the validation of one exact Windows leaf
  name, check by check in the source's order, against a declarative description of the safe
  names. The lemmas at the end are what paths and the in-memory backend rely on: a valid
  leaf holds no separator, and ASCII case folding does not change validity.
\<close>

definition MAX_WINDOWS_LEAF_NAME_UTF16_UNITS :: usize where
  "MAX_WINDOWS_LEAF_NAME_UTF16_UNITS = 255"

datatype windows_leaf_name_error =
    Empty | ContainsNul | ContainsSeparator | DotComponent | InvalidCharacter
  | ReservedDeviceName | TrailingDotOrSpace | TooLong

definition ascii_upper :: "u16 \<Rightarrow> u16" where
  "ascii_upper u = (if 97 \<le> u \<and> u \<le> 122 then u - 32 else u)"

definition to_ascii_uppercase :: "u8 \<Rightarrow> u8" where
  "to_ascii_uppercase b = (if 97 \<le> b \<and> b \<le> 122 then b - 32 else b)"

definition matches_ascii_ignore_case :: "u16 list \<Rightarrow> u8 list \<Rightarrow> bool" where
  "matches_ascii_ignore_case units expected \<longleftrightarrow>
     length units = length expected \<and>
     (\<forall>(a, e) \<in> set (zip units expected). ascii_upper a = ucast (to_ascii_uppercase e))"

definition is_numbered_device :: "u16 list \<Rightarrow> u8 list \<Rightarrow> bool" where
  "is_numbered_device stem prefix \<longleftrightarrow>
     length stem = 4 \<and> matches_ascii_ignore_case (take 3 stem) prefix \<and>
     (49 \<le> stem ! 3 \<and> stem ! 3 \<le> 57 \<or> stem ! 3 \<in> {0x00B9, 0x00B2, 0x00B3})"

definition is_reserved_device_name :: "u16 list \<Rightarrow> bool" where
  "is_reserved_device_name units \<longleftrightarrow>
     (let stem_end = (case position (\<lambda>u. u = DOT) units of None \<Rightarrow> length units | Some i \<Rightarrow> i);
          stem = take stem_end units
      in matches_ascii_ignore_case stem [67, 79, 78] \<or>
         matches_ascii_ignore_case stem [80, 82, 78] \<or>
         matches_ascii_ignore_case stem [65, 85, 88] \<or>
         matches_ascii_ignore_case stem [78, 85, 76] \<or>
         matches_ascii_ignore_case stem [67, 76, 79, 67, 75, 36] \<or>
         is_numbered_device stem [67, 79, 77] \<or>
         is_numbered_device stem [76, 80, 84])"

definition validate_windows_leaf_name :: "legacy_text \<Rightarrow> windows_leaf_name_error + unit" where
  "validate_windows_leaf_name units =
     (if units = [] then Inl Empty
      else if MAX_WINDOWS_LEAF_NAME_UTF16_UNITS < length units then Inl TooLong
      else if units = [DOT] \<or> units = [DOT, DOT] then Inl DotComponent
      else if 0 \<in> set units then Inl ContainsNul
      else if \<exists>u\<in>set units. u = SLASH \<or> u = BACKSLASH then Inl ContainsSeparator
      else if \<exists>u\<in>set units. u < 32 \<or> u \<in> {60, 62, 58, 34, 124, 63, 42} then Inl InvalidCharacter
      else if last units = DOT \<or> last units = 32 then Inl TrailingDotOrSpace
      else if is_reserved_device_name units then Inl ReservedDeviceName
      else Inr ())"

text \<open>The abbreviation used by the clients of the validation.\<close>

definition valid_leaf :: "legacy_text \<Rightarrow> bool" where
  "valid_leaf units \<longleftrightarrow> validate_windows_leaf_name units = Inr ()"

section \<open>The declarative description\<close>

text \<open>
  The forbidden units of a Windows name, the base name in front of the first dot, and the
  reserved base names in upper case.
\<close>

definition forbidden_unit :: "u16 \<Rightarrow> bool" where
  "forbidden_unit u \<longleftrightarrow> u < 32 \<or> u \<in> {34, 42, 47, 58, 60, 62, 63, 92, 124}"

definition base_name :: "u16 list \<Rightarrow> u16 list" where
  "base_name units = takeWhile (\<lambda>u. u \<noteq> DOT) units"

definition device_digits :: "u16 set" where
  "device_digits = {49..57} \<union> {0x00B2, 0x00B3, 0x00B9}"

definition reserved_bases :: "u16 list set" where
  "reserved_bases =
     {[67, 79, 78], [80, 82, 78], [65, 85, 88], [78, 85, 76], [67, 76, 79, 67, 75, 36]} \<union>
     {p @ [d] |p d. p \<in> {[67, 79, 77], [76, 80, 84]} \<and> d \<in> device_digits}"

lemma take_position_takeWhile:
  "take (case position (\<lambda>u. \<not> p u) xs of None \<Rightarrow> length xs | Some i \<Rightarrow> i) xs = takeWhile p xs"
proof (induction xs)
  case (Cons x xs)
  show ?case
  proof (cases "p x")
    case True
    then have "(case position (\<lambda>u. \<not> p u) (x # xs) of None \<Rightarrow> length (x # xs) | Some i \<Rightarrow> i) =
        Suc (case position (\<lambda>u. \<not> p u) xs of None \<Rightarrow> length xs | Some i \<Rightarrow> i)"
      by (simp del: position_None split: option.split)
    with Cons True show ?thesis by (simp only: take_Suc_Cons takeWhile.simps if_True)
  qed simp
qed simp

lemma map_eq_map_iff: "map f xs = map g ys \<longleftrightarrow> list_all2 (\<lambda>x y. f x = g y) xs ys"
  by (auto simp: list_eq_iff_nth_eq list_all2_conv_all_nth)

lemma matches_upper:
  assumes "\<forall>e\<in>set expected. \<not> (97 \<le> e \<and> e \<le> 122)"
  shows "matches_ascii_ignore_case units expected \<longleftrightarrow> map ascii_upper units = map ucast expected"
proof -
  have "matches_ascii_ignore_case units expected \<longleftrightarrow>
      list_all2 (\<lambda>a e. ascii_upper a = ucast (to_ascii_uppercase e)) units expected"
    by (simp add: matches_ascii_ignore_case_def list_all2_iff)
  also have "\<dots> \<longleftrightarrow> list_all2 (\<lambda>a e. ascii_upper a = ucast e) units expected"
    using assms by (intro list.rel_cong) (auto simp: to_ascii_uppercase_def)
  finally show ?thesis by (simp only: map_eq_map_iff)
qed

lemma ascii_upper_non_letter: "\<not> (97 \<le> u \<and> u \<le> 122) \<Longrightarrow> ascii_upper u = u"
  by (auto simp: ascii_upper_def)

lemma ascii_upper_not_digit: "97 \<le> u \<Longrightarrow> u \<le> 122 \<Longrightarrow> 65 \<le> ascii_upper u \<and> ascii_upper u \<le> 90"
  unfolding ascii_upper_def by unat_arith

lemma ascii_upper_device_digit: "ascii_upper u \<in> device_digits \<longleftrightarrow> u \<in> device_digits"
proof (cases "97 \<le> u \<and> u \<le> 122")
  case True
  then have "65 \<le> ascii_upper u" "ascii_upper u \<le> 90" by (auto dest: ascii_upper_not_digit)
  then have "ascii_upper u \<notin> device_digits"
    by (auto simp: device_digits_def) unat_arith+
  moreover from True have "u \<notin> device_digits"
    by (auto simp: device_digits_def) unat_arith+
  ultimately show ?thesis by simp
next
  case False
  then show ?thesis by (simp add: ascii_upper_non_letter)
qed

lemma is_numbered_device_upper:
  assumes "length prefix = 3" and "\<forall>e\<in>set prefix. \<not> (97 \<le> e \<and> e \<le> 122)"
  shows "is_numbered_device stem prefix \<longleftrightarrow>
    (\<exists>d\<in>device_digits. map ascii_upper stem = map ucast prefix @ [d])"
proof (cases "length stem = 4")
  case True
  then obtain a b c d where stem: "stem = [a, b, c, d]"
    by (auto simp: length_Suc_conv numeral_eq_Suc)
  have "is_numbered_device stem prefix \<longleftrightarrow>
      map ascii_upper [a, b, c] = map ucast prefix \<and> d \<in> device_digits"
    unfolding is_numbered_device_def stem using assms(2)
    by (auto simp: matches_upper device_digits_def)
  also have "\<dots> \<longleftrightarrow> (\<exists>d'\<in>device_digits. map ascii_upper stem = map ucast prefix @ [d'])"
    using assms(1) by (auto simp: stem length_Suc_conv numeral_eq_Suc ascii_upper_device_digit)
  finally show ?thesis .
next
  case False
  then show ?thesis
    using assms(1) by (auto simp: is_numbered_device_def dest: arg_cong [where f = length])
qed

lemma is_reserved_device_name_iff:
  "is_reserved_device_name units \<longleftrightarrow> map ascii_upper (base_name units) \<in> reserved_bases"
proof -
  have stem: "take (case position (\<lambda>u. u = DOT) units of None \<Rightarrow> length units | Some i \<Rightarrow> i) units
      = base_name units"
    using take_position_takeWhile [where p = "\<lambda>u. u \<noteq> DOT" and xs = units]
    by (simp add: base_name_def)
  show ?thesis
    unfolding is_reserved_device_name_def stem Let_def reserved_bases_def
    by (auto simp: matches_upper is_numbered_device_upper)
qed

lemma valid_leaf_iff:
  "valid_leaf units \<longleftrightarrow>
     units \<noteq> [] \<and> length units \<le> 255 \<and> (\<forall>u\<in>set units. \<not> forbidden_unit u) \<and>
     last units \<notin> {DOT, 32} \<and> map ascii_upper (base_name units) \<notin> reserved_bases"
proof -
  have "forbidden_unit u \<longleftrightarrow>
      (u = SLASH \<or> u = BACKSLASH) \<or> (u < 32 \<or> u \<in> {60, 62, 58, 34, 124, 63, 42})" for u
    by (simp only: forbidden_unit_def insert_iff empty_iff) blast
  moreover have "forbidden_unit 0"
    by (simp add: forbidden_unit_def)
  ultimately have "(\<forall>u\<in>set units. \<not> forbidden_unit u) \<longleftrightarrow>
      \<not> 0 \<in> set units \<and> \<not> (\<exists>u\<in>set units. u = SLASH \<or> u = BACKSLASH) \<and>
      \<not> (\<exists>u\<in>set units. u < 32 \<or> u \<in> {60, 62, 58, 34, 124, 63, 42})"
    by blast
  moreover have "units = [DOT] \<or> units = [DOT, DOT] \<Longrightarrow> last units \<in> {DOT, 32}"
    by auto
  moreover have "valid_leaf units \<longleftrightarrow>
      units \<noteq> [] \<and> \<not> 255 < length units \<and> \<not> (units = [DOT] \<or> units = [DOT, DOT]) \<and>
      \<not> 0 \<in> set units \<and> \<not> (\<exists>u\<in>set units. u = SLASH \<or> u = BACKSLASH) \<and>
      \<not> (\<exists>u\<in>set units. u < 32 \<or> u \<in> {60, 62, 58, 34, 124, 63, 42}) \<and>
      last units \<notin> {DOT, 32} \<and> \<not> is_reserved_device_name units"
    unfolding valid_leaf_def validate_windows_leaf_name_def MAX_WINDOWS_LEAF_NAME_UTF16_UNITS_def
    by (simp only: if_Inl_eq_Inr simp_thms insert_iff empty_iff)
  ultimately show ?thesis
    unfolding is_reserved_device_name_iff not_less by argo
qed

section \<open>What the clients use\<close>

lemma valid_leaf_no_separator:
  "valid_leaf units \<Longrightarrow> u \<in> set units \<Longrightarrow> u \<noteq> BACKSLASH \<and> u \<noteq> SLASH \<and> u \<noteq> COLON"
  by (auto simp: valid_leaf_iff forbidden_unit_def)

lemma valid_leaf_nonempty: "valid_leaf units \<Longrightarrow> units \<noteq> []"
  by (simp add: valid_leaf_iff)

lemma valid_leaf_length: "valid_leaf units \<Longrightarrow> length units \<le> MAX_WINDOWS_LEAF_NAME_UTF16_UNITS"
  by (simp add: valid_leaf_iff MAX_WINDOWS_LEAF_NAME_UTF16_UNITS_def)

text \<open>The ASCII lower-casing of the comparison keys.\<close>

definition ascii_lower :: "u16 \<Rightarrow> u16" where
  "ascii_lower u = (if 65 \<le> u \<and> u \<le> 90 then u + 32 else u)"

lemma ascii_lower_cases:
  obtains "65 \<le> u" "u \<le> 90" "ascii_lower u = u + 32" "97 \<le> ascii_lower u" "ascii_lower u \<le> 122"
  | "\<not> (65 \<le> u \<and> u \<le> 90)" "ascii_lower u = u"
proof (cases "65 \<le> u \<and> u \<le> 90")
  case True
  then have u: "65 \<le> unat u" "unat u \<le> 90" by (simp_all add: word_le_nat_alt)
  then have "unat (u + 32) = unat u + 32" by (simp add: unat_word_ariths)
  with u have "97 \<le> u + 32" "u + 32 \<le> 122" by (simp_all add: word_le_nat_alt)
  with True that(1) show ?thesis by (simp add: ascii_lower_def)
next
  case False
  with that(2) show ?thesis by (auto simp: ascii_lower_def)
qed

lemma ascii_lower_eq_iff:
  assumes "\<not> (65 \<le> c \<and> c \<le> 90)" and "\<not> (97 \<le> c \<and> c \<le> 122)"
  shows "ascii_lower u = c \<longleftrightarrow> u = c"
  using assms by (cases rule: ascii_lower_cases [of u]) auto

lemma ascii_lower_idem [simp]: "ascii_lower (ascii_lower u) = ascii_lower u"
  by (cases rule: ascii_lower_cases [of u]; simp add: ascii_lower_def) unat_arith

lemma ascii_upper_lower [simp]: "ascii_upper (ascii_lower u) = ascii_upper u"
proof (cases rule: ascii_lower_cases [of u])
  case 1
  moreover from 1 have "\<not> (97 \<le> u \<and> u \<le> 122)" by unat_arith
  ultimately show ?thesis by (simp add: ascii_upper_def)
qed simp

lemma ascii_lower_less_32 [simp]: "ascii_lower u < 32 \<longleftrightarrow> u < 32"
  by (cases rule: ascii_lower_cases [of u]) (simp, unat_arith, simp)

lemma forbidden_unit_lower [simp]: "forbidden_unit (ascii_lower u) \<longleftrightarrow> forbidden_unit u"
  by (simp add: forbidden_unit_def ascii_lower_eq_iff)

lemma base_name_lower: "base_name (map ascii_lower units) = map ascii_lower (base_name units)"
  by (simp add: base_name_def takeWhile_map comp_def ascii_lower_eq_iff)

lemma valid_leaf_lower: "valid_leaf (map ascii_lower units) \<longleftrightarrow> valid_leaf units"
proof (cases "units = []")
  case False
  then show ?thesis
    by (simp add: valid_leaf_iff base_name_lower last_map comp_def ascii_lower_eq_iff)
qed simp

end
