(* ===== verification/List_Item.thy ===== *)
theory List_Item
  imports Leaf_Name
begin

text \<open>
  One row of the workbench: \<open>LegacyListItem\<close> of \<open>crates/darknamer-core/src/lib.rs\<close> with the
  path helpers it is built from (\<open>source_parent_units\<close>, \<open>path_name\<close>, \<open>planned_path\<close>,
  \<open>stem_extension_units\<close>, \<open>parent_folder_units\<close>) and \<open>PlannedChangeKind\<close>. The lemmas show
  that the index-based comparison of a planned path is equality, when splitting and joining
  a path are inverse, and that recorded moves keep the length of a planned path.

  The \<open>Arc\<close> around \<open>destination_parent\<close> only shares storage: rows hold the text.
\<close>

record legacy_list_item =
  source_path :: legacy_text
  current_name :: legacy_text
  proposed_name :: legacy_text
  destination_parent :: legacy_text
  is_directory :: bool
  file_size :: u32
  actual_size :: u64
  created :: u64
  modified :: u64

section \<open>Paths\<close>

definition is_path_separator :: "u16 \<Rightarrow> bool" where
  "is_path_separator u \<longleftrightarrow> u = BACKSLASH \<or> u = SLASH"

definition source_parent_units :: "legacy_text \<Rightarrow> u16 list" where
  "source_parent_units path =
     (case rposition (\<lambda>u. u = BACKSLASH) path of
        None \<Rightarrow> []
      | Some index \<Rightarrow>
          (let preserves_root_separator =
                 (index = 0 \<or> take index path \<noteq> [] \<and> last (take index path) = COLON)
           in take (index + of_bool preserves_root_separator) path))"

definition path_root :: "legacy_text \<Rightarrow> legacy_text" where
  "path_root path = source_parent_units path"

definition path_name :: "legacy_text \<Rightarrow> legacy_text" where
  "path_name path =
     drop (case rposition (\<lambda>u. u = BACKSLASH) path of None \<Rightarrow> 0 | Some index \<Rightarrow> index + 1) path"

definition destination_separator_units :: "u16 list \<Rightarrow> usize" where
  "destination_separator_units parent =
     of_bool (parent = [] \<or> \<not> is_path_separator (last parent))"

definition checked_planned_path_units :: "u16 list \<Rightarrow> usize \<Rightarrow> usize option" where
  "checked_planned_path_units parent proposed_name_units =
     Option.bind (checked_add (length parent) (destination_separator_units parent))
       (\<lambda>n. checked_add n proposed_name_units)"

definition new_with_actual_size ::
  "legacy_text \<Rightarrow> bool \<Rightarrow> u32 \<Rightarrow> u64 \<Rightarrow> u64 \<Rightarrow> u64 \<Rightarrow> legacy_list_item" where
  "new_with_actual_size path dir size32 size64 created_at modified_at =
     \<lparr>source_path = path, current_name = path_name path, proposed_name = path_name path,
      destination_parent = path_root path, is_directory = dir, file_size = size32,
      actual_size = size64, created = created_at, modified = modified_at\<rparr>"

definition new_item :: "legacy_text \<Rightarrow> bool \<Rightarrow> u32 \<Rightarrow> u64 \<Rightarrow> u64 \<Rightarrow> legacy_list_item" where
  "new_item path dir size32 created_at modified_at =
     new_with_actual_size path dir size32 (ucast size32) created_at modified_at"

definition planned_path :: "legacy_list_item \<Rightarrow> legacy_text" where
  "planned_path item =
     (let path = destination_parent item;
          path = (if destination_separator_units (destination_parent item) \<noteq> 0
                  then push_unit path BACKSLASH else path)
      in push path (proposed_name item))"

definition planned_path_matches_source :: "legacy_list_item \<Rightarrow> bool" where
  "planned_path_matches_source item =
     (let parent = destination_parent item; name = proposed_name item in
      case checked_planned_path_units parent (length name) of
        None \<Rightarrow> False
      | Some expected_len \<Rightarrow>
          (let source = source_path item; separator_units = destination_separator_units parent in
           if length source \<noteq> expected_len \<or> take (length parent) source \<noteq> parent then False
           else (separator_units = 0 \<or>
                  length parent < length source \<and> source ! length parent = BACKSLASH) \<and>
                drop (length parent + separator_units) source = name))"

datatype planned_change_kind = NoChange | Rename | Move | MoveAndRename

fun is_changed :: "planned_change_kind \<Rightarrow> bool" where
  "is_changed NoChange = False"
| "is_changed _ = True"

fun renames :: "planned_change_kind \<Rightarrow> bool" where
  "renames Rename = True"
| "renames MoveAndRename = True"
| "renames _ = False"

fun moves :: "planned_change_kind \<Rightarrow> bool" where
  "moves Move = True"
| "moves MoveAndRename = True"
| "moves _ = False"

definition planned_change_kind_of :: "legacy_list_item \<Rightarrow> planned_change_kind" where
  "planned_change_kind_of item =
     (if planned_path_matches_source item then NoChange
      else
        (let renamed = (current_name item \<noteq> proposed_name item);
             moved = (source_parent_units (source_path item) \<noteq> destination_parent item)
         in case (moved, renamed) of
              (False, False) \<Rightarrow> Move
            | (True, False) \<Rightarrow> Move
            | (False, True) \<Rightarrow> Rename
            | (True, True) \<Rightarrow> MoveAndRename))"

text \<open>\<open>stem_extension_units\<close>: a directory has no extension; a file's starts at its last dot.\<close>

definition stem_extension_units :: "legacy_list_item \<Rightarrow> u16 list \<times> u16 list" where
  "stem_extension_units item =
     (let name = proposed_name item;
          name_start = (case rposition (\<lambda>u. u = BACKSLASH) name of None \<Rightarrow> 0 | Some i \<Rightarrow> i + 1)
      in if is_directory item then (drop name_start name, [])
         else case rposition (\<lambda>u. u = DOT) name of
                None \<Rightarrow> (drop name_start name, [])
              | Some index \<Rightarrow>
                  (take (max index name_start - name_start) (drop name_start name),
                   drop index name))"

definition parent_folder_units :: "legacy_text \<Rightarrow> u16 list option" where
  "parent_folder_units root =
     (let start = (case rposition (\<lambda>u. u = BACKSLASH) root of None \<Rightarrow> 0 | Some i \<Rightarrow> i + 1)
      in if start > 0 \<and> start < length root then Some (drop start root) else None)"

section \<open>Sizes of planned paths\<close>

text \<open>The length of a planned path with parent \<open>p\<close> and \<open>n\<close> name units.\<close>

definition planned_units :: "u16 list \<Rightarrow> usize \<Rightarrow> usize" where
  "planned_units p n = length p + destination_separator_units p + n"

lemma destination_separator_units_le: "destination_separator_units p \<le> 1"
  by (simp add: destination_separator_units_def)

lemma length_planned_path [counter_simps]:
  "length (planned_path item) = planned_units (destination_parent item) (length (proposed_name item))"
  by (simp add: planned_path_def planned_units_def destination_separator_units_def push_def
      push_unit_def)

lemma checked_planned_path_units_Some [simp]:
  "checked_planned_path_units p n = Some u \<longleftrightarrow> u = planned_units p n \<and> planned_units p n < USIZE_LIMIT"
  by (auto simp: checked_planned_path_units_def planned_units_def bind_eq_Some_conv)

lemma checked_planned_path_units_None [simp]:
  "checked_planned_path_units p n = None \<longleftrightarrow> USIZE_LIMIT \<le> planned_units p n"
  by (metis checked_planned_path_units_Some not_None_eq not_less)

text \<open>The three index tests of \<open>planned_path_matches_source\<close> are equality of paths.\<close>

lemma planned_path_matches_source_iff:
  assumes "length (planned_path item) < USIZE_LIMIT"
  shows "planned_path_matches_source item \<longleftrightarrow> source_path item = planned_path item"
proof -
  let ?p = "destination_parent item" and ?n = "proposed_name item" and ?s = "source_path item"
  have some: "checked_planned_path_units ?p (length ?n) = Some (planned_units ?p (length ?n))"
    using assms by (simp add: length_planned_path)
  have len: "?s = planned_path item \<Longrightarrow> length ?s = planned_units ?p (length ?n)"
    by (simp add: length_planned_path)
  show ?thesis
  proof (cases "destination_separator_units ?p = 0")
    case True
    then have "planned_path item = ?p @ ?n"
      by (simp add: planned_path_def push_def)
    then have "?s = planned_path item \<longleftrightarrow> take (length ?p) ?s = ?p \<and> drop (length ?p) ?s = ?n"
      by (metis append_eq_conv_conj append_take_drop_id)
    moreover from True have "planned_path_matches_source item \<longleftrightarrow>
        length ?s = planned_units ?p (length ?n) \<and> take (length ?p) ?s = ?p \<and> drop (length ?p) ?s = ?n"
      by (simp add: planned_path_matches_source_def Let_def some) blast
    ultimately show ?thesis using len by blast
  next
    case False
    then have sep: "destination_separator_units ?p = 1"
      using destination_separator_units_le [of ?p] by simp
    then have "planned_path item = ?p @ BACKSLASH # ?n"
      by (simp add: planned_path_def push_def push_unit_def)
    then have "?s = planned_path item \<longleftrightarrow>
        take (length ?p) ?s = ?p \<and> drop (length ?p) ?s = BACKSLASH # ?n"
      by (metis append_eq_conv_conj append_take_drop_id)
    moreover from sep have "planned_path_matches_source item \<longleftrightarrow>
        length ?s = planned_units ?p (length ?n) \<and> take (length ?p) ?s = ?p \<and>
        drop (length ?p) ?s = BACKSLASH # ?n"
      by (auto simp: planned_path_matches_source_def Let_def some drop_eq_Cons_iff)
    ultimately show ?thesis using len by blast
  qed
qed

lemma planned_change_kind_unchanged:
  assumes "length (planned_path item) < USIZE_LIMIT"
  shows "is_changed (planned_change_kind_of item) \<longleftrightarrow> source_path item \<noteq> planned_path item"
  using planned_path_matches_source_iff [OF assms]
  by (auto simp: planned_change_kind_of_def Let_def split: bool.splits)

section \<open>Splitting and joining\<close>

lemma rposition_no_backslash:
  "BACKSLASH \<notin> set path \<Longrightarrow> rposition (\<lambda>u. u = BACKSLASH) path = None"
  by (auto simp: rposition_None)

lemma rposition_last_backslash:
  "BACKSLASH \<notin> set n \<Longrightarrow> rposition (\<lambda>u. u = BACKSLASH) (p @ BACKSLASH # n) = Some (length p)"
  using rposition_append [of "\<lambda>u. u = BACKSLASH" "p @ [BACKSLASH]" n]
  by (simp add: rposition_no_backslash rposition_snoc)

lemma path_name_append: "BACKSLASH \<notin> set n \<Longrightarrow> path_name (p @ BACKSLASH # n) = n"
  by (simp add: path_name_def rposition_last_backslash)

lemma source_parent_units_append:
  "BACKSLASH \<notin> set n \<Longrightarrow>
     source_parent_units (p @ BACKSLASH # n) =
       (if p = [] \<or> last p = COLON then p @ [BACKSLASH] else p)"
  by (auto simp: source_parent_units_def rposition_last_backslash)

lemma path_without_backslash:
  assumes "BACKSLASH \<notin> set path"
  shows "path_name path = path" and "source_parent_units path = []"
  unfolding path_name_def source_parent_units_def rposition_no_backslash [OF assms] by simp_all

lemma path_cases [case_names leaf split]:
  assumes "BACKSLASH \<notin> set path \<Longrightarrow> P"
    and "\<And>p n. path = p @ BACKSLASH # n \<Longrightarrow> BACKSLASH \<notin> set n \<Longrightarrow> P"
  shows P
  using assms split_list_last [of BACKSLASH path] by blast

lemma path_name_no_backslash: "BACKSLASH \<notin> set (path_name path)"
  by (cases path rule: path_cases) (auto simp: path_without_backslash path_name_append)

text \<open>
  A fresh row plans its own source path exactly when the path has a last backslash and no
  separator directly in front of it.
\<close>

definition canonical_path :: "legacy_text \<Rightarrow> bool" where
  "canonical_path path \<longleftrightarrow>
     (\<exists>p n. path = p @ BACKSLASH # n \<and> BACKSLASH \<notin> set n \<and>
       (p = [] \<or> \<not> is_path_separator (last p)))"

lemma is_path_separator_chars [simp]:
  "is_path_separator BACKSLASH" "is_path_separator SLASH" "\<not> is_path_separator COLON"
  by (simp_all add: is_path_separator_def)

lemma planned_path_join:
  "planned_path item = destination_parent item @
     (if destination_separator_units (destination_parent item) = 0 then [] else [BACKSLASH]) @
     proposed_name item"
  by (simp add: planned_path_def push_def push_unit_def)

lemma planned_path_new_iff:
  "planned_path (new_with_actual_size path dir s a c m) = path \<longleftrightarrow> canonical_path path"
proof (cases path rule: path_cases)
  case leaf
  then show ?thesis
    by (auto simp: planned_path_join new_with_actual_size_def path_root_def path_without_backslash
        destination_separator_units_def canonical_path_def)
next
  case (split p n)
  have "canonical_path path \<longleftrightarrow> p = [] \<or> \<not> is_path_separator (last p)"
    unfolding canonical_path_def split(1) using split(2)
    by (metis path_name_append append_same_eq)
  then show ?thesis
    using split by (auto simp: planned_path_join new_with_actual_size_def path_root_def
        path_name_append source_parent_units_append destination_separator_units_def)
qed

text \<open>
  The parents a row can be moved into without the recorded path changing its planned length:
  no trailing separator, or a root that keeps one backslash.
\<close>

definition normal_parent :: "legacy_text \<Rightarrow> bool" where
  "normal_parent p \<longleftrightarrow>
     p = [] \<or> \<not> is_path_separator (last p) \<or>
     last p = BACKSLASH \<and> (butlast p = [] \<or> \<not> is_path_separator (last (butlast p)))"

lemma recorded_path:
  assumes "normal_parent (destination_parent item)" and "BACKSLASH \<notin> set (proposed_name item)"
  defines "path \<equiv> planned_path item"
  shows "path_name path = proposed_name item"
    and "source_parent_units path @
      (if destination_separator_units (source_parent_units path) = 0 then [] else [BACKSLASH]) @
      proposed_name item = path"
proof -
  let ?d = "destination_parent item" and ?n = "proposed_name item"
  obtain p where path: "path = p @ BACKSLASH # ?n"
    and p: "p = [] \<or> \<not> is_path_separator (last p)"
  proof (cases "?d \<noteq> [] \<and> last ?d = BACKSLASH")
    case True
    then have "path = butlast ?d @ BACKSLASH # ?n"
      by (simp add: path_def planned_path_join destination_separator_units_def)
         (metis append.assoc append_Cons append_Nil append_butlast_last_id)
    moreover from True assms(1) have "butlast ?d = [] \<or> \<not> is_path_separator (last (butlast ?d))"
      by (auto simp: normal_parent_def)
    ultimately show ?thesis by (rule that)
  next
    case False
    with assms(1) have "?d = [] \<or> \<not> is_path_separator (last ?d)"
      by (auto simp: normal_parent_def)
    moreover from this have "path = ?d @ BACKSLASH # ?n"
      by (auto simp: path_def planned_path_join destination_separator_units_def)
    ultimately show ?thesis using that by blast
  qed
  then show "path_name path = proposed_name item"
    and "source_parent_units path @
      (if destination_separator_units (source_parent_units path) = 0 then [] else [BACKSLASH]) @
      proposed_name item = path"
    using assms(2)
    by (auto simp: source_parent_units_append path_name_append destination_separator_units_def)
qed

lemma planned_units_recorded:
  assumes "normal_parent (destination_parent item)" and "BACKSLASH \<notin> set (proposed_name item)"
  shows "planned_units (source_parent_units (planned_path item)) (length (path_name (planned_path item)))
    = length (planned_path item)"
proof -
  note r = recorded_path [OF assms]
  have "length (planned_path item) = length (source_parent_units (planned_path item) @
      (if destination_separator_units (source_parent_units (planned_path item)) = 0 then []
       else [BACKSLASH]) @ proposed_name item)"
    by (simp only: r(2))
  then show ?thesis
    using destination_separator_units_le [of "source_parent_units (planned_path item)"]
    by (auto simp: planned_units_def r(1) split: if_splits)
qed

section \<open>Stem and extension\<close>

text \<open>Without a backslash in the proposal, stem and extension are a partition of it.\<close>

lemma stem_extension_plain:
  "BACKSLASH \<notin> set (proposed_name item) \<Longrightarrow> stem_extension_units item =
     (if is_directory item then (proposed_name item, [])
      else case rposition (\<lambda>u. u = DOT) (proposed_name item) of
             None \<Rightarrow> (proposed_name item, [])
           | Some i \<Rightarrow> (take i (proposed_name item), drop i (proposed_name item)))"
  by (simp add: stem_extension_units_def rposition_no_backslash Let_def split: option.split)

lemma stem_extension_append:
  "BACKSLASH \<notin> set (proposed_name item) \<Longrightarrow>
     fst (stem_extension_units item) @ snd (stem_extension_units item) = proposed_name item"
  by (simp add: stem_extension_plain split: option.split)

lemma stem_extension_length:
  "length (fst (stem_extension_units item)) + length (snd (stem_extension_units item))
     \<le> length (proposed_name item)"
  by (auto simp: stem_extension_units_def Let_def split: option.splits dest: rposition_bound)

lemma stem_extension_directory: "is_directory item \<Longrightarrow> snd (stem_extension_units item) = []"
  by (simp add: stem_extension_units_def Let_def)

lemma stem_extension_no_dot:
  assumes "BACKSLASH \<notin> set (proposed_name item)" and "\<not> is_directory item"
  shows "DOT \<notin> set (tl (snd (stem_extension_units item)))"
    and "snd (stem_extension_units item) \<noteq> [] \<Longrightarrow> hd (snd (stem_extension_units item)) = DOT"
    and "snd (stem_extension_units item) = [] \<Longrightarrow> DOT \<notin> set (proposed_name item)"
proof -
  note plain = stem_extension_plain [OF assms(1)]
  show "DOT \<notin> set (tl (snd (stem_extension_units item)))"
    using assms(2) rposition_split(2) [of "\<lambda>u. u = DOT" "proposed_name item"]
    by (auto simp: plain drop_Suc tl_drop split: option.splits)
  show "snd (stem_extension_units item) \<noteq> [] \<Longrightarrow> hd (snd (stem_extension_units item)) = DOT"
    using assms(2) rposition_split(1) [of "\<lambda>u. u = DOT" "proposed_name item"]
    by (auto simp: plain hd_drop_conv_nth split: option.splits)
  show "snd (stem_extension_units item) = [] \<Longrightarrow> DOT \<notin> set (proposed_name item)"
    using assms(2)
    by (auto simp: plain rposition_None split: option.splits dest: rposition_bound)
qed

end
