(* ===== verification/List_Model.thy ===== *)
theory List_Model
  imports List_Item
begin

text \<open>
  \<open>LegacyList\<close> of \<open>crates/darknamer-core/src/lib.rs\<close>: the rows, the two aggregate size
  counters, the identity and revision that bind append indices, and the staged update every
  proposal command goes through (\<open>try_changed_proposals\<close>, \<open>changed_proposals\<close>).

  \<open>wf_list\<close> is the invariant: the counters are the exact sums and within their budgets. The
  locale \<open>proposal_command\<close> is the contract of the fallible commands (all or nothing, exact
  rows, exact counters) and \<open>shrinking_command\<close> that of the infallible ones; the commands of
  \<^verbatim>\<open>Proposal_Transforms\<close> interpret them.
\<close>

definition MAX_PROPOSED_NAME_UTF16_UNITS :: usize where
  "MAX_PROPOSED_NAME_UTF16_UNITS = MAX_WINDOWS_LEAF_NAME_UTF16_UNITS"

definition MAX_TOTAL_PROPOSED_NAME_UTF16_UNITS :: usize where
  "MAX_TOTAL_PROPOSED_NAME_UTF16_UNITS = 2 * 1024 * 1024"

definition MAX_DESTINATION_PARENT_UTF16_UNITS :: usize where
  "MAX_DESTINATION_PARENT_UTF16_UNITS = 32767"

definition MAX_TOTAL_DESTINATION_PARENT_UTF16_UNITS :: usize where
  "MAX_TOTAL_DESTINATION_PARENT_UTF16_UNITS = 2 * 1024 * 1024"

definition MAX_TOTAL_PLANNED_PATH_UTF16_UNITS :: usize where
  "MAX_TOTAL_PLANNED_PATH_UTF16_UNITS = 2 * 1024 * 1024"

lemmas budget_defs =
  MAX_PROPOSED_NAME_UTF16_UNITS_def MAX_WINDOWS_LEAF_NAME_UTF16_UNITS_def
  MAX_TOTAL_PROPOSED_NAME_UTF16_UNITS_def MAX_DESTINATION_PARENT_UTF16_UNITS_def
  MAX_TOTAL_DESTINATION_PARENT_UTF16_UNITS_def MAX_TOTAL_PLANNED_PATH_UTF16_UNITS_def

datatype legacy_input_error = NonPositiveWidth | ReversedPositionRange | EmptyDelimiter

datatype proposal_mutation_error =
    InvalidInput legacy_input_error
  | NameBudgetExceeded usize usize usize
  | AggregateBudgetExceeded usize usize
  | PlannedPathAggregateBudgetExceeded usize usize
  | ArithmeticOverflow
  | AllocationFailed

section \<open>The list\<close>

text \<open>
  \<open>identity\<close> stands for the address of the list's \<open>Arc\<close>; an operation that creates a new
  \<open>Arc\<close> takes the fresh address as an argument.
\<close>

record legacy_list =
  items :: "legacy_list_item list"
  proposed_name_utf16_units :: usize
  planned_path_utf16_units :: usize
  identity :: nat
  source_revision :: nat

definition new_list :: "nat \<Rightarrow> legacy_list" where
  "new_list fresh =
     \<lparr>items = [], proposed_name_utf16_units = 0, planned_path_utf16_units = 0,
      identity = fresh, source_revision = 0\<rparr>"

definition clone_list :: "nat \<Rightarrow> legacy_list \<Rightarrow> legacy_list" where
  "clone_list fresh l = l\<lparr>identity := fresh, source_revision := 0\<rparr>"

text \<open>\<open>source_revision\<close> is a \<open>u64\<close>; when it is exhausted the list takes a new identity.\<close>

definition invalidate_source_index :: "nat \<Rightarrow> legacy_list \<Rightarrow> legacy_list" where
  "invalidate_source_index fresh l =
     (if source_revision l + 1 < 2 ^ 64 then l\<lparr>source_revision := source_revision l + 1\<rparr>
      else l\<lparr>identity := fresh, source_revision := 0\<rparr>)"

definition clear_list :: "nat \<Rightarrow> legacy_list \<Rightarrow> bool \<times> legacy_list" where
  "clear_list fresh l =
     (let changed = (items l \<noteq> []);
          l' = l\<lparr>items := [], proposed_name_utf16_units := 0, planned_path_utf16_units := 0\<rparr>
      in (changed, if changed then invalidate_source_index fresh l' else l'))"

definition name_units :: "legacy_list_item list \<Rightarrow> usize" where
  "name_units its = sum_list (map (\<lambda>it. length (proposed_name it)) its)"

definition item_path_units :: "legacy_list_item \<Rightarrow> usize" where
  "item_path_units it = planned_units (destination_parent it) (length (proposed_name it))"

definition path_units :: "legacy_list_item list \<Rightarrow> usize" where
  "path_units its = sum_list (map item_path_units its)"

definition within_budget :: "legacy_list_item list \<Rightarrow> bool" where
  "within_budget its \<longleftrightarrow>
     (\<forall>it\<in>set its. length (proposed_name it) \<le> MAX_PROPOSED_NAME_UTF16_UNITS) \<and>
     name_units its \<le> MAX_TOTAL_PROPOSED_NAME_UTF16_UNITS \<and>
     path_units its \<le> MAX_TOTAL_PLANNED_PATH_UTF16_UNITS"

definition wf_list :: "legacy_list \<Rightarrow> bool" where
  "wf_list l \<longleftrightarrow>
     proposed_name_utf16_units l = name_units (items l) \<and>
     planned_path_utf16_units l = path_units (items l) \<and>
     within_budget (items l)"

lemma units_simps [counter_simps]:
  "name_units [] = 0" "path_units [] = 0"
  "name_units (it # its) = length (proposed_name it) + name_units its"
  "path_units (it # its) = item_path_units it + path_units its"
  "name_units (xs @ ys) = name_units xs + name_units ys"
  "path_units (xs @ ys) = path_units xs + path_units ys"
  by (simp_all add: name_units_def path_units_def)

lemma name_units_le_path_units: "name_units its \<le> path_units its"
  by (induction its) (simp_all add: counter_simps item_path_units_def planned_units_def)

lemma wf_new_list: "wf_list (new_list fresh)"
  by (simp add: wf_list_def new_list_def within_budget_def counter_simps)

lemma wf_invalidate [simp]: "wf_list (invalidate_source_index fresh l) \<longleftrightarrow> wf_list l"
  by (simp add: wf_list_def invalidate_source_index_def)

lemma items_invalidate [simp]: "items (invalidate_source_index fresh l) = items l"
  by (simp add: invalidate_source_index_def)

lemma counters_invalidate [simp]:
  "proposed_name_utf16_units (invalidate_source_index fresh l) = proposed_name_utf16_units l"
  "planned_path_utf16_units (invalidate_source_index fresh l) = planned_path_utf16_units l"
  by (simp_all add: invalidate_source_index_def)

lemma wf_clear: "wf_list (snd (clear_list fresh l))"
  by (simp add: clear_list_def Let_def wf_list_def within_budget_def counter_simps)

section \<open>Size checks\<close>

definition validate_proposal_units :: "usize \<Rightarrow> usize \<Rightarrow> proposal_mutation_error + unit" where
  "validate_proposal_units row requested_units =
     (if MAX_PROPOSED_NAME_UTF16_UNITS < requested_units
      then Inl (NameBudgetExceeded row requested_units MAX_PROPOSED_NAME_UTF16_UNITS)
      else Inr ())"

lemma validate_proposal_units_Inr [simp]:
  "validate_proposal_units row n = Inr u \<longleftrightarrow> n \<le> MAX_PROPOSED_NAME_UTF16_UNITS"
  by (auto simp: validate_proposal_units_def)

text \<open>
  The bounded buffer: \<open>reserved\<close> says whether the reservation succeeds, \<open>filled\<close> is what the
  closure writes into it.
\<close>

definition try_build_proposal ::
  "bool \<Rightarrow> usize \<Rightarrow> usize \<Rightarrow> legacy_text \<Rightarrow> proposal_mutation_error + legacy_text" where
  "try_build_proposal reserved row requested_units filled =
     and_then (validate_proposal_units row requested_units) (\<lambda>_.
     and_then (ok_if AllocationFailed reserved) (\<lambda>_.
     Inr filled))"

definition checked_sum :: "usize list \<Rightarrow> proposal_mutation_error + usize" where
  "checked_sum parts =
     fold (\<lambda>part total. and_then total (\<lambda>t. ok_or ArithmeticOverflow (checked_add t part)))
       parts (Inr 0)"

definition try_clone_text :: "bool \<Rightarrow> legacy_text \<Rightarrow> proposal_mutation_error + legacy_text" where
  "try_clone_text reserved text = and_then (ok_if AllocationFailed reserved) (\<lambda>_. Inr text)"

lemma try_build_proposal_Inr [simp]:
  "try_build_proposal reserved row n t = Inr t' \<longleftrightarrow>
     t' = t \<and> n \<le> MAX_PROPOSED_NAME_UTF16_UNITS \<and> reserved"
  by (auto simp: try_build_proposal_def and_then_Inr)

lemma try_clone_text_Inr [simp]: "try_clone_text reserved t = Inr t' \<longleftrightarrow> t' = t \<and> reserved"
  by (auto simp: try_clone_text_def and_then_Inr)

lemma checked_sum_fold_Inl:
  "fold (\<lambda>part total. and_then total (\<lambda>t. ok_or e (checked_add t part))) parts (Inl e') = Inl e'"
  by (induction parts) auto

lemma checked_sum_fold:
  "fold (\<lambda>part total. and_then total (\<lambda>t. ok_or e (checked_add t part))) parts (Inr n) =
     (if parts = [] \<or> n + sum_list parts < USIZE_LIMIT then Inr (n + sum_list parts) else Inl e)"
proof (induction parts arbitrary: n)
  case (Cons p ps)
  then show ?case
    by (auto simp: checked_add_def checked_sum_fold_Inl [unfolded checked_add_def] add.assoc)
qed simp

lemma checked_sum_eq:
  "checked_sum parts =
     (if sum_list parts < USIZE_LIMIT then Inr (sum_list parts) else Inl ArithmeticOverflow)"
  by (auto simp: checked_sum_def checked_sum_fold)

section \<open>The staged update\<close>

text \<open>
  \<open>try_changed_proposals_optional\<close>: the closure \<open>proposal\<close> (an \<open>FnMut\<close>, so it threads its
  captured state) computes the next name of each row, the sizes are accumulated and checked,
  and only then are the staged names written.
\<close>

type_synonym 's proposal_fn =
  "'s \<Rightarrow> legacy_list_item list \<Rightarrow> usize \<Rightarrow> proposal_mutation_error + (legacy_text option \<times> 's)"

fun stage_rows :: "allocator \<Rightarrow> 's proposal_fn \<Rightarrow> legacy_list_item list \<Rightarrow> usize list \<Rightarrow> 's \<Rightarrow>
    usize \<Rightarrow> usize \<Rightarrow> (usize \<times> legacy_text) list \<Rightarrow>
    proposal_mutation_error + (usize \<times> usize \<times> (usize \<times> legacy_text) list)" where
  "stage_rows al proposal its [] st total_units total_planned_path_units staged =
     Inr (total_units, total_planned_path_units, staged)"
| "stage_rows al proposal its (row # rows) st total_units total_planned_path_units staged =
     and_then (proposal st its row) (\<lambda>(next, st').
       let next_len = (case next of None \<Rightarrow> length (proposed_name (its ! row)) | Some t \<Rightarrow> length t)
       in
       and_then (validate_proposal_units row next_len) (\<lambda>_.
       and_then (ok_or ArithmeticOverflow (checked_add total_units next_len)) (\<lambda>total_units.
       if MAX_TOTAL_PROPOSED_NAME_UTF16_UNITS < total_units
       then Inl (AggregateBudgetExceeded total_units MAX_TOTAL_PROPOSED_NAME_UTF16_UNITS)
       else
       and_then (ok_or ArithmeticOverflow
         (checked_planned_path_units (destination_parent (its ! row)) next_len)) (\<lambda>planned.
       and_then (ok_or ArithmeticOverflow (checked_add total_planned_path_units planned))
         (\<lambda>total_planned_path_units.
       case next of
         None \<Rightarrow> stage_rows al proposal its rows st' total_units total_planned_path_units staged
       | Some t \<Rightarrow>
           if proposed_name (its ! row) = t
           then stage_rows al proposal its rows st' total_units total_planned_path_units staged
           else and_then (ok_if AllocationFailed (al (AtStage row))) (\<lambda>_.
             stage_rows al proposal its rows st' total_units total_planned_path_units
               (staged @ [(row, t)])))))))"

definition apply_staged ::
  "(usize \<times> legacy_text) list \<Rightarrow> legacy_list_item list \<Rightarrow> legacy_list_item list" where
  "apply_staged staged its =
     fold (\<lambda>(row, value) its. its[row := (its ! row)\<lparr>proposed_name := value\<rparr>]) staged its"

definition try_changed_proposals_optional ::
  "allocator \<Rightarrow> 's proposal_fn \<Rightarrow> 's \<Rightarrow> legacy_list \<Rightarrow>
     (proposal_mutation_error + usize list) \<times> legacy_list" where
  "try_changed_proposals_optional al proposal st l =
     (case stage_rows al proposal (items l) [0..<length (items l)] st 0 0 [] of
        Inl e \<Rightarrow> (Inl e, l)
      | Inr (total_units, total_planned_path_units, staged) \<Rightarrow>
          if MAX_TOTAL_PLANNED_PATH_UTF16_UNITS < total_planned_path_units
          then (Inl (PlannedPathAggregateBudgetExceeded total_planned_path_units
                  MAX_TOTAL_PLANNED_PATH_UTF16_UNITS), l)
          else if \<not> al AtChanged then (Inl AllocationFailed, l)
          else (Inr (map fst staged),
                l\<lparr>items := apply_staged staged (items l),
                  proposed_name_utf16_units := total_units,
                  planned_path_utf16_units := total_planned_path_units\<rparr>))"

definition try_changed_proposals ::
  "allocator \<Rightarrow>
     ('s \<Rightarrow> legacy_list_item list \<Rightarrow> usize \<Rightarrow> proposal_mutation_error + (legacy_text \<times> 's)) \<Rightarrow> 's \<Rightarrow>
     legacy_list \<Rightarrow> (proposal_mutation_error + usize list) \<times> legacy_list" where
  "try_changed_proposals al proposal st l =
     try_changed_proposals_optional al
       (\<lambda>st its row. and_then (proposal st its row) (\<lambda>(t, st'). Inr (Some t, st'))) st l"

text \<open>The infallible update: the name counter is recounted, the path counter adjusted.\<close>

definition changed_proposals ::
  "(legacy_list_item \<Rightarrow> legacy_text) \<Rightarrow> legacy_list \<Rightarrow> usize list \<times> legacy_list" where
  "changed_proposals proposal l =
     (let total_units = sum_list (map (\<lambda>it. length (proposal it)) (items l));
          removed_units = saturating_sub (proposed_name_utf16_units l) total_units
      in (filter (\<lambda>i. proposed_name (items l ! i) \<noteq> proposal (items l ! i)) [0..<length (items l)],
          l\<lparr>items := map (\<lambda>it. it\<lparr>proposed_name := proposal it\<rparr>) (items l),
            proposed_name_utf16_units := total_units,
            planned_path_utf16_units := wrapping_sub (planned_path_utf16_units l) removed_units\<rparr>))"

section \<open>What a proposal command promises\<close>

lemma update_name_idle: "it\<lparr>proposed_name := x\<rparr> = it \<longleftrightarrow> x = proposed_name it"
  by (cases it) auto

text \<open>
  \<open>retarget t its\<close> gives every row \<open>i\<close> the name \<open>t i\<close> and touches nothing else;
  \<open>changed_rows\<close> are the rows whose name differs; \<open>commit\<close> also recounts the sizes.
\<close>

definition retarget ::
  "(usize \<Rightarrow> legacy_text) \<Rightarrow> legacy_list_item list \<Rightarrow> legacy_list_item list" where
  "retarget t its = map (\<lambda>i. (its ! i)\<lparr>proposed_name := t i\<rparr>) [0..<length its]"

definition changed_rows :: "(usize \<Rightarrow> legacy_text) \<Rightarrow> legacy_list_item list \<Rightarrow> usize list" where
  "changed_rows t its = filter (\<lambda>i. proposed_name (its ! i) \<noteq> t i) [0..<length its]"

definition commit :: "(usize \<Rightarrow> legacy_text) \<Rightarrow> legacy_list \<Rightarrow> legacy_list" where
  "commit t l =
     l\<lparr>items := retarget t (items l),
       proposed_name_utf16_units := name_units (retarget t (items l)),
       planned_path_utf16_units := path_units (retarget t (items l))\<rparr>"

lemma length_retarget [simp]: "length (retarget t its) = length its"
  by (simp add: retarget_def)

lemma nth_retarget [row_simps]:
  "i < length its \<Longrightarrow> retarget t its ! i = (its ! i)\<lparr>proposed_name := t i\<rparr>"
  by (simp add: retarget_def)

lemma items_commit [simp]: "items (commit t l) = retarget t (items l)"
  by (simp add: commit_def)

lemma commit_binding [simp]:
  "identity (commit t l) = identity l" "source_revision (commit t l) = source_revision l"
  by (simp_all add: commit_def)

lemma retarget_idle:
  "(\<And>i. i < length its \<Longrightarrow> t i = proposed_name (its ! i)) \<Longrightarrow> retarget t its = its"
  by (rule nth_equalityI) (simp_all add: row_simps)

lemma retarget_cong:
  "(\<And>i. i < length its \<Longrightarrow> t i = t' i) \<Longrightarrow> retarget t its = retarget t' its"
  by (rule nth_equalityI) (simp_all add: row_simps)

lemma changed_rows_cong:
  "(\<And>i. i < length its \<Longrightarrow> t i = t' i) \<Longrightarrow> changed_rows t its = changed_rows t' its"
  unfolding changed_rows_def by (rule filter_cong) auto

lemma commit_idle:
  assumes "wf_list l" and "\<And>i. i < length (items l) \<Longrightarrow> t i = proposed_name (items l ! i)"
  shows "commit t l = l" and "changed_rows t (items l) = []"
  using assms retarget_idle [OF assms(2)]
  by (auto simp: commit_def wf_list_def changed_rows_def filter_empty_conv)

lemma name_units_retarget:
  "name_units (retarget t its) = (\<Sum>i\<leftarrow>[0..<length its]. length (t i))"
  by (simp add: name_units_def retarget_def comp_def)

lemma path_units_retarget:
  "path_units (retarget t its) =
     (\<Sum>i\<leftarrow>[0..<length its]. planned_units (destination_parent (its ! i)) (length (t i)))"
  by (simp add: path_units_def retarget_def item_path_units_def comp_def)

lemma within_budget_retarget:
  "within_budget (retarget t its) \<longleftrightarrow>
     (\<forall>i<length its. length (t i) \<le> MAX_PROPOSED_NAME_UTF16_UNITS) \<and>
     (\<Sum>i\<leftarrow>[0..<length its]. length (t i)) \<le> MAX_TOTAL_PROPOSED_NAME_UTF16_UNITS \<and>
     path_units (retarget t its) \<le> MAX_TOTAL_PLANNED_PATH_UTF16_UNITS"
  by (auto simp: within_budget_def name_units_retarget all_set_conv_all_nth row_simps)

lemma wf_commit [simp]: "wf_list (commit t l) \<longleftrightarrow> within_budget (retarget t (items l))"
  by (simp add: wf_list_def commit_def)

lemma apply_staged_nth:
  assumes "distinct rs" and "set rs \<subseteq> {..<length its}"
  shows "length (apply_staged (map (\<lambda>i. (i, t i)) rs) its) = length its \<and>
    (\<forall>k<length its. apply_staged (map (\<lambda>i. (i, t i)) rs) its ! k =
      (if k \<in> set rs then (its ! k)\<lparr>proposed_name := t k\<rparr> else its ! k))"
  using assms
proof (induction rs rule: rev_induct)
  case (snoc r rs)
  then show ?case
    by (auto simp: apply_staged_def nth_list_update)
qed (simp add: apply_staged_def)

lemma apply_staged_changed_rows:
  "apply_staged (map (\<lambda>i. (i, t i)) (changed_rows t its)) its = retarget t its"
proof (rule nth_equalityI)
  have rs: "distinct (changed_rows t its)" "set (changed_rows t its) \<subseteq> {..<length its}"
    by (auto simp: changed_rows_def)
  note nth = apply_staged_nth [OF rs, of t]
  show "length (apply_staged (map (\<lambda>i. (i, t i)) (changed_rows t its)) its) = length (retarget t its)"
    using nth by simp
  fix k assume "k < length (apply_staged (map (\<lambda>i. (i, t i)) (changed_rows t its)) its)"
  then have k: "k < length its" using nth by simp
  show "apply_staged (map (\<lambda>i. (i, t i)) (changed_rows t its)) its ! k = retarget t its ! k"
    using nth k by (auto simp: row_simps changed_rows_def)
qed

text \<open>
  A closure realises the target \<open>t\<close> when each successful call keeps the invariant of its
  captured state and yields the target name (\<open>None\<close> meaning the name the row has).
\<close>

definition realises ::
  "'s proposal_fn \<Rightarrow> (usize \<Rightarrow> 's \<Rightarrow> bool) \<Rightarrow> (usize \<Rightarrow> legacy_text) \<Rightarrow> legacy_list_item list \<Rightarrow> bool" where
  "realises proposal J t its \<longleftrightarrow>
     (\<forall>row st next st'. row < length its \<longrightarrow> J row st \<longrightarrow> proposal st its row = Inr (next, st') \<longrightarrow>
        J (Suc row) st' \<and>
        (case next of None \<Rightarrow> t row = proposed_name (its ! row) | Some x \<Rightarrow> t row = x))"


text \<open>A closure is willing when it refuses no row whose target fits the name budget.\<close>

definition willing ::
  "'s proposal_fn \<Rightarrow> (usize \<Rightarrow> 's \<Rightarrow> bool) \<Rightarrow> (usize \<Rightarrow> legacy_text) \<Rightarrow> legacy_list_item list \<Rightarrow> bool" where
  "willing proposal J t its \<longleftrightarrow>
     (\<forall>row st e. row < length its \<longrightarrow> J row st \<longrightarrow>
        length (t row) \<le> MAX_PROPOSED_NAME_UTF16_UNITS \<longrightarrow> proposal st its row \<noteq> Inl e)"

lemma stage_rows_Inr:
  assumes "realises proposal J t its" and "J a st" and "a \<le> n" and "n = length its"
    and "stage_rows al proposal its [a..<n] st tu tp staged = Inr (tu', tp', staged')"
  shows "tu' = tu + (\<Sum>i\<leftarrow>[a..<n]. length (t i)) \<and>
    tp' = tp + (\<Sum>i\<leftarrow>[a..<n]. planned_units (destination_parent (its ! i)) (length (t i))) \<and>
    staged' = staged @ map (\<lambda>i. (i, t i)) (filter (\<lambda>i. proposed_name (its ! i) \<noteq> t i) [a..<n]) \<and>
    (\<forall>i. a \<le> i \<longrightarrow> i < n \<longrightarrow> length (t i) \<le> MAX_PROPOSED_NAME_UTF16_UNITS) \<and>
    (a < n \<longrightarrow> tu' \<le> MAX_TOTAL_PROPOSED_NAME_UTF16_UNITS)"
  using assms(2,3,5)
proof (induction "n - a" arbitrary: a st tu tp staged)
  case 0
  then show ?case by simp
next
  case (Suc m)
  then have an: "a < n" by simp
  then have upt: "[a..<n] = a # [Suc a..<n]" by (simp add: upt_conv_Cons)
  let ?new = "if proposed_name (its ! a) = t a then staged else staged @ [(a, t a)]"
  from Suc.prems(3) obtain next' st' where p: "proposal st its a = Inr (next', st')"
    unfolding upt stage_rows.simps and_then_Inr by force
  have st': "J (Suc a) st'"
    and next': "(case next' of None \<Rightarrow> t a = proposed_name (its ! a) | Some x \<Rightarrow> t a = x)"
    using assms(1) p an assms(4) Suc.prems(1) by (auto simp: realises_def)
  have len: "(case next' of None \<Rightarrow> length (proposed_name (its ! a)) | Some t \<Rightarrow> length t) = length (t a)"
    using next' by (auto split: option.splits)
  have rest: "length (t a) \<le> MAX_PROPOSED_NAME_UTF16_UNITS"
      "tu + length (t a) \<le> MAX_TOTAL_PROPOSED_NAME_UTF16_UNITS"
      "stage_rows al proposal its [Suc a..<n] st' (tu + length (t a))
         (tp + planned_units (destination_parent (its ! a)) (length (t a))) ?new
         = Inr (tu', tp', staged')"
    using Suc.prems(3) next' unfolding upt stage_rows.simps p and_then_simps prod.case Let_def len
    by (auto simp: and_then_Inr if_Inl_eq_Inr split: option.splits if_splits)
  have IH: "tu' = tu + length (t a) + (\<Sum>i\<leftarrow>[Suc a..<n]. length (t i)) \<and>
    tp' = tp + planned_units (destination_parent (its ! a)) (length (t a)) +
      (\<Sum>i\<leftarrow>[Suc a..<n]. planned_units (destination_parent (its ! i)) (length (t i))) \<and>
    staged' = ?new @ map (\<lambda>i. (i, t i)) (filter (\<lambda>i. proposed_name (its ! i) \<noteq> t i) [Suc a..<n]) \<and>
    (\<forall>i. Suc a \<le> i \<longrightarrow> i < n \<longrightarrow> length (t i) \<le> MAX_PROPOSED_NAME_UTF16_UNITS) \<and>
    (Suc a < n \<longrightarrow> tu' \<le> MAX_TOTAL_PROPOSED_NAME_UTF16_UNITS)"
    by (rule Suc.hyps(1) [OF _ st' _ rest(3)]) (use Suc.hyps(2) an in auto)
  have "tu' \<le> MAX_TOTAL_PROPOSED_NAME_UTF16_UNITS"
    using IH rest(2) an by (cases "Suc a < n") auto
  moreover have "length (t i) \<le> MAX_PROPOSED_NAME_UTF16_UNITS" if "a \<le> i" "i < n" for i
    using IH rest(1) that by (cases "i = a") auto
  ultimately show ?case
    using IH by (simp add: upt)
qed

lemma stage_rows_ok:
  assumes "realises proposal J t its" and "willing proposal J t its"
    and "J a st" and "a \<le> n" and "n = length its" and "\<And>s. al s"
    and "\<And>i. a \<le> i \<Longrightarrow> i < n \<Longrightarrow> length (t i) \<le> MAX_PROPOSED_NAME_UTF16_UNITS"
    and "tu + (\<Sum>i\<leftarrow>[a..<n]. length (t i)) \<le> MAX_TOTAL_PROPOSED_NAME_UTF16_UNITS"
    and "tp + (\<Sum>i\<leftarrow>[a..<n]. planned_units (destination_parent (its ! i)) (length (t i)))
      \<le> MAX_TOTAL_PLANNED_PATH_UTF16_UNITS"
  shows "\<exists>r. stage_rows al proposal its [a..<n] st tu tp staged = Inr r"
  using assms(3,4,7-9)
proof (induction "n - a" arbitrary: a st tu tp staged)
  case 0
  then show ?case by simp
next
  case (Suc m)
  then have an: "a < n" by simp
  then have upt: "[a..<n] = a # [Suc a..<n]" by (simp add: upt_conv_Cons)
  have small: "length (t a) \<le> MAX_PROPOSED_NAME_UTF16_UNITS" using Suc.prems an by simp
  obtain next' st' where p: "proposal st its a = Inr (next', st')"
    using assms(2,5) an small Suc.prems(1) unfolding willing_def
    by (metis old.sum.exhaust surj_pair)
  have st': "J (Suc a) st'"
    and next': "(case next' of None \<Rightarrow> t a = proposed_name (its ! a) | Some x \<Rightarrow> t a = x)"
    using assms(1) p an assms(5) Suc.prems(1) by (auto simp: realises_def)
  have len: "(case next' of None \<Rightarrow> length (proposed_name (its ! a)) | Some t \<Rightarrow> length t) = length (t a)"
    using next' by (auto split: option.splits)
  let ?pl = "planned_units (destination_parent (its ! a)) (length (t a))"
  have sums: "tu + length (t a) + (\<Sum>i\<leftarrow>[Suc a..<n]. length (t i)) \<le> MAX_TOTAL_PROPOSED_NAME_UTF16_UNITS"
     "tp + ?pl + (\<Sum>i\<leftarrow>[Suc a..<n]. planned_units (destination_parent (its ! i)) (length (t i)))
      \<le> MAX_TOTAL_PLANNED_PATH_UTF16_UNITS"
    using Suc.prems(4,5) by (simp_all add: upt add.assoc)
  have ex: "\<exists>r. stage_rows al proposal its [Suc a..<n] st' (tu + length (t a)) (tp + ?pl) sg = Inr r" for sg
    by (rule Suc.hyps(1) [OF _ st' _ _ sums]) (use Suc.hyps(2) Suc.prems(3) an in auto)
  have tu: "checked_add tu (length (t a)) = Some (tu + length (t a))"
    and le: "\<not> MAX_TOTAL_PROPOSED_NAME_UTF16_UNITS < tu + length (t a)"
    using sums(1) by (simp_all add: budget_defs)
  have pl: "checked_planned_path_units (destination_parent (its ! a)) (length (t a)) = Some ?pl"
    and tp: "checked_add tp ?pl = Some (tp + ?pl)"
    using sums(2) by (simp_all add: budget_defs)
  have v: "validate_proposal_units a (length (t a)) = Inr ()"
    using small by simp
  show ?case
    unfolding upt stage_rows.simps p and_then_simps prod.case Let_def len v tu pl tp ok_or_simps
    using ex le by (cases next') (simp_all add: assms(6))
qed

text \<open>The staged update on a well-formed list: all of it, or nothing.\<close>

lemma try_changed_proposals_optional_Inr:
  assumes "realises proposal J t (items l)" and "J 0 st"
    and "try_changed_proposals_optional al proposal st l = (Inr rows, l')"
  shows "rows = changed_rows t (items l) \<and> l' = commit t l \<and>
    within_budget (retarget t (items l))"
proof -
  from assms(3) obtain tu tp sg where
    s: "stage_rows al proposal (items l) [0..<length (items l)] st 0 0 [] = Inr (tu, tp, sg)"
    and b: "tp \<le> MAX_TOTAL_PLANNED_PATH_UTF16_UNITS"
    and r: "rows = map fst sg" "l' = l\<lparr>items := apply_staged sg (items l),
      proposed_name_utf16_units := tu, planned_path_utf16_units := tp\<rparr>"
    by (auto simp: try_changed_proposals_optional_def split: sum.splits if_splits)
  note st = stage_rows_Inr [OF assms(1,2) le0 refl s]
  from st have sg: "sg = map (\<lambda>i. (i, t i)) (changed_rows t (items l))"
    and tu: "tu = name_units (retarget t (items l))" and tp: "tp = path_units (retarget t (items l))"
    by (simp_all add: changed_rows_def name_units_retarget path_units_retarget)
  have "tu \<le> MAX_TOTAL_PROPOSED_NAME_UTF16_UNITS"
    using st by (cases "items l") (auto simp: budget_defs)
  then have "within_budget (retarget t (items l))"
    using st b unfolding tp tu by (simp add: within_budget_retarget name_units_retarget)
  moreover have "l' = commit t l"
    unfolding r(2) sg tu tp commit_def apply_staged_changed_rows ..
  ultimately show ?thesis by (simp add: r(1) sg comp_def)
qed

lemma try_changed_proposals_optional_Inl:
  "try_changed_proposals_optional al proposal st l = (Inl e, l') \<Longrightarrow> l' = l"
  by (auto simp: try_changed_proposals_optional_def split: sum.splits if_splits)

lemma try_changed_proposals_optional_ok:
  assumes "realises proposal J t (items l)" and "willing proposal J t (items l)" and "J 0 st"
    and "within_budget (retarget t (items l))" and al: "\<And>s. al s"
  shows "\<exists>rows. fst (try_changed_proposals_optional al proposal st l) = Inr rows"
proof -
  have "\<exists>r. stage_rows al proposal (items l) [0..<length (items l)] st 0 0 [] = Inr r"
    using assms(4) by (intro stage_rows_ok [OF assms(1-3) le0 refl al])
      (simp_all add: within_budget_retarget path_units_retarget)
  then obtain tu tp sg where
    s: "stage_rows al proposal (items l) [0..<length (items l)] st 0 0 [] = Inr (tu, tp, sg)"
    by (metis surj_pair)
  with stage_rows_Inr [OF assms(1,3) le0 refl s] assms(4)
  have "tp \<le> MAX_TOTAL_PLANNED_PATH_UTF16_UNITS"
    by (simp add: within_budget_retarget path_units_retarget)
  with s al show ?thesis
    by (auto simp: try_changed_proposals_optional_def)
qed

section \<open>The contract of the proposal commands\<close>

text \<open>
  \<open>cmd al l\<close> runs the command with allocator \<open>al\<close>; \<open>target its\<close> is the name it proposes for
  each row, \<open>admissible\<close> the condition on its arguments.
\<close>

locale proposal_command =
  fixes cmd :: "allocator \<Rightarrow> legacy_list \<Rightarrow> ('e + usize list) \<times> legacy_list"
    and target :: "legacy_list_item list \<Rightarrow> usize \<Rightarrow> legacy_text"
    and admissible :: bool
  assumes applied: "wf_list l \<Longrightarrow> cmd al l = (Inr rows, l') \<Longrightarrow>
      admissible \<and> rows = changed_rows (target (items l)) (items l) \<and> l' = commit (target (items l)) l \<and>
      within_budget (retarget (target (items l)) (items l))"
    and refused: "wf_list l \<Longrightarrow> cmd al l = (Inl e, l') \<Longrightarrow> l' = l"
    and accepts: "wf_list l \<Longrightarrow> admissible \<Longrightarrow>
      within_budget (retarget (target (items l)) (items l)) \<Longrightarrow> \<exists>rows. fst (cmd (\<lambda>_. True) l) = Inr rows"
begin

lemma outcome:
  assumes "wf_list l"
  obtains (ok) "cmd al l = (Inr (changed_rows (target (items l)) (items l)), commit (target (items l)) l)"
      "admissible" "within_budget (retarget (target (items l)) (items l))"
    | (error) e where "cmd al l = (Inl e, l)"
proof (cases "cmd al l")
  case (Pair r l')
  show thesis
  proof (cases r)
    case (Inl e)
    with Pair refused [OF assms] have "cmd al l = (Inl e, l)" by simp
    then show thesis by (rule error)
  next
    case (Inr rows)
    with Pair have "cmd al l = (Inr rows, l')" by simp
    from applied [OF assms this] this show thesis by (intro ok) simp_all
  qed
qed

lemma preserves_wf: "wf_list l \<Longrightarrow> wf_list (snd (cmd al l))"
  by (rule outcome [of l al]) auto

text \<open>With memory available, the command succeeds exactly when its result fits.\<close>

lemma succeeds_iff:
  assumes "wf_list l"
  shows "isl (fst (cmd (\<lambda>_. True) l)) \<longleftrightarrow>
    \<not> (admissible \<and> within_budget (retarget (target (items l)) (items l)))"
proof (rule outcome [OF assms, of "\<lambda>_. True"])
  fix e assume "cmd (\<lambda>_. True) l = (Inl e, l)"
  with accepts [OF assms] show ?thesis by auto
qed auto

lemma atomic:
  assumes "wf_list l"
  shows "snd (cmd al l) = (if isl (fst (cmd al l)) then l else commit (target (items l)) l)"
  using assms by (rule outcome [of l al]) auto

lemma reported_rows:
  assumes "wf_list l" and "cmd al l = (Inr rows, l')"
  shows "length (items l') = length (items l)"
    and "i < length (items l) \<Longrightarrow> i \<in> set rows \<longleftrightarrow> items l' ! i \<noteq> items l ! i"
    and "i < length (items l) \<Longrightarrow> items l' ! i = (items l ! i)\<lparr>proposed_name := target (items l) i\<rparr>"
proof -
  note ap = applied [OF assms]
  show "length (items l') = length (items l)" using ap by simp
  show nth: "i < length (items l) \<Longrightarrow> items l' ! i = (items l ! i)\<lparr>proposed_name := target (items l) i\<rparr>"
    using ap by (simp add: row_simps)
  show "i < length (items l) \<Longrightarrow> i \<in> set rows \<longleftrightarrow> items l' ! i \<noteq> items l ! i"
    using ap nth by (auto simp: changed_rows_def update_name_idle)
qed

lemma keeps_sources:
  assumes "wf_list l"
  shows "map source_path (items (snd (cmd al l))) = map source_path (items l)"
    and "map destination_parent (items (snd (cmd al l))) = map destination_parent (items l)"
    and "identity (snd (cmd al l)) = identity l" "source_revision (snd (cmd al l)) = source_revision l"
proof -
  have "map f (retarget t its) = map f its" if "\<And>it x. f (it\<lparr>proposed_name := x\<rparr>) = f it"
    for f :: "legacy_list_item \<Rightarrow> 'x" and t its
    by (rule nth_equalityI) (simp_all add: row_simps that)
  note keep = this
  show "map source_path (items (snd (cmd al l))) = map source_path (items l)"
    by (rule outcome [OF assms, of al]) (simp_all add: keep)
  show "map destination_parent (items (snd (cmd al l))) = map destination_parent (items l)"
    by (rule outcome [OF assms, of al]) (simp_all add: keep)
  show "identity (snd (cmd al l)) = identity l" "source_revision (snd (cmd al l)) = source_revision l"
    by (rule outcome [OF assms, of al]; simp)+
qed

end

text \<open>
  The infallible commands never lengthen a name, so their result always fits.
  \<open>proposal it\<close> is the new name of a row.
\<close>

locale shrinking_command =
  fixes cmd :: "legacy_list \<Rightarrow> ('e + usize list) \<times> legacy_list"
    and proposal :: "legacy_list_item \<Rightarrow> legacy_text"
    and admissible :: bool
  assumes shrinks: "admissible \<Longrightarrow> length (proposal it) \<le> length (proposed_name it)"
    and runs: "wf_list l \<Longrightarrow> admissible \<Longrightarrow> cmd l = map_prod Inr id (changed_proposals proposal l)"
    and rejects: "\<not> admissible \<Longrightarrow> \<exists>e. cmd l = (Inl e, l)"

lemma shrunk_units:
  assumes "\<And>it. length (f it) \<le> length (proposed_name it)"
  shows "sum_list (map (\<lambda>it. length (f it)) its) \<le> name_units its"
    and "path_units (map (\<lambda>it. it\<lparr>proposed_name := f it\<rparr>) its) +
      (name_units its - sum_list (map (\<lambda>it. length (f it)) its)) = path_units its"
proof -
  show le: "sum_list (map (\<lambda>it. length (f it)) its) \<le> name_units its"
    unfolding name_units_def by (rule sum_list_mono) (rule assms)
  have "path_units (map (\<lambda>it. it\<lparr>proposed_name := f it\<rparr>) its) + name_units its =
      path_units its + sum_list (map (\<lambda>it. length (f it)) its)"
    by (induction its) (simp_all add: counter_simps item_path_units_def planned_units_def)
  with le show "path_units (map (\<lambda>it. it\<lparr>proposed_name := f it\<rparr>) its) +
      (name_units its - sum_list (map (\<lambda>it. length (f it)) its)) = path_units its"
    by simp
qed

lemma retarget_map: "retarget (\<lambda>i. f (its ! i)) its = map (\<lambda>it. it\<lparr>proposed_name := f it\<rparr>) its"
  by (rule nth_equalityI) (simp_all add: row_simps)

lemma changed_proposals_commit:
  assumes "\<And>it. length (f it) \<le> length (proposed_name it)" and "wf_list l"
  shows "changed_proposals f l =
      (changed_rows (\<lambda>i. f (items l ! i)) (items l), commit (\<lambda>i. f (items l ! i)) l)"
    and "within_budget (retarget (\<lambda>i. f (items l ! i)) (items l))"
proof -
  let ?n = "sum_list (map (\<lambda>it. length (f it)) (items l))"
  note su = shrunk_units [of f "items l", OF assms(1)]
  have n: "name_units (map (\<lambda>it. it\<lparr>proposed_name := f it\<rparr>) (items l)) = ?n"
    by (simp add: name_units_def comp_def)
  have "wrapping_sub (planned_path_utf16_units l) (saturating_sub (proposed_name_utf16_units l) ?n)
    = path_units (map (\<lambda>it. it\<lparr>proposed_name := f it\<rparr>) (items l))"
    using su(2) assms(2) by (simp add: wf_list_def saturating_sub_def)
  then show "changed_proposals f l =
      (changed_rows (\<lambda>i. f (items l ! i)) (items l), commit (\<lambda>i. f (items l ! i)) l)"
    by (simp add: changed_proposals_def Let_def changed_rows_def commit_def retarget_map n)
  have "length (f it) \<le> MAX_PROPOSED_NAME_UTF16_UNITS" if "it \<in> set (items l)" for it
    using assms that le_trans by (fastforce simp: wf_list_def within_budget_def)
  then show "within_budget (retarget (\<lambda>i. f (items l ! i)) (items l))"
    using su assms(2) by (auto simp: within_budget_def retarget_map n wf_list_def)
qed

lemma changed_proposals_idle: "wf_list l \<Longrightarrow> changed_proposals proposed_name l = ([], l)"
  by (simp add: changed_proposals_commit commit_idle)

context shrinking_command
begin

lemma exact: "wf_list l \<Longrightarrow> admissible \<Longrightarrow> cmd l =
    (Inr (changed_rows (\<lambda>i. proposal (items l ! i)) (items l)), commit (\<lambda>i. proposal (items l ! i)) l)"
  by (simp add: runs changed_proposals_commit shrinks)

lemma fits: "wf_list l \<Longrightarrow> admissible \<Longrightarrow>
    within_budget (retarget (\<lambda>i. proposal (items l ! i)) (items l))"
  by (rule changed_proposals_commit) (rule shrinks)

end

sublocale shrinking_command \<subseteq> proposal_command "\<lambda>_. cmd" "\<lambda>its i. proposal (its ! i)" admissible
proof
  fix l al rows l'
  assume wf: "wf_list l" and r: "cmd l = (Inr rows, l')"
  then have ok: "admissible" using rejects [of l] by auto
  with exact [OF wf ok] fits [OF wf ok] r
  show "admissible \<and> rows = changed_rows (\<lambda>i. proposal (items l ! i)) (items l) \<and>
      l' = commit (\<lambda>i. proposal (items l ! i)) l \<and>
      within_budget (retarget (\<lambda>i. proposal (items l ! i)) (items l))"
    by simp
next
  fix l al e l'
  assume wf: "wf_list l" and r: "cmd l = (Inl e, l')"
  then show "l' = l"
    using exact [OF wf] rejects [of l] by (cases admissible) auto
qed (auto simp: exact)

section \<open>Establishing the contract\<close>

text \<open>
  A closure without captured state, and what it takes to realise a target: every name it
  returns is the target's, and it refuses no row whose target fits.
\<close>

definition stateless :: "(legacy_list_item list \<Rightarrow> usize \<Rightarrow> proposal_mutation_error + legacy_text) \<Rightarrow>
    unit \<Rightarrow> legacy_list_item list \<Rightarrow> usize \<Rightarrow> proposal_mutation_error + (legacy_text \<times> unit)" where
  "stateless p st its row = and_then (p its row) (\<lambda>t. Inr (t, ()))"

definition faithful :: "allocator \<Rightarrow> (usize \<Rightarrow> proposal_mutation_error + legacy_text) \<Rightarrow>
    (usize \<Rightarrow> legacy_text) \<Rightarrow> legacy_list_item list \<Rightarrow> bool" where
  "faithful al p t its \<longleftrightarrow> (\<forall>row<length its.
     (\<forall>x. p row = Inr x \<longrightarrow> t row = x) \<and>
     (al = (\<lambda>_. True) \<longrightarrow> length (t row) \<le> MAX_PROPOSED_NAME_UTF16_UNITS \<longrightarrow> isl (p row) \<longrightarrow> False))"

lemma try_changed_proposals_stateless:
  assumes "faithful al (p (items l)) t (items l)"
  shows "try_changed_proposals al (stateless p) () l = (Inr rows, l') \<Longrightarrow>
      rows = changed_rows t (items l) \<and> l' = commit t l \<and> within_budget (retarget t (items l))"
    and "try_changed_proposals al (stateless p) () l = (Inl e, l') \<Longrightarrow> l' = l"
    and "al = (\<lambda>_. True) \<Longrightarrow> within_budget (retarget t (items l)) \<Longrightarrow>
      \<exists>rows. fst (try_changed_proposals al (stateless p) () l) = Inr rows"
proof -
  let ?p = "\<lambda>st its row. and_then (stateless p st its row) (\<lambda>(t, st'). Inr (Some t, st'))"
  have r: "realises ?p (\<lambda>_ _. True) t (items l)"
    using assms by (auto simp: realises_def faithful_def stateless_def and_then_Inr)
  show "try_changed_proposals al (stateless p) () l = (Inr rows, l') \<Longrightarrow>
      rows = changed_rows t (items l) \<and> l' = commit t l \<and> within_budget (retarget t (items l))"
    unfolding try_changed_proposals_def by (rule try_changed_proposals_optional_Inr [OF r TrueI])
  show "try_changed_proposals al (stateless p) () l = (Inl e, l') \<Longrightarrow> l' = l"
    unfolding try_changed_proposals_def by (rule try_changed_proposals_optional_Inl)
  assume al: "al = (\<lambda>_. True)" and fit: "within_budget (retarget t (items l))"
  have w: "willing ?p (\<lambda>_ _. True) t (items l)"
    using assms al by (fastforce simp: willing_def faithful_def stateless_def and_then_Inl)
  show "\<exists>rows. fst (try_changed_proposals al (stateless p) () l) = Inr rows"
    unfolding try_changed_proposals_def
    using try_changed_proposals_optional_ok [OF r w TrueI fit] al by simp
qed

text \<open>
  A command that checks its arguments, may leave the list alone, and otherwise runs a
  stateless staged update.
\<close>

lemma proposal_command_stateless [contract_intros]:
  assumes idle: "\<And>al l. idle \<Longrightarrow> wf_list l \<Longrightarrow> cmd al l = (Inr [], l)"
    and idle_target: "\<And>its row. idle \<Longrightarrow> row < length its \<Longrightarrow> target its row = proposed_name (its ! row)"
    and idle_ok: "idle \<Longrightarrow> admissible"
    and reject: "\<And>al l. \<not> idle \<Longrightarrow> \<not> (admissible \<and> ready al) \<Longrightarrow> \<exists>e. cmd al l = (Inl e, l)"
    and ready: "ready (\<lambda>_. True)"
    and run: "\<And>al l. \<not> idle \<Longrightarrow> admissible \<Longrightarrow> ready al \<Longrightarrow>
      cmd al l = try_changed_proposals al (stateless (p al)) () l"
    and faithful: "\<And>al its. \<not> idle \<Longrightarrow> admissible \<Longrightarrow> faithful al (p al its) (target its) its"
  shows "proposal_command cmd target admissible"
proof
  fix l al rows l'
  assume wf: "wf_list l" and r: "cmd al l = (Inr rows, l')"
  show "admissible \<and> rows = changed_rows (target (items l)) (items l) \<and>
      l' = commit (target (items l)) l \<and> within_budget (retarget (target (items l)) (items l))"
  proof (cases idle)
    case True
    with commit_idle [OF wf idle_target] wf r show ?thesis
      by (auto simp: idle wf_list_def retarget_idle idle_target idle_ok)
  next
    case False
    with reject [OF False, of al l] r have "admissible \<and> ready al" by auto
    with False run faithful try_changed_proposals_stateless(1) r show ?thesis by metis
  qed
next
  fix l al e l'
  assume wf: "wf_list l" and r: "cmd al l = (Inl e, l')"
  show "l' = l"
  proof (cases "idle \<or> \<not> (admissible \<and> ready al)")
    case True
    with idle [OF _ wf, of al] reject [of al l] r show ?thesis by (metis Pair_inject old.sum.distinct(1))
  next
    case False
    with run faithful try_changed_proposals_stateless(2) r show ?thesis by metis
  qed
next
  fix l assume "wf_list l" "admissible" "within_budget (retarget (target (items l)) (items l))"
  with idle ready run faithful try_changed_proposals_stateless(3)
  show "\<exists>rows. fst (cmd (\<lambda>_. True) l) = Inr rows"
    by (cases idle) (simp, metis)
qed

text \<open>A command that checks its arguments and runs a staged update with captured state.\<close>

lemma proposal_command_staged:
  assumes reject: "\<And>al l. \<not> admissible \<Longrightarrow> \<exists>e. cmd al l = (Inl e, l)"
    and run: "\<And>al l. admissible \<Longrightarrow>
      cmd al l = try_changed_proposals_optional al (p al (items l)) (init (items l)) l"
    and init: "\<And>its. J its 0 (init its)"
    and realises: "\<And>al l. wf_list l \<Longrightarrow> admissible \<Longrightarrow>
      realises (p al (items l)) (J (items l)) (target (items l)) (items l)"
    and willing: "\<And>l. wf_list l \<Longrightarrow> admissible \<Longrightarrow>
      willing (p (\<lambda>_. True) (items l)) (J (items l)) (target (items l)) (items l)"
  shows "proposal_command cmd target admissible"
proof
  fix l al rows l'
  assume wf: "wf_list l" and r: "cmd al l = (Inr rows, l')"
  then have adm: "admissible" using reject [of al l] by auto
  with try_changed_proposals_optional_Inr [OF realises [OF wf adm] init] r
  show "admissible \<and> rows = changed_rows (target (items l)) (items l) \<and>
      l' = commit (target (items l)) l \<and> within_budget (retarget (target (items l)) (items l))"
    by (simp add: run)
next
  fix l al e l'
  assume r: "cmd al l = (Inl e, l')"
  then show "l' = l"
    using reject [of al l] try_changed_proposals_optional_Inl run by (cases admissible) fastforce+
next
  fix l assume wf: "wf_list l" and adm: "admissible"
    and fit: "within_budget (retarget (target (items l)) (items l))"
  show "\<exists>rows. fst (cmd (\<lambda>_. True) l) = Inr rows"
    using try_changed_proposals_optional_ok [OF realises [OF wf adm] willing [OF wf adm] init fit]
    by (simp add: run [OF adm])
qed

lemma wf_names_bounded:
  "wf_list l \<Longrightarrow> i < length (items l) \<Longrightarrow>
     length (proposed_name (items l ! i)) \<le> MAX_PROPOSED_NAME_UTF16_UNITS"
  by (simp add: wf_list_def within_budget_def)

end
