(* ===== verification/Row_Moves.thy ===== *)
theory Row_Moves
  imports List_Model "HOL-Library.Multiset"
begin

text \<open>
  The operations of \<open>LegacyList\<close> that move, remove or relocate rows
  (\<open>crates/darknamer-core/src/lib.rs\<close>): \<open>remove_rows\<close>, \<open>move_rows_earlier\<close> and
  \<open>move_rows_later\<close>, \<open>record_move_success\<close>, and the two destination-parent commands, which share
  the contract \<open>parent_command\<close>.
\<close>

section \<open>Selected rows\<close>

definition normalized_indices :: "usize list \<Rightarrow> usize \<Rightarrow> usize list" where
  "normalized_indices indices n = remdups (sort (filter (\<lambda>i. i < n) indices))"

lemma normalized_indices_props [simp]:
  "sorted (normalized_indices indices n)" "distinct (normalized_indices indices n)"
  "set (normalized_indices indices n) = {i \<in> set indices. i < n}"
  by (auto simp: normalized_indices_def sorted_remdups)

lemma normalized_strict: "sorted_wrt (<) (normalized_indices indices n)"
  by (simp add: strict_sorted_iff)

section \<open>Removal\<close>

text \<open>The \<open>retain\<close> pass with its peeked iterator over the selection.\<close>

fun retain_rows :: "usize list \<Rightarrow> usize \<Rightarrow> legacy_list_item list \<Rightarrow> usize \<Rightarrow> usize \<Rightarrow>
    legacy_list_item list \<times> usize \<times> usize" where
  "retain_rows selected row [] removed_units removed_planned = ([], removed_units, removed_planned)"
| "retain_rows selected row (item # rest) removed_units removed_planned =
     (if selected \<noteq> [] \<and> hd selected = row
      then retain_rows (tl selected) (row + 1) rest
        (removed_units + length (proposed_name item))
        (saturating_add removed_planned
          (saturating_add
            (saturating_add (length (destination_parent item))
              (destination_separator_units (destination_parent item)))
            (length (proposed_name item))))
      else
        let (kept, units, planned) = retain_rows selected (row + 1) rest removed_units removed_planned
        in (item # kept, units, planned))"

definition remove_rows :: "usize list \<Rightarrow> nat \<Rightarrow> legacy_list \<Rightarrow> usize \<times> legacy_list" where
  "remove_rows indices fresh l =
     (let selected = normalized_indices indices (length (items l));
          removed_count = length selected
      in if removed_count = 0 then (0, l)
         else
           let (kept, removed_units, removed_planned) = retain_rows selected 0 (items l) 0 0
           in (removed_count,
               invalidate_source_index fresh
                 (l\<lparr>items := kept,
                    proposed_name_utf16_units := wrapping_sub (proposed_name_utf16_units l) removed_units,
                    planned_path_utf16_units :=
                      wrapping_sub (planned_path_utf16_units l) removed_planned\<rparr>)))"

lemma retain_rows_eq:
  assumes "sorted_wrt (<) selected" and "\<forall>i\<in>set selected. row \<le> i"
    and "p + path_units its < USIZE_LIMIT"
  shows "retain_rows selected row its u p =
    (nths its {i. i + row \<notin> set selected},
     u + name_units (nths its {i. i + row \<in> set selected}),
     p + path_units (nths its {i. i + row \<in> set selected}))"
  using assms
proof (induction its arbitrary: selected row u p)
  case Nil
  then show ?case by (simp add: counter_simps)
next
  case (Cons it its)
  have pu: "item_path_units it = length (destination_parent it) +
      destination_separator_units (destination_parent it) + length (proposed_name it)"
    by (simp add: item_path_units_def planned_units_def)
  show ?case
  proof (cases "selected \<noteq> [] \<and> hd selected = row")
    case True
    then obtain sel where sel: "selected = row # sel" by (cases selected) auto
    have "retain_rows sel (row + 1) its (u + length (proposed_name it)) (p + item_path_units it) =
      (nths its {i. i + (row + 1) \<notin> set sel},
       u + length (proposed_name it) + name_units (nths its {i. i + (row + 1) \<in> set sel}),
       p + item_path_units it + path_units (nths its {i. i + (row + 1) \<in> set sel}))"
      by (rule Cons.IH) (use Cons.prems sel in \<open>auto simp: Suc_le_eq counter_simps\<close>)
    moreover have "{i. Suc i + row \<notin> set selected} = {i. i + (row + 1) \<notin> set sel}"
      "{i. Suc i + row \<in> set selected} = {i. i + (row + 1) \<in> set sel}"
      using sel by auto
    moreover have "saturating_add p (saturating_add (saturating_add (length (destination_parent it))
        (destination_separator_units (destination_parent it))) (length (proposed_name it)))
        = p + item_path_units it"
      using Cons.prems(3) by (simp add: pu saturating_add_def counter_simps)
    ultimately show ?thesis
      using True sel by (simp add: nths_Cons counter_simps)
  next
    case False
    then have notin: "row \<notin> set selected"
      using Cons.prems(1,2) by (cases selected) auto
    have "retain_rows selected (row + 1) its u p =
      (nths its {i. i + (row + 1) \<notin> set selected},
       u + name_units (nths its {i. i + (row + 1) \<in> set selected}),
       p + path_units (nths its {i. i + (row + 1) \<in> set selected}))"
      by (rule Cons.IH) (use Cons.prems notin in \<open>auto simp: counter_simps Suc_le_eq le_less\<close>)
    then show ?thesis
      unfolding retain_rows.simps if_not_P [OF False] using notin by (simp add: nths_Cons)
  qed
qed

lemma nths_partition_sum:
  fixes f :: "'a \<Rightarrow> nat"
  shows "sum_list (map f (nths xs {i. i + k \<notin> A})) + sum_list (map f (nths xs {i. i + k \<in> A})) =
    sum_list (map f xs)"
proof (induction xs arbitrary: k)
  case (Cons x xs)
  from Cons.IH [of "Suc k"] show ?case by (auto simp: nths_Cons)
qed simp

lemma set_nths_subset: "set (nths xs A) \<subseteq> set xs"
  by (auto simp: set_nths)

lemma remove_rows_eq:
  fixes indices :: "usize list"
  assumes "wf_list l"
  defines "sel \<equiv> {i \<in> set indices. i < length (items l)}"
  shows "fst (remove_rows indices fresh l) = card sel"
    and "items (snd (remove_rows indices fresh l)) = nths (items l) {i. i \<notin> sel}"
    and "wf_list (snd (remove_rows indices fresh l))"
proof -
  let ?n = "normalized_indices indices (length (items l))"
  have len: "length ?n = card sel"
    unfolding sel_def normalized_indices_props(3) [symmetric]
    by (rule distinct_card [symmetric]) (rule normalized_indices_props)
  have set: "set ?n = sel" by (simp add: sel_def)
  have wf: "proposed_name_utf16_units l = name_units (items l)"
    "planned_path_utf16_units l = path_units (items l)" "within_budget (items l)"
    using assms(1) by (simp_all add: wf_list_def)
  have ret: "retain_rows ?n 0 (items l) 0 0 =
      (nths (items l) {i. i \<notin> sel}, name_units (nths (items l) {i. i \<in> sel}),
       path_units (nths (items l) {i. i \<in> sel}))"
    using retain_rows_eq [OF normalized_strict, of "indices" "length (items l)" 0 0 "items l" 0] wf(3)
    unfolding set by (simp add: within_budget_def budget_defs)
  have all: "nths (items l) {i. i \<notin> sel} = items l" if "sel = {}"
    using that by (simp add: nths_all)
  have n: "name_units (nths (items l) {i. i \<notin> sel}) + name_units (nths (items l) {i. i \<in> sel}) = name_units (items l)"
    and p: "path_units (nths (items l) {i. i \<notin> sel}) + path_units (nths (items l) {i. i \<in> sel}) = path_units (items l)"
    using nths_partition_sum [of _ "items l" 0 sel] by (simp_all add: name_units_def path_units_def)
  have budget: "within_budget (nths (items l) {i. i \<notin> sel})"
    using wf(3) n p set_nths_subset [of "items l" "{i. i \<notin> sel}"] unfolding within_budget_def
    by (smt (verit) le_add1 order_trans subset_eq)
  have empty: "?n = [] \<longleftrightarrow> sel = {}" using set by (metis set_empty)
  have run: "remove_rows indices fresh l =
      (if sel = {} then (0, l)
       else (card sel, invalidate_source_index fresh
         (l\<lparr>items := nths (items l) {i. i \<notin> sel},
            proposed_name_utf16_units := name_units (nths (items l) {i. i \<notin> sel}),
            planned_path_utf16_units := path_units (nths (items l) {i. i \<notin> sel})\<rparr>)))"
  proof -
    have "wrapping_sub (name_units (items l)) (name_units (nths (items l) {i. i \<in> sel})) =
        name_units (nths (items l) {i. i \<notin> sel})"
      "wrapping_sub (path_units (items l)) (path_units (nths (items l) {i. i \<in> sel})) =
        path_units (nths (items l) {i. i \<notin> sel})"
      using n p by simp_all
    then show ?thesis
      unfolding remove_rows_def Let_def ret length_0_conv empty wf len prod.case by simp
  qed
  show "fst (remove_rows indices fresh l) = card sel"
    by (simp add: run)
  show "items (snd (remove_rows indices fresh l)) = nths (items l) {i. i \<notin> sel}"
    using all by (auto simp: run)
  show "wf_list (snd (remove_rows indices fresh l))"
    using assms(1) budget by (simp add: run) (simp add: wf_list_def)
qed

section \<open>One position earlier or later\<close>

definition move_rows_earlier_changed :: "usize list \<Rightarrow> legacy_list \<Rightarrow> (usize list \<times> bool) \<times> legacy_list" where
  "move_rows_earlier_changed indices l =
     (let selected = normalized_indices indices (length (items l)) in
      if selected \<noteq> [] \<and> hd selected = 0 then ((selected, False), l)
      else ((map (\<lambda>index. index - 1) selected, selected \<noteq> []),
            l\<lparr>items := fold (\<lambda>index its. swap_at its (index - 1) index) selected (items l)\<rparr>))"

definition move_rows_later_changed :: "usize list \<Rightarrow> legacy_list \<Rightarrow> (usize list \<times> bool) \<times> legacy_list" where
  "move_rows_later_changed indices l =
     (let selected = normalized_indices indices (length (items l)) in
      if selected \<noteq> [] \<and> last selected + 1 = length (items l) then ((selected, False), l)
      else ((map (\<lambda>index. index + 1) selected, selected \<noteq> []),
            l\<lparr>items := fold (\<lambda>index its. swap_at its index (index + 1)) (rev selected) (items l)\<rparr>))"

definition move_rows_earlier :: "usize list \<Rightarrow> legacy_list \<Rightarrow> usize list \<times> legacy_list" where
  "move_rows_earlier indices l = map_prod fst id (move_rows_earlier_changed indices l)"

definition move_rows_later :: "usize list \<Rightarrow> legacy_list \<Rightarrow> usize list \<times> legacy_list" where
  "move_rows_later indices l = map_prod fst id (move_rows_later_changed indices l)"

lemma mset_swap_at: "i < length xs \<Longrightarrow> j < length xs \<Longrightarrow> mset (swap_at xs i j) = mset xs"
  by (simp add: swap_at_def mset_swap)

lemma swap_at_swap_at: "i < length xs \<Longrightarrow> j < length xs \<Longrightarrow> swap_at (swap_at xs i j) i j = xs"
  by (rule nth_equalityI) (auto simp: nth_swap_at)

lemma length_fold_swap [simp]: "length (fold (\<lambda>i xs. swap_at xs (f i) (g i)) is xs) = length xs"
  by (induction "is" arbitrary: xs) simp_all

lemma mset_fold_swap:
  "\<forall>i\<in>set is. f i < length xs \<and> g i < length xs \<Longrightarrow>
     mset (fold (\<lambda>i xs. swap_at xs (f i) (g i)) is xs) = mset xs"
  by (induction "is" arbitrary: xs) (simp_all add: mset_swap_at)

lemma fold_swap_rev:
  "\<forall>i\<in>set is. f i < length xs \<and> g i < length xs \<Longrightarrow>
     fold (\<lambda>i xs. swap_at xs (f i) (g i)) (rev is) (fold (\<lambda>i xs. swap_at xs (f i) (g i)) is xs) = xs"
  by (induction "is" arbitrary: xs) (simp_all add: swap_at_swap_at)

text \<open>Sweeping upwards, each selected row reaches the position above its own.\<close>

lemma fold_swap_earlier:
  assumes "sorted_wrt (<) is" and "\<forall>i\<in>set is. 0 < i \<and> i < length xs"
  shows "(\<forall>i\<in>set is. fold (\<lambda>i xs. swap_at xs (i - 1) i) is xs ! (i - 1) = xs ! i) \<and>
    (\<forall>k<length xs. (\<forall>i\<in>set is. i < k) \<longrightarrow> fold (\<lambda>i xs. swap_at xs (i - 1) i) is xs ! k = xs ! k)"
  using assms
proof (induction "is" rule: rev_induct)
  case (snoc j js)
  let ?f = "fold (\<lambda>i xs. swap_at xs (i - 1) i) js xs"
  from snoc have IH: "\<forall>i\<in>set js. ?f ! (i - 1) = xs ! i" "\<forall>k<length xs. (\<forall>i\<in>set js. i < k) \<longrightarrow> ?f ! k = xs ! k"
    and lt: "\<forall>i\<in>set js. i < j" and j: "0 < j" "j < length xs"
    by (auto simp: sorted_wrt_append)
  have fj: "?f ! j = xs ! j" using IH(2) lt j by blast
  have "i - 1 < j - 1" "i - 1 < length xs" if "i \<in> set js" for i
    using lt that snoc.prems(2) j by fastforce+
  note less = this
  have "swap_at ?f (j - 1) j ! (i - 1) = ?f ! (i - 1)" if "i \<in> set js" for i
  proof -
    from less [OF that] have "i - 1 \<noteq> j" "i - 1 \<noteq> j - 1" by linarith+
    then show ?thesis using less(2) [OF that] j by (simp add: nth_swap_at)
  qed
  with IH(1) have "\<forall>i\<in>set js. swap_at ?f (j - 1) j ! (i - 1) = xs ! i" by simp
  moreover have "swap_at ?f (j - 1) j ! (j - 1) = xs ! j"
    using fj j by (auto simp: nth_swap_at)
  moreover have "swap_at ?f (j - 1) j ! k = xs ! k" if "k < length xs" "\<forall>i\<in>set (js @ [j]). i < k" for k
    using IH(2) that j by (auto simp: nth_swap_at)
  ultimately show ?case by simp
qed simp

lemma wf_permuted:
  assumes "wf_list l" and "mset its = mset (items l)"
  shows "wf_list (l\<lparr>items := its\<rparr>)"
proof -
  have "sum_list (map f its) = sum_list (map f (items l))" for f :: "legacy_list_item \<Rightarrow> nat"
    by (metis assms(2) mset_map sum_mset_sum_list)
  then have "name_units its = name_units (items l)" "path_units its = path_units (items l)"
    unfolding name_units_def path_units_def by blast+
  moreover have "set its = set (items l)" using assms(2) by (rule mset_eq_setD)
  ultimately show ?thesis using assms(1) by (simp add: wf_list_def within_budget_def)
qed

lemma normalized_not_first:
  assumes "\<not> (normalized_indices indices n \<noteq> [] \<and> hd (normalized_indices indices n) = 0)"
  shows "\<forall>i\<in>set (normalized_indices indices n). 0 < i \<and> i < n"
proof -
  have s: "sorted (normalized_indices indices n)" by simp
  have "0 \<notin> set (normalized_indices indices n)"
    using s assms by (cases "normalized_indices indices n") auto
  then show ?thesis by (auto intro: gr0I)
qed

lemma normalized_not_last:
  assumes "\<not> (normalized_indices indices n \<noteq> [] \<and> last (normalized_indices indices n) + 1 = n)"
  shows "\<forall>i\<in>set (normalized_indices indices n). i + 1 < n"
proof
  fix i assume i: "i \<in> set (normalized_indices indices n)"
  let ?s = "normalized_indices indices n"
  have "sorted ?s" by simp
  obtain k where k: "k < length ?s" "?s ! k = i" using i unfolding in_set_conv_nth by blast
  then have "last ?s = ?s ! (length ?s - 1)" by (intro last_conv_nth) auto
  with k sorted_nth_mono [OF \<open>sorted ?s\<close>, of k "length ?s - 1"] have "i \<le> last ?s" by auto
  moreover have "last ?s \<in> set ?s" using i by (intro last_in_set) (metis empty_iff empty_set)
  then have "last ?s < n" by simp
  moreover have "last ?s + 1 \<noteq> n" using assms k(1) by auto
  ultimately show "i + 1 < n" by linarith
qed

lemma move_rows_earlier_spec:
  assumes "wf_list l" and "move_rows_earlier_changed indices l = ((rows, changed), l')"
  shows "wf_list l'" and "mset (items l') = mset (items l)"
    and "changed \<Longrightarrow> i \<in> set indices \<Longrightarrow> i < length (items l) \<Longrightarrow>
      i - 1 \<in> set rows \<and> items l' ! (i - 1) = items l ! i"
    and "\<not> changed \<Longrightarrow> l' = l"
proof -
  let ?s = "normalized_indices indices (length (items l))"
  let ?f = "fold (\<lambda>i xs. swap_at xs (i - 1) i) ?s (items l)"
  have "wf_list l' \<and> mset (items l') = mset (items l) \<and>
      (changed \<longrightarrow> (\<forall>i. i \<in> set indices \<longrightarrow> i < length (items l) \<longrightarrow>
        i - 1 \<in> set rows \<and> items l' ! (i - 1) = items l ! i)) \<and> (\<not> changed \<longrightarrow> l' = l)"
  proof (cases "?s \<noteq> [] \<and> hd ?s = 0")
    case True
    with assms show ?thesis by (simp add: move_rows_earlier_changed_def)
  next
    case False
    note bound = normalized_not_first [OF False]
    have ms: "mset ?f = mset (items l)"
      by (rule mset_fold_swap) (use bound in fastforce)
    have pos: "\<forall>i\<in>set ?s. ?f ! (i - 1) = items l ! i"
      using fold_swap_earlier [OF normalized_strict bound] by blast
    have l': "l' = l\<lparr>items := ?f\<rparr>" "rows = map (\<lambda>i. i - 1) ?s" "changed = (?s \<noteq> [])"
      using assms(2) unfolding move_rows_earlier_changed_def Let_def if_not_P [OF False] by auto
    show ?thesis
      using wf_permuted [OF assms(1) ms] ms pos by (auto simp: l')
  qed
  then show "wf_list l'" "mset (items l') = mset (items l)"
    "changed \<Longrightarrow> i \<in> set indices \<Longrightarrow> i < length (items l) \<Longrightarrow>
      i - 1 \<in> set rows \<and> items l' ! (i - 1) = items l ! i"
    "\<not> changed \<Longrightarrow> l' = l"
    by blast+
qed

lemma move_rows_later_wf:
  assumes "wf_list l"
  shows "wf_list (snd (move_rows_later_changed indices l))"
    and "mset (items (snd (move_rows_later_changed indices l))) = mset (items l)"
proof -
  let ?s = "normalized_indices indices (length (items l))"
  have "wf_list (snd (move_rows_later_changed indices l)) \<and>
    mset (items (snd (move_rows_later_changed indices l))) = mset (items l)"
  proof (cases "?s \<noteq> [] \<and> last ?s + 1 = length (items l)")
    case True
    with assms show ?thesis by (simp add: move_rows_later_changed_def Let_def)
  next
    case False
    have ms: "mset (fold (\<lambda>i xs. swap_at xs i (i + 1)) (rev ?s) (items l)) = mset (items l)"
      by (rule mset_fold_swap) (use normalized_not_last [OF False] in fastforce)
    show ?thesis
      unfolding move_rows_later_changed_def Let_def if_not_P [OF False]
      using wf_permuted [OF assms ms] ms by simp
  qed
  then show "wf_list (snd (move_rows_later_changed indices l))"
    "mset (items (snd (move_rows_later_changed indices l))) = mset (items l)" by blast+
qed

lemma normalized_map_pred:
  assumes "sorted_wrt (<) s" and "\<forall>i\<in>set s. 0 < i \<and> i < n"
  shows "normalized_indices (map (\<lambda>i. i - 1) s) n = map (\<lambda>i. i - 1) s"
proof -
  have "sorted_wrt (<) (map (\<lambda>i. i - 1) s)"
    unfolding sorted_wrt_map
    by (rule sorted_wrt_mono_rel [OF _ assms(1)]) (use assms(2) in fastforce)
  then have "sorted (map (\<lambda>i. i - 1) s)" "distinct (map (\<lambda>i. i - 1) s)"
    by (simp_all only: strict_sorted_iff)
  moreover have "filter (\<lambda>i. i < n) (map (\<lambda>i. i - 1) s) = map (\<lambda>i. i - 1) s"
    using assms(2) by (intro filter_True) auto
  ultimately show ?thesis
    unfolding normalized_indices_def by (simp only: sorted_sort_id distinct_remdups_id)
qed

lemma items_update: "items (l\<lparr>items := its\<rparr>) = its"
  by simp

text \<open>Moving the returned rows later undoes the move.\<close>

lemma move_earlier_later:
  assumes "move_rows_earlier_changed indices l = ((rows, changed), l')" and "changed"
  shows "move_rows_later_changed rows l' = ((normalized_indices indices (length (items l)), True), l)"
proof -
  let ?s = "normalized_indices indices (length (items l))"
  let ?f = "fold (\<lambda>i xs. swap_at xs (i - 1) i) ?s (items l)"
  have no: "\<not> (?s \<noteq> [] \<and> hd ?s = 0)" and ne: "?s \<noteq> []"
    using assms by (auto simp: move_rows_earlier_changed_def Let_def split: if_splits)
  have l': "l' = l\<lparr>items := ?f\<rparr>" "rows = map (\<lambda>i. i - 1) ?s"
    using assms(1) unfolding move_rows_earlier_changed_def Let_def if_not_P [OF no] by auto
  note bound = normalized_not_first [OF no]
  have n: "normalized_indices rows (length (items l')) = map (\<lambda>i. i - 1) ?s"
    unfolding l' using normalized_map_pred [OF normalized_strict bound] by simp
  have later: "\<not> (map (\<lambda>i. i - 1) ?s \<noteq> [] \<and> last (map (\<lambda>i. i - 1) ?s) + 1 = length (items l'))"
    using bound ne last_in_set [OF ne] by (auto simp: last_map l')
  have "fold (\<lambda>i xs. swap_at xs i (i + 1)) (rev (map (\<lambda>i. i - 1) ?s)) ?f =
      fold (\<lambda>i xs. swap_at xs (i - 1) i) (rev ?s) ?f"
    unfolding rev_map fold_map
  proof (rule fold_cong [OF refl refl])
    fix i assume "i \<in> set (rev ?s)"
    then have "0 < i" using bound unfolding set_rev by blast
    then have "i - 1 + 1 = i" by simp
    then show "((\<lambda>i xs. swap_at xs i (i + 1)) \<circ> (\<lambda>i. i - 1)) i =
        (\<lambda>xs. swap_at xs (i - 1) i)"
      by (simp only: comp_def)
  qed
  also have "\<dots> = items l"
  proof -
    have "\<forall>i\<in>set ?s. i - 1 < length (items l) \<and> i < length (items l)"
      using bound by (simp add: less_imp_diff_less)
    from fold_swap_rev [where f = "\<lambda>i. i - 1" and g = "\<lambda>i. i", OF this]
    show ?thesis .
  qed
  finally have undone: "fold (\<lambda>i xs. swap_at xs i (i + 1)) (rev (map (\<lambda>i. i - 1) ?s)) ?f = items l" .
  have succ: "map (\<lambda>i. i + 1) (map (\<lambda>i. i - 1) ?s) = ?s"
    using bound by (auto intro!: map_idI)
  show ?thesis
    unfolding move_rows_later_changed_def Let_def n if_not_P [OF later] succ
    unfolding l' items_update undone using ne by simp
qed

section \<open>Recording a move\<close>

definition record_move_success :: "usize \<Rightarrow> nat \<Rightarrow> legacy_list \<Rightarrow> bool \<times> legacy_list" where
  "record_move_success index fresh l =
     (if \<not> index < length (items l) then (False, l)
      else
        let item = items l ! index;
            old_proposal_units = length (proposed_name item);
            new_path = planned_path item;
            name = path_name new_path;
            new_proposal_units = length name;
            parent = (if source_parent_units new_path \<noteq> destination_parent item
                      then path_root new_path else destination_parent item);
            item = item\<lparr>destination_parent := parent, source_path := new_path,
                        proposed_name := name, current_name := name\<rparr>
        in (True,
            invalidate_source_index fresh
              (l\<lparr>items := (items l)[index := item],
                 proposed_name_utf16_units :=
                   wrapping_sub (proposed_name_utf16_units l) old_proposal_units + new_proposal_units\<rparr>)))"

text \<open>
  For a parent in normal form and a name without a backslash the row is settled where it was
  moved to, and the counters stay exact.
\<close>

lemma record_move_success_spec:
  fixes fresh :: nat
  assumes "wf_list l" and index: "index < length (items l)"
    and "normal_parent (destination_parent (items l ! index))"
    and "BACKSLASH \<notin> set (proposed_name (items l ! index))"
  defines "l' \<equiv> snd (record_move_success index fresh l)"
  shows "wf_list l'"
    and "source_path (items l' ! index) = planned_path (items l ! index)"
    and "current_name (items l' ! index) = proposed_name (items l ! index)"
    and "planned_change_kind_of (items l' ! index) = NoChange"
    and "j \<noteq> index \<Longrightarrow> items l' ! j = items l ! j"
proof -
  let ?it = "items l ! index"
  let ?path = "planned_path ?it"
  define new where "new = ?it\<lparr>destination_parent := source_parent_units ?path, source_path := ?path,
    proposed_name := path_name ?path, current_name := path_name ?path\<rparr>"
  have fields: "source_path new = ?path" "current_name new = path_name ?path"
      "proposed_name new = path_name ?path" "destination_parent new = source_parent_units ?path"
    by (simp_all add: new_def)
  have name: "path_name ?path = proposed_name ?it"
    using recorded_path [OF assms(3,4)] by simp
  have l': "l' = invalidate_source_index fresh (l\<lparr>items := (items l)[index := new],
      proposed_name_utf16_units := wrapping_sub (proposed_name_utf16_units l)
        (length (proposed_name ?it)) + length (path_name ?path)\<rparr>)"
    using index by (auto simp: l'_def record_move_success_def Let_def path_root_def new_def)
  have at: "items l' ! index = new" using index by (simp add: l')
  have planned: "planned_path new = ?path"
    using recorded_path [OF assms(3,4)] by (simp add: planned_path_join fields)
  have units: "item_path_units new = item_path_units ?it"
    using planned_units_recorded [OF assms(3,4)] by (simp add: item_path_units_def length_planned_path fields)
  have sums: "name_units ((items l)[index := new]) = name_units (items l)"
      "path_units ((items l)[index := new]) = path_units (items l)"
    using sum_list_map_update [OF index, of "\<lambda>it. length (proposed_name it)" new]
      sum_list_map_update [OF index, of item_path_units new] units
    by (simp_all add: name_units_def path_units_def name fields)
  have "length (proposed_name ?it) \<le> proposed_name_utf16_units l"
    using assms(1) member_le_sum_list_nth [OF index, of "\<lambda>it. length (proposed_name it)"]
    by (simp add: wf_list_def name_units_def)
  moreover have "within_budget ((items l)[index := new])"
    using assms(1) index wf_names_bounded [OF assms(1) index] sums set_update_subset_insert [of "items l" index new]
    by (auto simp: wf_list_def within_budget_def name fields)
  ultimately show "wf_list l'"
    using assms(1) by (simp add: l' wf_list_def sums name)
  show "source_path (items l' ! index) = planned_path ?it" by (simp add: at fields)
  show "current_name (items l' ! index) = proposed_name ?it" by (simp add: at fields name)
  have "item_path_units ?it \<le> path_units (items l)"
    using member_le_sum_list_nth [OF index, of item_path_units] by (simp add: path_units_def)
  then have "length ?path < USIZE_LIMIT"
    using assms(1) by (simp add: wf_list_def within_budget_def length_planned_path
        item_path_units_def budget_defs)
  then have "planned_path_matches_source new"
    by (subst planned_path_matches_source_iff) (simp_all add: planned fields)
  then show "planned_change_kind_of (items l' ! index) = NoChange"
    unfolding at by (simp add: planned_change_kind_of_def)
  show "j \<noteq> index \<Longrightarrow> items l' ! j = items l ! j" by (simp add: l')
qed

section \<open>Destination parents\<close>

datatype destination_parent_mutation_error =
    ParentBudgetExceeded usize usize
  | ParentAggregateBudgetExceeded usize usize
  | ParentPlannedPathBudgetExceeded usize usize
  | ParentArithmeticOverflow
  | ParentAllocationFailed

definition validate_destination_parent_units ::
  "usize \<Rightarrow> destination_parent_mutation_error + unit" where
  "validate_destination_parent_units requested_units =
     (if MAX_DESTINATION_PARENT_UTF16_UNITS < requested_units
      then Inl (ParentBudgetExceeded requested_units MAX_DESTINATION_PARENT_UTF16_UNITS)
      else Inr ())"

definition try_clone_destination_parent_units ::
  "bool \<Rightarrow> u16 list \<Rightarrow> destination_parent_mutation_error + legacy_text" where
  "try_clone_destination_parent_units reserved units =
     and_then (ok_if ParentAllocationFailed reserved) (\<lambda>_. Inr units)"

definition normalized_destination_parent_len :: "u16 list \<Rightarrow> usize \<times> bool" where
  "normalized_destination_parent_len parent =
     (let trimmed_len = (case rposition (\<lambda>u. \<not> is_path_separator u) parent of
                           None \<Rightarrow> 0 | Some index \<Rightarrow> index + 1)
      in if trimmed_len = length parent then (trimmed_len, False)
         else
           let preserves_root_separator =
                 (trimmed_len = 0 \<or>
                  take trimmed_len parent \<noteq> [] \<and> last (take trimmed_len parent) = COLON)
           in (trimmed_len + of_bool preserves_root_separator, preserves_root_separator))"

definition restore_root_separator :: "bool \<Rightarrow> legacy_text \<Rightarrow> legacy_text" where
  "restore_root_separator preserves_root_separator normalized =
     (if preserves_root_separator \<and> normalized \<noteq> []
      then butlast normalized @ [BACKSLASH] else normalized)"

definition unify_destination_parent_changed :: "legacy_text \<Rightarrow> allocator \<Rightarrow> legacy_list \<Rightarrow>
    (destination_parent_mutation_error + usize list) \<times> legacy_list" where
  "unify_destination_parent_changed parent al l =
     (let (normalized_len, preserves_root_separator) = normalized_destination_parent_len parent;
          normalized_units = take normalized_len parent;
          checks =
            and_then (validate_destination_parent_units normalized_len) (\<lambda>_.
            and_then (ok_or ParentArithmeticOverflow
              (checked_add normalized_len (destination_separator_units normalized_units)))
              (\<lambda>per_row_parent_units.
            and_then (ok_or ParentArithmeticOverflow
              (Option.bind (checked_mul per_row_parent_units (length (items l)))
                (\<lambda>units. checked_add units (proposed_name_utf16_units l))))
              (\<lambda>requested_planned_path_units.
            if MAX_TOTAL_PLANNED_PATH_UTF16_UNITS < requested_planned_path_units
            then Inl (ParentPlannedPathBudgetExceeded requested_planned_path_units
                   MAX_TOTAL_PLANNED_PATH_UTF16_UNITS)
            else
            and_then (try_clone_destination_parent_units (al AtParent) parent) (\<lambda>normalized.
            and_then (ok_if ParentAllocationFailed (al AtChanged)) (\<lambda>_.
            Inr (requested_planned_path_units,
              restore_root_separator preserves_root_separator
                (truncate_units normalized normalized_len)))))))
      in case checks of
           Inl e \<Rightarrow> (Inl e, l)
         | Inr (requested_planned_path_units, normalized) \<Rightarrow>
             (Inr (filter (\<lambda>row. destination_parent (items l ! row) \<noteq> normalized)
                [0..<length (items l)]),
              l\<lparr>items := map (\<lambda>item. item\<lparr>destination_parent := normalized\<rparr>) (items l),
                planned_path_utf16_units := requested_planned_path_units\<rparr>))"

text \<open>
  \<open>reset_destination_parents_by\<close>: the first pass sizes the result, the second stages the
  parents, sharing equal ones through the set \<open>shared\<close>.
\<close>

fun size_reset :: "legacy_list_item list \<Rightarrow> usize \<Rightarrow> destination_parent_mutation_error + usize" where
  "size_reset [] requested = Inr requested"
| "size_reset (item # rest) requested =
     and_then (ok_or ParentArithmeticOverflow (checked_planned_path_units
       (source_parent_units (source_path item)) (length (proposed_name item)))) (\<lambda>planned.
     and_then (ok_or ParentArithmeticOverflow (checked_add requested planned)) (\<lambda>requested.
     size_reset rest requested))"

fun stage_parents :: "allocator \<Rightarrow> usize \<Rightarrow> legacy_list_item list \<Rightarrow> legacy_text list \<Rightarrow> usize \<Rightarrow>
    usize list \<Rightarrow> legacy_text list \<Rightarrow>
    destination_parent_mutation_error + (usize list \<times> legacy_text list)" where
  "stage_parents al row [] shared aggregate_units changed staged = Inr (changed, staged)"
| "stage_parents al row (item # rest) shared aggregate_units changed staged =
     (let source_parent = source_parent_units (source_path item) in
      and_then (validate_destination_parent_units (length source_parent)) (\<lambda>_.
      and_then
        (if source_parent \<in> set shared then Inr (source_parent, shared, aggregate_units)
         else
           and_then (ok_or ParentArithmeticOverflow
             (checked_add aggregate_units (length source_parent))) (\<lambda>aggregate_units.
           if MAX_TOTAL_DESTINATION_PARENT_UTF16_UNITS < aggregate_units
           then Inl (ParentAggregateBudgetExceeded aggregate_units
                  MAX_TOTAL_DESTINATION_PARENT_UTF16_UNITS)
           else
           and_then (try_clone_destination_parent_units (al (AtParentText row)) source_parent)
             (\<lambda>parent. Inr (parent, parent # shared, aggregate_units))))
        (\<lambda>(parent, shared, aggregate_units).
      stage_parents al (row + 1) rest shared aggregate_units
        (if destination_parent item \<noteq> parent then changed @ [row] else changed)
        (staged @ [parent]))))"

definition reset_destination_parents ::
  "allocator \<Rightarrow> legacy_list \<Rightarrow> (destination_parent_mutation_error + usize list) \<times> legacy_list" where
  "reset_destination_parents al l =
     (let checks =
        and_then (size_reset (items l) 0) (\<lambda>requested_planned_path_units.
        if MAX_TOTAL_PLANNED_PATH_UTF16_UNITS < requested_planned_path_units
        then Inl (ParentPlannedPathBudgetExceeded requested_planned_path_units
               MAX_TOTAL_PLANNED_PATH_UTF16_UNITS)
        else
        and_then (ok_if ParentAllocationFailed (al AtShared)) (\<lambda>_.
        and_then (ok_if ParentAllocationFailed (al AtStagedParents)) (\<lambda>_.
        and_then (ok_if ParentAllocationFailed (al AtChanged)) (\<lambda>_.
        and_then (stage_parents al 0 (items l) [] 0 [] []) (\<lambda>(changed, staged).
        Inr (requested_planned_path_units, changed, staged))))))
      in case checks of
           Inl e \<Rightarrow> (Inl e, l)
         | Inr (requested_planned_path_units, changed, staged) \<Rightarrow>
             (Inr changed,
              l\<lparr>items := map2 (\<lambda>item parent. item\<lparr>destination_parent := parent\<rparr>) (items l) staged,
                planned_path_utf16_units := requested_planned_path_units\<rparr>))"

section \<open>The contract of the parent commands\<close>

definition relocate :: "(legacy_list_item \<Rightarrow> legacy_text) \<Rightarrow> legacy_list \<Rightarrow> legacy_list" where
  "relocate parent l =
     (let its = map (\<lambda>item. item\<lparr>destination_parent := parent item\<rparr>) (items l)
      in l\<lparr>items := its, planned_path_utf16_units := path_units its\<rparr>)"

lemma items_relocate [simp]:
  "items (relocate parent l) = map (\<lambda>item. item\<lparr>destination_parent := parent item\<rparr>) (items l)"
  by (simp add: relocate_def Let_def)

lemma wf_relocate:
  "wf_list l \<Longrightarrow> wf_list (relocate parent l) \<longleftrightarrow>
     path_units (items (relocate parent l)) \<le> MAX_TOTAL_PLANNED_PATH_UTF16_UNITS"
  by (auto simp: wf_list_def relocate_def Let_def within_budget_def name_units_def comp_def)

locale parent_command =
  fixes cmd :: "allocator \<Rightarrow> legacy_list \<Rightarrow> (destination_parent_mutation_error + usize list) \<times> legacy_list"
    and parent :: "legacy_list_item \<Rightarrow> legacy_text"
    and admissible :: "legacy_list \<Rightarrow> bool"
  assumes applied: "wf_list l \<Longrightarrow> cmd al l = (Inr rows, l') \<Longrightarrow>
      rows = filter (\<lambda>i. destination_parent (items l ! i) \<noteq> parent (items l ! i)) [0..<length (items l)] \<and>
      l' = relocate parent l \<and> wf_list l'"
    and refused: "wf_list l \<Longrightarrow> cmd al l = (Inl e, l') \<Longrightarrow> l' = l"
    and accepts: "wf_list l \<Longrightarrow> admissible l \<Longrightarrow> wf_list (relocate parent l) \<Longrightarrow>
      \<exists>rows. fst (cmd (\<lambda>_. True) l) = Inr rows"
begin

lemma preserves_wf: "wf_list l \<Longrightarrow> wf_list (snd (cmd al l))"
  by (cases "cmd al l"; cases "fst (cmd al l)") (auto dest: applied refused)

lemma atomic: "wf_list l \<Longrightarrow> snd (cmd al l) = l \<or> snd (cmd al l) = relocate parent l"
  by (cases "cmd al l"; cases "fst (cmd al l)") (auto dest: applied refused)

end

text \<open>The parent \<open>unify_destination_parent_changed\<close> gives every row.\<close>

definition unified_parent :: "legacy_text \<Rightarrow> legacy_text" where
  "unified_parent parent =
     (let (n, preserves) = normalized_destination_parent_len parent
      in restore_root_separator preserves (truncate_units parent n))"

lemmas unified_parent_unfold = unified_parent_def restore_root_separator_def truncate_units_def

lemma last_take_nth: "0 < n \<Longrightarrow> n \<le> length xs \<Longrightarrow> last (take n xs) = xs ! (n - 1)"
  by (cases n) (simp_all add: take_Suc_conv_app_nth)

lemma normalized_len_cases:
  fixes parent :: "u16 list"
  obtains (kept) "normalized_destination_parent_len parent = (length parent, False)"
      "parent = [] \<or> \<not> is_path_separator (last parent)"
  | (trimmed) n where "n < length parent" "normalized_destination_parent_len parent = (n, False)"
      "n \<noteq> 0" "\<not> is_path_separator (parent ! (n - 1))" "parent ! (n - 1) \<noteq> COLON"
  | (root) n where "n < length parent" "normalized_destination_parent_len parent = (Suc n, True)"
      "is_path_separator (parent ! n)" "n = 0 \<or> parent ! (n - 1) = COLON"
proof (cases "rposition (\<lambda>u. \<not> is_path_separator u) parent")
  case None
  then have sep: "\<forall>u\<in>set parent. is_path_separator u" by (simp add: rposition_None)
  show thesis
  proof (cases "parent = []")
    case True
    then show thesis by (intro kept) (simp_all add: normalized_destination_parent_len_def None)
  next
    case False
    then show thesis using sep
      by (intro root [of 0]) (simp_all add: normalized_destination_parent_len_def None)
  qed
next
  case (Some i)
  note i = Some [unfolded rposition_Some]
  show thesis
  proof (cases "Suc i = length parent")
    case True
    then have "last parent = parent ! i"
      by (metis One_nat_def diff_Suc_1 last_conv_nth length_0_conv nat.distinct(1))
    with True i show thesis
      by (intro kept) (simp_all add: normalized_destination_parent_len_def Some)
  next
    case False
    with i have n: "Suc i < length parent" by simp
    have l: "last (take (Suc i) parent) = parent ! i"
      using i by (simp add: take_Suc_conv_app_nth)
    show thesis
    proof (cases "parent ! i = COLON")
      case True
      with n l i False show thesis
        by (intro root [of "Suc i"])
           (auto simp: normalized_destination_parent_len_def Some Let_def)
    next
      case False
      with n l i show thesis
        by (intro trimmed [of "Suc i"])
           (auto simp: normalized_destination_parent_len_def Some Let_def)
    qed
  qed
qed

lemma unified_parent_size:
  "length (unified_parent parent) = fst (normalized_destination_parent_len parent)"
  "destination_separator_units (take (fst (normalized_destination_parent_len parent)) parent) =
     destination_separator_units (unified_parent parent)"
  by (cases rule: normalized_len_cases [of parent];
      auto simp: unified_parent_unfold Let_def destination_separator_units_def take_Suc_conv_app_nth
        last_take_nth)+

text \<open>The unified parent has no trailing separator, except the one backslash of a root.\<close>

lemma unified_parent_normal:
  "unified_parent parent = [] \<or> \<not> is_path_separator (last (unified_parent parent)) \<or>
     (\<exists>p. unified_parent parent = p @ [BACKSLASH] \<and> (p = [] \<or> last p = COLON))"
proof (cases rule: normalized_len_cases [of parent])
  case (root n)
  then have "unified_parent parent = take n parent @ [BACKSLASH]"
    by (cases "parent = []") (simp_all add: unified_parent_unfold Let_def take_Suc_conv_app_nth)
  moreover have "n = 0 \<or> last (take n parent) = COLON"
    using root by (cases "n = 0") (auto simp: last_take_nth)
  ultimately show ?thesis by auto
qed (auto simp: unified_parent_unfold Let_def last_take_nth)

lemma unified_parent_normal_parent: "normal_parent (unified_parent parent)"
  using unified_parent_normal [of parent] by (auto simp: normal_parent_def)

lemma path_units_const:
  "path_units (map (\<lambda>item. item\<lparr>destination_parent := p\<rparr>) its) =
     (length p + destination_separator_units p) * length its + name_units its"
  by (induction its) (simp_all add: counter_simps item_path_units_def planned_units_def)

interpretation unify: parent_command "unify_destination_parent_changed p"
  "\<lambda>_. unified_parent p"
  "\<lambda>_. length (unified_parent p) \<le> MAX_DESTINATION_PARENT_UTF16_UNITS" for p
proof -
  let ?u = "unified_parent p"
  let ?req = "\<lambda>l. (length ?u + destination_separator_units ?u) * length (items l) + name_units (items l)"
  let ?rows = "\<lambda>l. filter (\<lambda>i. destination_parent (items l ! i) \<noteq> ?u) [0..<length (items l)]"
  obtain n b where nb: "normalized_destination_parent_len p = (n, b)" by (cases "normalized_destination_parent_len p")
  have u: "n = length ?u" "destination_separator_units (take n p) = destination_separator_units ?u"
    using unified_parent_size [of p] by (simp_all add: nb)
  have norm: "restore_root_separator b (truncate_units p n) = ?u"
    by (simp add: unified_parent_def nb)
  have run: "(if length ?u \<le> MAX_DESTINATION_PARENT_UTF16_UNITS \<and>
          ?req l \<le> MAX_TOTAL_PLANNED_PATH_UTF16_UNITS \<and> al AtParent \<and> al AtChanged
       then unify_destination_parent_changed p al l = (Inr (?rows l), relocate (\<lambda>_. ?u) l)
       else \<exists>e. unify_destination_parent_changed p al l = (Inl e, l))"
    if wf: "wf_list l" for al l
  proof -
    have un: "proposed_name_utf16_units l = name_units (items l)" using wf by (simp add: wf_list_def)
    have rel: "relocate (\<lambda>_. ?u) l = l\<lparr>items := map (\<lambda>item. item\<lparr>destination_parent := ?u\<rparr>) (items l),
        planned_path_utf16_units := ?req l\<rparr>"
      by (simp add: relocate_def path_units_const)
    note defs = unify_destination_parent_changed_def nb prod.case Let_def u(2) un norm
    show ?thesis
    proof (cases "n \<le> MAX_DESTINATION_PARENT_UTF16_UNITS")
      case False
      then show ?thesis unfolding defs by (simp add: validate_destination_parent_units_def u(1))
    next
      case len: True
      then have per: "ok_or ParentArithmeticOverflow (checked_add n (destination_separator_units ?u)) =
          Inr (length ?u + destination_separator_units ?u)"
        using destination_separator_units_le [of ?u] u(1) by (simp add: checked_add_def budget_defs)
      have v: "validate_destination_parent_units n = Inr ()"
        using len by (simp add: validate_destination_parent_units_def)
      show ?thesis
      proof (cases "?req l < USIZE_LIMIT")
        case False
        then have "Option.bind (checked_mul (length ?u + destination_separator_units ?u) (length (items l)))
            (\<lambda>units. checked_add units (name_units (items l))) = None"
          by (simp add: checked_mul_def checked_add_def)
        then show ?thesis
          using False unfolding defs v per by (simp add: budget_defs)
      next
        case True
        then have "Option.bind (checked_mul (length ?u + destination_separator_units ?u) (length (items l)))
            (\<lambda>units. checked_add units (name_units (items l))) = Some (?req l)"
          by (simp add: checked_mul_def checked_add_def)
        then show ?thesis
          using len unfolding defs v per rel
          by (auto simp: u(1) try_clone_destination_parent_units_def ok_if_def norm [unfolded u(1)])
      qed
    qed
  qed
  have fits: "?req l \<le> MAX_TOTAL_PLANNED_PATH_UTF16_UNITS \<longleftrightarrow> wf_list (relocate (\<lambda>_. ?u) l)"
    if "wf_list l" for l
    using wf_relocate [OF that, of "\<lambda>_. ?u"] by (simp add: path_units_const)
  show "parent_command (unify_destination_parent_changed p) (\<lambda>_. ?u)
      (\<lambda>_. length ?u \<le> MAX_DESTINATION_PARENT_UTF16_UNITS)"
  proof
    fix l al rows l'
    assume wf: "wf_list l" and r: "unify_destination_parent_changed p al l = (Inr rows, l')"
    from run [OF wf, of al] r fits [OF wf]
    show "rows = ?rows l \<and> l' = relocate (\<lambda>_. ?u) l \<and> wf_list l'" by (auto split: if_splits)
  next
    fix l al e l'
    assume wf: "wf_list l" and r: "unify_destination_parent_changed p al l = (Inl e, l')"
    from run [OF wf, of al] r show "l' = l" by (auto split: if_splits)
  next
    fix l :: legacy_list
    assume wf: "wf_list l" "length ?u \<le> MAX_DESTINATION_PARENT_UTF16_UNITS" "wf_list (relocate (\<lambda>_. ?u) l)"
    with run [OF wf(1), of "\<lambda>_. True"] fits [OF wf(1)]
    show "\<exists>rows. fst (unify_destination_parent_changed p (\<lambda>_. True) l) = Inr rows" by auto
  qed
qed

abbreviation own_parent :: "legacy_list_item \<Rightarrow> legacy_text" where
  "own_parent item \<equiv> source_parent_units (source_path item)"

lemma size_reset_Inr:
  "size_reset its n = Inr m \<Longrightarrow>
     m = n + path_units (map (\<lambda>item. item\<lparr>destination_parent := own_parent item\<rparr>) its)"
  by (induction its arbitrary: n)
     (fastforce simp: and_then_Inr counter_simps item_path_units_def)+

lemma size_reset_ok:
  "n + path_units (map (\<lambda>item. item\<lparr>destination_parent := own_parent item\<rparr>) its) < USIZE_LIMIT \<Longrightarrow>
     \<exists>m. size_reset its n = Inr m"
  by (induction its arbitrary: n)
     (auto simp: and_then_Inr counter_simps item_path_units_def add.assoc)

lemma stage_parents_Inr:
  assumes "stage_parents al row its shared n changed staged = Inr (changed', staged')"
  shows "staged' = staged @ map own_parent its \<and>
    changed' = changed @
      filter (\<lambda>i. destination_parent (its ! (i - row)) \<noteq> own_parent (its ! (i - row))) [row..<row + length its]"
  using assms
proof (induction its arbitrary: row shared n changed staged)
  case (Cons it its)
  let ?c = "if destination_parent it \<noteq> own_parent it then changed @ [row] else changed"
  from Cons.prems obtain shared' n' where
    s: "stage_parents al (row + 1) its shared' n' ?c (staged @ [own_parent it]) = Inr (changed', staged')"
    by (auto simp: Let_def and_then_Inr try_clone_destination_parent_units_def split: if_splits)
  have "[row..<row + length (it # its)] = row # [row + 1..<row + 1 + length its]"
    using upt_conv_Cons [of row "row + length (it # its)"] by simp
  moreover have "filter (\<lambda>i. destination_parent ((it # its) ! (i - row)) \<noteq> own_parent ((it # its) ! (i - row)))
      [row + 1..<row + 1 + length its] =
    filter (\<lambda>i. destination_parent (its ! (i - (row + 1))) \<noteq> own_parent (its ! (i - (row + 1))))
      [row + 1..<row + 1 + length its]"
    by (rule filter_cong) (auto simp: nth_Cons')
  ultimately show ?case
    using Cons.IH [OF s] by simp
qed simp

lemma stage_parents_ok:
  assumes "\<forall>it\<in>set its. length (own_parent it) \<le> MAX_DESTINATION_PARENT_UTF16_UNITS"
    and "n + (\<Sum>it\<leftarrow>its. length (own_parent it)) \<le> MAX_TOTAL_DESTINATION_PARENT_UTF16_UNITS"
  shows "\<exists>r. stage_parents (\<lambda>_. True) row its shared n changed staged = Inr r"
  using assms
proof (induction its arbitrary: row shared n changed staged)
  case (Cons it its)
  then have v: "validate_destination_parent_units (length (own_parent it)) = Inr ()"
    and a: "checked_add n (length (own_parent it)) = Some (n + length (own_parent it))"
    and b: "\<not> MAX_TOTAL_DESTINATION_PARENT_UTF16_UNITS < n + length (own_parent it)"
    by (simp_all add: validate_destination_parent_units_def budget_defs)
  show ?case
    unfolding stage_parents.simps Let_def v a and_then_simps ok_or_simps
    using b Cons.prems Cons.IH [simplified]
    by (simp add: try_clone_destination_parent_units_def)
qed simp

interpretation reset_parents: parent_command reset_destination_parents own_parent
  "\<lambda>l. \<forall>it\<in>set (items l). length (own_parent it) \<le> MAX_DESTINATION_PARENT_UTF16_UNITS"
proof
  fix l al rows l'
  assume wf: "wf_list l" and r: "reset_destination_parents al l = (Inr rows, l')"
  let ?req = "path_units (items (relocate own_parent l))"
  from r obtain m changed staged where size: "size_reset (items l) 0 = Inr m"
    and m: "m \<le> MAX_TOTAL_PLANNED_PATH_UTF16_UNITS"
    and st: "stage_parents al 0 (items l) [] 0 [] [] = Inr (changed, staged)"
    and rows: "rows = changed"
    and l': "l' = l\<lparr>items := map2 (\<lambda>item parent. item\<lparr>destination_parent := parent\<rparr>) (items l) staged,
      planned_path_utf16_units := m\<rparr>"
    by (auto simp: reset_destination_parents_def Let_def and_then_def ok_if_def
        split: sum.splits if_splits)
  have m_eq: "m = ?req" using size_reset_Inr [OF size] by simp
  have st': "staged = map own_parent (items l)"
    "changed = filter (\<lambda>i. destination_parent (items l ! i) \<noteq> own_parent (items l ! i)) [0..<length (items l)]"
    using stage_parents_Inr [OF st] by simp_all
  have "map2 (\<lambda>item parent. item\<lparr>destination_parent := parent\<rparr>) (items l) (map own_parent (items l)) =
      items (relocate own_parent l)"
    by (rule nth_equalityI) simp_all
  then have "l' = relocate own_parent l"
    by (simp add: l' st' m_eq relocate_def Let_def)
  moreover have "wf_list (relocate own_parent l)" using m m_eq wf_relocate [OF wf] by simp
  ultimately show "rows = filter (\<lambda>i. destination_parent (items l ! i) \<noteq> own_parent (items l ! i))
      [0..<length (items l)] \<and> l' = relocate own_parent l \<and> wf_list l'"
    using rows st'(2) by simp
next
  fix l al e l'
  assume "reset_destination_parents al l = (Inl e, l')"
  then show "l' = l"
    by (auto simp: reset_destination_parents_def Let_def split: sum.splits)
next
  fix l :: legacy_list
  assume wf: "wf_list l"
    and parents: "\<forall>it\<in>set (items l). length (own_parent it) \<le> MAX_DESTINATION_PARENT_UTF16_UNITS"
    and "wf_list (relocate own_parent l)"
  then have req: "path_units (items (relocate own_parent l)) \<le> MAX_TOTAL_PLANNED_PATH_UTF16_UNITS"
    using wf_relocate [OF wf] by blast
  have "(\<Sum>it\<leftarrow>its. length (own_parent it)) \<le>
      path_units (map (\<lambda>item. item\<lparr>destination_parent := own_parent item\<rparr>) its)" for its
    by (induction its) (simp_all add: counter_simps item_path_units_def planned_units_def)
  from this [of "items l"] req have sum: "(\<Sum>it\<leftarrow>items l. length (own_parent it)) \<le>
      MAX_TOTAL_DESTINATION_PARENT_UTF16_UNITS"
    by (simp add: budget_defs)
  have "0 + path_units (map (\<lambda>item. item\<lparr>destination_parent := own_parent item\<rparr>) (items l)) < USIZE_LIMIT"
    using req by (simp add: budget_defs)
  from size_reset_ok [OF this] obtain m where m: "size_reset (items l) 0 = Inr m" ..
  with size_reset_Inr [OF m] req have "m \<le> MAX_TOTAL_PLANNED_PATH_UTF16_UNITS" by simp
  moreover obtain r where "stage_parents (\<lambda>_. True) 0 (items l) [] 0 [] [] = Inr r"
    using stage_parents_ok [OF parents, of 0 0 "[]" "[]" "[]"] sum unfolding add_0 by blast
  ultimately show "\<exists>rows. fst (reset_destination_parents (\<lambda>_. True) l) = Inr rows"
    using m by (cases r) (simp add: reset_destination_parents_def)
qed

end
