(* ===== verification/Legacy_Sort.thy ===== *)
theory Legacy_Sort
  imports Row_Moves
begin

text \<open>
  \<open>LegacyList::sort_by_with_semantics_changed\<close> (\<open>crates/darknamer-core/src/lib.rs\<close>): the row
  comparators, the stable index sort, and the in-place permutation that follows the cycles of
  the sorted order. The cycle walk is proved to apply exactly the permutation, so sorting is a
  stable sort of the rows for every comparator that is a total order. The last section shows
  that the 32-bit difference comparator of the legacy semantics is not one.
\<close>

section \<open>Comparators\<close>

datatype legacy_sort_mode =
    NameAscending | NameDescending | FullPathAscending | FullPathDescending
  | SizeAscending | SizeDescending | ModifiedAscending | ModifiedDescending
  | CreatedAscending | CreatedDescending

datatype sort_semantics = SafeActualSize | LegacyDarkNamer080210

text \<open>The difference wraps on 32 bits and is read as a signed number.\<close>

definition compare_legacy_size :: "u32 \<Rightarrow> u32 \<Rightarrow> ordering" where
  "compare_legacy_size left right = cmp_of (sint (left - right)) 0"

fun compare_items :: "(legacy_text \<Rightarrow> legacy_text \<Rightarrow> ordering) \<Rightarrow> sort_semantics \<Rightarrow> legacy_sort_mode \<Rightarrow>
    legacy_list_item \<Rightarrow> legacy_list_item \<Rightarrow> ordering" where
  "compare_items compare_text sem NameAscending a b = compare_text (current_name a) (current_name b)"
| "compare_items compare_text sem NameDescending a b =
     reverse_ordering (compare_text (current_name a) (current_name b))"
| "compare_items compare_text sem FullPathAscending a b = compare_text (source_path a) (source_path b)"
| "compare_items compare_text sem FullPathDescending a b =
     reverse_ordering (compare_text (source_path a) (source_path b))"
| "compare_items compare_text SafeActualSize SizeAscending a b = cmp_of (actual_size a) (actual_size b)"
| "compare_items compare_text LegacyDarkNamer080210 SizeAscending a b =
     compare_legacy_size (file_size a) (file_size b)"
| "compare_items compare_text SafeActualSize SizeDescending a b =
     reverse_ordering (cmp_of (actual_size a) (actual_size b))"
| "compare_items compare_text LegacyDarkNamer080210 SizeDescending a b =
     reverse_ordering (compare_legacy_size (file_size a) (file_size b))"
| "compare_items compare_text sem ModifiedAscending a b = cmp_of (modified a) (modified b)"
| "compare_items compare_text sem ModifiedDescending a b =
     reverse_ordering (cmp_of (modified a) (modified b))"
| "compare_items compare_text sem CreatedAscending a b = cmp_of (created a) (created b)"
| "compare_items compare_text sem CreatedDescending a b =
     reverse_ordering (cmp_of (created a) (created b))"

section \<open>The stable sort\<close>

text \<open>
  \<open>slice::sort_by\<close> is stable; for a total order its result is unique, and insertion computes
  it.
\<close>

fun insert_by :: "('a \<Rightarrow> 'a \<Rightarrow> ordering) \<Rightarrow> 'a \<Rightarrow> 'a list \<Rightarrow> 'a list" where
  "insert_by cmp x [] = [x]"
| "insert_by cmp x (y # ys) = (if cmp x y = Greater then y # insert_by cmp x ys else x # y # ys)"

definition stable_sort_by :: "('a \<Rightarrow> 'a \<Rightarrow> ordering) \<Rightarrow> 'a list \<Rightarrow> 'a list" where
  "stable_sort_by cmp xs = foldr (insert_by cmp) xs []"

lemma stable_sort_by_simps [simp]:
  "stable_sort_by cmp [] = []"
  "stable_sort_by cmp (x # xs) = insert_by cmp x (stable_sort_by cmp xs)"
  by (simp_all add: stable_sort_by_def)

lemma mset_insert_by [simp]: "mset (insert_by cmp x xs) = add_mset x (mset xs)"
  by (induction xs) auto

lemma mset_stable_sort_by [simp]: "mset (stable_sort_by cmp xs) = mset xs"
  by (induction xs) auto

lemma set_insert_by [simp]: "set (insert_by cmp x xs) = insert x (set xs)"
  by (induction xs) auto

lemma length_stable_sort_by [simp]: "length (stable_sort_by cmp xs) = length xs"
  by (metis mset_stable_sort_by size_mset)

text \<open>Sorting indices by what they point to sorts what they point to.\<close>

lemma map_insert_by: "map f (insert_by (\<lambda>i j. cmp (f i) (f j)) x xs) = insert_by cmp (f x) (map f xs)"
  by (induction xs) auto

lemma map_stable_sort_by:
  "map f (stable_sort_by (\<lambda>i j. cmp (f i) (f j)) xs) = stable_sort_by cmp (map f xs)"
  by (induction xs) (auto simp: map_insert_by)

context total_cmp
begin

lemma sorted_insert_by:
  "sorted_wrt (\<lambda>a b. cmp a b \<noteq> Greater) xs \<Longrightarrow> sorted_wrt (\<lambda>a b. cmp a b \<noteq> Greater) (insert_by cmp x xs)"
proof (induction xs)
  case (Cons y ys)
  have "cmp y x \<noteq> Greater" if "cmp x y = Greater"
    using that by (simp add: less_iff [symmetric] swap [of x y])
  moreover have "cmp x z \<noteq> Greater" if "cmp x y \<noteq> Greater" "cmp y z \<noteq> Greater" for z
    using that trans by blast
  ultimately show ?case
    using Cons by simp
qed simp

lemma sorted_stable_sort_by: "sorted_wrt (\<lambda>a b. cmp a b \<noteq> Greater) (stable_sort_by cmp xs)"
  by (induction xs) (auto intro: sorted_insert_by)

lemma filter_insert_by:
  "sorted_wrt (\<lambda>a b. cmp a b \<noteq> Greater) xs \<Longrightarrow>
     filter (\<lambda>y. cmp y k = Equal) (insert_by cmp x xs) =
       (if cmp x k = Equal then x # filter (\<lambda>y. cmp y k = Equal) xs
        else filter (\<lambda>y. cmp y k = Equal) xs)"
proof (induction xs)
  case (Cons y ys)
  have "cmp y k \<noteq> Equal" if "cmp x y = Greater" "cmp x k = Equal"
    using that equal_cong_right [of y k x] by auto
  with Cons show ?case by auto
qed simp

text \<open>Rows that compare equal keep their order.\<close>

lemma stable_sort_by_stable:
  "filter (\<lambda>y. cmp y k = Equal) (stable_sort_by cmp xs) = filter (\<lambda>y. cmp y k = Equal) xs"
  by (induction xs) (simp_all add: filter_insert_by [OF sorted_stable_sort_by])

lemma reverse_total: "total_cmp (\<lambda>x y. reverse_ordering (cmp x y))"
proof
  show "reverse_ordering (cmp y x) = reverse_ordering (reverse_ordering (cmp x y))" for x y
    by (simp add: swap [of y x])
  show "reverse_ordering (cmp x z) \<noteq> Greater"
    if "reverse_ordering (cmp x y) \<noteq> Greater" "reverse_ordering (cmp y z) \<noteq> Greater" for x y z
    using that trans [of z y x] by (simp add: not_less)
qed

lemma vimage_total: "total_cmp (\<lambda>x y. cmp (f x) (f y))"
  by unfold_locales (auto intro: swap dest: trans)

end

interpretation cmp_of: total_cmp "cmp_of :: 'a::linorder \<Rightarrow> 'a \<Rightarrow> ordering"
  by unfold_locales (auto simp: cmp_of_def split: if_splits)

lemma compare_items_total:
  assumes "total_cmp compare_text" and "sem = SafeActualSize \<or> mode \<notin> {SizeAscending, SizeDescending}"
  shows "total_cmp (compare_items compare_text sem mode)"
proof -
  note asc = total_cmp.vimage_total [OF assms(1)] cmp_of.vimage_total
  note desc = asc [THEN total_cmp.reverse_total]
  show ?thesis
    using assms(2) asc(1) [of current_name] asc(1) [of source_path] asc(2) [of actual_size]
      asc(2) [of modified] asc(2) [of created] desc(1) [of current_name] desc(1) [of source_path]
      desc(2) [of actual_size] desc(2) [of modified] desc(2) [of created]
    by (cases mode; cases sem) (simp_all add: compare_items.simps [abs_def])
qed

section \<open>The cycle walk\<close>

text \<open>
  One cycle: \<open>order\<close> holds the original positions, and a position is marked as done by
  \<open>order[i] = i\<close>. An index out of range would panic; the walk never leaves the list.
\<close>

function follow_cycle :: "usize \<Rightarrow> usize \<Rightarrow> usize list \<Rightarrow> 'a list \<Rightarrow> usize list \<times> 'a list" where
  "follow_cycle start current order xs =
     (if current < length order \<and> order ! current \<noteq> current
      then let next_position = order ! current;
               order = order[current := current]
           in if next_position = start then (order, xs)
              else follow_cycle start next_position order (swap_at xs current next_position)
      else (order, xs))"
  by pat_completeness auto
termination
proof (relation "measure (\<lambda>(start, current, order, xs). card {k. k < length order \<and> order ! k \<noteq> k})")
  fix start current :: usize and order :: "usize list" and xs :: "'a list" and n and order'
  assume c: "current < length order \<and> order ! current \<noteq> current"
    and "order' = order[current := current]"
  then have "{k. k < length order' \<and> order' ! k \<noteq> k} = {k. k < length order \<and> order ! k \<noteq> k} - {current}"
    by (auto simp: nth_list_update)
  moreover have "card ({k. k < length order \<and> order ! k \<noteq> k} - {current}) <
      card {k. k < length order \<and> order ! k \<noteq> k}"
    using c by (intro card_Diff1_less) auto
  ultimately show "((start, n, order', swap_at xs current n), (start, current, order, xs))
      \<in> measure (\<lambda>(start, current, order, xs). card {k. k < length order \<and> order ! k \<noteq> k})"
    by simp
qed simp

declare follow_cycle.simps [simp del]

definition apply_order :: "usize list \<Rightarrow> 'a list \<Rightarrow> usize list \<times> 'a list" where
  "apply_order order xs =
     fold (\<lambda>start (order, xs). follow_cycle start start order xs) [0..<length order] (order, xs)"

definition sort_by_with_semantics_changed ::
  "legacy_sort_mode \<Rightarrow> sort_semantics \<Rightarrow> (legacy_text \<Rightarrow> legacy_text \<Rightarrow> ordering) \<Rightarrow>
     legacy_list \<Rightarrow> bool \<times> legacy_list" where
  "sort_by_with_semantics_changed mode semantics compare_text l =
     (let order = stable_sort_by
            (\<lambda>left right. compare_items compare_text semantics mode (items l ! left) (items l ! right))
            [0..<length (items l)]
      in if order = [0..<length (items l)] then (False, l)
         else (True, l\<lparr>items := snd (apply_order order (items l))\<rparr>))"

definition sort_by_with_semantics ::
  "legacy_sort_mode \<Rightarrow> sort_semantics \<Rightarrow> (legacy_text \<Rightarrow> legacy_text \<Rightarrow> ordering) \<Rightarrow>
     legacy_list \<Rightarrow> legacy_list" where
  "sort_by_with_semantics mode semantics compare_text l =
     snd (sort_by_with_semantics_changed mode semantics compare_text l)"

definition sort_by_changed ::
  "legacy_sort_mode \<Rightarrow> (legacy_text \<Rightarrow> legacy_text \<Rightarrow> ordering) \<Rightarrow> legacy_list \<Rightarrow> bool \<times> legacy_list" where
  "sort_by_changed mode = sort_by_with_semantics_changed mode LegacyDarkNamer080210"

text \<open>
  The state of the walk with respect to the original order \<open>ord\<close> and rows \<open>xs\<close>. Finished
  positions hold their final row, the others their original row, except that the current
  position holds the row the cycle started with.
\<close>

definition permutation_of :: "usize list \<Rightarrow> bool" where
  "permutation_of ord \<longleftrightarrow> distinct ord \<and> set ord = {..<length ord}"

lemma permutation_nth:
  assumes "permutation_of ord" and "i < length ord"
  shows "ord ! i < length ord"
  using assms nth_mem [of i ord] by (auto simp: permutation_of_def)

lemma permutation_inj:
  "permutation_of ord \<Longrightarrow> i < length ord \<Longrightarrow> j < length ord \<Longrightarrow> ord ! i = ord ! j \<longleftrightarrow> i = j"
  by (simp add: permutation_of_def nth_eq_iff_index_eq)

definition settled :: "usize list \<Rightarrow> 'a list \<Rightarrow> usize list \<Rightarrow> 'a list \<Rightarrow> bool" where
  "settled ord xs o' xs' \<longleftrightarrow> length o' = length ord \<and> length xs' = length ord \<and>
     (\<forall>d<length ord. (o' ! d = d \<and> xs' ! d = xs ! (ord ! d)) \<or>
        (o' ! d = ord ! d \<and> ord ! d \<noteq> d \<and> xs' ! d = xs ! d \<and> o' ! (ord ! d) \<noteq> ord ! d))"

definition walking :: "usize list \<Rightarrow> 'a list \<Rightarrow> usize \<Rightarrow> usize \<Rightarrow> usize list \<Rightarrow> 'a list \<Rightarrow> bool" where
  "walking ord xs start current o' xs' \<longleftrightarrow>
     length o' = length ord \<and> length xs' = length ord \<and>
     current < length ord \<and> o' ! current = ord ! current \<and> ord ! current \<noteq> current \<and>
     xs' ! current = xs ! start \<and>
     (current = start \<or> o' ! start = start \<and>
        (\<exists>p<length ord. o' ! p = p \<and> ord ! p = current)) \<and>
     (\<forall>d<length ord. (o' ! d = d \<and> xs' ! d = xs ! (ord ! d)) \<or>
        (o' ! d = ord ! d \<and> ord ! d \<noteq> d \<and> (d \<noteq> current \<longrightarrow> xs' ! d = xs ! d) \<and>
         (ord ! d \<noteq> start \<longrightarrow> o' ! (ord ! d) \<noteq> ord ! d)))"

lemma walking_step:
  assumes perm: "permutation_of ord" and len: "length xs = length ord"
    and w: "walking ord xs start c o' xs'"
  defines "n \<equiv> ord ! c"
  shows "n = start \<Longrightarrow> settled ord xs (o'[c := c]) xs' \<and> o'[c := c] ! start = start"
    and "n \<noteq> start \<Longrightarrow> walking ord xs start n (o'[c := c]) (swap_at xs' c n)"
proof -
  have l: "length o' = length ord" "length xs' = length ord" and c: "c < length ord"
    "o' ! c = ord ! c" "ord ! c \<noteq> c" "xs' ! c = xs ! start"
    and s: "c = start \<or> o' ! start = start \<and> (\<exists>p<length ord. o' ! p = p \<and> ord ! p = c)"
    and d: "\<And>d. d < length ord \<Longrightarrow> (o' ! d = d \<and> xs' ! d = xs ! (ord ! d)) \<or>
        (o' ! d = ord ! d \<and> ord ! d \<noteq> d \<and> (d \<noteq> c \<longrightarrow> xs' ! d = xs ! d) \<and>
         (ord ! d \<noteq> start \<longrightarrow> o' ! (ord ! d) \<noteq> ord ! d))"
    using w by (auto simp: walking_def)
  have n: "n < length ord" "n \<noteq> c" using permutation_nth [OF perm c(1)] c(3) by (simp_all add: n_def)
  have pred: "ord ! e \<noteq> c" if "e < length ord" "o' ! e \<noteq> e" "ord ! e \<noteq> start" for e
    using s that permutation_inj [OF perm that(1)] by metis
  have nth: "o'[c := c] ! e = (if e = c then c else o' ! e)" if "e < length ord" for e
    using that l by (simp add: nth_list_update)
  have start: "start < length ord \<Longrightarrow> o'[c := c] ! start = start"
    using s nth [of start] by auto
  show "settled ord xs (o'[c := c]) xs' \<and> o'[c := c] ! start = start" if "n = start"
  proof
    show "o'[c := c] ! start = start" using start n(1) that by simp
    show "settled ord xs (o'[c := c]) xs'"
      unfolding settled_def
    proof (intro conjI allI impI)
      fix e assume e: "e < length ord"
      show "(o'[c := c] ! e = e \<and> xs' ! e = xs ! (ord ! e)) \<or>
        (o'[c := c] ! e = ord ! e \<and> ord ! e \<noteq> e \<and> xs' ! e = xs ! e \<and> o'[c := c] ! (ord ! e) \<noteq> ord ! e)"
      proof (cases "e = c")
        case True
        then show ?thesis using c l that by (simp add: n_def)
      next
        case False
        then have "ord ! e \<noteq> start"
          using that e c(1) permutation_inj [OF perm e c(1)] by (auto simp: n_def)
        then show ?thesis
          using d [OF e] nth [OF e] nth [OF permutation_nth [OF perm e]] pred [OF e] False by auto
      qed
    qed (use l in simp_all)
  qed
  show "walking ord xs start n (o'[c := c]) (swap_at xs' c n)" if ns: "n \<noteq> start"
  proof -
    have on: "o' ! n \<noteq> n" using d [OF c(1)] c ns by (auto simp: n_def)
    then have on': "o' ! n = ord ! n" "ord ! n \<noteq> n" "xs' ! n = xs ! n"
      using d [OF n(1)] n(2) by auto
    have sw: "swap_at xs' c n ! e = (if e = n then xs' ! c else if e = c then xs' ! n else xs' ! e)"
      if "e < length ord" for e
      using that c n l by (simp add: nth_swap_at)
    have rows: "(o'[c := c] ! e = e \<and> swap_at xs' c n ! e = xs ! (ord ! e)) \<or>
        (o'[c := c] ! e = ord ! e \<and> ord ! e \<noteq> e \<and> (e \<noteq> n \<longrightarrow> swap_at xs' c n ! e = xs ! e) \<and>
         (ord ! e \<noteq> start \<longrightarrow> o'[c := c] ! (ord ! e) \<noteq> ord ! e))" if e: "e < length ord" for e
    proof (cases "e = c")
      case True
      then show ?thesis using c n on' nth [OF e] sw [OF e] by (simp add: n_def)
    next
      case False
      then show ?thesis
        using d [OF e] nth [OF e] sw [OF e] nth [OF permutation_nth [OF perm e]] pred [OF e] on
        by (cases "ord ! e = start"; cases "ord ! e = c") auto
    qed
    have "c = start \<or> o' ! start = start" using s by blast
    then have "o'[c := c] ! start = start"
      using c(1) l by (cases "c = start") auto
    moreover have "\<exists>p<length ord. o'[c := c] ! p = p \<and> ord ! p = n"
      using c(1) nth [OF c(1)] by (auto simp: n_def)
    ultimately show ?thesis
      unfolding walking_def using rows l c n on' nth [OF n(1)] sw [OF n(1)] ns by simp
  qed
qed

lemma follow_cycle_settles:
  assumes "permutation_of ord" and "length xs = length ord"
    and "walking ord xs start c o' xs'"
  shows "settled ord xs (fst (follow_cycle start c o' xs')) (snd (follow_cycle start c o' xs')) \<and>
    fst (follow_cycle start c o' xs') ! start = start \<and>
    (\<forall>d<length ord. o' ! d = d \<longrightarrow> fst (follow_cycle start c o' xs') ! d = d)"
  using assms(3)
proof (induction start c o' xs' rule: follow_cycle.induct)
  case (1 start c o' xs')
  have c: "c < length o'" "o' ! c = ord ! c" "o' ! c \<noteq> c" "length o' = length ord"
    using "1.prems" by (auto simp: walking_def)
  have keep: "o'[c := c] ! d = d" if "o' ! d = d" for d
    using that c(1) by (cases "d = c") auto
  note step = walking_step [OF assms(1,2) "1.prems"]
  show ?case
  proof (cases "ord ! c = start")
    case True
    then have "follow_cycle start c o' xs' = (o'[c := c], xs')"
      using c by (subst follow_cycle.simps) simp
    with step(1) True keep show ?thesis by simp
  next
    case False
    then have "follow_cycle start c o' xs' =
        follow_cycle start (ord ! c) (o'[c := c]) (swap_at xs' c (ord ! c))"
      using c by (subst follow_cycle.simps) (simp add: Let_def)
    moreover have "settled ord xs (fst (follow_cycle start (ord ! c) (o'[c := c]) (swap_at xs' c (ord ! c))))
        (snd (follow_cycle start (ord ! c) (o'[c := c]) (swap_at xs' c (ord ! c)))) \<and>
      fst (follow_cycle start (ord ! c) (o'[c := c]) (swap_at xs' c (ord ! c))) ! start = start \<and>
      (\<forall>d<length ord. o'[c := c] ! d = d \<longrightarrow>
        fst (follow_cycle start (ord ! c) (o'[c := c]) (swap_at xs' c (ord ! c))) ! d = d)"
      using "1.IH" [OF _ refl refl] c False step(2) by simp
    ultimately show ?thesis using keep by simp
  qed
qed

lemma apply_order_eq:
  assumes "permutation_of ord" and "length xs = length ord"
  shows "snd (apply_order ord xs) = map (\<lambda>i. xs ! i) ord"
proof -
  have "k \<le> length ord \<Longrightarrow>
      (case fold (\<lambda>start (order, xs). follow_cycle start start order xs) [0..<k] (ord, xs) of
        (o', xs') \<Rightarrow> settled ord xs o' xs' \<and> (\<forall>d<k. o' ! d = d))" for k
  proof (induction k)
    case 0
    then show ?case
      using permutation_nth [OF assms(1)] permutation_inj [OF assms(1)] assms(2)
      by (auto simp: settled_def)
  next
    case (Suc k)
    obtain o' xs' where f: "fold (\<lambda>start (order, xs). follow_cycle start start order xs) [0..<k] (ord, xs) = (o', xs')"
      by fastforce
    with Suc have s: "settled ord xs o' xs'" "\<forall>d<k. o' ! d = d" and k: "k < length ord" by auto
    show ?case
    proof (cases "o' ! k = k")
      case True
      then have "follow_cycle k k o' xs' = (o', xs')" by (subst follow_cycle.simps) simp
      with s True show ?thesis by (simp add: f less_Suc_eq)
    next
      case False
      then have "walking ord xs k k o' xs'"
        using s(1) k unfolding settled_def walking_def by (auto simp: assms(2))
      from follow_cycle_settles [OF assms this] s k show ?thesis
        by (auto simp: f less_Suc_eq split: prod.split)
    qed
  qed
  from this [of "length ord"] obtain o' xs' where
    a: "apply_order ord xs = (o', xs')" and s: "settled ord xs o' xs'" and d: "\<forall>d<length ord. o' ! d = d"
    by (fastforce simp: apply_order_def)
  show ?thesis
  proof (rule nth_equalityI)
    show "length (snd (apply_order ord xs)) = length (map (\<lambda>i. xs ! i) ord)"
      using s by (simp add: a settled_def)
    fix i assume "i < length (snd (apply_order ord xs))"
    then have "i < length ord" using s by (simp add: a settled_def)
    with s d show "snd (apply_order ord xs) ! i = map (\<lambda>i. xs ! i) ord ! i"
      by (fastforce simp: a settled_def)
  qed
qed

section \<open>Sorting the rows\<close>

lemma stable_order_permutation:
  "permutation_of (stable_sort_by cmp [0..<n])"
proof -
  have m: "mset (stable_sort_by cmp [0..<n]) = mset [0..<n]" by simp
  then have "distinct (stable_sort_by cmp [0..<n])" by (metis distinct_upt mset_eq_imp_distinct_iff)
  moreover have "set (stable_sort_by cmp [0..<n]) = {..<n}"
    using mset_eq_setD [OF m] by (simp add: atLeast0LessThan)
  ultimately show ?thesis by (simp add: permutation_of_def)
qed

text \<open>The in-place walk leaves the stable sort of the rows, for any comparator.\<close>

lemma sort_rows_eq:
  "items (snd (sort_by_with_semantics_changed mode sem compare_text l)) =
     stable_sort_by (compare_items compare_text sem mode) (items l)"
proof -
  let ?c = "compare_items compare_text sem mode"
  let ?o = "stable_sort_by (\<lambda>i j. ?c (items l ! i) (items l ! j)) [0..<length (items l)]"
  have sorted: "map (\<lambda>i. items l ! i) ?o = stable_sort_by ?c (items l)"
    using map_stable_sort_by [of "\<lambda>i. items l ! i" ?c "[0..<length (items l)]"] by (simp add: map_nth)
  show ?thesis
  proof (cases "?o = [0..<length (items l)]")
    case True
    then show ?thesis
      using sorted by (simp add: sort_by_with_semantics_changed_def map_nth)
  next
    case False
    then show ?thesis
      using sorted apply_order_eq [OF stable_order_permutation, of "items l" "\<lambda>i j. ?c (items l ! i) (items l ! j)" "length (items l)"]
      by (simp add: sort_by_with_semantics_changed_def)
  qed
qed

lemma sort_other_fields:
  "proposed_name_utf16_units (snd (sort_by_with_semantics_changed mode sem cmp l)) = proposed_name_utf16_units l"
  "planned_path_utf16_units (snd (sort_by_with_semantics_changed mode sem cmp l)) = planned_path_utf16_units l"
  "identity (snd (sort_by_with_semantics_changed mode sem cmp l)) = identity l"
  "source_revision (snd (sort_by_with_semantics_changed mode sem cmp l)) = source_revision l"
  by (simp_all add: sort_by_with_semantics_changed_def Let_def)

lemma sort_preserves_wf:
  "wf_list l \<Longrightarrow> wf_list (snd (sort_by_with_semantics_changed mode sem compare_text l))"
proof -
  assume wf: "wf_list l"
  let ?l = "snd (sort_by_with_semantics_changed mode sem compare_text l)"
  have "wf_list (l\<lparr>items := items ?l\<rparr>)"
    by (rule wf_permuted [OF wf]) (simp add: sort_rows_eq)
  then show ?thesis by (simp add: wf_list_def sort_other_fields)
qed

lemma sort_changed_iff:
  "fst (sort_by_with_semantics_changed mode sem compare_text l) = False \<Longrightarrow>
     snd (sort_by_with_semantics_changed mode sem compare_text l) = l"
  by (auto simp: sort_by_with_semantics_changed_def Let_def split: if_splits)

text \<open>The legacy size comparator is cyclic on these three sizes.\<close>

lemma compare_legacy_size_cyclic:
  "compare_legacy_size 0 0x60000000 = Less \<and> compare_legacy_size 0x60000000 0xC0000000 = Less \<and>
   compare_legacy_size 0xC0000000 0 = Less"
  by (simp add: compare_legacy_size_def)

end
