(* ===== verification/Append_Index.thy ===== *)
theory Append_Index
  imports Legacy_Sort
begin

text \<open>
  The chunked source index \<open>LegacyAppendIndex\<close> of \<open>crates/darknamer-core/src/lib.rs\<close>: chunks of
  at most 128 sorted paths, searched by \<open>partition_point\<close> over the chunks and
  \<open>binary_search_by\<close> inside one. The lemmas show that lookup is membership up to the
  comparator, that insertion (with its split at 64) adds exactly the path and keeps the chunk
  invariant, and that chunking a sorted list establishes it.
\<close>

definition APPEND_INDEX_CHUNK_CAPACITY :: usize where
  "APPEND_INDEX_CHUNK_CAPACITY = 128"

section \<open>Binary search\<close>

text \<open>
  \<open>slice::partition_point\<close> halves the range; \<open>binary_search_by\<close> may return any matching
  position (here the first). The proofs use nothing else of it.
\<close>

function bisect :: "('a \<Rightarrow> bool) \<Rightarrow> 'a list \<Rightarrow> usize \<Rightarrow> usize \<Rightarrow> usize" where
  "bisect p xs lo hi =
     (if lo < hi then let mid = (lo + hi) div 2 in
        if p (xs ! mid) then bisect p xs (mid + 1) hi else bisect p xs lo mid
      else lo)"
  by pat_completeness auto
termination
  by (relation "measure (\<lambda>(p, xs, lo, hi). hi - lo)") auto

declare bisect.simps [simp del]

definition partition_point :: "('a \<Rightarrow> bool) \<Rightarrow> 'a list \<Rightarrow> usize" where
  "partition_point p xs = bisect p xs 0 (length xs)"

definition binary_search_by :: "('a \<Rightarrow> ordering) \<Rightarrow> 'a list \<Rightarrow> usize + usize" where
  "binary_search_by f xs =
     (let i = partition_point (\<lambda>x. f x = Less) xs
      in if i < length xs \<and> f (xs ! i) = Equal then Inr i else Inl i)"

definition partitioned :: "('a \<Rightarrow> bool) \<Rightarrow> 'a list \<Rightarrow> bool" where
  "partitioned p xs \<longleftrightarrow> (\<forall>j<length xs. \<forall>i\<le>j. p (xs ! j) \<longrightarrow> p (xs ! i))"

lemma bisect_step:
  "lo < hi \<Longrightarrow> (lo + hi) div 2 = m \<Longrightarrow>
     bisect p xs lo hi = (if p (xs ! m) then bisect p xs (m + 1) hi else bisect p xs lo m)"
  by (subst bisect.simps) (simp only: Let_def if_True)

lemma bisect_partition:
  assumes "partitioned p xs" and "lo \<le> hi" and "hi \<le> length xs"
    and "\<forall>i<lo. p (xs ! i)" and "\<forall>i. hi \<le> i \<longrightarrow> i < length xs \<longrightarrow> \<not> p (xs ! i)"
  shows "bisect p xs lo hi \<le> length xs \<and> (\<forall>i<bisect p xs lo hi. p (xs ! i)) \<and>
    (\<forall>i. bisect p xs lo hi \<le> i \<longrightarrow> i < length xs \<longrightarrow> \<not> p (xs ! i))"
  using assms(2-5)
proof (induction "hi - lo" arbitrary: lo hi rule: less_induct)
  case less
  show ?case
  proof (cases "lo < hi")
    case False
    then have "bisect p xs lo hi = lo" by (subst bisect.simps) simp
    with False less.prems show ?thesis by auto
  next
    case True
    define m where m_def: "m = (lo + hi) div 2"
    have m: "lo \<le> m" "m < hi" using True by (auto simp: m_def)
    show ?thesis
    proof (cases "p (xs ! m)")
      case True
      have below: "\<forall>i<m + 1. p (xs ! i)"
      proof (intro allI impI)
        fix i assume "i < m + 1"
        then have "i \<le> m" by simp
        moreover have "m < length xs" using m less.prems(2) by simp
        ultimately show "p (xs ! i)" using assms(1) True unfolding partitioned_def by blast
      qed
      have eq: "bisect p xs lo hi = bisect p xs (m + 1) hi"
        using True by (simp only: bisect_step [OF \<open>lo < hi\<close> m_def [symmetric]] if_True)
      show ?thesis
        unfolding eq by (rule less.hyps) (use m less.prems below in simp_all)
    next
      case False
      have above: "\<forall>i. m \<le> i \<longrightarrow> i < length xs \<longrightarrow> \<not> p (xs ! i)"
        using assms(1) False unfolding partitioned_def by blast
      have eq: "bisect p xs lo hi = bisect p xs lo m"
        using False by (simp only: bisect_step [OF \<open>lo < hi\<close> m_def [symmetric]] if_False)
      show ?thesis
        unfolding eq by (rule less.hyps) (use m less.prems above in simp_all)
    qed
  qed
qed

lemma partition_point_spec:
  assumes "partitioned p xs"
  shows "partition_point p xs \<le> length xs"
    and "i < partition_point p xs \<Longrightarrow> p (xs ! i)"
    and "partition_point p xs \<le> i \<Longrightarrow> i < length xs \<Longrightarrow> \<not> p (xs ! i)"
  using bisect_partition [OF assms, of 0 "length xs"] by (auto simp: partition_point_def)

lemma partition_point_split:
  assumes "partitioned p xs"
  shows "\<forall>x\<in>set (take (partition_point p xs) xs). p x"
    and "\<forall>x\<in>set (drop (partition_point p xs) xs). \<not> p x"
  using partition_point_spec [OF assms]
  by (auto simp: in_set_conv_nth)

section \<open>The index operations\<close>

type_synonym chunks = "legacy_text list list"

definition chunk_below :: "(legacy_text \<Rightarrow> legacy_text \<Rightarrow> ordering) \<Rightarrow> legacy_text \<Rightarrow> legacy_text list \<Rightarrow> bool" where
  "chunk_below compare_text source chunk =
     (chunk = [] \<or> compare_text (last chunk) source = Less)"

definition source_chunks_contain ::
  "chunks \<Rightarrow> (legacy_text \<Rightarrow> legacy_text \<Rightarrow> ordering) \<Rightarrow> legacy_text \<Rightarrow> bool" where
  "source_chunks_contain chunks compare_text source =
     (let chunk_index = partition_point (chunk_below compare_text source) chunks
      in chunk_index < length chunks \<and>
         \<not> isl (binary_search_by (\<lambda>existing. compare_text existing source) (chunks ! chunk_index)))"

definition insertion_location ::
  "chunks \<Rightarrow> (legacy_text \<Rightarrow> legacy_text \<Rightarrow> ordering) \<Rightarrow> legacy_text \<Rightarrow> usize \<times> usize" where
  "insertion_location chunks compare_text source =
     (let chunk_index = partition_point (chunk_below compare_text source) chunks
      in if chunk_index = length chunks then
           (if chunks = [] then (0, 0)
            else if length (last chunks) < APPEND_INDEX_CHUNK_CAPACITY
            then (length chunks - 1, length (last chunks))
            else (length chunks, 0))
         else
           (chunk_index,
            case binary_search_by (\<lambda>existing. compare_text existing source) (chunks ! chunk_index) of
              Inr pos \<Rightarrow> pos | Inl pos \<Rightarrow> pos))"

definition insert_at :: "usize \<Rightarrow> 'a \<Rightarrow> 'a list \<Rightarrow> 'a list" where
  "insert_at i x xs = take i xs @ x # drop i xs"

text \<open>The sites of the reservations carry \<open>k\<close>, the position of the path in its batch.\<close>

definition try_insert_source ::
  "allocator \<Rightarrow> nat \<Rightarrow> chunks \<Rightarrow> (legacy_text \<Rightarrow> legacy_text \<Rightarrow> ordering) \<Rightarrow> legacy_text \<Rightarrow>
     proposal_mutation_error + chunks" where
  "try_insert_source al k chunks compare_text source =
     (let (chunk_index, pos) = insertion_location chunks compare_text source
      in if chunk_index = length chunks then
           and_then (ok_if AllocationFailed (al (AtInsertChunk k))) (\<lambda>_.
           and_then (ok_if AllocationFailed (al (AtInsertOuter k))) (\<lambda>_.
           Inr (chunks @ [[source]])))
         else if length (chunks ! chunk_index) < APPEND_INDEX_CHUNK_CAPACITY then
           Inr (chunks[chunk_index := insert_at pos source (chunks ! chunk_index)])
         else
           let split_at = APPEND_INDEX_CHUNK_CAPACITY div 2 in
           and_then (ok_if AllocationFailed (al (AtSplitChunk k))) (\<lambda>_.
           and_then (ok_if AllocationFailed (al (AtSplitOuter k))) (\<lambda>_.
           let right = drop split_at (chunks ! chunk_index);
               chunks = chunks[chunk_index := take split_at (chunks ! chunk_index)];
               chunks = insert_at (chunk_index + 1) right chunks;
               (target_chunk, target_position) =
                 (if pos < split_at then (chunk_index, pos)
                  else (chunk_index + 1, pos - split_at))
           in Inr (chunks[target_chunk := insert_at target_position source (chunks ! target_chunk)]))))"

function chunk_sources :: "allocator \<Rightarrow> nat \<Rightarrow> legacy_text list \<Rightarrow> proposal_mutation_error + chunks" where
  "chunk_sources al k [] = Inr []"
| "chunk_sources al k (first # sources) =
     and_then (ok_if AllocationFailed (al (AtChunk k))) (\<lambda>_.
     and_then (chunk_sources al (k + 1) (drop (APPEND_INDEX_CHUNK_CAPACITY - 1) sources)) (\<lambda>chunks.
     Inr ((first # take (APPEND_INDEX_CHUNK_CAPACITY - 1) sources) # chunks)))"
  by pat_completeness auto
termination by (relation "measure (\<lambda>(al, k, sources). length sources)") auto

definition try_chunk_sorted_sources ::
  "allocator \<Rightarrow> legacy_text list \<Rightarrow> proposal_mutation_error + chunks" where
  "try_chunk_sorted_sources al sorted_sources =
     and_then (ok_if AllocationFailed (al AtChunkList)) (\<lambda>_. chunk_sources al 0 sorted_sources)"

section \<open>The chunk invariant\<close>

definition chunk_inv :: "(legacy_text \<Rightarrow> legacy_text \<Rightarrow> ordering) \<Rightarrow> chunks \<Rightarrow> bool" where
  "chunk_inv cmp chunks \<longleftrightarrow>
     (\<forall>c\<in>set chunks. c \<noteq> [] \<and> length c \<le> APPEND_INDEX_CHUNK_CAPACITY) \<and>
     sorted_wrt (\<lambda>a b. cmp a b \<noteq> Greater) (concat chunks)"

lemma chunk_sources_concat: "chunk_sources al k xs = Inr cs \<Longrightarrow> concat cs = xs"
  by (induction al k xs arbitrary: cs rule: chunk_sources.induct) (auto simp: and_then_Inr)

lemma chunk_sources_sizes:
  "chunk_sources al k xs = Inr cs \<Longrightarrow> \<forall>c\<in>set cs. c \<noteq> [] \<and> length c \<le> APPEND_INDEX_CHUNK_CAPACITY"
  by (induction al k xs arbitrary: cs rule: chunk_sources.induct)
     (auto simp: and_then_Inr APPEND_INDEX_CHUNK_CAPACITY_def)

lemma chunk_sources_ok: "\<exists>cs. chunk_sources (\<lambda>_. True) k xs = Inr cs"
proof (induction "length xs" arbitrary: k xs rule: less_induct)
  case less
  then show ?case by (cases xs) (auto simp: and_then_Inr)
qed

lemma try_chunk_sorted_sources_inv:
  assumes "try_chunk_sorted_sources al xs = Inr cs" and "sorted_wrt (\<lambda>a b. cmp a b \<noteq> Greater) xs"
  shows "chunk_inv cmp cs" and "concat cs = xs"
  using assms chunk_sources_concat chunk_sources_sizes
  by (fastforce simp: try_chunk_sorted_sources_def and_then_Inr chunk_inv_def)+

lemma in_concat_drop:
  assumes "x \<in> set (concat (drop (Suc k) cs))"
  obtains j where "k < j" "j < length cs" "x \<in> set (cs ! j)"
proof -
  from assms obtain c where "c \<in> set (drop (Suc k) cs)" "x \<in> set c" by auto
  moreover from this(1) obtain i where "i < length (drop (Suc k) cs)" "drop (Suc k) cs ! i = c"
    unfolding in_set_conv_nth by blast
  ultimately have "i < length cs - Suc k" "x \<in> set (cs ! (Suc k + i))" by auto
  then show thesis by (intro that [of "Suc k + i"]) auto
qed

context total_cmp
begin

lemma partitioned_sorted:
  assumes "sorted_wrt (\<lambda>a b. cmp a b \<noteq> Greater) xs"
  shows "partitioned (\<lambda>x. cmp x s = Less) xs"
  unfolding partitioned_def
proof (intro allI impI)
  fix j i assume "j < length xs" "i \<le> j" "cmp (xs ! j) s = Less"
  show "cmp (xs ! i) s = Less"
  proof (cases "i = j")
    case False
    with assms \<open>j < length xs\<close> \<open>i \<le> j\<close> have "cmp (xs ! i) (xs ! j) \<noteq> Greater"
      by (simp add: sorted_wrt_iff_nth_less)
    then show ?thesis by (rule le_less_trans) (rule \<open>cmp (xs ! j) s = Less\<close>)
  qed (use \<open>cmp (xs ! j) s = Less\<close> in simp)
qed

lemma search_hit:
  assumes "sorted_wrt (\<lambda>a b. cmp a b \<noteq> Greater) xs"
  shows "\<not> isl (binary_search_by (\<lambda>x. cmp x s) xs) \<longleftrightarrow> (\<exists>x\<in>set xs. cmp x s = Equal)"
proof -
  let ?i = "partition_point (\<lambda>x. cmp x s = Less) xs"
  note sp = partition_point_split [OF partitioned_sorted [OF assms, of s]]
  have "?i < length xs \<and> cmp (xs ! ?i) s = Equal" if x: "x \<in> set xs" "cmp x s = Equal" for x
  proof -
    have "x \<in> set (drop ?i xs)"
      using x sp(1) by (metis Un_iff append_take_drop_id ordering.distinct(1) set_append)
    then obtain y ys where d: "drop ?i xs = y # ys" by (cases "drop ?i xs") auto
    then have i: "?i < length xs" "xs ! ?i = y" by (simp_all add: drop_eq_Cons_iff)
    have "cmp y x \<noteq> Greater"
      using assms \<open>x \<in> set (drop ?i xs)\<close> sorted_wrt_drop [OF assms, of ?i] by (auto simp: d)
    then have "cmp y s \<noteq> Greater" using x(2) equal_cong_right [of x s y] by simp
    moreover have "cmp y s \<noteq> Less" using sp(2) by (simp add: d)
    ultimately show ?thesis using i by (cases "cmp y s") auto
  qed
  then show ?thesis by (auto simp: binary_search_by_def Let_def intro: nth_mem)
qed

lemma search_position:
  assumes "sorted_wrt (\<lambda>a b. cmp a b \<noteq> Greater) xs"
    and "(case binary_search_by (\<lambda>x. cmp x s) xs of Inr i \<Rightarrow> i | Inl i \<Rightarrow> i) = i"
  shows "i \<le> length xs" and "sorted_wrt (\<lambda>a b. cmp a b \<noteq> Greater) (insert_at i s xs)"
proof -
  have i: "i = partition_point (\<lambda>x. cmp x s = Less) xs"
    using assms(2) by (auto simp: binary_search_by_def Let_def split: if_splits)
  note sp = partition_point_split [OF partitioned_sorted [OF assms(1), of s], folded i]
  show "i \<le> length xs"
    unfolding i by (rule partition_point_spec [OF partitioned_sorted [OF assms(1)]])
  have "sorted_wrt (\<lambda>a b. cmp a b \<noteq> Greater) (take i xs @ drop i xs)"
    using assms(1) by simp
  then show "sorted_wrt (\<lambda>a b. cmp a b \<noteq> Greater) (insert_at i s xs)"
    unfolding insert_at_def sorted_wrt_append using sp by (auto simp: not_less)
qed

end

text \<open>The comparator of an index: a total order of texts.\<close>

locale text_order = total_cmp cmp for cmp :: "legacy_text \<Rightarrow> legacy_text \<Rightarrow> ordering"
begin

lemma chunk_sorted:
  assumes "chunk_inv cmp cs" and "i < length cs"
  shows "sorted_wrt (\<lambda>a b. cmp a b \<noteq> Greater) (cs ! i)"
  using assms by (metis chunk_inv_def concat_append concat.simps(2) id_take_nth_drop sorted_wrt_append)

lemma sorted_last:
  "sorted_wrt (\<lambda>a b. cmp a b \<noteq> Greater) xs \<Longrightarrow> x \<in> set xs \<Longrightarrow> cmp x (last xs) \<noteq> Greater"
  by (induction xs) auto

lemma chunks_ordered:
  assumes "chunk_inv cmp cs" and "i < j" and "j < length cs"
    and "a \<in> set (cs ! i)" and "b \<in> set (cs ! j)"
  shows "cmp a b \<noteq> Greater"
proof -
  have "concat cs = concat (take j cs) @ concat (drop j cs)"
    by (metis append_take_drop_id concat_append)
  moreover have "a \<in> set (concat (take j cs))"
  proof -
    have "cs ! i = take j cs ! i" "i < length (take j cs)" using assms by simp_all
    then have "cs ! i \<in> set (take j cs)" by (metis nth_mem)
    with assms(4) show ?thesis by auto
  qed
  moreover have "b \<in> set (concat (drop j cs))"
    using assms by (auto simp: Cons_nth_drop_Suc [symmetric])
  ultimately show ?thesis
    using assms(1) by (auto simp: chunk_inv_def sorted_wrt_append)
qed

lemma chunk_nonempty: "chunk_inv cmp cs \<Longrightarrow> i < length cs \<Longrightarrow> cs ! i \<noteq> []"
  by (simp add: chunk_inv_def)

lemma chunk_partitioned:
  assumes "chunk_inv cmp cs"
  shows "partitioned (chunk_below cmp s) cs"
  unfolding partitioned_def
proof (intro allI impI)
  fix j i assume j: "j < length cs" and "i \<le> j" and "chunk_below cmp s (cs ! j)"
  then have lj: "cmp (last (cs ! j)) s = Less" and ne: "cs ! j \<noteq> []" "cs ! i \<noteq> []"
    using chunk_nonempty [OF assms] by (auto simp: chunk_below_def)
  show "chunk_below cmp s (cs ! i)"
  proof (cases "i = j")
    case False
    with \<open>i \<le> j\<close> have "i < j" by simp
    from chunks_ordered [OF assms this j] ne
    have "cmp (last (cs ! i)) (last (cs ! j)) \<noteq> Greater" by simp
    with lj show ?thesis by (auto simp: chunk_below_def intro: le_less_trans)
  qed (use lj in \<open>simp add: chunk_below_def\<close>)
qed

text \<open>Where the search stops: everything before is smaller, everything after not.\<close>

lemma chunk_split:
  fixes s :: legacy_text
  assumes "chunk_inv cmp cs"
  defines "k \<equiv> partition_point (chunk_below cmp s) cs"
  shows "k \<le> length cs" and "x \<in> set (concat (take k cs)) \<Longrightarrow> cmp x s = Less"
    and "k < length cs \<Longrightarrow> cmp (last (cs ! k)) s \<noteq> Less"
    and "k < length cs \<Longrightarrow> x \<in> set (concat (drop (Suc k) cs)) \<Longrightarrow> cmp x s \<noteq> Less"
proof -
  note sp = partition_point_spec [OF chunk_partitioned [OF assms(1), of s], folded k_def]
  show "k \<le> length cs" by (rule sp)
  show last: "cmp (last (cs ! k)) s \<noteq> Less" if "k < length cs"
    using sp(3) [OF order_refl that] chunk_nonempty [OF assms(1) that] by (simp add: chunk_below_def)
  show "cmp x s = Less" if "x \<in> set (concat (take k cs))"
  proof -
    from that obtain c where c: "c \<in> set (take k cs)" "x \<in> set c" by auto
    then obtain i where "i < length (take k cs)" "take k cs ! i = c"
      unfolding in_set_conv_nth by blast
    with c have i: "i < k" "i < length cs" "x \<in> set (cs ! i)" by auto
    then have "cmp (last (cs ! i)) s = Less"
      using sp(2) [OF i(1)] by (auto simp: chunk_below_def)
    moreover have "cmp x (last (cs ! i)) \<noteq> Greater"
      by (rule sorted_last [OF chunk_sorted [OF assms(1) i(2)] i(3)])
    ultimately show ?thesis by (rule le_less_trans [rotated])
  qed
  show "cmp x s \<noteq> Less" if k: "k < length cs" and "x \<in> set (concat (drop (Suc k) cs))"
  proof -
    from that obtain j where j: "k < j" "j < length cs" "x \<in> set (cs ! j)"
      by (blast elim: in_concat_drop)
    have "cmp (last (cs ! k)) x \<noteq> Greater"
      using chunks_ordered [OF assms(1) j(1,2) last_in_set j(3)] chunk_nonempty [OF assms(1) k] by simp
    with last [OF k] show ?thesis by (metis le_less_trans)
  qed
qed

lemma contains_iff:
  assumes "chunk_inv cmp cs"
  shows "source_chunks_contain cs cmp s \<longleftrightarrow> (\<exists>x\<in>set (concat cs). cmp x s = Equal)"
proof -
  let ?k = "partition_point (chunk_below cmp s) cs"
  note sp = chunk_split [OF assms, where s = s]
  have iff: "source_chunks_contain cs cmp s \<longleftrightarrow> ?k < length cs \<and> (\<exists>x\<in>set (cs ! ?k). cmp x s = Equal)"
    using search_hit [OF chunk_sorted [OF assms], of ?k s]
    by (auto simp: source_chunks_contain_def Let_def)
  show ?thesis
  proof
    show "source_chunks_contain cs cmp s \<Longrightarrow> \<exists>x\<in>set (concat cs). cmp x s = Equal"
      unfolding iff by auto
  next
    assume "\<exists>x\<in>set (concat cs). cmp x s = Equal"
    then obtain x where x: "x \<in> set (concat cs)" "cmp x s = Equal" by blast
    have k: "?k < length cs"
    proof (rule ccontr)
      assume "\<not> ?k < length cs"
      with sp(2) [of x] x show False by simp
    qed
    have "concat cs = concat (take ?k cs) @ cs ! ?k @ concat (drop (Suc ?k) cs)"
      using k by (metis concat.simps(2) concat_append id_take_nth_drop)
    with x sp(2) [of x] consider "x \<in> set (cs ! ?k)" | "x \<in> set (concat (drop (Suc ?k) cs))"
      by fastforce
    then show "source_chunks_contain cs cmp s"
    proof cases
      case 1
      with k x show ?thesis unfolding iff by blast
    next
      case 2
      let ?y = "last (cs ! ?k)"
      have y: "?y \<in> set (cs ! ?k)" using chunk_nonempty [OF assms k] by simp
      from 2 obtain j where j: "?k < j" "j < length cs" "x \<in> set (cs ! j)"
        by (blast elim: in_concat_drop)
      have "cmp ?y x \<noteq> Greater" by (rule chunks_ordered [OF assms j(1,2) y j(3)])
      then have "cmp ?y s \<noteq> Greater" using equal_cong_right [OF x(2), of ?y] by simp
      with sp(3) [OF k] have "cmp ?y s = Equal" by (cases "cmp ?y s") auto
      with k y show ?thesis unfolding iff by blast
    qed
  qed
qed

lemma insert_at_split:
  assumes "pos \<le> length c" and "n \<le> length c"
  shows "pos < n \<Longrightarrow> insert_at pos s (take n c) @ drop n c = insert_at pos s c"
    and "n \<le> pos \<Longrightarrow> take n c @ insert_at (pos - n) s (drop n c) = insert_at pos s c"
proof -
  show "insert_at pos s (take n c) @ drop n c = insert_at pos s c" if "pos < n"
  proof -
    have "drop pos c = drop pos (take n c) @ drop n c"
      using that assms by (metis append_take_drop_id drop_append diff_is_0_eq drop_0 length_take min.absorb2 less_imp_le_nat)
    then show ?thesis using that by (simp add: insert_at_def min_def)
  qed
  show "take n c @ insert_at (pos - n) s (drop n c) = insert_at pos s c" if "n \<le> pos"
  proof -
    have "take pos c = take n c @ take (pos - n) (drop n c)"
      using that by (metis le_add_diff_inverse take_add)
    then show ?thesis using that by (simp add: insert_at_def)
  qed
qed

lemma length_insert_at: "pos \<le> length c \<Longrightarrow> length (insert_at pos s c) = Suc (length c)"
  by (simp add: insert_at_def)

lemma mset_insert_at: "mset (insert_at pos s c) = add_mset s (mset c)"
  by (simp add: insert_at_def) (metis append_take_drop_id mset_append)

text \<open>Insertion into a non-empty index: the chunk found takes the path, split if it is full.\<close>

lemma try_insert_source_concat:
  assumes inv: "chunk_inv cmp cs" and r: "try_insert_source al n cs cmp s = Inr cs'"
  obtains a c b pos where "concat cs = a @ c @ b" "concat cs' = a @ insert_at pos s c @ b"
    "pos \<le> length c" "sorted_wrt (\<lambda>a b. cmp a b \<noteq> Greater) (insert_at pos s c)"
    "\<forall>x\<in>set a. cmp x s = Less" "\<forall>x\<in>set b. cmp x s \<noteq> Less"
    "\<forall>c\<in>set cs'. c \<noteq> [] \<and> length c \<le> APPEND_INDEX_CHUNK_CAPACITY"
proof -
  define k where "k = partition_point (chunk_below cmp s) cs"
  note sp = chunk_split [OF inv, where s = s, folded k_def]
  have sizes: "\<forall>c\<in>set cs. c \<noteq> [] \<and> length c \<le> APPEND_INDEX_CHUNK_CAPACITY"
    using inv by (simp add: chunk_inv_def)
  show thesis
  proof (cases "k = length cs")
    case True
    then have less: "\<forall>x\<in>set (concat cs). cmp x s = Less" using sp(2) by simp
    show thesis
    proof (cases "cs \<noteq> [] \<and> length (last cs) < APPEND_INDEX_CHUNK_CAPACITY")
      case room: True
      let ?n = "length cs - 1"
      have n: "?n < length cs" "cs ! ?n = last cs" using room by (simp_all add: last_conv_nth)
      have "?n \<noteq> length cs" using n(1) by simp
      then have cs': "cs' = cs[?n := insert_at (length (last cs)) s (last cs)]"
        using r room True n by (simp add: try_insert_source_def insertion_location_def Let_def k_def)
      have cc: "concat cs = concat (butlast cs) @ last cs @ []"
        using room by (metis append_Nil2 append_butlast_last_id concat.simps concat_append)
      have upd: "cs' = butlast cs @ [insert_at (length (last cs)) s (last cs)]"
        unfolding cs' using room
        by (metis One_nat_def append_butlast_last_id length_butlast list_update_length)
      have sub: "set (butlast cs) \<subseteq> set cs" by (auto dest: in_set_butlastD)
      have "sorted_wrt (\<lambda>a b. cmp a b \<noteq> Greater) (last cs)"
        using chunk_sorted [OF inv n(1)] n(2) by simp
      then have srt: "sorted_wrt (\<lambda>a b. cmp a b \<noteq> Greater) (insert_at (length (last cs)) s (last cs))"
      proof -
        have "\<forall>x\<in>set (last cs). cmp x s = Less"
          using less room last_in_set [of cs] by fastforce
        then show ?thesis
          using \<open>sorted_wrt (\<lambda>a b. cmp a b \<noteq> Greater) (last cs)\<close>
          by (simp add: insert_at_def sorted_wrt_append)
      qed
      show thesis
      proof (rule that [OF cc])
        show "concat cs' = concat (butlast cs) @ insert_at (length (last cs)) s (last cs) @ []"
          by (simp add: upd)
        show "\<forall>x\<in>set (concat (butlast cs)). cmp x s = Less" using less sub by auto
        show "\<forall>c\<in>set cs'. c \<noteq> [] \<and> length c \<le> APPEND_INDEX_CHUNK_CAPACITY"
          using sizes sub room by (auto simp: upd length_insert_at insert_at_def)
      qed (use srt in simp_all)
    next
      case False
      then have cs': "cs' = cs @ [[s]]"
        using r True by (auto simp: try_insert_source_def insertion_location_def Let_def k_def
            and_then_Inr split: if_splits)
      show thesis
        by (rule that [of "concat cs" "[]" "[]" 0])
           (use less sizes in \<open>auto simp: cs' insert_at_def APPEND_INDEX_CHUNK_CAPACITY_def\<close>)
    qed
  next
    case False
    with sp(1) have k: "k < length cs" by simp
    define pos where "pos = (case binary_search_by (\<lambda>x. cmp x s) (cs ! k) of Inr i \<Rightarrow> i | Inl i \<Rightarrow> i)"
    note pos = search_position [OF chunk_sorted [OF inv k] pos_def [symmetric]]
    have loc: "insertion_location cs cmp s = (k, pos)"
      using False by (simp add: insertion_location_def k_def pos_def Let_def)
    have split: "cs = take k cs @ cs ! k # drop (Suc k) cs" using k by (rule id_take_nth_drop)
    then have cc: "concat cs = concat (take k cs) @ cs ! k @ concat (drop (Suc k) cs)"
      by (metis concat.simps(2) concat_append)
    have "concat cs' = concat (take k cs) @ insert_at pos s (cs ! k) @ concat (drop (Suc k) cs) \<and>
        (\<forall>c\<in>set cs'. c \<noteq> [] \<and> length c \<le> APPEND_INDEX_CHUNK_CAPACITY)"
    proof (cases "length (cs ! k) < APPEND_INDEX_CHUNK_CAPACITY")
      case True
      then have "cs' = cs[k := insert_at pos s (cs ! k)]"
        using r k by (simp add: try_insert_source_def loc)
      then have "cs' = take k cs @ insert_at pos s (cs ! k) # drop (Suc k) cs"
        using k by (simp add: upd_conv_take_nth_drop)
      then show ?thesis
        using sizes True pos(1) by (auto simp: length_insert_at insert_at_def dest: in_set_takeD in_set_dropD)
    next
      case full: False
      then have len: "length (cs ! k) = 128"
        using sizes k by (simp add: APPEND_INDEX_CHUNK_CAPACITY_def le_antisym)
      let ?l = "take 64 (cs ! k)" and ?r = "drop 64 (cs ! k)"
      have "insert_at (k + 1) ?r (cs[k := ?l]) = take k cs @ ?l # ?r # drop (Suc k) cs"
        using k by (simp add: insert_at_def upd_conv_take_nth_drop take_Suc_conv_app_nth nth_append)
      moreover have "length (take k cs) = k" using k by simp
      ultimately have cs': "cs' = (if pos < 64 then take k cs @ insert_at pos s ?l # ?r # drop (Suc k) cs
          else take k cs @ ?l # insert_at (pos - 64) s ?r # drop (Suc k) cs)"
        using r k full by (auto simp: try_insert_source_def loc APPEND_INDEX_CHUNK_CAPACITY_def
            and_then_Inr Let_def list_update_append nth_append)
      have parts: "pos < 64 \<Longrightarrow> insert_at pos s ?l @ ?r = insert_at pos s (cs ! k)"
        "\<not> pos < 64 \<Longrightarrow> ?l @ insert_at (pos - 64) s ?r = insert_at pos s (cs ! k)"
        using insert_at_split [OF pos(1), of 64 s] len by simp_all
      have "length (insert_at pos s ?l) \<le> 65" "length (insert_at (pos - 64) s ?r) \<le> 65"
        using len by (simp_all add: insert_at_def)
      moreover have "\<forall>c\<in>set (take k cs) \<union> set (drop (Suc k) cs). c \<noteq> [] \<and> length c \<le> 128"
        using sizes by (auto simp: APPEND_INDEX_CHUNK_CAPACITY_def dest: in_set_takeD in_set_dropD)
      moreover have "length ?l = 64" "length ?r = 64" using len by simp_all
      moreover have "insert_at pos s ?l \<noteq> []" "insert_at (pos - 64) s ?r \<noteq> []" by (simp_all add: insert_at_def)
      ultimately have "\<forall>c\<in>set cs'. c \<noteq> [] \<and> length c \<le> APPEND_INDEX_CHUNK_CAPACITY"
        unfolding cs' APPEND_INDEX_CHUNK_CAPACITY_def by (cases "pos < 64") auto
      moreover have "concat cs' = concat (take k cs) @ insert_at pos s (cs ! k) @ concat (drop (Suc k) cs)"
        unfolding cs' using parts by (cases "pos < 64") (simp_all flip: append_assoc)
      ultimately show ?thesis by blast
    qed
    then show thesis
      using that [OF cc _ pos] sp(2) sp(4) [OF k] by blast
  qed
qed

lemma try_insert_source_inv:
  assumes "chunk_inv cmp cs" and "try_insert_source al n cs cmp s = Inr cs'"
  shows "chunk_inv cmp cs'" and "mset (concat cs') = add_mset s (mset (concat cs))"
proof -
  obtain a c b pos where p: "concat cs = a @ c @ b" "concat cs' = a @ insert_at pos s c @ b"
    "sorted_wrt (\<lambda>a b. cmp a b \<noteq> Greater) (insert_at pos s c)"
    "\<forall>x\<in>set a. cmp x s = Less" "\<forall>x\<in>set b. cmp x s \<noteq> Less"
    "\<forall>c\<in>set cs'. c \<noteq> [] \<and> length c \<le> APPEND_INDEX_CHUNK_CAPACITY"
    by (rule try_insert_source_concat [OF assms])
  have set: "set (insert_at pos s c) = insert s (set c)"
    using mset_insert_at [of pos s c] by (metis set_mset_add_mset_insert set_mset_mset)
  have "sorted_wrt (\<lambda>a b. cmp a b \<noteq> Greater) (a @ c @ b)"
    using assms(1) p(1) by (simp add: chunk_inv_def)
  then show "chunk_inv cmp cs'"
    using p(3-6) unfolding chunk_inv_def p(2) sorted_wrt_append by (auto simp: set not_less)
  show "mset (concat cs') = add_mset s (mset (concat cs))"
    unfolding p mset_append mset_insert_at by simp
qed

end

end
