(* ===== verification/Proposal_Transforms.thy ===== *)
theory Proposal_Transforms
  imports List_Model
begin

text \<open>
  The proposal commands of \<open>LegacyList\<close> (\<open>crates/darknamer-core/src/lib.rs\<close>): one definition
  per \<open>*_changed\<close> method, the pure function each gives a row, and an interpretation of
  \<open>proposal_command\<close> or \<open>shrinking_command\<close> that discharges the contract for it. The lemmas
  after the definitions say what the pure functions compute.
\<close>

section \<open>Infallible commands\<close>

abbreviation stem_of :: "legacy_list_item \<Rightarrow> legacy_text" where
  "stem_of it \<equiv> fst (stem_extension_units it)"

abbreviation extension_of :: "legacy_list_item \<Rightarrow> legacy_text" where
  "extension_of it \<equiv> snd (stem_extension_units it)"

definition clear_name_changed :: "legacy_list \<Rightarrow> usize list \<times> legacy_list" where
  "clear_name_changed l =
     changed_proposals (\<lambda>item. let (stem, extension) = stem_extension_units item in extension) l"

definition front_range_proposal :: "usize \<Rightarrow> usize \<Rightarrow> legacy_list_item \<Rightarrow> legacy_text" where
  "front_range_proposal start end_position item =
     (let (stem, extension) = stem_extension_units item;
          stem = (if start \<le> length stem
                  then let last_position = (if 0 < end_position \<and> end_position < length stem
                                            then end_position else length stem)
                       in take (start - 1) stem @ drop last_position stem
                  else stem)
      in stem @ extension)"

definition delete_front_range_changed ::
  "usize \<Rightarrow> usize \<Rightarrow> legacy_list \<Rightarrow> (legacy_input_error + usize list) \<times> legacy_list" where
  "delete_front_range_changed start end_position l =
     (if start = 0 \<and> end_position = 0 then (Inr [], l)
      else
        let start = max start 1 in
        if 0 < end_position \<and> end_position < start then (Inl ReversedPositionRange, l)
        else map_prod Inr id (changed_proposals (front_range_proposal start end_position) l))"

definition delete_last_changed :: "usize \<Rightarrow> legacy_list \<Rightarrow> usize list \<times> legacy_list" where
  "delete_last_changed count l =
     (if count = 0 then ([], l)
      else changed_proposals (\<lambda>item.
        let (stem, extension) = stem_extension_units item;
            count = min count (length stem)
        in take (length stem - count) stem @ extension) l)"

definition delete_first_delimited_changed :: "legacy_text \<Rightarrow> legacy_text \<Rightarrow> legacy_list \<Rightarrow>
    (legacy_input_error + usize list) \<times> legacy_list" where
  "delete_first_delimited_changed start_text end_text l =
     (case (start_text, end_text) of
        ([], _) \<Rightarrow> (Inl EmptyDelimiter, l)
      | (_, []) \<Rightarrow> (Inl EmptyDelimiter, l)
      | (start # _, stop # _) \<Rightarrow>
          map_prod Inr id (changed_proposals (\<lambda>item.
            let (stem, extension) = stem_extension_units item;
                stem = (case position (\<lambda>u. u = start) stem of
                          None \<Rightarrow> stem
                        | Some start_index \<Rightarrow>
                            let search_start = start_index + 1 in
                            case position (\<lambda>u. u = stop) (drop search_start stem) of
                              None \<Rightarrow> stem
                            | Some relative_end \<Rightarrow>
                                let end_index = search_start + relative_end
                                in take start_index stem @ drop (end_index + 1) stem)
            in stem @ extension) l))"

definition is_ascii_digit :: "u16 \<Rightarrow> bool" where
  "is_ascii_digit u \<longleftrightarrow> 48 \<le> u \<and> u \<le> 57"

definition keep_ascii_digits_changed :: "legacy_list \<Rightarrow> usize list \<times> legacy_list" where
  "keep_ascii_digits_changed l =
     changed_proposals (\<lambda>item.
       let (stem, extension) = stem_extension_units item
       in filter (\<lambda>u. 48 \<le> u \<and> u \<le> 57) stem @ extension) l"

definition delete_extension_changed :: "legacy_list \<Rightarrow> usize list \<times> legacy_list" where
  "delete_extension_changed l =
     changed_proposals (\<lambda>item. let (stem, extension) = stem_extension_units item in stem) l"

text \<open>What each gives a row.\<close>

definition front_range_removed :: "usize \<Rightarrow> usize \<Rightarrow> legacy_list_item \<Rightarrow> legacy_text" where
  "front_range_removed start stop it =
     (if start = 0 \<and> stop = 0 then proposed_name it
      else take (max start 1 - 1) (stem_of it) @
        (if length (stem_of it) < max start 1 then []
         else drop (if stop = 0 then length (stem_of it) else stop) (stem_of it)) @
        extension_of it)"

definition last_removed :: "usize \<Rightarrow> legacy_list_item \<Rightarrow> legacy_text" where
  "last_removed count it =
     (if count = 0 then proposed_name it
      else take (length (stem_of it) - count) (stem_of it) @ extension_of it)"

text \<open>The text outside the first delimiter pair, by recursion on the text.\<close>

fun after_first :: "u16 \<Rightarrow> u16 list \<Rightarrow> u16 list option" where
  "after_first stop [] = None"
| "after_first stop (u # us) = (if u = stop then Some us else after_first stop us)"

fun without_delimited :: "u16 \<Rightarrow> u16 \<Rightarrow> u16 list \<Rightarrow> u16 list" where
  "without_delimited start stop [] = []"
| "without_delimited start stop (u # us) =
     (if u = start then (case after_first stop us of None \<Rightarrow> u # us | Some rest \<Rightarrow> rest)
      else u # without_delimited start stop us)"

lemma after_first_position:
  "after_first stop us = map_option (\<lambda>i. drop (i + 1) us) (position (\<lambda>u. u = stop) us)"
  by (induction us) (auto simp: option.map_comp comp_def)

lemma without_delimited_position:
  "without_delimited start stop us =
     (case position (\<lambda>u. u = start) us of
        None \<Rightarrow> us
      | Some i \<Rightarrow>
          (case position (\<lambda>u. u = stop) (drop (i + 1) us) of
             None \<Rightarrow> us
           | Some j \<Rightarrow> take i us @ drop (i + 1 + j + 1) us))"
  by (induction us) (auto simp: after_first_position split: option.splits)

lemma after_first_length: "after_first stop us = Some rest \<Longrightarrow> length rest < length us"
  by (induction us) (auto split: if_splits)

lemma without_delimited_length: "length (without_delimited start stop us) \<le> length us"
  by (induction us) (auto split: option.splits dest!: after_first_length)

definition delimited_removed :: "u16 \<Rightarrow> u16 \<Rightarrow> legacy_list_item \<Rightarrow> legacy_text" where
  "delimited_removed start stop it = without_delimited start stop (stem_of it) @ extension_of it"

lemma stem_extension_le:
  "length s \<le> length (stem_of it) \<Longrightarrow> length (s @ extension_of it) \<le> length (proposed_name it)"
  using stem_extension_length [of it] by simp

text \<open>The contracts.\<close>

interpretation clear_name: shrinking_command
  "\<lambda>l. map_prod Inr id (clear_name_changed l) :: (legacy_input_error + usize list) \<times> legacy_list"
  extension_of True
  using add_leD2 [OF stem_extension_length]
  by unfold_locales (auto simp: clear_name_changed_def split_def)

interpretation delete_extension: shrinking_command
  "\<lambda>l. map_prod Inr id (delete_extension_changed l) :: (legacy_input_error + usize list) \<times> legacy_list"
  stem_of True
  using add_leD1 [OF stem_extension_length]
  by unfold_locales (auto simp: delete_extension_changed_def split_def)

interpretation keep_digits: shrinking_command
  "\<lambda>l. map_prod Inr id (keep_ascii_digits_changed l) :: (legacy_input_error + usize list) \<times> legacy_list"
  "\<lambda>it. filter is_ascii_digit (stem_of it) @ extension_of it" True
  by unfold_locales
    (simp_all only: stem_extension_le length_filter_le keep_ascii_digits_changed_def split_def
      is_ascii_digit_def [abs_def] Let_def simp_thms)

interpretation delete_last: shrinking_command
  "\<lambda>l. map_prod Inr id (delete_last_changed count l) :: (legacy_input_error + usize list) \<times> legacy_list"
  "last_removed count" True for count
proof
  show "length (last_removed count it) \<le> length (proposed_name it)" for it
    using stem_extension_le [of "take (length (stem_of it) - count) (stem_of it)" it]
    by (simp add: last_removed_def)
  have t: "take (n - min count n) xs = take (n - count) xs" for n and xs :: "u16 list"
    by (cases "count \<le> n") simp_all
  fix l assume "wf_list l" True
  then show "map_prod Inr id (delete_last_changed count l) =
      (map_prod Inr id (changed_proposals (last_removed count) l)
        :: (legacy_input_error + usize list) \<times> legacy_list)"
    using changed_proposals_idle [of l]
    by (cases "count = 0")
       (simp_all add: delete_last_changed_def last_removed_def [abs_def] split_def Let_def t)
qed simp

interpretation delete_front_range: shrinking_command "delete_front_range_changed start stop"
  "front_range_removed start stop" "stop = 0 \<or> start \<le> stop" for start stop
proof
  show "length (front_range_removed start stop it) \<le> length (proposed_name it)"
    if "stop = 0 \<or> start \<le> stop" for it
    using that stem_extension_length [of it] by (auto simp: front_range_removed_def max_def)
  show "\<exists>e. delete_front_range_changed start stop l = (Inl e, l)" if "\<not> (stop = 0 \<or> start \<le> stop)" for l
    using that by (simp add: delete_front_range_changed_def Let_def max_def)
  fix l assume wf: "wf_list l" and adm: "stop = 0 \<or> start \<le> stop"
  show "delete_front_range_changed start stop l =
      map_prod Inr id (changed_proposals (front_range_removed start stop) l)"
  proof (cases "start = 0 \<and> stop = 0")
    case True
    with changed_proposals_idle [OF wf] show ?thesis
      by (simp add: delete_front_range_changed_def front_range_removed_def [abs_def])
  next
    case False
    have "front_range_proposal (max start 1) stop it = front_range_removed start stop it" for it
      using False by (auto simp: front_range_proposal_def front_range_removed_def split_def Let_def)
    then have "front_range_proposal (max start 1) stop = front_range_removed start stop" ..
    moreover have "\<not> (0 < stop \<and> stop < max start 1)" using adm by auto
    ultimately show ?thesis
      using False by (simp only: delete_front_range_changed_def Let_def if_False)
  qed
qed

interpretation delete_first_delimited: shrinking_command "delete_first_delimited_changed s e"
  "delimited_removed (hd s) (hd e)" "s \<noteq> [] \<and> e \<noteq> []" for s e
proof
  show "length (delimited_removed (hd s) (hd e) it) \<le> length (proposed_name it)" for it
    unfolding delimited_removed_def by (rule stem_extension_le) (rule without_delimited_length)
  show "\<exists>err. delete_first_delimited_changed s e l = (Inl err, l)" if "\<not> (s \<noteq> [] \<and> e \<noteq> [])" for l
    using that by (cases s; cases e) (auto simp: delete_first_delimited_changed_def)
  show "delete_first_delimited_changed s e l =
      map_prod Inr id (changed_proposals (delimited_removed (hd s) (hd e)) l)"
    if "s \<noteq> [] \<and> e \<noteq> []" for l
    using that by (cases s; cases e)
      (auto simp: delete_first_delimited_changed_def delimited_removed_def [abs_def] split_def Let_def
        without_delimited_position cong: option.case_cong)
qed

section \<open>Staged commands\<close>

definition reset_proposals_changed ::
  "allocator \<Rightarrow> legacy_list \<Rightarrow> (proposal_mutation_error + usize list) \<times> legacy_list" where
  "reset_proposals_changed al l =
     try_changed_proposals al
       (stateless (\<lambda>its row. try_clone_text (al (AtBuild row)) (current_name (its ! row)))) () l"

definition prefix_complete_changed ::
  "legacy_text \<Rightarrow> allocator \<Rightarrow> legacy_list \<Rightarrow> (proposal_mutation_error + usize list) \<times> legacy_list" where
  "prefix_complete_changed prefix_text al l =
     (if prefix_text = [] then (Inr [], l)
      else try_changed_proposals al
        (stateless (\<lambda>its row.
          let proposed = proposed_name (its ! row) in
          and_then (checked_sum [length prefix_text, length proposed]) (\<lambda>requested_units.
          try_build_proposal (al (AtBuild row)) row requested_units (prefix_text @ proposed)))) () l)"

definition suffix_before_extension_changed ::
  "legacy_text \<Rightarrow> allocator \<Rightarrow> legacy_list \<Rightarrow> (proposal_mutation_error + usize list) \<times> legacy_list" where
  "suffix_before_extension_changed suffix_text al l =
     (if suffix_text = [] then (Inr [], l)
      else try_changed_proposals al
        (stateless (\<lambda>its row.
          let (stem, extension) = stem_extension_units (its ! row) in
          and_then (checked_sum [length stem, length suffix_text, length extension]) (\<lambda>requested_units.
          try_build_proposal (al (AtBuild row)) row requested_units
            (stem @ suffix_text @ extension)))) () l)"

definition last_digit_run :: "u16 list \<Rightarrow> (usize \<times> usize) option" where
  "last_digit_run units =
     (case rposition is_ascii_digit units of
        None \<Rightarrow> None
      | Some stop \<Rightarrow>
          let start = (case rposition (\<lambda>u. \<not> is_ascii_digit u) (take (stop + 1) units) of
                         None \<Rightarrow> 0 | Some index \<Rightarrow> index + 1)
          in Some (start, stop))"

definition first_digit_run :: "u16 list \<Rightarrow> (usize \<times> usize) option" where
  "first_digit_run units =
     (case position is_ascii_digit units of
        None \<Rightarrow> None
      | Some start \<Rightarrow>
          (case position (\<lambda>u. \<not> is_ascii_digit u) (drop start units) of
             None \<Rightarrow> None
           | Some relative_end \<Rightarrow> Some (start, start + relative_end - 1)))"

definition padded_digit_run_proposal :: "bool \<Rightarrow> legacy_list_item \<Rightarrow> usize \<Rightarrow> usize \<Rightarrow>
    (u16 list \<Rightarrow> (usize \<times> usize) option) \<Rightarrow> proposal_mutation_error + legacy_text" where
  "padded_digit_run_proposal reserved item row width find_run =
     (let (stem, extension) = stem_extension_units item in
      case find_run stem of
        None \<Rightarrow>
          and_then (checked_sum [length stem, length extension]) (\<lambda>requested_units.
          try_build_proposal reserved row requested_units (stem @ extension))
      | Some (start, stop) \<Rightarrow>
          let run_length = stop - start + 1;
              padding = saturating_sub width run_length in
          and_then (checked_sum [length stem, padding, length extension]) (\<lambda>requested_units.
          try_build_proposal reserved row requested_units
            (take start stem @ replicate padding ZERO_DIGIT @ drop start stem @ extension)))"

definition pad_digit_run_changed :: "(u16 list \<Rightarrow> (usize \<times> usize) option) \<Rightarrow> usize \<Rightarrow> allocator \<Rightarrow>
    legacy_list \<Rightarrow> (proposal_mutation_error + usize list) \<times> legacy_list" where
  "pad_digit_run_changed find_run width al l =
     (if width = 0 then (Inl (InvalidInput NonPositiveWidth), l)
      else case validate_proposal_units 0 width of
        Inl e \<Rightarrow> (Inl e, l)
      | Inr _ \<Rightarrow> try_changed_proposals al
          (stateless (\<lambda>its row.
            padded_digit_run_proposal (al (AtBuild row)) (its ! row) row width find_run)) () l)"

definition pad_last_digit_run_changed ::
  "usize \<Rightarrow> allocator \<Rightarrow> legacy_list \<Rightarrow> (proposal_mutation_error + usize list) \<times> legacy_list" where
  "pad_last_digit_run_changed = pad_digit_run_changed last_digit_run"

definition pad_first_digit_run_changed ::
  "usize \<Rightarrow> allocator \<Rightarrow> legacy_list \<Rightarrow> (proposal_mutation_error + usize list) \<times> legacy_list" where
  "pad_first_digit_run_changed = pad_digit_run_changed first_digit_run"

definition try_normalized_extension ::
  "bool \<Rightarrow> legacy_text \<Rightarrow> proposal_mutation_error + legacy_text option" where
  "try_normalized_extension reserved extension =
     (if extension = [] then Inr None
      else if hd extension = DOT
      then map_sum id Some (try_build_proposal reserved 0 (length extension) extension)
      else and_then (checked_sum [1, length extension]) (\<lambda>requested_units.
        map_sum id Some (try_build_proposal reserved 0 requested_units (DOT # extension))))"

definition add_extension_changed ::
  "legacy_text \<Rightarrow> allocator \<Rightarrow> legacy_list \<Rightarrow> (proposal_mutation_error + usize list) \<times> legacy_list" where
  "add_extension_changed extension al l =
     (case try_normalized_extension (al AtExtension) extension of
        Inl e \<Rightarrow> (Inl e, l)
      | Inr None \<Rightarrow> (Inr [], l)
      | Inr (Some extension) \<Rightarrow> try_changed_proposals al
          (stateless (\<lambda>its row.
            let proposed = proposed_name (its ! row) in
            and_then (checked_sum [length proposed, length extension]) (\<lambda>requested_units.
            try_build_proposal (al (AtBuild row)) row requested_units (proposed @ extension)))) () l)"

definition replace_extension_changed ::
  "legacy_text \<Rightarrow> allocator \<Rightarrow> legacy_list \<Rightarrow> (proposal_mutation_error + usize list) \<times> legacy_list" where
  "replace_extension_changed extension al l =
     (case try_normalized_extension (al AtExtension) extension of
        Inl e \<Rightarrow> (Inl e, l)
      | Inr None \<Rightarrow> (Inr [], l)
      | Inr (Some extension) \<Rightarrow> try_changed_proposals al
          (stateless (\<lambda>its row.
            let (stem, old_extension) = stem_extension_units (its ! row) in
            and_then (checked_sum [length stem, length extension]) (\<lambda>requested_units.
            try_build_proposal (al (AtBuild row)) row requested_units (stem @ extension)))) () l)"

definition prefix_parent_folder_changed ::
  "allocator \<Rightarrow> legacy_list \<Rightarrow> (proposal_mutation_error + usize list) \<times> legacy_list" where
  "prefix_parent_folder_changed al l =
     try_changed_proposals al
       (stateless (\<lambda>its row.
         let item = its ! row in
         case parent_folder_units (destination_parent item) of
           Some folder \<Rightarrow>
             and_then (checked_sum [length folder, 1, length (proposed_name item)]) (\<lambda>requested_units.
             try_build_proposal (al (AtBuild row)) row requested_units
               (folder @ UNDERSCORE # proposed_name item))
         | None \<Rightarrow>
             try_build_proposal (al (AtBuild row)) row (length (proposed_name item))
               (proposed_name item))) () l"

definition suffix_parent_folder_changed ::
  "allocator \<Rightarrow> legacy_list \<Rightarrow> (proposal_mutation_error + usize list) \<times> legacy_list" where
  "suffix_parent_folder_changed al l =
     try_changed_proposals al
       (stateless (\<lambda>its row.
         let item = its ! row in
         case parent_folder_units (destination_parent item) of
           Some folder \<Rightarrow>
             let (stem, extension) = stem_extension_units item in
             and_then (checked_sum [length stem, 1, length folder, length extension])
               (\<lambda>requested_units.
             try_build_proposal (al (AtBuild row)) row requested_units
               (stem @ UNDERSCORE # folder @ extension))
         | None \<Rightarrow>
             try_build_proposal (al (AtBuild row)) row (length (proposed_name item))
               (proposed_name item))) () l"

text \<open>What each gives a row.\<close>

definition padded_name ::
  "(u16 list \<Rightarrow> (usize \<times> usize) option) \<Rightarrow> usize \<Rightarrow> legacy_list_item \<Rightarrow> legacy_text" where
  "padded_name find_run width it =
     (case find_run (stem_of it) of
        None \<Rightarrow> stem_of it @ extension_of it
      | Some (start, stop) \<Rightarrow>
          take start (stem_of it) @ replicate (width - (stop - start + 1)) ZERO_DIGIT @
            drop start (stem_of it) @ extension_of it)"

definition normalized_extension :: "legacy_text \<Rightarrow> legacy_text" where
  "normalized_extension extension =
     (if extension = [] \<or> hd extension = DOT then extension else DOT # extension)"

definition folder_prefixed :: "legacy_list_item \<Rightarrow> legacy_text" where
  "folder_prefixed it =
     (case parent_folder_units (destination_parent it) of
        None \<Rightarrow> proposed_name it | Some folder \<Rightarrow> folder @ UNDERSCORE # proposed_name it)"

definition folder_suffixed :: "legacy_list_item \<Rightarrow> legacy_text" where
  "folder_suffixed it =
     (case parent_folder_units (destination_parent it) of
        None \<Rightarrow> proposed_name it | Some folder \<Rightarrow> stem_of it @ UNDERSCORE # folder @ extension_of it)"

text \<open>
  The closures build a name of the requested length or refuse: a refusal with memory
  available means the name does not fit.
\<close>

lemma isl_conv: "isl r \<longleftrightarrow> \<not> (\<exists>x. r = Inr x)"
  by (cases r) auto

lemma built_ok:
  assumes "sum_list parts = length t"
  shows "and_then (checked_sum parts) (\<lambda>n. try_build_proposal reserved row n t) = Inr x \<Longrightarrow> t = x"
    and "reserved \<Longrightarrow> length t \<le> MAX_PROPOSED_NAME_UTF16_UNITS \<Longrightarrow>
      and_then (checked_sum parts) (\<lambda>n. try_build_proposal reserved row n t) = Inr t"
  using assms by (auto simp: checked_sum_eq budget_defs split: if_splits)

definition builds :: "bool \<Rightarrow> proposal_mutation_error + legacy_text \<Rightarrow> legacy_text \<Rightarrow> bool" where
  "builds reserved r t \<longleftrightarrow>
     (\<forall>x. r = Inr x \<longrightarrow> t = x) \<and>
     (reserved \<longrightarrow> length t \<le> MAX_PROPOSED_NAME_UTF16_UNITS \<longrightarrow> r = Inr t)"

lemma faithful_builds:
  "(\<And>row. row < length its \<Longrightarrow> builds (al (AtBuild row)) (p row) (t row)) \<Longrightarrow> faithful al p t its"
  unfolding faithful_def builds_def by (metis (mono_tags) sum.disc(2))

lemma builds_sum [contract_intros]:
  "sum_list parts = length t \<Longrightarrow>
     builds reserved (and_then (checked_sum parts) (\<lambda>n. try_build_proposal reserved row n t)) t"
  using built_ok [of parts t] by (auto simp: builds_def)

lemma builds_plain [contract_intros]:
  "n = length t \<Longrightarrow> builds reserved (try_build_proposal reserved row n t) t"
  by (auto simp: builds_def)

lemma builds_clone [contract_intros]: "builds reserved (try_clone_text reserved t) t"
  by (auto simp: builds_def)

lemma digit_run_start_le:
  "last_digit_run stem = Some (start, stop) \<Longrightarrow> start \<le> stop \<and> stop < length stem"
  "first_digit_run stem = Some (start, stop) \<Longrightarrow> start \<le> stop \<and> stop < length stem"
proof -
  assume "last_digit_run stem = Some (start, stop)"
  then show "start \<le> stop \<and> stop < length stem"
    by (auto simp: last_digit_run_def Let_def rposition_Some less_Suc_eq Suc_le_eq
        split: option.splits)
next
  assume a: "first_digit_run stem = Some (start, stop)"
  then obtain i where s: "position is_ascii_digit stem = Some start"
      and i: "position (\<lambda>u. \<not> is_ascii_digit u) (drop start stem) = Some i" and "stop = start + i - 1"
    by (auto simp: first_digit_run_def split: option.splits)
  moreover from s i have "i \<noteq> 0" by (cases "i = 0") (auto simp: position_Some)
  ultimately show "start \<le> stop \<and> stop < length stem"
    using position_bound [OF i] by auto
qed

lemma builds_padded:
  assumes "\<And>start stop. find_run (stem_of it) = Some (start, stop) \<Longrightarrow> start \<le> length (stem_of it)"
  shows "builds reserved (padded_digit_run_proposal reserved it row width find_run)
    (padded_name find_run width it)"
  using assms
  by (auto simp: padded_digit_run_proposal_def padded_name_def split_def Let_def saturating_sub_def
      split: option.splits intro!: builds_sum)

section \<open>The contracts of the staged commands\<close>

interpretation reset_proposals: proposal_command reset_proposals_changed
  "\<lambda>its i. current_name (its ! i)" True
  by (rule proposal_command_stateless [where idle = False and ready = "\<lambda>_. True"])
     (auto simp: reset_proposals_changed_def intro!: faithful_builds contract_intros)

interpretation prefix_complete: proposal_command "prefix_complete_changed s"
  "\<lambda>its i. s @ proposed_name (its ! i)" True for s
  by (rule proposal_command_stateless [where idle = "s = []" and ready = "\<lambda>_. True"])
     (auto simp: prefix_complete_changed_def Let_def intro!: faithful_builds contract_intros)

interpretation suffix_before_extension: proposal_command "suffix_before_extension_changed s"
  "\<lambda>its i. if s = [] then proposed_name (its ! i)
     else stem_of (its ! i) @ s @ extension_of (its ! i)" True for s
  by (rule proposal_command_stateless [where idle = "s = []" and ready = "\<lambda>_. True"])
     (auto simp: suffix_before_extension_changed_def split_def Let_def intro!: faithful_builds contract_intros)

lemma pad_command:
  assumes "\<And>stem start stop. find_run stem = Some (start, stop) \<Longrightarrow> start \<le> length stem"
  shows "proposal_command (pad_digit_run_changed find_run width)
    (\<lambda>its i. padded_name find_run width (its ! i))
    (0 < width \<and> width \<le> MAX_PROPOSED_NAME_UTF16_UNITS)"
  by (rule proposal_command_stateless [where idle = False and ready = "\<lambda>_. True"])
     (auto simp: pad_digit_run_changed_def validate_proposal_units_def
       intro!: faithful_builds builds_padded assms)

interpretation pad_last: proposal_command "pad_last_digit_run_changed width"
  "\<lambda>its i. padded_name last_digit_run width (its ! i)"
  "0 < width \<and> width \<le> MAX_PROPOSED_NAME_UTF16_UNITS" for width
  unfolding pad_last_digit_run_changed_def
  by (rule pad_command) (auto dest: digit_run_start_le)

interpretation pad_first: proposal_command "pad_first_digit_run_changed width"
  "\<lambda>its i. padded_name first_digit_run width (its ! i)"
  "0 < width \<and> width \<le> MAX_PROPOSED_NAME_UTF16_UNITS" for width
  unfolding pad_first_digit_run_changed_def
  by (rule pad_command) (auto dest: digit_run_start_le)

text \<open>A normalised extension is computed before the rows are looked at.\<close>

definition extension_fits :: "legacy_text \<Rightarrow> bool" where
  "extension_fits e \<longleftrightarrow> e = [] \<or> length (normalized_extension e) \<le> MAX_PROPOSED_NAME_UTF16_UNITS"

lemma normalized_extension_cases:
  obtains (idle) "e = []" "try_normalized_extension r e = Inr None" "extension_fits e"
  | (ok) "e \<noteq> []" "try_normalized_extension r e = Inr (Some (normalized_extension e))"
      "extension_fits e" "r"
  | (error) err where "e \<noteq> []" "try_normalized_extension r e = Inl err" "\<not> (extension_fits e \<and> r)"
proof (cases "e = []")
  case True
  then show thesis by (intro idle) (simp_all add: try_normalized_extension_def extension_fits_def)
next
  case False
  show thesis
  proof (cases "extension_fits e \<and> r")
    case True
    then have "try_normalized_extension r e = Inr (Some (normalized_extension e))"
      using False by (cases "hd e = DOT") (auto simp: try_normalized_extension_def
          normalized_extension_def extension_fits_def try_build_proposal_def checked_sum_eq
          validate_proposal_units_def budget_defs)
    with True False show thesis by (intro ok) simp_all
  next
    case no: False
    then have "isl (try_normalized_extension r e)"
      using False by (auto simp: try_normalized_extension_def normalized_extension_def
          extension_fits_def try_build_proposal_def checked_sum_eq validate_proposal_units_def)
    then obtain err where "try_normalized_extension r e = Inl err" by (auto simp: isl_def)
    with no False show thesis by (intro error) simp_all
  qed
qed

interpretation add_extension: proposal_command "add_extension_changed e"
  "\<lambda>its i. proposed_name (its ! i) @ normalized_extension e" "extension_fits e" for e
proof (rule proposal_command_stateless [where idle = "e = []" and ready = "\<lambda>al. al AtExtension"
    and p = "\<lambda>al its row.
      and_then (checked_sum [length (proposed_name (its ! row)), length (normalized_extension e)])
        (\<lambda>n. try_build_proposal (al (AtBuild row)) row n
           (proposed_name (its ! row) @ normalized_extension e))"])
  fix al l assume "e \<noteq> []" "\<not> (extension_fits e \<and> al AtExtension)"
  then show "\<exists>err. add_extension_changed e al l = (Inl err, l)"
    by (cases rule: normalized_extension_cases [of e "al AtExtension"])
       (simp_all add: add_extension_changed_def)
next
  fix al l assume "e \<noteq> []" "extension_fits e" "al AtExtension"
  then show "add_extension_changed e al l = try_changed_proposals al (stateless (\<lambda>its row.
      and_then (checked_sum [length (proposed_name (its ! row)), length (normalized_extension e)])
        (\<lambda>n. try_build_proposal (al (AtBuild row)) row n
           (proposed_name (its ! row) @ normalized_extension e)))) () l"
    by (cases rule: normalized_extension_cases [of e "al AtExtension"])
       (simp_all add: add_extension_changed_def Let_def)
qed (auto simp: add_extension_changed_def try_normalized_extension_def extension_fits_def
    normalized_extension_def intro!: faithful_builds contract_intros)

interpretation replace_extension: proposal_command "replace_extension_changed e"
  "\<lambda>its i. if e = [] then proposed_name (its ! i) else stem_of (its ! i) @ normalized_extension e"
  "extension_fits e" for e
proof (rule proposal_command_stateless [where idle = "e = []" and ready = "\<lambda>al. al AtExtension"
    and p = "\<lambda>al its row.
      and_then (checked_sum [length (stem_of (its ! row)), length (normalized_extension e)])
        (\<lambda>n. try_build_proposal (al (AtBuild row)) row n
           (stem_of (its ! row) @ normalized_extension e))"])
  fix al l assume "e \<noteq> []" "\<not> (extension_fits e \<and> al AtExtension)"
  then show "\<exists>err. replace_extension_changed e al l = (Inl err, l)"
    by (cases rule: normalized_extension_cases [of e "al AtExtension"])
       (simp_all add: replace_extension_changed_def)
next
  fix al l assume "e \<noteq> []" "extension_fits e" "al AtExtension"
  then show "replace_extension_changed e al l = try_changed_proposals al (stateless (\<lambda>its row.
      and_then (checked_sum [length (stem_of (its ! row)), length (normalized_extension e)])
        (\<lambda>n. try_build_proposal (al (AtBuild row)) row n
           (stem_of (its ! row) @ normalized_extension e)))) () l"
    by (cases rule: normalized_extension_cases [of e "al AtExtension"])
       (simp_all add: replace_extension_changed_def split_def Let_def)
qed (auto simp: replace_extension_changed_def try_normalized_extension_def extension_fits_def
    intro!: faithful_builds contract_intros)

interpretation prefix_parent_folder: proposal_command prefix_parent_folder_changed
  "\<lambda>its i. folder_prefixed (its ! i)" True
  by (rule proposal_command_stateless [where idle = False and ready = "\<lambda>_. True"])
     (auto simp: prefix_parent_folder_changed_def folder_prefixed_def Let_def
       intro!: faithful_builds contract_intros split: option.splits)

interpretation suffix_parent_folder: proposal_command suffix_parent_folder_changed
  "\<lambda>its i. folder_suffixed (its ! i)" True
  by (rule proposal_command_stateless [where idle = False and ready = "\<lambda>_. True"])
     (auto simp: suffix_parent_folder_changed_def folder_suffixed_def Let_def split_def
       intro!: faithful_builds contract_intros split: option.splits)

section \<open>Replacement\<close>

text \<open>
  \<open>replaced_units\<close> walks the name twice: once to size the result, stopping as soon as it is too
  long, and once to write it. The needle is not empty (the first guard), so each step advances.
\<close>

function replaced_size :: "usize \<Rightarrow> u16 list \<Rightarrow> u16 list \<Rightarrow> u16 list \<Rightarrow> usize \<Rightarrow> usize \<Rightarrow> bool \<Rightarrow>
    proposal_mutation_error + (usize \<times> bool)" where
  "replaced_size row source needle replacement requested_units index matched =
     (if index < length source \<and> needle \<noteq> [] then
        let hit = starts_with (drop index source) needle;
            step = (if hit then length needle else 1);
            segment_units = (if hit then length replacement else 1)
        in
        and_then (ok_or ArithmeticOverflow (checked_add index step)) (\<lambda>_.
        and_then (ok_or ArithmeticOverflow (checked_add requested_units segment_units)) (\<lambda>requested_units.
        and_then (validate_proposal_units row requested_units) (\<lambda>_.
        replaced_size row source needle replacement requested_units (index + step) (matched \<or> hit))))
      else Inr (requested_units, matched))"
  by pat_completeness auto
termination
  by (relation "measure (\<lambda>(row, source, needle, replacement, requested, index, matched).
      length source - index)") (auto simp: Let_def neq_Nil_conv)

function replaced_fill :: "u16 list \<Rightarrow> u16 list \<Rightarrow> u16 list \<Rightarrow> usize \<Rightarrow> u16 list" where
  "replaced_fill source needle replacement index =
     (if index < length source \<and> needle \<noteq> [] then
        if starts_with (drop index source) needle
        then replacement @ replaced_fill source needle replacement (index + length needle)
        else source ! index # replaced_fill source needle replacement (index + 1)
      else [])"
  by pat_completeness auto
termination
  by (relation "measure (\<lambda>(source, needle, replacement, index). length source - index)") (auto simp: neq_Nil_conv)

declare replaced_size.simps [simp del] replaced_fill.simps [simp del]

definition replaced_units :: "bool \<Rightarrow> usize \<Rightarrow> u16 list \<Rightarrow> u16 list \<Rightarrow> u16 list \<Rightarrow>
    proposal_mutation_error + legacy_text option" where
  "replaced_units reserved row source needle replacement =
     (if needle = [] \<or> length source < length needle then Inr None
      else and_then (replaced_size row source needle replacement 0 0 False)
        (\<lambda>(requested_units, matched).
        if \<not> matched \<or> needle = replacement then Inr None
        else map_sum id Some (try_build_proposal reserved row requested_units
               (replaced_fill source needle replacement 0))))"

definition replace_complete_changed :: "legacy_text \<Rightarrow> legacy_text \<Rightarrow> allocator \<Rightarrow> legacy_list \<Rightarrow>
    (proposal_mutation_error + usize list) \<times> legacy_list" where
  "replace_complete_changed from_text to_text al l =
     try_changed_proposals_optional al
       (\<lambda>st its row. map_sum id (\<lambda>next. (next, ()))
          (replaced_units (al (AtBuild row)) row (proposed_name (its ! row)) from_text to_text)) () l"

text \<open>The reference: every occurrence from the left, not overlapping, is replaced.\<close>

function replace_all :: "'a list \<Rightarrow> 'a list \<Rightarrow> 'a list \<Rightarrow> 'a list" where
  "replace_all needle replacement xs =
     (if xs = [] \<or> needle = [] then xs
      else if starts_with xs needle
      then replacement @ replace_all needle replacement (drop (length needle) xs)
      else hd xs # replace_all needle replacement (tl xs))"
  by pat_completeness auto
termination
  by (relation "measure (\<lambda>(needle, replacement, xs). length xs)")
     (auto simp: starts_with_def neq_Nil_conv)

declare replace_all.simps [simp del]

fun occurs :: "'a list \<Rightarrow> 'a list \<Rightarrow> bool" where
  "occurs needle [] = (needle = [])"
| "occurs needle (x # xs) = (starts_with (x # xs) needle \<or> occurs needle xs)"

lemma replace_all_Nil [simp]: "replace_all needle r [] = []" "replace_all [] r xs = xs"
  by (simp_all add: replace_all.simps)

lemma replace_all_unmatched: "\<not> occurs needle xs \<Longrightarrow> replace_all needle r xs = xs"
  by (induction xs) (auto simp: replace_all.simps [of needle r "_ # _"])

lemma replace_all_same: "replace_all needle needle xs = xs"
proof (induction "length xs" arbitrary: xs rule: less_induct)
  case less
  then show ?case
    by (cases xs; cases needle)
       (auto simp: replace_all.simps [of _ _ "_ # _"] starts_with_def, metis append_take_drop_id)
qed

lemma replaced_fill_eq:
  "needle \<noteq> [] \<Longrightarrow> replaced_fill source needle r index = replace_all needle r (drop index source)"
proof (induction source needle r index rule: replaced_fill.induct)
  case (1 source needle r index)
  show ?case
  proof (cases "index < length source")
    case True
    with 1 show ?thesis
      by (subst replaced_fill.simps, subst replace_all.simps)
         (auto simp: hd_drop_conv_nth tl_drop drop_Suc add.commute)
  qed (simp add: replaced_fill.simps)
qed

lemma replace_all_drop:
  "index < length source \<Longrightarrow> needle \<noteq> [] \<Longrightarrow> replace_all needle r (drop index source) =
     (if starts_with (drop index source) needle
      then r @ replace_all needle r (drop (index + length needle) source)
      else source ! index # replace_all needle r (drop (index + 1) source))"
  by (subst replace_all.simps) (auto simp: hd_drop_conv_nth tl_drop drop_Suc add.commute)

lemma occurs_drop:
  "index < length source \<Longrightarrow> occurs needle (drop index source) \<longleftrightarrow>
     starts_with (drop index source) needle \<or> occurs needle (drop (index + 1) source)"
  by (simp add: Cons_nth_drop_Suc [symmetric])

lemma starts_with_length: "starts_with xs p \<Longrightarrow> length p \<le> length xs"
  by (metis length_take min.cobounded1 starts_with_def)

text \<open>The sizing pass returns the length of the result unless some prefix is too long.\<close>

lemma replaced_size_eq:
  assumes "needle \<noteq> []" and "length source < USIZE_LIMIT" and "index \<le> length source"
  shows "case replaced_size row source needle r n index m of
      Inl e \<Rightarrow> MAX_PROPOSED_NAME_UTF16_UNITS < n + length (replace_all needle r (drop index source))
    | Inr (n', m') \<Rightarrow> n' = n + length (replace_all needle r (drop index source)) \<and>
        (m' \<longleftrightarrow> m \<or> occurs needle (drop index source)) \<and>
        (index < length source \<longrightarrow> n' \<le> MAX_PROPOSED_NAME_UTF16_UNITS)"
  using assms
proof (induction "length source - index" arbitrary: n index m rule: less_induct)
  case (less index n m)
  show ?case
  proof (cases "index < length source")
    case False
    with less.prems show ?thesis by (simp add: replaced_size.simps)
  next
    case True
    define hit where "hit = starts_with (drop index source) needle"
    define step where "step = (if hit then length needle else 1)"
    define seg where "seg = (if hit then length r else 1)"
    have step: "index + step \<le> length source"
      using True starts_with_length [of "drop index source" needle]
      by (auto simp: step_def hit_def)
    have len: "length (replace_all needle r (drop index source)) =
        seg + length (replace_all needle r (drop (index + step) source))"
      using True less.prems by (simp add: replace_all_drop hit_def step_def seg_def)
    have occ: "occurs needle (drop index source) \<longleftrightarrow> hit \<or> occurs needle (drop (index + step) source)"
      using True by (simp add: occurs_drop hit_def step_def)
    have size: "replaced_size row source needle r n index m =
        and_then (ok_or ArithmeticOverflow (checked_add n seg)) (\<lambda>n.
        and_then (validate_proposal_units row n) (\<lambda>_.
        replaced_size row source needle r n (index + step) (m \<or> hit)))"
    proof -
      have "checked_add index step = Some (index + step)"
        using step less.prems(2) by simp
      then show ?thesis
        using True less.prems(1)
        by (subst replaced_size.simps) (simp add: hit_def step_def seg_def Let_def del: checked_add_Some)
    qed
    show ?thesis
    proof (cases "n + seg \<le> MAX_PROPOSED_NAME_UTF16_UNITS")
      case False
      then have "isl (replaced_size row source needle r n index m)"
        unfolding size by (auto simp: checked_add_def validate_proposal_units_def)
      with False show ?thesis by (auto simp: isl_def len)
    next
      case small: True
      then have "replaced_size row source needle r n index m =
          replaced_size row source needle r (n + seg) (index + step) (m \<or> hit)"
        unfolding size by (simp add: checked_add_def validate_proposal_units_def budget_defs)
      moreover have "case replaced_size row source needle r (n + seg) (index + step) (m \<or> hit) of
          Inl e \<Rightarrow> MAX_PROPOSED_NAME_UTF16_UNITS <
            n + seg + length (replace_all needle r (drop (index + step) source))
        | Inr (n', m') \<Rightarrow> n' = n + seg + length (replace_all needle r (drop (index + step) source)) \<and>
            (m' \<longleftrightarrow> (m \<or> hit) \<or> occurs needle (drop (index + step) source)) \<and>
            (index + step < length source \<longrightarrow> n' \<le> MAX_PROPOSED_NAME_UTF16_UNITS)"
        by (rule less.hyps) (use True less.prems step in \<open>auto simp: step_def neq_Nil_conv\<close>)
      ultimately show ?thesis
        using small step unfolding len occ by (auto split: sum.splits)
    qed
  qed
qed

lemma replaced_units_cases:
  assumes "length source < USIZE_LIMIT" and "length source \<le> MAX_PROPOSED_NAME_UTF16_UNITS"
  shows "replaced_units reserved row source needle r = Inr None \<and> replace_all needle r source = source
    \<or> replaced_units reserved row source needle r = Inr (Some (replace_all needle r source))
    \<or> isl (replaced_units reserved row source needle r) \<and>
      (\<not> reserved \<or> MAX_PROPOSED_NAME_UTF16_UNITS < length (replace_all needle r source))"
proof (cases "needle = [] \<or> length source < length needle")
  case True
  have "\<not> occurs needle source" if "length source < length needle"
    using that by (induction source) (auto dest: starts_with_length)
  with True show ?thesis
    by (auto simp: replaced_units_def replace_all_unmatched)
next
  case False
  note size = replaced_size_eq [where needle = needle and source = source and index = 0 and row = row
      and r = r and n = 0 and m = False, OF _ assms(1)]
  show ?thesis
  proof (cases "replaced_size row source needle r 0 0 False")
    case (Inl e)
    with size False show ?thesis by (auto simp: replaced_units_def)
  next
    case (Inr r')
    then obtain n m where r': "replaced_size row source needle r 0 0 False = Inr (n, m)"
      by (cases r') auto
    with size False have n: "n = length (replace_all needle r source)" and m: "m \<longleftrightarrow> occurs needle source"
      by auto
    show ?thesis
      using False n m replaced_fill_eq [of needle source r 0]
      by (auto simp: replaced_units_def r' replace_all_unmatched replace_all_same
          try_build_proposal_def validate_proposal_units_def ok_if_def)
  qed
qed

interpretation replace_complete: proposal_command "replace_complete_changed from_text to_text"
  "\<lambda>its i. replace_all from_text to_text (proposed_name (its ! i))" True for from_text to_text
proof (rule proposal_command_staged [where init = "\<lambda>_. ()" and J = "\<lambda>_ _ _. True"
    and p = "\<lambda>al its st its' row. map_sum id (\<lambda>next. (next, ()))
      (replaced_units (al (AtBuild row)) row (proposed_name (its' ! row)) from_text to_text)"])
  let ?t = "\<lambda>its i. replace_all from_text to_text (proposed_name (its ! i))"
  fix al :: allocator and l :: legacy_list assume wf: "wf_list l"
  have cases: "row < length (items l) \<Longrightarrow>
      replaced_units r row (proposed_name (items l ! row)) from_text to_text = Inr None \<and>
        ?t (items l) row = proposed_name (items l ! row)
    \<or> replaced_units r row (proposed_name (items l ! row)) from_text to_text = Inr (Some (?t (items l) row))
    \<or> isl (replaced_units r row (proposed_name (items l ! row)) from_text to_text) \<and>
      (\<not> r \<or> MAX_PROPOSED_NAME_UTF16_UNITS < length (?t (items l) row))" for row r
    using wf_names_bounded [OF wf, of row]
    by (intro replaced_units_cases) (auto simp: budget_defs)
  show "realises (\<lambda>st its' row. map_sum id (\<lambda>next. (next, ()))
      (replaced_units (al (AtBuild row)) row (proposed_name (its' ! row)) from_text to_text))
      (\<lambda>_ _. True) (?t (items l)) (items l)"
    unfolding realises_def
  proof (intro allI impI conjI TrueI)
    fix row st "next" st'
    assume "row < length (items l)" and "map_sum id (\<lambda>next. (next, ()))
      (replaced_units (al (AtBuild row)) row (proposed_name (items l ! row)) from_text to_text)
        = Inr (next, st')"
    with cases [of row "al (AtBuild row)"]
    show "case next of None \<Rightarrow> ?t (items l) row = proposed_name (items l ! row)
      | Some x \<Rightarrow> ?t (items l) row = x"
      by (auto simp: isl_def)
  qed
  show "willing (\<lambda>st its' row. map_sum id (\<lambda>next. (next, ()))
      (replaced_units True row (proposed_name (its' ! row)) from_text to_text))
      (\<lambda>_ _. True) (?t (items l)) (items l)"
    unfolding willing_def
  proof (intro allI impI notI)
    fix row st e
    assume "row < length (items l)" "length (?t (items l) row) \<le> MAX_PROPOSED_NAME_UTF16_UNITS"
      and "map_sum id (\<lambda>next. (next, ()))
      (replaced_units True row (proposed_name (items l ! row)) from_text to_text) = Inl e"
    with cases [of row True] show False by auto
  qed
qed (simp_all add: replace_complete_changed_def)

end
