(* ===== verification/Numbering_Import.thy ===== *)
theory Numbering_Import
  imports Proposal_Transforms
begin

text \<open>
  The commands of \<open>LegacyList\<close> whose closure carries state from row to row: the sequence
  numbers (\<open>add_sequence_by_changed\<close>, a wrapping \<open>i32\<close> counter) and the imported names
  (\<open>import_names_changed\<close>, an iterator over the lines), and the single-row
  \<open>set_manual_proposal\<close>, which checks its budgets from the stored counters. Each interprets
  \<open>proposal_command\<close>. The lemmas on decimal digits show that padded numbers are read back
  exactly, so numbered names never collide by their number.
\<close>

section \<open>Decimal numbers\<close>

text \<open>\<open>i32\<close> is a 32-bit word read with \<open>sint\<close>.\<close>

type_synonym i32 = "32 word"

abbreviation MINUS_SIGN :: u16 where "MINUS_SIGN \<equiv> 45"

fun decimal_units :: "nat \<Rightarrow> u16 list" where
  "decimal_units n =
     (if n < 10 then [48 + of_nat n] else decimal_units (n div 10) @ [48 + of_nat (n mod 10)])"

declare decimal_units.simps [simp del]

text \<open>\<open>i32::to_string\<close>, as UTF-16 units.\<close>

definition i32_to_units :: "i32 \<Rightarrow> u16 list" where
  "i32_to_units w =
     (if sint w < 0 then MINUS_SIGN # decimal_units (nat (- sint w))
      else decimal_units (nat (sint w)))"

definition digit_value :: "u16 list \<Rightarrow> nat" where
  "digit_value us = foldl (\<lambda>n u. 10 * n + (unat u - 48)) 0 us"

lemma digit_value_snoc: "digit_value (us @ [u]) = 10 * digit_value us + (unat u - 48)"
  by (simp add: digit_value_def)

lemma unat_digit: "n < 10 \<Longrightarrow> unat (48 + of_nat n :: u16) = 48 + n"
  by (simp add: unat_word_ariths unat_of_nat)

lemma digit_value_decimal [simp]: "digit_value (decimal_units n) = n"
proof (induction n rule: decimal_units.induct)
  case (1 n)
  show ?case
  proof (cases "n < 10")
    case True
    then show ?thesis
      by (subst decimal_units.simps) (simp add: digit_value_def unat_digit)
  next
    case False
    then show ?thesis
      using 1 by (subst decimal_units.simps) (simp add: digit_value_snoc unat_digit)
  qed
qed

lemma digit_value_padding [simp]: "digit_value (replicate k 48 @ us) = digit_value us"
proof -
  have "foldl (\<lambda>n u. 10 * n + (unat u - 48)) 0 (replicate k (48 :: u16)) = (0 :: nat)"
    by (induction k) simp_all
  then show ?thesis by (simp add: digit_value_def)
qed

lemma decimal_units_digits: "\<forall>u\<in>set (decimal_units n). is_ascii_digit u"
proof (induction n rule: decimal_units.induct)
  case (1 n)
  have "is_ascii_digit (48 + of_nat m)" if "m < 10" for m
    using that by (simp add: is_ascii_digit_def word_le_nat_alt unat_digit)
  then show ?case
    using 1 by (subst decimal_units.simps) auto
qed

lemma decimal_units_nonempty [simp]: "decimal_units n \<noteq> []"
  by (subst decimal_units.simps) simp

section \<open>Sequence numbers\<close>

datatype legacy_sequence_mode =
  Append | Prepend | AppendRestartPerFolder | PrependRestartPerFolder

fun restarts :: "legacy_sequence_mode \<Rightarrow> bool" where
  "restarts AppendRestartPerFolder = True"
| "restarts PrependRestartPerFolder = True"
| "restarts _ = False"

fun appends :: "legacy_sequence_mode \<Rightarrow> bool" where
  "appends Append = True"
| "appends AppendRestartPerFolder = True"
| "appends _ = False"

type_synonym text_comparator = "legacy_text \<Rightarrow> legacy_text \<Rightarrow> ordering"

definition sequence_proposal ::
  "usize \<Rightarrow> i32 \<Rightarrow> legacy_sequence_mode \<Rightarrow> text_comparator \<Rightarrow> allocator \<Rightarrow>
     i32 \<Rightarrow> legacy_list_item list \<Rightarrow> usize \<Rightarrow> proposal_mutation_error + (legacy_text \<times> i32)" where
  "sequence_proposal width start mode compare_text al current its row =
     (let current = (if 0 < row \<and> restarts mode \<and>
             compare_text (destination_parent (its ! (row - 1))) (destination_parent (its ! row)) \<noteq> Equal
           then start else current);
          (stem, extension) = stem_extension_units (its ! row);
          value = i32_to_units current;
          number_units = max width (length value)
      in
      and_then (checked_sum [length stem, number_units, length extension]) (\<lambda>requested_units.
      and_then (try_build_proposal (al (AtBuild row)) row requested_units
        ((if appends mode then stem else []) @ replicate (number_units - length value) ZERO_DIGIT @
         value @ (if \<not> appends mode then stem else []) @ extension)) (\<lambda>proposal.
      Inr (proposal, current + 1))))"

definition add_sequence_by_changed ::
  "usize \<Rightarrow> i32 \<Rightarrow> legacy_sequence_mode \<Rightarrow> text_comparator \<Rightarrow> allocator \<Rightarrow> legacy_list \<Rightarrow>
     (proposal_mutation_error + usize list) \<times> legacy_list" where
  "add_sequence_by_changed width start mode compare_text al l =
     (if width = 0 then (Inl (InvalidInput NonPositiveWidth), l)
      else case validate_proposal_units 0 width of
        Inl e \<Rightarrow> (Inl e, l)
      | Inr _ \<Rightarrow>
          let start = (if sint start < 0 then 0 else start)
          in try_changed_proposals al (sequence_proposal width start mode compare_text al) start l)"

text \<open>The number of a row: it counts on from the row above, or restarts in a new folder.\<close>

fun row_number ::
  "i32 \<Rightarrow> legacy_sequence_mode \<Rightarrow> text_comparator \<Rightarrow> legacy_list_item list \<Rightarrow> usize \<Rightarrow> i32" where
  "row_number start mode compare_text its 0 = start"
| "row_number start mode compare_text its (Suc row) =
     (if restarts mode \<and>
         compare_text (destination_parent (its ! row)) (destination_parent (its ! Suc row)) \<noteq> Equal
      then start else row_number start mode compare_text its row + 1)"

definition padded_number :: "usize \<Rightarrow> i32 \<Rightarrow> u16 list" where
  "padded_number width n = replicate (width - length (i32_to_units n)) ZERO_DIGIT @ i32_to_units n"

definition numbered_name ::
  "usize \<Rightarrow> i32 \<Rightarrow> legacy_sequence_mode \<Rightarrow> text_comparator \<Rightarrow> legacy_list_item list \<Rightarrow> usize \<Rightarrow>
     legacy_text" where
  "numbered_name width start mode compare_text its row =
     (let number = padded_number width
            (row_number (if sint start < 0 then 0 else start) mode compare_text its row)
      in (if appends mode then stem_of (its ! row) @ number else number @ stem_of (its ! row)) @
         extension_of (its ! row))"

lemma length_padded_number: "length (padded_number width n) = max width (length (i32_to_units n))"
  by (simp add: padded_number_def)

lemma max_as_sum: "max w n = w - n + (n::nat)"
  by simp

definition counter_state ::
  "i32 \<Rightarrow> legacy_sequence_mode \<Rightarrow> text_comparator \<Rightarrow> legacy_list_item list \<Rightarrow> usize \<Rightarrow> i32 \<Rightarrow> bool" where
  "counter_state start mode compare_text its row current \<longleftrightarrow>
     (case row of 0 \<Rightarrow> current = start
      | Suc r \<Rightarrow> current = row_number start mode compare_text its r + 1)"

lemma sequence_proposal_eq:
  assumes "counter_state start mode compare_text its row current" and "0 \<le> sint start"
  shows "sequence_proposal width start mode compare_text al current its row =
    and_then (checked_sum [length (stem_of (its ! row)),
        length (padded_number width (row_number start mode compare_text its row)),
        length (extension_of (its ! row))]) (\<lambda>requested_units.
      and_then (try_build_proposal (al (AtBuild row)) row requested_units
        (numbered_name width start mode compare_text its row)) (\<lambda>proposal.
      Inr (proposal, row_number start mode compare_text its row + 1)))"
proof -
  have "row_number start mode compare_text its row = (if 0 < row \<and> restarts mode \<and>
      compare_text (destination_parent (its ! (row - 1))) (destination_parent (its ! row)) \<noteq> Equal
    then start else current)"
    using assms by (cases row) (auto simp: counter_state_def)
  then show ?thesis
    using assms(2)
    by (simp add: sequence_proposal_def numbered_name_def Let_def split_def max_as_sum
        padded_number_def)
qed

interpretation add_sequence: proposal_command
  "add_sequence_by_changed width start mode compare_text"
  "numbered_name width start mode compare_text"
  "0 < width \<and> width \<le> MAX_PROPOSED_NAME_UTF16_UNITS" for width start mode compare_text
proof (rule proposal_command_staged [where init = "\<lambda>_. if sint start < 0 then 0 else start"
    and J = "counter_state (if sint start < 0 then 0 else start) mode compare_text"
    and p = "\<lambda>al its current its' row.
      and_then (sequence_proposal width (if sint start < 0 then 0 else start) mode compare_text al
        current its' row) (\<lambda>(t, st'). Inr (Some t, st'))"])
  let ?s = "if sint start < 0 then 0 else start"
  have s: "0 \<le> sint ?s" by simp
  have name: "numbered_name width ?s mode compare_text = numbered_name width start mode compare_text"
    by (simp add: fun_eq_iff numbered_name_def)
  have len: "length (stem_of (its ! row)) +
      (length (padded_number width (row_number ?s mode compare_text its row)) +
       length (extension_of (its ! row))) = length (numbered_name width start mode compare_text its row)"
    for its row by (simp add: numbered_name_def Let_def)
  fix al :: allocator and l :: legacy_list
  show "realises (\<lambda>current its' row. and_then (sequence_proposal width ?s mode compare_text al
        current its' row) (\<lambda>(t, st'). Inr (Some t, st')))
      (counter_state ?s mode compare_text (items l)) (numbered_name width start mode compare_text (items l))
      (items l)"
    unfolding realises_def using s
    by (auto simp: sequence_proposal_eq name and_then_Inr counter_state_def [of _ _ _ _ "Suc _"]
        simp del: split_paired_Ex)
  show "willing (\<lambda>current its' row. and_then (sequence_proposal width ?s mode compare_text (\<lambda>_. True)
        current its' row) (\<lambda>(t, st'). Inr (Some t, st')))
      (counter_state ?s mode compare_text (items l)) (numbered_name width start mode compare_text (items l))
      (items l)"
    unfolding willing_def
  proof (intro allI impI notI)
    fix row st e
    assume "counter_state ?s mode compare_text (items l) row st"
      and small: "length (numbered_name width start mode compare_text (items l) row)
        \<le> MAX_PROPOSED_NAME_UTF16_UNITS"
      and "and_then (sequence_proposal width ?s mode compare_text (\<lambda>_. True) st (items l) row)
        (\<lambda>(t, st'). Inr (Some t, st')) = Inl e"
    then show False
      by (simp add: sequence_proposal_eq [OF _ s] name checked_sum_eq len try_build_proposal_def
          validate_proposal_units_def budget_defs)
  qed
qed (auto simp: add_sequence_by_changed_def validate_proposal_units_def try_changed_proposals_def
    counter_state_def Let_def)

text \<open>The numbers themselves.\<close>

lemma row_number_plain:
  "\<not> restarts mode \<Longrightarrow> row_number start mode compare_text its row = start + of_nat row"
  by (induction row) (simp_all add: algebra_simps)

lemma sint_add_nat:
  assumes "0 \<le> sint (start :: i32)" and "sint start + int k < 2 ^ 31"
  shows "sint (start + of_nat k) = sint start + int k"
proof -
  have "start + of_nat k = word_of_int (sint start + int k)" by simp
  then have "sint (start + of_nat k) = signed_take_bit 31 (sint start + int k)"
    by (simp only: signed_of_int) simp
  also have "\<dots> = sint start + int k"
    using assms by (intro signed_take_bit_int_eq_self) simp_all
  finally show ?thesis .
qed

lemma digit_value_padded:
  "0 \<le> sint n \<Longrightarrow> digit_value (padded_number width n) = nat (sint n)"
  by (simp add: padded_number_def i32_to_units_def)

lemma padded_number_plain:
  assumes "\<not> restarts mode" and "0 \<le> sint start" and "sint start + int row < 2 ^ 31"
  shows "digit_value (padded_number width (row_number start mode compare_text its row)) =
    nat (sint start) + row"
  using assms by (simp add: digit_value_padded row_number_plain sint_add_nat)

section \<open>Imported names\<close>

definition import_names_changed ::
  "legacy_text \<Rightarrow> allocator \<Rightarrow> legacy_list \<Rightarrow> (proposal_mutation_error + usize list) \<times> legacy_list" where
  "import_names_changed input al l =
     try_changed_proposals al
       (\<lambda>lines its row.
          case lines of
            [] \<Rightarrow> and_then (try_build_proposal (al (AtBuild row)) row (length (proposed_name (its ! row)))
                    (proposed_name (its ! row))) (\<lambda>t. Inr (t, []))
          | units # lines \<Rightarrow> and_then (try_build_proposal (al (AtBuild row)) row (length units) units)
                    (\<lambda>t. Inr (t, lines)))
       (take (length (items l)) (trimmed_import_unit_slices input)) l"

definition import_names ::
  "legacy_text \<Rightarrow> allocator \<Rightarrow> legacy_list \<Rightarrow> (proposal_mutation_error + usize) \<times> legacy_list" where
  "import_names input al l =
     (let count = length (take (length (items l)) (trimmed_import_unit_slices input))
      in map_prod (map_sum id (\<lambda>_. count)) id (import_names_changed input al l))"

definition imported_name :: "legacy_text \<Rightarrow> legacy_list_item list \<Rightarrow> usize \<Rightarrow> legacy_text" where
  "imported_name input its row =
     (let lines = trimmed_import_unit_slices input
      in if row < length lines then lines ! row else proposed_name (its ! row))"

interpretation import_names: proposal_command "import_names_changed input" "imported_name input" True
  for input
proof (rule proposal_command_staged
    [where init = "\<lambda>its. take (length its) (trimmed_import_unit_slices input)"
    and J = "\<lambda>its row lines. lines = drop row (take (length its) (trimmed_import_unit_slices input))"
    and p = "\<lambda>al its' lines its row. and_then
          (case lines of
            [] \<Rightarrow> and_then (try_build_proposal (al (AtBuild row)) row (length (proposed_name (its ! row)))
                    (proposed_name (its ! row))) (\<lambda>t. Inr (t, []))
          | units # lines \<Rightarrow> and_then (try_build_proposal (al (AtBuild row)) row (length units) units)
                    (\<lambda>t. Inr (t, lines))) (\<lambda>(t, st'). Inr (Some t, st'))"])
  fix al :: allocator and l :: legacy_list
  let ?lines = "take (length (items l)) (trimmed_import_unit_slices input)"
  have none: "imported_name input (items l) row = proposed_name (items l ! row) \<and> drop (Suc row) ?lines = []"
    if "drop row ?lines = []" "row < length (items l)" for row
    using that by (auto simp: imported_name_def Let_def)
  have some: "imported_name input (items l) row = u \<and> drop (Suc row) ?lines = us"
    if "drop row ?lines = u # us" for row u us
    using that by (auto simp: imported_name_def Let_def drop_eq_Cons_iff)
  show "realises (\<lambda>lines its row. and_then
          (case lines of
            [] \<Rightarrow> and_then (try_build_proposal (al (AtBuild row)) row (length (proposed_name (its ! row)))
                    (proposed_name (its ! row))) (\<lambda>t. Inr (t, []))
          | units # lines \<Rightarrow> and_then (try_build_proposal (al (AtBuild row)) row (length units) units)
                    (\<lambda>t. Inr (t, lines))) (\<lambda>(t, st'). Inr (Some t, st')))
      (\<lambda>row lines. lines = drop row ?lines) (imported_name input (items l)) (items l)"
    unfolding realises_def
  proof (intro allI impI)
    fix row st "next" st'
    assume "row < length (items l)" "st = drop row ?lines"
      and "and_then
          (case st of
            [] \<Rightarrow> and_then (try_build_proposal (al (AtBuild row)) row
                (length (proposed_name (items l ! row))) (proposed_name (items l ! row)))
                (\<lambda>t. Inr (t, []))
          | units # lines \<Rightarrow> and_then (try_build_proposal (al (AtBuild row)) row (length units) units)
                    (\<lambda>t. Inr (t, lines))) (\<lambda>(t, st'). Inr (Some t, st')) = Inr (next, st')"
    with none [of row] some [of row] show "st' = drop (Suc row) ?lines \<and>
      (case next of None \<Rightarrow> imported_name input (items l) row = proposed_name (items l ! row)
       | Some x \<Rightarrow> imported_name input (items l) row = x)"
      by (cases "drop row ?lines") (auto simp: and_then_Inr simp del: drop_eq_Nil drop_take)
  qed
  show "willing (\<lambda>lines its row. and_then
          (case lines of
            [] \<Rightarrow> and_then (try_build_proposal True row (length (proposed_name (its ! row)))
                    (proposed_name (its ! row))) (\<lambda>t. Inr (t, []))
          | units # lines \<Rightarrow> and_then (try_build_proposal True row (length units) units)
                    (\<lambda>t. Inr (t, lines))) (\<lambda>(t, st'). Inr (Some t, st')))
      (\<lambda>row lines. lines = drop row ?lines) (imported_name input (items l)) (items l)"
    unfolding willing_def
  proof (intro allI impI notI)
    fix row st e
    assume "row < length (items l)" "st = drop row ?lines"
      and "length (imported_name input (items l) row) \<le> MAX_PROPOSED_NAME_UTF16_UNITS"
      and "and_then
          (case st of
            [] \<Rightarrow> and_then (try_build_proposal True row
                (length (proposed_name (items l ! row))) (proposed_name (items l ! row)))
                (\<lambda>t. Inr (t, []))
          | units # lines \<Rightarrow> and_then (try_build_proposal True row (length units) units)
                    (\<lambda>t. Inr (t, lines))) (\<lambda>(t, st'). Inr (Some t, st')) = Inl e"
    with none [of row] some [of row] show False
      by (cases "drop row ?lines")
         (auto simp: try_build_proposal_def validate_proposal_units_def simp del: drop_eq_Nil drop_take)
  qed
qed (simp_all add: import_names_changed_def try_changed_proposals_def)

section \<open>One row by hand\<close>

definition set_manual_proposal :: "usize \<Rightarrow> legacy_text \<Rightarrow> legacy_list \<Rightarrow>
    (proposal_mutation_error + bool option) \<times> legacy_list" where
  "set_manual_proposal index name l =
     (if \<not> index < length (items l) then (Inr None, l)
      else
        let current = items l ! index;
            sizes =
              and_then (validate_proposal_units index (length name)) (\<lambda>_.
              and_then (ok_or ArithmeticOverflow
                (Option.bind (checked_sub (proposed_name_utf16_units l) (length (proposed_name current)))
                  (\<lambda>total. checked_add total (length name)))) (\<lambda>total_units.
              if MAX_TOTAL_PROPOSED_NAME_UTF16_UNITS < total_units
              then Inl (AggregateBudgetExceeded total_units MAX_TOTAL_PROPOSED_NAME_UTF16_UNITS)
              else
              and_then (ok_or ArithmeticOverflow (checked_planned_path_units
                (destination_parent current) (length (proposed_name current)))) (\<lambda>current_planned.
              and_then (ok_or ArithmeticOverflow (checked_planned_path_units
                (destination_parent current) (length name))) (\<lambda>next_planned.
              and_then (ok_or ArithmeticOverflow
                (Option.bind (checked_sub (planned_path_utf16_units l) current_planned)
                  (\<lambda>total. checked_add total next_planned))) (\<lambda>planned_path_units.
              if MAX_TOTAL_PLANNED_PATH_UTF16_UNITS < planned_path_units
              then Inl (PlannedPathAggregateBudgetExceeded planned_path_units
                     MAX_TOTAL_PLANNED_PATH_UTF16_UNITS)
              else Inr (total_units, planned_path_units))))))
        in case sizes of
             Inl e \<Rightarrow> (Inl e, l)
           | Inr (total_units, planned_path_units) \<Rightarrow>
               (Inr (Some (proposed_name current \<noteq> name)),
                l\<lparr>items := (items l)[index := current\<lparr>proposed_name := name\<rparr>],
                  proposed_name_utf16_units := total_units,
                  planned_path_utf16_units := planned_path_units\<rparr>))"

definition manual_change :: "usize \<Rightarrow> legacy_text \<Rightarrow> legacy_list \<Rightarrow>
    (proposal_mutation_error + bool) \<times> legacy_list" where
  "manual_change index name l =
     map_prod (map_sum id (\<lambda>changed. changed \<noteq> None)) id (set_manual_proposal index name l)"

definition manual_change_changed :: "usize \<Rightarrow> legacy_text \<Rightarrow> legacy_list \<Rightarrow>
    (proposal_mutation_error + bool) \<times> legacy_list" where
  "manual_change_changed index name l =
     map_prod (map_sum id (\<lambda>changed. changed = Some True)) id (set_manual_proposal index name l)"

definition manual_rows :: "usize \<Rightarrow> bool option \<Rightarrow> usize list" where
  "manual_rows index changed = (if changed = Some True then [index] else [])"

definition manual_target :: "usize \<Rightarrow> legacy_text \<Rightarrow> legacy_list_item list \<Rightarrow> usize \<Rightarrow> legacy_text" where
  "manual_target index name its i = (if i = index then name else proposed_name (its ! i))"

lemma retarget_manual:
  "index < length its \<Longrightarrow>
     retarget (manual_target index name its) its = its[index := (its ! index)\<lparr>proposed_name := name\<rparr>]"
  by (rule nth_equalityI) (auto simp: row_simps manual_target_def nth_list_update)

lemma changed_rows_manual:
  assumes "index < length its"
  shows "changed_rows (manual_target index name its) its =
    manual_rows index (Some (proposed_name (its ! index) \<noteq> name))"
proof -
  have "[0..<length its] = [0..<index] @ index # [Suc index..<length its]"
    using assms upt_add_eq_append [of 0 index "length its - index"] by (simp add: upt_conv_Cons)
  moreover have "filter (\<lambda>i. proposed_name (its ! i) \<noteq> manual_target index name its i) xs = []"
    if "index \<notin> set xs" for xs
    using that by (auto simp: filter_empty_conv manual_target_def)
  ultimately show ?thesis
    unfolding changed_rows_def by (simp add: manual_rows_def) (simp add: manual_target_def)
qed

lemma manual_sizes:
  assumes "wf_list l" and "index < length (items l)"
  shows "name_units ((items l)[index := (items l ! index)\<lparr>proposed_name := name\<rparr>]) +
      length (proposed_name (items l ! index)) = proposed_name_utf16_units l + length name"
    and "path_units ((items l)[index := (items l ! index)\<lparr>proposed_name := name\<rparr>]) +
      item_path_units (items l ! index) =
      planned_path_utf16_units l + planned_units (destination_parent (items l ! index)) (length name)"
    and "length (proposed_name (items l ! index)) \<le> proposed_name_utf16_units l"
    and "item_path_units (items l ! index) \<le> planned_path_utf16_units l"
  using assms
    sum_list_map_update [OF assms(2), of "\<lambda>it. length (proposed_name it)" "(items l ! index)\<lparr>proposed_name := name\<rparr>"]
    sum_list_map_update [OF assms(2), of item_path_units "(items l ! index)\<lparr>proposed_name := name\<rparr>"]
    member_le_sum_list_nth [OF assms(2), of "\<lambda>it. length (proposed_name it)"]
    member_le_sum_list_nth [OF assms(2), of item_path_units]
  by (simp_all add: wf_list_def name_units_def path_units_def item_path_units_def)

text \<open>On a well-formed list the counters decide exactly whether the new list fits.\<close>

lemma set_manual_proposal_eq:
  fixes name :: legacy_text
  assumes wf: "wf_list l" and index: "index < length (items l)"
  defines "its \<equiv> (items l)[index := (items l ! index)\<lparr>proposed_name := name\<rparr>]"
  shows "if within_budget its
    then set_manual_proposal index name l =
      (Inr (Some (proposed_name (items l ! index) \<noteq> name)), commit (manual_target index name (items l)) l)
    else \<exists>e. set_manual_proposal index name l = (Inl e, l)"
proof -
  let ?cur = "items l ! index"
  let ?pl = "planned_units (destination_parent ?cur) (length name)"
  note sizes = manual_sizes(1,2) [OF wf index, of name, folded its_def] manual_sizes(3,4) [OF wf index]
  have total: "path_units (items l) \<le> MAX_TOTAL_PLANNED_PATH_UTF16_UNITS"
      "planned_path_utf16_units l = path_units (items l)"
      "proposed_name_utf16_units l \<le> MAX_TOTAL_PROPOSED_NAME_UTF16_UNITS"
    using wf by (simp_all add: wf_list_def within_budget_def)
  show ?thesis
  proof (cases "length name \<le> MAX_PROPOSED_NAME_UTF16_UNITS")
    case False
    have "name \<in> proposed_name ` set its"
      using set_update_memI [OF index, of "?cur\<lparr>proposed_name := name\<rparr>"]
      unfolding its_def by (force simp: image_iff)
    with False have "\<not> within_budget its" by (auto simp: within_budget_def)
    with False index show ?thesis
      by (simp add: set_manual_proposal_def validate_proposal_units_def Let_def)
  next
    case True
    have "set its \<subseteq> insert (?cur\<lparr>proposed_name := name\<rparr>) (set (items l))"
      unfolding its_def by (rule set_update_subset_insert)
    with True wf have names: "\<forall>it\<in>set its. length (proposed_name it) \<le> MAX_PROPOSED_NAME_UTF16_UNITS"
      by (auto simp: wf_list_def within_budget_def)
    have fits: "within_budget its \<longleftrightarrow>
        name_units its \<le> MAX_TOTAL_PROPOSED_NAME_UTF16_UNITS \<and>
        path_units its \<le> MAX_TOTAL_PLANNED_PATH_UTF16_UNITS"
      using names by (simp add: within_budget_def)
    have pl: "?pl \<le> item_path_units ?cur + 255"
      using True by (simp add: planned_units_def item_path_units_def budget_defs)
    have c: "checked_planned_path_units (destination_parent ?cur) (length (proposed_name ?cur)) =
          Some (item_path_units ?cur)"
        "checked_planned_path_units (destination_parent ?cur) (length name) = Some ?pl"
      using total sizes pl by (simp_all add: item_path_units_def [symmetric] budget_defs)
    have s: "Option.bind (checked_sub (proposed_name_utf16_units l) (length (proposed_name ?cur)))
          (\<lambda>total. checked_add total (length name)) = Some (name_units its)"
        "Option.bind (checked_sub (planned_path_utf16_units l) (item_path_units ?cur))
          (\<lambda>total. checked_add total ?pl) = Some (path_units its)"
      unfolding checked_sub_def checked_add_def
      by (use sizes total pl True in \<open>simp_all add: budget_defs, linarith+\<close>)
    have v: "validate_proposal_units index (length name) = Inr ()"
      using True by simp
    have upd: "l\<lparr>items := its, proposed_name_utf16_units := name_units its,
        planned_path_utf16_units := path_units its\<rparr> = commit (manual_target index name (items l)) l"
      unfolding commit_def retarget_manual [OF index] its_def ..
    show ?thesis
      unfolding fits set_manual_proposal_def Let_def v c s and_then_simps ok_or_simps
        its_def [symmetric]
      using index by (simp add: upd not_le)
  qed
qed

interpretation manual: proposal_command
  "\<lambda>_ l. map_prod (map_sum id (manual_rows index)) id (set_manual_proposal index name l)"
  "manual_target index name" True for index name
proof -
  have cases: "if index < length (items l) \<and> \<not> within_budget (retarget (manual_target index name (items l)) (items l))
    then \<exists>e. set_manual_proposal index name l = (Inl e, l)
    else map_prod (map_sum id (manual_rows index)) id (set_manual_proposal index name l) =
      (Inr (changed_rows (manual_target index name (items l)) (items l)),
       commit (manual_target index name (items l)) l) \<and>
      within_budget (retarget (manual_target index name (items l)) (items l))"
    if wf: "wf_list l" for l :: legacy_list
  proof (cases "index < length (items l)")
    case True
    with set_manual_proposal_eq [OF wf True, of name] show ?thesis
      by (auto simp: retarget_manual changed_rows_manual)
  next
    case False
    with wf commit_idle [OF wf, of "manual_target index name (items l)"]
      retarget_idle [of "items l" "manual_target index name (items l)"]
    show ?thesis
      by (auto simp: set_manual_proposal_def manual_target_def manual_rows_def wf_list_def)
  qed
  show "proposal_command (\<lambda>_ l. map_prod (map_sum id (manual_rows index)) id
      (set_manual_proposal index name l)) (manual_target index name) True"
  proof
    fix l al rows l'
    assume "wf_list l" "map_prod (map_sum id (manual_rows index)) id (set_manual_proposal index name l) = (Inr rows, l')"
    with cases [OF this(1)] show "True \<and> rows = changed_rows (manual_target index name (items l)) (items l) \<and>
        l' = commit (manual_target index name (items l)) l \<and>
        within_budget (retarget (manual_target index name (items l)) (items l))"
      by (auto split: if_splits)
  next
    fix l al e l'
    assume "wf_list l" "map_prod (map_sum id (manual_rows index)) id (set_manual_proposal index name l) = (Inl e, l')"
    with cases [OF this(1)] show "l' = l" by (auto split: if_splits)
  next
    fix l :: legacy_list
    assume "wf_list l" "within_budget (retarget (manual_target index name (items l)) (items l))"
    with cases [OF this(1)] show "\<exists>rows. fst (map_prod (map_sum id (manual_rows index)) id
        (set_manual_proposal index name l)) = Inr rows"
      by auto
  qed
qed

end
