(* ===== verification/Append_Batch.thy ===== *)
theory Append_Batch
  imports Append_Index Numbering_Import
begin

text \<open>
  \<open>LegacyList::append_batch_indexed\<close> and its wrappers
  (\<open>crates/darknamer-core/src/lib.rs\<close>): the index bound to a list, the rebuild when it is
  stale, duplicate detection against the rows present before the batch, the legacy
  reverse-equal order of the accepted rows, and the budget checks that precede every mutation.
  The lemmas show that a valid index never changes the outcome, which rows arrive and in which
  order, and that an error leaves the list as it was.
\<close>

section \<open>The index and its binding\<close>

record append_index =
  model_identity :: "nat option"
  index_revision :: nat
  chunks :: "legacy_text list list"

definition new_index :: append_index where
  "new_index = \<lparr>model_identity = None, index_revision = 0, chunks = []\<rparr>"

definition is_current_for :: "append_index \<Rightarrow> legacy_list \<Rightarrow> bool" where
  "is_current_for ix l \<longleftrightarrow>
     index_revision ix = source_revision l \<and> model_identity ix = Some (identity l)"

definition bind_to :: "append_index \<Rightarrow> legacy_list \<Rightarrow> append_index" where
  "bind_to ix l = ix\<lparr>model_identity := Some (identity l), index_revision := source_revision l\<rparr>"

definition clear_binding :: "append_index \<Rightarrow> append_index" where
  "clear_binding ix = ix\<lparr>model_identity := None, index_revision := 0, chunks := []\<rparr>"

section \<open>The batch\<close>

text \<open>The rebuilt chunks: clones of the sources, sorted, cut into chunks.\<close>

fun clone_sources :: "allocator \<Rightarrow> (nat \<Rightarrow> alloc_site) \<Rightarrow> nat \<Rightarrow> legacy_text list \<Rightarrow>
    proposal_mutation_error + legacy_text list" where
  "clone_sources al site k [] = Inr []"
| "clone_sources al site k (s # ss) =
     and_then (try_clone_text (al (site k)) s) (\<lambda>s.
     and_then (clone_sources al site (k + 1) ss) (\<lambda>ss. Inr (s # ss)))"

definition rebuilt_chunks ::
  "allocator \<Rightarrow> text_comparator \<Rightarrow> append_index \<Rightarrow> legacy_list \<Rightarrow>
     proposal_mutation_error + legacy_text list list option" where
  "rebuilt_chunks al cmp ix l =
     (if is_current_for ix l then Inr None
      else
        and_then (ok_if AllocationFailed (al AtRebuild)) (\<lambda>_.
        and_then (clone_sources al AtRebuildText 0 (map source_path (items l))) (\<lambda>rebuilt.
        and_then (try_chunk_sorted_sources al (stable_sort_by cmp rebuilt)) (\<lambda>cs.
        Inr (Some cs)))))"

fun accept_items :: "allocator \<Rightarrow> (legacy_text \<Rightarrow> bool) \<Rightarrow> legacy_list_item list \<Rightarrow>
    (nat \<times> legacy_list_item) list \<Rightarrow> proposal_mutation_error + (nat \<times> legacy_list_item) list" where
  "accept_items al duplicate [] accepted = Inr accepted"
| "accept_items al duplicate (item # rest) accepted =
     (if duplicate (source_path item) then accept_items al duplicate rest accepted
      else and_then (ok_if AllocationFailed (al (AtAccepted (length accepted)))) (\<lambda>_.
        accept_items al duplicate rest (accepted @ [(length accepted, item)])))"

definition compare_accepted ::
  "text_comparator \<Rightarrow> nat \<times> legacy_list_item \<Rightarrow> nat \<times> legacy_list_item \<Rightarrow> ordering" where
  "compare_accepted cmp left right =
     then_with (cmp (source_path (snd left)) (source_path (snd right))) (cmp_of (fst right) (fst left))"

fun batch_units :: "usize \<Rightarrow> legacy_list_item list \<Rightarrow> usize \<Rightarrow> usize \<Rightarrow>
    proposal_mutation_error + (usize \<times> usize)" where
  "batch_units row [] requested_units requested_planned = Inr (requested_units, requested_planned)"
| "batch_units row (item # rest) requested_units requested_planned =
     and_then (ok_if ArithmeticOverflow (row < USIZE_LIMIT)) (\<lambda>_.
     and_then (validate_proposal_units row (length (proposed_name item))) (\<lambda>_.
     and_then (ok_or ArithmeticOverflow
       (checked_add requested_units (length (proposed_name item)))) (\<lambda>requested_units.
     and_then (ok_or ArithmeticOverflow (checked_planned_path_units
       (destination_parent item) (length (proposed_name item)))) (\<lambda>planned.
     and_then (ok_or ArithmeticOverflow (checked_add requested_planned planned)) (\<lambda>requested_planned.
     batch_units (row + 1) rest requested_units requested_planned)))))"

fun insert_sources :: "allocator \<Rightarrow> text_comparator \<Rightarrow> nat \<Rightarrow> legacy_text list \<Rightarrow>
    legacy_text list list \<Rightarrow> proposal_mutation_error + legacy_text list list" where
  "insert_sources al cmp k [] cs = Inr cs"
| "insert_sources al cmp k (s # ss) cs =
     and_then (try_insert_source al k cs cmp s) (insert_sources al cmp (k + 1) ss)"

text \<open>
  The checks before any mutation: the accepted rows in their final order and the new counters,
  or nothing to append.
\<close>

definition stage_batch ::
  "allocator \<Rightarrow> text_comparator \<Rightarrow> (legacy_text \<Rightarrow> bool) \<Rightarrow> legacy_list \<Rightarrow> legacy_list_item list \<Rightarrow>
     proposal_mutation_error + (legacy_list_item list \<times> usize \<times> usize) option" where
  "stage_batch al cmp duplicate l batch =
     and_then (accept_items al duplicate batch []) (\<lambda>accepted.
     if accepted = [] then Inr None
     else
       let new_rows = map snd (stable_sort_by (compare_accepted cmp) accepted) in
       and_then (batch_units (length (items l)) new_rows (proposed_name_utf16_units l)
         (planned_path_utf16_units l)) (\<lambda>(requested_units, requested_planned).
       if MAX_TOTAL_PROPOSED_NAME_UTF16_UNITS < requested_units
       then Inl (AggregateBudgetExceeded requested_units MAX_TOTAL_PROPOSED_NAME_UTF16_UNITS)
       else if MAX_TOTAL_PLANNED_PATH_UTF16_UNITS < requested_planned
       then Inl (PlannedPathAggregateBudgetExceeded requested_planned MAX_TOTAL_PLANNED_PATH_UTF16_UNITS)
       else
         and_then (ok_if AllocationFailed (al AtSources)) (\<lambda>_.
         and_then (clone_sources al AtSourceText 0 (map source_path new_rows)) (\<lambda>_.
         and_then (ok_if AllocationFailed (al AtItems)) (\<lambda>_.
         Inr (Some (new_rows, requested_units, requested_planned)))))))"

definition append_batch_indexed ::
  "allocator \<Rightarrow> nat \<Rightarrow> text_comparator \<Rightarrow> append_index \<Rightarrow> legacy_list_item list \<Rightarrow> legacy_list \<Rightarrow>
     (proposal_mutation_error + usize) \<times> append_index \<times> legacy_list" where
  "append_batch_indexed al fresh cmp ix batch l =
     (case rebuilt_chunks al cmp ix l of
        Inl e \<Rightarrow> (Inl e, ix, l)
      | Inr rebuilt \<Rightarrow>
          let lookup = (case rebuilt of None \<Rightarrow> chunks ix | Some cs \<Rightarrow> cs);
              duplicate = source_chunks_contain lookup cmp
          in case stage_batch al cmp duplicate l batch of
               Inl e \<Rightarrow> (Inl e, ix, l)
             | Inr None \<Rightarrow>
                 (Inr 0, (case rebuilt of None \<Rightarrow> ix | Some cs \<Rightarrow> bind_to (ix\<lparr>chunks := cs\<rparr>) l), l)
             | Inr (Some (new_rows, requested_units, requested_planned)) \<Rightarrow>
                 case insert_sources al cmp 0 (map source_path new_rows) lookup of
                   Inl e \<Rightarrow> (Inl e, clear_binding (ix\<lparr>chunks := lookup\<rparr>), l)
                 | Inr cs \<Rightarrow>
                     let l' = invalidate_source_index fresh l;
                         l' = l'\<lparr>items := items l' @ new_rows,
                                proposed_name_utf16_units := requested_units,
                                planned_path_utf16_units := requested_planned\<rparr>
                     in (Inr (length new_rows), bind_to (ix\<lparr>chunks := cs\<rparr>) l', l'))"

definition append_indexed ::
  "allocator \<Rightarrow> nat \<Rightarrow> text_comparator \<Rightarrow> append_index \<Rightarrow> legacy_list_item \<Rightarrow> legacy_list \<Rightarrow>
     (proposal_mutation_error + bool) \<times> append_index \<times> legacy_list" where
  "append_indexed al fresh cmp ix item l =
     map_prod (map_sum id (\<lambda>appended. appended \<noteq> 0)) id (append_batch_indexed al fresh cmp ix [item] l)"

definition append_batch_by ::
  "allocator \<Rightarrow> nat \<Rightarrow> text_comparator \<Rightarrow> legacy_list_item list \<Rightarrow> legacy_list \<Rightarrow>
     (proposal_mutation_error + usize) \<times> legacy_list" where
  "append_batch_by al fresh cmp batch l =
     (case append_batch_indexed al fresh cmp new_index batch l of (r, ix, l') \<Rightarrow> (r, l'))"

definition append_by ::
  "allocator \<Rightarrow> nat \<Rightarrow> text_comparator \<Rightarrow> legacy_list_item \<Rightarrow> legacy_list \<Rightarrow>
     (proposal_mutation_error + bool) \<times> legacy_list" where
  "append_by al fresh cmp item l =
     (case append_indexed al fresh cmp new_index item l of (r, ix, l') \<Rightarrow> (r, l'))"

section \<open>Lemmas on the stages\<close>

lemma clone_sources_Inr: "clone_sources al site k ss = Inr ss' \<Longrightarrow> ss' = ss"
  by (induction ss arbitrary: k ss') (auto simp: and_then_Inr)

lemma clone_sources_ok: "clone_sources (\<lambda>_. True) site k ss = Inr ss"
  by (induction ss arbitrary: k) (auto simp: try_clone_text_def)

lemma accept_items_Inr:
  "accept_items al dup batch accepted = Inr r \<Longrightarrow>
     r = accepted @ enumerate (length accepted) (filter (\<lambda>it. \<not> dup (source_path it)) batch)"
  by (induction al dup batch accepted rule: accept_items.induct)
     (auto simp: and_then_Inr split: if_splits)

lemma accept_items_ok:
  "accept_items (\<lambda>_. True) dup batch accepted =
     Inr (accepted @ enumerate (length accepted) (filter (\<lambda>it. \<not> dup (source_path it)) batch))"
  by (induction "\<lambda>_::alloc_site. True" dup batch accepted rule: accept_items.induct) simp_all

lemma batch_units_Inr:
  "batch_units row its u p = Inr (u', p') \<Longrightarrow>
     u' = u + name_units its \<and> p' = p + path_units its \<and>
     (\<forall>it\<in>set its. length (proposed_name it) \<le> MAX_PROPOSED_NAME_UTF16_UNITS)"
  by (induction its arbitrary: row u p)
     (fastforce simp: and_then_Inr counter_simps item_path_units_def)+

lemma batch_units_ok:
  assumes "u + name_units its < USIZE_LIMIT" and "p + path_units its < USIZE_LIMIT"
    and "row + length its < USIZE_LIMIT"
    and "\<forall>it\<in>set its. length (proposed_name it) \<le> MAX_PROPOSED_NAME_UTF16_UNITS"
  shows "batch_units row its u p = Inr (u + name_units its, p + path_units its)"
  using assms
proof (induction its arbitrary: row u p)
  case (Cons it its)
  have "checked_add u (length (proposed_name it)) = Some (u + length (proposed_name it))"
    "checked_planned_path_units (destination_parent it) (length (proposed_name it)) = Some (item_path_units it)"
    "checked_add p (item_path_units it) = Some (p + item_path_units it)"
    "validate_proposal_units row (length (proposed_name it)) = Inr ()"
    using Cons.prems by (simp_all add: counter_simps item_path_units_def)
  then show ?case
    using Cons.IH [of "u + length (proposed_name it)" "p + item_path_units it" "row + 1"] Cons.prems
    by (simp add: counter_simps del: checked_add_Some checked_planned_path_units_Some validate_proposal_units_Inr)
qed (simp add: counter_simps)

section \<open>The reverse-equal order\<close>

text \<open>
  Sorting with the descending position as a tie break is a stable sort of the reversed batch.
\<close>

context total_cmp
begin

lemma sorted_unique:
  assumes "mset xs = mset ys" and "sorted_wrt (\<lambda>a b. cmp a b \<noteq> Greater) xs"
    and "sorted_wrt (\<lambda>a b. cmp a b \<noteq> Greater) ys"
    and "\<And>a b. a \<in> set xs \<Longrightarrow> b \<in> set xs \<Longrightarrow> cmp a b = Equal \<Longrightarrow> a = b"
  shows "xs = ys"
  using assms
proof (induction xs arbitrary: ys)
  case (Cons x xs)
  then obtain y ys' where ys: "ys = y # ys'" by (cases ys) auto
  have sets: "set (x # xs) = set (y # ys')" using Cons.prems(1) ys by (metis mset_eq_setD)
  have "x = y"
  proof (rule ccontr)
    assume ne: "x \<noteq> y"
    with sets have "y \<in> set xs" "x \<in> set ys'" by auto
    with Cons.prems(2,3) ys have "cmp x y \<noteq> Greater" "cmp y x \<noteq> Greater" by auto
    then have "cmp x y = Equal" using equal_iff by blast
    with Cons.prems(4) [of x y] \<open>y \<in> set xs\<close> ne show False by simp
  qed
  moreover have "xs = ys'"
    by (rule Cons.IH) (use Cons.prems ys \<open>x = y\<close> in auto)
  ultimately show ?case by (simp add: ys)
qed simp

end

context text_order
begin

lemma insert_by_tie:
  assumes "\<forall>y\<in>set ys. fst y < fst x"
  shows "insert_by (compare_accepted cmp) x ys =
    insert_by (\<lambda>a b. cmp (source_path (snd a)) (source_path (snd b))) x ys"
  using assms by (induction ys) (auto simp: compare_accepted_def then_with_simps)

lemma compare_accepted_total: "total_cmp (compare_accepted cmp)"
proof
  show "compare_accepted cmp y x = reverse_ordering (compare_accepted cmp x y)" for x y
    using swap [of "source_path (snd y)" "source_path (snd x)"]
    by (cases "cmp (source_path (snd x)) (source_path (snd y))"; cases rule: linorder_cases [of "fst x" "fst y"])
       (auto simp: compare_accepted_def cmp_of_def)
  fix x y z
  let ?c = "\<lambda>a b. cmp (source_path (snd a)) (source_path (snd b))"
  assume a: "compare_accepted cmp x y \<noteq> Greater" "compare_accepted cmp y z \<noteq> Greater"
  then have le: "?c x y \<noteq> Greater" "?c y z \<noteq> Greater"
    by (auto simp: compare_accepted_def then_with_simps)
  then have "?c x z \<noteq> Greater" by (rule trans)
  moreover have "\<not> fst x < fst z" if "?c x z = Equal"
  proof -
    have "?c x y = Equal" "?c y z = Equal"
      using that le by (metis equal_cong_right equal_iff equal_sym trans)+
    with a show ?thesis by (auto simp: compare_accepted_def then_with_simps)
  qed
  ultimately show "compare_accepted cmp x z \<noteq> Greater"
    by (auto simp: compare_accepted_def then_with_simps)
qed

lemma reverse_equal_order:
  "map snd (stable_sort_by (compare_accepted cmp) (enumerate 0 xs)) =
     stable_sort_by (\<lambda>a b. cmp (source_path a) (source_path b)) (rev xs)"
proof -
  let ?pc = "\<lambda>a b. cmp (source_path (snd a)) (source_path (snd b))"
  let ?t = "enumerate 0 xs"
  have tie: "sorted_wrt (\<lambda>a b. fst b < fst a) ys \<Longrightarrow>
      stable_sort_by (compare_accepted cmp) ys = stable_sort_by ?pc ys" for ys
  proof (induction ys)
    case (Cons y ys)
    have "set (stable_sort_by ?pc ys) = set ys" by (metis mset_eq_setD mset_stable_sort_by)
    with Cons show ?case by (simp add: insert_by_tie)
  qed simp
  have desc: "sorted_wrt (\<lambda>a b. fst b < fst a) (rev ?t)"
    by (simp only: sorted_wrt_rev) (simp add: sorted_wrt_iff_nth_less nth_enumerate_eq)
  note srt = total_cmp.sorted_stable_sort_by [OF compare_accepted_total]
  have "stable_sort_by (compare_accepted cmp) ?t = stable_sort_by (compare_accepted cmp) (rev ?t)"
  proof (rule total_cmp.sorted_unique [OF compare_accepted_total _ srt srt])
    fix a b assume "a \<in> set (stable_sort_by (compare_accepted cmp) ?t)"
      "b \<in> set (stable_sort_by (compare_accepted cmp) ?t)" "compare_accepted cmp a b = Equal"
    moreover have "set (stable_sort_by (compare_accepted cmp) ?t) = set ?t"
      by (metis mset_eq_setD mset_stable_sort_by)
    ultimately have "a \<in> set ?t" "b \<in> set ?t" "fst a = fst b"
      by (auto simp: compare_accepted_def then_with_simps)
    then show "a = b" by (auto simp: in_set_enumerate_eq prod_eq_iff)
  qed simp
  also have "\<dots> = stable_sort_by ?pc (rev ?t)" by (rule tie [OF desc])
  finally show ?thesis
    using map_stable_sort_by [of snd "\<lambda>a b. cmp (source_path a) (source_path b)" "rev ?t"]
    by (simp flip: rev_map)
qed

end

section \<open>What an append does\<close>

definition duplicate_of :: "text_comparator \<Rightarrow> legacy_list \<Rightarrow> legacy_list_item \<Rightarrow> bool" where
  "duplicate_of cmp l it \<longleftrightarrow>
     (\<exists>row\<in>set (items l). cmp (source_path row) (source_path it) = Equal)"

definition appended_rows ::
  "text_comparator \<Rightarrow> legacy_list \<Rightarrow> legacy_list_item list \<Rightarrow> legacy_list_item list" where
  "appended_rows cmp l batch =
     stable_sort_by (\<lambda>a b. cmp (source_path a) (source_path b))
       (rev (filter (\<lambda>it. \<not> duplicate_of cmp l it) batch))"

definition appended :: "nat \<Rightarrow> legacy_list \<Rightarrow> legacy_list_item list \<Rightarrow> legacy_list" where
  "appended fresh l new_rows =
     (if new_rows = [] then l
      else (invalidate_source_index fresh l)
        \<lparr>items := items l @ new_rows,
         proposed_name_utf16_units := proposed_name_utf16_units l + name_units new_rows,
         planned_path_utf16_units := planned_path_utf16_units l + path_units new_rows\<rparr>)"

definition index_valid :: "text_comparator \<Rightarrow> append_index \<Rightarrow> legacy_list \<Rightarrow> bool" where
  "index_valid cmp ix l \<longleftrightarrow> (is_current_for ix l \<longrightarrow>
     chunk_inv cmp (chunks ix) \<and> mset (concat (chunks ix)) = mset (map source_path (items l)))"

lemma index_valid_new: "index_valid cmp new_index l"
  by (simp add: index_valid_def is_current_for_def new_index_def)

lemma index_valid_cleared: "index_valid cmp (clear_binding ix) l"
  by (simp add: index_valid_def is_current_for_def clear_binding_def)

lemma length_le_path_units: "length its \<le> path_units its"
proof (induction its)
  case (Cons it its)
  have "1 \<le> item_path_units it"
    by (cases "destination_parent it")
       (simp_all add: item_path_units_def planned_units_def destination_separator_units_def)
  with Cons show ?case by (simp add: counter_simps)
qed simp

context text_order
begin

lemma rebuilt_lookup:
  assumes "rebuilt_chunks al cmp ix l = Inr rebuilt" and "index_valid cmp ix l"
  defines "lookup \<equiv> (case rebuilt of None \<Rightarrow> chunks ix | Some cs \<Rightarrow> cs)"
  shows "chunk_inv cmp lookup" and "mset (concat lookup) = mset (map source_path (items l))"
proof -
  have "chunk_inv cmp lookup \<and> mset (concat lookup) = mset (map source_path (items l))"
  proof (cases rebuilt)
    case None
    with assms show ?thesis
      by (auto simp: rebuilt_chunks_def index_valid_def and_then_Inr split: if_splits)
  next
    case (Some cs)
    with assms(1) obtain rs where rs: "clone_sources al AtRebuildText 0 (map source_path (items l)) = Inr rs"
      and cs: "try_chunk_sorted_sources al (stable_sort_by cmp rs) = Inr cs"
      by (auto simp: rebuilt_chunks_def and_then_Inr split: if_splits)
    from try_chunk_sorted_sources_inv [OF cs sorted_stable_sort_by] clone_sources_Inr [OF rs]
    show ?thesis by (simp add: lookup_def Some)
  qed
  then show "chunk_inv cmp lookup" "mset (concat lookup) = mset (map source_path (items l))" by auto
qed

lemma lookup_duplicate:
  assumes "chunk_inv cmp cs" and "mset (concat cs) = mset (map source_path (items l))"
  shows "source_chunks_contain cs cmp (source_path it) \<longleftrightarrow> duplicate_of cmp l it"
proof -
  have "set (concat cs) = source_path ` set (items l)"
    using assms(2) by (metis list.set_map mset_eq_setD)
  then show ?thesis by (auto simp: contains_iff [OF assms(1)] duplicate_of_def)
qed

lemma stage_batch_Inr:
  assumes "stage_batch al cmp duplicate l batch = Inr r"
    and "\<And>it. duplicate (source_path it) \<longleftrightarrow> duplicate_of cmp l it"
  shows "(case r of
      None \<Rightarrow> appended_rows cmp l batch = []
    | Some (new_rows, u, p) \<Rightarrow> new_rows = appended_rows cmp l batch \<and> new_rows \<noteq> [] \<and>
        u = proposed_name_utf16_units l + name_units new_rows \<and>
        p = planned_path_utf16_units l + path_units new_rows \<and>
        (wf_list l \<longrightarrow> within_budget (items l @ new_rows)))"
proof -
  let ?acc = "filter (\<lambda>it. \<not> duplicate_of cmp l it) batch"
  from assms(1) obtain acc where a: "accept_items al duplicate batch [] = Inr acc"
    by (auto simp: stage_batch_def and_then_Inr)
  have acc: "acc = enumerate 0 ?acc" using accept_items_Inr [OF a] by (simp add: assms(2))
  have rows: "map snd (stable_sort_by (compare_accepted cmp) acc) = appended_rows cmp l batch"
    unfolding acc reverse_equal_order appended_rows_def ..
  have empty: "acc = [] \<longleftrightarrow> appended_rows cmp l batch = []"
    unfolding rows [symmetric] by (metis length_0_conv length_map length_stable_sort_by)
  show ?thesis
  proof (cases "acc = []")
    case True
    with assms(1) a empty show ?thesis by (simp add: stage_batch_def)
  next
    case False
    let ?rows = "appended_rows cmp l batch"
    from False assms(1) a obtain u p where
      b: "batch_units (length (items l)) ?rows (proposed_name_utf16_units l) (planned_path_utf16_units l) = Inr (u, p)"
      and le: "u \<le> MAX_TOTAL_PROPOSED_NAME_UTF16_UNITS" "p \<le> MAX_TOTAL_PLANNED_PATH_UTF16_UNITS"
      and r: "r = Some (?rows, u, p)"
      by (auto simp: stage_batch_def Let_def rows and_then_Inr split: if_splits prod.splits)
    from batch_units_Inr [OF b] le False empty show ?thesis
      by (auto simp: r wf_list_def within_budget_def counter_simps)
  qed
qed

lemma stage_batch_ok:
  assumes "wf_list l" and "\<And>it. duplicate (source_path it) \<longleftrightarrow> duplicate_of cmp l it"
    and "within_budget (items l @ appended_rows cmp l batch)"
  shows "\<exists>r. stage_batch (\<lambda>_. True) cmp duplicate l batch = Inr r"
proof -
  let ?acc = "filter (\<lambda>it. \<not> duplicate_of cmp l it) batch"
  let ?rows = "appended_rows cmp l batch"
  have a: "accept_items (\<lambda>_. True) duplicate batch [] = Inr (enumerate 0 ?acc)"
    by (simp add: accept_items_ok assms(2))
  have rows: "map snd (stable_sort_by (compare_accepted cmp) (enumerate 0 ?acc)) = ?rows"
    unfolding reverse_equal_order appended_rows_def ..
  have b: "name_units (items l) + name_units ?rows \<le> MAX_TOTAL_PROPOSED_NAME_UTF16_UNITS"
    "path_units (items l) + path_units ?rows \<le> MAX_TOTAL_PLANNED_PATH_UTF16_UNITS"
    "\<forall>it\<in>set ?rows. length (proposed_name it) \<le> MAX_PROPOSED_NAME_UTF16_UNITS"
    using assms(3) by (auto simp: within_budget_def counter_simps)
  have "length (items l) + length ?rows \<le> path_units (items l) + path_units ?rows"
    by (intro add_mono length_le_path_units)
  then have "batch_units (length (items l)) ?rows (name_units (items l)) (path_units (items l)) =
      Inr (name_units (items l) + name_units ?rows, path_units (items l) + path_units ?rows)"
    using b by (intro batch_units_ok) (auto simp: budget_defs)
  then show ?thesis
    using b assms(1)
    by (simp add: stage_batch_def a rows wf_list_def clone_sources_ok not_less [symmetric] Let_def)
qed

lemma insert_sources_inv:
  "insert_sources al cmp k ss cs = Inr cs' \<Longrightarrow> chunk_inv cmp cs \<Longrightarrow>
     chunk_inv cmp cs' \<and> mset (concat cs') = mset (concat cs) + mset ss"
proof (induction ss arbitrary: k cs)
  case (Cons s ss)
  then obtain cs1 where "try_insert_source al k cs cmp s = Inr cs1"
    "insert_sources al cmp (k + 1) ss cs1 = Inr cs'"
    by (auto simp: and_then_Inr)
  with Cons.IH try_insert_source_inv [OF Cons.prems(2) this(1)] show ?case by fastforce
qed simp

lemma try_insert_source_ok: "\<exists>cs'. try_insert_source (\<lambda>_. True) k cs cmp s = Inr cs'"
  by (simp add: try_insert_source_def Let_def split: prod.split)

lemma insert_sources_ok: "\<exists>cs'. insert_sources (\<lambda>_. True) cmp k ss cs = Inr cs'"
proof (induction ss arbitrary: k cs)
  case (Cons s ss)
  from try_insert_source_ok [of k cs s] obtain cs1 where
    "try_insert_source (\<lambda>_. True) k cs cmp s = Inr cs1" ..
  with Cons.IH show ?case by simp
qed simp

text \<open>The outcome on any list, for every valid index and every pattern of failing reservations.\<close>

lemma append_batch_any:
  assumes valid: "index_valid cmp ix l"
    and r: "append_batch_indexed al fresh cmp ix batch l = (res, ix', l')"
  shows "index_valid cmp ix' l' \<and>
    (case res of
       Inl e \<Rightarrow> l' = l
     | Inr n \<Rightarrow> n = length (appended_rows cmp l batch) \<and> is_current_for ix' l' \<and>
         l' = appended fresh l (appended_rows cmp l batch) \<and>
         (wf_list l \<longrightarrow> within_budget (items l @ appended_rows cmp l batch)))"
proof (cases "rebuilt_chunks al cmp ix l")
  case (Inl e)
  with r valid show ?thesis by (auto simp: append_batch_indexed_def)
next
  case (Inr rebuilt)
  define lookup where "lookup = (case rebuilt of None \<Rightarrow> chunks ix | Some cs \<Rightarrow> cs)"
  note lk = rebuilt_lookup [OF Inr valid, folded lookup_def]
  let ?dup = "source_chunks_contain lookup cmp"
  have dup: "?dup (source_path it) \<longleftrightarrow> duplicate_of cmp l it" for it
    by (rule lookup_duplicate [OF lk])
  show ?thesis
  proof (cases "stage_batch al cmp ?dup l batch")
    case (Inl e)
    with r Inr valid show ?thesis by (auto simp: append_batch_indexed_def lookup_def)
  next
    case st: (Inr staged)
    note spec = stage_batch_Inr [OF st dup]
    show ?thesis
    proof (cases staged)
      case None
      have idx: "ix' = (case rebuilt of None \<Rightarrow> ix | Some cs \<Rightarrow> bind_to (ix\<lparr>chunks := cs\<rparr>) l)"
        and res: "res = Inr 0" "l' = l"
        using r Inr st None by (auto simp: append_batch_indexed_def lookup_def)
      have "is_current_for ix' l \<and> chunk_inv cmp (chunks ix') \<and>
          mset (concat (chunks ix')) = mset (map source_path (items l))"
        using lk Inr by (cases rebuilt)
          (auto simp: idx lookup_def bind_to_def is_current_for_def rebuilt_chunks_def and_then_Inr
            split: if_splits)
      with res spec None show ?thesis
        by (simp add: index_valid_def appended_def wf_list_def)
    next
      case (Some t)
      then obtain new u p where t: "staged = Some (new, u, p)" by (cases t) auto
      with spec have new: "new = appended_rows cmp l batch" "new \<noteq> []"
        and units: "u = proposed_name_utf16_units l + name_units new"
          "p = planned_path_utf16_units l + path_units new"
        and fit: "wf_list l \<longrightarrow> within_budget (items l @ new)" by auto
      show ?thesis
      proof (cases "insert_sources al cmp 0 (map source_path new) lookup")
        case (Inl e)
        with r Inr st t show ?thesis
          by (auto simp: append_batch_indexed_def lookup_def index_valid_cleared)
      next
        case ins: (Inr cs)
        have out: "l' = appended fresh l new" "res = Inr (length new)"
            "ix' = bind_to (ix\<lparr>chunks := cs\<rparr>) l'"
          using r Inr st t ins new(2) units
          by (auto simp: append_batch_indexed_def lookup_def appended_def Let_def)
        have "items l' = items l @ new" using new(2) by (simp add: out(1) appended_def)
        with insert_sources_inv [OF ins lk(1)] lk(2) fit new show ?thesis
          unfolding index_valid_def out(2,3) by (simp add: out(1) bind_to_def is_current_for_def)
      qed
    qed
  qed
qed

lemma append_batch_outcome:
  assumes "wf_list l" and "index_valid cmp ix l"
    and "append_batch_indexed al fresh cmp ix batch l = (res, ix', l')"
  shows "index_valid cmp ix' l' \<and>
    (case res of
       Inl e \<Rightarrow> l' = l
     | Inr n \<Rightarrow> n = length (appended_rows cmp l batch) \<and> is_current_for ix' l' \<and>
         l' = appended fresh l (appended_rows cmp l batch) \<and>
         within_budget (items l @ appended_rows cmp l batch))"
  using append_batch_any [OF assms(2,3)] assms(1) by (cases res) auto

end

context text_order
begin

lemma rebuilt_chunks_ok: "\<exists>r. rebuilt_chunks (\<lambda>_. True) cmp ix l = Inr r"
  using chunk_sources_ok
  by (auto simp: rebuilt_chunks_def clone_sources_ok try_chunk_sorted_sources_def and_then_Inr)

text \<open>With memory available, a batch that fits is appended.\<close>

lemma append_batch_ok:
  assumes wf: "wf_list l" and valid: "index_valid cmp ix l"
    and fit: "within_budget (items l @ appended_rows cmp l batch)"
  shows "\<exists>n. fst (append_batch_indexed (\<lambda>_. True) fresh cmp ix batch l) = Inr n"
proof -
  obtain rebuilt where rb: "rebuilt_chunks (\<lambda>_. True) cmp ix l = Inr rebuilt"
    using rebuilt_chunks_ok by blast
  define lookup where "lookup = (case rebuilt of None \<Rightarrow> chunks ix | Some cs \<Rightarrow> cs)"
  note lk = rebuilt_lookup [OF rb valid, folded lookup_def]
  have dup: "source_chunks_contain lookup cmp (source_path it) \<longleftrightarrow> duplicate_of cmp l it" for it
    by (rule lookup_duplicate [OF lk])
  obtain st where st: "stage_batch (\<lambda>_. True) cmp (source_chunks_contain lookup cmp) l batch = Inr st"
    using stage_batch_ok [OF wf dup fit] by blast
  show ?thesis
  proof (cases st)
    case None
    with rb st show ?thesis by (simp add: append_batch_indexed_def lookup_def)
  next
    case (Some t)
    then obtain new u p where t: "st = Some (new, u, p)" by (cases t) auto
    obtain cs where "insert_sources (\<lambda>_. True) cmp 0 (map source_path new) lookup = Inr cs"
      using insert_sources_ok by blast
    with rb st t show ?thesis by (simp add: append_batch_indexed_def lookup_def Let_def)
  qed
qed

end

lemma wf_appended:
  "wf_list l \<Longrightarrow> within_budget (items l @ new_rows) \<Longrightarrow> wf_list (appended fresh l new_rows)"
  by (simp add: appended_def wf_list_def counter_simps)

interpretation ci_order: text_order "case_insensitive_cmp to_lowercase" for to_lowercase
  by unfold_locales

end
