(* ===== verification/List_Machine.thy ===== *)
theory List_Machine
  imports Append_Batch
begin

text \<open>
  The public operations of \<open>LegacyList\<close> as one machine: \<open>proposal_op\<close> names the proposal
  commands, \<open>run_op\<close> runs one, and \<open>list_step\<close> is a step of a list with its append index under
  any operation with any arguments. The contract of the commands is interpreted once for \<open>run_op\<close>;
  what they do to a list whose counters are not exact is shown beside it; the invariant of the
  machine is proved by rule induction.
\<close>

section \<open>The proposal commands\<close>

datatype proposal_op =
    ResetProposals
  | ReplaceComplete legacy_text legacy_text
  | PrefixComplete legacy_text
  | SuffixBeforeExtension legacy_text
  | ClearName
  | DeleteFrontRange usize usize
  | DeleteLast usize
  | DeleteFirstDelimited legacy_text legacy_text
  | KeepAsciiDigits
  | PadLastDigitRun usize
  | PadFirstDigitRun usize
  | AddSequence usize i32 legacy_sequence_mode text_comparator
  | DeleteExtension
  | AddExtension legacy_text
  | ReplaceExtension legacy_text
  | PrefixParentFolder
  | SuffixParentFolder
  | ImportNames legacy_text
  | ManualChange usize legacy_text

definition always_ok ::
  "(legacy_list \<Rightarrow> usize list \<times> legacy_list) \<Rightarrow> legacy_list \<Rightarrow> (legacy_input_error + usize list) \<times> legacy_list" where
  "always_ok cmd l = map_prod Inr id (cmd l)"

definition with_input_error ::
  "(legacy_list \<Rightarrow> (legacy_input_error + usize list) \<times> legacy_list) \<Rightarrow> allocator \<Rightarrow> legacy_list \<Rightarrow>
     (proposal_mutation_error + usize list) \<times> legacy_list" where
  "with_input_error cmd al l = map_prod (map_sum InvalidInput id) id (cmd l)"

fun run_op :: "proposal_op \<Rightarrow> allocator \<Rightarrow> legacy_list \<Rightarrow>
    (proposal_mutation_error + usize list) \<times> legacy_list" where
  "run_op ResetProposals = reset_proposals_changed"
| "run_op (ReplaceComplete a b) = replace_complete_changed a b"
| "run_op (PrefixComplete t) = prefix_complete_changed t"
| "run_op (SuffixBeforeExtension t) = suffix_before_extension_changed t"
| "run_op ClearName = with_input_error (always_ok clear_name_changed)"
| "run_op (DeleteFrontRange a b) = with_input_error (delete_front_range_changed a b)"
| "run_op (DeleteLast n) = with_input_error (always_ok (delete_last_changed n))"
| "run_op (DeleteFirstDelimited a b) = with_input_error (delete_first_delimited_changed a b)"
| "run_op KeepAsciiDigits = with_input_error (always_ok keep_ascii_digits_changed)"
| "run_op (PadLastDigitRun w) = pad_last_digit_run_changed w"
| "run_op (PadFirstDigitRun w) = pad_first_digit_run_changed w"
| "run_op (AddSequence w s m c) = add_sequence_by_changed w s m c"
| "run_op DeleteExtension = with_input_error (always_ok delete_extension_changed)"
| "run_op (AddExtension t) = add_extension_changed t"
| "run_op (ReplaceExtension t) = replace_extension_changed t"
| "run_op PrefixParentFolder = prefix_parent_folder_changed"
| "run_op SuffixParentFolder = suffix_parent_folder_changed"
| "run_op (ImportNames t) = import_names_changed t"
| "run_op (ManualChange i t) =
     (\<lambda>al l. map_prod (map_sum id (manual_rows i)) id (set_manual_proposal i t l))"

text \<open>The name a command proposes for row \<open>i\<close>, and when its arguments are acceptable.\<close>

fun op_target :: "proposal_op \<Rightarrow> legacy_list_item list \<Rightarrow> usize \<Rightarrow> legacy_text" where
  "op_target ResetProposals its i = current_name (its ! i)"
| "op_target (ReplaceComplete a b) its i = replace_all a b (proposed_name (its ! i))"
| "op_target (PrefixComplete t) its i = t @ proposed_name (its ! i)"
| "op_target (SuffixBeforeExtension t) its i =
     (if t = [] then proposed_name (its ! i) else stem_of (its ! i) @ t @ extension_of (its ! i))"
| "op_target ClearName its i = extension_of (its ! i)"
| "op_target (DeleteFrontRange a b) its i = front_range_removed a b (its ! i)"
| "op_target (DeleteLast n) its i = last_removed n (its ! i)"
| "op_target (DeleteFirstDelimited a b) its i = delimited_removed (hd a) (hd b) (its ! i)"
| "op_target KeepAsciiDigits its i = filter is_ascii_digit (stem_of (its ! i)) @ extension_of (its ! i)"
| "op_target (PadLastDigitRun w) its i = padded_name last_digit_run w (its ! i)"
| "op_target (PadFirstDigitRun w) its i = padded_name first_digit_run w (its ! i)"
| "op_target (AddSequence w s m c) its i = numbered_name w s m c its i"
| "op_target DeleteExtension its i = stem_of (its ! i)"
| "op_target (AddExtension t) its i = proposed_name (its ! i) @ normalized_extension t"
| "op_target (ReplaceExtension t) its i =
     (if t = [] then proposed_name (its ! i) else stem_of (its ! i) @ normalized_extension t)"
| "op_target PrefixParentFolder its i = folder_prefixed (its ! i)"
| "op_target SuffixParentFolder its i = folder_suffixed (its ! i)"
| "op_target (ImportNames t) its i = imported_name t its i"
| "op_target (ManualChange k t) its i = manual_target k t its i"

fun op_admissible :: "proposal_op \<Rightarrow> bool" where
  "op_admissible (DeleteFrontRange a b) = (b = 0 \<or> a \<le> b)"
| "op_admissible (DeleteFirstDelimited a b) = (a \<noteq> [] \<and> b \<noteq> [])"
| "op_admissible (PadLastDigitRun w) = (0 < w \<and> w \<le> MAX_PROPOSED_NAME_UTF16_UNITS)"
| "op_admissible (PadFirstDigitRun w) = (0 < w \<and> w \<le> MAX_PROPOSED_NAME_UTF16_UNITS)"
| "op_admissible (AddSequence w s m c) = (0 < w \<and> w \<le> MAX_PROPOSED_NAME_UTF16_UNITS)"
| "op_admissible (AddExtension t) = extension_fits t"
| "op_admissible (ReplaceExtension t) = extension_fits t"
| "op_admissible _ = True"

lemma with_input_error_command:
  assumes "proposal_command (\<lambda>_ :: allocator. cmd) target admissible"
  shows "proposal_command (with_input_error cmd) target admissible"
proof -
  note c = assms [unfolded proposal_command_def]
  have r: "with_input_error cmd al l = (Inr rows, l') \<longleftrightarrow> cmd l = (Inr rows, l')" for al l rows l'
    by (cases "cmd l"; cases "fst (cmd l)") (auto simp: with_input_error_def)
  have e: "with_input_error cmd al l = (Inl e, l') \<longleftrightarrow> (\<exists>e'. e = InvalidInput e' \<and> cmd l = (Inl e', l'))"
    for al l e l'
    by (cases "cmd l"; cases "fst (cmd l)") (auto simp: with_input_error_def)
  show ?thesis
  proof
    fix l al rows l' assume "wf_list l" "with_input_error cmd al l = (Inr rows, l')"
    then show "admissible \<and> rows = changed_rows (target (items l)) (items l) \<and>
        l' = commit (target (items l)) l \<and> within_budget (retarget (target (items l)) (items l))"
      unfolding r by (rule proposal_command.applied [OF assms])
  next
    fix l al e l' assume "wf_list l" "with_input_error cmd al l = (Inl e, l')"
    then show "l' = l" unfolding e using proposal_command.refused [OF assms] by blast
  next
    fix l assume "wf_list l" "admissible" "within_budget (retarget (target (items l)) (items l))"
    from proposal_command.accepts [OF assms this] obtain rows where "fst (cmd l) = Inr rows" ..
    then show "\<exists>rows. fst (with_input_error cmd (\<lambda>_. True) l) = Inr rows"
      by (cases "cmd l") (simp add: with_input_error_def)
  qed
qed

lemmas command_contracts =
  reset_proposals.proposal_command_axioms replace_complete.proposal_command_axioms
  prefix_complete.proposal_command_axioms suffix_before_extension.proposal_command_axioms
  pad_last.proposal_command_axioms pad_first.proposal_command_axioms
  add_sequence.proposal_command_axioms add_extension.proposal_command_axioms
  replace_extension.proposal_command_axioms prefix_parent_folder.proposal_command_axioms
  suffix_parent_folder.proposal_command_axioms import_names.proposal_command_axioms
  manual.proposal_command_axioms

lemmas shrinking_contracts =
  clear_name.proposal_command_axioms
  delete_last.proposal_command_axioms
  keep_digits.proposal_command_axioms
  delete_extension.proposal_command_axioms
  delete_front_range.proposal_command_axioms delete_first_delimited.proposal_command_axioms

interpretation op: proposal_command "run_op c" "op_target c" "op_admissible c" for c
  by (cases c; hypsubst;
      simp only: run_op.simps [abs_def] op_admissible.simps op_target.simps [abs_def] always_ok_def [abs_def];
      (rule command_contracts | (rule with_input_error_command, rule shrinking_contracts)))

section \<open>Operations on any list\<close>

text \<open>
  \<open>record_move_success\<close> does not adjust the path counter, so the invariant must not rest on it:
  these lemmas say what the operations keep of a list with any counters.
\<close>

definition name_exact :: "legacy_list \<Rightarrow> bool" where
  "name_exact l \<longleftrightarrow> proposed_name_utf16_units l = name_units (items l)"

definition keeps :: "legacy_list \<Rightarrow> legacy_list \<Rightarrow> bool" where
  "keeps l l' \<longleftrightarrow> mset (map source_path (items l')) = mset (map source_path (items l)) \<and>
     identity l' = identity l \<and> source_revision l' = source_revision l \<and> (name_exact l \<longrightarrow> name_exact l')"

named_theorems keeping

lemma wf_name_exact: "wf_list l \<Longrightarrow> name_exact l"
  by (simp add: wf_list_def name_exact_def)

lemma keeps_refl [keeping]: "keeps l l"
  by (simp add: keeps_def)

lemma keeps_mset:
  assumes "mset its = mset (items l)"
  shows "keeps l (l\<lparr>items := its\<rparr>)"
proof -
  have "name_units its = name_units (items l)"
    unfolding name_units_def by (metis assms mset_map sum_mset_sum_list)
  with assms show ?thesis by (simp add: keeps_def name_exact_def)
qed

lemma keeps_commit [keeping]: "keeps l (commit t l)"
proof -
  have "map source_path (retarget t (items l)) = map source_path (items l)"
    by (rule nth_equalityI) (simp_all add: row_simps)
  then show ?thesis unfolding keeps_def by (simp add: name_exact_def commit_def)
qed

lemma keeps_changed_proposals [keeping]: "keeps l (snd (changed_proposals f l))"
  by (simp add: changed_proposals_def Let_def keeps_def name_exact_def name_units_def comp_def)

text \<open>A staged update that succeeds leaves exact counters, whatever the closure and the counters before.\<close>

fun captured :: "'s proposal_fn \<Rightarrow> legacy_list_item list \<Rightarrow> 's \<Rightarrow> usize \<Rightarrow> 's" where
  "captured proposal its st 0 = st"
| "captured proposal its st (Suc row) =
     (case proposal (captured proposal its st row) its row of
        Inl e \<Rightarrow> captured proposal its st row
      | Inr (next, st') \<Rightarrow> st')"

lemma staged_any:
  assumes "try_changed_proposals_optional al proposal st l = (r, l')"
  shows "(isl r \<and> l' = l) \<or> (\<not> isl r \<and> wf_list l' \<and> (\<exists>t. l' = commit t l))"
proof (cases r)
  case (Inl e)
  with assms show ?thesis by (auto dest: try_changed_proposals_optional_Inl)
next
  case (Inr rows)
  let ?st = "captured proposal (items l) st"
  let ?t = "\<lambda>row. case proposal (?st row) (items l) row of
    Inr (Some t, _) \<Rightarrow> t | _ \<Rightarrow> proposed_name (items l ! row)"
  have "realises proposal (\<lambda>row s. s = ?st row) ?t (items l)"
    by (auto simp: realises_def split: option.splits)
  from try_changed_proposals_optional_Inr [OF this _ assms [unfolded Inr]] Inr show ?thesis by auto
qed

lemma keeps_staged [keeping]: "keeps l (snd (try_changed_proposals_optional al proposal st l))"
  using staged_any [OF prod.collapse [symmetric], of al proposal st l] keeping by metis

lemma keeps_staged_total [keeping]: "keeps l (snd (try_changed_proposals al proposal st l))"
  unfolding try_changed_proposals_def by (rule keeps_staged)

lemma manual_any:
  "snd (set_manual_proposal index name l) = l \<or>
   index < length (items l) \<and> length (proposed_name (items l ! index)) \<le> proposed_name_utf16_units l \<and>
   (\<exists>tp. snd (set_manual_proposal index name l) =
      l\<lparr>items := (items l)[index := (items l ! index)\<lparr>proposed_name := name\<rparr>],
        proposed_name_utf16_units := proposed_name_utf16_units l - length (proposed_name (items l ! index)) + length name,
        planned_path_utf16_units := tp\<rparr>)"
  unfolding set_manual_proposal_def Let_def
  by (auto simp: and_then_Inr if_Inl_eq_Inr bind_eq_Some_conv split: sum.split)

lemma keeps_manual [keeping]: "keeps l (snd (set_manual_proposal index name l))"
  using manual_any [of index name l]
proof (elim disjE conjE exE)
  let ?its = "(items l)[index := (items l ! index)\<lparr>proposed_name := name\<rparr>]"
  fix tp
  assume index: "index < length (items l)"
    and le: "length (proposed_name (items l ! index)) \<le> proposed_name_utf16_units l"
    and l': "snd (set_manual_proposal index name l) = l\<lparr>items := ?its,
      proposed_name_utf16_units := proposed_name_utf16_units l - length (proposed_name (items l ! index)) + length name,
      planned_path_utf16_units := tp\<rparr>"
  have "map source_path ?its = map source_path (items l)"
    using index by (intro nth_equalityI) (auto simp: nth_list_update)
  moreover have "name_units ?its + length (proposed_name (items l ! index)) = name_units (items l) + length name"
    using sum_list_map_update [OF index, of "\<lambda>it. length (proposed_name it)"
        "(items l ! index)\<lparr>proposed_name := name\<rparr>"] by (simp add: name_units_def)
  ultimately show ?thesis using le unfolding l' by (auto simp: keeps_def name_exact_def)
qed (simp add: keeps_refl)

lemma keeps_run_op: "keeps l (snd (run_op c al l))"
  by (cases c)
    (auto simp: with_input_error_def always_ok_def keeping
      reset_proposals_changed_def replace_complete_changed_def prefix_complete_changed_def
      suffix_before_extension_changed_def clear_name_changed_def delete_front_range_changed_def
      delete_last_changed_def delete_first_delimited_changed_def keep_ascii_digits_changed_def
      pad_last_digit_run_changed_def pad_first_digit_run_changed_def pad_digit_run_changed_def
      add_sequence_by_changed_def delete_extension_changed_def add_extension_changed_def
      replace_extension_changed_def prefix_parent_folder_changed_def suffix_parent_folder_changed_def
      import_names_changed_def Let_def split: list.split sum.split option.split)

text \<open>The commands that stage every row repair the counters of any list when they succeed.\<close>

fun repairs :: "proposal_op \<Rightarrow> bool" where
  "repairs ResetProposals = True"
| "repairs (ReplaceComplete a b) = True"
| "repairs PrefixParentFolder = True"
| "repairs SuffixParentFolder = True"
| "repairs (ImportNames t) = True"
| "repairs _ = False"

lemma staged_repairs:
  "try_changed_proposals_optional al proposal st l = (r, l') \<Longrightarrow> \<not> isl r \<Longrightarrow> wf_list l'"
  "try_changed_proposals al proposal' st l = (r, l') \<Longrightarrow> \<not> isl r \<Longrightarrow> wf_list l'"
  unfolding try_changed_proposals_def by (auto dest!: staged_any)

lemma run_op_repairs: "repairs c \<Longrightarrow> run_op c al l = (r, l') \<Longrightarrow> \<not> isl r \<Longrightarrow> wf_list l'"
  by (cases c) (auto simp: reset_proposals_changed_def replace_complete_changed_def
    prefix_parent_folder_changed_def suffix_parent_folder_changed_def import_names_changed_def
    dest: staged_repairs)

lemma keeps_earlier: "keeps l (snd (move_rows_earlier_changed rows l))"
proof (cases "normalized_indices rows (length (items l)) \<noteq> [] \<and> hd (normalized_indices rows (length (items l))) = 0")
  case False
  note bound = normalized_not_first [OF False]
  have "keeps l (l\<lparr>items := fold (\<lambda>i xs. swap_at xs (i - 1) i) (normalized_indices rows (length (items l))) (items l)\<rparr>)"
    by (rule keeps_mset, rule mset_fold_swap) (use bound in fastforce)
  then show ?thesis unfolding move_rows_earlier_changed_def Let_def if_not_P [OF False] by simp
qed (simp add: move_rows_earlier_changed_def keeps_refl)

lemma keeps_later: "keeps l (snd (move_rows_later_changed rows l))"
proof (cases "normalized_indices rows (length (items l)) \<noteq> [] \<and>
    last (normalized_indices rows (length (items l))) + 1 = length (items l)")
  case False
  have "keeps l (l\<lparr>items := fold (\<lambda>i xs. swap_at xs i (i + 1))
      (rev (normalized_indices rows (length (items l)))) (items l)\<rparr>)"
    by (rule keeps_mset, rule mset_fold_swap) (use normalized_not_last [OF False] in fastforce)
  then show ?thesis unfolding move_rows_later_changed_def Let_def if_not_P [OF False] by simp
qed (simp add: move_rows_later_changed_def Let_def keeps_refl)

lemma keeps_sort: "keeps l (snd (sort_by_with_semantics_changed mode sem compare_text l))"
proof -
  have "mset (items (snd (sort_by_with_semantics_changed mode sem compare_text l))) = mset (items l)"
    by (simp add: sort_rows_eq)
  from keeps_mset [OF this] show ?thesis
    by (simp add: keeps_def name_exact_def sort_other_fields)
qed

lemma keeps_parents:
  assumes "map source_path its = map source_path (items l)" and "map proposed_name its = map proposed_name (items l)"
  shows "keeps l (l\<lparr>items := its, planned_path_utf16_units := p\<rparr>)"
proof -
  have "map (\<lambda>it. length (proposed_name it)) its = map (\<lambda>it. length (proposed_name it)) (items l)"
    using arg_cong [OF assms(2), of "map length"] by (simp add: comp_def)
  with assms(1) show ?thesis by (simp add: keeps_def name_exact_def name_units_def)
qed

lemma keeps_unify: "keeps l (snd (unify_destination_parent_changed parent al l))"
  by (auto simp: unify_destination_parent_changed_def Let_def keeps_refl comp_def
      split: sum.split prod.split intro!: keeps_parents)

lemma keeps_reset_parents: "keeps l (snd (reset_destination_parents al l))"
proof (cases "snd (reset_destination_parents al l) = l")
  case False
  then obtain p changed staged where
    st: "stage_parents al 0 (items l) [] 0 [] [] = Inr (changed, staged)"
    and l': "snd (reset_destination_parents al l) =
      l\<lparr>items := map2 (\<lambda>item parent. item\<lparr>destination_parent := parent\<rparr>) (items l) staged,
        planned_path_utf16_units := p\<rparr>"
    by (auto simp: reset_destination_parents_def Let_def and_then_def ok_if_def split: sum.splits if_splits)
  have "length staged = length (items l)" using stage_parents_Inr [OF st] by simp
  then show ?thesis unfolding l' by (intro keeps_parents; intro nth_equalityI) simp_all
qed (simp add: keeps_refl)

text \<open>Removal and a recorded move keep the name counter exact on any list.\<close>

lemma retain_rows_names:
  assumes "sorted_wrt (<) selected" and "\<forall>i\<in>set selected. row \<le> i"
  shows "\<exists>kept u' p'. retain_rows selected row its u p = (kept, u', p') \<and>
    u' + name_units kept = u + name_units its"
  using assms
proof (induction its arbitrary: selected row u p)
  case (Cons it its)
  show ?case
  proof (cases "selected \<noteq> [] \<and> hd selected = row")
    case True
    then obtain sel where "selected = row # sel" by (cases selected) auto
    with Cons.prems Cons.IH [of sel "row + 1" "u + length (proposed_name it)"] show ?thesis
      by (fastforce simp: counter_simps Suc_le_eq)
  next
    case False
    then have "\<forall>i\<in>set selected. row + 1 \<le> i" using Cons.prems by (cases selected) fastforce+
    from Cons.IH [OF Cons.prems(1) this, of u p] obtain kept u' p' where
      "retain_rows selected (row + 1) its u p = (kept, u', p')" "u' + name_units kept = u + name_units its"
      by blast
    then show ?thesis
      unfolding retain_rows.simps if_not_P [OF False] by (simp add: counter_simps)
  qed
qed (simp add: counter_simps)

lemma remove_rows_names: "name_exact l \<Longrightarrow> name_exact (snd (remove_rows rows fresh l))"
  using retain_rows_names [OF normalized_strict, of rows "length (items l)" 0 "items l" 0 0]
  by (auto simp: remove_rows_def Let_def name_exact_def invalidate_source_index_def)

lemma record_move_names:
  assumes "name_exact l"
  shows "name_exact (snd (record_move_success i fresh l))"
proof (cases "i < length (items l)")
  case True
  obtain it where it: "items (snd (record_move_success i fresh l)) = (items l)[i := it]"
    "proposed_name_utf16_units (snd (record_move_success i fresh l)) =
       wrapping_sub (proposed_name_utf16_units l) (length (proposed_name (items l ! i))) + length (proposed_name it)"
    using True by (simp add: record_move_success_def Let_def)
  have "length (proposed_name (items l ! i)) \<le> name_units (items l)"
    using member_le_sum_list_nth [OF True, of "\<lambda>it. length (proposed_name it)"] by (simp add: name_units_def)
  with assms sum_list_map_update [OF True, of "\<lambda>it. length (proposed_name it)" it] show ?thesis
    unfolding name_exact_def it by (simp add: name_units_def)
qed (simp add: record_move_success_def assms)

section \<open>The machine\<close>

text \<open>
  A list with one append index under the comparator \<open>cmp\<close>, and a flag that says whether the path
  counter is known to be exact. The operations have no precondition but that fresh addresses are
  different from every address in use. \<open>record_move_success\<close> keeps the flag only for a row in
  regular form, a parent in normal form and a name without a backslash, as the planner requires of
  a move; clearing the list and each accepted command that stages every row set it again.
\<close>

definition regular_move :: "legacy_list_item \<Rightarrow> bool" where
  "regular_move item \<longleftrightarrow> normal_parent (destination_parent item) \<and> BACKSLASH \<notin> set (proposed_name item)"

type_synonym machine = "legacy_list \<times> append_index \<times> bool"

inductive list_step :: "text_comparator \<Rightarrow> machine \<Rightarrow> machine \<Rightarrow> bool"
  for cmp where
  proposal: "run_op c al l = (r, l') \<Longrightarrow>
    list_step cmp (l, ix, exact) (l', ix, exact \<or> repairs c \<and> \<not> isl r)"
| append: "append_batch_indexed al fresh cmp ix batch l = (r, ix', l') \<Longrightarrow>
    fresh \<noteq> identity l \<Longrightarrow> list_step cmp (l, ix, exact) (l', ix', exact)"
| remove: "snd (remove_rows rows fresh l) = l' \<Longrightarrow> fresh \<noteq> identity l \<Longrightarrow>
    model_identity ix \<noteq> Some fresh \<Longrightarrow> list_step cmp (l, ix, exact) (l', ix, exact)"
| clear: "snd (clear_list fresh l) = l' \<Longrightarrow> fresh \<noteq> identity l \<Longrightarrow>
    model_identity ix \<noteq> Some fresh \<Longrightarrow> list_step cmp (l, ix, exact) (l', ix, True)"
| earlier: "snd (move_rows_earlier_changed rows l) = l' \<Longrightarrow> list_step cmp (l, ix, exact) (l', ix, exact)"
| later: "snd (move_rows_later_changed rows l) = l' \<Longrightarrow> list_step cmp (l, ix, exact) (l', ix, exact)"
| sort: "snd (sort_by_with_semantics_changed mode sem compare_text l) = l' \<Longrightarrow>
    list_step cmp (l, ix, exact) (l', ix, exact)"
| unify: "snd (unify_destination_parent_changed parent al l) = l' \<Longrightarrow>
    list_step cmp (l, ix, exact) (l', ix, exact)"
| reset_parents: "snd (reset_destination_parents al l) = l' \<Longrightarrow>
    list_step cmp (l, ix, exact) (l', ix, exact)"
| moved: "snd (record_move_success i fresh l) = l' \<Longrightarrow> fresh \<noteq> identity l \<Longrightarrow>
    model_identity ix \<noteq> Some fresh \<Longrightarrow>
    list_step cmp (l, ix, exact) (l', ix, exact \<and> (i < length (items l) \<longrightarrow> regular_move (items l ! i)))"
| clone: "clone_list fresh l = l' \<Longrightarrow> fresh \<noteq> identity l \<Longrightarrow> model_identity ix \<noteq> Some fresh \<Longrightarrow>
    list_step cmp (l, ix, exact) (l', ix, exact)"

inductive_cases list_stepE: "list_step cmp s s'"

inductive list_reachable :: "text_comparator \<Rightarrow> machine \<Rightarrow> bool"
  for cmp where
  start: "list_reachable cmp (new_list fresh, new_index, True)"
| step: "list_reachable cmp s \<Longrightarrow> list_step cmp s s' \<Longrightarrow> list_reachable cmp s'"

definition index_ok :: "text_comparator \<Rightarrow> append_index \<Rightarrow> legacy_list \<Rightarrow> bool" where
  "index_ok cmp ix l \<longleftrightarrow> index_valid cmp ix l \<and>
     (model_identity ix = Some (identity l) \<longrightarrow> index_revision ix \<le> source_revision l)"

definition machine_inv :: "text_comparator \<Rightarrow> machine \<Rightarrow> bool" where
  "machine_inv cmp = (\<lambda>(l, ix, exact). name_exact l \<and> (exact \<longrightarrow> wf_list l) \<and> index_ok cmp ix l)"

text \<open>An operation keeps a valid index valid if it keeps the sources and the binding, ...\<close>

lemma index_kept: "index_ok cmp ix l \<Longrightarrow> keeps l l' \<Longrightarrow> index_ok cmp ix l'"
  by (auto simp: keeps_def index_ok_def index_valid_def is_current_for_def)

lemma machine_kept:
  assumes "machine_inv cmp (l, ix, exact)" and "keeps l l'" and "exact' \<Longrightarrow> \<not> exact \<Longrightarrow> wf_list l'"
    and "wf_list l \<Longrightarrow> wf_list l'"
  shows "machine_inv cmp (l', ix, exact')"
  using assms index_kept [of cmp ix l l'] by (auto simp: machine_inv_def keeps_def)

text \<open>... or if it retires the binding.\<close>

lemma index_retired:
  assumes "index_ok cmp ix l" and "model_identity ix \<noteq> Some fresh"
    and "identity l' = identity (invalidate_source_index fresh l)"
    and "source_revision l' = source_revision (invalidate_source_index fresh l)"
  shows "index_ok cmp ix l'"
  using assms
  by (auto simp: index_ok_def index_valid_def is_current_for_def invalidate_source_index_def
      split: if_splits)

lemma remove_rows_binding:
  "snd (remove_rows rows fresh l) = l \<or>
   identity (snd (remove_rows rows fresh l)) = identity (invalidate_source_index fresh l) \<and>
   source_revision (snd (remove_rows rows fresh l)) = source_revision (invalidate_source_index fresh l)"
  by (auto simp: remove_rows_def Let_def invalidate_source_index_def split: prod.split)

lemma clear_list_binding:
  "snd (clear_list fresh l) = l\<lparr>items := [], proposed_name_utf16_units := 0, planned_path_utf16_units := 0\<rparr> \<and>
     items l = [] \<or>
   identity (snd (clear_list fresh l)) = identity (invalidate_source_index fresh l) \<and>
   source_revision (snd (clear_list fresh l)) = source_revision (invalidate_source_index fresh l)"
  by (auto simp: clear_list_def Let_def invalidate_source_index_def)

lemma record_move_binding:
  "snd (record_move_success i fresh l) = l \<or>
   identity (snd (record_move_success i fresh l)) = identity (invalidate_source_index fresh l) \<and>
   source_revision (snd (record_move_success i fresh l)) = source_revision (invalidate_source_index fresh l)"
  by (simp add: record_move_success_def Let_def invalidate_source_index_def)

lemma machine_retired:
  assumes "machine_inv cmp (l, ix, exact)" and "model_identity ix \<noteq> Some fresh"
    and "l' = l \<or> identity l' = identity (invalidate_source_index fresh l) \<and>
      source_revision l' = source_revision (invalidate_source_index fresh l)"
    and "name_exact l \<Longrightarrow> name_exact l'" and "exact' \<Longrightarrow> exact" and "exact' \<Longrightarrow> wf_list l \<Longrightarrow> wf_list l'"
  shows "machine_inv cmp (l', ix, exact')"
  using assms index_retired [of cmp ix l fresh l'] by (auto simp: machine_inv_def)

lemma move_rows_earlier_wf: "wf_list l \<Longrightarrow> wf_list (snd (move_rows_earlier_changed rows l))"
  using move_rows_earlier_spec(1) by (metis prod.collapse)

lemma list_step_inv:
  assumes cmp: "text_order cmp" and "list_step cmp s s'" and "machine_inv cmp s"
  shows "machine_inv cmp s'"
  using assms(2,3)
proof (induction rule: list_step.induct)
  case (proposal c al l r l' ix exact)
  show ?case
    by (rule machine_kept [OF proposal.prems])
      (use keeps_run_op [of l c al] op.preserves_wf [of l c al] run_op_repairs [OF _ proposal.hyps] proposal.hyps in auto)
next
  case (append al fresh ix batch l r ix' l' exact)
  then have inv: "name_exact l" "exact \<longrightarrow> wf_list l" and valid: "index_valid cmp ix l"
    by (simp_all add: machine_inv_def index_ok_def)
  note out = text_order.append_batch_any [OF cmp valid append.hyps(1)]
  show ?case
  proof (cases r)
    case (Inl e)
    with out append.hyps(1) append.prems show ?thesis
      by (auto simp: machine_inv_def index_ok_def append_batch_indexed_def clear_binding_def Let_def
          split: sum.splits option.splits)
  next
    case (Inr n)
    with out inv wf_appended [of l "appended_rows cmp l batch" fresh] show ?thesis
      by (auto simp: machine_inv_def index_ok_def is_current_for_def name_exact_def appended_def counter_simps)
  qed
next
  case (remove rows fresh l l' ix exact)
  show ?case
    by (rule machine_retired [OF remove.prems remove.hyps(3)])
      (use remove_rows_binding [of rows fresh l] remove_rows_names [of l rows fresh]
        remove_rows_eq(3) [of l rows fresh] remove.hyps(1) in auto)
next
  case (clear fresh l l' ix exact)
  then have wf: "wf_list l'" using wf_clear [of fresh l] by simp
  from clear have "index_ok cmp ix l" by (simp add: machine_inv_def)
  then have "index_ok cmp ix l'"
    using clear_list_binding [of fresh l] index_retired [OF _ clear.hyps(3), of cmp l l'] clear.hyps(1)
    by (auto simp: index_ok_def index_valid_def is_current_for_def)
  with wf show ?case by (simp add: machine_inv_def wf_name_exact)
next
  case (earlier rows l l' ix exact)
  show ?case
    by (rule machine_kept [OF earlier.prems])
       (use keeps_earlier [of l rows] move_rows_earlier_wf [of l rows] earlier.hyps in auto)
next
  case (later rows l l' ix exact)
  show ?case
    by (rule machine_kept [OF later.prems])
       (use keeps_later [of l rows] move_rows_later_wf(1) [of l rows] later.hyps in auto)
next
  case (sort mode sem compare_text l l' ix exact)
  show ?case
    by (rule machine_kept [OF sort.prems])
       (use keeps_sort [of l mode sem compare_text] sort_preserves_wf [of l mode sem compare_text] sort.hyps in auto)
next
  case (unify parent al l l' ix exact)
  show ?case
    by (rule machine_kept [OF unify.prems])
       (use keeps_unify [of l parent al] unify.preserves_wf [of l parent al] unify.hyps in auto)
next
  case (reset_parents al l l' ix exact)
  show ?case
    by (rule machine_kept [OF reset_parents.prems])
       (use keeps_reset_parents [of l al] reset_parents.preserves_wf [of l al] reset_parents.hyps in auto)
next
  case (moved i fresh l l' ix exact)
  have "wf_list l'" if "wf_list l" "i < length (items l) \<longrightarrow> regular_move (items l ! i)"
  proof (cases "i < length (items l)")
    case True
    with that record_move_success_spec(1) [OF that(1) True, of fresh] moved.hyps(1) show ?thesis
      by (simp add: regular_move_def)
  next
    case False
    with that(1) moved.hyps(1) show ?thesis by (auto simp: record_move_success_def)
  qed
  then show ?case
    by (intro machine_retired [OF moved.prems moved.hyps(3)])
      (use record_move_binding [of i fresh l] record_move_names [of l i fresh] moved.hyps(1) in auto)
next
  case (clone fresh l l' ix exact)
  then show ?case
    by (auto simp: machine_inv_def index_ok_def clone_list_def wf_list_def name_exact_def index_valid_def
        is_current_for_def)
qed

lemma list_reachable_inv:
  assumes "text_order cmp" and "list_reachable cmp s"
  shows "machine_inv cmp s"
  using assms(2)
proof (induction rule: list_reachable.induct)
  case (start fresh)
  then show ?case
    using wf_new_list [of fresh] index_valid_new
    by (simp add: machine_inv_def index_ok_def wf_name_exact) (simp add: new_index_def)
next
  case (step s s')
  then show ?case using list_step_inv [OF assms(1)] by blast
qed

end
