(* ===== verification/List_Claims.thy ===== *)
theory List_Claims
  imports List_Machine
begin

text \<open>
  What the list of \<open>darknamer-core\<close> guarantees: the machine invariant, the contract of the
  proposal commands, batch appends with the cached index, sorting, row moves, recorded moves,
  destination parents, and the round trips of the text commands. Each property is one theorem
  with the claim in front of it; witnesses run the definitions on a concrete list.
\<close>

text \<open>A small list for the witnesses: files \<open>C:\a\b.t\<close> and \<open>C:\a\a.t\<close>.\<close>

definition sample_path :: "u16 \<Rightarrow> legacy_text" where
  "sample_path u = [67, COLON, BACKSLASH, 97, BACKSLASH, u, DOT, 116]"

definition sample_item :: "u16 \<Rightarrow> legacy_list_item" where
  "sample_item u = new_item (sample_path u) False 1 0 0"

definition sample_list :: legacy_list where
  "sample_list = appended 1 (new_list 0) [sample_item 97, sample_item 98]"

abbreviation plain_cmp :: text_comparator where
  "plain_cmp \<equiv> case_insensitive_cmp (\<lambda>c. [c])"

lemma plain_cmp_order: "text_order plain_cmp"
  by (rule ci_order.text_order_axioms)

lemma sample_item_eq:
  "u \<noteq> BACKSLASH \<Longrightarrow> sample_item u =
     \<lparr>source_path = sample_path u, current_name = [u, DOT, 116], proposed_name = [u, DOT, 116],
      destination_parent = [67, COLON, BACKSLASH, 97], is_directory = False, file_size = 1,
      actual_size = 1, created = 0, modified = 0\<rparr>"
  by (simp add: sample_item_def sample_path_def new_item_def new_with_actual_size_def path_name_def
      path_root_def source_parent_units_def rposition_def)

lemma sample_fields:
  "u \<noteq> BACKSLASH \<Longrightarrow> proposed_name (sample_item u) = [u, DOT, 116]"
  "u \<noteq> BACKSLASH \<Longrightarrow> destination_parent (sample_item u) = [67, COLON, BACKSLASH, 97]"
  "is_directory (sample_item u) = False"
  by (simp_all add: sample_item_eq) (simp add: sample_item_def new_item_def new_with_actual_size_def)

lemma sample_stem:
  "u \<noteq> BACKSLASH \<Longrightarrow> u \<noteq> DOT \<Longrightarrow> stem_extension_units (sample_item u) = ([u], [DOT, 116])"
  by (simp add: sample_item_eq stem_extension_units_def rposition_def Let_def)

lemma sample_list_eq:
  "sample_list = \<lparr>items = [sample_item 97, sample_item 98], proposed_name_utf16_units = 6,
     planned_path_utf16_units = 16, identity = 0, source_revision = 1\<rparr>"
  by (simp add: sample_list_def appended_def new_list_def invalidate_source_index_def counter_simps
      item_path_units_def planned_units_def destination_separator_units_def is_path_separator_def
      sample_item_eq)

lemma sample_items [simp]: "items sample_list = [sample_item 97, sample_item 98]"
  by (simp add: sample_list_eq)

lemma sample_wf: "wf_list sample_list"
  by (simp add: sample_list_eq wf_list_def within_budget_def counter_simps item_path_units_def
      planned_units_def destination_separator_units_def is_path_separator_def sample_item_eq budget_defs)

text \<open>Appending the two files to an empty list gives the sample list and a current index.\<close>

lemma plain_cmp_slices: "plain_cmp a b = cmp_slices a b"
  by (simp add: case_insensitive_cmp_def lowercase_units_identity del: lowercase_units.simps)

lemma source_sample [simp]: "source_path (sample_item u) = sample_path u"
  by (simp add: sample_item_def new_item_def new_with_actual_size_def)

abbreviation sample_append :: "(proposal_mutation_error + usize) \<times> append_index \<times> legacy_list" where
  "sample_append \<equiv> append_batch_indexed (\<lambda>_. True) 1 plain_cmp new_index
     [sample_item 98, sample_item 97] (new_list 0)"

lemma sample_appended_rows:
  "appended_rows plain_cmp (new_list 0) [sample_item 98, sample_item 97] = [sample_item 97, sample_item 98]"
  by (simp add: appended_rows_def duplicate_of_def new_list_def plain_cmp_slices sample_path_def cmp_of_def)

lemma sample_append_eq:
  obtains ix where "sample_append = (Inr 2, ix, sample_list)" "is_current_for ix sample_list"
proof -
  have fit: "within_budget (items (new_list 0) @
      appended_rows plain_cmp (new_list 0) [sample_item 98, sample_item 97])"
    unfolding sample_appended_rows using sample_wf
    by (simp add: wf_list_def sample_list_eq new_list_def)
  obtain r ix l where o: "sample_append = (r, ix, l)" by (metis prod_cases3)
  with ci_order.append_batch_ok [OF wf_new_list index_valid_new fit] have "\<not> isl r"
    by (metis fst_conv isl_def sum.distinct(1))
  with ci_order.append_batch_outcome [OF wf_new_list index_valid_new o] have
    "r = Inr 2" "is_current_for ix l" "l = sample_list"
    by (auto simp: isl_def sample_appended_rows sample_list_def split: sum.splits)
  with o that show ?thesis by simp
qed

section \<open>The machine\<close>

text \<open>
  C26: whatever operations with whatever arguments run on a list and its append index, the name
  counter is the exact sum of the proposed names, and an index that claims to be current answers
  membership exactly. The path counter is the exact sum too, and every budget holds, as long as each
  recorded move was of a row whose destination parent is in normal form and whose name has no
  backslash, or after such a move the list was cleared or a command that stages every row was accepted.
\<close>

theorem list_machine_invariant:
  assumes "text_order cmp" and "list_reachable cmp (l, ix, exact)"
  shows "proposed_name_utf16_units l = name_units (items l) \<and> (exact \<longrightarrow> wf_list l) \<and>
    (is_current_for ix l \<longrightarrow>
      (\<forall>s. source_chunks_contain (chunks ix) cmp s \<longleftrightarrow>
        (\<exists>row\<in>set (items l). cmp (source_path row) s = Equal)))"
proof -
  have inv: "machine_inv cmp (l, ix, exact)" by (rule list_reachable_inv [OF assms])
  have "source_chunks_contain (chunks ix) cmp s \<longleftrightarrow>
      (\<exists>row\<in>set (items l). cmp (source_path row) s = Equal)" if "is_current_for ix l" for s
  proof -
    have c: "chunk_inv cmp (chunks ix)" "mset (concat (chunks ix)) = mset (map source_path (items l))"
      using inv that by (auto simp: machine_inv_def index_ok_def index_valid_def)
    have "set (concat (chunks ix)) = source_path ` set (items l)"
      using c(2) by (metis list.set_map mset_eq_setD)
    then show ?thesis by (auto simp: text_order.contains_iff [OF assms(1) c(1)])
  qed
  with inv show ?thesis by (simp add: machine_inv_def name_exact_def)
qed

text \<open>The witness: the sample files are appended, and a recorded move of one of them is regular.\<close>

lemma sample_normal: "u \<noteq> BACKSLASH \<Longrightarrow> regular_move (sample_item u)"
  by (simp add: regular_move_def sample_fields normal_parent_def is_path_separator_def)

theorem list_machine_invariant_witness:
  "wf_list (snd (record_move_success 1 9 sample_list)) \<and>
   (case sample_append of (r, ix, l) \<Rightarrow> source_chunks_contain (chunks ix) plain_cmp (sample_path 98))"
proof -
  obtain ix where a: "sample_append = (Inr 2, ix, sample_list)" "is_current_for ix sample_list"
    by (rule sample_append_eq)
  have "list_step plain_cmp (new_list 0, new_index, True) (sample_list, ix, True)"
    using a(1) by (rule list_step.append) (simp add: new_list_def)
  then have start: "list_reachable plain_cmp (sample_list, ix, True)"
    by (rule list_reachable.step [OF list_reachable.start])
  from a(2) have "model_identity ix \<noteq> Some 9" by (simp add: is_current_for_def sample_list_eq)
  from list_step.moved [OF refl _ this, of sample_list plain_cmp True 1]
  have "list_step plain_cmp (sample_list, ix, True) (snd (record_move_success 1 9 sample_list), ix, True)"
    by (simp add: sample_list_eq sample_normal)
  from list_machine_invariant [OF plain_cmp_order list_reachable.step [OF start this]]
    list_machine_invariant [OF plain_cmp_order start] a(2) sample_items show ?thesis
    unfolding a(1) by simp
qed

section \<open>Proposal commands\<close>

text \<open>
  C27: a proposal command either fails and leaves the list as it was, or gives every row the name
  its specification asks for, changes nothing else of the rows, reports exactly the rows whose
  name changed, and keeps the list well formed.
\<close>

theorem proposal_command_outcome:
  assumes "wf_list l"
  shows "case run_op c al l of
      (Inl e, l') \<Rightarrow> l' = l
    | (Inr rows, l') \<Rightarrow> wf_list l' \<and> op_admissible c \<and>
        items l' = map (\<lambda>i. (items l ! i)\<lparr>proposed_name := op_target c (items l) i\<rparr>) [0..<length (items l)] \<and>
        rows = filter (\<lambda>i. items l' ! i \<noteq> items l ! i) [0..<length (items l)]"
proof (rule op.outcome [OF assms, of c al], goal_cases)
  case 1
  then show ?case
    by (auto simp: retarget_def changed_rows_def update_name_idle intro!: filter_cong)
next
  case (2 e)
  then show ?case by simp
qed

lemma sample_run:
  assumes "op_admissible c" and "within_budget (retarget (op_target c (items sample_list)) (items sample_list))"
  obtains rows l' where "run_op c (\<lambda>_. True) sample_list = (Inr rows, l')"
  using op.accepts [OF sample_wf assms] by (cases "run_op c (\<lambda>_. True) sample_list") auto

lemmas sample_fits = retarget_def upt_rec within_budget_def counter_simps item_path_units_def
  planned_units_def destination_separator_units_def is_path_separator_def sample_fields sample_stem budget_defs

lemma sample_prefix_fits: "within_budget (retarget (op_target (PrefixComplete [120]) (items sample_list)) (items sample_list))"
  by (simp add: sample_fits)

theorem proposal_command_outcome_witness:
  "map proposed_name (items (snd (run_op (PrefixComplete [120]) (\<lambda>_. True) sample_list))) =
     [[120, 97, DOT, 116], [120, 98, DOT, 116]]"
proof -
  obtain rows l' where r: "run_op (PrefixComplete [120]) (\<lambda>_. True) sample_list = (Inr rows, l')"
    by (rule sample_run [OF _ sample_prefix_fits]) simp
  from proposal_command_outcome [OF sample_wf, of "PrefixComplete [120]" "\<lambda>_. True"] r show ?thesis
    by (simp add: sample_item_eq upt_rec)
qed

text \<open>
  C28: when memory is available a proposal command is accepted exactly when its arguments are
  admissible and the names it asks for fit the budgets: no other input is refused.
\<close>

theorem proposal_command_accepted_iff:
  assumes "wf_list l"
  shows "isl (fst (run_op c (\<lambda>_. True) l)) \<longleftrightarrow> \<not> (op_admissible c \<and>
    within_budget (map (\<lambda>i. (items l ! i)\<lparr>proposed_name := op_target c (items l) i\<rparr>) [0..<length (items l)]))"
  using op.succeeds_iff [OF assms, of c] by (simp add: retarget_def)

theorem proposal_command_accepted_iff_witness:
  "isl (fst (run_op (DeleteFrontRange 3 2) (\<lambda>_. True) sample_list)) \<and>
   \<not> isl (fst (run_op (PrefixComplete [120]) (\<lambda>_. True) sample_list))"
  using proposal_command_accepted_iff [OF sample_wf, of "DeleteFrontRange 3 2"]
    proposal_command_accepted_iff [OF sample_wf, of "PrefixComplete [120]"] sample_prefix_fits
  by (simp add: retarget_def)

text \<open>
  C29: the two-pass replacement, which sizes the result before it fills it, computes the reference
  that replaces every occurrence from the left: no result means nothing to replace, and an error
  means that the replaced text is over the limit of one name.
\<close>

theorem replaced_units_reference:
  assumes "length source \<le> MAX_PROPOSED_NAME_UTF16_UNITS"
  shows "case replaced_units True row source needle replacement of
      Inr None \<Rightarrow> replace_all needle replacement source = source
    | Inr (Some t) \<Rightarrow> t = replace_all needle replacement source
    | Inl e \<Rightarrow> MAX_PROPOSED_NAME_UTF16_UNITS < length (replace_all needle replacement source)"
proof -
  have "length source < USIZE_LIMIT" using assms by (simp add: budget_defs)
  from replaced_units_cases [OF this assms, of True row needle replacement] show ?thesis
    by (auto simp: isl_def)
qed

theorem replaced_units_reference_witness:
  "replaced_units True 0 [97, 97, 97, 98] [97, 97] [99 :: u16] = Inr (Some [99, 97, 98])"
proof -
  have "replace_all [97, 97] [99] [97, 97, 97, 98 :: u16] = [99, 97, 98]"
    by (simp add: replace_all.simps starts_with_def)
  with replaced_units_reference [where source = "[97, 97, 97, 98]" and needle = "[97, 97]"
      and replacement = "[99]" and row = 0] show ?thesis
    by (auto simp: budget_defs split: sum.splits option.splits)
qed

text \<open>
  Without a restart per folder, row \<open>i\<close> of a numbered list gets the number \<open>start + i\<close>, in
  decimal digits padded to the width, before or after its stem, and the extension stays last.
\<close>

theorem sequence_numbers:
  assumes "wf_list l" and "add_sequence_by_changed width start mode cmp al l = (Inr rows, l')"
    and "\<not> restarts mode" and "0 \<le> sint start" and "i < length (items l)"
    and "sint start + int i < 2 ^ 31"
  shows "\<exists>number. proposed_name (items l' ! i) =
      (if appends mode then stem_of (items l ! i) @ number else number @ stem_of (items l ! i)) @
      extension_of (items l ! i) \<and>
    digit_value number = nat (sint start) + i \<and> width \<le> length number"
proof (intro exI conjI)
  let ?number = "padded_number width (row_number start mode cmp (items l) i)"
  have "run_op (AddSequence width start mode cmp) al l = (Inr rows, l')" using assms(2) by simp
  from op.reported_rows(3) [OF assms(1) this assms(5)] show "proposed_name (items l' ! i) =
      (if appends mode then stem_of (items l ! i) @ ?number else ?number @ stem_of (items l ! i)) @
      extension_of (items l ! i)"
    using assms(4) by (simp add: numbered_name_def)
  show "digit_value ?number = nat (sint start) + i"
    by (rule padded_number_plain [OF assms(3,4,6)])
  show "width \<le> length ?number" by (simp add: length_padded_number)
qed

lemma sample_sequence_fits: "within_budget (retarget (op_target (AddSequence 2 7 Append plain_cmp)
    (items sample_list)) (items sample_list))"
  by (simp add: sample_fits numbered_name_def padded_number_def i32_to_units_def decimal_units.simps)

theorem sequence_numbers_witness:
  "\<exists>rows l' number. add_sequence_by_changed 2 7 Append plain_cmp (\<lambda>_. True) sample_list = (Inr rows, l') \<and>
     proposed_name (items l' ! 1) = [98] @ number @ [DOT, 116] \<and> digit_value number = 8 \<and> 2 \<le> length number"
proof -
  obtain rows l' where "run_op (AddSequence 2 7 Append plain_cmp) (\<lambda>_. True) sample_list = (Inr rows, l')"
    by (rule sample_run [OF _ sample_sequence_fits]) (simp_all add: budget_defs)
  then have r: "add_sequence_by_changed 2 7 Append plain_cmp (\<lambda>_. True) sample_list = (Inr rows, l')" by simp
  from sequence_numbers [OF sample_wf r, of 1] r show ?thesis
    by (simp add: sample_stem)
qed

text \<open>
  C33: for names that a line can hold (not empty, without a line feed, and with no blank or
  control unit that the import trims at either end), the names of one list, exported and imported
  into another list of the same length, are the proposed names of that list.
\<close>

theorem export_import_names:
  assumes "wf_list l0" and "length (items l0) = length (items l)"
    and "\<forall>it\<in>set (items l). importable_line (proposed_name it)"
    and "import_names_changed (export_lines (map proposed_name (items l))) al l0 = (Inr rows, l1)"
  shows "map proposed_name (items l1) = map proposed_name (items l)"
proof (rule nth_equalityI)
  let ?text = "export_lines (map proposed_name (items l))"
  have run: "run_op (ImportNames ?text) al l0 = (Inr rows, l1)" using assms(4) by simp
  show "length (map proposed_name (items l1)) = length (map proposed_name (items l))"
    using op.reported_rows(1) [OF assms(1) run] assms(2) by simp
  have lines: "trimmed_import_unit_slices ?text = map proposed_name (items l)"
    using parse_export_lines [of "map proposed_name (items l)"] assms(3)
    by (simp add: parse_import_lines_def)
  fix i assume "i < length (map proposed_name (items l1))"
  then have "i < length (items l0)" using op.reported_rows(1) [OF assms(1) run] by simp
  with op.reported_rows(3) [OF assms(1) run this] op.reported_rows(1) [OF assms(1) run] assms(2)
  show "map proposed_name (items l1) ! i = map proposed_name (items l) ! i"
    by (simp add: imported_name_def lines)
qed

theorem export_import_names_witness:
  "\<exists>rows l1. import_names_changed (export_lines [[120], [121]]) (\<lambda>_. True) sample_list = (Inr rows, l1) \<and>
     map proposed_name (items l1) = [[120], [121]]"
proof -
  let ?text = "export_lines [[120], [121]] :: legacy_text"
  let ?l = "sample_list\<lparr>items := [(sample_item 97)\<lparr>proposed_name := [120]\<rparr>, (sample_item 98)\<lparr>proposed_name := [121]\<rparr>]\<rparr>"
  have lines: "trimmed_import_unit_slices ?text = [[120], [121]]"
    using parse_export_lines [of "[[120], [121]]"]
    by (simp add: parse_import_lines_def importable_line_def is_trim_unit_def)
  have fits: "within_budget (retarget (op_target (ImportNames ?text) (items sample_list)) (items sample_list))"
    by (simp add: sample_fits imported_name_def lines del: export_lines.simps)
  obtain rows l1 where "run_op (ImportNames ?text) (\<lambda>_. True) sample_list = (Inr rows, l1)"
    by (rule sample_run [OF _ fits]) simp
  then have r: "import_names_changed ?text (\<lambda>_. True) sample_list = (Inr rows, l1)" by simp
  then have r': "import_names_changed (export_lines (map proposed_name (items ?l))) (\<lambda>_. True) sample_list = (Inr rows, l1)"
    by simp
  from export_import_names [OF sample_wf _ _ r'] r show ?thesis
    by (simp add: importable_line_def is_trim_unit_def del: export_lines.simps)
qed

section \<open>Rows\<close>

text \<open>
  C34: sorting with a total comparator permutes the rows into order and keeps equal rows in their
  old order; the in-place walk of the sort follows the computed order exactly, and the counters
  stay the sums of the rows. The size modes of the original program are excluded: their
  comparator is not an order (see \<open>compare_legacy_size_cyclic\<close>).
\<close>

theorem sort_stable:
  assumes "wf_list l" and "total_cmp compare_text"
    and "semantics = SafeActualSize \<or> mode \<notin> {SizeAscending, SizeDescending}"
  shows "case sort_by_with_semantics_changed mode semantics compare_text l of (changed, l') \<Rightarrow>
    wf_list l' \<and> mset (items l') = mset (items l) \<and>
    sorted_wrt (\<lambda>a b. compare_items compare_text semantics mode a b \<noteq> Greater) (items l') \<and>
    filter (\<lambda>it. compare_items compare_text semantics mode it pivot = Equal) (items l') =
      filter (\<lambda>it. compare_items compare_text semantics mode it pivot = Equal) (items l) \<and>
    (\<not> changed \<longrightarrow> l' = l)"
proof -
  let ?cmp = "compare_items compare_text semantics mode"
  note total = compare_items_total [OF assms(2,3)]
  have "items (snd (sort_by_with_semantics_changed mode semantics compare_text l)) = stable_sort_by ?cmp (items l)"
    by (rule sort_rows_eq)
  with total_cmp.sorted_stable_sort_by [OF total, of "items l"]
    total_cmp.stable_sort_by_stable [OF total, of pivot "items l"]
    sort_preserves_wf [OF assms(1), of mode semantics compare_text]
    sort_changed_iff [of mode semantics compare_text l]
  show ?thesis by (auto split: prod.splits)
qed

theorem sort_stable_witness:
  "sorted_wrt (\<lambda>a b. compare_items plain_cmp SafeActualSize NameDescending a b \<noteq> Greater)
     (items (snd (sort_by_with_semantics_changed NameDescending SafeActualSize plain_cmp sample_list)))"
proof -
  obtain changed l' where r:
    "sort_by_with_semantics_changed NameDescending SafeActualSize plain_cmp sample_list = (changed, l')"
    by fastforce
  with sort_stable [OF sample_wf ci.total_cmp_axioms, of SafeActualSize NameDescending "\<lambda>c. [c]"]
  show ?thesis by simp
qed

text \<open>
  The size comparison of the original program is a signed reading of a wrapped difference. It is
  cyclic in general (\<open>compare_legacy_size_cyclic\<close>), but among sizes that lie within half the range
  above some base it is the order of their distances from that base.
\<close>

lemma compare_legacy_size_window:
  fixes a b base :: u32
  assumes "unat (a - base) < 2 ^ 31" and "unat (b - base) < 2 ^ 31"
  shows "compare_legacy_size a b = cmp_of (unat (a - base)) (unat (b - base))"
proof -
  have self: "signed_take_bit 31 k = k" if "- (2 ^ 31) \<le> k" "k < 2 ^ 31" for k :: int
    using that by (rule signed_take_bit_int_eq_self)
  have len: "LENGTH(32) - Suc 0 = 31" by simp
  have small: "int (unat w) < 2 ^ 31" if "unat w < 2 ^ 31" for w :: u32
  proof -
    have "int (unat w) < int (2 ^ 31)" using that by (rule of_nat_less_iff [THEN iffD2])
    then show ?thesis by (simp only: of_nat_power of_nat_numeral)
  qed
  have su: "sint w = int (unat w)" if "unat w < 2 ^ 31" for w :: u32
    unfolding sint_uint len uint_nat by (rule self) (use small [OF that] in linarith)+
  have "a - b = (a - base) - (b - base)" by (simp only: diff_diff_eq2 diff_add_cancel)
  then have "sint (a - b) = sint ((a - base) - (b - base))" by (rule arg_cong)
  also have "\<dots> = signed_take_bit 31 (sint (a - base) - sint (b - base))"
    by (subst sint_word_ariths(2)) simp
  also have "\<dots> = int (unat (a - base)) - int (unat (b - base))"
    unfolding su [OF assms(1)] su [OF assms(2)] by (rule self) (use small [OF assms(1)] small [OF assms(2)] in linarith)+
  finally have "sint (a - b) = int (unat (a - base)) - int (unat (b - base))" .
  moreover have "cmp_of (int m - int n) 0 = cmp_of m n" for m n :: nat
    by (auto simp: cmp_of_def)
  ultimately show ?thesis by (simp only: compare_legacy_size_def)
qed

lemma unat_ucast_u64: "unat (ucast (w :: u32) :: u64) = unat w"
proof -
  have "unat w < 2 ^ LENGTH(32)" by (rule unsigned_less)
  then have "unat w < 2 ^ 64" by (rule less_le_trans) simp
  then show ?thesis by (simp only: unsigned_ucast_eq) (simp add: take_bit_nat_eq_self)
qed

lemma insert_by_cong:
  "(\<And>y. y \<in> set ys \<Longrightarrow> cmp x y = cmp' x y) \<Longrightarrow> insert_by cmp x ys = insert_by cmp' x ys"
  by (induction ys) auto

lemma stable_sort_by_cong:
  assumes "\<And>x y. x \<in> set xs \<Longrightarrow> y \<in> set xs \<Longrightarrow> cmp x y = cmp' x y"
  shows "stable_sort_by cmp xs = stable_sort_by cmp' xs"
  using assms
proof (induction xs)
  case (Cons x xs)
  have "set (stable_sort_by cmp' xs) = set xs" by (metis mset_eq_setD mset_stable_sort_by)
  with Cons insert_by_cong [of "stable_sort_by cmp' xs" cmp x cmp'] show ?case by simp
qed simp

text \<open>
  C35: if every size of the list is less than 2 ^ 31 above some base, the size modes of the
  original program give the stable sort of the rows by that distance, ascending or descending. For
  files below 2 GiB (base 0) whose two recorded sizes agree it is the very result of the safe mode.
\<close>

theorem legacy_size_sort:
  assumes "wf_list l" and "\<forall>it\<in>set (items l). unat (file_size it - base) < 2 ^ 31"
    and "mode \<in> {SizeAscending, SizeDescending}"
  shows "case sort_by_with_semantics_changed mode LegacyDarkNamer080210 compare_text l of (changed, l') \<Rightarrow>
    wf_list l' \<and> mset (items l') = mset (items l) \<and>
    sorted_wrt (\<lambda>a b. if mode = SizeAscending then unat (file_size a - base) \<le> unat (file_size b - base)
      else unat (file_size b - base) \<le> unat (file_size a - base)) (items l') \<and>
    filter (\<lambda>it. file_size it = chosen) (items l') = filter (\<lambda>it. file_size it = chosen) (items l) \<and>
    ((\<forall>it\<in>set (items l). actual_size it = ucast (file_size it)) \<and> base = 0 \<longrightarrow>
      items l' = items (snd (sort_by_with_semantics_changed mode SafeActualSize compare_text l)))"
proof -
  let ?cmp = "compare_items compare_text LegacyDarkNamer080210 mode"
  let ?d = "\<lambda>it. unat (file_size it - base)"
  define ref :: "legacy_list_item \<Rightarrow> legacy_list_item \<Rightarrow> ordering" where "ref = (\<lambda>a b. if mode = SizeAscending then cmp_of (?d a) (?d b) else reverse_ordering (cmp_of (?d a) (?d b)))"
  have total: "total_cmp ref"
    using cmp_of.vimage_total [of ?d] cmp_of.vimage_total [of ?d, THEN total_cmp.reverse_total] assms(3)
    by (cases mode) (simp_all add: ref_def)
  have eq: "?cmp a b = ref a b" if "a \<in> set (items l)" "b \<in> set (items l)" for a b
    using that assms(2,3) by (auto simp: ref_def compare_legacy_size_window [of _ base])
  have rows: "items (snd (sort_by_with_semantics_changed mode LegacyDarkNamer080210 compare_text l)) =
      stable_sort_by ref (items l)"
    unfolding sort_rows_eq by (rule stable_sort_by_cong) (rule eq)
  have sorted: "sorted_wrt (\<lambda>a b. if mode = SizeAscending then ?d a \<le> ?d b else ?d b \<le> ?d a) (stable_sort_by ref (items l))"
    by (rule sorted_wrt_mono_rel [OF _ total_cmp.sorted_stable_sort_by [OF total]])
      (auto simp: ref_def cmp_of_def split: if_splits)
  have equal: "ref it pivot = Equal \<longleftrightarrow> file_size it = file_size pivot" for it pivot
  proof -
    have "?d it = ?d pivot \<longleftrightarrow> file_size it = file_size pivot"
      unfolding word_unat_eq_iff [symmetric] by simp
    then show ?thesis by (auto simp: ref_def cmp_of_def)
  qed
  have stable: "filter (\<lambda>it. file_size it = chosen) (stable_sort_by ref (items l)) =
      filter (\<lambda>it. file_size it = chosen) (items l)"
    using total_cmp.stable_sort_by_stable [OF total, of "undefined\<lparr>file_size := chosen\<rparr>" "items l"]
    by (simp add: equal)
  have safe: "stable_sort_by ref (items l) =
      items (snd (sort_by_with_semantics_changed mode SafeActualSize compare_text l))"
    if "\<forall>it\<in>set (items l). actual_size it = ucast (file_size it)" "base = 0"
    unfolding sort_rows_eq
  proof (rule stable_sort_by_cong)
    fix a b assume ab: "a \<in> set (items l)" "b \<in> set (items l)"
    have "cmp_of (?d a) (?d b) = cmp_of (actual_size a) (actual_size b)"
      unfolding that(2) diff_zero
      using that(1) ab by (simp only: cmp_of_def word_less_nat_alt word_unat_eq_iff unat_ucast_u64)
    with assms(3) show "ref a b = compare_items compare_text SafeActualSize mode a b"
      by (auto simp: ref_def)
  qed
  show ?thesis
    using sort_preserves_wf [OF assms(1), of mode LegacyDarkNamer080210 compare_text] sorted stable safe
      mset_stable_sort_by [of ref "items l"]
    unfolding split_beta rows by blast
qed

theorem legacy_size_sort_witness:
  "filter (\<lambda>it. file_size it = 1) (items (snd (sort_by_with_semantics_changed SizeAscending
     LegacyDarkNamer080210 plain_cmp sample_list))) = items sample_list"
proof -
  have "\<forall>it\<in>set (items sample_list). unat (file_size it - 0) < 2 ^ 31"
    by (simp add: sample_item_eq)
  from legacy_size_sort [OF sample_wf this, where mode = SizeAscending and compare_text = plain_cmp and chosen = 1]
  have "filter (\<lambda>it. file_size it = 1) (items (snd (sort_by_with_semantics_changed SizeAscending
      LegacyDarkNamer080210 plain_cmp sample_list))) = filter (\<lambda>it. file_size it = 1) (items sample_list)"
    unfolding split_beta by blast
  also have "\<dots> = items sample_list" by (simp add: sample_item_eq)
  finally show ?thesis .
qed

lemma nths_upt: "nths xs A = map (\<lambda>i. xs ! i) (filter (\<lambda>i. i \<in> A) [0..<length xs])"
proof -
  have "zip xs [0..<length xs] = map (\<lambda>i. (xs ! i, i)) [0..<length xs]"
    by (rule nth_equalityI) simp_all
  then show ?thesis by (simp add: nths_def filter_map o_def)
qed

text \<open>
  C36: removing rows keeps exactly the rows that are not selected, in their order, whatever
  duplicate or invalid row numbers the selection has, and reports how many rows went.
\<close>

theorem remove_rows_exact:
  assumes "wf_list l"
  shows "case remove_rows rows fresh l of (n, l') \<Rightarrow>
    n = card {i \<in> set rows. i < length (items l)} \<and>
    items l' = map (\<lambda>i. items l ! i) (filter (\<lambda>i. i \<notin> set rows) [0..<length (items l)]) \<and>
    wf_list l'"
proof -
  have "nths (items l) {i. i \<notin> {i \<in> set rows. i < length (items l)}} =
      map (\<lambda>i. items l ! i) (filter (\<lambda>i. i \<notin> set rows) [0..<length (items l)])"
    by (auto simp: nths_upt intro!: map_cong filter_cong)
  with remove_rows_eq [OF assms, of rows fresh] show ?thesis by (auto split: prod.splits)
qed

theorem remove_rows_exact_witness:
  "case remove_rows [7, 0, 0] 9 sample_list of (n, l') \<Rightarrow>
     n = 1 \<and> items l' = [sample_item 98] \<and> wf_list l'"
proof -
  have "{i. (i = 7 \<or> i = 0) \<and> i < Suc (Suc 0)} = {0 :: nat}" by auto
  with remove_rows_exact [OF sample_wf, of "[7, 0, 0]" 9] show ?thesis
    by (simp add: upt_rec split: prod.splits)
qed

text \<open>
  C37: moving rows earlier either reports that nothing changed, and the list is as it was (the first
  row or no row was selected), or the list changed, and moving the reported rows one place later
  gives the list and the selection back.
\<close>

theorem move_rows_round_trip:
  "case move_rows_earlier_changed rows l of ((moved, changed), l') \<Rightarrow>
     if changed
     then move_rows_later_changed moved l' = ((normalized_indices rows (length (items l)), True), l)
     else l' = l \<and> (normalized_indices rows (length (items l)) = [] \<or>
       hd (normalized_indices rows (length (items l))) = 0)"
proof -
  obtain moved changed l' where m: "move_rows_earlier_changed rows l = ((moved, changed), l')"
    by (metis surj_pair)
  show ?thesis
  proof (cases changed)
    case True
    with move_earlier_later [OF m] m show ?thesis by simp
  next
    case False
    with m show ?thesis
      by (auto simp: move_rows_earlier_changed_def Let_def split: if_splits)
  qed
qed

theorem move_rows_round_trip_witness:
  "snd (move_rows_later_changed [0] (snd (move_rows_earlier_changed [1] sample_list))) = sample_list"
proof -
  obtain l' where m: "move_rows_earlier_changed [1] sample_list = (([0], True), l')"
    by (simp add: move_rows_earlier_changed_def normalized_indices_def)
  from move_rows_round_trip [of "[1]" sample_list] show ?thesis unfolding m by simp
qed

text \<open>
  C38: a recorded move of any row of a well-formed list makes the planned path the row's source and
  reads its name and parent off that path; no other row changes; the name counter stays exact, and
  the path counter is off by exactly the difference of the planned lengths of the row before and
  after. For a row whose destination parent is in normal form and whose name has no backslash there
  is no difference: the list stays well formed, the row keeps its name and has no pending change.
\<close>

theorem recorded_move_effect:
  assumes "wf_list l" and "index < length (items l)"
  shows "case record_move_success index fresh l of (found, l') \<Rightarrow>
    found \<and> length (items l') = length (items l) \<and>
    source_path (items l' ! index) = planned_path (items l ! index) \<and>
    proposed_name (items l' ! index) = path_name (planned_path (items l ! index)) \<and>
    current_name (items l' ! index) = proposed_name (items l' ! index) \<and>
    destination_parent (items l' ! index) = source_parent_units (planned_path (items l ! index)) \<and>
    (\<forall>j. j \<noteq> index \<longrightarrow> items l' ! j = items l ! j) \<and>
    proposed_name_utf16_units l' = name_units (items l') \<and>
    planned_path_utf16_units l' + item_path_units (items l' ! index) =
      path_units (items l') + item_path_units (items l ! index) \<and>
    (regular_move (items l ! index) \<longrightarrow>
      wf_list l' \<and> proposed_name (items l' ! index) = proposed_name (items l ! index) \<and>
      planned_change_kind_of (items l' ! index) = NoChange)"
proof -
  let ?l = "snd (record_move_success index fresh l)"
  let ?path = "planned_path (items l ! index)"
  obtain it where it: "items ?l = (items l)[index := it]" "fst (record_move_success index fresh l)"
    "planned_path_utf16_units ?l = planned_path_utf16_units l"
    "source_path it = ?path" "proposed_name it = path_name ?path" "current_name it = path_name ?path"
    "destination_parent it = source_parent_units ?path"
    using assms(2) by (auto simp: record_move_success_def Let_def path_root_def)
  have names: "proposed_name_utf16_units ?l = name_units (items ?l)"
    using record_move_names [of l index fresh] wf_name_exact [OF assms(1)] by (simp add: name_exact_def)
  have paths: "planned_path_utf16_units ?l + item_path_units it = path_units (items ?l) + item_path_units (items l ! index)"
    using sum_list_map_update [OF assms(2), of item_path_units it] assms(1)
    by (simp add: it(1,3) path_units_def wf_list_def)
  have regular: "wf_list ?l \<and> current_name (items ?l ! index) = proposed_name (items l ! index) \<and>
      planned_change_kind_of (items ?l ! index) = NoChange" if "regular_move (items l ! index)"
    using record_move_success_spec(1,3,4) [OF assms, where fresh = fresh] that by (simp add: regular_move_def)
  have at: "items ?l ! index = it" using assms(2) by (simp add: it(1))
  show ?thesis
    using names paths regular it assms(2) unfolding at by (auto split: prod.splits)
qed

theorem recorded_move_effect_witness:
  "case record_move_success 1 9 sample_list of (found, l') \<Rightarrow>
     wf_list l' \<and> planned_change_kind_of (items l' ! 1) = NoChange"
  using recorded_move_effect [OF sample_wf, of 1 9] sample_normal [of 98]
  by (auto split: prod.splits)

text \<open>
  The counter does drift: for every row of a bare drive whose name is to become a separator and a
  leaf, a recorded move leaves the path counter one unit above the sum.
\<close>

lemma recorded_move_counter_drift:
  fixes fresh :: nat
  assumes "wf_list l" and "index < length (items l)"
    and "destination_parent (items l ! index) = [drive, COLON]"
    and "proposed_name (items l ! index) = BACKSLASH # leaf" and "BACKSLASH \<notin> set leaf"
  defines "l' \<equiv> snd (record_move_success index fresh l)"
  shows "planned_path_utf16_units l' = path_units (items l') + 1 \<and> \<not> wf_list l'"
proof -
  have path: "planned_path (items l ! index) = [drive, COLON, BACKSLASH] @ BACKSLASH # leaf"
    by (simp add: planned_path_join assms(3,4) destination_separator_units_def is_path_separator_def)
  have last: "rposition (\<lambda>u. u = BACKSLASH) ([drive, COLON, BACKSLASH] @ BACKSLASH # leaf) = Some 3"
    unfolding rposition_Some using assms(5) by (auto simp: nth_append nth_Cons' in_set_conv_nth)
  have name: "path_name (planned_path (items l ! index)) = leaf"
    unfolding path_name_def path last by simp
  have parent: "source_parent_units (planned_path (items l ! index)) = [drive, COLON, BACKSLASH]"
    unfolding source_parent_units_def path last by simp
  from recorded_move_effect [OF assms(1,2), of fresh] have
    e: "planned_path_utf16_units l' + item_path_units (items l' ! index) =
      path_units (items l') + item_path_units (items l ! index)"
    "proposed_name (items l' ! index) = leaf" "destination_parent (items l' ! index) = [drive, COLON, BACKSLASH]"
    by (auto simp: l'_def name parent split: prod.splits)
  have "item_path_units (items l ! index) = item_path_units (items l' ! index) + 1"
    by (simp add: item_path_units_def planned_units_def destination_separator_units_def
        is_path_separator_def e(2,3) assms(3,4))
  with e(1) show ?thesis by (simp add: wf_list_def)
qed

text \<open>
  Unifying the destination parents either fails and changes nothing, or gives every row the
  normalised folder, reports exactly the rows whose folder differed, and keeps the counters
  exact. The normalised folder ends in no separator but the one of a root.
\<close>

theorem unify_parents_outcome:
  assumes "wf_list l"
  shows "case unify_destination_parent_changed folder al l of
      (Inl e, l') \<Rightarrow> l' = l
    | (Inr rows, l') \<Rightarrow> wf_list l' \<and> normal_parent (unified_parent folder) \<and>
        items l' = map (\<lambda>it. it\<lparr>destination_parent := unified_parent folder\<rparr>) (items l) \<and>
        rows = filter (\<lambda>i. destination_parent (items l ! i) \<noteq> unified_parent folder) [0..<length (items l)]"
proof -
  obtain r l' where run: "unify_destination_parent_changed folder al l = (r, l')"
    by (cases "unify_destination_parent_changed folder al l")
  show ?thesis
  proof (cases r)
    case (Inl e)
    with unify.refused [OF assms run [unfolded Inl]] run show ?thesis by simp
  next
    case (Inr rows)
    have l': "l' = relocate (\<lambda>_. unified_parent folder) l" "wf_list l'"
        "rows = filter (\<lambda>i. destination_parent (items l ! i) \<noteq> unified_parent folder) [0..<length (items l)]"
      using unify.applied [OF assms run [unfolded Inr]] by blast+
    show ?thesis using l'(2) unified_parent_normal_parent by (simp add: run Inr l'(1,3))
  qed
qed

theorem unify_parents_outcome_witness:
  "\<exists>rows l'. unify_destination_parent_changed [67, COLON, SLASH] (\<lambda>_. True) sample_list = (Inr rows, l') \<and>
     map destination_parent (items l') = [[67, COLON, BACKSLASH], [67, COLON, BACKSLASH]]"
proof -
  have u: "unified_parent [67, COLON, SLASH] = [67, COLON, BACKSLASH]"
    by (simp add: unified_parent_unfold normalized_destination_parent_len_def rposition_def is_path_separator_def)
  have "wf_list (relocate (\<lambda>_. unified_parent [67, COLON, SLASH]) sample_list)"
    by (simp add: u relocate_def wf_list_def within_budget_def sample_fields counter_simps
        item_path_units_def planned_units_def destination_separator_units_def is_path_separator_def budget_defs)
      (simp add: sample_list_eq)
  then obtain rows l' where run:
    "unify_destination_parent_changed [67, COLON, SLASH] (\<lambda>_. True) sample_list = (Inr rows, l')"
    using unify.accepts [OF sample_wf, of "[67, COLON, SLASH]"]
    by (cases "unify_destination_parent_changed [67, COLON, SLASH] (\<lambda>_. True) sample_list")
       (auto simp: u budget_defs)
  with unify_parents_outcome [OF sample_wf, of "[67, COLON, SLASH]" "\<lambda>_. True"] show ?thesis
    by (simp add: u)
qed

section \<open>Appending\<close>

lemma appended_rows_alt: "appended_rows cmp l batch = stable_sort_by (\<lambda>a b. cmp (source_path a) (source_path b))
    (rev (filter (\<lambda>it. \<forall>row\<in>set (items l). cmp (source_path row) (source_path it) \<noteq> Equal) batch))"
  by (simp add: appended_rows_def duplicate_of_def)

text \<open>
  C39: appending a batch, through any valid index and with any pattern of failing reservations,
  either changes no row, or appends exactly the rows of the batch whose path is not yet in the
  list, sorted by path with later duplicates first, and leaves an index that is current.
\<close>

theorem append_batch_exact:
  assumes "text_order cmp" and "wf_list l" and "index_valid cmp ix l"
  shows "case append_batch_indexed al fresh cmp ix batch l of
      (Inl e, ix', l') \<Rightarrow> l' = l \<and> index_valid cmp ix' l
    | (Inr n, ix', l') \<Rightarrow> items l' = items l @ stable_sort_by (\<lambda>a b. cmp (source_path a) (source_path b))
          (rev (filter (\<lambda>it. \<forall>row\<in>set (items l). cmp (source_path row) (source_path it) \<noteq> Equal) batch)) \<and>
        length (items l') = length (items l) + n \<and> wf_list l' \<and>
        is_current_for ix' l' \<and> index_valid cmp ix' l'"
proof -
  obtain r ix' l' where run: "append_batch_indexed al fresh cmp ix batch l = (r, ix', l')"
    by (metis prod_cases3)
  note out = text_order.append_batch_outcome [OF assms(1,2,3) run]
  show ?thesis
  proof (cases r)
    case (Inl e)
    with out run show ?thesis by auto
  next
    case (Inr n)
    with out have "wf_list l'" using wf_appended [OF assms(2)] by auto
    moreover have "items l' = items l @ appended_rows cmp l batch" using out Inr by (auto simp: appended_def)
    ultimately show ?thesis using out run Inr by (auto simp: appended_rows_alt)
  qed
qed

theorem append_batch_exact_witness:
  "case sample_append of (r, ix, l) \<Rightarrow> r = Inr 2 \<and> items l = [sample_item 97, sample_item 98] \<and> wf_list l"
proof -
  obtain ix where a: "sample_append = (Inr 2, ix, sample_list)" by (rule sample_append_eq)
  from append_batch_exact [OF plain_cmp_order wf_new_list [of 0] index_valid_new [of plain_cmp],
      where al = "\<lambda>_. True" and fresh = 1 and batch = "[sample_item 98, sample_item 97]",
      folded appended_rows_alt, unfolded sample_appended_rows]
  show ?thesis unfolding a by (simp add: new_list_def)
qed

text \<open>
  The cached index is only a cache: when memory is available, an append through any valid
  index is accepted exactly when the append through an empty index is, and then gives the same
  rows, counters and count.
\<close>

theorem append_index_transparent:
  assumes "text_order cmp" and "wf_list l" and "index_valid cmp ix l"
  shows "case (append_batch_indexed (\<lambda>_. True) fresh cmp ix batch l,
      append_batch_indexed (\<lambda>_. True) fresh cmp new_index batch l) of
    ((r, _, l1), (s, _, l2)) \<Rightarrow> (isl r \<longleftrightarrow> isl s) \<and> (\<not> isl r \<longrightarrow> r = s) \<and> l1 = l2"
proof -
  obtain r ix1 l1 s ix2 l2 where run: "append_batch_indexed (\<lambda>_. True) fresh cmp ix batch l = (r, ix1, l1)"
      "append_batch_indexed (\<lambda>_. True) fresh cmp new_index batch l = (s, ix2, l2)"
    by (metis prod_cases3)
  note out = text_order.append_batch_outcome [OF assms run(1)]
    text_order.append_batch_outcome [OF assms(1,2) index_valid_new run(2)]
  note ok = text_order.append_batch_ok [OF assms, of batch fresh]
    text_order.append_batch_ok [OF assms(1,2) index_valid_new, of batch fresh]
  show ?thesis
    using out ok by (cases r; cases s) (auto simp: run)
qed

theorem append_index_transparent_witness:
  "case sample_append of (_, ix, l) \<Rightarrow>
     snd (snd (append_batch_indexed (\<lambda>_. True) 2 plain_cmp ix [sample_item 99] l)) =
     snd (snd (append_batch_indexed (\<lambda>_. True) 2 plain_cmp new_index [sample_item 99] l))"
proof -
  obtain ix where a: "sample_append = (Inr 2, ix, sample_list)" by (rule sample_append_eq)
  from ci_order.append_batch_outcome [OF wf_new_list index_valid_new a] have "index_valid plain_cmp ix sample_list" ..
  from append_index_transparent [OF plain_cmp_order sample_wf this, where fresh = 2 and batch = "[sample_item 99]"]
  show ?thesis unfolding a by (auto split: prod.splits)
qed

section \<open>Paths and names\<close>

text \<open>
  A row is reported as changed exactly when its planned path differs from its source, and
  the kind says which part differs; only a path that spells its own parent in another way is
  called a move with an equal parent and an equal name.
\<close>

theorem planned_change_kind_exact:
  assumes "length (planned_path item) < USIZE_LIMIT"
  shows "(planned_change_kind_of item = NoChange \<longleftrightarrow> source_path item = planned_path item) \<and>
    (renames (planned_change_kind_of item) \<longleftrightarrow>
       source_path item \<noteq> planned_path item \<and> current_name item \<noteq> proposed_name item) \<and>
    (moves (planned_change_kind_of item) \<longleftrightarrow> source_path item \<noteq> planned_path item \<and>
       (source_parent_units (source_path item) \<noteq> destination_parent item \<or>
        current_name item = proposed_name item))"
  using planned_path_matches_source_iff [OF assms]
  by (auto simp: planned_change_kind_of_def Let_def split: bool.splits)

theorem planned_change_kind_exact_witness:
  "renames (planned_change_kind_of ((sample_item 97)\<lparr>proposed_name := [120]\<rparr>)) \<and>
   \<not> moves (planned_change_kind_of ((sample_item 97)\<lparr>proposed_name := [120]\<rparr>))"
  using planned_change_kind_exact [of "(sample_item 97)\<lparr>proposed_name := [120]\<rparr>"]
  by (simp add: sample_item_eq planned_path_join destination_separator_units_def is_path_separator_def
      sample_path_def source_parent_units_def rposition_def Let_def)

text \<open>
  C40: the validator accepts exactly the Windows leaf names: one to 255 units, no control or
  reserved character, no final dot or space, and a base name that is no device name in any case.
\<close>

theorem leaf_name_rule:
  "validate_windows_leaf_name units = Inr () \<longleftrightarrow>
     units \<noteq> [] \<and> length units \<le> 255 \<and> (\<forall>u\<in>set units. \<not> forbidden_unit u) \<and>
     last units \<notin> {DOT, 32} \<and> map ascii_upper (base_name units) \<notin> reserved_bases"
  by (rule valid_leaf_iff [unfolded valid_leaf_def])

theorem leaf_name_rule_witness:
  "validate_windows_leaf_name [97, DOT, 98] = Inr () \<and> validate_windows_leaf_name [110, 117, 76, DOT, 97] \<noteq> Inr ()"
  using leaf_name_rule [of "[97, DOT, 98]"] leaf_name_rule [of "[110, 117, 76, DOT, 97]"]
  by (simp add: forbidden_unit_def base_name_def reserved_bases_def ascii_upper_def)

end
