(* ===== verification/Rename_Ports.thy ===== *)
theory Rename_Ports
  imports List_Item
begin

text \<open>
  The types the rename subsystem shares (\<open>crates/darknamer-app/src/rename/model.rs\<close>) and its
  ports (\<open>ports.rs\<close>): identities, snapshots, intents, plans, the backend and journal errors,
  and the pure functions of the ports: the authorization of an operation, the entry key of a
  planned leaf, and the leaf of a path.
\<close>

text \<open>
  A cancellation callback is a function from the number of polls so far to its answer; every
  operation that polls returns how often it did.
\<close>

type_synonym cancellation = "nat \<Rightarrow> bool"

definition is_separator :: "u16 \<Rightarrow> bool" where
  "is_separator u \<longleftrightarrow> u = BACKSLASH \<or> u = SLASH"

section \<open>The model types\<close>

type_synonym entry_id = u32
type_synonym model_revision = u64
type_synonym plan_id = u64

datatype entry_kind = File | Directory

datatype move_scope = SameParent | SameVolumeFilesOnly

record entry_identity =
  volume :: u64
  file_id :: u128

type_synonym path_key = "u16 list"

definition path_key_exact :: "legacy_text \<Rightarrow> path_key" where
  "path_key_exact path = path"

record observed_entry =
  observed_identity :: entry_identity
  observed_kind :: entry_kind
  is_reparse_point :: bool

record path_snapshot =
  snapshot_parent :: entry_identity
  snapshot_entry :: "observed_entry option"

record resolved_source =
  resolved_path :: legacy_text
  resolved_snapshot :: path_snapshot
  resolved_entry_key :: "path_key option"

record rename_intent =
  intent_id :: entry_id
  intent_source :: legacy_text
  intent_parent :: legacy_text
  intent_name :: legacy_text
  intent_destination :: legacy_text
  intent_kind :: entry_kind

text \<open>\<open>RenameIntent::new\<close> joins the parent and the name.\<close>

definition rename_intent_new ::
  "entry_id \<Rightarrow> legacy_text \<Rightarrow> legacy_text \<Rightarrow> legacy_text \<Rightarrow> entry_kind \<Rightarrow> rename_intent" where
  "rename_intent_new i src parent name kind =
     \<lparr>intent_id = i, intent_source = src, intent_parent = parent, intent_name = name,
      intent_destination =
        parent @ (if parent \<noteq> [] \<and> (last parent = BACKSLASH \<or> last parent = SLASH) then []
                  else [BACKSLASH]) @ name,
      intent_kind = kind\<rparr>"

record plan_request =
  request_revision :: model_revision
  request_entries :: "rename_intent list"
  request_scope :: move_scope

record plan_row =
  row_id :: entry_id
  row_source :: legacy_text
  row_destination :: legacy_text
  row_kind :: entry_kind
  row_source_snapshot :: path_snapshot
  row_destination_snapshot :: path_snapshot
  row_source_key :: path_key
  row_destination_key :: path_key

record rename_plan =
  plan_id_of :: plan_id
  plan_revision :: model_revision
  plan_entries :: "plan_row list"
  plan_scope :: move_scope

datatype confirmation_error = PlanMismatch | RevisionMismatch

definition confirm_presented ::
  "rename_plan \<Rightarrow> plan_id \<Rightarrow> model_revision \<Rightarrow> confirmation_error + rename_plan" where
  "confirm_presented plan displayed_id displayed_revision =
     (if plan_id_of plan \<noteq> displayed_id then Inl PlanMismatch
      else if plan_revision plan \<noteq> displayed_revision then Inl RevisionMismatch
      else Inr plan)"

section \<open>Backend errors and operations\<close>

datatype backend_operation = Observe | RenameOp | TransactionNonce

datatype mutation_certainty = NotApplied_Certain | MayHaveApplied

record backend_error =
  backend_operation :: backend_operation
  backend_code :: u32
  backend_certainty :: mutation_certainty

abbreviation ERROR_NOT_SAME_DEVICE :: u32 where "ERROR_NOT_SAME_DEVICE \<equiv> 17"
abbreviation ERROR_ACCESS_DENIED :: u32 where "ERROR_ACCESS_DENIED \<equiv> 5"

record rename_operation =
  op_source :: legacy_text
  op_destination :: legacy_text
  op_expected_source :: entry_identity
  op_expected_source_parent :: entry_identity
  op_expected_destination_parent :: entry_identity
  op_kind :: "entry_kind option"
  op_scope :: move_scope

definition with_authorization ::
  "legacy_text \<Rightarrow> legacy_text \<Rightarrow> entry_identity \<Rightarrow> entry_identity \<Rightarrow> entry_identity \<Rightarrow> entry_kind \<Rightarrow>
     move_scope \<Rightarrow> rename_operation" where
  "with_authorization src dst expected src_par dst_par kind scope =
     \<lparr>op_source = src, op_destination = dst, op_expected_source = expected,
      op_expected_source_parent = src_par, op_expected_destination_parent = dst_par,
      op_kind = Some kind, op_scope = scope\<rparr>"

definition with_legacy_same_parent_authorization ::
  "legacy_text \<Rightarrow> legacy_text \<Rightarrow> entry_identity \<Rightarrow> entry_identity \<Rightarrow> entry_identity \<Rightarrow> rename_operation" where
  "with_legacy_same_parent_authorization src dst expected src_par dst_par =
     \<lparr>op_source = src, op_destination = dst, op_expected_source = expected,
      op_expected_source_parent = src_par, op_expected_destination_parent = dst_par,
      op_kind = None, op_scope = SameParent\<rparr>"

definition authorization_error :: "rename_operation \<Rightarrow> backend_error option" where
  "authorization_error op =
     (if volume (op_expected_source op) \<noteq> volume (op_expected_source_parent op) \<or>
         volume (op_expected_source_parent op) \<noteq> volume (op_expected_destination_parent op)
      then Some \<lparr>backend_operation = RenameOp, backend_code = ERROR_NOT_SAME_DEVICE,
                 backend_certainty = NotApplied_Certain\<rparr>
      else if op_expected_source_parent op \<noteq> op_expected_destination_parent op \<and>
         (op_scope op = SameParent \<or> op_kind op \<noteq> Some File)
      then Some \<lparr>backend_operation = RenameOp, backend_code = ERROR_ACCESS_DENIED,
                 backend_certainty = NotApplied_Certain\<rparr>
      else None)"

text \<open>An operation that is authorized stays on one volume, and only files change parent.\<close>

lemma authorized_iff:
  "authorization_error op = None \<longleftrightarrow>
     volume (op_expected_source op) = volume (op_expected_source_parent op) \<and>
     volume (op_expected_source_parent op) = volume (op_expected_destination_parent op) \<and>
     (op_expected_source_parent op = op_expected_destination_parent op \<or>
      op_scope op = SameVolumeFilesOnly \<and> op_kind op = Some File)"
  by (cases "op_scope op") (auto simp: authorization_error_def)

datatype plan_issue_kind =
    RelativeSource
  | RelativeDestinationParent
  | InvalidDestinationName windows_leaf_name_error
  | MissingSource
  | SourceKindChanged
  | ReparseSource
  | DuplicateDestination
  | DuplicateEntryId
  | DuplicateSource
  | CrossParent
  | CrossVolume
  | DirectoryMoveUnsupported
  | SourceOverlap
  | PathTooDeep
  | UnsupportedCaseSensitiveParent
  | UnsupportedWindowsPath
  | UnsupportedFilesystem
  | DestinationOccupied
  | Backend
  | BackendFailure backend_error

record plan_issue =
  issue_entry :: entry_id
  issue_kind :: plan_issue_kind

section \<open>Journal errors\<close>

datatype append_certainty = NotAppended | MayHaveAppended

record journal_error =
  journal_code :: u32
  journal_certainty :: append_certainty

definition not_appended :: "u32 \<Rightarrow> journal_error" where
  "not_appended c = \<lparr>journal_code = c, journal_certainty = NotAppended\<rparr>"

definition may_have_appended :: "u32 \<Rightarrow> journal_error" where
  "may_have_appended c = \<lparr>journal_code = c, journal_certainty = MayHaveAppended\<rparr>"

record journal_authorization =
  auth_identity :: u64
  auth_generation :: u64

section \<open>Entry keys and leaves\<close>

text \<open>The little-endian 16-bit groups of a word.\<close>

definition le_units :: "nat \<Rightarrow> 'a::len word \<Rightarrow> u16 list" where
  "le_units n w = map (\<lambda>i. ucast (drop_bit (16 * i) w)) [0..<n]"

definition entry_key_from_parts :: "entry_identity \<Rightarrow> u16 list \<Rightarrow> path_key" where
  "entry_key_from_parts parent normalized_leaf =
     le_units 4 (volume parent) @ le_units 8 (file_id parent) @ normalized_leaf"

definition path_leaf :: "legacy_text \<Rightarrow> legacy_text" where
  "path_leaf path =
     drop (case rposition (\<lambda>u. u = BACKSLASH \<or> u = SLASH) path of None \<Rightarrow> 0 | Some i \<Rightarrow> i + 1) path"

lemma length_le_units [simp]: "length (le_units n w) = n"
  by (simp add: le_units_def)

lemma le_units_inj:
  fixes v w :: "'a::len word"
  assumes "LENGTH('a) \<le> 16 * n" and "le_units n v = le_units n w"
  shows "v = w"
proof (rule bit_word_eqI)
  fix k assume k: "k < LENGTH('a)"
  let ?i = "k div 16"
  have i: "?i < n" using k assms(1) by (simp add: less_mult_imp_div_less)
  then have "le_units n v ! ?i = le_units n w ! ?i" using assms(2) by simp
  then have "(ucast (drop_bit (16 * ?i) v) :: u16) = ucast (drop_bit (16 * ?i) w)"
    using i by (simp add: le_units_def)
  then have "bit (ucast (drop_bit (16 * ?i) v) :: u16) (k mod 16) =
      bit (ucast (drop_bit (16 * ?i) w) :: u16) (k mod 16)" by simp
  then show "bit v k \<longleftrightarrow> bit w k"
    by (simp add: bit_ucast_iff bit_drop_bit_eq mult.commute)
qed

text \<open>Different parents or leaves have different keys.\<close>

lemma entry_key_inj:
  "entry_key_from_parts p l = entry_key_from_parts q m \<longleftrightarrow> p = q \<and> l = m"
  using le_units_inj [of 4 "volume p" "volume q"] le_units_inj [of 8 "file_id p" "file_id q"]
  by (cases p; cases q) (auto simp: entry_key_from_parts_def)

lemma path_leaf_no_separator: "\<forall>u\<in>set (path_leaf path). u \<noteq> BACKSLASH \<and> u \<noteq> SLASH"
proof (cases "rposition (\<lambda>u. u = BACKSLASH \<or> u = SLASH) path")
  case None
  moreover from None have "path_leaf path = path" by (simp only: path_leaf_def option.case drop_0)
  ultimately show ?thesis by (simp add: rposition_None)
next
  case (Some i)
  from rposition_split(2) [OF Some] show ?thesis by (simp add: path_leaf_def Some)
qed

end
