(* ===== verification/Rename_Backend.thy ===== *)
theory Rename_Backend
  imports Rename_Ports
begin

text \<open>
  The filesystem port \<open>RenameBackend\<close> of \<open>ports.rs\<close> as a record of operations over a backend
  state, and the contract its documentation states as a locale. The locale sees the filesystem
  as a map from locations to entries: \<open>loc\<close> is the location a path denotes, and a primitive move
  either moves the expected entry to an empty location or changes nothing; an uncertain failure
  did one of the two.
\<close>

record 'b backend_ops =
  validate_environment_op :: "'b \<Rightarrow> legacy_text \<Rightarrow> backend_error + unit"
  path_key_op :: "'b \<Rightarrow> legacy_text \<Rightarrow> path_key"
  resolve_source_op :: "'b \<Rightarrow> legacy_text \<Rightarrow> backend_error + resolved_source"
  planned_entry_key_op :: "'b \<Rightarrow> entry_identity \<Rightarrow> legacy_text \<Rightarrow> backend_error + path_key"
  observe_op :: "'b \<Rightarrow> legacy_text \<Rightarrow> backend_error + path_snapshot"
  same_or_descendant_op :: "'b \<Rightarrow> legacy_text \<Rightarrow> legacy_text \<Rightarrow> backend_error + bool"
  next_nonce_op :: "'b \<Rightarrow> (backend_error + u128) \<times> 'b"
  rename_op :: "'b \<Rightarrow> rename_operation \<Rightarrow> (backend_error + unit) \<times> 'b"

section \<open>Occupancy\<close>

type_synonym 'k occupancy = "'k \<Rightarrow> entry_identity option"

text \<open>One move of an entry between two locations.\<close>

type_synonym 'k move = "'k \<times> 'k \<times> entry_identity"

definition move_enabled :: "'k move \<Rightarrow> 'k occupancy \<Rightarrow> bool" where
  "move_enabled = (\<lambda>(s, t, e) m. m s = Some e \<and> m t = None)"

definition move_result :: "'k move \<Rightarrow> 'k occupancy \<Rightarrow> 'k occupancy" where
  "move_result = (\<lambda>(s, t, e) m. m(s := None, t := Some e))"

definition reverse_move :: "'k move \<Rightarrow> 'k move" where
  "reverse_move = (\<lambda>(s, t, e). (t, s, e))"

text \<open>Carrying out moves in order; \<open>None\<close> when one would overwrite or move another entry.\<close>

fun apply_moves :: "'k move list \<Rightarrow> 'k occupancy \<Rightarrow> 'k occupancy option" where
  "apply_moves [] m = Some m"
| "apply_moves (mv # mvs) m =
     (if move_enabled mv m then apply_moves mvs (move_result mv m) else None)"

lemma apply_moves_append:
  "apply_moves (xs @ ys) m = Option.bind (apply_moves xs m) (apply_moves ys)"
  by (induction xs arbitrary: m) auto

lemma apply_moves_snoc:
  "apply_moves (xs @ [mv]) m = Some m'' \<longleftrightarrow>
     (\<exists>m'. apply_moves xs m = Some m' \<and> move_enabled mv m' \<and> m'' = move_result mv m')"
  by (auto simp: apply_moves_append bind_eq_Some_conv)

lemma apply_moves_take:
  "apply_moves xs m = Some m' \<Longrightarrow> \<exists>m''. apply_moves (take n xs) m = Some m''"
  by (metis append_take_drop_id apply_moves_append bind_eq_Some_conv)

text \<open>A move can be undone, and undoing it gives back the occupancy.\<close>

lemma undo_move:
  assumes "move_enabled mv m"
  shows "move_enabled (reverse_move mv) (move_result mv m) \<and>
    move_result (reverse_move mv) (move_result mv m) = m"
  using assms by (cases mv) (auto simp: move_enabled_def move_result_def reverse_move_def)

lemma reverse_reverse [simp]: "reverse_move (reverse_move mv) = mv"
  by (cases mv) (simp add: reverse_move_def)

text \<open>A move changes the occupancy, so the two sides of an uncertain failure differ.\<close>

lemma move_changes: "move_enabled mv m \<Longrightarrow> move_result mv m \<noteq> m"
  by (cases mv) (auto simp: move_enabled_def move_result_def fun_eq_iff)

section \<open>The contract\<close>

definition operation_move :: "(legacy_text \<Rightarrow> 'k) \<Rightarrow> rename_operation \<Rightarrow> 'k move" where
  "operation_move loc op = (loc (op_source op), loc (op_destination op), op_expected_source op)"

definition renamed ::
  "'k move \<Rightarrow> 'k occupancy \<Rightarrow> backend_error + unit \<Rightarrow> 'k occupancy \<Rightarrow> bool" where
  "renamed mv m res m' =
     (case res of
        Inr _ \<Rightarrow> move_enabled mv m \<and> m' = move_result mv m
      | Inl e \<Rightarrow> m' = m \<or>
          backend_certainty e = MayHaveApplied \<and> move_enabled mv m \<and> m' = move_result mv m)"

lemma renamed_simps [simp]:
  "renamed mv m (Inr u) m' \<longleftrightarrow> move_enabled mv m \<and> m' = move_result mv m"
  "renamed mv m (Inl e) m' \<longleftrightarrow> m' = m \<or>
     backend_certainty e = MayHaveApplied \<and> move_enabled mv m \<and> m' = move_result mv m"
  by (simp_all add: renamed_def)

definition observed_at :: "path_snapshot \<Rightarrow> entry_identity option" where
  "observed_at snap = map_option observed_identity (snapshot_entry snap)"

locale rename_backend =
  fixes ops :: "'b backend_ops"
    and loc :: "legacy_text \<Rightarrow> 'k"
    and occ :: "'b \<Rightarrow> 'k occupancy"
  assumes rename_law: "rename_op ops b op = (res, b') \<Longrightarrow>
      renamed (operation_move loc op) (occ b) res (occ b')"
    and nonce_law: "next_nonce_op ops b = (nonce, b') \<Longrightarrow> occ b' = occ b"
    and observe_law: "observe_op ops b path = Inr snap \<Longrightarrow> observed_at snap = occ b (loc path)"
    and resolve_law: "resolve_source_op ops b path = Inr r \<Longrightarrow>
      observed_at (resolved_snapshot r) = occ b (loc path)"
    and key_law: "planned_entry_key_op ops b parent leaf = planned_entry_key_op ops b' parent leaf"
begin

text \<open>Moving forth and back through the port restores the occupancy.\<close>

lemma rename_back:
  assumes "rename_op ops b op = (Inr (), b1)" and "rename_op ops b1 op' = (Inr (), b2)"
    and "operation_move loc op' = reverse_move (operation_move loc op)"
  shows "occ b2 = occ b"
  using rename_law [OF assms(1)] rename_law [OF assms(2)] assms(3)
  by (metis renamed_simps(1) undo_move)

end

end
