(* ===== verification/Rename_Planner.thy ===== *)
theory Rename_Planner
  imports Rename_Backend Leaf_Name "HOL-Library.List_Lexorder" "HOL-Library.Product_Lexorder"
begin

unbundle bit_operations_syntax

text \<open>
  The planner of \<open>crates/darknamer-app/src/rename/planner.rs\<close>: it validates a request in stages,
  each of which collects all its issues before the next begins, and freezes the observations of
  the filesystem in a plan. It polls a cancellation at the head of every loop and never mutates
  the backend, so the backend is a constant of the run.
\<close>

section \<open>Ordered maps\<close>

text \<open>
  The \<open>BTreeMap\<close>s whose iteration order shows in the order of the issues: association lists
  sorted by key, with every key's values in insertion order. Identities are ordered by volume,
  then file, as the derived \<open>Ord\<close> does.
\<close>

instantiation entry_identity_ext :: (linorder) linorder
begin

definition less_eq_entry_identity_ext ::
  "('a::linorder) entry_identity_scheme \<Rightarrow> 'a entry_identity_scheme \<Rightarrow> bool" where
  "less_eq_entry_identity_ext a b \<longleftrightarrow>
     (volume a, file_id a, entry_identity.more a) \<le> (volume b, file_id b, entry_identity.more b)"

definition less_entry_identity_ext ::
  "('a::linorder) entry_identity_scheme \<Rightarrow> 'a entry_identity_scheme \<Rightarrow> bool" where
  "less_entry_identity_ext a b \<longleftrightarrow>
     (volume a, file_id a, entry_identity.more a) < (volume b, file_id b, entry_identity.more b)"

instance
  by standard (auto simp: less_eq_entry_identity_ext_def less_entry_identity_ext_def)

end

fun push_owner :: "'k::linorder \<Rightarrow> 'v \<Rightarrow> ('k \<times> 'v list) list \<Rightarrow> ('k \<times> 'v list) list" where
  "push_owner k v [] = [(k, [v])]"
| "push_owner k v ((k', vs) # m) =
     (if k = k' then (k', vs @ [v]) # m
      else if k < k' then (k, [v]) # (k', vs) # m
      else (k', vs) # push_owner k v m)"

definition owners_of :: "'k \<Rightarrow> ('k \<times> 'v list) list \<Rightarrow> 'v list" where
  "owners_of k m = (case map_of m k of None \<Rightarrow> [] | Some vs \<Rightarrow> vs)"

section \<open>Cancellation\<close>

datatype plan_attempt_error = Plan_Cancelled | Plan_Blocked "plan_issue list"

definition plan_poll :: "cancellation \<Rightarrow> nat \<Rightarrow> plan_attempt_error + nat" where
  "plan_poll cancel n = (if cancel n then Inl Plan_Cancelled else Inr (n + 1))"

text \<open>A loop that polls at its head and threads a state.\<close>

fun for_each ::
  "cancellation \<Rightarrow> ('a \<Rightarrow> 's \<Rightarrow> nat \<Rightarrow> plan_attempt_error + 's \<times> nat) \<Rightarrow> 'a list \<Rightarrow> 's \<Rightarrow> nat \<Rightarrow>
     plan_attempt_error + 's \<times> nat" where
  "for_each cancel f [] s n = Inr (s, n)"
| "for_each cancel f (x # xs) s n =
     and_then (plan_poll cancel n) (\<lambda>n.
     and_then (f x s n) (\<lambda>(s, n). for_each cancel f xs s n))"

definition each :: "('a \<Rightarrow> 's \<Rightarrow> 's) \<Rightarrow> 'a \<Rightarrow> 's \<Rightarrow> nat \<Rightarrow> plan_attempt_error + 's \<times> nat" where
  "each f x s n = Inr (f x s, n)"

text \<open>The end of a stage.\<close>

definition stage_end :: "plan_issue list \<Rightarrow> 'a \<Rightarrow> plan_attempt_error + 'a" where
  "stage_end issues x = (if issues \<noteq> [] then Inl (Plan_Blocked issues) else Inr x)"

definition issue :: "entry_id \<Rightarrow> plan_issue_kind \<Rightarrow> plan_issue" where
  "issue e kind = \<lparr>issue_entry = e, issue_kind = kind\<rparr>"

section \<open>Paths\<close>

definition MAX_PLAN_PATH_DEPTH :: usize where
  "MAX_PLAN_PATH_DEPTH = 256"

definition ascii_letter :: "u16 \<Rightarrow> bool" where
  "ascii_letter u \<longleftrightarrow> 65 \<le> u \<and> u \<le> 90 \<or> 97 \<le> u \<and> u \<le> 122"

definition verbatim_drive_root_separator :: "u16 list \<Rightarrow> usize option" where
  "verbatim_drive_root_separator units =
     (if 7 \<le> length units \<and> units ! 0 = BACKSLASH \<and> units ! 1 = BACKSLASH \<and> units ! 2 = 63 \<and>
         units ! 3 = BACKSLASH \<and> ascii_letter (units ! 4) \<and> units ! 5 = COLON \<and> units ! 6 = BACKSLASH
      then Some 6 else None)"

definition is_ancestor_separator :: "bool \<Rightarrow> u16 \<Rightarrow> bool" where
  "is_ancestor_separator verbatim u \<longleftrightarrow> u = BACKSLASH \<or> \<not> verbatim \<and> u = SLASH"

definition is_absolute_windows_path :: "u16 list \<Rightarrow> bool" where
  "is_absolute_windows_path units \<longleftrightarrow>
     3 \<le> length units \<and> ascii_letter (units ! 0) \<and> units ! 1 = COLON \<and> is_separator (units ! 2) \<or>
     2 \<le> length units \<and> is_separator (units ! 0) \<and> is_separator (units ! 1)"

text \<open>The number of runs of units between separators, after the root.\<close>

fun component_runs :: "bool \<Rightarrow> u16 list \<Rightarrow> bool \<Rightarrow> usize \<Rightarrow> usize" where
  "component_runs verbatim [] in_component depth = depth"
| "component_runs verbatim (u # us) in_component depth =
     (if is_ancestor_separator verbatim u then component_runs verbatim us False depth
      else if \<not> in_component then component_runs verbatim us True (depth + 1)
      else component_runs verbatim us in_component depth)"

definition path_component_depth :: "u16 list \<Rightarrow> usize" where
  "path_component_depth units =
     (let (start, verbatim) =
        (case verbatim_drive_root_separator units of
           Some root \<Rightarrow> (root + 1, True)
         | None \<Rightarrow> if 3 \<le> length units \<and> units ! 1 = COLON \<and> is_separator (units ! 2)
                   then (3, False) else (0, False))
      in component_runs verbatim (drop start units) False 0)"

text \<open>The ancestors of a path, nearest first; the visitor says when to stop.\<close>

fun visit_loop ::
  "nat \<Rightarrow> cancellation \<Rightarrow> bool \<Rightarrow> usize \<Rightarrow> (legacy_text \<Rightarrow> 's \<Rightarrow> bool \<times> 's) \<Rightarrow> legacy_text \<Rightarrow> 's \<Rightarrow> nat \<Rightarrow>
     plan_attempt_error + 's \<times> nat" where
  "visit_loop 0 cancel verbatim root visit ancestor s n = Inr (s, n)"
| "visit_loop (Suc k) cancel verbatim root visit ancestor s n =
     and_then (plan_poll cancel n) (\<lambda>n.
       case rposition (is_ancestor_separator verbatim) ancestor of
         None \<Rightarrow> Inr (s, n)
       | Some separator \<Rightarrow>
           if separator \<le> root then Inr (s, n)
           else
             (let ancestor = truncate_units ancestor separator in
              if ancestor = [] then Inr (s, n)
              else case visit ancestor s of (stop, s) \<Rightarrow>
                if stop then Inr (s, n)
                else visit_loop k cancel verbatim root visit ancestor s n))"

definition visit_direct_ancestors ::
  "cancellation \<Rightarrow> (legacy_text \<Rightarrow> 's \<Rightarrow> bool \<times> 's) \<Rightarrow> legacy_text \<Rightarrow> 's \<Rightarrow> nat \<Rightarrow>
     plan_attempt_error + 's \<times> nat" where
  "visit_direct_ancestors cancel visit path s n =
     (let root = verbatim_drive_root_separator path in
      visit_loop MAX_PLAN_PATH_DEPTH cancel (root \<noteq> None) (case root of None \<Rightarrow> 2 | Some r \<Rightarrow> r)
        visit path s n)"

section \<open>Validating the intents\<close>

definition source_path_validation :: "rename_intent \<Rightarrow> bool \<times> bool" where
  "source_path_validation intent =
     (MAX_PLAN_PATH_DEPTH < path_component_depth (intent_source intent),
      \<not> is_absolute_windows_path (intent_source intent))"

definition validate_intent :: "rename_intent \<Rightarrow> plan_issue list \<Rightarrow> plan_issue list" where
  "validate_intent intent issues =
     (let (too_deep, relative) = source_path_validation intent; e = intent_id intent in
      issues @
      (if too_deep \<or> MAX_PLAN_PATH_DEPTH < path_component_depth (intent_parent intent)
       then [issue e PathTooDeep] else []) @
      (if relative then [issue e RelativeSource] else []) @
      (if \<not> is_absolute_windows_path (intent_parent intent)
       then [issue e RelativeDestinationParent] else []) @
      (case validate_windows_leaf_name (intent_name intent) of
         Inl error \<Rightarrow> [issue e (InvalidDestinationName error)]
       | Inr _ \<Rightarrow> []))"

definition validate_source_path :: "rename_intent \<Rightarrow> plan_issue list \<Rightarrow> plan_issue list" where
  "validate_source_path intent issues =
     (let (too_deep, relative) = source_path_validation intent; e = intent_id intent in
      issues @ (if too_deep then [issue e PathTooDeep] else []) @
      (if relative then [issue e RelativeSource] else []))"

definition is_not_found_error :: "backend_error \<Rightarrow> bool" where
  "is_not_found_error e \<longleftrightarrow> backend_code e = 2 \<or> backend_code e = 3"

definition path_environment_issue :: "backend_error \<Rightarrow> plan_issue_kind" where
  "path_environment_issue e =
     (if backend_code e = 50 then UnsupportedCaseSensitiveParent
      else if backend_code e = 53 then UnsupportedWindowsPath
      else if backend_code e = 1005 then UnsupportedFilesystem
      else BackendFailure e)"

text \<open>Every changed intent is validated, and the source of every unchanged one beside them.\<close>

definition unchanged :: "rename_intent \<Rightarrow> bool" where
  "unchanged intent \<longleftrightarrow> intent_source intent = intent_destination intent"

definition changed_intents ::
  "cancellation \<Rightarrow> rename_intent list \<Rightarrow> nat \<Rightarrow> plan_attempt_error + rename_intent list \<times> nat" where
  "changed_intents cancel entries n =
     for_each cancel (each (\<lambda>intent acc. if \<not> unchanged intent then acc @ [intent] else acc))
       entries [] n"

definition validation_stage ::
  "cancellation \<Rightarrow> rename_intent list \<Rightarrow> rename_intent list \<Rightarrow> nat \<Rightarrow> plan_attempt_error + nat" where
  "validation_stage cancel entries changed n =
     and_then (for_each cancel (each validate_intent) changed [] n) (\<lambda>(issues, n).
     and_then (if changed \<noteq> []
               then for_each cancel (each validate_source_path) (filter unchanged entries) issues n
               else Inr (issues, n)) (\<lambda>(issues, n).
     stage_end issues n))"

definition environment_issue ::
  "'b backend_ops \<Rightarrow> 'b \<Rightarrow> entry_id \<Rightarrow> legacy_text \<Rightarrow> plan_issue list \<Rightarrow> plan_issue list" where
  "environment_issue ops b e path issues =
     (case validate_environment_op ops b path of
        Inl error \<Rightarrow> issues @ [issue e (path_environment_issue error)]
      | Inr _ \<Rightarrow> issues)"

definition environment_stage ::
  "'b backend_ops \<Rightarrow> 'b \<Rightarrow> cancellation \<Rightarrow> rename_intent list \<Rightarrow> nat \<Rightarrow> plan_attempt_error + nat" where
  "environment_stage ops b cancel changed n =
     and_then (for_each cancel (\<lambda>intent.
         for_each cancel (each (environment_issue ops b (intent_id intent)))
           [intent_source intent, intent_destination intent]) changed [] n) (\<lambda>(issues, n).
     stage_end issues n)"

section \<open>Duplicates and overlaps by path\<close>

definition push_issues ::
  "cancellation \<Rightarrow> plan_issue_kind \<Rightarrow> entry_id list \<Rightarrow> plan_issue list \<Rightarrow> nat \<Rightarrow>
     plan_attempt_error + plan_issue list \<times> nat" where
  "push_issues cancel kind = for_each cancel (each (\<lambda>e issues. issues @ [issue e kind]))"

definition append_duplicate_issues ::
  "cancellation \<Rightarrow> entry_id list list \<Rightarrow> plan_issue_kind \<Rightarrow> plan_issue list \<Rightarrow> nat \<Rightarrow>
     plan_attempt_error + plan_issue list \<times> nat" where
  "append_duplicate_issues cancel owner_sets kind =
     for_each cancel (push_issues cancel kind) (filter (\<lambda>owners. 1 < length owners) owner_sets)"

text \<open>The owners of the source keys, the entries and the destination keys.\<close>

type_synonym path_owners = "(path_key \<times> entry_id list) list"

definition push_owners ::
  "'b backend_ops \<Rightarrow> 'b \<Rightarrow> rename_intent \<Rightarrow> path_owners \<times> (entry_id \<times> entry_id list) list \<times> path_owners \<Rightarrow>
     path_owners \<times> (entry_id \<times> entry_id list) list \<times> path_owners" where
  "push_owners ops b intent = (\<lambda>(sources, entries, destinations).
     let e = intent_id intent in
     (push_owner (path_key_op ops b (intent_source intent)) e sources,
      push_owner e e entries,
      push_owner (path_key_op ops b (intent_destination intent)) e destinations))"

text \<open>A set of entries is a sorted list.\<close>

definition extend_set :: "entry_id list \<Rightarrow> entry_id list \<Rightarrow> entry_id list" where
  "extend_set es s = fold insort_insert es s"

definition visit_source_owner ::
  "'b backend_ops \<Rightarrow> 'b \<Rightarrow> path_owners \<Rightarrow> entry_id \<Rightarrow> legacy_text \<Rightarrow> entry_id list \<Rightarrow> bool \<times> entry_id list" where
  "visit_source_owner ops b sources e ancestor overlap =
     (False, case map_of sources (path_key_op ops b ancestor) of
        None \<Rightarrow> overlap
      | Some owners \<Rightarrow> extend_set owners (insort_insert e overlap))"

definition duplicates_stage ::
  "'b backend_ops \<Rightarrow> 'b \<Rightarrow> cancellation \<Rightarrow> rename_intent list \<Rightarrow> nat \<Rightarrow> plan_attempt_error + nat" where
  "duplicates_stage ops b cancel changed n =
     and_then (for_each cancel (each (push_owners ops b)) changed ([], [], []) n)
       (\<lambda>((sources, entries, destinations), n).
     and_then (append_duplicate_issues cancel (map snd sources) DuplicateSource [] n) (\<lambda>(issues, n).
     and_then (append_duplicate_issues cancel (map snd entries) DuplicateEntryId issues n) (\<lambda>(issues, n).
     and_then (append_duplicate_issues cancel (map snd destinations) DuplicateDestination issues n) (\<lambda>(issues, n).
     and_then (for_each cancel (\<lambda>intent.
         visit_direct_ancestors cancel (visit_source_owner ops b sources (intent_id intent))
           (intent_source intent)) changed [] n) (\<lambda>(overlap, n).
     and_then (push_issues cancel SourceOverlap overlap issues n) (\<lambda>(issues, n).
     stage_end issues n))))))"

section \<open>Freezing the rows\<close>

text \<open>The checks of a resolved source; \<open>Inr\<close> gives its entry and its key.\<close>

definition check_resolved ::
  "'b backend_ops \<Rightarrow> 'b \<Rightarrow> rename_intent \<Rightarrow> resolved_source \<Rightarrow> plan_issue_kind + observed_entry \<times> path_key" where
  "check_resolved ops b intent r =
     (let snapshot = resolved_snapshot r; actual = resolved_path r in
      case snapshot_entry snapshot of
        None \<Rightarrow> Inl MissingSource
      | Some entry \<Rightarrow>
          if observed_kind entry \<noteq> intent_kind intent then Inl SourceKindChanged
          else case resolved_entry_key r of
            None \<Rightarrow> Inl Backend
          | Some key \<Rightarrow>
              if MAX_PLAN_PATH_DEPTH < path_component_depth actual \<or> \<not> is_absolute_windows_path actual
              then Inl Backend
              else case planned_entry_key_op ops b (snapshot_parent snapshot) (path_leaf actual) of
                Inl e \<Rightarrow> Inl (BackendFailure e)
              | Inr key' \<Rightarrow>
                  if key' \<noteq> key then Inl Backend
                  else if is_reparse_point entry then Inl ReparseSource
                  else Inr (entry, key))"

text \<open>The issues of the move itself.\<close>

definition move_issues ::
  "move_scope \<Rightarrow> observed_entry \<Rightarrow> path_snapshot \<Rightarrow> path_snapshot \<Rightarrow> plan_issue_kind list" where
  "move_issues scope entry source destination =
     (let parents_differ = (snapshot_parent source \<noteq> snapshot_parent destination);
          volume_differs = (volume (observed_identity entry) \<noteq> volume (snapshot_parent source) \<or>
            volume (snapshot_parent source) \<noteq> volume (snapshot_parent destination))
      in (if parents_differ \<and> scope = SameParent then [CrossParent] else []) @
         (if parents_differ \<and> scope = SameVolumeFilesOnly \<and> observed_kind entry = Directory
          then [DirectoryMoveUnsupported] else []) @
         (if volume_differs then [CrossVolume] else []))"

definition plan_row_of ::
  "'b backend_ops \<Rightarrow> 'b \<Rightarrow> cancellation \<Rightarrow> move_scope \<Rightarrow> rename_intent \<Rightarrow> nat \<Rightarrow>
     plan_attempt_error + (plan_issue_kind list + plan_row) \<times> nat" where
  "plan_row_of ops b cancel scope intent n =
     (case resolve_source_op ops b (intent_source intent) of
        Inl e \<Rightarrow> Inr (Inl [BackendFailure e], n)
      | Inr r \<Rightarrow> and_then (plan_poll cancel n) (\<lambda>n.
          case check_resolved ops b intent r of
            Inl kind \<Rightarrow> Inr (Inl [kind], n)
          | Inr (entry, key) \<Rightarrow>
             (case observe_op ops b (intent_destination intent) of
                Inl e \<Rightarrow> Inr (Inl [BackendFailure e], n)
              | Inr destination \<Rightarrow> and_then (plan_poll cancel n) (\<lambda>n.
                  let kinds = move_issues scope entry (resolved_snapshot r) destination in
                  if kinds \<noteq> [] then Inr (Inl kinds, n)
                  else case planned_entry_key_op ops b (snapshot_parent destination) (intent_name intent) of
                    Inl e \<Rightarrow> Inr (Inl [BackendFailure e], n)
                  | Inr destination_key \<Rightarrow> Inr (Inr
                      \<lparr>row_id = intent_id intent, row_source = resolved_path r,
                       row_destination = intent_destination intent, row_kind = intent_kind intent,
                       row_source_snapshot = resolved_snapshot r, row_destination_snapshot = destination,
                       row_source_key = key, row_destination_key = destination_key\<rparr>, n)))))"

text \<open>The rows so far, the snapshots kept for the directory check, and the issues.\<close>

record row_stage =
  stage_rows :: "plan_row list"
  source_snapshots :: "entry_id \<rightharpoonup> path_snapshot"
  destination_snapshots :: "entry_id \<rightharpoonup> path_snapshot"
  stage_issues :: "plan_issue list"

definition keep_row :: "bool \<Rightarrow> entry_id \<Rightarrow> plan_issue_kind list + plan_row \<Rightarrow> row_stage \<Rightarrow> row_stage" where
  "keep_row has_directory e r s =
     (case r of
        Inl kinds \<Rightarrow> s\<lparr>stage_issues := stage_issues s @ map (issue e) kinds\<rparr>
      | Inr row \<Rightarrow>
          (let s = s\<lparr>stage_rows := stage_rows s @ [row]\<rparr> in
           if has_directory
           then s\<lparr>source_snapshots := (source_snapshots s)(e \<mapsto> row_source_snapshot row),
                  destination_snapshots := (destination_snapshots s)(e \<mapsto> row_destination_snapshot row)\<rparr>
           else s))"

definition freeze_stage ::
  "'b backend_ops \<Rightarrow> 'b \<Rightarrow> cancellation \<Rightarrow> move_scope \<Rightarrow> rename_intent list \<Rightarrow> nat \<Rightarrow>
     plan_attempt_error + row_stage \<times> nat" where
  "freeze_stage ops b cancel scope changed n =
     (let has_directory = list_ex (\<lambda>intent. intent_kind intent = Directory) changed in
      and_then (for_each cancel (\<lambda>intent s n.
          and_then (plan_row_of ops b cancel scope intent n) (\<lambda>(r, n).
            Inr (keep_row has_directory (intent_id intent) r s, n))) changed
          \<lparr>stage_rows = [], source_snapshots = Map.empty, destination_snapshots = Map.empty,
           stage_issues = []\<rparr> n) (\<lambda>(s, n).
      stage_end (stage_issues s) (s, n)))"

section \<open>Duplicates by identity\<close>

definition destination_stage :: "cancellation \<Rightarrow> plan_row list \<Rightarrow> nat \<Rightarrow> plan_attempt_error + nat" where
  "destination_stage cancel rows n =
     and_then (for_each cancel (each (\<lambda>row. push_owner (row_destination_key row) (row_id row))) rows [] n)
       (\<lambda>(owners, n).
     and_then (append_duplicate_issues cancel (map snd owners) DuplicateDestination [] n) (\<lambda>(issues, n).
     stage_end issues n))"

record source_candidate =
  cand_id :: entry_id
  cand_path :: legacy_text
  cand_key :: "path_key option"
  cand_changed :: bool

type_synonym candidate_groups = "((entry_identity \<times> entry_identity) \<times> source_candidate list) list"

definition push_changed_candidate :: "plan_row \<Rightarrow> candidate_groups \<Rightarrow> candidate_groups" where
  "push_changed_candidate row groups =
     (case snapshot_entry (row_source_snapshot row) of
        None \<Rightarrow> groups
      | Some source \<Rightarrow> push_owner (snapshot_parent (row_source_snapshot row), observed_identity source)
          \<lparr>cand_id = row_id row, cand_path = row_source row, cand_key = Some (row_source_key row),
           cand_changed = True\<rparr> groups)"

definition push_unchanged_candidate ::
  "'b backend_ops \<Rightarrow> 'b \<Rightarrow> rename_intent \<Rightarrow> candidate_groups \<times> plan_issue list \<Rightarrow>
     candidate_groups \<times> plan_issue list" where
  "push_unchanged_candidate ops b intent = (\<lambda>(groups, issues).
     case observe_op ops b (intent_source intent) of
       Inr snapshot \<Rightarrow>
         (case snapshot_entry snapshot of
            Some source \<Rightarrow> (push_owner (snapshot_parent snapshot, observed_identity source)
                \<lparr>cand_id = intent_id intent, cand_path = intent_source intent, cand_key = None,
                 cand_changed = False\<rparr> groups, issues)
          | None \<Rightarrow> (groups, issues))
     | Inl e \<Rightarrow>
         if is_not_found_error e then (groups, issues)
         else (groups, issues @ [issue (intent_id intent) (BackendFailure e)]))"

text \<open>Within a group, the candidates by the key their source resolves to.\<close>

definition push_normalized ::
  "'b backend_ops \<Rightarrow> 'b \<Rightarrow> source_candidate \<Rightarrow> (path_key \<times> source_candidate list) list \<times> plan_issue list \<Rightarrow>
     (path_key \<times> source_candidate list) list \<times> plan_issue list" where
  "push_normalized ops b c = (\<lambda>(owners, issues).
     let (key, issues) =
       (case cand_key c of
          Some key \<Rightarrow> (Some key, issues)
        | None \<Rightarrow>
            (case resolve_source_op ops b (cand_path c) of
               Inr r \<Rightarrow> (resolved_entry_key r, issues)
             | Inl e \<Rightarrow>
                 (None, if is_not_found_error e then issues
                        else issues @ [issue (cand_id c) (BackendFailure e)])))
     in (case key of None \<Rightarrow> owners | Some k \<Rightarrow> push_owner k c owners, issues))"

definition shared :: "source_candidate list \<Rightarrow> bool" where
  "shared cands \<longleftrightarrow> 1 < length cands \<and> list_ex cand_changed cands"

definition group_duplicates ::
  "'b backend_ops \<Rightarrow> 'b \<Rightarrow> cancellation \<Rightarrow> source_candidate list \<Rightarrow> entry_id list \<times> plan_issue list \<Rightarrow> nat \<Rightarrow>
     plan_attempt_error + (entry_id list \<times> plan_issue list) \<times> nat" where
  "group_duplicates ops b cancel cands = (\<lambda>(duplicates, issues) n.
     and_then (for_each cancel (each (push_normalized ops b)) cands ([], issues) n) (\<lambda>((owners, issues), n).
     and_then (for_each cancel (each (\<lambda>os. extend_set (map cand_id os)))
         (filter shared (map snd owners)) duplicates n) (\<lambda>(duplicates, n).
     Inr ((duplicates, issues), n))))"

definition append_actual_duplicate_source_issues ::
  "'b backend_ops \<Rightarrow> 'b \<Rightarrow> cancellation \<Rightarrow> rename_intent list \<Rightarrow> plan_row list \<Rightarrow> plan_issue list \<Rightarrow> nat \<Rightarrow>
     plan_attempt_error + plan_issue list \<times> nat" where
  "append_actual_duplicate_source_issues ops b cancel entries rows issues n =
     (if rows = [] then Inr (issues, n)
      else
        and_then (for_each cancel (each push_changed_candidate) rows [] n) (\<lambda>(groups, n).
        and_then (for_each cancel (each (push_unchanged_candidate ops b)) (filter unchanged entries)
            (groups, issues) n) (\<lambda>((groups, issues), n).
        if issues \<noteq> [] then Inr (issues, n)
        else
        and_then (for_each cancel (group_duplicates ops b cancel) (filter shared (map snd groups))
            ([], issues) n) (\<lambda>((duplicates, issues), n).
        push_issues cancel DuplicateSource duplicates issues n))))"

definition source_stage ::
  "'b backend_ops \<Rightarrow> 'b \<Rightarrow> cancellation \<Rightarrow> rename_intent list \<Rightarrow> plan_row list \<Rightarrow> nat \<Rightarrow> plan_attempt_error + nat" where
  "source_stage ops b cancel entries rows n =
     and_then (append_actual_duplicate_source_issues ops b cancel entries rows [] n) (\<lambda>(issues, n).
     stage_end issues n)"

section \<open>Overlaps by directory identity\<close>

type_synonym identity_owners = "(entry_identity \<times> entry_id list) list"

definition record_identity_overlap ::
  "identity_owners \<Rightarrow> entry_identity \<Rightarrow> entry_id \<Rightarrow> bool \<Rightarrow> entry_id list \<Rightarrow> bool \<times> entry_id list" where
  "record_identity_overlap directories ident candidate exclude overlap =
     (case map_of directories ident of
        None \<Rightarrow> (False, overlap)
      | Some owners \<Rightarrow>
          if exclude \<and> list_all (\<lambda>owner. owner = candidate) owners then (False, overlap)
          else (True, extend_set owners (insort_insert candidate overlap)))"

text \<open>What one observation shows: the entry itself, when it is compared, and its parent.\<close>

definition observation_overlap ::
  "identity_owners \<Rightarrow> entry_id \<Rightarrow> bool \<Rightarrow> bool \<Rightarrow> path_snapshot \<Rightarrow> entry_id list \<Rightarrow> bool \<times> entry_id list" where
  "observation_overlap directories candidate compare exclude snapshot overlap =
     (let (entry_matches, overlap) =
        (case snapshot_entry snapshot of
           Some entry \<Rightarrow>
             if compare \<and> observed_kind entry = Directory
             then record_identity_overlap directories (observed_identity entry) candidate exclude overlap
             else (False, overlap)
         | None \<Rightarrow> (False, overlap));
        (parent_matches, overlap) =
          record_identity_overlap directories (snapshot_parent snapshot) candidate False overlap
      in (entry_matches \<or> parent_matches, overlap))"

definition visit_identity ::
  "'b backend_ops \<Rightarrow> 'b \<Rightarrow> identity_owners \<Rightarrow> entry_id \<Rightarrow> legacy_text \<Rightarrow> entry_id list \<times> plan_issue list \<Rightarrow>
     bool \<times> (entry_id list \<times> plan_issue list)" where
  "visit_identity ops b directories candidate ancestor = (\<lambda>(overlap, issues).
     case observe_op ops b ancestor of
       Inl e \<Rightarrow>
         if is_not_found_error e then (False, (overlap, issues))
         else (True, (overlap, issues @ [issue candidate (BackendFailure e)]))
     | Inr snapshot \<Rightarrow>
         (case observation_overlap directories candidate True False snapshot overlap of
            (stop, overlap) \<Rightarrow> (stop, (overlap, issues))))"

definition inspect ::
  "'b backend_ops \<Rightarrow> 'b \<Rightarrow> cancellation \<Rightarrow> identity_owners \<Rightarrow> legacy_text \<Rightarrow> entry_id \<Rightarrow>
     backend_error + path_snapshot \<Rightarrow> bool \<Rightarrow> entry_id list \<times> plan_issue list \<Rightarrow> nat \<Rightarrow>
     plan_attempt_error + (entry_id list \<times> plan_issue list) \<times> nat" where
  "inspect ops b cancel directories endpoint candidate observation compare = (\<lambda>(overlap, issues) n.
     case observation of
       Inr snapshot \<Rightarrow>
         (case observation_overlap directories candidate compare True snapshot overlap of
            (matches, overlap) \<Rightarrow>
              if matches then Inr ((overlap, issues), n)
              else visit_direct_ancestors cancel (visit_identity ops b directories candidate) endpoint
                (overlap, issues) n)
     | Inl e \<Rightarrow>
         if is_not_found_error e
         then visit_direct_ancestors cancel (visit_identity ops b directories candidate) endpoint
           (overlap, issues) n
         else Inr ((overlap, issues @ [issue candidate (BackendFailure e)]), n))"

definition push_directory :: "plan_row \<Rightarrow> identity_owners \<Rightarrow> identity_owners" where
  "push_directory row directories =
     (case snapshot_entry (row_source_snapshot row) of
        Some source \<Rightarrow>
          if row_kind row = Directory
          then push_owner (observed_identity source) (row_id row) directories else directories
      | None \<Rightarrow> directories)"

text \<open>A frozen snapshot, or a new observation where none was kept.\<close>

definition frozen_or_observed ::
  "'b backend_ops \<Rightarrow> 'b \<Rightarrow> path_snapshot option \<Rightarrow> legacy_text \<Rightarrow> backend_error + path_snapshot" where
  "frozen_or_observed ops b kept path = (case kept of Some s \<Rightarrow> Inr s | None \<Rightarrow> observe_op ops b path)"

definition directory_stage ::
  "'b backend_ops \<Rightarrow> 'b \<Rightarrow> cancellation \<Rightarrow> rename_intent list \<Rightarrow> rename_intent list \<Rightarrow> row_stage \<Rightarrow> nat \<Rightarrow>
     plan_attempt_error + nat" where
  "directory_stage ops b cancel entries changed s n =
     and_then (if list_ex (\<lambda>intent. intent_kind intent = Directory) changed
               then for_each cancel (each push_directory) (stage_rows s) [] n
               else Inr ([], n)) (\<lambda>(directories, n).
     if directories = [] then Inr n
     else
       and_then (for_each cancel (\<lambda>intent.
           inspect ops b cancel directories (intent_source intent) (intent_id intent)
             (if unchanged intent then observe_op ops b (intent_source intent)
              else frozen_or_observed ops b (source_snapshots s (intent_id intent)) (intent_source intent))
             True) entries ([], []) n) (\<lambda>(state, n).
       and_then (for_each cancel (\<lambda>intent.
           inspect ops b cancel directories (intent_destination intent) (intent_id intent)
             (frozen_or_observed ops b (destination_snapshots s (intent_id intent)) (intent_destination intent))
             False) changed state n) (\<lambda>((overlap, issues), n).
       and_then (push_issues cancel SourceOverlap overlap issues n) (\<lambda>(issues, n).
       stage_end issues n))))"

section \<open>The plan\<close>

definition occupied_issue :: "path_key set \<Rightarrow> plan_row \<Rightarrow> plan_issue list \<Rightarrow> plan_issue list" where
  "occupied_issue sources row issues =
     (if snapshot_entry (row_destination_snapshot row) \<noteq> None \<and> row_destination_key row \<notin> sources
      then issues @ [issue (row_id row) DestinationOccupied] else issues)"

definition occupied_stage :: "cancellation \<Rightarrow> plan_row list \<Rightarrow> nat \<Rightarrow> plan_attempt_error + nat" where
  "occupied_stage cancel rows n =
     and_then (for_each cancel (each (\<lambda>row. insert (row_source_key row))) rows {} n) (\<lambda>(sources, n).
     and_then (for_each cancel (each (occupied_issue sources)) rows [] n) (\<lambda>(issues, n).
     stage_end issues n))"

definition hash_byte :: "u64 \<Rightarrow> u8 \<Rightarrow> u64" where
  "hash_byte h byte = (h XOR ucast byte) * 0x100000001b3"

definition to_le_bytes :: "u64 \<Rightarrow> u8 list" where
  "to_le_bytes value = map (\<lambda>i. ucast (drop_bit (8 * i) value)) [0..<8]"

definition hash_value :: "u64 \<Rightarrow> u64 \<Rightarrow> u64" where
  "hash_value value h = foldl hash_byte h (to_le_bytes value)"

definition hash_text :: "legacy_text \<Rightarrow> u64 \<Rightarrow> u64" where
  "hash_text text h = fold (\<lambda>u. hash_value (ucast u)) text (hash_value (of_nat (length text)) h)"

fun scope_value :: "move_scope \<Rightarrow> u64" where
  "scope_value SameParent = 0"
| "scope_value SameVolumeFilesOnly = 1"

fun kind_value :: "entry_kind \<Rightarrow> u64" where
  "kind_value File = 0"
| "kind_value Directory = 1"

definition hash_intent :: "rename_intent \<Rightarrow> u64 \<Rightarrow> u64" where
  "hash_intent intent h =
     hash_text (intent_destination intent) (hash_text (intent_source intent)
       (hash_value (kind_value (intent_kind intent)) (hash_value (ucast (intent_id intent)) h)))"

definition plan_id_cancellable ::
  "cancellation \<Rightarrow> plan_request \<Rightarrow> nat \<Rightarrow> plan_attempt_error + u64 \<times> nat" where
  "plan_id_cancellable cancel request n =
     for_each cancel (each hash_intent) (request_entries request)
       (hash_value (of_nat (length (request_entries request)))
         (hash_value (scope_value (request_scope request))
           (hash_value (request_revision request) (hash_value 0x4452504c414e0001 0xcbf29ce484222325)))) n"

definition plan_cancellable ::
  "'b backend_ops \<Rightarrow> 'b \<Rightarrow> cancellation \<Rightarrow> plan_request \<Rightarrow> plan_attempt_error + rename_plan" where
  "plan_cancellable ops b cancel request =
     (let entries = request_entries request; scope = request_scope request in
      and_then (changed_intents cancel entries 0) (\<lambda>(changed, n).
      and_then (validation_stage cancel entries changed n) (\<lambda>n.
      and_then (environment_stage ops b cancel changed n) (\<lambda>n.
      and_then (duplicates_stage ops b cancel changed n) (\<lambda>n.
      and_then (freeze_stage ops b cancel scope changed n) (\<lambda>(s, n).
      and_then (destination_stage cancel (stage_rows s) n) (\<lambda>n.
      and_then (source_stage ops b cancel entries (stage_rows s) n) (\<lambda>n.
      and_then (directory_stage ops b cancel entries changed s n) (\<lambda>n.
      and_then (occupied_stage cancel (stage_rows s) n) (\<lambda>n.
      and_then (plan_poll cancel n) (\<lambda>n.
      and_then (plan_id_cancellable cancel request n) (\<lambda>(plan_id, n).
      Inr \<lparr>plan_id_of = plan_id, plan_revision = request_revision request,
           plan_entries = stage_rows s, plan_scope = scope\<rparr>))))))))))))"

text \<open>\<open>plan\<close>: the planner that is never cancelled.\<close>

definition plan_request_now :: "'b backend_ops \<Rightarrow> 'b \<Rightarrow> plan_request \<Rightarrow> plan_issue list + rename_plan" where
  "plan_request_now ops b request =
     (case plan_cancellable ops b (\<lambda>_. False) request of
        Inr plan \<Rightarrow> Inr plan
      | Inl (Plan_Blocked issues) \<Rightarrow> Inl issues
      | Inl Plan_Cancelled \<Rightarrow> Inl [])"

end
