(* ===== verification/Rename_Journal.thy ===== *)
theory Rename_Journal
  imports Rename_Ports
begin

text \<open>
  The write-ahead journal (\<open>crates/darknamer-app/src/rename/journal.rs\<close>): its records, the
  strict replay \<open>replay_journal\<close>, the in-memory adapter, and the protocol an uncorrupted journal
  follows. The protocol is a labelled step relation over five phases; replay is proved to accept
  exactly its runs and to classify them by the phase they end in. The port \<open>JournalStore\<close> is a
  record of operations with the contract the executor relies on as a locale.
\<close>

section \<open>Steps and records\<close>

datatype temporary_phase = NoTemporary | IntoTemporary | FromTemporary

record journal_step =
  step_entry :: entry_id
  step_source :: legacy_text
  step_destination :: legacy_text
  step_expected_source :: entry_identity
  step_source_parent :: entry_identity
  step_destination_parent :: entry_identity
  step_kind :: "entry_kind option"
  step_scope :: move_scope
  step_temporary_phase :: temporary_phase

definition journal_step_new ::
  "entry_id \<Rightarrow> legacy_text \<Rightarrow> legacy_text \<Rightarrow> entry_identity \<Rightarrow> entry_identity \<Rightarrow> entry_identity \<Rightarrow>
     temporary_phase \<Rightarrow> journal_step" where
  "journal_step_new e src dst expected src_par dst_par ph =
     \<lparr>step_entry = e, step_source = src, step_destination = dst, step_expected_source = expected,
      step_source_parent = src_par, step_destination_parent = dst_par, step_kind = Some File,
      step_scope = SameParent, step_temporary_phase = ph\<rparr>"

definition with_move_authorization :: "journal_step \<Rightarrow> entry_kind \<Rightarrow> move_scope \<Rightarrow> journal_step" where
  "with_move_authorization st kind scope = st\<lparr>step_kind := Some kind, step_scope := scope\<rparr>"

definition legacy_same_parent ::
  "entry_id \<Rightarrow> legacy_text \<Rightarrow> legacy_text \<Rightarrow> entry_identity \<Rightarrow> entry_identity \<Rightarrow> entry_identity \<Rightarrow>
     temporary_phase \<Rightarrow> journal_step" where
  "legacy_same_parent e src dst expected src_par dst_par ph =
     \<lparr>step_entry = e, step_source = src, step_destination = dst, step_expected_source = expected,
      step_source_parent = src_par, step_destination_parent = dst_par, step_kind = None,
      step_scope = SameParent, step_temporary_phase = ph\<rparr>"

datatype journal_direction = Forward | Rollback

datatype journal_terminal = Committed | RolledBack

datatype journal_record =
    Intent plan_id "journal_step list"
  | Prepared usize journal_direction
  | Completed usize journal_direction
  | NotApplied usize journal_direction
  | Terminal journal_terminal

datatype journal_corruption =
    MissingIntent
  | StepOutOfBounds
  | InvalidOrder
  | RecordsAfterTerminal
  | InvalidTerminal

datatype recovery_reason =
    PreparedOnly usize journal_direction
  | Incomplete
  | Corrupt journal_corruption

datatype recovery_state =
    Clean
  | RecoveryRequired "plan_id option" usize usize recovery_reason

section \<open>Replay\<close>

text \<open>
  The variables of the loop. The two \<open>BTreeSet<usize>\<close> are ascending lists of indices;
  \<open>next_forward + 1\<close> is at most the number of records and does not wrap.
\<close>

record replay_state =
  forward_prepared :: "usize option"
  rollback_prepared :: "usize option"
  next_forward :: usize
  completed_forward :: "usize list"
  completed_rollback :: "usize list"
  rollback_started :: bool
  replay_terminal :: "journal_terminal option"

definition replay_start :: replay_state where
  "replay_start = \<lparr>forward_prepared = None, rollback_prepared = None, next_forward = 0,
     completed_forward = [], completed_rollback = [], rollback_started = False,
     replay_terminal = None\<rparr>"

definition validate_step :: "usize \<Rightarrow> usize \<Rightarrow> journal_corruption + unit" where
  "validate_step i step_count = (if i < step_count then Inr () else Inl StepOutOfBounds)"

definition replay_prepared :: "usize \<Rightarrow> journal_direction \<Rightarrow> replay_state \<Rightarrow> journal_corruption + replay_state" where
  "replay_prepared i d s =
     (case d of
        Forward \<Rightarrow>
          if \<not> rollback_started s \<and> forward_prepared s = None \<and> i = next_forward s
          then Inr (s\<lparr>forward_prepared := Some i\<rparr>)
          else Inl InvalidOrder
      | Rollback \<Rightarrow>
          if rollback_prepared s = None \<and> forward_prepared s = None
          then let expected = find (\<lambda>candidate. candidate \<notin> set (completed_rollback s))
                                (rev (completed_forward s))
               in if expected = Some i
                  then Inr (s\<lparr>rollback_started := True, rollback_prepared := Some i\<rparr>)
                  else Inl InvalidOrder
          else Inl InvalidOrder)"

definition replay_completed :: "usize \<Rightarrow> journal_direction \<Rightarrow> replay_state \<Rightarrow> journal_corruption + replay_state" where
  "replay_completed i d s =
     (case d of
        Forward \<Rightarrow>
          if forward_prepared s = Some i
          then Inr (s\<lparr>forward_prepared := None,
                      completed_forward := insort_insert i (completed_forward s),
                      next_forward := next_forward s + 1\<rparr>)
          else Inl InvalidOrder
      | Rollback \<Rightarrow>
          if rollback_prepared s = Some i
          then Inr (s\<lparr>rollback_prepared := None,
                      completed_rollback := insort_insert i (completed_rollback s)\<rparr>)
          else Inl InvalidOrder)"

definition replay_not_applied :: "usize \<Rightarrow> journal_direction \<Rightarrow> replay_state \<Rightarrow> journal_corruption + replay_state" where
  "replay_not_applied i d s =
     (case d of
        Forward \<Rightarrow>
          if forward_prepared s = Some i
          then Inr (s\<lparr>forward_prepared := None, rollback_started := True,
                      next_forward := next_forward s + 1\<rparr>)
          else Inl InvalidOrder
      | Rollback \<Rightarrow>
          if rollback_prepared s = Some i
          then Inr (s\<lparr>rollback_prepared := None\<rparr>)
          else Inl InvalidOrder)"

definition replay_transition ::
  "usize \<Rightarrow> replay_state \<Rightarrow> journal_record \<Rightarrow> journal_corruption + replay_state" where
  "replay_transition n s r =
     (if replay_terminal s \<noteq> None then Inl RecordsAfterTerminal
      else case r of
        Intent _ _ \<Rightarrow> Inl InvalidOrder
      | Prepared i d \<Rightarrow> and_then (validate_step i n) (\<lambda>_. replay_prepared i d s)
      | Completed i d \<Rightarrow> and_then (validate_step i n) (\<lambda>_. replay_completed i d s)
      | NotApplied i d \<Rightarrow> and_then (validate_step i n) (\<lambda>_. replay_not_applied i d s)
      | Terminal t \<Rightarrow> Inr (s\<lparr>replay_terminal := Some t\<rparr>))"

definition corrupt :: "plan_id \<Rightarrow> replay_state \<Rightarrow> journal_corruption \<Rightarrow> recovery_state" where
  "corrupt p s c = RecoveryRequired (Some p) (length (completed_forward s))
     (length (completed_rollback s)) (Corrupt c)"

definition terminal_valid :: "usize \<Rightarrow> replay_state \<Rightarrow> journal_terminal \<Rightarrow> bool" where
  "terminal_valid n s t =
     (case t of
        Committed \<Rightarrow> length (completed_forward s) = n \<and> completed_rollback s = [] \<and>
          forward_prepared s = None \<and> rollback_prepared s = None
      | RolledBack \<Rightarrow> completed_forward s = completed_rollback s \<and>
          forward_prepared s = None \<and> rollback_prepared s = None)"

definition replay_end :: "plan_id \<Rightarrow> usize \<Rightarrow> replay_state \<Rightarrow> recovery_state" where
  "replay_end p n s =
     (case replay_terminal s of
        Some t \<Rightarrow> if terminal_valid n s t then Clean else corrupt p s InvalidTerminal
      | None \<Rightarrow>
          RecoveryRequired (Some p) (length (completed_forward s)) (length (completed_rollback s))
            (case forward_prepared s of
               Some i \<Rightarrow> PreparedOnly i Forward
             | None \<Rightarrow> (case rollback_prepared s of
                 Some i \<Rightarrow> PreparedOnly i Rollback
               | None \<Rightarrow> Incomplete)))"

text \<open>The loop: an error is classified with the sets as they were before the record.\<close>

fun replay_loop :: "plan_id \<Rightarrow> usize \<Rightarrow> replay_state \<Rightarrow> journal_record list \<Rightarrow> recovery_state" where
  "replay_loop p n s [] = replay_end p n s"
| "replay_loop p n s (r # rs) =
     (case replay_transition n s r of
        Inl c \<Rightarrow> corrupt p s c
      | Inr s' \<Rightarrow> replay_loop p n s' rs)"

definition replay_journal :: "journal_record list \<Rightarrow> recovery_state" where
  "replay_journal records =
     (case records of
        [] \<Rightarrow> Clean
      | Intent p steps # rest \<Rightarrow> replay_loop p (length steps) replay_start rest
      | _ \<Rightarrow> RecoveryRequired None 0 0 (Corrupt MissingIntent))"

section \<open>The protocol\<close>

text \<open>
  What the journal of a transaction with \<open>n\<close> steps may record. \<open>Running m\<close>: the first \<open>m\<close> steps
  completed. \<open>Undoing m r\<close>: \<open>m\<close> steps completed, the steps from \<open>r\<close> on undone again, no further
  forward step. A pending phase has a prepared record without its outcome.
\<close>

datatype phase =
    Running nat
  | ForwardPending nat
  | Undoing nat nat
  | UndoPending nat nat
  | Closed journal_terminal

inductive protocol :: "nat \<Rightarrow> phase \<Rightarrow> journal_record \<Rightarrow> phase \<Rightarrow> bool" for n where
  prepare: "m < n \<Longrightarrow> protocol n (Running m) (Prepared m Forward) (ForwardPending m)"
| complete: "protocol n (ForwardPending m) (Completed m Forward) (Running (Suc m))"
| skip: "protocol n (ForwardPending m) (NotApplied m Forward) (Undoing m m)"
| turn: "protocol n (Running (Suc m)) (Prepared m Rollback) (UndoPending (Suc m) (Suc m))"
| undo: "protocol n (Undoing m (Suc r)) (Prepared r Rollback) (UndoPending m (Suc r))"
| undone: "protocol n (UndoPending m (Suc r)) (Completed r Rollback) (Undoing m r)"
| retry: "protocol n (UndoPending m (Suc r)) (NotApplied r Rollback) (Undoing m (Suc r))"
| commit: "protocol n (Running n) (Terminal Committed) (Closed Committed)"
| commit_late: "protocol n (Undoing n n) (Terminal Committed) (Closed Committed)"
| abort: "protocol n (Running 0) (Terminal RolledBack) (Closed RolledBack)"
| restored: "protocol n (Undoing m 0) (Terminal RolledBack) (Closed RolledBack)"

inductive_cases protocol_ClosedE: "protocol n (Closed t) r ph"
inductive_simps protocol_Running: "protocol n (Running m) r ph"
inductive_simps protocol_ForwardPending: "protocol n (ForwardPending m) r ph"
inductive_simps protocol_Undoing: "protocol n (Undoing m k) r ph"
inductive_simps protocol_UndoPending: "protocol n (UndoPending m k) r ph"
inductive_simps protocol_Closed: "protocol n (Closed t) r ph"

lemmas protocol_steps = protocol_Running protocol_ForwardPending protocol_Undoing
  protocol_UndoPending protocol_Closed

inductive run :: "nat \<Rightarrow> phase \<Rightarrow> journal_record list \<Rightarrow> phase \<Rightarrow> bool" for n where
  stop: "run n ph [] ph"
| next_record: "protocol n ph r ph' \<Longrightarrow> run n ph' rs ph'' \<Longrightarrow> run n ph (r # rs) ph''"

inductive_simps run_Nil [simp]: "run n ph [] ph'"
inductive_simps run_Cons: "run n ph (r # rs) ph'"

lemma run_append: "run n ph (xs @ ys) ph'' \<longleftrightarrow> (\<exists>ph'. run n ph xs ph' \<and> run n ph' ys ph'')"
  by (induction xs arbitrary: ph) (auto simp: run_Cons)

lemma run_snoc: "run n ph (xs @ [r]) ph'' \<longleftrightarrow> (\<exists>ph'. run n ph xs ph' \<and> protocol n ph' r ph'')"
  by (simp add: run_append run_Cons)

text \<open>The phases that can occur: the completed steps exist and the undone ones are completed.\<close>

fun phase_ok :: "nat \<Rightarrow> phase \<Rightarrow> bool" where
  "phase_ok n (Running m) = (m \<le> n)"
| "phase_ok n (ForwardPending m) = (m < n)"
| "phase_ok n (Undoing m r) = (m \<le> n \<and> r \<le> m)"
| "phase_ok n (UndoPending m r) = (m \<le> n \<and> r \<le> m \<and> 0 < r)"
| "phase_ok n (Closed t) = True"

lemma protocol_ok: "protocol n ph r ph' \<Longrightarrow> phase_ok n ph \<Longrightarrow> phase_ok n ph'"
  by (induction rule: protocol.induct) auto

lemma run_ok: "run n ph rs ph' \<Longrightarrow> phase_ok n ph \<Longrightarrow> phase_ok n ph'"
  by (induction rule: run.induct) (auto dest: protocol_ok)

section \<open>Replay follows the protocol\<close>

text \<open>The variables of the replay loop in a phase.\<close>

fun in_phase :: "nat \<Rightarrow> phase \<Rightarrow> replay_state \<Rightarrow> bool" where
  "in_phase n (Running m) s \<longleftrightarrow> forward_prepared s = None \<and> rollback_prepared s = None \<and>
     next_forward s = m \<and> completed_forward s = [0..<m] \<and> completed_rollback s = [] \<and>
     \<not> rollback_started s \<and> replay_terminal s = None"
| "in_phase n (ForwardPending m) s \<longleftrightarrow> forward_prepared s = Some m \<and> rollback_prepared s = None \<and>
     next_forward s = m \<and> completed_forward s = [0..<m] \<and> completed_rollback s = [] \<and>
     \<not> rollback_started s \<and> replay_terminal s = None"
| "in_phase n (Undoing m r) s \<longleftrightarrow> forward_prepared s = None \<and> rollback_prepared s = None \<and>
     completed_forward s = [0..<m] \<and> completed_rollback s = [r..<m] \<and>
     rollback_started s \<and> replay_terminal s = None"
| "in_phase n (UndoPending m r) s \<longleftrightarrow> forward_prepared s = None \<and>
     rollback_prepared s = Some (r - 1) \<and> completed_forward s = [0..<m] \<and>
     completed_rollback s = [r..<m] \<and> rollback_started s \<and> replay_terminal s = None"
| "in_phase n (Closed t) s \<longleftrightarrow> replay_terminal s = Some t \<and> terminal_valid n s t"

text \<open>How replay names a phase.\<close>

fun classify :: "plan_id \<Rightarrow> phase \<Rightarrow> recovery_state" where
  "classify p (Running m) = RecoveryRequired (Some p) m 0 Incomplete"
| "classify p (ForwardPending m) = RecoveryRequired (Some p) m 0 (PreparedOnly m Forward)"
| "classify p (Undoing m r) = RecoveryRequired (Some p) m (m - r) Incomplete"
| "classify p (UndoPending m r) = RecoveryRequired (Some p) m (m - r) (PreparedOnly (r - 1) Rollback)"
| "classify p (Closed t) = Clean"

definition is_corrupt :: "recovery_state \<Rightarrow> bool" where
  "is_corrupt s = (case s of RecoveryRequired _ _ _ (Corrupt _) \<Rightarrow> True | _ \<Rightarrow> False)"

lemma is_corrupt_simps [simp]:
  "\<not> is_corrupt Clean"
  "is_corrupt (RecoveryRequired p a b (Corrupt c))"
  "\<not> is_corrupt (RecoveryRequired p a b (PreparedOnly i d))"
  "\<not> is_corrupt (RecoveryRequired p a b Incomplete)"
  "is_corrupt (corrupt q s c)"
  by (simp_all add: is_corrupt_def corrupt_def)

lemma not_corrupt_classify [simp]: "\<not> is_corrupt (classify p ph)"
  by (cases ph) simp_all

lemma next_undo:
  "r \<le> m \<Longrightarrow> find (\<lambda>c. c \<notin> set [r..<m]) (rev [0..<m]) = (if r = 0 then None else Some (r - 1))"
proof (induction m)
  case (Suc m)
  show ?case
  proof (cases "r \<le> m")
    case True
    have "find (\<lambda>c. c \<notin> set [r..<Suc m]) (rev [0..<m]) = find (\<lambda>c. c \<notin> set [r..<m]) (rev [0..<m])"
      by (rule find_cong) auto
    with True Suc.IH show ?thesis by simp
  next
    case False
    with Suc.prems show ?thesis by auto
  qed
qed simp

lemma insort_upto: "insort_insert m [0..<m] = [0..<Suc m]"
proof -
  have "insort m xs = xs @ [m]" if "\<forall>x\<in>set xs. x < m" for xs :: "nat list"
    using that by (induction xs) auto
  then show ?thesis by (simp add: insort_insert_key_def)
qed

lemma insort_down: "0 < r \<Longrightarrow> r \<le> m \<Longrightarrow> insort_insert (r - 1) [r..<m] = [r - 1..<m]"
proof -
  assume r: "0 < r" "r \<le> m"
  then obtain k where k: "r = Suc k" by (cases r) auto
  have "insort k [Suc k..<m] = k # [Suc k..<m]"
    by (cases "Suc k < m") (simp_all add: upt_conv_Cons)
  with k r show ?thesis by (simp add: insort_insert_key_def upt_conv_Cons)
qed

lemma upto_full: "k \<le> m \<Longrightarrow> [0..<m] = [k..<m] \<longleftrightarrow> k = (0::nat)"
  by (metis diff_diff_cancel diff_self_eq_0 length_upt minus_nat.diff_0)

lemma in_phase_start: "in_phase n (Running 0) replay_start"
  by (simp add: replay_start_def)

lemmas transition_defs = replay_transition_def replay_prepared_def replay_completed_def
  replay_not_applied_def validate_step_def

text \<open>Every step of the protocol is accepted by the loop and leads to its phase.\<close>

lemma replay_follows:
  assumes "protocol n ph r ph'" and "phase_ok n ph" and "in_phase n ph s"
  shows "\<exists>s'. replay_transition n s r = Inr s' \<and> in_phase n ph' s'"
  using assms
proof (induction rule: protocol.induct)
  case (turn m)
  then show ?case
    by (cases "completed_forward s" rule: rev_cases)
      (auto simp: transition_defs)
next
  case (undo m r)
  then show ?case using next_undo [of "Suc r" m] by (simp add: transition_defs)
next
  case (undone m r)
  then show ?case using insort_down [of "Suc r" m] by (simp add: transition_defs)
next
  case (commit)
  then show ?case by (simp add: transition_defs terminal_valid_def)
next
  case (commit_late)
  then show ?case by (simp add: transition_defs terminal_valid_def)
next
  case (abort)
  then show ?case by (simp add: transition_defs terminal_valid_def)
next
  case (restored m)
  then show ?case by (simp add: transition_defs terminal_valid_def)
qed (simp_all add: transition_defs insort_upto)

text \<open>Every record the loop accepts is a step of the protocol, a contradicted terminal apart.\<close>

lemma replay_only_follows:
  assumes "phase_ok n ph" and "in_phase n ph s" and "replay_transition n s r = Inr s'"
  shows "(\<exists>ph'. protocol n ph r ph') \<or>
    (\<exists>t. r = Terminal t \<and> \<not> terminal_valid n s' t \<and> replay_terminal s' = Some t)"
proof (cases ph)
  case (Running m)
  with assms show ?thesis
    by (cases r; cases m)
      (auto simp: transition_defs protocol_Running terminal_valid_def
        split: if_splits journal_direction.splits journal_terminal.splits)
next
  case (ForwardPending m)
  with assms show ?thesis
    by (cases r)
      (auto simp: transition_defs protocol_ForwardPending terminal_valid_def
        split: if_splits journal_direction.splits journal_terminal.splits)
next
  case (Undoing m k)
  with assms next_undo [of k m] upto_full [of k m] show ?thesis
    by (cases r; cases k)
      (auto simp: transition_defs protocol_Undoing terminal_valid_def
        split: if_splits journal_direction.splits journal_terminal.splits)
next
  case (UndoPending m k)
  with assms show ?thesis
    by (cases r; cases k)
      (auto simp: transition_defs protocol_UndoPending terminal_valid_def
        split: if_splits journal_direction.splits journal_terminal.splits)
next
  case (Closed t)
  with assms show ?thesis by (simp add: transition_defs)
qed


lemma replay_end_classify:
  "in_phase n ph s \<Longrightarrow> phase_ok n ph \<Longrightarrow> replay_end p n s = classify p ph"
  by (cases ph) (auto simp: replay_end_def)

lemma replay_loop_run:
  assumes "run n ph rs ph'" and "phase_ok n ph" and "in_phase n ph s"
  shows "replay_loop p n s rs = classify p ph'"
  using assms
proof (induction arbitrary: s rule: run.induct)
  case (stop ph)
  then show ?case by (simp add: replay_end_classify)
next
  case (next_record ph r ph' rs ph'')
  from replay_follows [OF next_record.hyps(1) next_record.prems] obtain s'
    where "replay_transition n s r = Inr s'" "in_phase n ph' s'" by blast
  with next_record.IH protocol_ok [OF next_record.hyps(1) next_record.prems(1)] show ?case
    by simp
qed

lemma replay_loop_bad_terminal:
  assumes "replay_terminal s = Some t" and "\<not> terminal_valid n s t"
  shows "is_corrupt (replay_loop p n s rs)"
  using assms by (cases rs) (auto simp: replay_end_def replay_transition_def)

lemma replay_loop_no_run:
  assumes "phase_ok n ph" and "in_phase n ph s" and "\<nexists>ph'. run n ph rs ph'"
  shows "is_corrupt (replay_loop p n s rs)"
  using assms
proof (induction rs arbitrary: ph s)
  case (Cons r rs)
  show ?case
  proof (cases "replay_transition n s r")
    case (Inr s')
    from replay_only_follows [OF Cons.prems(1,2) Inr]
    consider ph' where "protocol n ph r ph'"
      | t where "\<not> terminal_valid n s' t" "replay_terminal s' = Some t" by blast
    then show ?thesis
    proof cases
      case 1
      from replay_follows [OF 1 Cons.prems(1,2)] Inr have "in_phase n ph' s'" by simp
      moreover have "phase_ok n ph'" by (rule protocol_ok [OF 1 Cons.prems(1)])
      moreover have "\<nexists>ph''. run n ph' rs ph''" using Cons.prems(3) 1 by (auto simp: run_Cons)
      ultimately show ?thesis using Cons.IH Inr by simp
    next
      case 2
      then show ?thesis using Inr replay_loop_bad_terminal by simp
    qed
  qed simp
qed simp

text \<open>
  A journal is a run of the protocol, ending in \<open>ph\<close>, when it starts with its manifest. Replay
  names exactly that phase, and calls everything else corrupt.
\<close>

definition journal_run :: "journal_record list \<Rightarrow> phase \<Rightarrow> bool" where
  "journal_run records ph \<longleftrightarrow>
     (\<exists>p steps rest. records = Intent p steps # rest \<and> run (length steps) (Running 0) rest ph)"

lemma replay_run:
  "run (length steps) (Running 0) rest ph \<Longrightarrow>
     replay_journal (Intent p steps # rest) = classify p ph"
  using replay_loop_run [OF _ _ in_phase_start] by (simp add: replay_journal_def)

lemma replay_corrupt_iff:
  assumes "records \<noteq> []"
  shows "is_corrupt (replay_journal records) \<longleftrightarrow> (\<nexists>ph. journal_run records ph)"
proof (cases "\<exists>p steps rest. records = Intent p steps # rest")
  case True
  then obtain p steps rest where r: "records = Intent p steps # rest" by blast
  have "phase_ok (length steps) (Running 0)" by simp
  from replay_loop_no_run [OF this in_phase_start] replay_run [of steps rest _ p] show ?thesis
    by (auto simp: r journal_run_def replay_journal_def)
next
  case False
  with assms show ?thesis
    by (cases records rule: list.exhaust; cases "hd records")
      (auto simp: replay_journal_def journal_run_def)
qed

lemma journal_run_replay:
  "journal_run records ph \<Longrightarrow> \<exists>p. replay_journal records = classify p ph"
  by (auto simp: journal_run_def replay_run)

lemma replay_clean_iff:
  "replay_journal records = Clean \<longleftrightarrow> records = [] \<or> (\<exists>t. journal_run records (Closed t))"
proof (cases "records = []")
  case False
  have "\<exists>t. journal_run records (Closed t)" if c: "replay_journal records = Clean"
  proof -
    from c replay_corrupt_iff [OF False] obtain ph where ph: "journal_run records ph" by auto
    with journal_run_replay [OF ph] c show ?thesis by (cases ph) auto
  qed
  with False journal_run_replay show ?thesis by fastforce
qed (simp add: replay_journal_def)

end
