(* ===== verification/Rename_Schedule.thy ===== *)
theory Rename_Schedule
  imports Rename_Backend Rename_Journal
begin

unbundle bit_operations_syntax

text \<open>
  The schedule builder (\<open>crates/darknamer-app/src/rename/schedule.rs\<close>): it orders the renames of
  a plan so that no step overwrites an entry, and opens cycles through a temporary name. The
  cancellation callback is a sequence of answers with a poll counter, so every check of the code
  consumes one answer.
\<close>

section \<open>Types\<close>

definition MAX_TEMP_CANDIDATES :: usize where
  "MAX_TEMP_CANDIDATES = 32"

record schedule_step =
  sched_entry :: entry_id
  sched_source :: legacy_text
  sched_destination :: legacy_text
  sched_identity :: entry_identity
  sched_source_parent :: entry_identity
  sched_destination_parent :: entry_identity
  sched_kind :: entry_kind
  sched_scope :: move_scope
  sched_phase :: temporary_phase

datatype schedule_error =
    Sched_Cancelled
  | Sched_Invalid
  | Sched_Backend backend_error
  | Sched_StaleParent entry_id
  | Sched_TemporaryExhausted entry_id

section \<open>Steps\<close>

definition check_cancelled :: "cancellation \<Rightarrow> nat \<Rightarrow> schedule_error + nat" where
  "check_cancelled cancel polls = (if cancel polls then Inl Sched_Cancelled else Inr (polls + 1))"

definition source_identity :: "plan_row \<Rightarrow> schedule_error + entry_identity" where
  "source_identity row =
     ok_or Sched_Invalid (map_option observed_identity (snapshot_entry (row_source_snapshot row)))"

definition direct_step :: "plan_row \<Rightarrow> move_scope \<Rightarrow> schedule_error + schedule_step" where
  "direct_step row scope =
     and_then (source_identity row) (\<lambda>ident.
       Inr \<lparr>sched_entry = row_id row, sched_source = row_source row,
            sched_destination = row_destination row, sched_identity = ident,
            sched_source_parent = snapshot_parent (row_source_snapshot row),
            sched_destination_parent = snapshot_parent (row_destination_snapshot row),
            sched_kind = row_kind row, sched_scope = scope, sched_phase = NoTemporary\<rparr>)"

definition into_temporary :: "plan_row \<Rightarrow> move_scope \<Rightarrow> legacy_text \<Rightarrow> entry_identity \<Rightarrow> schedule_step" where
  "into_temporary row scope temporary ident =
     \<lparr>sched_entry = row_id row, sched_source = row_source row, sched_destination = temporary,
      sched_identity = ident, sched_source_parent = snapshot_parent (row_source_snapshot row),
      sched_destination_parent = snapshot_parent (row_source_snapshot row),
      sched_kind = row_kind row, sched_scope = scope, sched_phase = IntoTemporary\<rparr>"

definition from_temporary :: "plan_row \<Rightarrow> move_scope \<Rightarrow> legacy_text \<Rightarrow> entry_identity \<Rightarrow> schedule_step" where
  "from_temporary row scope temporary ident =
     \<lparr>sched_entry = row_id row, sched_source = temporary, sched_destination = row_destination row,
      sched_identity = ident, sched_source_parent = snapshot_parent (row_source_snapshot row),
      sched_destination_parent = snapshot_parent (row_destination_snapshot row),
      sched_kind = row_kind row, sched_scope = scope, sched_phase = FromTemporary\<rparr>"

section \<open>Temporary names\<close>

definition hex_digit :: "nat \<Rightarrow> u16" where
  "hex_digit d = (if d < 10 then of_nat (48 + d) else of_nat (87 + d))"

text \<open>\<open>{:0nx}\<close> of a word of at most \<open>4 * n\<close> bits.\<close>

definition hex_units :: "nat \<Rightarrow> 'a::len word \<Rightarrow> u16 list" where
  "hex_units n w = map (\<lambda>i. hex_digit (unat (drop_bit (4 * i) w AND 15))) (rev [0..<n])"

definition ascii_units :: "string \<Rightarrow> u16 list" where
  "ascii_units s = map (\<lambda>c. of_char c) s"

definition temporary_leaf :: "plan_id \<Rightarrow> u128 \<Rightarrow> entry_id \<Rightarrow> nat \<Rightarrow> legacy_text" where
  "temporary_leaf plan nonce entry ordinal =
     ascii_units ''.__darknamer_'' @ hex_units 16 plan @ ascii_units ''_'' @ hex_units 32 nonce @
     ascii_units ''_'' @ hex_units 8 entry @ ascii_units ''_'' @
     hex_units 2 (of_nat ordinal :: u64) @ ascii_units ''.tmp''"

definition schedule_parent_units :: "u16 list \<Rightarrow> u16 list" where
  "schedule_parent_units path =
     (case rposition (\<lambda>u. u = BACKSLASH \<or> u = SLASH) path of None \<Rightarrow> [] | Some i \<Rightarrow> take i path)"

definition temporary_path :: "plan_row \<Rightarrow> legacy_text \<Rightarrow> legacy_text" where
  "temporary_path row leaf = schedule_parent_units (row_source row) @ [BACKSLASH] @ leaf"

text \<open>One turn of the probe loop: the free candidate with its key, or \<open>None\<close> to go on.\<close>

definition try_candidate ::
  "cancellation \<Rightarrow> 'b backend_ops \<Rightarrow> 'b \<Rightarrow> plan_id \<Rightarrow> plan_row \<Rightarrow> u128 \<Rightarrow> path_key set \<Rightarrow> nat \<Rightarrow> nat \<Rightarrow>
     schedule_error + (legacy_text \<times> path_key) option \<times> nat" where
  "try_candidate cancel ops b plan pivot nonce reserved polls ordinal =
     and_then (check_cancelled cancel polls) (\<lambda>polls.
       let leaf = temporary_leaf plan nonce (row_id pivot) ordinal;
           path = temporary_path pivot leaf;
           parent = snapshot_parent (row_source_snapshot pivot)
       in case planned_entry_key_op ops b parent leaf of
            Inl e \<Rightarrow> Inl (Sched_Backend e)
          | Inr key \<Rightarrow>
              if key \<in> reserved then Inr (None, polls)
              else case observe_op ops b path of
                Inl e \<Rightarrow> Inl (Sched_Backend e)
              | Inr snap \<Rightarrow>
                  if snapshot_parent snap \<noteq> parent then Inl (Sched_StaleParent (row_id pivot))
                  else if snapshot_entry snap = None then Inr (Some (path, key), polls)
                  else Inr (None, polls))"

text \<open>The loop over the ordinals; the result carries the new reservations and polls.\<close>

fun temporary_candidates ::
  "cancellation \<Rightarrow> 'b backend_ops \<Rightarrow> 'b \<Rightarrow> plan_id \<Rightarrow> plan_row \<Rightarrow> u128 \<Rightarrow> path_key set \<Rightarrow> nat \<Rightarrow>
     nat list \<Rightarrow> schedule_error + legacy_text \<times> path_key set \<times> nat" where
  "temporary_candidates cancel ops b plan pivot nonce reserved polls [] =
     Inl (Sched_TemporaryExhausted (row_id pivot))"
| "temporary_candidates cancel ops b plan pivot nonce reserved polls (ordinal # ordinals) =
     and_then (try_candidate cancel ops b plan pivot nonce reserved polls ordinal) (\<lambda>(found, polls).
       case found of
         Some (path, key) \<Rightarrow> Inr (path, insert key reserved, polls)
       | None \<Rightarrow> temporary_candidates cancel ops b plan pivot nonce reserved polls ordinals)"

definition unique_temporary_path ::
  "cancellation \<Rightarrow> 'b backend_ops \<Rightarrow> 'b \<Rightarrow> plan_id \<Rightarrow> plan_row \<Rightarrow> path_key set \<Rightarrow> nat \<Rightarrow>
     (schedule_error + legacy_text \<times> path_key set \<times> nat) \<times> 'b" where
  "unique_temporary_path cancel ops b plan pivot reserved polls =
     (case check_cancelled cancel polls of
        Inl e \<Rightarrow> (Inl e, b)
      | Inr polls1 \<Rightarrow>
         (case next_nonce_op ops b of
            (Inl e, b1) \<Rightarrow> (Inl (Sched_Backend e), b1)
          | (Inr nonce, b1) \<Rightarrow>
              (temporary_candidates cancel ops b1 plan pivot nonce reserved polls1
                 [0..<MAX_TEMP_CANDIDATES], b1)))"

section \<open>Building the dependency graph\<close>

text \<open>A loop whose only exit is the check at its head.\<close>

primrec check_times :: "cancellation \<Rightarrow> nat \<Rightarrow> nat \<Rightarrow> schedule_error + nat" where
  "check_times cancel polls 0 = Inr polls"
| "check_times cancel polls (Suc n) =
     and_then (check_cancelled cancel polls) (\<lambda>polls. check_times cancel polls n)"

text \<open>\<open>source_owners\<close>: the row that owns a source key; a second owner is invalid.\<close>

fun source_owners_loop ::
  "cancellation \<Rightarrow> nat \<Rightarrow> nat \<Rightarrow> path_key list \<Rightarrow> (path_key \<rightharpoonup> usize) \<Rightarrow>
     schedule_error + (path_key \<rightharpoonup> usize) \<times> nat" where
  "source_owners_loop cancel polls i [] owners = Inr (owners, polls)"
| "source_owners_loop cancel polls i (key # keys) owners =
     and_then (check_cancelled cancel polls) (\<lambda>polls.
       if owners key \<noteq> None then Inl Sched_Invalid
       else source_owners_loop cancel polls (i + 1) keys (owners(key \<mapsto> i)))"

text \<open>\<open>dependencies\<close> and \<open>predecessors\<close>.\<close>

fun dependencies_loop ::
  "cancellation \<Rightarrow> nat \<Rightarrow> (path_key \<rightharpoonup> usize) \<Rightarrow> nat \<Rightarrow> path_key list \<Rightarrow>
     usize option list \<Rightarrow> usize option list \<Rightarrow>
     schedule_error + usize option list \<times> usize option list \<times> nat" where
  "dependencies_loop cancel polls owners i [] deps preds = Inr (deps, preds, polls)"
| "dependencies_loop cancel polls owners i (key # keys) deps preds =
     and_then (check_cancelled cancel polls) (\<lambda>polls.
       case owners key of
         None \<Rightarrow> dependencies_loop cancel polls owners (i + 1) keys deps preds
       | Some w \<Rightarrow>
           if preds ! w \<noteq> None then Inl Sched_Invalid
           else dependencies_loop cancel polls owners (i + 1) keys (deps[i := Some w])
             (preds[w := Some i]))"

section \<open>The main loop\<close>

record schedule_state =
  ss_pending :: "bool list"
  ss_remaining :: usize
  ss_indices :: "usize list"
  ss_ready :: "usize list"
  ss_reserved :: "path_key set"
  ss_out :: "schedule_step list"
  ss_polls :: nat

text \<open>\<open>remaining_indices\<close> and \<open>ready\<close>, ordered sets, are ascending lists.\<close>

definition finish_row :: "usize \<Rightarrow> schedule_state \<Rightarrow> schedule_error + schedule_state" where
  "finish_row i s =
     (if i \<notin> set (ss_indices s) then Inl Sched_Invalid
      else Inr (s\<lparr>ss_pending := (ss_pending s)[i := False], ss_indices := remove1 i (ss_indices s),
                  ss_remaining := wrapping_sub (ss_remaining s) 1\<rparr>))"

definition push_direct :: "rename_plan \<Rightarrow> usize \<Rightarrow> schedule_state \<Rightarrow> schedule_error + schedule_state" where
  "push_direct plan i s =
     (if \<not> ss_pending s ! i then Inl Sched_Invalid
      else and_then (direct_step (plan_entries plan ! i) (plan_scope plan)) (\<lambda>st.
        finish_row i (s\<lparr>ss_out := ss_out s @ [st]\<rparr>)))"

definition ready_iteration ::
  "rename_plan \<Rightarrow> usize option list \<Rightarrow> usize \<Rightarrow> usize list \<Rightarrow> schedule_state \<Rightarrow>
     schedule_error + schedule_state" where
  "ready_iteration plan preds i rest s =
     and_then (push_direct plan i (s\<lparr>ss_ready := rest\<rparr>)) (\<lambda>s'.
       case preds ! i of
         None \<Rightarrow> Inr s'
       | Some p \<Rightarrow>
           Inr (if ss_pending s' ! p then s'\<lparr>ss_ready := insort_insert p (ss_ready s')\<rparr> else s'))"

lemma remove1_shrinks: "i \<in> set xs \<Longrightarrow> length (remove1 i xs) < length xs"
  by (induction xs) auto

lemma finish_row_shrinks:
  "finish_row i s = Inr s' \<Longrightarrow> length (ss_indices s') < length (ss_indices s)"
  by (auto simp: finish_row_def simp del: length_remove1 intro: remove1_shrinks split: if_splits)

lemma push_direct_shrinks:
  "push_direct plan i s = Inr s' \<Longrightarrow> length (ss_indices s') < length (ss_indices s)"
  by (auto simp: push_direct_def and_then_Inr dest!: finish_row_shrinks split: if_splits)

text \<open>The walk along the predecessors that closes a cycle.\<close>

function cycle_walk ::
  "cancellation \<Rightarrow> rename_plan \<Rightarrow> usize option list \<Rightarrow> usize \<Rightarrow> usize \<Rightarrow> schedule_state \<Rightarrow>
     schedule_error + schedule_state" where
  "cycle_walk cancel plan preds pivot freed s =
     (case preds ! freed of
        None \<Rightarrow> Inr s
      | Some i \<Rightarrow>
          (case check_cancelled cancel (ss_polls s) of
             Inl e \<Rightarrow> Inl e
           | Inr polls \<Rightarrow>
               if i = pivot then Inr (s\<lparr>ss_polls := polls\<rparr>)
               else case push_direct plan i (s\<lparr>ss_polls := polls\<rparr>) of
                 Inl e \<Rightarrow> Inl e
               | Inr s' \<Rightarrow> cycle_walk cancel plan preds pivot i s'))"
  by pat_completeness auto
termination
  by (relation "measure (\<lambda>(_, _, _, _, _, s). length (ss_indices s))")
    (auto dest: push_direct_shrinks)

declare cycle_walk.simps [simp del]

definition cycle_iteration ::
  "cancellation \<Rightarrow> 'b backend_ops \<Rightarrow> rename_plan \<Rightarrow> usize option list \<Rightarrow> schedule_state \<Rightarrow> 'b \<Rightarrow>
     (schedule_error + schedule_state) \<times> 'b" where
  "cycle_iteration cancel ops plan preds s b =
     (case ss_indices s of
        [] \<Rightarrow> (Inl Sched_Invalid, b)
      | pivot # _ \<Rightarrow>
         (let row = plan_entries plan ! pivot
          in case unique_temporary_path cancel ops b (plan_id_of plan) row (ss_reserved s) (ss_polls s) of
               (Inl e, b1) \<Rightarrow> (Inl e, b1)
             | (Inr (temporary, reserved, polls), b1) \<Rightarrow>
                 (and_then (source_identity row) (\<lambda>ident.
                    and_then (cycle_walk cancel plan preds pivot pivot
                      (s\<lparr>ss_reserved := reserved, ss_polls := polls,
                         ss_out := ss_out s @ [into_temporary row (plan_scope plan) temporary ident]\<rparr>))
                    (\<lambda>s'. finish_row pivot
                       (s'\<lparr>ss_out := ss_out s' @
                          [from_temporary row (plan_scope plan) temporary ident]\<rparr>))), b1)))"

definition loop_iteration ::
  "cancellation \<Rightarrow> 'b backend_ops \<Rightarrow> rename_plan \<Rightarrow> usize option list \<Rightarrow> schedule_state \<Rightarrow> 'b \<Rightarrow>
     (schedule_error + schedule_state) \<times> 'b" where
  "loop_iteration cancel ops plan preds s b =
     (case check_cancelled cancel (ss_polls s) of
        Inl e \<Rightarrow> (Inl e, b)
      | Inr polls \<Rightarrow>
         (case ss_ready s of
            i # rest \<Rightarrow> (ready_iteration plan preds i rest (s\<lparr>ss_polls := polls\<rparr>), b)
          | [] \<Rightarrow> cycle_iteration cancel ops plan preds (s\<lparr>ss_polls := polls\<rparr>) b))"

lemma ready_iteration_shrinks:
  "ready_iteration plan preds i rest s = Inr s' \<Longrightarrow> length (ss_indices s') < length (ss_indices s)"
  by (auto simp: ready_iteration_def and_then_Inr dest!: push_direct_shrinks
      split: option.splits if_splits)

lemma cycle_walk_shrinks:
  "cycle_walk cancel plan preds pivot freed s = Inr s' \<Longrightarrow>
     length (ss_indices s') \<le> length (ss_indices s)"
proof (induction cancel plan preds pivot freed s rule: cycle_walk.induct)
  case (1 cancel plan preds pivot freed s)
  then show ?case
    by (subst (asm) (2) cycle_walk.simps)
      (fastforce split: option.splits sum.splits if_splits dest: push_direct_shrinks)
qed

lemma loop_iteration_shrinks:
  "loop_iteration cancel ops plan preds s b = (Inr s', b') \<Longrightarrow>
     length (ss_indices s') < length (ss_indices s)"
  by (auto simp: loop_iteration_def cycle_iteration_def and_then_Inr Let_def
      split: sum.splits list.splits prod.splits
      dest!: ready_iteration_shrinks finish_row_shrinks cycle_walk_shrinks)

function schedule_loop ::
  "cancellation \<Rightarrow> 'b backend_ops \<Rightarrow> rename_plan \<Rightarrow> usize option list \<Rightarrow> schedule_state \<Rightarrow> 'b \<Rightarrow>
     (schedule_error + schedule_state) \<times> 'b" where
  "schedule_loop cancel ops plan preds s b =
     (if ss_remaining s = 0 then (Inr s, b)
      else case loop_iteration cancel ops plan preds s b of
        (Inl e, b1) \<Rightarrow> (Inl e, b1)
      | (Inr s', b1) \<Rightarrow> schedule_loop cancel ops plan preds s' b1)"
  by pat_completeness auto
termination
  by (relation "measure (\<lambda>(_, _, _, _, s, _). length (ss_indices s))")
    (auto dest: loop_iteration_shrinks [OF sym])

declare schedule_loop.simps [simp del]

text \<open>Everything before the main loop: the predecessors and the first state.\<close>

definition schedule_start ::
  "cancellation \<Rightarrow> rename_plan \<Rightarrow> schedule_error + usize option list \<times> schedule_state" where
  "schedule_start cancel plan =
     (let rows = plan_entries plan; n = length rows;
          source_keys = map row_source_key rows; destination_keys = map row_destination_key rows
      in and_then (check_times cancel 0 n) (\<lambda>polls.
         and_then (check_times cancel polls (n + n)) (\<lambda>polls.
         and_then (source_owners_loop cancel polls 0 source_keys Map.empty) (\<lambda>(owners, polls).
         and_then (dependencies_loop cancel polls owners 0 destination_keys (replicate n None)
           (replicate n None)) (\<lambda>(deps, preds, polls).
         and_then (check_times cancel polls n) (\<lambda>polls.
           Inr (preds,
             \<lparr>ss_pending = replicate n True, ss_remaining = n, ss_indices = [0..<n],
              ss_ready = filter (\<lambda>i. deps ! i = None) [0..<n],
              ss_reserved = set source_keys \<union> set destination_keys, ss_out = [],
              ss_polls = polls\<rparr>)))))))"

definition build_schedule_cancellable ::
  "cancellation \<Rightarrow> 'b backend_ops \<Rightarrow> rename_plan \<Rightarrow> 'b \<Rightarrow>
     (schedule_error + schedule_step list \<times> nat) \<times> 'b" where
  "build_schedule_cancellable cancel ops plan b =
     (case schedule_start cancel plan of
        Inl e \<Rightarrow> (Inl e, b)
      | Inr (preds, s) \<Rightarrow>
         (case schedule_loop cancel ops plan preds s b of
            (Inl e, b1) \<Rightarrow> (Inl e, b1)
          | (Inr s', b1) \<Rightarrow> (Inr (ss_out s', ss_polls s'), b1)))"

end
