(* ===== verification/Schedule_Correct.thy ===== *)
theory Schedule_Correct
  imports Rename_Schedule
begin

text \<open>
  Correctness of the schedule builder. Rows are numbered; \<open>S i\<close> and \<open>T i\<close> are the locations row
  \<open>i\<close> leaves and reaches, \<open>E i\<close> its entry. During the loop the filesystem is \<open>laid\<close> out as: pending
  rows at their sources, finished rows at their destinations, every other location of the plan
  empty. The graph facts (who blocks whom) come from the maps built before the loop.
\<close>

section \<open>Layouts\<close>

definition laid ::
  "(nat \<Rightarrow> 'k) \<Rightarrow> (nat \<Rightarrow> 'k) \<Rightarrow> (nat \<Rightarrow> entry_identity) \<Rightarrow> nat set \<Rightarrow> 'k occupancy \<Rightarrow>
     nat set \<Rightarrow> nat set \<Rightarrow> 'k occupancy \<Rightarrow> bool" where
  "laid S T E N base P D m \<longleftrightarrow>
     (\<forall>i\<in>P. m (S i) = Some (E i)) \<and> (\<forall>i\<in>D. m (T i) = Some (E i)) \<and>
     (\<forall>x. x \<notin> S ` P \<union> T ` D \<longrightarrow> m x = (if x \<in> S ` N \<union> T ` N then None else base x))"

lemma laid_direct:
  assumes l: "laid S T E N base P D m" and i: "i \<in> P" "i \<notin> D" "P \<subseteq> N" "D \<subseteq> N"
    and inj: "inj_on S N" "inj_on T N" and closed: "\<forall>j\<in>D. T j \<notin> S ` P" and free: "T i \<notin> S ` P"
  shows "move_enabled (S i, T i, E i) m \<and>
    laid S T E N base (P - {i}) (insert i D) (move_result (S i, T i, E i) m)"
proof -
  from inj(2) i have t: "T i \<notin> T ` D" by (subst inj_on_image_mem_iff) auto
  with free l i have "m (T i) = None" by (auto simp: laid_def)
  moreover have "\<forall>j\<in>P - {i}. S j \<noteq> S i" using inj(1) i by (auto dest: inj_onD)
  moreover have "\<forall>j\<in>insert i D. T j \<noteq> S i" using closed free i by (metis imageI insertE)
  moreover have "\<forall>j\<in>D. T j \<noteq> T i" "\<forall>j\<in>P. S j \<noteq> T i" using t free by (metis imageI)+
  ultimately show ?thesis using l i unfolding laid_def move_enabled_def move_result_def
    by auto
qed

lemma laid_open:
  assumes l: "laid S T E N base P D m" and i: "i \<in> P" "P \<subseteq> N" "D \<subseteq> N"
    and inj: "inj_on S N" and closed: "\<forall>j\<in>D. T j \<notin> S ` P"
    and t: "t \<notin> S ` N \<union> T ` N" "base t = None"
  shows "move_enabled (S i, t, E i) m \<and>
    laid S T E N (base(t := Some (E i))) (P - {i}) D (move_result (S i, t, E i) m)"
proof -
  from t(1) i(2,3) have "t \<notin> S ` P \<union> T ` D" by auto
  with l t have "m t = None" by (auto simp: laid_def)
  moreover have "\<forall>j\<in>P - {i}. S j \<noteq> S i" using inj i by (auto dest: inj_onD)
  moreover have "\<forall>j\<in>D. T j \<noteq> S i" using closed i by (metis imageI)
  moreover have "\<forall>j\<in>P. S j \<noteq> t" "\<forall>j\<in>D. T j \<noteq> t" using t i by auto
  moreover have "move_result (S i, t, E i) m x =
      (if x \<in> S ` N \<union> T ` N then None else (base(t := Some (E i))) x)"
    if x: "x \<notin> S ` (P - {i}) \<union> T ` D" for x
  proof (cases "x = S i \<or> x = t")
    case True
    with t(1) i show ?thesis by (auto simp: move_result_def)
  next
    case False
    with x have "x \<notin> S ` P \<union> T ` D" by auto
    with l False show ?thesis unfolding laid_def move_result_def by auto
  qed
  ultimately show ?thesis using l i unfolding laid_def move_enabled_def
    by (auto simp: move_result_def)
qed

lemma laid_close:
  assumes l: "laid S T E N (base(t := Some (E i))) P D m" and i: "i \<in> N" "i \<notin> D" "P \<subseteq> N" "D \<subseteq> N"
    and inj: "inj_on T N" and free: "T i \<notin> S ` P"
    and t: "t \<notin> S ` N \<union> T ` N" "base t = None"
  shows "move_enabled (t, T i, E i) m \<and>
    laid S T E N base P (insert i D) (move_result (t, T i, E i) m)"
proof -
  from inj i have ti: "T i \<notin> T ` D" by (subst inj_on_image_mem_iff) auto
  with free l i have "m (T i) = None" by (auto simp: laid_def)
  moreover have n: "\<forall>j\<in>P. S j \<noteq> t" "\<forall>j\<in>D. T j \<noteq> t" "T i \<noteq> t" using t i by auto
  moreover have "m t = Some (E i)"
  proof -
    from l have "t \<notin> S ` P \<union> T ` D \<longrightarrow>
        m t = (if t \<in> S ` N \<union> T ` N then None else (base(t := Some (E i))) t)"
      unfolding laid_def by blast
    with t(1) n show ?thesis by auto
  qed
  ultimately show ?thesis using l i t free ti unfolding laid_def move_enabled_def move_result_def
    by auto
qed

section \<open>The dependency graph\<close>

lemma check_cancelled_Inr: "check_cancelled cancel p = Inr q \<longleftrightarrow> \<not> cancel p \<and> q = p + 1"
  by (auto simp: check_cancelled_def)

lemma map_add_shift: "f k = None \<Longrightarrow> m(k \<mapsto> v) ++ f = m ++ f(k \<mapsto> v)"
  by (auto simp: fun_eq_iff map_add_def split: option.splits)

lemma source_owners_loop_Inr:
  "source_owners_loop cancel polls i keys ow = Inr (ow', p) \<Longrightarrow>
     distinct keys \<and> set keys \<inter> dom ow = {} \<and>
     ow' = ow ++ map_of (zip keys [i..<i + length keys])"
proof (induction cancel polls i keys ow rule: source_owners_loop.induct)
  case (2 cancel polls i key keys ow)
  from "2.prems" obtain q where q: "check_cancelled cancel polls = Inr q" "ow key = None"
      "source_owners_loop cancel q (i + 1) keys (ow(key \<mapsto> i)) = Inr (ow', p)"
    by (auto simp: and_then_Inr split: if_splits)
  have c: "\<not> ow key \<noteq> None" using q(2) by simp
  from "2.IH" [OF c q(3)] have ih: "distinct keys" "set keys \<inter> dom (ow(key \<mapsto> i)) = {}"
      "ow' = ow(key \<mapsto> i) ++ map_of (zip keys [Suc i..<Suc i + length keys])"
    by (simp_all only: Suc_eq_plus1)
  from ih(2) have k: "key \<notin> set keys" by auto
  then have none: "map_of (zip keys [Suc i..<Suc i + length keys]) key = None"
    by (auto simp: map_of_eq_None_iff dest: set_zip_leftD)
  have u: "[i..<i + length (key # keys)] = i # [Suc i..<Suc i + length keys]"
    by (simp add: upt_conv_Cons del: upt_Suc)
  have "ow' = ow ++ map_of (zip (key # keys) [i..<i + length (key # keys)])"
  proof -
    let ?z = "map_of (zip keys [Suc i..<Suc i + length keys])"
    have "ow(key \<mapsto> i) ++ ?z = ow ++ ?z(key \<mapsto> i)"
      using none by (rule map_add_shift)
    then show ?thesis unfolding ih(3) u by simp
  qed
  moreover have "distinct (key # keys)" using ih(1) k by simp
  moreover have "set (key # keys) \<inter> dom ow = {}" using ih(2) q(2) by (auto simp: domIff)
  ultimately show ?case by blast
qed simp

lemma owners_index:
  assumes "distinct keys"
  shows "map_of (zip keys [0..<length keys]) k = Some j \<longleftrightarrow> j < length keys \<and> keys ! j = k"
proof -
  have "distinct (map fst (zip keys [0..<length keys]))" using assms by simp
  then have "map_of (zip keys [0..<length keys]) k = Some j \<longleftrightarrow>
      (k, j) \<in> set (zip keys [0..<length keys])" by (rule map_of_eq_Some_iff)
  then show ?thesis by (auto simp: set_zip)
qed

lemma dependencies_loop_Inr:
  assumes "dependencies_loop cancel polls owners i keys deps preds = Inr (deps', preds', p)"
    and "i + length keys = length deps" and "\<forall>k w. owners k = Some w \<longrightarrow> w < length preds"
    and "\<forall>j<length deps. i \<le> j \<longrightarrow> deps ! j = None"
  shows "length deps' = length deps \<and> length preds' = length preds \<and>
    (\<forall>j<length deps. deps' ! j = (if i \<le> j then owners (keys ! (j - i)) else deps ! j)) \<and>
    (\<forall>w<length preds. \<forall>j. preds' ! w = Some j \<longleftrightarrow> preds ! w = Some j \<or>
        i \<le> j \<and> j < length deps \<and> owners (keys ! (j - i)) = Some w)"
  using assms
proof (induction cancel polls owners i keys deps preds rule: dependencies_loop.induct)
  case (2 cancel polls owners i key keys deps preds)
  from "2.prems"(1) obtain q where q: "check_cancelled cancel polls = Inr q"
    by (auto simp: and_then_Inr)
  have nth: "(key # keys) ! (j - i) = (if j = i then key else keys ! (j - (i + 1)))" if "i \<le> j" for j
    using that by (auto simp: nth_Cons')
  show ?case
  proof (cases "owners key")
    case None
    with "2.prems"(1) q have "dependencies_loop cancel q owners (i + 1) keys deps preds =
        Inr (deps', preds', p)" by simp
    from "2.IH"(1) [OF None this] "2.prems"(2-) None show ?thesis
      by (auto simp: nth split: if_splits)
  next
    case (Some w)
    with "2.prems"(3) have w: "w < length preds" by blast
    from "2.prems"(1) q Some have pw: "preds ! w = None"
      and rest: "dependencies_loop cancel q owners (i + 1) keys (deps[i := Some w])
        (preds[w := Some i]) = Inr (deps', preds', p)"
      by (auto split: if_splits)
    have c: "\<not> preds ! w \<noteq> None" using pw by simp
    note ih = "2.IH"(2) [OF Some c rest]
    have i: "i < length deps" using "2.prems"(2) by simp
    have a: "deps' ! j = (if i \<le> j then owners ((key # keys) ! (j - i)) else deps ! j)"
      if "j < length deps" for j
      using ih "2.prems"(2-) that nth [of j] Some by (cases "i + 1 \<le> j"; cases "j = i") auto
    have b: "preds' ! v = Some j \<longleftrightarrow> preds ! v = Some j \<or>
        i \<le> j \<and> j < length deps \<and> owners ((key # keys) ! (j - i)) = Some v"
      if "v < length preds" for v j
      using ih "2.prems"(2-) that nth [of j] Some i w pw
      by (cases "v = w"; cases "j = i"; cases "i + 1 \<le> j") auto
    from ih "2.prems"(2-) a b show ?thesis by auto
  qed
qed auto

section \<open>The rows of a plan\<close>

definition rows_of :: "rename_plan \<Rightarrow> nat set" where
  "rows_of plan = {..<length (plan_entries plan)}"

definition src_loc :: "(legacy_text \<Rightarrow> 'k) \<Rightarrow> rename_plan \<Rightarrow> nat \<Rightarrow> 'k" where
  "src_loc loc plan i = loc (row_source (plan_entries plan ! i))"

definition dst_loc :: "(legacy_text \<Rightarrow> 'k) \<Rightarrow> rename_plan \<Rightarrow> nat \<Rightarrow> 'k" where
  "dst_loc loc plan i = loc (row_destination (plan_entries plan ! i))"

definition row_identity :: "plan_row \<Rightarrow> entry_identity option" where
  "row_identity row = observed_at (row_source_snapshot row)"

definition row_ent :: "rename_plan \<Rightarrow> nat \<Rightarrow> entry_identity" where
  "row_ent plan i = the (row_identity (plan_entries plan ! i))"

definition step_move :: "(legacy_text \<Rightarrow> 'k) \<Rightarrow> schedule_step \<Rightarrow> 'k move" where
  "step_move loc st = (loc (sched_source st), loc (sched_destination st), sched_identity st)"

definition preds_ok :: "(legacy_text \<Rightarrow> 'k) \<Rightarrow> rename_plan \<Rightarrow> usize option list \<Rightarrow> bool" where
  "preds_ok loc plan preds \<longleftrightarrow> (\<forall>w\<in>rows_of plan. \<forall>j.
     preds ! w = Some j \<longleftrightarrow> j \<in> rows_of plan \<and> dst_loc loc plan j = src_loc loc plan w)"

text \<open>The bookkeeping of the loop for a set of pending rows.\<close>

definition books :: "rename_plan \<Rightarrow> schedule_state \<Rightarrow> nat set \<Rightarrow> bool" where
  "books plan s P \<longleftrightarrow> P \<subseteq> rows_of plan \<and> length (ss_pending s) = length (plan_entries plan) \<and>
     (\<forall>i\<in>rows_of plan. ss_pending s ! i \<longleftrightarrow> i \<in> P) \<and> set (ss_indices s) = P \<and>
     distinct (ss_indices s) \<and> ss_remaining s = length (ss_indices s)"

lemma books_fields [simp]:
  "books plan (s\<lparr>ss_out := x\<rparr>) P = books plan s P"
  "books plan (s\<lparr>ss_ready := r\<rparr>) P = books plan s P"
  "books plan (s\<lparr>ss_polls := n\<rparr>) P = books plan s P"
  "books plan (s\<lparr>ss_reserved := R\<rparr>) P = books plan s P"
  by (simp_all add: books_def)

lemma finish_row_books:
  assumes "books plan s P" and "i \<in> P"
  shows "\<exists>s'. finish_row i s = Inr s' \<and> books plan s' (P - {i}) \<and> ss_ready s' = ss_ready s \<and>
    ss_reserved s' = ss_reserved s \<and> ss_out s' = ss_out s \<and> ss_polls s' = ss_polls s"
proof -
  from assms have i: "i \<in> set (ss_indices s)" "i < length (ss_pending s)"
    by (auto simp: books_def rows_of_def)
  from i(1) have "Suc 0 \<le> length (ss_indices s)" by (cases "ss_indices s") auto
  with assms i show ?thesis
    by (auto simp: finish_row_def books_def set_remove1_eq length_remove1 nth_list_update rows_of_def)
qed

lemma source_identity_row:
  "row_identity row \<noteq> None \<Longrightarrow> source_identity row = Inr (the (row_identity row))"
  by (auto simp: source_identity_def row_identity_def observed_at_def)

lemma push_direct_books:
  assumes b: "books plan s P" and i: "i \<in> P" and e: "row_identity (plan_entries plan ! i) \<noteq> None"
  shows "\<exists>s' st. push_direct plan i s = Inr s' \<and> books plan s' (P - {i}) \<and>
    ss_ready s' = ss_ready s \<and> ss_reserved s' = ss_reserved s \<and> ss_polls s' = ss_polls s \<and>
    ss_out s' = ss_out s @ [st] \<and>
    step_move loc st = (src_loc loc plan i, dst_loc loc plan i, row_ent plan i)"
proof -
  from b i have "ss_pending s ! i" by (auto simp: books_def)
  moreover obtain st where st: "direct_step (plan_entries plan ! i) (plan_scope plan) = Inr st"
      "step_move loc st = (src_loc loc plan i, dst_loc loc plan i, row_ent plan i)"
    using source_identity_row [OF e]
    by (simp add: direct_step_def step_move_def src_loc_def dst_loc_def row_ent_def)
  moreover from b have "books plan (s\<lparr>ss_out := ss_out s @ [st]\<rparr>) P" by simp
  from finish_row_books [OF this i] obtain s' where "finish_row i (s\<lparr>ss_out := ss_out s @ [st]\<rparr>) = Inr s'"
      "books plan s' (P - {i})" "ss_ready s' = ss_ready s" "ss_reserved s' = ss_reserved s"
      "ss_polls s' = ss_polls s" "ss_out s' = ss_out s @ [st]" by auto
  ultimately show ?thesis by (auto simp: push_direct_def)
qed

section \<open>The loop invariant\<close>

definition wf_rows :: "(legacy_text \<Rightarrow> 'k) \<Rightarrow> rename_plan \<Rightarrow> bool" where
  "wf_rows loc plan \<longleftrightarrow> inj_on (src_loc loc plan) (rows_of plan) \<and>
     inj_on (dst_loc loc plan) (rows_of plan) \<and>
     (\<forall>row\<in>set (plan_entries plan). row_identity row \<noteq> None)"

definition laid_out ::
  "(legacy_text \<Rightarrow> 'k) \<Rightarrow> rename_plan \<Rightarrow> 'k occupancy \<Rightarrow> nat set \<Rightarrow> nat set \<Rightarrow> 'k occupancy \<Rightarrow> bool" where
  "laid_out loc plan = laid (src_loc loc plan) (dst_loc loc plan) (row_ent plan) (rows_of plan)"

definition progress ::
  "(legacy_text \<Rightarrow> 'k) \<Rightarrow> rename_plan \<Rightarrow> 'k occupancy \<Rightarrow> schedule_state \<Rightarrow> nat set \<Rightarrow> bool" where
  "progress loc plan m0 s P \<longleftrightarrow> books plan s P \<and>
     (\<forall>j\<in>rows_of plan - P. dst_loc loc plan j \<notin> src_loc loc plan ` P) \<and>
     set (ss_ready s) = {i\<in>P. dst_loc loc plan i \<notin> src_loc loc plan ` P} \<and> distinct (ss_ready s) \<and>
     row_source_key ` set (plan_entries plan) \<union> row_destination_key ` set (plan_entries plan)
       \<subseteq> ss_reserved s \<and>
     (\<exists>m. apply_moves (map (step_move loc) (ss_out s)) m0 = Some m \<and>
        laid_out loc plan m0 P (rows_of plan - P) m)"

lemma ready_progress:
  assumes wf: "wf_rows loc plan" and p: "preds_ok loc plan preds"
    and pr: "progress loc plan m0 s P" and r: "ss_ready s = i # rest"
  shows "\<exists>s'. ready_iteration plan preds i rest s = Inr s' \<and> progress loc plan m0 s' (P - {i}) \<and>
    ss_polls s' = ss_polls s"
proof -
  let ?S = "src_loc loc plan" and ?T = "dst_loc loc plan" and ?N = "rows_of plan"
  from pr have bk: "books plan s P" and closed: "\<forall>j\<in>?N - P. ?T j \<notin> ?S ` P"
    and rdy: "set (ss_ready s) = {i\<in>P. ?T i \<notin> ?S ` P}" "distinct (ss_ready s)"
    by (auto simp: progress_def)
  from pr obtain m where m: "apply_moves (map (step_move loc) (ss_out s)) m0 = Some m"
      "laid_out loc plan m0 P (?N - P) m" by (auto simp: progress_def)
  from r rdy have i: "i \<in> P" "?T i \<notin> ?S ` P" by auto
  from bk have PN: "P \<subseteq> ?N" by (simp add: books_def)
  with i have iN: "i \<in> ?N" by auto
  then have e: "row_identity (plan_entries plan ! i) \<noteq> None"
    using wf by (auto simp: wf_rows_def rows_of_def)
  from bk have "books plan (s\<lparr>ss_ready := rest\<rparr>) P" by simp
  from push_direct_books [OF this i(1) e, of loc] obtain s1 st
    where s1: "push_direct plan i (s\<lparr>ss_ready := rest\<rparr>) = Inr s1" "books plan s1 (P - {i})"
      "ss_ready s1 = rest" "ss_reserved s1 = ss_reserved s" "ss_polls s1 = ss_polls s"
      "ss_out s1 = ss_out s @ [st]" "step_move loc st = (?S i, ?T i, row_ent plan i)" by auto
  have inj: "inj_on ?S ?N" "inj_on ?T ?N" using wf by (simp_all add: wf_rows_def)
  have D: "insert i (?N - P) = ?N - (P - {i})" using iN i by auto
  from laid_direct [OF m(2) [unfolded laid_out_def] i(1) _ PN _ inj closed i(2)] i(1)
  have mv: "move_enabled (step_move loc st) m"
      "laid_out loc plan m0 (P - {i}) (?N - (P - {i})) (move_result (step_move loc st) m)"
    by (auto simp: s1(7) laid_out_def D)
  define s' where "s' = (case preds ! i of None \<Rightarrow> s1
    | Some q \<Rightarrow> if ss_pending s1 ! q then s1\<lparr>ss_ready := insort_insert q (ss_ready s1)\<rparr> else s1)"
  have it: "ready_iteration plan preds i rest s = Inr s'"
    by (simp add: ready_iteration_def s1(1) s'_def split: option.splits)
  have pi: "preds ! i = Some j \<longleftrightarrow> j \<in> ?N \<and> ?T j = ?S i" for j
    using p iN by (auto simp: preds_ok_def)
  have pend: "ss_pending s1 ! j \<longleftrightarrow> j \<in> P - {i}" if "j \<in> ?N" for j
    using s1(2) that by (auto simp: books_def)
  have new: "{j\<in>P - {i}. ?T j \<notin> ?S ` (P - {i})} =
      set rest \<union> {j\<in>P - {i}. preds ! i = Some j}"
  proof -
    have sp: "?S ` P = insert (?S i) (?S ` (P - {i}))" using i(1) by auto
    have "\<forall>j\<in>P. ?S j = ?S i \<longrightarrow> j = i" using inj(1) iN PN by (auto dest: inj_onD)
    moreover have "set rest = {j\<in>P. ?T j \<notin> ?S ` P} - {i}" using rdy r by auto
    ultimately show ?thesis unfolding sp using PN by (auto simp: pi)
  qed
  have rs: "set (ss_ready s') = set rest \<union> {j\<in>P - {i}. preds ! i = Some j}"
  proof (cases "preds ! i")
    case (Some q)
    with pi [of q] have "q \<in> ?N" by simp
    then show ?thesis by (auto simp: s'_def s1(3) Some set_insort_insert pend)
  qed (simp add: s'_def s1(3))
  have ds: "distinct (ss_ready s')"
    using rdy(2) r by (auto simp: s'_def s1(3) distinct_insort_insert split: option.splits)
  have oth: "ss_out s' = ss_out s @ [st]" "ss_reserved s' = ss_reserved s" "ss_polls s' = ss_polls s"
      "books plan s' (P - {i})"
    using s1 by (auto simp: s'_def split: option.splits)
  have "progress loc plan m0 s' (P - {i})"
    unfolding progress_def
  proof (intro conjI)
    show "\<forall>j\<in>?N - (P - {i}). ?T j \<notin> ?S ` (P - {i})" using closed i(2) by auto
    show "\<exists>m. apply_moves (map (step_move loc) (ss_out s')) m0 = Some m \<and>
        laid_out loc plan m0 (P - {i}) (?N - (P - {i})) m"
      using m(1) mv by (auto simp: oth apply_moves_snoc)
  qed (use oth rs ds new pr in \<open>auto simp: progress_def\<close>)
  with it oth(3) show ?thesis by auto
qed

section \<open>Cycles\<close>

text \<open>
  Without a ready row every pending row waits for a pending row, so the pending rows form
  cycles: each location a row leaves is awaited by exactly one of them.
\<close>

lemma blocked_permutes:
  assumes wf: "wf_rows loc plan" and P: "P \<subseteq> rows_of plan"
    and blocked: "\<forall>i\<in>P. dst_loc loc plan i \<in> src_loc loc plan ` P"
  shows "dst_loc loc plan ` P = src_loc loc plan ` P"
proof (rule card_subset_eq)
  have fin: "finite P" using P by (auto simp: rows_of_def intro: finite_subset)
  then show "finite (src_loc loc plan ` P)" by simp
  show "dst_loc loc plan ` P \<subseteq> src_loc loc plan ` P" using blocked by auto
  have "inj_on (src_loc loc plan) P" "inj_on (dst_loc loc plan) P"
    using wf P by (auto simp: wf_rows_def intro: inj_on_subset)
  then show "card (dst_loc loc plan ` P) = card (src_loc loc plan ` P)"
    by (simp add: card_image)
qed

text \<open>
  The state of the walk: the pivot is at the temporary location, \<open>Q\<close> is what is pending (the
  pivot included), \<open>freed\<close> is the row that moved last, and the rows that moved closed up behind
  each other.
\<close>

definition walking ::
  "(legacy_text \<Rightarrow> 'k) \<Rightarrow> rename_plan \<Rightarrow> 'k occupancy \<Rightarrow> 'k \<Rightarrow> nat \<Rightarrow> nat set \<Rightarrow> nat \<Rightarrow>
     schedule_state \<Rightarrow> nat set \<Rightarrow> bool" where
  "walking loc plan m0 t pivot P0 freed s Q \<longleftrightarrow>
     books plan s Q \<and> pivot \<in> Q \<and> Q \<subseteq> P0 \<and> freed \<in> P0 - Q \<union> {pivot} \<and>
     dst_loc loc plan ` (P0 - Q) = src_loc loc plan ` (P0 - Q \<union> {pivot} - {freed}) \<and>
     (\<forall>j\<in>rows_of plan - Q. dst_loc loc plan j \<notin> src_loc loc plan ` (Q - {pivot})) \<and>
     (\<exists>m. apply_moves (map (step_move loc) (ss_out s)) m0 = Some m \<and>
        laid_out loc plan (m0(t := Some (row_ent plan pivot))) (Q - {pivot}) (rows_of plan - Q) m)"

definition walked ::
  "(legacy_text \<Rightarrow> 'k) \<Rightarrow> rename_plan \<Rightarrow> 'k occupancy \<Rightarrow> 'k \<Rightarrow> nat \<Rightarrow> nat set \<Rightarrow>
     schedule_state \<Rightarrow> nat set \<Rightarrow> bool" where
  "walked loc plan m0 t pivot P0 s Q \<longleftrightarrow>
     (\<exists>freed. walking loc plan m0 t pivot P0 freed s Q \<and>
        dst_loc loc plan pivot = src_loc loc plan freed)"

lemma walking_polls [simp]:
  "walking loc plan m0 t pivot P0 freed (s\<lparr>ss_polls := n\<rparr>) Q =
     walking loc plan m0 t pivot P0 freed s Q"
  by (simp add: walking_def)

lemma walk_step:
  assumes wf: "wf_rows loc plan" and P0: "P0 \<subseteq> rows_of plan"
    and blocked: "dst_loc loc plan ` P0 = src_loc loc plan ` P0"
    and w: "walking loc plan m0 t pivot P0 freed s Q"
    and i: "i \<in> P0" "dst_loc loc plan i = src_loc loc plan freed" "i \<noteq> pivot"
  shows "\<exists>s'. push_direct plan i s = Inr s' \<and>
    walking loc plan m0 t pivot P0 i s' (Q - {i}) \<and>
    ss_polls s' = ss_polls s \<and> ss_reserved s' = ss_reserved s \<and> ss_ready s' = ss_ready s"
proof -
  let ?S = "src_loc loc plan" and ?T = "dst_loc loc plan" and ?N = "rows_of plan"
  from w have bk: "books plan s Q" and q: "pivot \<in> Q" "Q \<subseteq> P0" "freed \<in> P0 - Q \<union> {pivot}"
    and chain: "?T ` (P0 - Q) = ?S ` (P0 - Q \<union> {pivot} - {freed})"
    and closed: "\<forall>j\<in>?N - Q. ?T j \<notin> ?S ` (Q - {pivot})"
    by (auto simp: walking_def)
  from w obtain m where m: "apply_moves (map (step_move loc) (ss_out s)) m0 = Some m"
      "laid_out loc plan (m0(t := Some (row_ent plan pivot))) (Q - {pivot}) (?N - Q) m"
    by (auto simp: walking_def)
  have inj: "inj_on ?S ?N" "inj_on ?T ?N" using wf by (simp_all add: wf_rows_def)
  have fN: "freed \<in> ?N" using q P0 by auto
  have iQ: "i \<in> Q"
  proof (rule ccontr)
    assume "i \<notin> Q"
    with i(1) chain have "?T i \<in> ?S ` (P0 - Q \<union> {pivot} - {freed})" by blast
    then obtain j where j: "j \<in> P0 - Q \<union> {pivot} - {freed}" "?S freed = ?S j" using i(2) by auto
    with q P0 inj(1) fN show False by (auto dest!: inj_onD)
  qed
  have free: "?T i \<notin> ?S ` (Q - {pivot})"
  proof
    assume "?T i \<in> ?S ` (Q - {pivot})"
    then obtain j where "j \<in> Q - {pivot}" "?S freed = ?S j" using i(2) by auto
    with q P0 inj(1) fN show False by (auto dest!: inj_onD)
  qed
  have iN: "i \<in> ?N" using i(1) P0 by auto
  then have e: "row_identity (plan_entries plan ! i) \<noteq> None"
    using wf by (auto simp: wf_rows_def rows_of_def)
  from push_direct_books [OF bk iQ e, of loc] obtain s' st
    where s': "push_direct plan i s = Inr s'" "books plan s' (Q - {i})"
      "ss_ready s' = ss_ready s" "ss_reserved s' = ss_reserved s" "ss_polls s' = ss_polls s"
      "ss_out s' = ss_out s @ [st]" "step_move loc st = (?S i, ?T i, row_ent plan i)" by auto
  have sets: "Q - {pivot} - {i} = Q - {i} - {pivot}" "insert i (?N - Q) = ?N - (Q - {i})"
    "P0 - (Q - {i}) = insert i (P0 - Q)" using iQ i P0 q by auto
  have QN: "Q - {pivot} \<subseteq> ?N" "i \<in> Q - {pivot}" "i \<notin> ?N - Q" using q P0 iQ i(3) by auto
  from laid_direct [OF m(2) [unfolded laid_out_def] QN(2,3,1) _ inj closed free]
  have mv: "move_enabled (step_move loc st) m"
      "laid_out loc plan (m0(t := Some (row_ent plan pivot))) (Q - {i} - {pivot}) (?N - (Q - {i}))
        (move_result (step_move loc st) m)"
    by (auto simp: s'(7) laid_out_def sets)
  have chain': "?T ` (P0 - (Q - {i})) = ?S ` (P0 - (Q - {i}) \<union> {pivot} - {i})"
  proof -
    have "P0 - (Q - {i}) \<union> {pivot} - {i} = insert freed (P0 - Q \<union> {pivot} - {freed})"
      using iQ i(3) q by auto
    then show ?thesis by (simp only: sets(3) image_insert chain i(2))
  qed
  have closed': "\<forall>j\<in>?N - (Q - {i}). ?T j \<notin> ?S ` (Q - {i} - {pivot})"
    using closed free by auto
  have "walking loc plan m0 t pivot P0 i s' (Q - {i})"
    unfolding walking_def using s' q i(3) iQ i(1) chain' closed' m(1) mv
    by (auto simp: apply_moves_snoc)
  with s' show ?thesis by blast
qed

lemma cycle_walk_walked:
  assumes wf: "wf_rows loc plan" and p: "preds_ok loc plan preds" and P0: "P0 \<subseteq> rows_of plan"
    and blocked: "dst_loc loc plan ` P0 = src_loc loc plan ` P0"
    and w: "walking loc plan m0 t pivot P0 freed s Q"
  shows "case cycle_walk cancel plan preds pivot freed s of
      Inl e \<Rightarrow> e = Sched_Cancelled \<and> (\<exists>k. cancel k)
    | Inr s' \<Rightarrow> ss_reserved s' = ss_reserved s \<and> ss_ready s' = ss_ready s \<and>
        (\<exists>Q'. walked loc plan m0 t pivot P0 s' Q')"
  using w
proof (induction "length (ss_indices s)" arbitrary: freed s Q rule: less_induct)
  case less
  let ?S = "src_loc loc plan" and ?T = "dst_loc loc plan"
  from less.prems have f: "freed \<in> P0" by (auto simp: walking_def)
  then have "?S freed \<in> ?T ` P0" by (simp add: blocked)
  then obtain i where i: "i \<in> P0" "?T i = ?S freed" by auto
  with p f P0 have pr: "preds ! freed = Some i" by (auto simp: preds_ok_def subset_eq)
  show ?case
  proof (cases "cancel (ss_polls s)")
    case True
    then show ?thesis
      by (subst cycle_walk.simps) (auto simp: pr check_cancelled_def)
  next
    case False
    then have c: "check_cancelled cancel (ss_polls s) = Inr (ss_polls s + 1)"
      by (simp add: check_cancelled_def)
    let ?s = "s\<lparr>ss_polls := ss_polls s + 1\<rparr>"
    from less.prems have w: "walking loc plan m0 t pivot P0 freed ?s Q" by simp
    show ?thesis
    proof (cases "i = pivot")
      case True
      with w i have "walked loc plan m0 t pivot P0 ?s Q" by (auto simp: walked_def)
      with True show ?thesis by (subst cycle_walk.simps) (auto simp: pr c)
    next
      case neq: False
      from walk_step [OF wf P0 blocked w i neq] obtain s'
        where s': "push_direct plan i ?s = Inr s'" "walking loc plan m0 t pivot P0 i s' (Q - {i})"
          "ss_reserved s' = ss_reserved s" "ss_ready s' = ss_ready s" by auto
      from push_direct_shrinks [OF s'(1)] have "length (ss_indices s') < length (ss_indices s)"
        by simp
      from less.hyps [OF this s'(2)] have
        "case cycle_walk cancel plan preds pivot i s' of
           Inl e \<Rightarrow> e = Sched_Cancelled \<and> (\<exists>k. cancel k)
         | Inr s'' \<Rightarrow> ss_reserved s'' = ss_reserved s \<and> ss_ready s'' = ss_ready s \<and>
             (\<exists>Q'. walked loc plan m0 t pivot P0 s'' Q')"
        unfolding s'(3,4) .
      moreover have "cycle_walk cancel plan preds pivot freed s =
          cycle_walk cancel plan preds pivot i s'"
        using s'(1) by (subst cycle_walk.simps) (simp add: pr c neq)
      ultimately show ?thesis by simp
    qed
  qed
qed

text \<open>The last step of a cycle: the pivot reaches its destination.\<close>

lemma walked_finish:
  assumes wf: "wf_rows loc plan" and P0: "P0 \<subseteq> rows_of plan"
    and blocked: "dst_loc loc plan ` P0 = src_loc loc plan ` P0"
    and w: "walked loc plan m0 t pivot P0 s Q"
    and t: "t \<notin> src_loc loc plan ` rows_of plan \<union> dst_loc loc plan ` rows_of plan" "m0 t = None"
    and res: "row_source_key ` set (plan_entries plan) \<union> row_destination_key ` set (plan_entries plan)
       \<subseteq> ss_reserved s" and rdy: "ss_ready s = []"
    and mv: "step_move loc st = (t, dst_loc loc plan pivot, row_ent plan pivot)"
  shows "\<exists>s'. finish_row pivot (s\<lparr>ss_out := ss_out s @ [st]\<rparr>) = Inr s' \<and>
    progress loc plan m0 s' (Q - {pivot})"
proof -
  let ?S = "src_loc loc plan" and ?T = "dst_loc loc plan" and ?N = "rows_of plan"
  from w obtain freed where wk: "walking loc plan m0 t pivot P0 freed s Q" and tp: "?T pivot = ?S freed"
    by (auto simp: walked_def)
  from wk have bk: "books plan s Q" and q: "pivot \<in> Q" "Q \<subseteq> P0" "freed \<in> P0 - Q \<union> {pivot}"
    and chain: "?T ` (P0 - Q) = ?S ` (P0 - Q \<union> {pivot} - {freed})"
    and closed: "\<forall>j\<in>?N - Q. ?T j \<notin> ?S ` (Q - {pivot})"
    by (auto simp: walking_def)
  from wk obtain m where m: "apply_moves (map (step_move loc) (ss_out s)) m0 = Some m"
      "laid_out loc plan (m0(t := Some (row_ent plan pivot))) (Q - {pivot}) (?N - Q) m"
    by (auto simp: walking_def)
  have inj: "inj_on ?S ?N" "inj_on ?T ?N" using wf by (simp_all add: wf_rows_def)
  from bk have "books plan (s\<lparr>ss_out := ss_out s @ [st]\<rparr>) Q" by simp
  from finish_row_books [OF this q(1)] obtain s' where s': "finish_row pivot (s\<lparr>ss_out := ss_out s @ [st]\<rparr>) = Inr s'"
      "books plan s' (Q - {pivot})" "ss_ready s' = []" "ss_reserved s' = ss_reserved s"
      "ss_out s' = ss_out s @ [st]" using rdy by auto
  have free: "?T pivot \<notin> ?S ` (Q - {pivot})"
  proof
    assume "?T pivot \<in> ?S ` (Q - {pivot})"
    then obtain j where "j \<in> Q - {pivot}" "?S freed = ?S j" using tp by auto
    with q P0 inj(1) show False by (auto dest!: inj_onD)
  qed
  have D: "insert pivot (?N - Q) = ?N - (Q - {pivot})" using q P0 by auto
  have pN: "pivot \<in> ?N" "pivot \<notin> ?N - Q" "Q - {pivot} \<subseteq> ?N" using q P0 by auto
  from laid_close [OF m(2) [unfolded laid_out_def] pN _ inj(2) free t]
  have ok: "move_enabled (step_move loc st) m"
    "laid_out loc plan m0 (Q - {pivot}) (?N - (Q - {pivot})) (move_result (step_move loc st) m)"
    by (auto simp: mv laid_out_def D)
  have loop: "?T ` (P0 - Q \<union> {pivot}) = ?S ` (P0 - Q \<union> {pivot})"
    using chain tp q by (auto simp: image_Un)
  have none: "{i\<in>Q - {pivot}. ?T i \<notin> ?S ` (Q - {pivot})} = {}"
  proof -
    have False if i: "i \<in> Q - {pivot}" "?T i \<notin> ?S ` (Q - {pivot})" for i
    proof -
      from i q have "?T i \<in> ?S ` P0" using blocked by (metis DiffD1 imageI subsetD)
      with i(2) q(2) have "?T i \<in> ?S ` (P0 - Q \<union> {pivot})" by auto
      then obtain j where "j \<in> P0 - Q \<union> {pivot}" "?T i = ?T j" unfolding loop [symmetric] by auto
      with i q P0 inj(2) show False by (auto dest!: inj_onD)
    qed
    then show ?thesis by auto
  qed
  have "progress loc plan m0 s' (Q - {pivot})"
    unfolding progress_def
  proof (intro conjI)
    show "\<forall>j\<in>?N - (Q - {pivot}). ?T j \<notin> ?S ` (Q - {pivot})" using closed free by auto
    show "\<exists>m. apply_moves (map (step_move loc) (ss_out s')) m0 = Some m \<and>
        laid_out loc plan m0 (Q - {pivot}) (?N - (Q - {pivot})) m"
      using m(1) ok by (auto simp: s'(5) apply_moves_snoc)
  qed (use s' none res in auto)
  with s'(1) show ?thesis by blast
qed

section \<open>Temporary endpoints\<close>

lemma try_candidate_Some:
  "try_candidate cancel ops b plan pivot nonce reserved polls ordinal = Inr (Some (path, key), p') \<Longrightarrow>
   \<exists>leaf snap. path = temporary_path pivot leaf \<and>
     planned_entry_key_op ops b (snapshot_parent (row_source_snapshot pivot)) leaf = Inr key \<and>
     key \<notin> reserved \<and> observe_op ops b path = Inr snap \<and> snapshot_entry snap = None"
  by (cases "planned_entry_key_op ops b (snapshot_parent (row_source_snapshot pivot))
        (temporary_leaf plan nonce (row_id pivot) ordinal)";
      cases "observe_op ops b (temporary_path pivot (temporary_leaf plan nonce (row_id pivot) ordinal))")
    (auto simp: try_candidate_def and_then_Inr Let_def split: if_splits)

lemma try_candidate_Inl:
  "try_candidate cancel ops b plan pivot nonce reserved polls ordinal = Inl e \<Longrightarrow>
     e \<noteq> Sched_Invalid \<and> (e = Sched_Cancelled \<longrightarrow> (\<exists>k. cancel k))"
  by (auto simp: try_candidate_def and_then_Inl check_cancelled_def Let_def
      split: if_splits sum.splits)

lemma temporary_candidates_Inr:
  assumes "temporary_candidates cancel ops b plan pivot nonce reserved polls ordinals = Inr (path, res', p')"
  shows "\<exists>leaf key snap. path = temporary_path pivot leaf \<and>
     planned_entry_key_op ops b (snapshot_parent (row_source_snapshot pivot)) leaf = Inr key \<and>
     key \<notin> reserved \<and> res' = insert key reserved \<and> observe_op ops b path = Inr snap \<and>
     snapshot_entry snap = None"
  using assms
proof (induction ordinals arbitrary: polls)
  case (Cons ordinal ordinals)
  from Cons.prems obtain found p1 where
    t: "try_candidate cancel ops b plan pivot nonce reserved polls ordinal = Inr (found, p1)"
    by (auto simp: and_then_Inr)
  show ?case
  proof (cases found)
    case None
    with Cons t show ?thesis by auto
  next
    case (Some pk)
    with Cons.prems t try_candidate_Some [of cancel ops b plan pivot nonce reserved polls ordinal]
    show ?thesis by (cases pk) fastforce
  qed
qed simp

lemma temporary_candidates_Inl:
  "temporary_candidates cancel ops b plan pivot nonce reserved polls ordinals = Inl e \<Longrightarrow>
     e \<noteq> Sched_Invalid \<and> (e = Sched_Cancelled \<longrightarrow> (\<exists>k. cancel k))"
proof (induction ordinals arbitrary: polls)
  case (Cons ordinal ordinals)
  show ?case
  proof (cases "try_candidate cancel ops b plan pivot nonce reserved polls ordinal")
    case (Inl e')
    with Cons.prems try_candidate_Inl [OF Inl] show ?thesis by simp
  next
    case (Inr r)
    with Cons show ?thesis by (cases r) (auto split: option.splits)
  qed
qed auto

text \<open>
  \<open>located\<close>: locations and entry keys name the same places. Every endpoint of the plan has the
  location its key stands for, the temporary names too, and different keys of \<open>K\<close> are different
  locations.
\<close>

definition located ::
  "(legacy_text \<Rightarrow> 'k) \<Rightarrow> (path_key \<Rightarrow> 'k) \<Rightarrow> path_key set \<Rightarrow> 'b backend_ops \<Rightarrow> rename_plan \<Rightarrow> bool" where
  "located loc g K ops plan \<longleftrightarrow> inj_on g K \<and>
     (\<forall>row\<in>set (plan_entries plan).
        row_source_key row \<in> K \<and> row_destination_key row \<in> K \<and>
        loc (row_source row) = g (row_source_key row) \<and>
        loc (row_destination row) = g (row_destination_key row) \<and>
        (\<forall>b leaf key.
           planned_entry_key_op ops b (snapshot_parent (row_source_snapshot row)) leaf = Inr key \<longrightarrow>
           key \<in> K \<and> loc (temporary_path row leaf) = g key))"

lemma located_fresh:
  assumes l: "located loc g K ops plan" and row: "row \<in> set (plan_entries plan)"
    and key: "planned_entry_key_op ops b (snapshot_parent (row_source_snapshot row)) leaf = Inr key"
    and fresh: "key \<notin> row_source_key ` set (plan_entries plan) \<union>
      row_destination_key ` set (plan_entries plan)"
  shows "loc (temporary_path row leaf) \<notin>
    src_loc loc plan ` rows_of plan \<union> dst_loc loc plan ` rows_of plan"
proof -
  from l row key have k: "key \<in> K" "loc (temporary_path row leaf) = g key" "inj_on g K"
    by (auto simp: located_def)
  have "src_loc loc plan i \<noteq> g key \<and> dst_loc loc plan i \<noteq> g key" if "i \<in> rows_of plan" for i
  proof -
    from that have r: "plan_entries plan ! i \<in> set (plan_entries plan)" by (simp add: rows_of_def)
    with l have "row_source_key (plan_entries plan ! i) \<in> K"
      "row_destination_key (plan_entries plan ! i) \<in> K"
      "src_loc loc plan i = g (row_source_key (plan_entries plan ! i))"
      "dst_loc loc plan i = g (row_destination_key (plan_entries plan ! i))"
      by (auto simp: located_def src_loc_def dst_loc_def)
    with k fresh r show ?thesis by (auto dest!: inj_onD)
  qed
  then show ?thesis unfolding k(2) by (metis UnE imageE)
qed

section \<open>The whole loop\<close>

lemma progress_polls [simp]:
  "progress loc plan m0 (s\<lparr>ss_polls := n\<rparr>) P = progress loc plan m0 s P"
  by (simp add: progress_def)

text \<open>A failure of the builder that is not an internal inconsistency.\<close>

definition outside_failure :: "cancellation \<Rightarrow> schedule_error \<Rightarrow> bool" where
  "outside_failure cancel e \<longleftrightarrow> e \<noteq> Sched_Invalid \<and> (e = Sched_Cancelled \<longrightarrow> (\<exists>k. cancel k))"

context rename_backend
begin

lemma unique_temporary_path_fresh:
  assumes l: "located loc g K ops plan" and row: "row \<in> set (plan_entries plan)"
    and res: "row_source_key ` set (plan_entries plan) \<union> row_destination_key ` set (plan_entries plan)
      \<subseteq> reserved"
    and u: "unique_temporary_path cancel ops b (plan_id_of plan) row reserved polls = (r, b')"
  shows "occ b' = occ b \<and> (case r of
      Inl e \<Rightarrow> outside_failure cancel e
    | Inr (path, res', p') \<Rightarrow> reserved \<subseteq> res' \<and> occ b (loc path) = None \<and>
        loc path \<notin> src_loc loc plan ` rows_of plan \<union> dst_loc loc plan ` rows_of plan)"
proof (cases "check_cancelled cancel polls")
  case (Inl e)
  with u show ?thesis
    by (auto simp: unique_temporary_path_def check_cancelled_def outside_failure_def split: if_splits)
next
  case (Inr p1)
  obtain nonce b1 where n: "next_nonce_op ops b = (nonce, b1)" by (cases "next_nonce_op ops b")
  then have occ1: "occ b1 = occ b" by (rule nonce_law)
  show ?thesis
  proof (cases nonce)
    case (Inl e)
    with u n Inr occ1 show ?thesis by (auto simp: unique_temporary_path_def outside_failure_def)
  next
    case nn: (Inr x)
    with u n Inr have r: "r = temporary_candidates cancel ops b1 (plan_id_of plan) row x reserved p1
        [0..<MAX_TEMP_CANDIDATES]" "b' = b1"
      by (auto simp: unique_temporary_path_def)
    show ?thesis
    proof (cases r)
      case (Inl e)
      with temporary_candidates_Inl [OF r(1) [symmetric, unfolded Inl]] occ1 r(2) show ?thesis
        by (simp add: outside_failure_def)
    next
      case (Inr y)
      then obtain path res' p' where y: "r = Inr (path, res', p')" by (cases y) auto
      from temporary_candidates_Inr [OF r(1) [symmetric, unfolded y]] obtain leaf key snap where
        t: "path = temporary_path row leaf"
          "planned_entry_key_op ops b1 (snapshot_parent (row_source_snapshot row)) leaf = Inr key"
          "key \<notin> reserved" "res' = insert key reserved" "observe_op ops b1 path = Inr snap"
          "snapshot_entry snap = None" by blast
      from observe_law [OF t(5)] t(6) have "occ b (loc path) = None"
        by (simp add: observed_at_def occ1)
      moreover from located_fresh [OF l row t(2)] t(3) res have
        "loc path \<notin> src_loc loc plan ` rows_of plan \<union> dst_loc loc plan ` rows_of plan"
        unfolding t(1) by auto
      ultimately show ?thesis using y t(4) occ1 r(2) by auto
    qed
  qed
qed

lemma cycle_progress:
  assumes l: "located loc g K ops plan" and wf: "wf_rows loc plan" and p: "preds_ok loc plan preds"
    and pr: "progress loc plan (occ b) s P" and ne: "P \<noteq> {}" and rdy: "ss_ready s = []"
    and it: "cycle_iteration cancel ops plan preds s b = (r, b')"
  shows "occ b' = occ b \<and> (case r of
      Inl e \<Rightarrow> outside_failure cancel e
    | Inr s' \<Rightarrow> \<exists>P'. progress loc plan (occ b) s' P')"
proof -
  let ?S = "src_loc loc plan" and ?T = "dst_loc loc plan" and ?N = "rows_of plan"
  from pr have bk: "books plan s P" and closed: "\<forall>j\<in>?N - P. ?T j \<notin> ?S ` P"
    and res: "row_source_key ` set (plan_entries plan) \<union> row_destination_key ` set (plan_entries plan)
       \<subseteq> ss_reserved s"
    by (auto simp: progress_def)
  from pr obtain m where m: "apply_moves (map (step_move loc) (ss_out s)) (occ b) = Some m"
      "laid_out loc plan (occ b) P (?N - P) m" by (auto simp: progress_def)
  from bk have PN: "P \<subseteq> ?N" by (simp add: books_def)
  from bk ne obtain pivot more where ix: "ss_indices s = pivot # more"
    by (cases "ss_indices s") (auto simp: books_def)
  with bk have pP: "pivot \<in> P" by (auto simp: books_def)
  have blocked: "?T ` P = ?S ` P"
    using pr rdy by (intro blocked_permutes [OF wf PN]) (auto simp: progress_def)
  let ?row = "plan_entries plan ! pivot"
  have row: "?row \<in> set (plan_entries plan)" using pP PN by (auto simp: rows_of_def)
  obtain u b1 where u: "unique_temporary_path cancel ops b (plan_id_of plan) ?row (ss_reserved s)
      (ss_polls s) = (u, b1)"
    by (cases "unique_temporary_path cancel ops b (plan_id_of plan) ?row (ss_reserved s) (ss_polls s)")
  note fresh = unique_temporary_path_fresh [OF l row res u]
  show ?thesis
  proof (cases u)
    case (Inl e)
    with fresh it u show ?thesis by (auto simp: cycle_iteration_def ix)
  next
    case (Inr y)
    then obtain path res' p' where y: "u = Inr (path, res', p')" by (cases y) auto
    with fresh have f: "occ b1 = occ b" "ss_reserved s \<subseteq> res'" "occ b (loc path) = None"
      "loc path \<notin> ?S ` ?N \<union> ?T ` ?N" by auto
    from wf row have "row_identity ?row \<noteq> None" by (simp add: wf_rows_def)
    then have ident: "source_identity ?row = Inr (row_ent plan pivot)"
      by (simp add: source_identity_row row_ent_def)
    let ?st = "into_temporary ?row (plan_scope plan) path (row_ent plan pivot)"
    let ?s1 = "s\<lparr>ss_reserved := res', ss_polls := p', ss_out := ss_out s @ [?st]\<rparr>"
    have mv: "step_move loc ?st = (?S pivot, loc path, row_ent plan pivot)"
      by (simp add: step_move_def into_temporary_def src_loc_def)
    have inj: "inj_on ?S ?N" using wf by (simp add: wf_rows_def)
    from laid_open [OF m(2) [unfolded laid_out_def] pP PN _ inj closed f(4,3)]
    have open': "move_enabled (step_move loc ?st) m"
      "laid_out loc plan ((occ b)(loc path := Some (row_ent plan pivot))) (P - {pivot}) (?N - P)
        (move_result (step_move loc ?st) m)"
      by (auto simp: mv laid_out_def)
    have closed': "\<forall>j\<in>?N - P. ?T j \<notin> ?S ` (P - {pivot})" using closed by auto
    have "walking loc plan (occ b) (loc path) pivot P pivot ?s1 P"
      unfolding walking_def using bk pP closed' m(1) open' by (auto simp: apply_moves_snoc)
    note walk = cycle_walk_walked [OF wf p PN blocked this, of cancel]
    show ?thesis
    proof (cases "cycle_walk cancel plan preds pivot pivot ?s1")
      case (Inl e)
      with walk have "outside_failure cancel e" by (simp add: outside_failure_def)
      moreover from Inl it u y ident have "r = Inl e \<and> b' = b1"
        by (simp add: cycle_iteration_def ix)
      ultimately show ?thesis using f(1) by simp
    next
      case (Inr s2)
      with walk obtain Q where s2: "ss_reserved s2 = res'" "ss_ready s2 = []"
        "walked loc plan (occ b) (loc path) pivot P s2 Q" using rdy by auto
      let ?fin = "from_temporary ?row (plan_scope plan) path (row_ent plan pivot)"
      have mv2: "step_move loc ?fin = (loc path, ?T pivot, row_ent plan pivot)"
        by (simp add: step_move_def from_temporary_def dst_loc_def)
      have "row_source_key ` set (plan_entries plan) \<union> row_destination_key ` set (plan_entries plan)
          \<subseteq> ss_reserved s2" using res f(2) s2(1) by auto
      from walked_finish [OF wf PN blocked s2(3) f(4,3) this s2(2) mv2] obtain s3 where
        s3: "finish_row pivot (s2\<lparr>ss_out := ss_out s2 @ [?fin]\<rparr>) = Inr s3"
          "progress loc plan (occ b) s3 (Q - {pivot})" by blast
      from s3(1) it u y ident Inr have "r = Inr s3 \<and> b' = b1"
        by (simp add: cycle_iteration_def ix)
      with s3(2) f(1) show ?thesis by auto
    qed
  qed
qed

lemma loop_progress:
  assumes l: "located loc g K ops plan" and wf: "wf_rows loc plan" and p: "preds_ok loc plan preds"
    and pr: "progress loc plan (occ b) s P"
    and r: "schedule_loop cancel ops plan preds s b = (r, b')"
  shows "occ b' = occ b \<and> (case r of
      Inl e \<Rightarrow> outside_failure cancel e
    | Inr s' \<Rightarrow> progress loc plan (occ b) s' {})"
  using pr r
proof (induction "length (ss_indices s)" arbitrary: s b P rule: less_induct)
  case less
  from less.prems(1) have bk: "books plan s P" by (simp add: progress_def)
  show ?case
  proof (cases "ss_remaining s = 0")
    case True
    with bk have "P = {}" by (auto simp: books_def)
    with True less.prems show ?thesis by (auto simp: schedule_loop.simps)
  next
    case False
    with bk have ne: "P \<noteq> {}" by (auto simp: books_def)
    obtain q b1 where it: "loop_iteration cancel ops plan preds s b = (q, b1)"
      by (cases "loop_iteration cancel ops plan preds s b")
    have step: "occ b1 = occ b \<and> (case q of
        Inl e \<Rightarrow> outside_failure cancel e
      | Inr s' \<Rightarrow> \<exists>P'. progress loc plan (occ b) s' P')"
    proof (cases "cancel (ss_polls s)")
      case True
      with it show ?thesis by (auto simp: loop_iteration_def check_cancelled_def outside_failure_def)
    next
      case nc: False
      let ?s = "s\<lparr>ss_polls := ss_polls s + 1\<rparr>"
      from less.prems(1) have pr': "progress loc plan (occ b) ?s P" by simp
      show ?thesis
      proof (cases "ss_ready s")
        case Nil
        with it nc have "cycle_iteration cancel ops plan preds ?s b = (q, b1)"
          by (simp add: loop_iteration_def check_cancelled_def)
        from cycle_progress [OF l wf p pr' ne _ this] Nil show ?thesis by simp
      next
        case (Cons i rest)
        then have "ss_ready ?s = i # rest" by simp
        from ready_progress [OF wf p pr' this] obtain s' where
          "ready_iteration plan preds i rest ?s = Inr s'" "progress loc plan (occ b) s' (P - {i})"
          by blast
        with it nc Cons show ?thesis by (auto simp: loop_iteration_def check_cancelled_def)
      qed
    qed
    show ?thesis
    proof (cases q)
      case (Inl e)
      with step it False less.prems(2) show ?thesis by (auto simp: schedule_loop.simps [of _ _ _ _ s])
    next
      case (Inr s')
      with step obtain P' where s': "progress loc plan (occ b1) s' P'" "occ b1 = occ b" by auto
      from it Inr have "length (ss_indices s') < length (ss_indices s)"
        by (auto dest: loop_iteration_shrinks)
      moreover from it Inr False less.prems(2)
      have "schedule_loop cancel ops plan preds s' b1 = (r, b')"
        by (simp add: schedule_loop.simps [of _ _ _ _ s])
      ultimately show ?thesis using less.hyps [OF _ s'(1)] s'(2)
        by (auto split: sum.splits)
    qed
  qed
qed

end

text \<open>What the builder is given: sources hold their entries, destinations are free or sources.\<close>

definition plan_ready :: "(legacy_text \<Rightarrow> 'k) \<Rightarrow> 'k occupancy \<Rightarrow> rename_plan \<Rightarrow> bool" where
  "plan_ready loc m plan \<longleftrightarrow>
     distinct (map row_source_key (plan_entries plan)) \<and>
     distinct (map row_destination_key (plan_entries plan)) \<and>
     (\<forall>row\<in>set (plan_entries plan). row_identity row \<noteq> None \<and>
        m (loc (row_source row)) = row_identity row \<and>
        (m (loc (row_destination row)) = None \<or>
         row_destination_key row \<in> row_source_key ` set (plan_entries plan)))"

text \<open>What a plan means: all entries change place at once.\<close>

definition renamed_occupancy :: "(legacy_text \<Rightarrow> 'k) \<Rightarrow> rename_plan \<Rightarrow> 'k occupancy \<Rightarrow> 'k occupancy" where
  "renamed_occupancy loc plan m x =
     (case find (\<lambda>row. loc (row_destination row) = x) (plan_entries plan) of
        Some row \<Rightarrow> row_identity row
      | None \<Rightarrow> if \<exists>row\<in>set (plan_entries plan). loc (row_source row) = x then None else m x)"

lemma wf_rows_ready:
  assumes l: "located loc g K ops plan" and r: "plan_ready loc m plan"
  shows "wf_rows loc plan"
proof -
  let ?rows = "plan_entries plan"
  have "src_loc loc plan i = g (row_source_key (?rows ! i)) \<and>
      dst_loc loc plan i = g (row_destination_key (?rows ! i)) \<and>
      row_source_key (?rows ! i) \<in> K \<and> row_destination_key (?rows ! i) \<in> K" if "i \<in> rows_of plan" for i
    using l that by (auto simp: located_def src_loc_def dst_loc_def rows_of_def)
  moreover have "inj_on g K" using l by (simp add: located_def)
  moreover have "row_source_key (?rows ! i) = row_source_key (?rows ! j) \<longrightarrow> i = j"
      "row_destination_key (?rows ! i) = row_destination_key (?rows ! j) \<longrightarrow> i = j"
    if "i \<in> rows_of plan" "j \<in> rows_of plan" for i j
    using r that by (auto simp: plan_ready_def rows_of_def distinct_conv_nth)
  ultimately have "inj_on (src_loc loc plan) (rows_of plan)" "inj_on (dst_loc loc plan) (rows_of plan)"
    by (auto simp: inj_on_def)
  with r show ?thesis by (simp add: wf_rows_def plan_ready_def)
qed

lemma laid_start:
  assumes r: "plan_ready loc m plan" and l: "located loc g K ops plan"
  shows "laid_out loc plan m (rows_of plan) {} m"
proof -
  have "m (src_loc loc plan i) = Some (row_ent plan i)" if "i \<in> rows_of plan" for i
    using r that by (auto simp: plan_ready_def rows_of_def src_loc_def row_ent_def)
  moreover have "m (dst_loc loc plan i) = None"
    if i: "i \<in> rows_of plan" and n: "dst_loc loc plan i \<notin> src_loc loc plan ` rows_of plan" for i
  proof -
    let ?row = "plan_entries plan ! i"
    from i have row: "?row \<in> set (plan_entries plan)" by (simp add: rows_of_def)
    have "row_destination_key ?row \<notin> row_source_key ` set (plan_entries plan)"
    proof
      assume "row_destination_key ?row \<in> row_source_key ` set (plan_entries plan)"
      then obtain j where "j \<in> rows_of plan" "row_destination_key ?row = row_source_key (plan_entries plan ! j)"
        by (auto simp: in_set_conv_nth rows_of_def)
      with n l row show False by (auto simp: located_def src_loc_def dst_loc_def rows_of_def)
    qed
    with r row show ?thesis by (auto simp: plan_ready_def dst_loc_def)
  qed
  ultimately show ?thesis by (auto simp: laid_out_def laid_def)
qed

lemma laid_end:
  assumes wf: "wf_rows loc plan" and m: "laid_out loc plan m0 {} (rows_of plan) m"
  shows "m = renamed_occupancy loc plan m0"
proof
  fix x
  let ?rows = "plan_entries plan"
  show "m x = renamed_occupancy loc plan m0 x"
  proof (cases "find (\<lambda>row. loc (row_destination row) = x) ?rows")
    case None
    then have "\<forall>row\<in>set ?rows. loc (row_destination row) \<noteq> x" by (simp add: find_None_iff)
    then have "dst_loc loc plan i \<noteq> x" if "i < length ?rows" for i
      using that nth_mem [OF that] by (simp add: dst_loc_def)
    then have "x \<notin> dst_loc loc plan ` rows_of plan" by (auto simp: rows_of_def)
    moreover have "x \<in> src_loc loc plan ` rows_of plan \<longleftrightarrow> (\<exists>row\<in>set ?rows. loc (row_source row) = x)"
      by (auto simp: src_loc_def rows_of_def in_set_conv_nth intro: bexI [OF _ nth_mem])
    ultimately show ?thesis using m None
      by (auto simp: laid_out_def laid_def renamed_occupancy_def)
  next
    case (Some row)
    then obtain i where i: "i \<in> rows_of plan" "row = ?rows ! i" "dst_loc loc plan i = x"
      by (auto simp: find_Some_iff rows_of_def dst_loc_def)
    with m have "m x = Some (row_ent plan i)" by (auto simp: laid_out_def laid_def)
    moreover have "row_identity row \<noteq> None" using wf i by (auto simp: wf_rows_def rows_of_def)
    ultimately show ?thesis using Some i by (auto simp: renamed_occupancy_def row_ent_def)
  qed
qed

section \<open>The builder\<close>

lemma check_times_Inl: "check_times cancel p n = Inl e \<Longrightarrow> outside_failure cancel e"
  by (induction n arbitrary: p)
    (auto simp: and_then_Inl check_cancelled_def outside_failure_def split: if_splits)

lemma source_owners_loop_Inl:
  assumes "source_owners_loop cancel p i keys ow = Inl e"
    and "distinct keys" and "set keys \<inter> dom ow = {}"
  shows "outside_failure cancel e"
  using assms
proof (induction cancel p i keys ow rule: source_owners_loop.induct)
  case (2 cancel p i key keys ow)
  show ?case
  proof (cases "cancel p")
    case True
    with "2.prems"(1) show ?thesis by (auto simp: check_cancelled_def outside_failure_def)
  next
    case False
    with "2.prems" have n: "ow key = None" by auto
    then have c: "\<not> ow key \<noteq> None" by simp
    from n False "2.prems"(1) have
      "source_owners_loop cancel (p + 1) (i + 1) keys (ow(key \<mapsto> i)) = Inl e"
      by (simp add: check_cancelled_def)
    moreover have "set keys \<inter> dom (ow(key \<mapsto> i)) = {}" using "2.prems" by auto
    moreover have "distinct keys" using "2.prems"(2) by simp
    ultimately show ?thesis using "2.IH" [OF c] by blast
  qed
qed simp

lemma dependencies_loop_Inl:
  assumes "dependencies_loop cancel p owners i keys deps preds = Inl e"
    and "distinct keys" and "\<forall>k k' w. owners k = Some w \<longrightarrow> owners k' = Some w \<longrightarrow> k = k'"
    and "\<forall>k w. owners k = Some w \<longrightarrow> w < length preds \<and> (k \<in> set keys \<longrightarrow> preds ! w = None)"
  shows "outside_failure cancel e"
  using assms
proof (induction cancel p owners i keys deps preds rule: dependencies_loop.induct)
  case (2 cancel p owners i key keys deps preds)
  show ?case
  proof (cases "cancel p")
    case True
    with "2.prems"(1) show ?thesis by (auto simp: check_cancelled_def outside_failure_def)
  next
    case False
    then have c: "check_cancelled cancel p = Inr (p + 1)" by (simp add: check_cancelled_def)
    show ?thesis
    proof (cases "owners key")
      case None
      with "2.prems"(1) c have "dependencies_loop cancel (p + 1) owners (i + 1) keys deps preds = Inl e"
        by simp
      from "2.IH"(1) [OF None this _ "2.prems"(3)] "2.prems"(2,4) show ?thesis by simp
    next
      case (Some w)
      with "2.prems"(4) have pw: "preds ! w = None" "w < length preds" by auto
      have "\<forall>k v. owners k = Some v \<longrightarrow> v < length (preds[w := Some i]) \<and>
          (k \<in> set keys \<longrightarrow> preds[w := Some i] ! v = None)"
        using "2.prems"(2,3,4) Some pw by (auto simp: nth_list_update)
      moreover from "2.prems"(1) c Some pw have "dependencies_loop cancel (p + 1) owners (i + 1) keys
          (deps[i := Some w]) (preds[w := Some i]) = Inl e" by simp
      moreover have "\<not> preds ! w \<noteq> None" using pw by simp
      moreover have "distinct keys" using "2.prems"(2) by simp
      ultimately show ?thesis using "2.IH"(2) [OF Some] "2.prems"(3) by blast
    qed
  qed
qed simp

lemma schedule_start_progress:
  assumes l: "located loc g K ops plan" and r: "plan_ready loc m0 plan"
  shows "case schedule_start cancel plan of
      Inl e \<Rightarrow> outside_failure cancel e
    | Inr (preds, s) \<Rightarrow> preds_ok loc plan preds \<and> progress loc plan m0 s (rows_of plan)"
proof -
  let ?rows = "plan_entries plan" and ?n = "length (plan_entries plan)"
  let ?sk = "map row_source_key ?rows" and ?dk = "map row_destination_key ?rows"
  let ?ow = "map_of (zip ?sk [0..<?n])"
  from r have dist: "distinct ?sk" "distinct ?dk" by (auto simp: plan_ready_def)
  have own: "?ow k = Some j \<longleftrightarrow> j < ?n \<and> ?sk ! j = k" for k j
    using owners_index [OF dist(1), of k j] by simp
  show ?thesis
  proof (cases "schedule_start cancel plan")
    case (Inl e)
    from Inl consider p n where "check_times cancel p n = Inl e"
      | p where "source_owners_loop cancel p 0 ?sk Map.empty = Inl e"
      | p p' ow where "source_owners_loop cancel p 0 ?sk Map.empty = Inr (ow, p')"
        "dependencies_loop cancel p' ow 0 ?dk (replicate ?n None) (replicate ?n None) = Inl e"
      by (auto simp: schedule_start_def Let_def and_then_Inl)
    then have "outside_failure cancel e"
    proof cases
      case 3
      from source_owners_loop_Inr [OF 3(1)] have ow: "ow = ?ow" by simp
      have "\<forall>k k' w. ow k = Some w \<longrightarrow> ow k' = Some w \<longrightarrow> k = k'"
        unfolding ow using own by auto
      moreover have "\<forall>k w. ow k = Some w \<longrightarrow> w < length (replicate ?n (None :: usize option)) \<and>
          (k \<in> set ?dk \<longrightarrow> replicate ?n (None :: usize option) ! w = None)"
        unfolding ow using own by auto
      ultimately show ?thesis using dependencies_loop_Inl [OF 3(2) dist(2)] by blast
    qed (use check_times_Inl source_owners_loop_Inl dist in auto)
    with Inl show ?thesis by simp
  next
    case (Inr ps)
    obtain preds s where ps: "ps = (preds, s)" by (cases ps)
    with Inr obtain p1 p2 ow p3 deps p4 p5 where st:
      "source_owners_loop cancel p2 0 ?sk Map.empty = Inr (ow, p3)"
      "dependencies_loop cancel p3 ow 0 ?dk (replicate ?n None) (replicate ?n None) =
         Inr (deps, preds, p4)"
      "s = \<lparr>ss_pending = replicate ?n True, ss_remaining = ?n, ss_indices = [0..<?n],
         ss_ready = filter (\<lambda>i. deps ! i = None) [0..<?n],
         ss_reserved = set ?sk \<union> set ?dk, ss_out = [], ss_polls = p5\<rparr>"
      by (auto simp: schedule_start_def Let_def and_then_Inr)
    from source_owners_loop_Inr [OF st(1)] have ow: "ow = ?ow" by simp
    have "\<forall>k w. ow k = Some w \<longrightarrow> w < length (replicate ?n (None :: usize option))"
      unfolding ow using own by auto
    from dependencies_loop_Inr [OF st(2) _ this]
    have deps: "\<And>j. j < ?n \<Longrightarrow> deps ! j = ?ow (?dk ! j)"
      and preds: "\<And>w j. w < ?n \<Longrightarrow> preds ! w = Some j \<longleftrightarrow> j < ?n \<and> ?ow (?dk ! j) = Some w"
      unfolding ow by auto
    have loc: "dst_loc loc plan j = src_loc loc plan w \<longleftrightarrow> ?dk ! j = ?sk ! w"
      if "j < ?n" "w < ?n" for j w
    proof -
      have "?rows ! j \<in> set ?rows" "?rows ! w \<in> set ?rows" using that by simp_all
      then have "dst_loc loc plan j = g (?dk ! j)" "src_loc loc plan w = g (?sk ! w)"
        "?dk ! j \<in> K" "?sk ! w \<in> K" "inj_on g K"
        using l that by (auto simp: located_def dst_loc_def src_loc_def)
      then show ?thesis by (metis inj_onD)
    qed
    have p: "preds_ok loc plan preds"
      using preds own loc by (auto simp: preds_ok_def rows_of_def)
    have ready: "deps ! i = None \<longleftrightarrow> dst_loc loc plan i \<notin> src_loc loc plan ` rows_of plan"
      if i: "i < ?n" for i
    proof -
      have "deps ! i \<noteq> None \<longleftrightarrow> (\<exists>w<?n. ?sk ! w = ?dk ! i)"
        unfolding deps [OF i] not_None_eq own by blast
      also have "\<dots> \<longleftrightarrow> dst_loc loc plan i \<in> src_loc loc plan ` rows_of plan"
        using loc [OF i] by (fastforce simp: rows_of_def)
      finally show ?thesis by blast
    qed
    have "progress loc plan m0 s (rows_of plan)"
      unfolding progress_def
      using laid_start [OF r l] ready by (auto simp: st(3) books_def rows_of_def)
    with p Inr ps show ?thesis by simp
  qed
qed

context rename_backend
begin

text \<open>
  The schedule carries out the plan: applied to the observed filesystem, its steps never meet
  an occupied destination or another entry, and together they rename all rows at once. The
  builder fails only for reasons outside the plan.
\<close>

theorem schedule_simultaneous:
  assumes l: "located loc g K ops plan" and r: "plan_ready loc (occ b) plan"
    and bld: "build_schedule_cancellable cancel ops plan b = (res, b')"
  shows "occ b' = occ b \<and> (case res of
      Inl e \<Rightarrow> outside_failure cancel e
    | Inr (steps, _) \<Rightarrow> apply_moves (map (step_move loc) steps) (occ b) =
        Some (renamed_occupancy loc plan (occ b)))"
proof -
  note start = schedule_start_progress [OF l r, of cancel]
  show ?thesis
  proof (cases "schedule_start cancel plan")
    case (Inl e)
    with start bld show ?thesis by (auto simp: build_schedule_cancellable_def)
  next
    case (Inr ps)
    obtain preds s where ps: "ps = (preds, s)" by (cases ps)
    obtain q b1 where lp: "schedule_loop cancel ops plan preds s b = (q, b1)"
      by (cases "schedule_loop cancel ops plan preds s b")
    from start Inr ps have "preds_ok loc plan preds" "progress loc plan (occ b) s (rows_of plan)"
      by auto
    note loop = loop_progress [OF l wf_rows_ready [OF l r] this lp]
    show ?thesis
    proof (cases q)
      case (Inl e)
      with loop lp bld Inr ps \<open>schedule_start cancel plan = Inr ps\<close> show ?thesis
        by (auto simp: build_schedule_cancellable_def)
    next
      case (Inr s')
      with loop obtain m where m: "apply_moves (map (step_move loc) (ss_out s')) (occ b) = Some m"
          "laid_out loc plan (occ b) {} (rows_of plan) m" "occ b1 = occ b"
        by (auto simp: progress_def)
      from laid_end [OF wf_rows_ready [OF l r] m(2)] m(1,3) Inr lp bld ps
        \<open>schedule_start cancel plan = Inr ps\<close>
      show ?thesis by (auto simp: build_schedule_cancellable_def)
    qed
  qed
qed

end

end
