(* ===== verification/Memory_Backend.thy ===== *)
theory Memory_Backend
  imports Rename_Backend Leaf_Name
begin

unbundle bit_operations_syntax

text \<open>
  The deterministic in-memory filesystem of \<open>crates/darknamer-app/src/rename/memory.rs\<close>: entries
  by case-folded path, identities of parent directories (an FNV hash unless overridden), injected
  failures, and the log of completed moves. It implements the \<open>RenameBackend\<close> port; its locations
  are the case-folded paths.
\<close>

section \<open>Paths\<close>

definition parent_units :: "u16 list \<Rightarrow> u16 list" where
  "parent_units path = (case rposition is_separator path of None \<Rightarrow> [] | Some i \<Rightarrow> take i path)"

definition path_components :: "legacy_text \<Rightarrow> u16 list list" where
  "path_components path =
     map (map ascii_lower) (filter (\<lambda>part. part \<noteq> []) (split_units is_separator path))"

text \<open>\<open>String::from_utf16_lossy\<close> as the list of scalar values.\<close>

definition is_high_surrogate :: "u16 \<Rightarrow> bool" where
  "is_high_surrogate u \<longleftrightarrow> 0xD800 \<le> u \<and> u \<le> 0xDBFF"

definition is_low_surrogate :: "u16 \<Rightarrow> bool" where
  "is_low_surrogate u \<longleftrightarrow> 0xDC00 \<le> u \<and> u \<le> 0xDFFF"

definition combine_surrogates :: "u16 \<Rightarrow> u16 \<Rightarrow> u32" where
  "combine_surrogates h l = 0x10000 + (push_bit 10 (ucast (h - 0xD800)) OR ucast (l - 0xDC00))"

fun to_string_lossy :: "legacy_text \<Rightarrow> u32 list" where
  "to_string_lossy [] = []"
| "to_string_lossy [u] =
     [if is_high_surrogate u \<or> is_low_surrogate u then 0xFFFD else ucast u]"
| "to_string_lossy (u # v # units) =
     (if is_high_surrogate u \<and> is_low_surrogate v
      then combine_surrogates u v # to_string_lossy units
      else (if is_high_surrogate u \<or> is_low_surrogate u then 0xFFFD else ucast u)
           # to_string_lossy (v # units))"

section \<open>State\<close>

record memory_entry =
  me_identity :: entry_identity
  me_kind :: entry_kind
  me_reparse :: bool

record memory_backend =
  mb_entries :: "path_key \<rightharpoonup> memory_entry"
  mb_parents :: "path_key \<rightharpoonup> entry_identity"
  mb_failures :: "usize \<rightharpoonup> u32 \<times> mutation_certainty"
  mb_attempts :: usize
  mb_completed :: "(u32 list \<times> u32 list) list"
  mb_nonce :: u128

definition memory_backend_new :: memory_backend where
  "memory_backend_new = \<lparr>mb_entries = Map.empty, mb_parents = Map.empty, mb_failures = Map.empty,
     mb_attempts = 0, mb_completed = [], mb_nonce = 1\<rparr>"

definition mb_path_key :: "legacy_text \<Rightarrow> path_key" where
  "mb_path_key path = map ascii_lower path"

definition with_file_identity :: "memory_backend \<Rightarrow> legacy_text \<Rightarrow> entry_identity \<Rightarrow> memory_backend" where
  "with_file_identity b path ident =
     b\<lparr>mb_entries := (mb_entries b)(mb_path_key path \<mapsto>
         \<lparr>me_identity = ident, me_kind = File, me_reparse = False\<rparr>)\<rparr>"

definition with_file :: "memory_backend \<Rightarrow> legacy_text \<Rightarrow> u128 \<Rightarrow> memory_backend" where
  "with_file b path i = with_file_identity b path \<lparr>volume = 1, file_id = i\<rparr>"

definition with_directory :: "memory_backend \<Rightarrow> legacy_text \<Rightarrow> u128 \<Rightarrow> memory_backend" where
  "with_directory b path i =
     b\<lparr>mb_entries := (mb_entries b)(mb_path_key path \<mapsto>
         \<lparr>me_identity = \<lparr>volume = 1, file_id = i\<rparr>, me_kind = Directory, me_reparse = False\<rparr>)\<rparr>"

definition with_parent_identity :: "memory_backend \<Rightarrow> legacy_text \<Rightarrow> entry_identity \<Rightarrow> memory_backend" where
  "with_parent_identity b parent ident =
     b\<lparr>mb_parents := (mb_parents b)(mb_path_key parent \<mapsto> ident)\<rparr>"

definition insert_file :: "memory_backend \<Rightarrow> legacy_text \<Rightarrow> u128 \<Rightarrow> memory_backend" where
  "insert_file b path i =
     b\<lparr>mb_entries := (mb_entries b)(mb_path_key path \<mapsto>
         \<lparr>me_identity = \<lparr>volume = 1, file_id = i\<rparr>, me_kind = File, me_reparse = False\<rparr>)\<rparr>"

definition replace_file_id :: "memory_backend \<Rightarrow> legacy_text \<Rightarrow> u128 \<Rightarrow> memory_backend" where
  "replace_file_id b path i =
     (case mb_entries b (mb_path_key path) of
        None \<Rightarrow> b
      | Some e \<Rightarrow> b\<lparr>mb_entries := (mb_entries b)(mb_path_key path \<mapsto>
          e\<lparr>me_identity := \<lparr>volume = volume (me_identity e), file_id = i\<rparr>\<rparr>)\<rparr>)"

definition replace_parent_identity :: "memory_backend \<Rightarrow> legacy_text \<Rightarrow> entry_identity \<Rightarrow> memory_backend" where
  "replace_parent_identity b child ident =
     b\<lparr>mb_parents := (mb_parents b)(mb_path_key (parent_units child) \<mapsto> ident)\<rparr>"

definition replace_parent_id :: "memory_backend \<Rightarrow> legacy_text \<Rightarrow> u128 \<Rightarrow> memory_backend" where
  "replace_parent_id b child i =
     b\<lparr>mb_parents := (mb_parents b)(mb_path_key (parent_units child) \<mapsto>
         \<lparr>volume = 1, file_id = i\<rparr>)\<rparr>"

definition fail_move_on :: "memory_backend \<Rightarrow> usize \<Rightarrow> u32 \<Rightarrow> memory_backend" where
  "fail_move_on b attempt c =
     b\<lparr>mb_failures := (mb_failures b)(attempt \<mapsto> (c, NotApplied_Certain))\<rparr>"

definition fail_ambiguous_move_on :: "memory_backend \<Rightarrow> usize \<Rightarrow> u32 \<Rightarrow> memory_backend" where
  "fail_ambiguous_move_on b attempt c =
     b\<lparr>mb_failures := (mb_failures b)(attempt \<mapsto> (c, MayHaveApplied))\<rparr>"

definition set_next_transaction_nonce :: "memory_backend \<Rightarrow> u128 \<Rightarrow> memory_backend" where
  "set_next_transaction_nonce b n = b\<lparr>mb_nonce := n\<rparr>"

definition mb_file_id :: "memory_backend \<Rightarrow> legacy_text \<Rightarrow> u128 option" where
  "mb_file_id b path = map_option (\<lambda>e. file_id (me_identity e)) (mb_entries b (mb_path_key path))"

definition mutation_count :: "memory_backend \<Rightarrow> usize" where
  "mutation_count b = length (mb_completed b)"

text \<open>The 64-bit FNV-1a style hash of the folded parent path.\<close>

definition fnv_step :: "u64 \<Rightarrow> u16 \<Rightarrow> u64" where
  "fnv_step h u = (h XOR ucast (ascii_lower u)) * 0x100000001b3"

definition parent_identity :: "memory_backend \<Rightarrow> legacy_text \<Rightarrow> entry_identity" where
  "parent_identity b path =
     (let parent = parent_units path
      in case mb_parents b (mb_path_key parent) of
           Some ident \<Rightarrow> ident
         | None \<Rightarrow> \<lparr>volume = 1, file_id = ucast (foldl fnv_step 0xcbf29ce484222325 parent)\<rparr>)"

section \<open>The port\<close>

definition backend_error_new :: "backend_operation \<Rightarrow> u32 \<Rightarrow> mutation_certainty \<Rightarrow> backend_error" where
  "backend_error_new op c cert =
     \<lparr>backend_operation = op, backend_code = c, backend_certainty = cert\<rparr>"

definition mb_observe :: "memory_backend \<Rightarrow> legacy_text \<Rightarrow> backend_error + path_snapshot" where
  "mb_observe b path =
     Inr \<lparr>snapshot_parent = parent_identity b path,
          snapshot_entry = map_option
            (\<lambda>e. \<lparr>observed_identity = me_identity e, observed_kind = me_kind e,
                  is_reparse_point = me_reparse e\<rparr>)
            (mb_entries b (mb_path_key path))\<rparr>"

definition mb_planned_entry_key :: "entry_identity \<Rightarrow> legacy_text \<Rightarrow> backend_error + path_key" where
  "mb_planned_entry_key parent leaf =
     (case validate_windows_leaf_name leaf of
        Inl _ \<Rightarrow> Inl (backend_error_new Observe 123 NotApplied_Certain)
      | Inr _ \<Rightarrow> Inr (entry_key_from_parts parent (map ascii_lower leaf)))"

definition mb_resolve_source :: "memory_backend \<Rightarrow> legacy_text \<Rightarrow> backend_error + resolved_source" where
  "mb_resolve_source b path =
     and_then (mb_observe b path) (\<lambda>snap.
       case snapshot_entry snap of
         None \<Rightarrow> Inr \<lparr>resolved_path = path, resolved_snapshot = snap, resolved_entry_key = None\<rparr>
       | Some _ \<Rightarrow>
           and_then (mb_planned_entry_key (snapshot_parent snap) (path_leaf path)) (\<lambda>key.
             Inr \<lparr>resolved_path = path, resolved_snapshot = snap, resolved_entry_key = Some key\<rparr>))"

definition mb_same_or_descendant :: "legacy_text \<Rightarrow> legacy_text \<Rightarrow> backend_error + bool" where
  "mb_same_or_descendant ancestor candidate =
     (let a = path_components ancestor; c = path_components candidate
      in Inr (length a \<le> length c \<and> list_all (\<lambda>(x, y). x = y) (zip c a)))"

definition mb_next_nonce :: "memory_backend \<Rightarrow> (backend_error + u128) \<times> memory_backend" where
  "mb_next_nonce b =
     (let nonce = mb_nonce b
      in if nonce = - 1 then (Inl (backend_error_new TransactionNonce 534 NotApplied_Certain), b)
         else (Inr nonce, b\<lparr>mb_nonce := nonce + 1\<rparr>))"

definition mb_fail :: "u32 \<Rightarrow> memory_backend \<Rightarrow> (backend_error + unit) \<times> memory_backend" where
  "mb_fail c b = (Inl (backend_error_new RenameOp c NotApplied_Certain), b)"

definition mb_rename_no_replace ::
  "memory_backend \<Rightarrow> rename_operation \<Rightarrow> (backend_error + unit) \<times> memory_backend" where
  "mb_rename_no_replace b op =
     (case authorization_error op of
        Some e \<Rightarrow> (Inl e, b)
      | None \<Rightarrow>
         (let b1 = b\<lparr>mb_attempts := (mb_attempts b + 1) mod USIZE_LIMIT\<rparr>;
              injected = mb_failures b1 (mb_attempts b1);
              source_key = mb_path_key (op_source op);
              destination_key = mb_path_key (op_destination op)
          in if map_option snd injected = Some NotApplied_Certain then mb_fail (fst (the injected)) b1
             else if parent_identity b1 (op_source op) \<noteq> op_expected_source_parent op \<or>
                parent_identity b1 (op_destination op) \<noteq> op_expected_destination_parent op
             then mb_fail 1168 b1
             else if mb_entries b1 destination_key \<noteq> None then mb_fail 183 b1
             else case mb_entries b1 source_key of
               None \<Rightarrow> mb_fail 2 b1
             | Some e \<Rightarrow>
                 if me_identity e \<noteq> op_expected_source op then mb_fail 1168 b1
                 else if (case op_kind op of None \<Rightarrow> False | Some k \<Rightarrow> me_kind e \<noteq> k) then mb_fail 1168 b1
                 else if volume (op_expected_source_parent op) \<noteq>
                    volume (op_expected_destination_parent op) then mb_fail 17 b1
                 else
                   let b2 = b1\<lparr>mb_entries := (mb_entries b1)(source_key := None, destination_key \<mapsto> e),
                               mb_completed := mb_completed b1 @
                                 [(to_string_lossy (op_source op), to_string_lossy (op_destination op))]\<rparr>
                   in case injected of
                        Some (c, MayHaveApplied) \<Rightarrow>
                          (Inl (backend_error_new RenameOp c MayHaveApplied), b2)
                      | _ \<Rightarrow> (Inr (), b2)))"

definition memory_backend_ops :: "memory_backend backend_ops" where
  "memory_backend_ops = \<lparr>validate_environment_op = (\<lambda>_ _. Inr ()),
     path_key_op = (\<lambda>_. mb_path_key), resolve_source_op = mb_resolve_source,
     planned_entry_key_op = (\<lambda>_. mb_planned_entry_key), observe_op = mb_observe,
     same_or_descendant_op = (\<lambda>_. mb_same_or_descendant), next_nonce_op = mb_next_nonce,
     rename_op = mb_rename_no_replace\<rparr>"

section \<open>The adapter meets the contract\<close>

definition mb_occupancy :: "memory_backend \<Rightarrow> path_key occupancy" where
  "mb_occupancy b k = map_option me_identity (mb_entries b k)"

lemma mb_occupancy_fields [simp]:
  "mb_occupancy (b\<lparr>mb_attempts := n\<rparr>) = mb_occupancy b"
  "mb_occupancy (b\<lparr>mb_nonce := x\<rparr>) = mb_occupancy b"
  by (simp_all add: mb_occupancy_def fun_eq_iff)

lemma mb_rename_law:
  assumes "mb_rename_no_replace b op = (res, b')"
  shows "renamed (operation_move mb_path_key op) (mb_occupancy b) res (mb_occupancy b')"
proof -
  have moved: "mb_occupancy (b\<lparr>mb_attempts := n,
         mb_entries := (mb_entries b)(s := None, t \<mapsto> e), mb_completed := l\<rparr>) =
      (mb_occupancy b)(s := None, t \<mapsto> me_identity e)" for n s t e l
    by (auto simp: mb_occupancy_def fun_eq_iff)
  from assms show ?thesis
    unfolding mb_rename_no_replace_def mb_fail_def Let_def
    by (auto simp: moved operation_move_def move_enabled_def move_result_def backend_error_new_def
        mb_occupancy_def [of b] authorization_error_def
        split: option.splits if_splits prod.splits mutation_certainty.splits)
qed

interpretation mb: rename_backend memory_backend_ops mb_path_key mb_occupancy
proof unfold_locales
  show "renamed (operation_move mb_path_key op) (mb_occupancy b) res (mb_occupancy b')"
    if "rename_op memory_backend_ops b op = (res, b')" for b op res b'
    using that by (simp add: memory_backend_ops_def mb_rename_law)
next
  show "mb_occupancy b' = mb_occupancy b"
    if "next_nonce_op memory_backend_ops b = (nonce, b')" for b nonce b'
    using that by (auto simp: memory_backend_ops_def mb_next_nonce_def Let_def split: if_splits)
next
  show "observed_at snap = mb_occupancy b (mb_path_key path)"
    if "observe_op memory_backend_ops b path = Inr snap" for b path snap
    using that
    by (auto simp: memory_backend_ops_def mb_observe_def observed_at_def mb_occupancy_def
        option.map_comp comp_def)
next
  show "observed_at (resolved_snapshot r) = mb_occupancy b (mb_path_key path)"
    if "resolve_source_op memory_backend_ops b path = Inr r" for b path r
    using that
    by (auto simp: memory_backend_ops_def mb_resolve_source_def mb_observe_def observed_at_def
        mb_occupancy_def and_then_Inr option.map_comp comp_def split: option.splits)
qed (simp add: memory_backend_ops_def)

text \<open>
  An authorized move of the expected entry to an empty path succeeds when no failure is injected
  and the parents are the expected ones.
\<close>

lemma mb_rename_succeeds:
  assumes "authorization_error op = None"
    and "mb_failures b ((mb_attempts b + 1) mod USIZE_LIMIT) = None"
    and "parent_identity b (op_source op) = op_expected_source_parent op"
    and "parent_identity b (op_destination op) = op_expected_destination_parent op"
    and "mb_entries b (mb_path_key (op_destination op)) = None"
    and "mb_entries b (mb_path_key (op_source op)) = Some e"
    and "me_identity e = op_expected_source op"
    and "op_kind op = None \<or> op_kind op = Some (me_kind e)"
  shows "fst (mb_rename_no_replace b op) = Inr ()"
proof -
  have p: "parent_identity (b\<lparr>mb_attempts := n\<rparr>) q = parent_identity b q" for n q
    by (simp add: parent_identity_def)
  from assms(1) have "volume (op_expected_source_parent op) = volume (op_expected_destination_parent op)"
    by (auto simp: authorized_iff)
  with assms p show ?thesis
    by (auto simp: mb_rename_no_replace_def Let_def)
qed

end
