(* ===== verification/Memory_Plan.thy ===== *)
theory Memory_Plan
  imports Schedule_Correct Memory_Backend
begin

text \<open>
  Plans over the in-memory backend. A folder map \<open>F\<close> says which folder each parent identity
  stands for; a plan whose rows respect it is \<open>located\<close>: equal entry keys mean equal paths, and
  a temporary name never collides with a planned one. The scheduler's theorem then applies.
\<close>

definition addressed ::
  "(entry_identity \<Rightarrow> u16 list) \<Rightarrow> legacy_text \<Rightarrow> entry_identity \<Rightarrow> path_key \<Rightarrow> bool" where
  "addressed F path parent key \<longleftrightarrow>
     (\<exists>leaf. mb_path_key path = F parent @ BACKSLASH # leaf \<and> key = entry_key_from_parts parent leaf \<and>
        BACKSLASH \<notin> set leaf \<and> SLASH \<notin> set leaf)"

definition plan_parents :: "rename_plan \<Rightarrow> entry_identity set" where
  "plan_parents plan =
     (\<lambda>row. snapshot_parent (row_source_snapshot row)) ` set (plan_entries plan) \<union>
     (\<lambda>row. snapshot_parent (row_destination_snapshot row)) ` set (plan_entries plan)"

definition memory_plan :: "(entry_identity \<Rightarrow> u16 list) \<Rightarrow> rename_plan \<Rightarrow> bool" where
  "memory_plan F plan \<longleftrightarrow> inj_on F (plan_parents plan) \<and>
     (\<forall>row\<in>set (plan_entries plan).
        addressed F (row_source row) (snapshot_parent (row_source_snapshot row)) (row_source_key row) \<and>
        addressed F (row_destination row) (snapshot_parent (row_destination_snapshot row))
          (row_destination_key row))"

lemma ascii_lower_separators [simp]:
  "ascii_lower u = BACKSLASH \<longleftrightarrow> u = BACKSLASH" "ascii_lower u = SLASH \<longleftrightarrow> u = SLASH"
  "ascii_lower BACKSLASH = BACKSLASH" "ascii_lower SLASH = SLASH"
  by (simp_all add: ascii_lower_eq_iff)

lemma schedule_parent_lower:
  assumes "map ascii_lower path = p @ BACKSLASH # leaf" and "BACKSLASH \<notin> set leaf" "SLASH \<notin> set leaf"
  shows "map ascii_lower (schedule_parent_units path) = p"
proof -
  from assms(1) obtain us v vs where path: "path = us @ v # vs" "map ascii_lower us = p"
    "ascii_lower v = BACKSLASH" "map ascii_lower vs = leaf"
    by (auto simp: map_eq_append_conv map_eq_Cons_conv)
  have "\<forall>u\<in>set vs. \<not> (u = BACKSLASH \<or> u = SLASH)"
    using assms(2,3) path(4) by force
  then have "rposition (\<lambda>u. u = BACKSLASH \<or> u = SLASH) path = Some (length us)"
    using rposition_append [of "\<lambda>u. u = BACKSLASH \<or> u = SLASH" "us @ [v]" vs] path(1,3)
    by (simp add: rposition_snoc rposition_None [THEN iffD2])
  then show ?thesis using path(1,2) by (simp add: schedule_parent_units_def)
qed

text \<open>The entries of a key under a folder map.\<close>

definition key_path :: "(entry_identity \<Rightarrow> u16 list) \<Rightarrow> path_key \<Rightarrow> u16 list" where
  "key_path F key = (THE path. \<exists>parent leaf. key = entry_key_from_parts parent leaf \<and>
     path = F parent @ BACKSLASH # leaf)"

lemma key_path_parts [simp]: "key_path F (entry_key_from_parts parent leaf) = F parent @ BACKSLASH # leaf"
  unfolding key_path_def by (rule the_equality) (auto simp: entry_key_inj)

definition plan_keys :: "rename_plan \<Rightarrow> path_key set" where
  "plan_keys plan = {entry_key_from_parts parent leaf |parent leaf.
     parent \<in> plan_parents plan \<and> BACKSLASH \<notin> set leaf}"

lemma split_last_unique:
  assumes "p @ x # l = q @ x # m" and "x \<notin> set l" and "x \<notin> set m"
  shows "p = q \<and> l = m"
  using assms by (auto simp: append_eq_append_conv2 Cons_eq_append_conv append_eq_Cons_conv)

lemma key_path_inj:
  assumes "inj_on F (plan_parents plan)"
  shows "inj_on (key_path F) (plan_keys plan)"
  by (rule inj_onI) (auto simp: plan_keys_def dest!: split_last_unique dest: inj_onD [OF assms])

lemma memory_plan_located:
  assumes "memory_plan F plan"
  shows "located mb_path_key (key_path F) (plan_keys plan) memory_backend_ops plan"
  unfolding located_def
proof (intro conjI ballI allI impI)
  show "inj_on (key_path F) (plan_keys plan)"
    using assms by (simp add: memory_plan_def key_path_inj)
  fix row assume row: "row \<in> set (plan_entries plan)"
  then have parents: "snapshot_parent (row_source_snapshot row) \<in> plan_parents plan"
    "snapshot_parent (row_destination_snapshot row) \<in> plan_parents plan" by (auto simp: plan_parents_def)
  from assms row have a: "addressed F (row_source row) (snapshot_parent (row_source_snapshot row)) (row_source_key row)"
    "addressed F (row_destination row) (snapshot_parent (row_destination_snapshot row)) (row_destination_key row)"
    by (auto simp: memory_plan_def)
  show "row_source_key row \<in> plan_keys plan" "row_destination_key row \<in> plan_keys plan"
    "mb_path_key (row_source row) = key_path F (row_source_key row)"
    "mb_path_key (row_destination row) = key_path F (row_destination_key row)"
    using a parents by (auto simp: addressed_def plan_keys_def)
  fix b leaf key
  assume k: "planned_entry_key_op memory_backend_ops b (snapshot_parent (row_source_snapshot row)) leaf = Inr key"
  then have v: "valid_leaf leaf" and key: "key = entry_key_from_parts (snapshot_parent (row_source_snapshot row)) (map ascii_lower leaf)"
    by (auto simp: memory_backend_ops_def mb_planned_entry_key_def valid_leaf_def split: sum.splits)
  from valid_leaf_no_separator [OF v, of BACKSLASH] have "BACKSLASH \<notin> set (map ascii_lower leaf)" by auto
  with key parents(1) show "key \<in> plan_keys plan" unfolding plan_keys_def by blast
  from a(1) have "mb_path_key (schedule_parent_units (row_source row)) = F (snapshot_parent (row_source_snapshot row))"
    using schedule_parent_lower by (auto simp: addressed_def mb_path_key_def)
  then show "mb_path_key (temporary_path row leaf) = key_path F key"
    by (simp add: key temporary_path_def mb_path_key_def)
qed

end
