(* ===== verification/Planner_Correct.thy ===== *)
theory Planner_Correct
  imports Rename_Planner Memory_Plan
begin

text \<open>
  What a plan guarantees. A plan that comes out of the stages has one row for every changed
  intent, frozen from the backend's own observations, with distinct identifiers and destinations,
  authorized moves, destinations that are free or vacated by the plan itself, and no entry in a
  directory that the plan renames. On the in-memory filesystem such a plan is ready for the
  scheduler and the executor.
\<close>

section \<open>Loops and stages\<close>

lemma plan_poll_Inr [simp]: "plan_poll cancel n = Inr n' \<longleftrightarrow> \<not> cancel n \<and> n' = n + 1"
  by (auto simp: plan_poll_def)

lemma stage_end_Inr [simp]: "stage_end issues x = Inr y \<longleftrightarrow> issues = [] \<and> y = x"
  by (auto simp: stage_end_def)

lemma for_each_each:
  "for_each cancel (each f) xs s n = Inr (s', n') \<Longrightarrow> s' = fold f xs s"
  by (induction xs arbitrary: s n) (auto simp: and_then_Inr each_def)

lemma for_each_invariant:
  assumes "for_each cancel f xs s n = Inr (s', n')" and "P s"
    and "\<And>x s n s' n'. x \<in> set xs \<Longrightarrow> P s \<Longrightarrow> f x s n = Inr (s', n') \<Longrightarrow> P s'"
  shows "P s'"
  using assms
proof (induction xs arbitrary: s n)
  case (Cons x xs)
  then obtain s1 n1 where step: "f x s (n + 1) = Inr (s1, n1)" "for_each cancel f xs s1 n1 = Inr (s', n')"
    by (auto simp: and_then_Inr)
  have "P s1" using Cons.prems(3) [OF _ Cons.prems(2) step(1)] by simp
  from Cons.IH [OF step(2) this] Cons.prems(3) show ?case by (metis list.set_intros(2))
qed simp

text \<open>What the step of each element establishes and the other steps keep holds at the end.\<close>

lemma for_each_all:
  assumes "for_each cancel f xs s n = Inr (s', n')"
    and "\<And>x s n s' n'. x \<in> set xs \<Longrightarrow> f x s n = Inr (s', n') \<Longrightarrow> R x s'"
    and "\<And>x y s n s' n'. y \<in> set xs \<Longrightarrow> R x s \<Longrightarrow> f y s n = Inr (s', n') \<Longrightarrow> R x s'"
  shows "\<forall>x\<in>set xs. R x s'"
  using assms
proof (induction xs arbitrary: s n)
  case (Cons x xs)
  then obtain s1 n1 where step: "f x s (n + 1) = Inr (s1, n1)" "for_each cancel f xs s1 n1 = Inr (s', n')"
    by (auto simp: and_then_Inr)
  have "R x s1" using Cons.prems(2) [OF _ step(1)] by simp
  then have "R x s'"
    by (rule for_each_invariant [OF step(2)]) (metis Cons.prems(3) list.set_intros(2))
  moreover have "\<forall>x\<in>set xs. R x s'"
    by (rule Cons.IH [OF step(2)]) (metis Cons.prems(2,3) list.set_intros(2))+
  ultimately show ?case by simp
qed simp

lemma fold_append_issues:
  "fold (\<lambda>e issues. issues @ [f e]) es issues = issues @ map f es"
  by (induction es arbitrary: issues) auto

lemma push_issues_Inr:
  "push_issues cancel kind es issues n = Inr (issues', n') \<Longrightarrow>
     issues' = issues @ map (\<lambda>e. issue e kind) es"
  unfolding push_issues_def by (drule for_each_each) (simp add: fold_append_issues)

lemma append_duplicate_issues_Inr:
  assumes "append_duplicate_issues cancel sets kind issues n = Inr (issues', n')"
  shows "issues' = issues @ concat (map (map (\<lambda>e. issue e kind)) (filter (\<lambda>owners. 1 < length owners) sets))"
proof -
  have "for_each cancel (push_issues cancel kind) sets issues n = Inr (issues', n') \<Longrightarrow>
      issues' = issues @ concat (map (map (\<lambda>e. issue e kind)) sets)" for sets :: "entry_id list list"
  proof (induction sets arbitrary: issues n)
    case (Cons owners sets)
    then obtain n1 where "for_each cancel (push_issues cancel kind) sets
        (issues @ map (\<lambda>e. issue e kind) owners) n1 = Inr (issues', n')"
      by (auto simp: and_then_Inr dest!: push_issues_Inr)
    from Cons.IH [OF this] show ?case by simp
  qed simp
  from this [OF assms [unfolded append_duplicate_issues_def]] show ?thesis .
qed

lemma no_duplicates:
  assumes "append_duplicate_issues cancel sets kind issues n = Inr ([], n')"
  shows "issues = [] \<and> (\<forall>owners\<in>set sets. length owners \<le> 1)"
  using append_duplicate_issues_Inr [OF assms] by (auto simp: filter_empty_conv not_less)

section \<open>Ordered owners\<close>

abbreviation ordered :: "('k::linorder \<times> 'v) list \<Rightarrow> bool" where
  "ordered m \<equiv> sorted_wrt (<) (map fst m)"

lemma push_owner_keys: "fst ` set (push_owner k v m) = insert k (fst ` set m)"
  by (induction k v m rule: push_owner.induct) auto

lemma push_owner_ordered: "ordered m \<Longrightarrow> ordered (push_owner k v m)"
  by (induction k v m rule: push_owner.induct) (auto simp: push_owner_keys [unfolded set_map [symmetric]] simp del: set_map)

lemma owners_of_Nil [simp]: "owners_of k [] = []"
  by (simp add: owners_of_def)

lemma owners_of_Cons: "owners_of k ((k', vs) # m) = (if k = k' then vs else owners_of k m)"
  by (simp add: owners_of_def)

lemma owners_of_absent: "k \<notin> fst ` set m \<Longrightarrow> owners_of k m = []"
  by (simp add: owners_of_def map_of_eq_None_iff [THEN iffD2])

lemma owners_push:
  "ordered m \<Longrightarrow> owners_of k (push_owner k' v m) = owners_of k m @ (if k = k' then [v] else [])"
proof (induction k' v m rule: push_owner.induct)
  case (2 k' v k1 vs m)
  then have "k' < k1 \<Longrightarrow> k' \<notin> fst ` set ((k1, vs) # m)" by auto
  from owners_of_absent [OF this] 2 show ?case by (auto simp: owners_of_Cons)
qed (simp add: owners_of_Cons)

lemma fold_push_owner:
  assumes "ordered m"
  shows "ordered (fold (\<lambda>x. push_owner (k x) (v x)) xs m) \<and>
    owners_of key (fold (\<lambda>x. push_owner (k x) (v x)) xs m) =
      owners_of key m @ map v (filter (\<lambda>x. k x = key) xs)"
  using assms
  by (induction xs arbitrary: m) (auto simp: push_owner_ordered owners_push)

lemma owners_member: "ordered m \<Longrightarrow> (k, vs) \<in> set m \<Longrightarrow> owners_of k m = vs"
  by (auto simp: owners_of_def strict_sorted_iff)

lemma owners_bound:
  "\<forall>vs\<in>set (map snd m). length vs \<le> 1 \<Longrightarrow> length (owners_of k m) \<le> 1"
  by (auto simp: owners_of_def split: option.splits dest!: map_of_SomeD)

lemma distinct_from_owners:
  assumes "\<forall>vs\<in>set (map snd (fold (\<lambda>x. push_owner (k x) (v x)) xs [])). length vs \<le> 1"
  shows "distinct (map k xs)"
proof -
  have "length (filter (\<lambda>x. k x = key) xs) \<le> 1" for key
    using owners_bound [OF assms, of key] fold_push_owner [where m = "[]" and key = key and k = k and v = v and xs = xs]
    by simp
  then show ?thesis
  proof (induction xs)
    case (Cons x xs)
    have "filter (\<lambda>y. k y = k x) xs = []" using Cons.prems [of "k x"] by simp
    moreover have "length (filter (\<lambda>y. k y = key) xs) \<le> 1" for key
      using Cons.prems [of key] by (auto split: if_splits)
    ultimately show ?case using Cons.IH by (auto simp: filter_empty_conv)
  qed simp
qed

section \<open>Frozen rows\<close>

text \<open>What a row records of its intent: only answers of the backend, and a move that is authorized.\<close>

definition frozen_row :: "'b backend_ops \<Rightarrow> 'b \<Rightarrow> move_scope \<Rightarrow> rename_intent \<Rightarrow> plan_row \<Rightarrow> bool" where
  "frozen_row ops b scope intent row \<longleftrightarrow>
     row_id row = intent_id intent \<and> row_destination row = intent_destination intent \<and>
     row_kind row = intent_kind intent \<and> is_absolute_windows_path (row_source row) \<and>
     resolve_source_op ops b (intent_source intent) =
       Inr \<lparr>resolved_path = row_source row, resolved_snapshot = row_source_snapshot row,
            resolved_entry_key = Some (row_source_key row)\<rparr> \<and>
     planned_entry_key_op ops b (snapshot_parent (row_source_snapshot row)) (path_leaf (row_source row)) =
       Inr (row_source_key row) \<and>
     observe_op ops b (intent_destination intent) = Inr (row_destination_snapshot row) \<and>
     planned_entry_key_op ops b (snapshot_parent (row_destination_snapshot row)) (intent_name intent) =
       Inr (row_destination_key row) \<and>
     (\<exists>entry. snapshot_entry (row_source_snapshot row) = Some entry \<and> observed_kind entry = row_kind row \<and>
        \<not> is_reparse_point entry \<and>
        authorization_error (with_authorization (row_source row) (row_destination row)
          (observed_identity entry) (snapshot_parent (row_source_snapshot row))
          (snapshot_parent (row_destination_snapshot row)) (row_kind row) scope) = None)"

lemma check_resolved_Inr:
  "check_resolved ops b intent r = Inr (entry, key) \<longleftrightarrow>
     snapshot_entry (resolved_snapshot r) = Some entry \<and> observed_kind entry = intent_kind intent \<and>
     resolved_entry_key r = Some key \<and> path_component_depth (resolved_path r) \<le> MAX_PLAN_PATH_DEPTH \<and>
     is_absolute_windows_path (resolved_path r) \<and>
     planned_entry_key_op ops b (snapshot_parent (resolved_snapshot r)) (path_leaf (resolved_path r)) = Inr key \<and>
     \<not> is_reparse_point entry"
  by (auto simp: check_resolved_def Let_def not_less split: option.splits sum.splits if_splits)

lemma move_issues_authorized:
  "move_issues scope entry source destination = [] \<longleftrightarrow>
     authorization_error (with_authorization src dst (observed_identity entry) (snapshot_parent source)
       (snapshot_parent destination) (observed_kind entry) scope) = None"
  by (cases scope; cases "observed_kind entry")
    (auto simp: move_issues_def Let_def authorized_iff with_authorization_def)

lemma plan_row_of_frozen:
  assumes "plan_row_of ops b cancel scope intent n = Inr (Inr row, n')"
  shows "frozen_row ops b scope intent row"
  using assms move_issues_authorized [of scope _ _ _ "row_source row" "row_destination row"]
  by (auto simp: plan_row_of_def frozen_row_def and_then_Inr check_resolved_Inr Let_def
      split: sum.splits if_splits)

lemma plan_row_of_issues:
  assumes "plan_row_of ops b cancel scope intent n = Inr (Inl kinds, n')"
  shows "kinds \<noteq> []"
  using assms by (auto simp: plan_row_of_def and_then_Inr Let_def split: sum.splits if_splits)

definition row_pairs :: "(plan_row \<Rightarrow> path_snapshot) \<Rightarrow> plan_row list \<Rightarrow> (entry_id \<times> path_snapshot) list" where
  "row_pairs snap rows = rev (map (\<lambda>row. (row_id row, snap row)) rows)"

lemma keep_row_Inr [simp]:
  "stage_issues (keep_row d e (Inr row) s) = stage_issues s"
  "stage_rows (keep_row d e (Inr row) s) = stage_rows s @ [row]"
  "source_snapshots (keep_row True e (Inr row) s) = (source_snapshots s)(e \<mapsto> row_source_snapshot row)"
  "destination_snapshots (keep_row True e (Inr row) s) =
     (destination_snapshots s)(e \<mapsto> row_destination_snapshot row)"
  by (simp_all add: keep_row_def Let_def)

lemma row_pairs_Cons: "m ++ map_of (row_pairs snap (row # rows)) = m(row_id row \<mapsto> snap row) ++ map_of (row_pairs snap rows)"
  by (simp add: row_pairs_def)

lemma freeze_loop:
  assumes "for_each cancel (\<lambda>intent s n. and_then (plan_row_of ops b cancel scope intent n) (\<lambda>(r, n).
      Inr (keep_row directories (intent_id intent) r s, n))) changed s n = Inr (s', n')"
    and "stage_issues s' = []"
  shows "stage_issues s = [] \<and> (\<exists>rows. stage_rows s' = stage_rows s @ rows \<and>
    list_all2 (frozen_row ops b scope) changed rows \<and>
    (directories \<longrightarrow>
       source_snapshots s' = source_snapshots s ++ map_of (row_pairs row_source_snapshot rows) \<and>
       destination_snapshots s' = destination_snapshots s ++ map_of (row_pairs row_destination_snapshot rows)))"
  using assms
proof (induction changed arbitrary: s n)
  case Nil
  then show ?case by (auto simp: row_pairs_def)
next
  case (Cons intent changed)
  then obtain r n1 n2 where step: "plan_row_of ops b cancel scope intent n1 = Inr (r, n2)"
    and rest: "for_each cancel (\<lambda>intent s n. and_then (plan_row_of ops b cancel scope intent n) (\<lambda>(r, n).
      Inr (keep_row directories (intent_id intent) r s, n))) changed
      (keep_row directories (intent_id intent) r s) n2 = Inr (s', n')"
    by (auto simp: and_then_Inr)
  from Cons.IH [OF rest Cons.prems(2)] obtain rows where
    IH: "stage_issues (keep_row directories (intent_id intent) r s) = []"
      "stage_rows s' = stage_rows (keep_row directories (intent_id intent) r s) @ rows"
      "list_all2 (frozen_row ops b scope) changed rows"
      "directories \<longrightarrow> source_snapshots s' =
         source_snapshots (keep_row directories (intent_id intent) r s) ++ map_of (row_pairs row_source_snapshot rows) \<and>
       destination_snapshots s' =
         destination_snapshots (keep_row directories (intent_id intent) r s) ++ map_of (row_pairs row_destination_snapshot rows)"
    by blast
  show ?case
  proof (cases r)
    case (Inl kinds)
    from plan_row_of_issues [OF step [unfolded Inl]] IH(1) Inl show ?thesis by (simp add: keep_row_def)
  next
    case (Inr row)
    with step have row: "frozen_row ops b scope intent row" by (simp add: plan_row_of_frozen)
    then have "row_id row = intent_id intent" by (simp add: frozen_row_def)
    with IH Inr row show ?thesis
      by (cases directories) (auto simp: row_pairs_Cons intro!: exI [of _ "row # rows"])
  qed
qed

lemma freeze_stage_Inr:
  assumes "freeze_stage ops b cancel scope changed n = Inr (s, n')"
  shows "list_all2 (frozen_row ops b scope) changed (stage_rows s) \<and>
    (list_ex (\<lambda>intent. intent_kind intent = Directory) changed \<longrightarrow>
       source_snapshots s = map_of (row_pairs row_source_snapshot (stage_rows s)) \<and>
       destination_snapshots s = map_of (row_pairs row_destination_snapshot (stage_rows s)))"
proof -
  from assms obtain n1 where "for_each cancel (\<lambda>intent s n. and_then (plan_row_of ops b cancel scope intent n) (\<lambda>(r, n).
      Inr (keep_row (list_ex (\<lambda>intent. intent_kind intent = Directory) changed) (intent_id intent) r s, n))) changed
      \<lparr>stage_rows = [], source_snapshots = Map.empty, destination_snapshots = Map.empty, stage_issues = []\<rparr> n
      = Inr (s, n1)" "stage_issues s = []"
    by (auto simp: freeze_stage_def Let_def and_then_Inr)
  from freeze_loop [OF this] show ?thesis by auto
qed

section \<open>The ancestors of a path\<close>

text \<open>The proper prefixes that end at a separator after the root, longest first.\<close>

definition ancestor_positions :: "bool \<Rightarrow> usize \<Rightarrow> u16 list \<Rightarrow> nat \<Rightarrow> nat list" where
  "ancestor_positions verbatim root path m =
     filter (\<lambda>i. root < i \<and> is_ancestor_separator verbatim (path ! i)) (rev [0..<m])"

definition path_ancestors :: "legacy_text \<Rightarrow> legacy_text list" where
  "path_ancestors path =
     (let root = verbatim_drive_root_separator path in
      take MAX_PLAN_PATH_DEPTH (map (\<lambda>i. take i path)
        (ancestor_positions (root \<noteq> None) (case root of None \<Rightarrow> 2 | Some r \<Rightarrow> r) path (length path))))"

lemma ancestor_positions_Suc:
  "ancestor_positions verbatim root path (Suc m) =
     (if root < m \<and> is_ancestor_separator verbatim (path ! m) then [m] else []) @
     ancestor_positions verbatim root path m"
  by (simp add: ancestor_positions_def)

lemma ancestor_positions_empty:
  "(\<And>i. root < i \<Longrightarrow> i < m \<Longrightarrow> \<not> is_ancestor_separator verbatim (path ! i)) \<Longrightarrow>
     ancestor_positions verbatim root path m = []"
  by (auto simp: ancestor_positions_def filter_empty_conv)

lemma ancestor_positions_skip:
  assumes "i < m" and "\<And>j. i < j \<Longrightarrow> j < m \<Longrightarrow> \<not> is_ancestor_separator verbatim (path ! j)"
    and "root < i" and "is_ancestor_separator verbatim (path ! i)"
  shows "ancestor_positions verbatim root path m = i # ancestor_positions verbatim root path i"
  using assms
proof (induction m)
  case (Suc m)
  then show ?case by (cases "i = m") (auto simp: ancestor_positions_Suc)
qed simp

lemma ancestor_positions_take:
  "m \<le> i \<Longrightarrow> ancestor_positions verbatim root (take i path) m = ancestor_positions verbatim root path m"
  by (auto simp: ancestor_positions_def intro!: filter_cong)

text \<open>Visiting a list until the visitor stops.\<close>

fun visit_until :: "('a \<Rightarrow> 's \<Rightarrow> bool \<times> 's) \<Rightarrow> 'a list \<Rightarrow> 's \<Rightarrow> 's" where
  "visit_until visit [] s = s"
| "visit_until visit (a # as) s =
     (case visit a s of (stop, s) \<Rightarrow> if stop then s else visit_until visit as s)"

lemma visit_until_fold: "visit_until (\<lambda>a s. (False, g a s)) as s = fold g as s"
  by (induction as arbitrary: s) simp_all

lemma visit_loop_exact:
  "case visit_loop k cancel verbatim root visit path s n of
     Inl e \<Rightarrow> e = Plan_Cancelled \<and> (\<exists>m. n \<le> m \<and> cancel m)
   | Inr (s', n') \<Rightarrow> s' = visit_until visit
       (take k (map (\<lambda>i. take i path) (ancestor_positions verbatim root path (length path)))) s"
proof (induction k arbitrary: path s n)
  case (Suc k)
  consider "cancel n" | "\<not> cancel n" by blast
  then show ?case
  proof cases
    case 1
    then show ?thesis by (auto simp: plan_poll_def)
  next
    case 2
    then have poll: "plan_poll cancel n = Inr (n + 1)" by simp
    show ?thesis
    proof (cases "rposition (is_ancestor_separator verbatim) path")
      case None
      then have "ancestor_positions verbatim root path (length path) = []"
        by (intro ancestor_positions_empty) (auto simp: rposition_None)
      then show ?thesis unfolding visit_loop.simps poll and_then_simps None by simp
    next
      case (Some i)
      then have i: "i < length path" "is_ancestor_separator verbatim (path ! i)"
        and after: "\<And>j. i < j \<Longrightarrow> j < length path \<Longrightarrow> \<not> is_ancestor_separator verbatim (path ! j)"
        by (auto simp: rposition_Some)
      show ?thesis
      proof (cases "i \<le> root")
        case True
        then have "ancestor_positions verbatim root path (length path) = []"
          using after by (intro ancestor_positions_empty) auto
        with True show ?thesis unfolding visit_loop.simps poll and_then_simps Some by simp
      next
        case False
        then have t: "truncate_units path i = take i path" "take i path \<noteq> []"
          using i by (auto simp: truncate_units_def)
        have pos: "ancestor_positions verbatim root path (length path) = i # ancestor_positions verbatim root path i"
          using i after False by (intro ancestor_positions_skip) auto
        obtain stop s1 where v: "visit (take i path) s = (stop, s1)" by fastforce
        have "map (\<lambda>j. take j (take i path)) (ancestor_positions verbatim root path i) =
            map (\<lambda>j. take j path) (ancestor_positions verbatim root path i)"
          by (auto simp: ancestor_positions_def min_def)
        with Suc.IH [where path = "take i path" and s = s1 and n = "n + 1"] i(1) have rest:
          "case visit_loop k cancel verbatim root visit (take i path) s1 (n + 1) of
             Inl e \<Rightarrow> e = Plan_Cancelled \<and> (\<exists>m. n \<le> m \<and> cancel m)
           | Inr (s', n') \<Rightarrow> s' = visit_until visit
               (take k (map (\<lambda>j. take j path) (ancestor_positions verbatim root path i))) s1"
          by (auto simp: ancestor_positions_take simp del: take_take map_eq_conv
              split: sum.splits dest: Suc_leD)
        show ?thesis
        proof (cases stop)
          case True
          with False t v show ?thesis
            unfolding visit_loop.simps poll and_then_simps Some option.case Let_def by (simp add: pos)
        next
          case go: False
          have eq: "visit_until visit (take (Suc k) (map (\<lambda>j. take j path)
                (ancestor_positions verbatim root path (length path)))) s =
              visit_until visit (take k (map (\<lambda>j. take j path) (ancestor_positions verbatim root path i))) s1"
            by (simp add: pos v go)
          from False t(2) v go rest show ?thesis
            unfolding visit_loop.simps poll and_then_simps Some option.case Let_def t(1) eq by simp
        qed
      qed
    qed
  qed
qed simp

lemma visit_direct_ancestors_exact:
  "case visit_direct_ancestors cancel visit path s n of
     Inl e \<Rightarrow> e = Plan_Cancelled \<and> (\<exists>m. n \<le> m \<and> cancel m)
   | Inr (s', n') \<Rightarrow> s' = visit_until visit (path_ancestors path) s"
  unfolding visit_direct_ancestors_def path_ancestors_def Let_def by (rule visit_loop_exact)

lemma visit_direct_ancestors_Inr:
  "visit_direct_ancestors cancel visit path s n = Inr (s', n') \<Longrightarrow> s' = visit_until visit (path_ancestors path) s"
  using visit_direct_ancestors_exact [where cancel = cancel and visit = visit and path = path and s = s and n = n]
  by simp

text \<open>
  A prefix of the path is an ancestor exactly when it ends at a cut, a separator after the root,
  with fewer than \<open>MAX_PLAN_PATH_DEPTH\<close> cuts behind it.
\<close>

definition path_cut :: "legacy_text \<Rightarrow> nat \<Rightarrow> bool" where
  "path_cut path i \<longleftrightarrow> i < length path \<and>
     (case verbatim_drive_root_separator path of None \<Rightarrow> 2 | Some r \<Rightarrow> r) < i \<and>
     is_ancestor_separator (verbatim_drive_root_separator path \<noteq> None) (path ! i)"

lemma path_ancestors_cuts:
  "path_ancestors path = take MAX_PLAN_PATH_DEPTH (map (\<lambda>i. take i path) (filter (path_cut path) (rev [0..<length path])))"
  unfolding path_ancestors_def Let_def ancestor_positions_def
  by (intro arg_cong [where f = "take MAX_PLAN_PATH_DEPTH"] arg_cong [where f = "map (\<lambda>i. take i path)"] filter_cong)
     (auto simp: path_cut_def)

lemma path_ancestors_decreasing: "sorted_wrt (\<lambda>a a'. length a' < length a) (path_ancestors path)"
proof -
  have "sorted_wrt (\<lambda>i j. j < i) (rev [0..<length path])" by (simp add: sorted_wrt_rev)
  then have "sorted_wrt (\<lambda>i j. j < i \<and> i < length path) (filter (path_cut path) (rev [0..<length path]))"
    by (intro sorted_wrt_filter) (rule sorted_wrt_mono_rel, auto)
  then show ?thesis unfolding path_ancestors_cuts
    by (intro sorted_wrt_take) (auto simp: sorted_wrt_map elim: sorted_wrt_mono_rel [rotated])
qed

lemma take_filter_rev:
  "i \<in> set (take k (filter P (rev [0..<m]))) \<longleftrightarrow> i < m \<and> P i \<and> card {j. i < j \<and> j < m \<and> P j} < k"
proof (induction m arbitrary: k)
  case (Suc m)
  show ?case
  proof (cases "P m")
    case False
    then have "{j. i < j \<and> j < Suc m \<and> P j} = {j. i < j \<and> j < m \<and> P j}"
      by (auto simp: less_Suc_eq)
    with False Suc.IH [of k] show ?thesis by (auto simp: less_Suc_eq)
  next
    case True
    show ?thesis
    proof (cases k)
      case (Suc k')
      have top: "i < m \<Longrightarrow> {j. i < j \<and> j < Suc m \<and> P j} = insert m {j. i < j \<and> j < m \<and> P j}"
        "{j. m < j \<and> j < Suc m \<and> P j} = {}" "rev [0..<Suc m] = m # rev [0..<m]"
        using True by (auto simp: less_Suc_eq)
      consider "i < m" | "i = m" | "m < i" by linarith
      then show ?thesis using True Suc Suc.IH [of k'] by cases (simp_all add: top del: upt_Suc)
    qed simp
  qed
qed simp

lemma path_ancestor_iff:
  "a \<in> set (path_ancestors path) \<longleftrightarrow>
     (\<exists>i. path_cut path i \<and> a = take i path \<and> card {j. i < j \<and> path_cut path j} < MAX_PLAN_PATH_DEPTH)"
proof -
  have "{j. i < j \<and> j < length path \<and> path_cut path j} = {j. i < j \<and> path_cut path j}" for i
    by (auto simp: path_cut_def)
  moreover have "path_cut path i \<Longrightarrow> i < length path" for i by (simp add: path_cut_def)
  ultimately show ?thesis unfolding path_ancestors_cuts take_map set_map
    by (auto simp: take_filter_rev image_iff)
qed

text \<open>
  The walk counts separators while \<open>path_component_depth\<close> counts components, so behind 256 redundant
  separators no real ancestor is visited.
\<close>

lemma component_runs_skip:
  "0 < n \<Longrightarrow> component_runs False (replicate n BACKSLASH @ rest) c depth = component_runs False rest False depth"
proof (induction n arbitrary: c)
  case (Suc n)
  then show ?case by (cases n) (simp_all add: is_ancestor_separator_def)
qed simp

lemma redundant_separators_hide_ancestors:
  assumes "2 < length folder" and "MAX_PLAN_PATH_DEPTH < n"
    and "verbatim_drive_root_separator (folder @ replicate n BACKSLASH @ leaf) = None"
    and "a \<in> set (path_ancestors (folder @ replicate n BACKSLASH @ leaf))"
  shows "length folder < length a"
proof (rule ccontr)
  let ?path = "folder @ replicate n BACKSLASH @ leaf"
  assume short: "\<not> length folder < length a"
  from assms(4) obtain i where i: "path_cut ?path i" "a = take i ?path"
    "card {j. i < j \<and> path_cut ?path j} < MAX_PLAN_PATH_DEPTH"
    by (auto simp: path_ancestor_iff)
  from i(1) have "i < length ?path" unfolding path_cut_def by blast
  then have "length a = i" unfolding i(2) length_take by (rule min.absorb2 [OF less_imp_le])
  with short have "i \<le> length folder" by simp
  moreover have "path_cut ?path (length folder + d)" if "d < n" for d
    using that assms(1,3) by (simp add: path_cut_def nth_append is_ancestor_separator_def)
  then have "path_cut ?path j" if "length folder < j" "j < length folder + n" for j
    using that by (metis add_diff_inverse_nat less_diff_conv2 less_imp_le_nat nat_add_left_cancel_less not_less_iff_gr_or_eq)
  ultimately have "{length folder <..< length folder + n} \<subseteq> {j. i < j \<and> path_cut ?path j}" by auto
  moreover have "finite {j. i < j \<and> path_cut ?path j}"
    by (rule finite_subset [of _ "{..<length ?path}"]) (auto simp: path_cut_def)
  ultimately have "card {length folder <..< length folder + n} \<le> card {j. i < j \<and> path_cut ?path j}"
    by (intro card_mono)
  with i(3) assms(2) show False by simp
qed

section \<open>The stages of an accepted request\<close>

lemma changed_intents_Inr:
  assumes "changed_intents cancel entries n = Inr (changed, n')"
  shows "changed = filter (\<lambda>intent. \<not> unchanged intent) entries"
proof -
  have "fold (\<lambda>intent acc. if \<not> unchanged intent then acc @ [intent] else acc) xs acc =
      acc @ filter (\<lambda>intent. \<not> unchanged intent) xs" for xs acc
    by (induction xs arbitrary: acc) auto
  with for_each_each [OF assms [unfolded changed_intents_def]] show ?thesis by simp
qed

lemma fold_issues_empty:
  assumes "fold f xs issues = []" and "\<And>x issues. f x issues = [] \<Longrightarrow> issues = [] \<and> P x"
  shows "issues = [] \<and> (\<forall>x\<in>set xs. P x)"
  using assms(1)
proof (induction xs arbitrary: issues)
  case (Cons x xs)
  then have "f x issues = [] \<and> (\<forall>x\<in>set xs. P x)" by simp
  with assms(2) show ?case by auto
qed simp

lemma validate_intent_empty:
  "validate_intent intent issues = [] \<Longrightarrow> issues = [] \<and>
     is_absolute_windows_path (intent_source intent) \<and> is_absolute_windows_path (intent_parent intent) \<and>
     path_component_depth (intent_source intent) \<le> MAX_PLAN_PATH_DEPTH \<and>
     path_component_depth (intent_parent intent) \<le> MAX_PLAN_PATH_DEPTH \<and>
     validate_windows_leaf_name (intent_name intent) = Inr ()"
  unfolding validate_intent_def Let_def source_path_validation_def prod.case append_is_Nil_conv
  by (cases "validate_windows_leaf_name (intent_name intent)") (simp_all split: if_split_asm)

lemma validate_source_path_empty: "validate_source_path intent issues = [] \<Longrightarrow> issues = []"
  unfolding validate_source_path_def Let_def source_path_validation_def prod.case append_is_Nil_conv by blast

lemma validation_stage_Inr:
  assumes "validation_stage cancel entries changed n = Inr n'" and "intent \<in> set changed"
  shows "is_absolute_windows_path (intent_source intent) \<and> is_absolute_windows_path (intent_parent intent) \<and>
     path_component_depth (intent_source intent) \<le> MAX_PLAN_PATH_DEPTH \<and>
     path_component_depth (intent_parent intent) \<le> MAX_PLAN_PATH_DEPTH \<and>
     validate_windows_leaf_name (intent_name intent) = Inr ()" (is "?P intent")
proof -
  from assms obtain issues n1 n2 where "for_each cancel (each validate_intent) changed [] n = Inr (issues, n1)"
    and "for_each cancel (each validate_source_path) (filter unchanged entries) issues n1 = Inr ([], n2)"
    by (cases "changed = []") (auto simp: validation_stage_def and_then_Inr)
  note loops = this [THEN for_each_each]
  have "issues = []"
    using fold_issues_empty [OF loops(2) [symmetric], where P = "\<lambda>_. True"] validate_source_path_empty by blast
  with loops(1) fold_issues_empty [of validate_intent changed "[]" ?P] validate_intent_empty assms(2)
  show ?thesis by blast
qed

lemma fold_push_owners:
  "fold (push_owners ops b) xs (s, e, d) =
     (fold (\<lambda>i. push_owner (path_key_op ops b (intent_source i)) (intent_id i)) xs s,
      fold (\<lambda>i. push_owner (intent_id i) (intent_id i)) xs e,
      fold (\<lambda>i. push_owner (path_key_op ops b (intent_destination i)) (intent_id i)) xs d)"
  by (induction xs arbitrary: s e d) (auto simp: push_owners_def Let_def)

lemma extend_set_set [simp]: "set (extend_set es s) = set es \<union> set s"
  unfolding extend_set_def by (induction es arbitrary: s) (auto simp: set_insort_insert)

lemma insort_insert_not_Nil [simp]: "insort_insert x xs \<noteq> []"
  by (simp add: set_insort_insert flip: set_empty)

lemma extend_set_Nil [simp]: "extend_set es s = [] \<longleftrightarrow> es = [] \<and> s = []"
  by (simp flip: set_empty)

lemma visit_source_owner_not_Nil:
  "s \<noteq> [] \<or> path_key_op ops b a \<in> fst ` set sources \<Longrightarrow> snd (visit_source_owner ops b sources e a s) \<noteq> []"
  using map_of_eq_None_iff [of sources "path_key_op ops b a"]
  by (cases "map_of sources (path_key_op ops b a)") (auto simp: visit_source_owner_def)

lemma fold_visit_source_owner:
  assumes "s \<noteq> [] \<or> (\<exists>a\<in>set as. path_key_op ops b a \<in> fst ` set sources)"
  shows "fold (\<lambda>a s. snd (visit_source_owner ops b sources e a s)) as s \<noteq> []"
  using assms
proof (induction as arbitrary: s)
  case (Cons a as)
  then have "snd (visit_source_owner ops b sources e a s) \<noteq> [] \<or>
      (\<exists>a\<in>set as. path_key_op ops b a \<in> fst ` set sources)"
    using visit_source_owner_not_Nil [of s ops b a sources e] by auto
  from Cons.IH [OF this] show ?case by simp
qed simp

lemma visit_source_owners:
  assumes "visit_direct_ancestors cancel (visit_source_owner ops b sources e) path s n = Inr (s', n')"
  shows "s' = fold (\<lambda>a s. snd (visit_source_owner ops b sources e a s)) (path_ancestors path) s"
proof -
  have "visit_source_owner ops b sources e = (\<lambda>a s. (False, snd (visit_source_owner ops b sources e a s)))"
    by (auto simp: visit_source_owner_def fun_eq_iff)
  then have "visit_until (visit_source_owner ops b sources e) (path_ancestors path) s =
      fold (\<lambda>a s. snd (visit_source_owner ops b sources e a s)) (path_ancestors path) s"
    by (metis visit_until_fold)
  with visit_direct_ancestors_Inr [OF assms] show ?thesis by simp
qed

lemma visit_source_owners_not_Nil:
  assumes "visit_direct_ancestors cancel (visit_source_owner ops b sources e) path s n = Inr (s', n')"
    and "s \<noteq> [] \<or> (\<exists>a\<in>set (path_ancestors path). path_key_op ops b a \<in> fst ` set sources)"
  shows "s' \<noteq> []"
  using visit_source_owners [OF assms(1)] fold_visit_source_owner [OF assms(2)] by simp

lemma duplicates_stage_Inr:
  assumes "duplicates_stage ops b cancel changed n = Inr n'"
  shows "distinct (map (\<lambda>i. path_key_op ops b (intent_source i)) changed) \<and>
    distinct (map intent_id changed) \<and>
    distinct (map (\<lambda>i. path_key_op ops b (intent_destination i)) changed) \<and>
    (\<forall>i\<in>set changed. \<forall>i'\<in>set changed. \<forall>a\<in>set (path_ancestors (intent_source i)).
       path_key_op ops b a \<noteq> path_key_op ops b (intent_source i'))"
proof -
  let ?sources = "fold (\<lambda>i. push_owner (path_key_op ops b (intent_source i)) (intent_id i)) changed []"
  from assms obtain n1 n2 n3 n4 n5 n6 i1 i2 i3 overlap where
    dups: "append_duplicate_issues cancel (map snd ?sources) DuplicateSource [] n1 = Inr (i1, n2)"
      "append_duplicate_issues cancel (map snd (fold (\<lambda>i. push_owner (intent_id i) (intent_id i)) changed []))
         DuplicateEntryId i1 n2 = Inr (i2, n3)"
      "append_duplicate_issues cancel (map snd (fold (\<lambda>i. push_owner (path_key_op ops b (intent_destination i))
         (intent_id i)) changed [])) DuplicateDestination i2 n3 = Inr (i3, n4)"
    and visits: "for_each cancel (\<lambda>intent. visit_direct_ancestors cancel
        (visit_source_owner ops b ?sources (intent_id intent)) (intent_source intent)) changed [] n4 = Inr (overlap, n5)"
    and push: "push_issues cancel SourceOverlap overlap i3 n5 = Inr ([], n6)"
    by (auto simp: duplicates_stage_def and_then_Inr fold_push_owners dest!: for_each_each [of _ "push_owners ops b"])
  from push_issues_Inr [OF push] have empty: "i3 = []" "overlap = []" by simp_all
  from no_duplicates [OF dups(3) [unfolded empty]] have i2: "i2 = []"
    and d: "distinct (map (\<lambda>i. path_key_op ops b (intent_destination i)) changed)"
    by (auto intro!: distinct_from_owners)
  from no_duplicates [OF dups(2) [unfolded i2]] have i1: "i1 = []" and e: "distinct (map intent_id changed)"
    by (auto intro!: distinct_from_owners)
  from no_duplicates [OF dups(1) [unfolded i1]] have s: "distinct (map (\<lambda>i. path_key_op ops b (intent_source i)) changed)"
    by (auto intro!: distinct_from_owners)
  have keys: "fst ` set ?sources = (\<lambda>i. path_key_op ops b (intent_source i)) ` set changed"
  proof -
    have "fst ` set (fold (\<lambda>i. push_owner (path_key_op ops b (intent_source i)) (intent_id i)) xs m) =
        (\<lambda>i. path_key_op ops b (intent_source i)) ` set xs \<union> fst ` set m" for xs m
      by (induction xs arbitrary: m) (auto simp: push_owner_keys)
    from this [of changed "[]"] show ?thesis by simp
  qed
  have "\<forall>i\<in>set changed. (\<exists>a\<in>set (path_ancestors (intent_source i)). path_key_op ops b a \<in> fst ` set ?sources) \<longrightarrow>
      overlap \<noteq> []"
    by (rule for_each_all [OF visits]) (blast dest: visit_source_owners_not_Nil)+
  with s e d keys empty show ?thesis by auto
qed

section \<open>Renamed directories\<close>

definition overlapping :: "entry_id list \<times> plan_issue list \<Rightarrow> bool" where
  "overlapping s \<longleftrightarrow> fst s \<noteq> [] \<or> snd s \<noteq> []"

lemma record_identity_overlap_grows:
  "overlap \<noteq> [] \<Longrightarrow> snd (record_identity_overlap directories ident candidate exclude overlap) \<noteq> []"
  by (cases "map_of directories ident") (auto simp: record_identity_overlap_def)

lemma record_identity_overlap_found:
  "map_of directories ident \<noteq> None \<Longrightarrow> snd (record_identity_overlap directories ident candidate False overlap) \<noteq> []"
  by (auto simp: record_identity_overlap_def)

lemma observation_overlap_parent:
  "\<exists>o1. snd (observation_overlap directories candidate compare exclude snapshot overlap) =
      snd (record_identity_overlap directories (snapshot_parent snapshot) candidate False o1) \<and>
     (overlap \<noteq> [] \<longrightarrow> o1 \<noteq> [])"
  using record_identity_overlap_grows [of overlap directories _ candidate exclude]
  by (cases "snapshot_entry snapshot") (auto simp: observation_overlap_def split_beta Let_def)

lemma observation_overlap_not_Nil:
  "overlap \<noteq> [] \<or> map_of directories (snapshot_parent snapshot) \<noteq> None \<Longrightarrow>
     snd (observation_overlap directories candidate compare exclude snapshot overlap) \<noteq> []"
  using observation_overlap_parent [of directories candidate compare exclude snapshot overlap]
    record_identity_overlap_grows record_identity_overlap_found by metis

lemma record_identity_overlap_clear:
  "snd (record_identity_overlap directories ident candidate exclude overlap) = [] \<Longrightarrow>
     \<not> fst (record_identity_overlap directories ident candidate exclude overlap) \<and>
     (map_of directories ident = None \<or> exclude \<and> set (owners_of ident directories) \<subseteq> {candidate})"
  by (cases "map_of directories ident")
    (auto simp: record_identity_overlap_def owners_of_def list_all_iff split: if_splits)

lemma observation_overlap_clear:
  assumes "snd (observation_overlap directories candidate compare exclude snapshot overlap) = []"
  shows "\<not> fst (observation_overlap directories candidate compare exclude snapshot overlap) \<and>
    map_of directories (snapshot_parent snapshot) = None \<and>
    (case snapshot_entry snapshot of None \<Rightarrow> True
     | Some entry \<Rightarrow> compare \<and> observed_kind entry = Directory \<longrightarrow>
         map_of directories (observed_identity entry) = None \<or>
         exclude \<and> set (owners_of (observed_identity entry) directories) \<subseteq> {candidate})"
proof -
  have "\<And>o1. snd (record_identity_overlap directories (snapshot_parent snapshot) candidate False o1) = [] \<Longrightarrow> o1 = []"
    using record_identity_overlap_grows by blast
  with assms record_identity_overlap_clear [of directories "snapshot_parent snapshot" candidate False]
    record_identity_overlap_clear [of directories _ candidate exclude overlap] show ?thesis
    unfolding observation_overlap_def Let_def split_beta
    by (cases "snapshot_entry snapshot"; cases "compare \<and> observed_kind (the (snapshot_entry snapshot)) = Directory")
      (force, force, fastforce, fastforce)
qed

text \<open>
  The renamed directories, and an observation outside them: neither the entry nor its parent is one.
\<close>

definition renamed_directories :: "plan_row list \<Rightarrow> entry_identity set" where
  "renamed_directories rows =
     {ident. \<exists>row\<in>set rows. row_kind row = Directory \<and> observed_at (row_source_snapshot row) = Some ident}"

definition outside :: "entry_identity set \<Rightarrow> backend_error + path_snapshot \<Rightarrow> bool" where
  "outside D observation \<longleftrightarrow>
     (case observation of
        Inl e \<Rightarrow> is_not_found_error e
      | Inr snapshot \<Rightarrow> snapshot_parent snapshot \<notin> D \<and>
          (case snapshot_entry snapshot of
             None \<Rightarrow> True
           | Some entry \<Rightarrow> observed_kind entry = Directory \<longrightarrow> observed_identity entry \<notin> D))"

lemma visit_identity_overlapping:
  "overlapping s \<Longrightarrow> overlapping (snd (visit_identity ops b directories candidate a s))"
  using observation_overlap_not_Nil [of "fst s"]
  by (cases s; cases "observe_op ops b a")
    (auto simp: visit_identity_def overlapping_def split_beta)

lemma visit_identity_clear:
  assumes "\<not> overlapping (snd (visit_identity ops b directories candidate a s))"
  shows "\<not> fst (visit_identity ops b directories candidate a s) \<and>
    outside (dom (map_of directories)) (observe_op ops b a)"
proof (cases "observe_op ops b a")
  case (Inl e)
  with assms show ?thesis
    by (cases s) (auto simp: visit_identity_def overlapping_def outside_def split: if_splits)
next
  case (Inr snapshot)
  with assms observation_overlap_clear [of directories candidate True False snapshot "fst s"] show ?thesis
    by (cases s) (auto simp: visit_identity_def overlapping_def outside_def split_beta domIff split: option.splits)
qed

text \<open>If nothing overlaps at the end of a walk, no visit found an overlap.\<close>

lemma visit_until_overlapping:
  "overlapping s \<Longrightarrow> overlapping (visit_until (visit_identity ops b directories candidate) as s)"
proof (induction as arbitrary: s)
  case (Cons a as)
  have "overlapping (snd (visit_identity ops b directories candidate a s))"
    by (rule visit_identity_overlapping [OF Cons.prems])
  from this Cons.IH [OF this] show ?case by (simp add: split_beta)
qed simp

lemma visit_until_clear:
  assumes "\<not> overlapping (visit_until (visit_identity ops b directories candidate) as s)"
  shows "\<forall>a\<in>set as. outside (dom (map_of directories)) (observe_op ops b a)"
  using assms
proof (induction as arbitrary: s)
  case (Cons a as)
  let ?v = "visit_identity ops b directories candidate a s"
  have "\<not> overlapping (snd ?v)"
    using Cons.prems visit_until_overlapping [where s = "snd ?v" and ops = ops and b = b
        and directories = directories and candidate = candidate and as = as]
    by (auto simp: split_beta split: if_splits)
  from visit_identity_clear [OF this] Cons show ?case by (simp add: split_beta)
qed simp

lemma visit_identity_walk:
  "visit_direct_ancestors cancel (visit_identity ops b directories candidate) path s n = Inr (s', n') \<Longrightarrow>
     s' = visit_until (visit_identity ops b directories candidate) (path_ancestors path) s \<and>
     (overlapping s \<longrightarrow> overlapping s')"
  by (auto dest!: visit_direct_ancestors_Inr intro: visit_until_overlapping)

text \<open>The two ways an inspection can go on after it has looked at the end point.\<close>

lemma inspect_cases:
  assumes "inspect ops b cancel directories endpoint candidate observation compare s n = Inr (s', n')"
  obtains (failed) e where "observation = Inl e" "\<not> is_not_found_error e" "overlapping s'"
  | (absent) e where "observation = Inl e" "is_not_found_error e"
      "s' = visit_until (visit_identity ops b directories candidate) (path_ancestors endpoint) s"
      "overlapping s \<longrightarrow> overlapping s'"
  | (seen) snapshot overlap where "observation = Inr snapshot"
      "overlap = observation_overlap directories candidate compare True snapshot (fst s)"
      "overlapping (snd overlap, snd s) \<longrightarrow> overlapping s'"
      "fst overlap \<and> s' = (snd overlap, snd s) \<or>
       s' = visit_until (visit_identity ops b directories candidate) (path_ancestors endpoint) (snd overlap, snd s)"
proof (cases observation)
  case (Inl e)
  show thesis
  proof (cases "is_not_found_error e")
    case True
    with Inl assms have "visit_direct_ancestors cancel (visit_identity ops b directories candidate) endpoint s n =
        Inr (s', n')" by (cases s) (simp add: inspect_def)
    from visit_identity_walk [OF this] absent [OF Inl True] show thesis by blast
  next
    case False
    with Inl assms have "overlapping s'" by (cases s) (auto simp: inspect_def overlapping_def)
    with failed Inl False show thesis by blast
  qed
next
  case (Inr snapshot)
  let ?o = "observation_overlap directories candidate compare True snapshot (fst s)"
  from assms Inr have run: "(if fst ?o then Inr ((snd ?o, snd s), n) else visit_direct_ancestors cancel
      (visit_identity ops b directories candidate) endpoint (snd ?o, snd s) n) = Inr (s', n')"
    by (cases s) (auto simp: inspect_def split_beta split: if_splits)
  show thesis
  proof (cases "fst ?o")
    case True
    with run have "s' = (snd ?o, snd s)" by simp
    with seen [OF Inr refl] True show thesis by blast
  next
    case False
    with run have "visit_direct_ancestors cancel (visit_identity ops b directories candidate) endpoint
        (snd ?o, snd s) n = Inr (s', n')" by simp
    from visit_identity_walk [OF this] seen [OF Inr refl] show thesis by blast
  qed
qed

lemma inspect_overlapping:
  assumes "inspect ops b cancel directories endpoint candidate observation compare s n = Inr (s', n')"
    and "overlapping s"
  shows "overlapping s'"
  using assms(1)
proof (cases rule: inspect_cases)
  case (seen snapshot overlap)
  have "overlapping (snd overlap, snd s)"
    using assms(2) observation_overlap_not_Nil [of "fst s"] by (auto simp: overlapping_def seen(2))
  with seen(3) show ?thesis ..
qed (use assms(2) in simp_all)

text \<open>What an inspection without overlap has seen: the end point, and every ancestor of it.\<close>

definition endpoint_clear ::
  "identity_owners \<Rightarrow> entry_id \<Rightarrow> bool \<Rightarrow> backend_error + path_snapshot \<Rightarrow> bool" where
  "endpoint_clear directories candidate compare observation \<longleftrightarrow>
     (case observation of
        Inl e \<Rightarrow> is_not_found_error e
      | Inr snapshot \<Rightarrow> map_of directories (snapshot_parent snapshot) = None \<and>
          (case snapshot_entry snapshot of
             None \<Rightarrow> True
           | Some entry \<Rightarrow> compare \<and> observed_kind entry = Directory \<longrightarrow>
               set (owners_of (observed_identity entry) directories) \<subseteq> {candidate}))"

lemma inspect_clear:
  assumes "inspect ops b cancel directories endpoint candidate observation compare s n = Inr (s', n')"
    and "\<not> overlapping s'"
  shows "endpoint_clear directories candidate compare observation \<and>
    (\<forall>a\<in>set (path_ancestors endpoint). outside (dom (map_of directories)) (observe_op ops b a))"
  using assms(1)
proof (cases rule: inspect_cases)
  case (absent e)
  with assms(2) have "\<not> overlapping (visit_until (visit_identity ops b directories candidate) (path_ancestors endpoint) s)"
    by simp
  from visit_until_clear [OF this] absent show ?thesis by (simp add: endpoint_clear_def)
next
  case (seen snapshot overlap)
  with assms(2) have "snd overlap = []" by (simp add: overlapping_def)
  note o = observation_overlap_clear [OF this [unfolded seen(2)], folded seen(2)]
  with seen(4) assms(2) have
    "\<not> overlapping (visit_until (visit_identity ops b directories candidate) (path_ancestors endpoint) (snd overlap, snd s))"
    by blast
  from visit_until_clear [OF this] o seen(1) show ?thesis
    by (auto simp: endpoint_clear_def owners_of_def split: option.splits)
qed (use assms(2) in simp)

lemma push_directory_owners:
  assumes "ordered m"
  shows "ordered (push_directory row m) \<and> owners_of ident (push_directory row m) = owners_of ident m @
    (if row_kind row = Directory \<and> observed_at (row_source_snapshot row) = Some ident then [row_id row] else [])"
  using assms by (auto simp: push_directory_def observed_at_def push_owner_ordered owners_push split: option.splits)

lemma push_directories_owners:
  "ordered m \<Longrightarrow> owners_of ident (fold push_directory rows m) = owners_of ident m @
     map row_id (filter (\<lambda>row. row_kind row = Directory \<and> observed_at (row_source_snapshot row) = Some ident) rows)"
proof (induction rows arbitrary: m)
  case (Cons row rows)
  from push_directory_owners [OF Cons.prems, of row] Cons.IH [of "push_directory row m"] show ?case by simp
qed simp

lemma push_directories:
  "map_of (fold push_directory rows m) ident \<noteq> None \<longleftrightarrow> map_of m ident \<noteq> None \<or>
     (\<exists>row\<in>set rows. row_kind row = Directory \<and> observed_at (row_source_snapshot row) = Some ident)"
proof (induction rows arbitrary: m)
  case (Cons row rows)
  have "map_of (push_directory row m) ident \<noteq> None \<longleftrightarrow> map_of m ident \<noteq> None \<or>
      row_kind row = Directory \<and> observed_at (row_source_snapshot row) = Some ident"
    by (auto simp: push_directory_def observed_at_def map_of_eq_None_iff push_owner_keys split: option.splits)
  with Cons show ?case by auto
qed simp

lemma directories_dom: "dom (map_of (fold push_directory rows [])) = renamed_directories rows"
  using push_directories [of rows "[]"] by (auto simp: renamed_directories_def domIff)

lemma frozen_member:
  assumes "list_all2 (frozen_row ops b scope) changed rows" and "row \<in> set rows"
  obtains i where "i < length changed" "row = rows ! i" "frozen_row ops b scope (changed ! i) row"
  using assms by (auto simp: list_all2_conv_all_nth in_set_conv_nth)

lemma frozen_ids:
  "list_all2 (frozen_row ops b scope) changed rows \<Longrightarrow> map row_id rows = map intent_id changed"
  by (induction rule: list_all2_induct) (auto simp: frozen_row_def)

lemma frozen_lookup:
  assumes "list_all2 (frozen_row ops b scope) changed rows" "distinct (map intent_id changed)"
    and "intent \<in> set changed"
  obtains row where "row \<in> set rows" "frozen_row ops b scope intent row"
    "map_of (row_pairs row_source_snapshot rows) (intent_id intent) = Some (row_source_snapshot row)"
    "map_of (row_pairs row_destination_snapshot rows) (intent_id intent) = Some (row_destination_snapshot row)"
proof -
  from assms(1,3) obtain i where i: "i < length rows" "intent = changed ! i" "frozen_row ops b scope intent (rows ! i)"
    by (auto simp: list_all2_conv_all_nth in_set_conv_nth)
  then have id: "row_id (rows ! i) = intent_id intent" by (simp add: frozen_row_def)
  have "map_of (row_pairs snap rows) (row_id (rows ! i)) = Some (snap (rows ! i))" for snap
    using i(1) assms(2) unfolding row_pairs_def frozen_ids [OF assms(1), symmetric]
    by (intro map_of_is_SomeI) (auto simp: rev_map [symmetric] comp_def)
  with i(1,3) id that [of "rows ! i"] show thesis by simp
qed

text \<open>The inspections of the stage, all of them without overlap.\<close>

lemma directory_stage_inspects:
  assumes run: "directory_stage ops b cancel entries changed s n = Inr n'"
    and rows: "list_all2 (frozen_row ops b scope) changed (stage_rows s)"
    and some: "renamed_directories (stage_rows s) \<noteq> {}"
  defines "directories \<equiv> fold push_directory (stage_rows s) []"
  shows "\<forall>intent\<in>set entries.
      endpoint_clear directories (intent_id intent) True
        (if unchanged intent then observe_op ops b (intent_source intent)
         else frozen_or_observed ops b (source_snapshots s (intent_id intent)) (intent_source intent)) \<and>
      (\<forall>a\<in>set (path_ancestors (intent_source intent)).
         outside (renamed_directories (stage_rows s)) (observe_op ops b a))"
    and "\<forall>intent\<in>set changed.
      endpoint_clear directories (intent_id intent) False
        (frozen_or_observed ops b (destination_snapshots s (intent_id intent)) (intent_destination intent)) \<and>
      (\<forall>a\<in>set (path_ancestors (intent_destination intent)).
         outside (renamed_directories (stage_rows s)) (observe_op ops b a))"
proof -
  from some obtain row where "row \<in> set (stage_rows s)" "row_kind row = Directory"
    by (auto simp: renamed_directories_def)
  with rows have kinds: "list_ex (\<lambda>intent. intent_kind intent = Directory) changed"
    unfolding list_ex_iff by (metis frozen_member frozen_row_def nth_mem)
  have dom: "dom (map_of directories) = renamed_directories (stage_rows s)"
    unfolding directories_def by (rule directories_dom)
  with some have "directories \<noteq> []" by auto
  with run kinds obtain state1 state2 n1 n2 n3 n4 where
    first: "for_each cancel (\<lambda>intent. inspect ops b cancel directories (intent_source intent) (intent_id intent)
       (if unchanged intent then observe_op ops b (intent_source intent)
        else frozen_or_observed ops b (source_snapshots s (intent_id intent)) (intent_source intent)) True)
       entries ([], []) n1 = Inr (state1, n2)"
    and second: "for_each cancel (\<lambda>intent. inspect ops b cancel directories (intent_destination intent) (intent_id intent)
       (frozen_or_observed ops b (destination_snapshots s (intent_id intent)) (intent_destination intent)) False)
       changed state1 n2 = Inr (state2, n3)"
    and push: "push_issues cancel SourceOverlap (fst state2) (snd state2) n3 = Inr ([], n4)"
    by (auto simp: directory_stage_def and_then_Inr directories_def dest!: for_each_each [of _ push_directory])
  from push_issues_Inr [OF push] have clear: "\<not> overlapping state2" by (auto simp: overlapping_def)
  then have clear1: "\<not> overlapping state1"
    using for_each_invariant [OF second, of overlapping] by (auto dest: inspect_overlapping)
  let ?first = "\<lambda>intent. endpoint_clear directories (intent_id intent) True
        (if unchanged intent then observe_op ops b (intent_source intent)
         else frozen_or_observed ops b (source_snapshots s (intent_id intent)) (intent_source intent)) \<and>
      (\<forall>a\<in>set (path_ancestors (intent_source intent)). outside (dom (map_of directories)) (observe_op ops b a))"
  have "\<forall>intent\<in>set entries. overlapping state1 \<or> ?first intent"
    by (rule for_each_all [OF first]) (blast dest: inspect_clear inspect_overlapping)+
  with clear1 show "\<forall>intent\<in>set entries.
      endpoint_clear directories (intent_id intent) True
        (if unchanged intent then observe_op ops b (intent_source intent)
         else frozen_or_observed ops b (source_snapshots s (intent_id intent)) (intent_source intent)) \<and>
      (\<forall>a\<in>set (path_ancestors (intent_source intent)).
         outside (renamed_directories (stage_rows s)) (observe_op ops b a))"
    unfolding dom by blast
  let ?second = "\<lambda>intent. endpoint_clear directories (intent_id intent) False
        (frozen_or_observed ops b (destination_snapshots s (intent_id intent)) (intent_destination intent)) \<and>
      (\<forall>a\<in>set (path_ancestors (intent_destination intent)). outside (dom (map_of directories)) (observe_op ops b a))"
  have "\<forall>intent\<in>set changed. overlapping state2 \<or> ?second intent"
    by (rule for_each_all [OF second]) (blast dest: inspect_clear inspect_overlapping)+
  with clear show "\<forall>intent\<in>set changed.
      endpoint_clear directories (intent_id intent) False
        (frozen_or_observed ops b (destination_snapshots s (intent_id intent)) (intent_destination intent)) \<and>
      (\<forall>a\<in>set (path_ancestors (intent_destination intent)).
         outside (renamed_directories (stage_rows s)) (observe_op ops b a))"
    unfolding dom by blast
qed

text \<open>
  A request is apart from the renamed directories when no entry of it, changed or not, lies below
  one, no destination does, and every one of them is renamed by one row only.
\<close>

definition apart_from_directories ::
  "'b backend_ops \<Rightarrow> 'b \<Rightarrow> rename_intent list \<Rightarrow> plan_row list \<Rightarrow> bool" where
  "apart_from_directories ops b entries rows \<longleftrightarrow>
     (let D = renamed_directories rows in
      D = {} \<or>
      (\<forall>intent\<in>set entries. \<forall>a\<in>set (path_ancestors (intent_source intent)). outside D (observe_op ops b a)) \<and>
      (\<forall>intent\<in>set (filter (\<lambda>intent. \<not> unchanged intent) entries).
         \<forall>a\<in>set (path_ancestors (intent_destination intent)). outside D (observe_op ops b a)) \<and>
      (\<forall>intent\<in>set (filter unchanged entries).
         case observe_op ops b (intent_source intent) of
           Inl e \<Rightarrow> is_not_found_error e
         | Inr snapshot \<Rightarrow> snapshot_parent snapshot \<notin> D \<and>
             (case snapshot_entry snapshot of
                None \<Rightarrow> True
              | Some entry \<Rightarrow> observed_kind entry = Directory \<longrightarrow>
                  (\<forall>row\<in>set rows. row_kind row = Directory \<and>
                     observed_at (row_source_snapshot row) = Some (observed_identity entry) \<longrightarrow>
                     row_id row = intent_id intent))) \<and>
      (\<forall>row\<in>set rows. snapshot_parent (row_source_snapshot row) \<notin> D \<and>
         snapshot_parent (row_destination_snapshot row) \<notin> D \<and>
         (\<forall>row'\<in>set rows. row_kind row = Directory \<and> row_kind row' = Directory \<and>
            observed_at (row_source_snapshot row) = observed_at (row_source_snapshot row') \<longrightarrow>
            row_id row = row_id row')))"

lemma apart_parents:
  assumes "apart_from_directories ops b entries rows" and "row \<in> set rows" "row' \<in> set rows"
    and "row_kind row' = Directory"
  shows "Some (snapshot_parent (row_source_snapshot row)) \<noteq> observed_at (row_source_snapshot row')"
    and "Some (snapshot_parent (row_destination_snapshot row)) \<noteq> observed_at (row_source_snapshot row')"
proof -
  have "ident \<in> renamed_directories rows" if "Some ident = observed_at (row_source_snapshot row')" for ident
    using that assms(3,4) by (auto simp: renamed_directories_def intro!: bexI [of _ row'])
  moreover from this have "snapshot_parent (row_source_snapshot row) \<notin> renamed_directories rows \<and>
      snapshot_parent (row_destination_snapshot row) \<notin> renamed_directories rows \<or> renamed_directories rows = {}"
    using assms(1,2) unfolding apart_from_directories_def Let_def by blast
  ultimately show "Some (snapshot_parent (row_source_snapshot row)) \<noteq> observed_at (row_source_snapshot row')"
    "Some (snapshot_parent (row_destination_snapshot row)) \<noteq> observed_at (row_source_snapshot row')" by blast+
qed

lemma endpoint_clear_rows:
  assumes "endpoint_clear (fold push_directory rows []) candidate compare (Inr snapshot)"
  shows "snapshot_parent snapshot \<notin> renamed_directories rows \<and>
    (case snapshot_entry snapshot of None \<Rightarrow> True
     | Some entry \<Rightarrow> compare \<and> observed_kind entry = Directory \<longrightarrow>
         (\<forall>row\<in>set rows. row_kind row = Directory \<and>
            observed_at (row_source_snapshot row) = Some (observed_identity entry) \<longrightarrow> row_id row = candidate))"
proof -
  note own = push_directories_owners [of "[]" _ rows, simplified]
  have "map_of (fold push_directory rows []) (snapshot_parent snapshot) = None \<longleftrightarrow>
      snapshot_parent snapshot \<notin> renamed_directories rows"
    unfolding directories_dom [symmetric] domIff by simp
  with assms show ?thesis unfolding endpoint_clear_def by (auto simp: own split: option.splits)
qed

lemma directory_stage_Inr:
  assumes run: "directory_stage ops b cancel entries (filter (\<lambda>intent. \<not> unchanged intent) entries) s n = Inr n'"
    and rows: "list_all2 (frozen_row ops b scope) (filter (\<lambda>intent. \<not> unchanged intent) entries) (stage_rows s)"
      "distinct (map intent_id (filter (\<lambda>intent. \<not> unchanged intent) entries))"
    and kept: "list_ex (\<lambda>intent. intent_kind intent = Directory) (filter (\<lambda>intent. \<not> unchanged intent) entries) \<longrightarrow>
       source_snapshots s = map_of (row_pairs row_source_snapshot (stage_rows s)) \<and>
       destination_snapshots s = map_of (row_pairs row_destination_snapshot (stage_rows s))"
  shows "apart_from_directories ops b entries (stage_rows s)"
proof (cases "renamed_directories (stage_rows s) = {}")
  case True
  then show ?thesis by (simp add: apart_from_directories_def)
next
  case False
  let ?changed = "filter (\<lambda>intent. \<not> unchanged intent) entries"
  let ?D = "renamed_directories (stage_rows s)"
  let ?dirs = "fold push_directory (stage_rows s) []"
  note inspects = directory_stage_inspects [OF run rows(1) False]
  from False obtain row0 where "row0 \<in> set (stage_rows s)" "row_kind row0 = Directory"
    by (auto simp: renamed_directories_def)
  with rows(1) have "list_ex (\<lambda>intent. intent_kind intent = Directory) ?changed"
    unfolding list_ex_iff by (metis frozen_member frozen_row_def nth_mem)
  note kept = kept [THEN mp, OF this]
  have frozen: "endpoint_clear ?dirs (row_id row) True (Inr (row_source_snapshot row)) \<and>
      endpoint_clear ?dirs (row_id row) False (Inr (row_destination_snapshot row)) \<and>
      (\<exists>entry. snapshot_entry (row_source_snapshot row) = Some entry \<and> observed_kind entry = row_kind row)"
    if "row \<in> set (stage_rows s)" for row
  proof -
    from rows(1) that obtain i where i: "i < length ?changed" "frozen_row ops b scope (?changed ! i) row"
      by (rule frozen_member)
    from i(1) have intent: "?changed ! i \<in> set ?changed" by (rule nth_mem)
    from rows intent obtain row' where row': "row' \<in> set (stage_rows s)" "frozen_row ops b scope (?changed ! i) row'"
      "map_of (row_pairs row_source_snapshot (stage_rows s)) (intent_id (?changed ! i)) = Some (row_source_snapshot row')"
      "map_of (row_pairs row_destination_snapshot (stage_rows s)) (intent_id (?changed ! i)) = Some (row_destination_snapshot row')"
      by (rule frozen_lookup)
    from rows(2) have "distinct (map row_id (stage_rows s))" by (simp add: frozen_ids [OF rows(1)])
    with row'(1,2) that i(2) have "row' = row" by (auto simp: frozen_row_def distinct_map dest: inj_onD)
    moreover have "?changed ! i \<in> set entries" "\<not> unchanged (?changed ! i)"
      using intent unfolding set_filter by blast+
    ultimately show ?thesis
      using inspects(1) [THEN bspec, of "?changed ! i"] inspects(2) [THEN bspec, OF intent] row' kept i(2)
      by (auto simp: frozen_or_observed_def frozen_row_def)
  qed
  have rows_apart: "snapshot_parent (row_source_snapshot row) \<notin> ?D \<and>
      snapshot_parent (row_destination_snapshot row) \<notin> ?D \<and>
      (\<forall>row'\<in>set (stage_rows s). row_kind row = Directory \<and> row_kind row' = Directory \<and>
         observed_at (row_source_snapshot row) = observed_at (row_source_snapshot row') \<longrightarrow>
         row_id row = row_id row')" if "row \<in> set (stage_rows s)" for row
    using frozen [OF that] endpoint_clear_rows [of "stage_rows s" "row_id row"]
    by (fastforce simp: observed_at_def)
  have rest: "case observe_op ops b (intent_source intent) of
           Inl e \<Rightarrow> is_not_found_error e
         | Inr snapshot \<Rightarrow> snapshot_parent snapshot \<notin> ?D \<and>
             (case snapshot_entry snapshot of
                None \<Rightarrow> True
              | Some entry \<Rightarrow> observed_kind entry = Directory \<longrightarrow>
                  (\<forall>row\<in>set (stage_rows s). row_kind row = Directory \<and>
                     observed_at (row_source_snapshot row) = Some (observed_identity entry) \<longrightarrow>
                     row_id row = intent_id intent))"
    if "intent \<in> set (filter unchanged entries)" for intent
  proof -
    have seen: "endpoint_clear ?dirs (intent_id intent) True (observe_op ops b (intent_source intent))"
      using inspects(1) that by auto
    then show ?thesis
    proof (cases "observe_op ops b (intent_source intent)")
      case (Inr snapshot)
      from endpoint_clear_rows [OF seen [unfolded Inr]] show ?thesis
        unfolding Inr sum.case by (cases "snapshot_entry snapshot") simp_all
    qed (simp add: endpoint_clear_def)
  qed
  show ?thesis
    unfolding apart_from_directories_def Let_def
    using inspects rows_apart rest by blast
qed

lemma destination_stage_Inr:
  assumes "destination_stage cancel rows n = Inr n'"
  shows "distinct (map row_destination_key rows)"
proof -
  from assms obtain n1 n2 where "append_duplicate_issues cancel
      (map snd (fold (\<lambda>row. push_owner (row_destination_key row) (row_id row)) rows [])) DuplicateDestination [] n1 =
      Inr ([], n2)"
    by (auto simp: destination_stage_def and_then_Inr dest!: for_each_each)
  from no_duplicates [OF this] show ?thesis by (auto intro!: distinct_from_owners)
qed

lemma occupied_issue_empty:
  "occupied_issue S row issues = [] \<Longrightarrow>
     issues = [] \<and> (snapshot_entry (row_destination_snapshot row) = None \<or> row_destination_key row \<in> S)"
  by (simp add: occupied_issue_def split: if_split_asm)

lemma occupied_stage_Inr:
  assumes "occupied_stage cancel rows n = Inr n'" and "row \<in> set rows"
  shows "snapshot_entry (row_destination_snapshot row) = None \<or> row_destination_key row \<in> row_source_key ` set rows"
proof -
  have sources: "fold (\<lambda>row. insert (row_source_key row)) xs S = row_source_key ` set xs \<union> S" for xs S
    by (induction xs arbitrary: S) auto
  from assms(1) obtain S n1 n2 where
    "for_each cancel (each (\<lambda>row. insert (row_source_key row))) rows {} n = Inr (S, n1)"
    "for_each cancel (each (occupied_issue S)) rows [] n1 = Inr ([], n2)"
    by (auto simp: occupied_stage_def and_then_Inr)
  note this [THEN for_each_each]
  then have "fold (occupied_issue (row_source_key ` set rows)) rows [] = []"
    by (simp add: sources)
  from fold_issues_empty [OF this occupied_issue_empty] have
    "\<forall>row\<in>set rows. snapshot_entry (row_destination_snapshot row) = None \<or>
       row_destination_key row \<in> row_source_key ` set rows" by simp
  with assms(2) show ?thesis by blast
qed

section \<open>Sound plans\<close>

text \<open>What every plan satisfies, on any backend.\<close>

definition sound_plan :: "'b backend_ops \<Rightarrow> 'b \<Rightarrow> plan_request \<Rightarrow> rename_plan \<Rightarrow> bool" where
  "sound_plan ops b request plan \<longleftrightarrow>
     (let changed = filter (\<lambda>intent. \<not> unchanged intent) (request_entries request);
          rows = plan_entries plan in
      plan_revision plan = request_revision request \<and> plan_scope plan = request_scope request \<and>
      list_all2 (frozen_row ops b (request_scope request)) changed rows \<and>
      distinct (map row_id rows) \<and> distinct (map row_destination_key rows) \<and>
      distinct (map (\<lambda>intent. path_key_op ops b (intent_source intent)) changed) \<and>
      (\<forall>row\<in>set rows. snapshot_entry (row_destination_snapshot row) = None \<or>
         row_destination_key row \<in> row_source_key ` set rows) \<and>
      (\<forall>intent\<in>set changed. \<forall>intent'\<in>set changed. \<forall>a\<in>set (path_ancestors (intent_source intent)).
         path_key_op ops b a \<noteq> path_key_op ops b (intent_source intent')) \<and>
      (\<forall>row\<in>set rows. \<forall>row'\<in>set rows. row_kind row' = Directory \<longrightarrow>
         Some (snapshot_parent (row_source_snapshot row)) \<noteq> observed_at (row_source_snapshot row') \<and>
         Some (snapshot_parent (row_destination_snapshot row)) \<noteq> observed_at (row_source_snapshot row')) \<and>
      apart_from_directories ops b (request_entries request) rows)"

lemma plan_stages:
  assumes "plan_cancellable ops b cancel request = Inr plan"
  obtains n1 n2 n3 n4 n5 n6 n7 n8 n9 s where
    "validation_stage cancel (request_entries request) (filter (\<lambda>intent. \<not> unchanged intent) (request_entries request)) n1 = Inr n2"
    "environment_stage ops b cancel (filter (\<lambda>intent. \<not> unchanged intent) (request_entries request)) n2 = Inr n3"
    "duplicates_stage ops b cancel (filter (\<lambda>intent. \<not> unchanged intent) (request_entries request)) n3 = Inr n4"
    "freeze_stage ops b cancel (request_scope request)
       (filter (\<lambda>intent. \<not> unchanged intent) (request_entries request)) n4 = Inr (s, n5)"
    "destination_stage cancel (stage_rows s) n5 = Inr n6"
    "source_stage ops b cancel (request_entries request) (stage_rows s) n6 = Inr n7"
    "directory_stage ops b cancel (request_entries request)
       (filter (\<lambda>intent. \<not> unchanged intent) (request_entries request)) s n7 = Inr n8"
    "occupied_stage cancel (stage_rows s) n8 = Inr n9"
    "plan_entries plan = stage_rows s" "plan_revision plan = request_revision request"
    "plan_scope plan = request_scope request"
  using assms unfolding plan_cancellable_def Let_def and_then_Inr split_paired_Ex prod.case sum.inject
  by (elim exE conjE) (drule changed_intents_Inr, drule sym [of _ plan], rule that, simp_all)

lemma plan_sound:
  assumes "plan_cancellable ops b cancel request = Inr plan"
  shows "sound_plan ops b request plan"
proof -
  let ?changed = "filter (\<lambda>intent. \<not> unchanged intent) (request_entries request)"
  from assms obtain n1 n2 n3 n4 n5 n6 n7 n8 n9 s where
    dup: "duplicates_stage ops b cancel ?changed n3 = Inr n4"
    and freeze: "freeze_stage ops b cancel (request_scope request) ?changed n4 = Inr (s, n5)"
    and dest: "destination_stage cancel (stage_rows s) n5 = Inr n6"
    and dir: "directory_stage ops b cancel (request_entries request) ?changed s n7 = Inr n8"
    and occ: "occupied_stage cancel (stage_rows s) n8 = Inr n9"
    and plan: "plan_entries plan = stage_rows s" "plan_revision plan = request_revision request"
      "plan_scope plan = request_scope request"
    by (rule plan_stages)
  note d = duplicates_stage_Inr [OF dup] and f = freeze_stage_Inr [OF freeze]
  have ids: "map row_id (stage_rows s) = map intent_id ?changed" using f by (blast intro: frozen_ids)
  have apart: "apart_from_directories ops b (request_entries request) (stage_rows s)"
    using directory_stage_Inr [OF dir] f d by blast
  then have "\<forall>row\<in>set (stage_rows s). \<forall>row'\<in>set (stage_rows s). row_kind row' = Directory \<longrightarrow>
      Some (snapshot_parent (row_source_snapshot row)) \<noteq> observed_at (row_source_snapshot row') \<and>
      Some (snapshot_parent (row_destination_snapshot row)) \<noteq> observed_at (row_source_snapshot row')"
    by (blast dest: apart_parents)
  with apart d f ids plan destination_stage_Inr [OF dest] occupied_stage_Inr [OF occ] show ?thesis
    unfolding sound_plan_def Let_def plan by metis
qed

section \<open>Plans over the in-memory filesystem\<close>

text \<open>
  The identity of a folder depends on its folded path only. A request is \<open>coherent\<close> when its
  intents are built by \<open>RenameIntent::new\<close>, its paths use backslashes, and different folders of
  it have different identities.
\<close>

definition folder_identity_of :: "memory_backend \<Rightarrow> u16 list \<Rightarrow> entry_identity" where
  "folder_identity_of b parent =
     (case mb_parents b parent of
        Some ident \<Rightarrow> ident
      | None \<Rightarrow> \<lparr>volume = 1, file_id = ucast (foldl fnv_step 0xcbf29ce484222325 parent)\<rparr>)"

lemma fnv_fold_lower: "foldl fnv_step h (map ascii_lower parent) = foldl fnv_step h parent"
  by (induction parent arbitrary: h) (simp_all add: fnv_step_def)

lemma parent_identity_folder:
  "parent_identity b path = folder_identity_of b (mb_path_key (parent_units path))"
  by (simp add: parent_identity_def folder_identity_of_def Let_def fnv_fold_lower mb_path_key_def split: option.splits)

definition request_folders :: "plan_request \<Rightarrow> u16 list set" where
  "request_folders request =
     (\<lambda>path. mb_path_key (parent_units path)) `
       (\<Union>intent\<in>set (request_entries request). {intent_source intent, intent_destination intent})"

definition built_intent :: "rename_intent \<Rightarrow> bool" where
  "built_intent intent \<longleftrightarrow>
     intent = rename_intent_new (intent_id intent) (intent_source intent) (intent_parent intent)
       (intent_name intent) (intent_kind intent)"

definition coherent_request :: "memory_backend \<Rightarrow> plan_request \<Rightarrow> bool" where
  "coherent_request b request \<longleftrightarrow>
     (\<forall>intent\<in>set (request_entries request). built_intent intent \<and>
        SLASH \<notin> set (intent_source intent) \<and> SLASH \<notin> set (intent_parent intent)) \<and>
     inj_on (folder_identity_of b) (request_folders request)"

text \<open>A path with a separator is its folder, a separator and its leaf.\<close>

lemma path_split:
  assumes "BACKSLASH \<in> set path" and "SLASH \<notin> set path"
  shows "path = parent_units path @ BACKSLASH # path_leaf path"
proof -
  have s: "is_separator = (\<lambda>u. u = BACKSLASH \<or> u = SLASH)" by (simp add: fun_eq_iff is_separator_def)
  obtain i where i: "rposition is_separator path = Some i"
    using assms(1) rposition_None [of is_separator path] by (cases "rposition is_separator path") (auto simp: s)
  from rposition_split [OF i] assms(2) have "path ! i = BACKSLASH" "path = take i path @ path ! i # drop (Suc i) path"
    using nth_mem [OF rposition_bound [OF i]] by (auto simp: s)
  with i show ?thesis by (simp add: parent_units_def path_leaf_def s)
qed

lemma absolute_backslash:
  assumes "is_absolute_windows_path path" and "SLASH \<notin> set path"
  shows "BACKSLASH \<in> set path"
proof -
  from assms(1) have "(0 < length path \<and> is_separator (path ! 0)) \<or> (2 < length path \<and> is_separator (path ! 2))"
    by (auto simp: is_absolute_windows_path_def)
  then obtain k where "k < length path" "is_separator (path ! k)" by blast
  with assms(2) show ?thesis by (metis is_separator_def nth_mem)
qed

lemma built_destination:
  assumes "built_intent intent" and "BACKSLASH \<notin> set (intent_name intent)" "SLASH \<notin> set (intent_name intent)"
    and "SLASH \<notin> set (intent_parent intent)"
  shows "BACKSLASH \<in> set (intent_destination intent) \<and> SLASH \<notin> set (intent_destination intent) \<and>
    path_leaf (intent_destination intent) = intent_name intent"
proof -
  obtain p where d: "intent_destination intent = p @ BACKSLASH # intent_name intent" "SLASH \<notin> set p"
  proof (cases "intent_parent intent \<noteq> [] \<and> last (intent_parent intent) = BACKSLASH")
    case True
    from assms(1) have "intent_destination intent = intent_destination (rename_intent_new (intent_id intent)
        (intent_source intent) (intent_parent intent) (intent_name intent) (intent_kind intent))"
      unfolding built_intent_def by (rule arg_cong)
    with True have "intent_destination intent = intent_parent intent @ intent_name intent"
      by (simp add: rename_intent_new_def)
    moreover have "intent_parent intent = butlast (intent_parent intent) @ [BACKSLASH]"
      using True by (metis append_butlast_last_id)
    ultimately have "intent_destination intent = butlast (intent_parent intent) @ BACKSLASH # intent_name intent"
      by (metis append.assoc append_Cons append_Nil)
    with assms(4) that [of "butlast (intent_parent intent)"] show thesis by (auto dest: in_set_butlastD)
  next
    case False
    then have "\<not> (intent_parent intent \<noteq> [] \<and> (last (intent_parent intent) = BACKSLASH \<or> last (intent_parent intent) = SLASH))"
      using assms(4) last_in_set by metis
    with assms(1,4) that [of "intent_parent intent"] show thesis
      by (auto simp: built_intent_def rename_intent_new_def dest: arg_cong [of _ _ intent_destination])
  qed
  with path_split [of "intent_destination intent"] assms(2,3) have
    "p @ BACKSLASH # intent_name intent =
      parent_units (intent_destination intent) @ BACKSLASH # path_leaf (intent_destination intent)" by auto
  from split_last_unique [OF this assms(2)] path_leaf_no_separator [of "intent_destination intent"] d assms(3)
  show ?thesis by auto
qed

lemma planned_key_lower:
  assumes "planned_entry_key_op memory_backend_ops b parent leaf = Inr key"
  shows "valid_leaf leaf \<and> key = entry_key_from_parts parent (map ascii_lower leaf)"
  using assms by (auto simp: memory_backend_ops_def mb_planned_entry_key_def valid_leaf_def split: sum.splits)

lemma addressed_path:
  assumes path: "BACKSLASH \<in> set path" "SLASH \<notin> set path"
    and key: "planned_entry_key_op memory_backend_ops b parent (path_leaf path) = Inr key"
    and F: "F parent = mb_path_key (parent_units path)"
  shows "addressed F path parent key"
  unfolding addressed_def
proof (intro exI conjI)
  from path_split [OF path] show "mb_path_key path = F parent @ BACKSLASH # map ascii_lower (path_leaf path)"
    unfolding F by (metis (no_types, lifting) ascii_lower_separators(3) list.simps(9) map_append mb_path_key_def)
  show "key = entry_key_from_parts parent (map ascii_lower (path_leaf path))"
    using planned_key_lower [OF key] by simp
  show "BACKSLASH \<notin> set (map ascii_lower (path_leaf path))" "SLASH \<notin> set (map ascii_lower (path_leaf path))"
    using path_leaf_no_separator [of path] by auto
qed

lemma memory_fields [simp]:
  "path_key_op memory_backend_ops b = mb_path_key" "observe_op memory_backend_ops = mb_observe"
  "resolve_source_op memory_backend_ops = mb_resolve_source"
  by (simp_all add: memory_backend_ops_def)

lemma mb_observe_parent: "mb_observe b path = Inr snap \<Longrightarrow> snapshot_parent snap = parent_identity b path"
  by (auto simp: mb_observe_def)

lemma mb_resolve_parent:
  "mb_resolve_source b path = Inr r \<Longrightarrow>
     resolved_path r = path \<and> snapshot_parent (resolved_snapshot r) = parent_identity b path"
  by (auto simp: mb_resolve_source_def and_then_Inr mb_observe_def split: option.splits)

lemma frozen_memory_row:
  assumes row: "frozen_row memory_backend_ops b scope intent row" and built: "built_intent intent"
    and slash: "SLASH \<notin> set (intent_source intent)" "SLASH \<notin> set (intent_parent intent)"
    and F: "F (parent_identity b (intent_source intent)) = mb_path_key (parent_units (intent_source intent))"
      "F (parent_identity b (intent_destination intent)) = mb_path_key (parent_units (intent_destination intent))"
  shows "row_source row = intent_source intent \<and>
    addressed F (row_source row) (snapshot_parent (row_source_snapshot row)) (row_source_key row) \<and>
    addressed F (row_destination row) (snapshot_parent (row_destination_snapshot row)) (row_destination_key row) \<and>
    observed_at (row_source_snapshot row) = mb_occupancy b (mb_path_key (row_source row)) \<and>
    observed_at (row_destination_snapshot row) = mb_occupancy b (mb_path_key (row_destination row))"
proof -
  from row mb_resolve_parent mb_observe_parent have p:
    "row_source row = intent_source intent" "row_destination row = intent_destination intent"
    "snapshot_parent (row_source_snapshot row) = parent_identity b (intent_source intent)"
    "snapshot_parent (row_destination_snapshot row) = parent_identity b (intent_destination intent)"
    by (fastforce simp: frozen_row_def)+
  from row have k: "is_absolute_windows_path (intent_source intent)"
    "planned_entry_key_op memory_backend_ops b (parent_identity b (intent_source intent))
       (path_leaf (intent_source intent)) = Inr (row_source_key row)"
    "planned_entry_key_op memory_backend_ops b (parent_identity b (intent_destination intent))
       (intent_name intent) = Inr (row_destination_key row)"
    by (auto simp: frozen_row_def p)
  from planned_key_lower [OF k(3)] valid_leaf_no_separator have "BACKSLASH \<notin> set (intent_name intent)"
    "SLASH \<notin> set (intent_name intent)" by auto
  from built_destination [OF built this slash(2)] have d: "BACKSLASH \<in> set (intent_destination intent)"
    "SLASH \<notin> set (intent_destination intent)" "path_leaf (intent_destination intent) = intent_name intent" by auto
  from row have o: "observed_at (row_source_snapshot row) = mb_occupancy b (mb_path_key (intent_source intent))"
    "observed_at (row_destination_snapshot row) = mb_occupancy b (mb_path_key (intent_destination intent))"
    using mb.resolve_law [of b "intent_source intent"] mb.observe_law [of b "intent_destination intent"]
    by (auto simp: frozen_row_def)
  show ?thesis unfolding p
    using addressed_path [where F = F, OF absolute_backslash [OF k(1) slash(1)] slash(1) k(2) F(1)]
      addressed_path [where F = F, OF d(1,2) k(3) [folded d(3)] F(2)] o by simp
qed

lemma frozen_memory_sources:
  assumes "list_all2 (frozen_row memory_backend_ops b scope) changed rows"
  shows "map row_source rows = map intent_source changed"
  using assms by (induction rule: list_all2_induct) (auto simp: frozen_row_def dest: mb_resolve_parent)

lemma distinct_map_finer:
  assumes "distinct (map f xs)" and "\<And>x y. x \<in> set xs \<Longrightarrow> y \<in> set xs \<Longrightarrow> g x = g y \<Longrightarrow> f x = f y"
  shows "distinct (map g xs)"
  using assms unfolding distinct_map inj_on_def by blast

lemma addressed_same_key:
  "addressed F p parent key \<Longrightarrow> addressed F q parent' key \<Longrightarrow> mb_path_key p = mb_path_key q"
  by (auto simp: addressed_def entry_key_inj)

text \<open>A plan for a coherent request is ready for the scheduler and the executor.\<close>

lemma coherent_plan_ready:
  assumes plan: "plan_cancellable memory_backend_ops b cancel request = Inr plan"
    and coherent: "coherent_request b request"
  defines "F \<equiv> the_inv_into (request_folders request) (folder_identity_of b)"
  shows "memory_plan F plan \<and> plan_ready mb_path_key (mb_occupancy b) plan"
proof -
  let ?changed = "filter (\<lambda>intent. \<not> unchanged intent) (request_entries request)"
  let ?rows = "plan_entries plan"
  from coherent have inj: "inj_on (folder_identity_of b) (request_folders request)"
    by (simp add: coherent_request_def)
  note sound = plan_sound [OF plan, unfolded sound_plan_def Let_def]
  then have rows: "list_all2 (frozen_row memory_backend_ops b (request_scope request)) ?changed ?rows" by blast
  have F: "F (parent_identity b path) = mb_path_key (parent_units path)"
    if "path = intent_source intent \<or> path = intent_destination intent" "intent \<in> set ?changed" for path intent
    unfolding F_def parent_identity_folder
    by (rule the_inv_into_f_f [OF inj]) (use that in \<open>auto simp: request_folders_def\<close>)
  have row: "row_source row = intent_source intent \<and>
      addressed F (row_source row) (snapshot_parent (row_source_snapshot row)) (row_source_key row) \<and>
      addressed F (row_destination row) (snapshot_parent (row_destination_snapshot row)) (row_destination_key row) \<and>
      observed_at (row_source_snapshot row) = mb_occupancy b (mb_path_key (row_source row)) \<and>
      observed_at (row_destination_snapshot row) = mb_occupancy b (mb_path_key (row_destination row))"
    if "frozen_row memory_backend_ops b (request_scope request) intent row" "intent \<in> set ?changed" for intent row
    using that coherent F by (intro frozen_memory_row [OF that(1)]) (auto simp: coherent_request_def)
  have at: "\<exists>intent\<in>set ?changed. frozen_row memory_backend_ops b (request_scope request) intent row"
    if "row \<in> set ?rows" for row
    using frozen_member [OF rows that] nth_mem by metis
  then have all: "addressed F (row_source r) (snapshot_parent (row_source_snapshot r)) (row_source_key r) \<and>
      addressed F (row_destination r) (snapshot_parent (row_destination_snapshot r)) (row_destination_key r) \<and>
      observed_at (row_source_snapshot r) = mb_occupancy b (mb_path_key (row_source r)) \<and>
      observed_at (row_destination_snapshot r) = mb_occupancy b (mb_path_key (row_destination r))"
    if "r \<in> set ?rows" for r
    using row that by meson
  have "snapshot_parent (row_source_snapshot row) \<in> folder_identity_of b ` request_folders request \<and>
      snapshot_parent (row_destination_snapshot row) \<in> folder_identity_of b ` request_folders request"
    if "row \<in> set ?rows" for row
    using at [OF that] mb_resolve_parent mb_observe_parent
    by (fastforce simp: frozen_row_def parent_identity_folder request_folders_def)
  then have "plan_parents plan \<subseteq> folder_identity_of b ` request_folders request"
    by (auto simp: plan_parents_def)
  then have "inj_on F (plan_parents plan)"
    unfolding F_def by (rule inj_on_subset [OF inj_on_the_inv_into [OF inj]])
  moreover have "distinct (map mb_path_key (map row_source ?rows))"
    unfolding frozen_memory_sources [OF rows] using sound by (simp add: comp_def)
  then have "distinct (map row_source_key ?rows)"
    unfolding map_map by (rule distinct_map_finer) (metis all addressed_same_key comp_apply)
  moreover have "row_identity r \<noteq> None" if "r \<in> set ?rows" for r
    using at [OF that] by (auto simp: frozen_row_def row_identity_def observed_at_def)
  moreover have "mb_occupancy b (mb_path_key (row_destination r)) = None \<or>
      row_destination_key r \<in> row_source_key ` set ?rows" if "r \<in> set ?rows" for r
    using all [OF that] sound that by (metis observed_at_def option.map_disc_iff)
  ultimately show ?thesis
    using all sound unfolding memory_plan_def plan_ready_def row_identity_def by metis
qed

end
