(* ===== verification/Journal_Store.thy ===== *)
theory Journal_Store
  imports Rename_Journal
begin

text \<open>
  The journal ports of \<open>ports.rs\<close> (\<open>JournalStore\<close>, \<open>AuthorizedJournal\<close>) as records of operations,
  the contracts their documentation states as locales, and the in-memory adapter
  \<open>MemoryJournal\<close> of \<open>journal.rs\<close> as their interpretation. The contract of an append is about the
  record list: \<open>Ok\<close> appends the record, \<open>NotAppended\<close> leaves the list, \<open>MayHaveAppended\<close> does one
  of the two.
\<close>

type_synonym journal_result = "journal_error + unit"

record 'j journal_ops =
  begin_op :: "'j \<Rightarrow> plan_id \<Rightarrow> journal_step list \<Rightarrow> journal_result \<times> 'j"
  prepared_op :: "'j \<Rightarrow> usize \<Rightarrow> journal_direction \<Rightarrow> journal_result \<times> 'j"
  completed_op :: "'j \<Rightarrow> usize \<Rightarrow> journal_direction \<Rightarrow> journal_result \<times> 'j"
  not_applied_op :: "'j \<Rightarrow> usize \<Rightarrow> journal_direction \<Rightarrow> journal_result \<times> 'j"
  terminal_op :: "'j \<Rightarrow> journal_terminal \<Rightarrow> journal_result \<times> 'j"

type_synonym journal_snapshot = "journal_record list \<times> journal_authorization"

record 'j authorized_ops =
  authorized_snapshot_op :: "'j \<Rightarrow> (journal_error + journal_snapshot) \<times> 'j"
  authorized_prepared_op :: "'j \<Rightarrow> journal_authorization \<Rightarrow> usize \<Rightarrow> journal_direction \<Rightarrow>
    journal_result \<times> journal_authorization \<times> 'j"
  authorized_completed_op :: "'j \<Rightarrow> journal_authorization \<Rightarrow> usize \<Rightarrow> journal_direction \<Rightarrow>
    journal_result \<times> journal_authorization \<times> 'j"
  authorized_not_applied_op :: "'j \<Rightarrow> journal_authorization \<Rightarrow> usize \<Rightarrow> journal_direction \<Rightarrow>
    journal_result \<times> journal_authorization \<times> 'j"
  authorized_terminal_op :: "'j \<Rightarrow> journal_authorization \<Rightarrow> journal_terminal \<Rightarrow>
    journal_result \<times> journal_authorization \<times> 'j"

section \<open>The contracts\<close>

text \<open>What an append of one record may do to the record list.\<close>

definition appended_record ::
  "journal_record \<Rightarrow> journal_record list \<Rightarrow> journal_result \<Rightarrow> journal_record list \<Rightarrow> bool" where
  "appended_record r rs res rs' =
     (case res of
        Inr _ \<Rightarrow> rs' = rs @ [r]
      | Inl e \<Rightarrow> rs' = rs \<or> journal_certainty e = MayHaveAppended \<and> rs' = rs @ [r])"

lemma appended_record_simps [simp]:
  "appended_record r rs (Inr u) rs' \<longleftrightarrow> rs' = rs @ [r]"
  "appended_record r rs (Inl e) rs' \<longleftrightarrow>
     rs' = rs \<or> journal_certainty e = MayHaveAppended \<and> rs' = rs @ [r]"
  by (simp_all add: appended_record_def)

locale journal_store =
  fixes ops :: "'j journal_ops"
    and recs :: "'j \<Rightarrow> journal_record list"
  assumes begin_law: "begin_op ops j p steps = (res, j') \<Longrightarrow>
      appended_record (Intent p steps) (recs j) res (recs j') \<and> (recs j' \<noteq> recs j \<longrightarrow> recs j = [])"
    and prepared_law: "prepared_op ops j i d = (res, j') \<Longrightarrow>
      appended_record (Prepared i d) (recs j) res (recs j')"
    and completed_law: "completed_op ops j i d = (res, j') \<Longrightarrow>
      appended_record (Completed i d) (recs j) res (recs j')"
    and not_applied_law: "not_applied_op ops j i d = (res, j') \<Longrightarrow>
      appended_record (NotApplied i d) (recs j) res (recs j')"
    and terminal_law: "terminal_op ops j t = (res, j') \<Longrightarrow>
      appended_record (Terminal t) (recs j) res (recs j')"

locale authorized_journal =
  fixes aops :: "'j authorized_ops"
    and recs :: "'j \<Rightarrow> journal_record list"
  assumes snapshot_law: "authorized_snapshot_op aops j = (snap, j') \<Longrightarrow>
      recs j' = recs j \<and> (case snap of Inr (rs, _) \<Rightarrow> rs = recs j | Inl _ \<Rightarrow> True)"
    and auth_prepared_law: "authorized_prepared_op aops j a i d = (res, a', j') \<Longrightarrow>
      appended_record (Prepared i d) (recs j) res (recs j')"
    and auth_completed_law: "authorized_completed_op aops j a i d = (res, a', j') \<Longrightarrow>
      appended_record (Completed i d) (recs j) res (recs j')"
    and auth_not_applied_law: "authorized_not_applied_op aops j a i d = (res, a', j') \<Longrightarrow>
      appended_record (NotApplied i d) (recs j) res (recs j')"
    and auth_terminal_law: "authorized_terminal_op aops j a t = (res, a', j') \<Longrightarrow>
      appended_record (Terminal t) (recs j) res (recs j')"

text \<open>An append that fails with certainty leaves the record list.\<close>

lemma certain_failure_keeps:
  "appended_record r rs (Inl e) rs' \<Longrightarrow> journal_certainty e = NotAppended \<Longrightarrow> rs' = rs"
  by simp

section \<open>The in-memory journal\<close>

record memory_journal =
  mj_records :: "journal_record list"
  mj_identity :: u64
  mj_generation :: u64
  mj_invalidate :: bool

text \<open>\<open>u64::saturating_add(1)\<close>.\<close>

definition saturating_inc :: "u64 \<Rightarrow> u64" where
  "saturating_inc w = (if w = - 1 then w else w + 1)"

text \<open>The identity comes from a process-wide counter: an argument here.\<close>

definition memory_journal_new :: "u64 \<Rightarrow> memory_journal" where
  "memory_journal_new i = \<lparr>mj_records = [], mj_identity = i, mj_generation = 0, mj_invalidate = False\<rparr>"

definition memory_journal_from_records :: "u64 \<Rightarrow> journal_record list \<Rightarrow> memory_journal" where
  "memory_journal_from_records i rs =
     \<lparr>mj_records = rs, mj_identity = i, mj_generation = of_nat (length rs), mj_invalidate = False\<rparr>"

text \<open>\<open>next_journal_identity\<close>: the counter's old value is the identity, and it wraps.\<close>

definition next_journal_identity :: "u64 \<Rightarrow> u64 \<times> u64" where
  "next_journal_identity counter = (counter, counter + 1)"

definition mj_push :: "memory_journal \<Rightarrow> journal_record \<Rightarrow> memory_journal" where
  "mj_push j r = j\<lparr>mj_records := mj_records j @ [r], mj_generation := saturating_inc (mj_generation j)\<rparr>"

definition mj_begin :: "memory_journal \<Rightarrow> plan_id \<Rightarrow> journal_step list \<Rightarrow> journal_result \<times> memory_journal" where
  "mj_begin j p steps =
     (if mj_records j \<noteq> [] then (Inl (not_appended 1), j) else (Inr (), mj_push j (Intent p steps)))"

definition mj_prepared :: "memory_journal \<Rightarrow> usize \<Rightarrow> journal_direction \<Rightarrow> journal_result \<times> memory_journal" where
  "mj_prepared j i d = (Inr (), mj_push j (Prepared i d))"

definition mj_completed :: "memory_journal \<Rightarrow> usize \<Rightarrow> journal_direction \<Rightarrow> journal_result \<times> memory_journal" where
  "mj_completed j i d = (Inr (), mj_push j (Completed i d))"

definition mj_not_applied :: "memory_journal \<Rightarrow> usize \<Rightarrow> journal_direction \<Rightarrow> journal_result \<times> memory_journal" where
  "mj_not_applied j i d = (Inr (), mj_push j (NotApplied i d))"

definition mj_terminal :: "memory_journal \<Rightarrow> journal_terminal \<Rightarrow> journal_result \<times> memory_journal" where
  "mj_terminal j t = (Inr (), mj_push j (Terminal t))"

definition mj_authorized_push ::
  "memory_journal \<Rightarrow> journal_authorization \<Rightarrow> journal_record \<Rightarrow>
     journal_result \<times> journal_authorization \<times> memory_journal" where
  "mj_authorized_push j a r =
     (let j1 = (if mj_invalidate j
                then j\<lparr>mj_invalidate := False, mj_generation := saturating_inc (mj_generation j)\<rparr>
                else j)
      in if auth_identity a \<noteq> mj_identity j1 \<or> auth_generation a \<noteq> mj_generation j1
         then (Inl (not_appended 2), a, j1)
         else let j2 = mj_push j1 r
              in (Inr (), a\<lparr>auth_generation := mj_generation j2\<rparr>, j2))"

definition mj_authorized_snapshot :: "memory_journal \<Rightarrow> (journal_error + journal_snapshot) \<times> memory_journal" where
  "mj_authorized_snapshot j =
     (Inr (mj_records j, \<lparr>auth_identity = mj_identity j, auth_generation = mj_generation j\<rparr>), j)"

definition memory_journal_ops :: "memory_journal journal_ops" where
  "memory_journal_ops = \<lparr>begin_op = mj_begin, prepared_op = mj_prepared, completed_op = mj_completed,
     not_applied_op = mj_not_applied, terminal_op = mj_terminal\<rparr>"

definition memory_authorized_ops :: "memory_journal authorized_ops" where
  "memory_authorized_ops = \<lparr>authorized_snapshot_op = mj_authorized_snapshot,
     authorized_prepared_op = (\<lambda>j a i d. mj_authorized_push j a (Prepared i d)),
     authorized_completed_op = (\<lambda>j a i d. mj_authorized_push j a (Completed i d)),
     authorized_not_applied_op = (\<lambda>j a i d. mj_authorized_push j a (NotApplied i d)),
     authorized_terminal_op = (\<lambda>j a t. mj_authorized_push j a (Terminal t))\<rparr>"

definition mj_recovery_state :: "memory_journal \<Rightarrow> recovery_state" where
  "mj_recovery_state j = replay_journal (mj_records j)"

lemmas mj_defs = mj_begin_def mj_prepared_def mj_completed_def mj_not_applied_def mj_terminal_def
  mj_push_def

lemma mj_authorized_push_appended:
  "mj_authorized_push j a r = (res, a', j') \<Longrightarrow> appended_record r (mj_records j) res (mj_records j')"
  by (auto simp: mj_authorized_push_def mj_push_def Let_def split: if_splits)

interpretation mj: journal_store memory_journal_ops mj_records
  by unfold_locales (auto simp: memory_journal_ops_def mj_defs split: if_splits)

interpretation mja: authorized_journal memory_authorized_ops mj_records
  by unfold_locales
    (auto simp: memory_authorized_ops_def mj_authorized_snapshot_def mj_authorized_push_appended)

text \<open>
  An authorization is current right after its snapshot, stays current through its own appends,
  and is refused after any other append, unless the 64-bit generation is saturated.
\<close>

definition authorized :: "memory_journal \<Rightarrow> journal_authorization \<Rightarrow> bool" where
  "authorized j a \<longleftrightarrow> \<not> mj_invalidate j \<and> auth_identity a = mj_identity j \<and>
     auth_generation a = mj_generation j"

lemma authorized_push_iff:
  assumes "\<not> mj_invalidate j"
  shows "fst (mj_authorized_push j a r) = Inr () \<longleftrightarrow> authorized j a"
  using assms by (auto simp: mj_authorized_push_def authorized_def Let_def)

lemma authorized_push_keeps:
  "authorized j a \<Longrightarrow> mj_authorized_push j a r = (res, a', j') \<Longrightarrow> res = Inr () \<and> authorized j' a'"
  by (auto simp: mj_authorized_push_def authorized_def mj_push_def Let_def)

lemma authorized_push_stale:
  assumes "authorized j a" and "mj_generation j \<noteq> - 1"
  shows "mj_authorized_push (mj_push j r) a r' = (Inl (not_appended 2), a, mj_push j r)"
  using assms by (auto simp: mj_authorized_push_def authorized_def mj_push_def saturating_inc_def Let_def)

end
