(* ===== verification/Rename_Recovery.thy ===== *)
theory Rename_Recovery
  imports Rename_Backend Journal_Store "HOL-Library.Finite_Map"
begin

text \<open>
  Recovery (\<open>crates/darknamer-app/src/rename/recovery.rs\<close>): it replays the retained journal,
  reconstructs the occupancy the records imply, compares it with what the filesystem shows, and
  rolls every applied step back. The ordered maps from entry keys to occupants are finite maps,
  so their comparison is the code's; ordered sets of indices are ascending lists.
\<close>

section \<open>Outcomes\<close>

datatype recovery_block_kind =
    Block_JournalCorrupt
  | Block_UnauthorizedOperation
  | Block_StateMismatch
  | Block_ParentChanged
  | Block_Backend backend_error
  | Block_Journal journal_error

datatype recovery_failure =
    Recovery_Backend backend_error
  | Recovery_Journal journal_error

datatype recovery_outcome =
    NotRequired
  | Recovered plan_id usize
  | Blocked "plan_id option" recovery_block_kind
  | StillRequired plan_id recovery_failure

section \<open>Steps as operations\<close>

definition recovery_operation :: "journal_step \<Rightarrow> bool \<Rightarrow> rename_operation" where
  "recovery_operation st rev_dir =
     (let (src, dst, src_par, dst_par) =
        (if rev_dir
         then (step_destination st, step_source st, step_destination_parent st, step_source_parent st)
         else (step_source st, step_destination st, step_source_parent st, step_destination_parent st))
      in case step_kind st of
           Some kind \<Rightarrow>
             with_authorization src dst (step_expected_source st) src_par dst_par kind (step_scope st)
         | None \<Rightarrow>
             with_legacy_same_parent_authorization src dst (step_expected_source st) src_par dst_par)"

section \<open>Occupancy implied by the records\<close>

type_synonym key_occupancy = "(path_key, entry_identity option) fmap"

definition endpoint_key ::
  "'b backend_ops \<Rightarrow> 'b \<Rightarrow> legacy_text \<Rightarrow> entry_identity \<Rightarrow> recovery_block_kind + path_key" where
  "endpoint_key ops b path parent =
     (case planned_entry_key_op ops b parent (path_leaf path) of
        Inl e \<Rightarrow> Inl (Block_Backend e) | Inr k \<Rightarrow> Inr k)"

text \<open>\<open>entry(key).or_insert(None)\<close>.\<close>

definition or_insert_none :: "path_key \<Rightarrow> key_occupancy \<Rightarrow> key_occupancy" where
  "or_insert_none k m = (case fmlookup m k of None \<Rightarrow> fmupd k None m | Some _ \<Rightarrow> m)"

definition holds_other :: "key_occupancy \<Rightarrow> path_key \<Rightarrow> entry_identity \<Rightarrow> bool" where
  "holds_other m k e = (case fmlookup m k of Some (Some e') \<Rightarrow> e' \<noteq> e | _ \<Rightarrow> False)"

fun initial_loop ::
  "'b backend_ops \<Rightarrow> 'b \<Rightarrow> journal_step list \<Rightarrow> key_occupancy \<Rightarrow> entry_id list \<Rightarrow>
     recovery_block_kind + key_occupancy" where
  "initial_loop ops b [] m seen = Inr m"
| "initial_loop ops b (st # steps) m seen =
     and_then (endpoint_key ops b (step_source st) (step_source_parent st)) (\<lambda>ks.
     and_then (endpoint_key ops b (step_destination st) (step_destination_parent st)) (\<lambda>kd.
       let m = or_insert_none kd (or_insert_none ks m)
       in if step_entry st \<in> set seen then initial_loop ops b steps m seen
          else if holds_other m ks (step_expected_source st) then Inl Block_JournalCorrupt
          else initial_loop ops b steps (fmupd ks (Some (step_expected_source st)) m)
                 (step_entry st # seen)))"

definition initial_occupancy ::
  "journal_step list \<Rightarrow> 'b backend_ops \<Rightarrow> 'b \<Rightarrow> recovery_block_kind + key_occupancy" where
  "initial_occupancy steps ops b = initial_loop ops b steps fmempty []"

definition apply_step ::
  "key_occupancy \<Rightarrow> journal_step \<Rightarrow> 'b backend_ops \<Rightarrow> 'b \<Rightarrow> bool \<Rightarrow>
     recovery_block_kind + key_occupancy" where
  "apply_step m st ops b rev_dir =
     (let (src, src_par, dst, dst_par) =
        (if rev_dir
         then (step_destination st, step_destination_parent st, step_source st, step_source_parent st)
         else (step_source st, step_source_parent st, step_destination st, step_destination_parent st))
      in and_then (endpoint_key ops b src src_par) (\<lambda>ks.
         and_then (endpoint_key ops b dst dst_par) (\<lambda>kd.
           if fmlookup m ks \<noteq> Some (Some (step_expected_source st)) \<or> fmlookup m kd \<noteq> Some None
           then Inl Block_JournalCorrupt
           else Inr (fmupd kd (Some (step_expected_source st)) (fmupd ks None m)))))"

text \<open>The second pass over the records: every completed step is applied in its direction.\<close>

fun apply_completed ::
  "journal_step list \<Rightarrow> 'b backend_ops \<Rightarrow> 'b \<Rightarrow> journal_record list \<Rightarrow> key_occupancy \<Rightarrow>
     recovery_block_kind + key_occupancy" where
  "apply_completed steps ops b [] m = Inr m"
| "apply_completed steps ops b (r # rs) m =
     (case r of
        Completed i d \<Rightarrow>
          and_then (apply_step m (steps ! i) ops b (d = Rollback))
            (\<lambda>m. apply_completed steps ops b rs m)
      | _ \<Rightarrow> apply_completed steps ops b rs m)"

section \<open>Occupancy the filesystem shows\<close>

definition observe_endpoint ::
  "'b backend_ops \<Rightarrow> 'b \<Rightarrow> legacy_text \<Rightarrow> entry_identity \<Rightarrow> entry_identity \<Rightarrow> entry_kind option \<Rightarrow>
     key_occupancy \<Rightarrow> recovery_block_kind + key_occupancy" where
  "observe_endpoint ops b path parent expected kind seen =
     (case observe_op ops b path of
        Inl e \<Rightarrow> Inl (Block_Backend e)
      | Inr snap \<Rightarrow>
          if snapshot_parent snap \<noteq> parent then Inl Block_ParentChanged
          else if (case snapshot_entry snap of None \<Rightarrow> False | Some x \<Rightarrow> is_reparse_point x)
          then Inl Block_StateMismatch
          else if (case snapshot_entry snap of None \<Rightarrow> False
                   | Some x \<Rightarrow> observed_identity x = expected \<and>
                       (case kind of None \<Rightarrow> False | Some k \<Rightarrow> observed_kind x \<noteq> k))
          then Inl Block_StateMismatch
          else and_then (endpoint_key ops b path parent) (\<lambda>key.
            let ident = observed_at snap
            in if (case fmlookup seen key of None \<Rightarrow> False | Some previous \<Rightarrow> previous \<noteq> ident)
               then Inl Block_StateMismatch
               else Inr (fmupd key ident seen)))"

fun observe_loop ::
  "'b backend_ops \<Rightarrow> 'b \<Rightarrow> journal_step list \<Rightarrow> key_occupancy \<Rightarrow> recovery_block_kind + key_occupancy" where
  "observe_loop ops b [] seen = Inr seen"
| "observe_loop ops b (st # steps) seen =
     and_then (observe_endpoint ops b (step_source st) (step_source_parent st)
       (step_expected_source st) (step_kind st) seen) (\<lambda>seen.
     and_then (observe_endpoint ops b (step_destination st) (step_destination_parent st)
       (step_expected_source st) (step_kind st) seen) (\<lambda>seen.
       observe_loop ops b steps seen))"

definition observe_all ::
  "journal_step list \<Rightarrow> 'b backend_ops \<Rightarrow> 'b \<Rightarrow> recovery_block_kind + key_occupancy" where
  "observe_all steps ops b = observe_loop ops b steps fmempty"

section \<open>The transition state\<close>

record prepared_state =
  prep_step :: usize
  prep_direction :: journal_direction
  prep_applied :: bool

record transition_state =
  tr_forward :: "usize list"
  tr_rollback :: "usize list"
  tr_prepared :: "prepared_state option"

text \<open>The first pass over the records.\<close>

record scan_state =
  scan_forward :: "usize list"
  scan_rollback :: "usize list"
  scan_prepared :: "(usize \<times> journal_direction) option"

fun scan_record :: "journal_record \<Rightarrow> scan_state \<Rightarrow> scan_state" where
  "scan_record (Prepared i d) s = s\<lparr>scan_prepared := Some (i, d)\<rparr>"
| "scan_record (Completed i Forward) s =
     s\<lparr>scan_forward := insort_insert i (scan_forward s), scan_prepared := None\<rparr>"
| "scan_record (Completed i Rollback) s =
     s\<lparr>scan_rollback := insort_insert i (scan_rollback s), scan_prepared := None\<rparr>"
| "scan_record (NotApplied i d) s = s\<lparr>scan_prepared := None\<rparr>"
| "scan_record (Intent p steps) s = s"
| "scan_record (Terminal t) s = s"

definition scan_records :: "journal_record list \<Rightarrow> scan_state" where
  "scan_records rs =
     fold scan_record rs \<lparr>scan_forward = [], scan_rollback = [], scan_prepared = None\<rparr>"

definition reconcile_prepared ::
  "journal_step list \<Rightarrow> 'b backend_ops \<Rightarrow> 'b \<Rightarrow> key_occupancy \<Rightarrow> key_occupancy \<Rightarrow>
     (usize \<times> journal_direction) option \<Rightarrow> recovery_block_kind + prepared_state option" where
  "reconcile_prepared steps ops b expected observed prepared =
     (case prepared of
        Some (i, d) \<Rightarrow>
          and_then (apply_step expected (steps ! i) ops b (d = Rollback)) (\<lambda>candidate.
            case (expected = observed, candidate = observed) of
              (True, False) \<Rightarrow>
                Inr (Some \<lparr>prep_step = i, prep_direction = d, prep_applied = False\<rparr>)
            | (False, True) \<Rightarrow>
                Inr (Some \<lparr>prep_step = i, prep_direction = d, prep_applied = True\<rparr>)
            | _ \<Rightarrow> Inl Block_StateMismatch)
      | None \<Rightarrow> if expected \<noteq> observed then Inl Block_StateMismatch else Inr None)"

definition transition_state_of ::
  "journal_record list \<Rightarrow> journal_step list \<Rightarrow> 'b backend_ops \<Rightarrow> 'b \<Rightarrow>
     recovery_block_kind + transition_state" where
  "transition_state_of records steps ops b =
     (let rest = drop 1 records; scan = scan_records rest in
      and_then (initial_occupancy steps ops b) (\<lambda>m.
      and_then (apply_completed steps ops b rest m) (\<lambda>expected.
      and_then (observe_all steps ops b) (\<lambda>observed.
      and_then (reconcile_prepared steps ops b expected observed (scan_prepared scan)) (\<lambda>prepared.
        Inr \<lparr>tr_forward = scan_forward scan, tr_rollback = scan_rollback scan,
             tr_prepared = prepared\<rparr>)))))"

section \<open>Recovery\<close>

record ('b, 'j) recovery_ports =
  rp_backend :: "'b backend_ops"
  rp_journal :: "'j authorized_ops"

text \<open>What a recovery mutates: the backend, the journal and the current authorization.\<close>

type_synonym ('b, 'j) recovery_world = "'b \<times> 'j \<times> journal_authorization"

text \<open>The outcome of the open prepared record is made durable first.\<close>

definition record_prepared ::
  "('b, 'j) recovery_ports \<Rightarrow> prepared_state \<Rightarrow> ('b, 'j) recovery_world \<Rightarrow>
     journal_result \<times> ('b, 'j) recovery_world" where
  "record_prepared P prep = (\<lambda>(b, j, a).
     let (res, a1, j1) =
       (if prep_applied prep
        then authorized_completed_op (rp_journal P) j a (prep_step prep) (prep_direction prep)
        else authorized_not_applied_op (rp_journal P) j a (prep_step prep) (prep_direction prep))
     in (res, (b, j1, a1)))"

definition after_prepared :: "prepared_state \<Rightarrow> transition_state \<Rightarrow> transition_state" where
  "after_prepared prep t =
     (if prep_applied prep
      then case prep_direction prep of
             Forward \<Rightarrow> t\<lparr>tr_forward := insort_insert (prep_step prep) (tr_forward t)\<rparr>
           | Rollback \<Rightarrow> t\<lparr>tr_rollback := insort_insert (prep_step prep) (tr_rollback t)\<rparr>
      else t)"

definition remaining_steps :: "transition_state \<Rightarrow> usize list" where
  "remaining_steps t = rev (filter (\<lambda>i. i \<notin> set (tr_rollback t)) (tr_forward t))"

text \<open>One reverse move; \<open>Inl\<close> is the outcome that stops the recovery.\<close>

definition recover_step ::
  "('b, 'j) recovery_ports \<Rightarrow> plan_id \<Rightarrow> journal_step list \<Rightarrow> usize \<Rightarrow> ('b, 'j) recovery_world \<Rightarrow>
     (recovery_outcome + unit) \<times> ('b, 'j) recovery_world" where
  "recover_step P plan steps i = (\<lambda>(b, j, a).
     if \<not> i < length steps then (Inl (Blocked (Some plan) Block_JournalCorrupt), (b, j, a))
     else case authorized_prepared_op (rp_journal P) j a i Rollback of
       (Inl e, a1, j1) \<Rightarrow> (Inl (StillRequired plan (Recovery_Journal e)), (b, j1, a1))
     | (Inr _, a1, j1) \<Rightarrow>
        (case rename_op (rp_backend P) b (recovery_operation (steps ! i) True) of
           (Inl e, b1) \<Rightarrow>
             if backend_certainty e = NotApplied_Certain
             then (case authorized_not_applied_op (rp_journal P) j1 a1 i Rollback of
                     (Inl je, a2, j2) \<Rightarrow>
                       (Inl (StillRequired plan (Recovery_Journal je)), (b1, j2, a2))
                   | (Inr _, a2, j2) \<Rightarrow>
                       (Inl (StillRequired plan (Recovery_Backend e)), (b1, j2, a2)))
             else (Inl (StillRequired plan (Recovery_Backend e)), (b1, j1, a1))
         | (Inr _, b1) \<Rightarrow>
            (case authorized_completed_op (rp_journal P) j1 a1 i Rollback of
               (Inl e, a2, j2) \<Rightarrow> (Inl (StillRequired plan (Recovery_Journal e)), (b1, j2, a2))
             | (Inr _, a2, j2) \<Rightarrow> (Inr (), (b1, j2, a2)))))"

fun recover_loop ::
  "('b, 'j) recovery_ports \<Rightarrow> plan_id \<Rightarrow> journal_step list \<Rightarrow> usize list \<Rightarrow>
     ('b, 'j) recovery_world \<Rightarrow> (recovery_outcome + unit) \<times> ('b, 'j) recovery_world" where
  "recover_loop P plan steps [] w = (Inr (), w)"
| "recover_loop P plan steps (i # rest) w =
     (case recover_step P plan steps i w of
        (Inl out, w1) \<Rightarrow> (Inl out, w1)
      | (Inr _, w1) \<Rightarrow> recover_loop P plan steps rest w1)"

definition recover_transitions ::
  "('b, 'j) recovery_ports \<Rightarrow> plan_id \<Rightarrow> journal_step list \<Rightarrow> transition_state \<Rightarrow>
     ('b, 'j) recovery_world \<Rightarrow> recovery_outcome \<times> ('b, 'j) recovery_world" where
  "recover_transitions P plan steps t w =
     (let remaining = remaining_steps t in
      case recover_loop P plan steps remaining w of
        (Inl out, w1) \<Rightarrow> (out, w1)
      | (Inr _, (b, j, a)) \<Rightarrow>
         (case authorized_terminal_op (rp_journal P) j a RolledBack of
            (Inl e, a1, j1) \<Rightarrow> (StillRequired plan (Recovery_Journal e), (b, j1, a1))
          | (Inr _, a1, j1) \<Rightarrow> (Recovered plan (length remaining), (b, j1, a1))))"

definition recover_intent ::
  "('b, 'j) recovery_ports \<Rightarrow> plan_id \<Rightarrow> journal_step list \<Rightarrow> journal_record list \<Rightarrow>
     ('b, 'j) recovery_world \<Rightarrow> recovery_outcome \<times> ('b, 'j) recovery_world" where
  "recover_intent P plan steps records w =
     (if list_ex (\<lambda>st. authorization_error (recovery_operation st False) \<noteq> None) steps
      then (Blocked (Some plan) Block_UnauthorizedOperation, w)
      else case transition_state_of records steps (rp_backend P) (fst w) of
        Inl reason \<Rightarrow> (Blocked (Some plan) reason, w)
      | Inr t \<Rightarrow>
         (case tr_prepared t of
            None \<Rightarrow> recover_transitions P plan steps t w
          | Some prep \<Rightarrow>
             (case record_prepared P prep w of
                (Inl e, w1) \<Rightarrow> (StillRequired plan (Recovery_Journal e), w1)
              | (Inr _, w1) \<Rightarrow>
                  recover_transitions P plan steps (after_prepared prep t) w1)))"

definition replay_plan :: "recovery_state \<Rightarrow> plan_id option" where
  "replay_plan s = (case s of RecoveryRequired p _ _ _ \<Rightarrow> p | Clean \<Rightarrow> None)"

definition recovery_rollback ::
  "('b, 'j) recovery_ports \<Rightarrow> 'b \<Rightarrow> 'j \<Rightarrow> recovery_outcome \<times> 'b \<times> 'j" where
  "recovery_rollback P b j =
     (case authorized_snapshot_op (rp_journal P) j of
        (Inl e, j1) \<Rightarrow> (Blocked None (Block_Journal e), b, j1)
      | (Inr (records, a), j1) \<Rightarrow>
         (let replay = replay_journal records in
          if replay = Clean then (NotRequired, b, j1)
          else if is_corrupt replay then (Blocked (replay_plan replay) Block_JournalCorrupt, b, j1)
          else case records of
            Intent plan steps # _ \<Rightarrow>
              (case recover_intent P plan steps records (b, j1, a) of
                 (out, (b1, j2, _)) \<Rightarrow> (out, b1, j2))
          | _ \<Rightarrow> (Blocked None Block_JournalCorrupt, b, j1)))"

end
