(* ===== verification/Journal_Capacity.thy ===== *)
theory Journal_Capacity
  imports Rename_Journal
begin

text \<open>
  The capacity check of an intent manifest (\<open>journal_requirements\<close> of \<open>file_journal.rs\<close>), used by
  the executor before it begins a transaction and by the codec when it encodes one.
\<close>

definition MAX_JOURNAL_STEPS :: usize where
  "MAX_JOURNAL_STEPS = 10000"

definition MAX_JOURNAL_FRAMES :: usize where
  "MAX_JOURNAL_FRAMES = MAX_JOURNAL_STEPS * 4 + 4"

definition MAX_JOURNAL_FRAME_BYTES :: usize where
  "MAX_JOURNAL_FRAME_BYTES = 16 * 1024 * 1024"

definition MAX_JOURNAL_FILE_BYTES :: usize where
  "MAX_JOURNAL_FILE_BYTES = 64 * 1024 * 1024"

definition MAX_PATH_UNITS :: usize where
  "MAX_PATH_UNITS = 32767"

lemmas journal_limits = MAX_JOURNAL_STEPS_def MAX_JOURNAL_FRAMES_def MAX_JOURNAL_FRAME_BYTES_def
  MAX_JOURNAL_FILE_BYTES_def MAX_PATH_UNITS_def

datatype journal_capacity_kind = PrimitiveSteps | IntentFrameBytes

record journal_capacity_error =
  capacity_kind :: journal_capacity_kind
  capacity_required :: usize
  capacity_maximum :: usize

record journal_requirements_record =
  primitive_steps :: usize
  intent_frame_bytes :: usize

definition INTENT_FIXED_BYTES :: usize where
  "INTENT_FIXED_BYTES = 8 + 4"

definition INTENT_STEP_FIXED_BYTES :: usize where
  "INTENT_STEP_FIXED_BYTES = 4 + 4 + 4 + (8 + 16) * 3 + 3"

definition add_step_bytes :: "usize \<Rightarrow> journal_step \<Rightarrow> usize" where
  "add_step_bytes required st =
     saturating_add (saturating_add (saturating_add required INTENT_STEP_FIXED_BYTES)
       (saturating_mul (length (step_source st)) 2)) (saturating_mul (length (step_destination st)) 2)"

definition journal_requirements ::
  "journal_step list \<Rightarrow> journal_capacity_error + journal_requirements_record" where
  "journal_requirements steps =
     (if MAX_JOURNAL_STEPS < length steps
      then Inl \<lparr>capacity_kind = PrimitiveSteps, capacity_required = length steps,
                capacity_maximum = MAX_JOURNAL_STEPS\<rparr>
      else let required = foldl add_step_bytes INTENT_FIXED_BYTES steps
           in if MAX_JOURNAL_FRAME_BYTES < required
              then Inl \<lparr>capacity_kind = IntentFrameBytes, capacity_required = required,
                        capacity_maximum = MAX_JOURNAL_FRAME_BYTES\<rparr>
              else Inr \<lparr>primitive_steps = length steps, intent_frame_bytes = required\<rparr>)"

text \<open>The bytes one step takes, and the whole manifest, without a bound on the sizes.\<close>

definition step_bytes :: "journal_step \<Rightarrow> nat" where
  "step_bytes st = 87 + 2 * length (step_source st) + 2 * length (step_destination st)"

definition manifest_bytes :: "journal_step list \<Rightarrow> nat" where
  "manifest_bytes steps = 12 + sum_list (map step_bytes steps)"

abbreviation USIZE_MAX :: nat where
  "USIZE_MAX \<equiv> 18446744073709551615"

lemma add_step_bytes_saturates:
  "add_step_bytes (min r USIZE_MAX) st = min (r + step_bytes st) USIZE_MAX"
  by (simp add: add_step_bytes_def saturating_add_def saturating_mul_def INTENT_STEP_FIXED_BYTES_def
      step_bytes_def min_def)

lemma foldl_step_bytes:
  "foldl add_step_bytes (min r USIZE_MAX) steps =
     min (r + sum_list (map step_bytes steps)) USIZE_MAX"
  by (induction steps arbitrary: r) (simp_all add: add_step_bytes_saturates add.assoc)

lemma required_bytes:
  "foldl add_step_bytes INTENT_FIXED_BYTES steps = min (manifest_bytes steps) USIZE_MAX"
  using foldl_step_bytes [of 12 steps] by (simp add: INTENT_FIXED_BYTES_def manifest_bytes_def)

text \<open>Saturation never changes the decision: the check is the exact comparison.\<close>

lemma journal_requirements_Inr:
  "journal_requirements steps = Inr r \<longleftrightarrow>
     length steps \<le> MAX_JOURNAL_STEPS \<and> manifest_bytes steps \<le> MAX_JOURNAL_FRAME_BYTES \<and>
     r = \<lparr>primitive_steps = length steps, intent_frame_bytes = manifest_bytes steps\<rparr>"
  by (auto simp: journal_requirements_def required_bytes Let_def journal_limits min_def)

end
