(* ===== verification/Rename_Executor.thy ===== *)
theory Rename_Executor
  imports Rename_Schedule Journal_Store Journal_Capacity
begin

unbundle bit_operations_syntax

text \<open>
  The executor (\<open>crates/darknamer-app/src/rename/executor.rs\<close>): it builds the schedule, freezes
  the observed filesystem, begins a journal transaction, applies the steps with a prepared and a
  completed record around each, and rolls back on failure or cancellation. Backend, journal and
  control are the ports; the world threads their states, the polls of the cancellation and the
  progress events.
\<close>

section \<open>Errors and outcomes\<close>

datatype execute_error_kind =
    Exec_Cancelled
  | Exec_InvalidSchedule
  | Exec_UnauthorizedMove
  | Exec_StaleSource
  | Exec_StaleParent
  | Exec_DestinationChanged
  | Exec_TemporaryOccupied
  | Exec_TemporaryExhausted
  | Exec_Backend backend_error
  | Exec_Journal journal_error
  | Exec_JournalCapacity journal_capacity_error

record execute_error =
  error_entry :: "entry_id option"
  error_kind :: execute_error_kind

datatype execution_failure =
    Fail_Cancelled usize
  | Fail_Backend usize backend_error
  | Fail_Journal usize journal_error

datatype execution_phase = ReadyPhase | ForwardPhase | RollbackPhase | FinalizingPhase | TerminalPhase

record execution_progress =
  progress_phase :: execution_phase
  progress_completed :: usize
  progress_total :: usize

datatype rollback_failure =
    Undo_Backend usize backend_error
  | Undo_Journal usize journal_error

datatype execution_outcome =
    Exec_Completed
  | Exec_RolledBack execution_failure
  | Exec_RecoveryRequired execution_failure "rollback_failure list"

datatype rename_state = Applied | Restored | Indeterminate

record entry_execution =
  exec_entry :: entry_id
  exec_state :: rename_state

record execution_report =
  report_plan :: plan_id
  report_outcome :: execution_outcome
  report_entries :: "entry_execution list"

section \<open>The cancellation token\<close>

text \<open>One atomic byte; every operation is one atomic step of it.\<close>

definition CANCEL_REQUESTED :: u8 where
  "CANCEL_REQUESTED = 1"

definition JOURNAL_BEGIN_COMMITTED :: u8 where
  "JOURNAL_BEGIN_COMMITTED = 2"

definition token_new :: u8 where
  "token_new = 0"

definition token_request :: "u8 \<Rightarrow> u8" where
  "token_request s = s OR CANCEL_REQUESTED"

definition token_is_requested :: "u8 \<Rightarrow> bool" where
  "token_is_requested s \<longleftrightarrow> s AND CANCEL_REQUESTED \<noteq> 0"

definition commit_journal_begin :: "u8 \<Rightarrow> bool \<times> u8" where
  "commit_journal_begin s = (if s = 0 then (True, JOURNAL_BEGIN_COMMITTED) else (False, s))"

datatype token_op = Request | Commit

text \<open>Any interleaving of requests and commits, with the answer of each commit.\<close>

fun run_token :: "u8 \<Rightarrow> token_op list \<Rightarrow> bool list \<times> u8" where
  "run_token s [] = ([], s)"
| "run_token s (Request # ops) = run_token (token_request s) ops"
| "run_token s (Commit # ops) =
     (let (ok, s1) = commit_journal_begin s; (answers, s2) = run_token s1 ops in (ok # answers, s2))"

text \<open>The executor's view of a control: the answers to its polls, and to its one begin.\<close>

record execution_control =
  cancellation_requested :: cancellation
  begin_transaction :: bool

section \<open>Per-entry results\<close>

record indexed_executions =
  ix_values :: "entry_execution list"
  ix_by_id :: "entry_id \<rightharpoonup> usize"

definition invalid_schedule :: "entry_id \<Rightarrow> execute_error" where
  "invalid_schedule e = \<lparr>error_entry = Some e, error_kind = Exec_InvalidSchedule\<rparr>"

fun from_plan_loop :: "plan_row list \<Rightarrow> indexed_executions \<Rightarrow> execute_error + indexed_executions" where
  "from_plan_loop [] ix = Inr ix"
| "from_plan_loop (row # rows) ix =
     (if ix_by_id ix (row_id row) \<noteq> None then Inl (invalid_schedule (row_id row))
      else from_plan_loop rows
        \<lparr>ix_values = ix_values ix @ [\<lparr>exec_entry = row_id row, exec_state = Restored\<rparr>],
         ix_by_id = (ix_by_id ix)(row_id row \<mapsto> length (ix_values ix))\<rparr>)"

definition from_plan :: "plan_row list \<Rightarrow> execute_error + indexed_executions" where
  "from_plan rows = from_plan_loop rows \<lparr>ix_values = [], ix_by_id = Map.empty\<rparr>"

fun validate_schedule :: "indexed_executions \<Rightarrow> schedule_step list \<Rightarrow> execute_error + unit" where
  "validate_schedule ix [] = Inr ()"
| "validate_schedule ix (st # steps) =
     (if ix_by_id ix (sched_entry st) = None then Inl (invalid_schedule (sched_entry st))
      else validate_schedule ix steps)"

definition find_plan_row :: "indexed_executions \<Rightarrow> plan_row list \<Rightarrow> entry_id \<Rightarrow> plan_row option" where
  "find_plan_row ix rows e =
     (case ix_by_id ix e of
        None \<Rightarrow> None
      | Some i \<Rightarrow> if i < length rows then Some (rows ! i) else None)"

definition set_state :: "entry_id \<Rightarrow> rename_state \<Rightarrow> indexed_executions \<Rightarrow> indexed_executions" where
  "set_state e st ix =
     (case ix_by_id ix e of
        None \<Rightarrow> ix
      | Some i \<Rightarrow>
          if i < length (ix_values ix)
          then ix\<lparr>ix_values := (ix_values ix)[i := (ix_values ix ! i)\<lparr>exec_state := st\<rparr>]\<rparr>
          else ix)"

section \<open>Steps as operations and records\<close>

definition forward_operation :: "schedule_step \<Rightarrow> rename_operation" where
  "forward_operation st =
     with_authorization (sched_source st) (sched_destination st) (sched_identity st)
       (sched_source_parent st) (sched_destination_parent st) (sched_kind st) (sched_scope st)"

definition rollback_operation :: "schedule_step \<Rightarrow> rename_operation" where
  "rollback_operation st =
     with_authorization (sched_destination st) (sched_source st) (sched_identity st)
       (sched_destination_parent st) (sched_source_parent st) (sched_kind st) (sched_scope st)"

definition journal_step_of :: "schedule_step \<Rightarrow> journal_step" where
  "journal_step_of st =
     with_move_authorization
       (journal_step_new (sched_entry st) (sched_source st) (sched_destination st)
          (sched_identity st) (sched_source_parent st) (sched_destination_parent st) (sched_phase st))
       (sched_kind st) (sched_scope st)"

definition forward_state :: "temporary_phase \<Rightarrow> rename_state" where
  "forward_state ph = (case ph of IntoTemporary \<Rightarrow> Indeterminate | _ \<Rightarrow> Applied)"

definition rollback_state :: "temporary_phase \<Rightarrow> rename_state" where
  "rollback_state ph = (case ph of FromTemporary \<Rightarrow> Indeterminate | _ \<Rightarrow> Restored)"

definition cancelled_before_begin :: execute_error where
  "cancelled_before_begin = \<lparr>error_entry = None, error_kind = Exec_Cancelled\<rparr>"

definition schedule_error_to_execute :: "schedule_error \<Rightarrow> execute_error" where
  "schedule_error_to_execute e =
     (case e of
        Sched_Cancelled \<Rightarrow> cancelled_before_begin
      | Sched_Invalid \<Rightarrow> \<lparr>error_entry = None, error_kind = Exec_InvalidSchedule\<rparr>
      | Sched_Backend b \<Rightarrow> \<lparr>error_entry = None, error_kind = Exec_Backend b\<rparr>
      | Sched_StaleParent i \<Rightarrow> \<lparr>error_entry = Some i, error_kind = Exec_StaleParent\<rparr>
      | Sched_TemporaryExhausted i \<Rightarrow> \<lparr>error_entry = Some i, error_kind = Exec_TemporaryExhausted\<rparr>)"

section \<open>Freezing the filesystem\<close>

definition poll :: "execution_control \<Rightarrow> nat \<Rightarrow> execute_error + nat" where
  "poll ctl n = (if cancellation_requested ctl n then Inl cancelled_before_begin else Inr (n + 1))"

definition entry_error :: "entry_id \<Rightarrow> execute_error_kind \<Rightarrow> execute_error" where
  "entry_error e kind = \<lparr>error_entry = Some e, error_kind = kind\<rparr>"

definition backend_result :: "entry_id \<Rightarrow> backend_error + 'a \<Rightarrow> execute_error + 'a" where
  "backend_result e r = (case r of Inl b \<Rightarrow> Inl (entry_error e (Exec_Backend b)) | Inr x \<Rightarrow> Inr x)"

definition check_source :: "plan_row \<Rightarrow> resolved_source \<Rightarrow> execute_error + unit" where
  "check_source row cur =
     (if snapshot_parent (resolved_snapshot cur) \<noteq> snapshot_parent (row_source_snapshot row)
      then Inl (entry_error (row_id row) Exec_StaleParent)
      else if snapshot_entry (resolved_snapshot cur) \<noteq> snapshot_entry (row_source_snapshot row) \<or>
         resolved_path cur \<noteq> row_source row \<or>
         resolved_entry_key cur \<noteq> Some (row_source_key row)
      then Inl (entry_error (row_id row) Exec_StaleSource)
      else if map_option observed_kind (snapshot_entry (resolved_snapshot cur)) \<noteq> Some (row_kind row)
      then Inl (entry_error (row_id row) Exec_UnauthorizedMove)
      else Inr ())"

definition check_destination :: "plan_row \<Rightarrow> path_snapshot \<Rightarrow> execute_error + unit" where
  "check_destination row cur =
     (if snapshot_parent cur \<noteq> snapshot_parent (row_destination_snapshot row)
      then Inl (entry_error (row_id row) Exec_StaleParent)
      else if snapshot_entry cur \<noteq> snapshot_entry (row_destination_snapshot row)
      then Inl (entry_error (row_id row) Exec_DestinationChanged)
      else Inr ())"

definition freeze_row ::
  "'b backend_ops \<Rightarrow> execution_control \<Rightarrow> 'b \<Rightarrow> nat \<Rightarrow> plan_row \<Rightarrow> execute_error + nat" where
  "freeze_row ops ctl b n row =
     and_then (poll ctl n) (\<lambda>n.
     and_then (backend_result (row_id row) (resolve_source_op ops b (row_source row))) (\<lambda>cur.
     and_then (poll ctl n) (\<lambda>n.
     and_then (check_source row cur) (\<lambda>_.
     and_then (backend_result (row_id row) (observe_op ops b (row_destination row))) (\<lambda>dst.
     and_then (poll ctl n) (\<lambda>n.
     and_then (check_destination row dst) (\<lambda>_. Inr n)))))))"

fun freeze_rows ::
  "'b backend_ops \<Rightarrow> execution_control \<Rightarrow> 'b \<Rightarrow> nat \<Rightarrow> plan_row list \<Rightarrow> execute_error + nat" where
  "freeze_rows ops ctl b n [] = Inr n"
| "freeze_rows ops ctl b n (row # rows) =
     and_then (freeze_row ops ctl b n row) (\<lambda>n. freeze_rows ops ctl b n rows)"

definition check_temporary ::
  "indexed_executions \<Rightarrow> plan_row list \<Rightarrow> schedule_step \<Rightarrow> path_snapshot \<Rightarrow> execute_error + unit" where
  "check_temporary ix rows st cur =
     (case find_plan_row ix rows (sched_entry st) of
        None \<Rightarrow> Inl (invalid_schedule (sched_entry st))
      | Some row \<Rightarrow>
          if snapshot_parent cur \<noteq> snapshot_parent (row_source_snapshot row)
          then Inl (entry_error (sched_entry st) Exec_StaleParent)
          else if snapshot_entry cur \<noteq> None
          then Inl (entry_error (sched_entry st) Exec_TemporaryOccupied)
          else Inr ())"

fun freeze_temporaries ::
  "'b backend_ops \<Rightarrow> execution_control \<Rightarrow> 'b \<Rightarrow> indexed_executions \<Rightarrow> plan_row list \<Rightarrow> nat \<Rightarrow>
     schedule_step list \<Rightarrow> execute_error + nat" where
  "freeze_temporaries ops ctl b ix rows n [] = Inr n"
| "freeze_temporaries ops ctl b ix rows n (st # steps) =
     and_then (poll ctl n) (\<lambda>n.
     and_then (backend_result (sched_entry st) (observe_op ops b (sched_destination st))) (\<lambda>cur.
     and_then (poll ctl n) (\<lambda>n.
     and_then (check_temporary ix rows st cur) (\<lambda>_.
       freeze_temporaries ops ctl b ix rows n steps))))"

fun authorize_steps :: "schedule_step list \<Rightarrow> execute_error + unit" where
  "authorize_steps [] = Inr ()"
| "authorize_steps (st # steps) =
     (if authorization_error (forward_operation st) \<noteq> None
      then Inl (entry_error (sched_entry st) Exec_UnauthorizedMove)
      else authorize_steps steps)"

definition freeze ::
  "'b backend_ops \<Rightarrow> execution_control \<Rightarrow> 'b \<Rightarrow> plan_row list \<Rightarrow> schedule_step list \<Rightarrow>
     indexed_executions \<Rightarrow> nat \<Rightarrow> execute_error + nat" where
  "freeze ops ctl b rows steps ix n =
     and_then (freeze_rows ops ctl b n rows) (\<lambda>n.
     and_then (freeze_temporaries ops ctl b ix rows n
       (filter (\<lambda>st. sched_phase st = IntoTemporary) steps)) (\<lambda>n.
     and_then (authorize_steps steps) (\<lambda>_. Inr n)))"

section \<open>The world of a run\<close>

record ('b, 'j) world =
  w_backend :: 'b
  w_journal :: 'j
  w_polls :: nat
  w_progress :: "execution_progress list"

record ('b, 'j) ports =
  port_backend :: "'b backend_ops"
  port_journal :: "'j journal_ops"
  port_control :: execution_control

definition report_progress :: "execution_phase \<Rightarrow> usize \<Rightarrow> usize \<Rightarrow> ('b, 'j) world \<Rightarrow> ('b, 'j) world" where
  "report_progress ph completed tot w =
     w\<lparr>w_progress := w_progress w @
        [\<lparr>progress_phase = ph, progress_completed = completed, progress_total = tot\<rparr>]\<rparr>"

text \<open>A poll in the running transaction: the answer, and the world after it.\<close>

definition poll_world :: "execution_control \<Rightarrow> ('b, 'j) world \<Rightarrow> bool \<times> ('b, 'j) world" where
  "poll_world ctl w =
     (cancellation_requested ctl (w_polls w), w\<lparr>w_polls := w_polls w + 1\<rparr>)"

definition with_journal :: "('j \<Rightarrow> journal_result \<times> 'j) \<Rightarrow> ('b, 'j) world \<Rightarrow> journal_result \<times> ('b, 'j) world" where
  "with_journal f w = (case f (w_journal w) of (res, j) \<Rightarrow> (res, w\<lparr>w_journal := j\<rparr>))"

definition rename_world ::
  "'b backend_ops \<Rightarrow> rename_operation \<Rightarrow> ('b, 'j) world \<Rightarrow> (backend_error + unit) \<times> ('b, 'j) world" where
  "rename_world ops op w = (case rename_op ops (w_backend w) op of (res, b) \<Rightarrow> (res, w\<lparr>w_backend := b\<rparr>))"

definition make_report :: "plan_id \<Rightarrow> execution_outcome \<Rightarrow> indexed_executions \<Rightarrow> execution_report" where
  "make_report p outcome ix =
     \<lparr>report_plan = p, report_outcome = outcome, report_entries = ix_values ix\<rparr>"

section \<open>Rollback\<close>

text \<open>One reverse move; \<open>Inl\<close> carries the failures that stop the rollback.\<close>

definition rollback_step ::
  "('b, 'j) ports \<Rightarrow> usize \<Rightarrow> schedule_step \<Rightarrow> indexed_executions \<Rightarrow> ('b, 'j) world \<Rightarrow>
     (rollback_failure list + unit) \<times> indexed_executions \<times> ('b, 'j) world" where
  "rollback_step P i st ix w =
     (let jops = port_journal P; stuck = set_state (sched_entry st) Indeterminate in
      case with_journal (\<lambda>j. prepared_op jops j i Rollback) w of
        (Inl e, w1) \<Rightarrow> (Inl [Undo_Journal i e], stuck ix, w1)
      | (Inr _, w1) \<Rightarrow>
         (case rename_world (port_backend P) (rollback_operation st) w1 of
            (Inl e, w2) \<Rightarrow>
              if backend_certainty e = NotApplied_Certain
              then (case with_journal (\<lambda>j. not_applied_op jops j i Rollback) w2 of
                      (Inl je, w3) \<Rightarrow> (Inl [Undo_Journal i je, Undo_Backend i e], stuck ix, w3)
                    | (Inr _, w3) \<Rightarrow> (Inl [Undo_Backend i e], stuck ix, w3))
              else (Inl [Undo_Backend i e], stuck ix, w2)
          | (Inr _, w2) \<Rightarrow>
              (let ix1 = set_state (sched_entry st) (rollback_state (sched_phase st)) ix in
               case with_journal (\<lambda>j. completed_op jops j i Rollback) w2 of
                 (Inl e, w3) \<Rightarrow> (Inl [Undo_Journal i e], stuck ix1, w3)
               | (Inr _, w3) \<Rightarrow> (Inr (), ix1, w3))))"

text \<open>The loop over the completed steps, last first.\<close>

fun rollback_loop ::
  "('b, 'j) ports \<Rightarrow> usize \<Rightarrow> (usize \<times> schedule_step) list \<Rightarrow> usize \<Rightarrow> indexed_executions \<Rightarrow>
     ('b, 'j) world \<Rightarrow> rollback_failure list \<times> indexed_executions \<times> ('b, 'j) world" where
  "rollback_loop P tot [] restored_count ix w = ([], ix, w)"
| "rollback_loop P tot ((i, st) # rest) restored_count ix w =
     (case rollback_step P i st ix w of
        (Inl failures, ix1, w1) \<Rightarrow> (failures, ix1, w1)
      | (Inr _, ix1, w1) \<Rightarrow>
          (let restored_count = saturating_add restored_count 1
           in rollback_loop P tot rest restored_count ix1
                (report_progress RollbackPhase restored_count tot w1)))"

definition rollback ::
  "('b, 'j) ports \<Rightarrow> plan_id \<Rightarrow> execution_failure \<Rightarrow> (usize \<times> schedule_step) list \<Rightarrow>
     indexed_executions \<Rightarrow> ('b, 'j) world \<Rightarrow> execution_report \<times> ('b, 'j) world" where
  "rollback P plan failure completed ix w =
     (let tot = length completed;
          (failures, ix1, w1) = rollback_loop P tot (rev completed) 0 ix
            (report_progress RollbackPhase 0 tot w)
      in if failures = []
         then case with_journal (\<lambda>j. terminal_op (port_journal P) j RolledBack) w1 of
                (Inr _, w2) \<Rightarrow>
                  (make_report plan (Exec_RolledBack failure) ix1,
                   report_progress TerminalPhase tot tot w2)
              | (Inl e, w2) \<Rightarrow>
                  (make_report plan (Exec_RecoveryRequired failure [Undo_Journal tot e]) ix1, w2)
         else (make_report plan (Exec_RecoveryRequired failure failures) ix1, w1))"

section \<open>Forward execution\<close>

text \<open>A report that ends the run, and the rollback that ends it.\<close>

definition stop_required ::
  "plan_id \<Rightarrow> execution_failure \<Rightarrow> rollback_failure list \<Rightarrow> indexed_executions \<Rightarrow> ('b, 'j) world \<Rightarrow>
     (execution_report + 'a) \<times> ('b, 'j) world" where
  "stop_required plan failure failures ix w =
     (Inl (make_report plan (Exec_RecoveryRequired failure failures) ix), w)"

definition stop_rollback ::
  "('b, 'j) ports \<Rightarrow> plan_id \<Rightarrow> execution_failure \<Rightarrow> (usize \<times> schedule_step) list \<Rightarrow>
     indexed_executions \<Rightarrow> ('b, 'j) world \<Rightarrow> (execution_report + 'a) \<times> ('b, 'j) world" where
  "stop_rollback P plan failure completed ix w =
     (case rollback P plan failure completed ix w of (r, w1) \<Rightarrow> (Inl r, w1))"

text \<open>The part of a forward step after its prepared record: the move and its outcome.\<close>

definition apply_forward ::
  "('b, 'j) ports \<Rightarrow> plan_id \<Rightarrow> usize \<Rightarrow> schedule_step \<Rightarrow> (usize \<times> schedule_step) list \<Rightarrow>
     indexed_executions \<Rightarrow> ('b, 'j) world \<Rightarrow>
     (execution_report + (usize \<times> schedule_step) list \<times> indexed_executions) \<times> ('b, 'j) world" where
  "apply_forward P plan i st completed ix w =
     (let jops = port_journal P in
      case rename_world (port_backend P) (forward_operation st) w of
        (Inl e, w1) \<Rightarrow>
          if backend_certainty e = MayHaveApplied
          then stop_required plan (Fail_Backend i e) [] (set_state (sched_entry st) Indeterminate ix) w1
          else (case with_journal (\<lambda>j. not_applied_op jops j i Forward) w1 of
                  (Inl je, w2) \<Rightarrow> stop_required plan (Fail_Backend i e) [Undo_Journal i je] ix w2
                | (Inr _, w2) \<Rightarrow> stop_rollback P plan (Fail_Backend i e) completed ix w2)
      | (Inr _, w1) \<Rightarrow>
          (let ix1 = set_state (sched_entry st) (forward_state (sched_phase st)) ix in
           case with_journal (\<lambda>j. completed_op jops j i Forward) w1 of
             (Inl e, w2) \<Rightarrow>
               stop_required plan (Fail_Journal i e) [] (set_state (sched_entry st) Indeterminate ix1) w2
           | (Inr _, w2) \<Rightarrow> (Inr (completed @ [(i, st)], ix1), w2)))"

text \<open>
  One forward step with its index. It continues with the completed list and results, or it stops
  with the final report.
\<close>

definition forward_step ::
  "('b, 'j) ports \<Rightarrow> plan_id \<Rightarrow> usize \<Rightarrow> schedule_step \<Rightarrow> (usize \<times> schedule_step) list \<Rightarrow>
     indexed_executions \<Rightarrow> ('b, 'j) world \<Rightarrow>
     (execution_report + (usize \<times> schedule_step) list \<times> indexed_executions) \<times> ('b, 'j) world" where
  "forward_step P plan i st completed ix w =
     (case poll_world (port_control P) w of
        (True, w1) \<Rightarrow> stop_rollback P plan (Fail_Cancelled i) completed ix w1
      | (False, w1) \<Rightarrow>
         (case with_journal (\<lambda>j. prepared_op (port_journal P) j i Forward) w1 of
            (Inl e, w2) \<Rightarrow>
              if journal_certainty e = MayHaveAppended
              then stop_required plan (Fail_Journal i e) [] ix w2
              else stop_rollback P plan (Fail_Journal i e) completed ix w2
          | (Inr _, w2) \<Rightarrow> apply_forward P plan i st completed ix w2))"

text \<open>After the last step: the last cancellation check and the commit.\<close>

definition finalize ::
  "('b, 'j) ports \<Rightarrow> plan_id \<Rightarrow> usize \<Rightarrow> (usize \<times> schedule_step) list \<Rightarrow> indexed_executions \<Rightarrow>
     ('b, 'j) world \<Rightarrow> execution_report \<times> ('b, 'j) world" where
  "finalize P plan tot completed ix w =
     (case poll_world (port_control P) (report_progress FinalizingPhase tot tot w) of
        (True, w1) \<Rightarrow> rollback P plan (Fail_Cancelled tot) completed ix w1
      | (False, w1) \<Rightarrow>
         (case with_journal (\<lambda>j. terminal_op (port_journal P) j Committed) w1 of
            (Inl e, w2) \<Rightarrow>
              (make_report plan (Exec_RecoveryRequired (Fail_Journal tot e) []) ix, w2)
          | (Inr _, w2) \<Rightarrow>
              (make_report plan Exec_Completed ix, report_progress TerminalPhase tot tot w2)))"

fun forward_loop ::
  "('b, 'j) ports \<Rightarrow> plan_id \<Rightarrow> usize \<Rightarrow> usize \<Rightarrow> schedule_step list \<Rightarrow>
     (usize \<times> schedule_step) list \<Rightarrow> indexed_executions \<Rightarrow> ('b, 'j) world \<Rightarrow>
     execution_report \<times> ('b, 'j) world" where
  "forward_loop P plan tot i [] completed ix w = finalize P plan tot completed ix w"
| "forward_loop P plan tot i (st # steps) completed ix w =
     (case forward_step P plan i st completed ix w of
        (Inl r, w1) \<Rightarrow> (r, w1)
      | (Inr (completed1, ix1), w1) \<Rightarrow>
          forward_loop P plan tot (i + 1) steps completed1 ix1
            (report_progress ForwardPhase (length completed1) tot w1))"

section \<open>The whole execution\<close>

fun build_manifest :: "execution_control \<Rightarrow> nat \<Rightarrow> schedule_step list \<Rightarrow> execute_error + journal_step list \<times> nat" where
  "build_manifest ctl n [] = Inr ([], n)"
| "build_manifest ctl n (st # steps) =
     and_then (poll ctl n) (\<lambda>n.
     and_then (build_manifest ctl n steps) (\<lambda>(manifest, n). Inr (journal_step_of st # manifest, n)))"

definition capacity_result :: "journal_capacity_error + 'a \<Rightarrow> execute_error + 'a" where
  "capacity_result r = (case r of
     Inl e \<Rightarrow> Inl \<lparr>error_entry = None, error_kind = Exec_JournalCapacity e\<rparr> | Inr x \<Rightarrow> Inr x)"

text \<open>Everything before the transaction, on a backend state that only the schedule changes.\<close>

definition prepare_checks ::
  "('b, 'j) ports \<Rightarrow> rename_plan \<Rightarrow> indexed_executions \<Rightarrow> schedule_step list \<Rightarrow> 'b \<Rightarrow> nat \<Rightarrow>
     execute_error + journal_step list \<times> nat" where
  "prepare_checks P plan ix steps b n =
     (let ctl = port_control P in
      and_then (validate_schedule ix steps) (\<lambda>_.
      and_then (build_manifest ctl n steps) (\<lambda>(manifest, n).
      and_then (capacity_result (journal_requirements manifest)) (\<lambda>_.
      and_then (freeze (port_backend P) ctl b (plan_entries plan) steps ix n) (\<lambda>n.
      and_then (poll ctl n) (\<lambda>n. Inr (manifest, n)))))))"

definition begin_and_run ::
  "('b, 'j) ports \<Rightarrow> rename_plan \<Rightarrow> schedule_step list \<Rightarrow> journal_step list \<Rightarrow> indexed_executions \<Rightarrow>
     ('b, 'j) world \<Rightarrow> (execute_error + execution_report) \<times> ('b, 'j) world" where
  "begin_and_run P plan steps manifest ix w =
     (if steps = [] then (Inr (make_report (plan_id_of plan) Exec_Completed ix), w)
      else if \<not> begin_transaction (port_control P) then (Inl cancelled_before_begin, w)
      else case with_journal (\<lambda>j. begin_op (port_journal P) j (plan_id_of plan) manifest) w of
        (Inl e, w1) \<Rightarrow>
          if journal_certainty e = MayHaveAppended
          then (Inr (make_report (plan_id_of plan)
                  (Exec_RecoveryRequired (Fail_Journal 0 e) []) ix), w1)
          else (Inl \<lparr>error_entry = None, error_kind = Exec_Journal e\<rparr>, w1)
      | (Inr _, w1) \<Rightarrow>
          (case forward_loop P (plan_id_of plan) (length steps) 0 steps [] ix w1 of
             (r, w2) \<Rightarrow> (Inr r, w2)))"

definition execute_with_control ::
  "('b, 'j) ports \<Rightarrow> rename_plan \<Rightarrow> ('b, 'j) world \<Rightarrow> (execute_error + execution_report) \<times> ('b, 'j) world" where
  "execute_with_control P plan w =
     (let ctl = port_control P in
      case poll ctl (w_polls w) of
        Inl e \<Rightarrow> (Inl e, w)
      | Inr n \<Rightarrow>
     (case from_plan (plan_entries plan) of
        Inl e \<Rightarrow> (Inl e, w\<lparr>w_polls := n\<rparr>)
      | Inr ix \<Rightarrow>
     (case build_schedule_cancellable (\<lambda>k. cancellation_requested ctl (n + k)) (port_backend P) plan
             (w_backend w) of
        (Inl e, b) \<Rightarrow> (Inl (schedule_error_to_execute e), w\<lparr>w_backend := b, w_polls := n\<rparr>)
      | (Inr (steps, polls), b) \<Rightarrow>
     (case prepare_checks P plan ix steps b (n + polls) of
        Inl e \<Rightarrow> (Inl e, w\<lparr>w_backend := b, w_polls := n + polls\<rparr>)
      | Inr (manifest, n1) \<Rightarrow>
          begin_and_run P plan steps manifest ix
            (report_progress ReadyPhase 0 (length steps)
              (w\<lparr>w_backend := b, w_polls := n1\<rparr>))))))"

text \<open>\<open>execute\<close>: the control that never cancels.\<close>

definition noop_control :: execution_control where
  "noop_control = \<lparr>cancellation_requested = (\<lambda>_. False), begin_transaction = True\<rparr>"

definition execute :: "('b, 'j) ports \<Rightarrow> rename_plan \<Rightarrow> ('b, 'j) world \<Rightarrow>
    (execute_error + execution_report) \<times> ('b, 'j) world" where
  "execute P = execute_with_control (P\<lparr>port_control := noop_control\<rparr>)"

text \<open>\<open>preflight_plan_cancellable\<close>: the same schedule and manifest, without a transaction.\<close>

definition preflight_plan_cancellable ::
  "execution_control \<Rightarrow> 'b backend_ops \<Rightarrow> rename_plan \<Rightarrow> 'b \<Rightarrow>
     (execute_error + journal_requirements_record) \<times> 'b" where
  "preflight_plan_cancellable ctl ops plan b =
     (case build_schedule_cancellable (cancellation_requested ctl) ops plan b of
        (Inl e, b1) \<Rightarrow> (Inl (schedule_error_to_execute e), b1)
      | (Inr (steps, n), b1) \<Rightarrow>
          (and_then (build_manifest ctl n steps) (\<lambda>(manifest, n).
           and_then (poll ctl n) (\<lambda>n.
           and_then (capacity_result (journal_requirements manifest)) (\<lambda>req.
           and_then (poll ctl n) (\<lambda>_. Inr req)))), b1))"

end
