(* ===== verification/Executor_Correct.thy ===== *)
theory Executor_Correct
  imports Rename_Executor Schedule_Correct Memory_Backend
begin

text \<open>
  Correctness of the executor over any journal and backend that keep their contracts. The
  invariant ties the journal to the filesystem: the records are a run of the protocol, and the
  occupancy is the one its phase stands for. An operation that fails without certainty ends the
  run, so the final states are also the states a crash can leave behind.
\<close>

section \<open>What a phase says about the filesystem\<close>

fun phase_holds :: "'k move list \<Rightarrow> 'k occupancy \<Rightarrow> phase \<Rightarrow> 'k occupancy \<Rightarrow> bool" where
  "phase_holds mvs m0 (Running i) m \<longleftrightarrow> apply_moves (take i mvs) m0 = Some m"
| "phase_holds mvs m0 (ForwardPending i) m \<longleftrightarrow>
     apply_moves (take i mvs) m0 = Some m \<or> apply_moves (take (Suc i) mvs) m0 = Some m"
| "phase_holds mvs m0 (Undoing i r) m \<longleftrightarrow> apply_moves (take r mvs) m0 = Some m"
| "phase_holds mvs m0 (UndoPending i r) m \<longleftrightarrow>
     apply_moves (take r mvs) m0 = Some m \<or> apply_moves (take (r - 1) mvs) m0 = Some m"
| "phase_holds mvs m0 (Closed Committed) m \<longleftrightarrow> apply_moves mvs m0 = Some m"
| "phase_holds mvs m0 (Closed RolledBack) m \<longleftrightarrow> m = m0"

definition transaction_at ::
  "plan_id \<Rightarrow> journal_step list \<Rightarrow> 'k move list \<Rightarrow> 'k occupancy \<Rightarrow> journal_record list \<Rightarrow>
     'k occupancy \<Rightarrow> phase \<Rightarrow> bool" where
  "transaction_at p manifest mvs m0 rs m ph \<longleftrightarrow>
     (\<exists>rest. rs = Intent p manifest # rest \<and> run (length manifest) (Running 0) rest ph) \<and>
     phase_holds mvs m0 ph m"

lemma transaction_snoc:
  "transaction_at p manifest mvs m0 rs m ph \<Longrightarrow> protocol (length manifest) ph r ph' \<Longrightarrow>
     phase_holds mvs m0 ph' m \<Longrightarrow> transaction_at p manifest mvs m0 (rs @ [r]) m ph'"
  by (auto simp: transaction_at_def run_snoc)

lemma transaction_append:
  assumes "transaction_at p manifest mvs m0 rs m ph" and "appended_record r rs res rs'"
    and "protocol (length manifest) ph r ph'" and "phase_holds mvs m0 ph' m"
  shows "case res of
      Inr _ \<Rightarrow> transaction_at p manifest mvs m0 rs' m ph'
    | Inl _ \<Rightarrow> \<exists>ph''. transaction_at p manifest mvs m0 rs' m ph''"
  using assms transaction_snoc [OF assms(1,3,4)] by (cases res) auto

text \<open>A certain failure keeps the phase.\<close>

lemma transaction_kept:
  assumes "transaction_at p manifest mvs m0 rs m ph" and "appended_record r rs (Inl e) rs'"
    and "journal_certainty e \<noteq> MayHaveAppended"
  shows "transaction_at p manifest mvs m0 rs' m ph"
  using assms by auto

section \<open>The executor over ports that keep their contracts\<close>

locale transaction_ports =
  journal_store jops recs + rename_backend bops loc occ
  for jops :: "'j journal_ops" and recs :: "'j \<Rightarrow> journal_record list"
    and bops :: "'b backend_ops" and loc :: "legacy_text \<Rightarrow> 'k" and occ :: "'b \<Rightarrow> 'k occupancy"
begin

definition at_world ::
  "plan_id \<Rightarrow> schedule_step list \<Rightarrow> 'k occupancy \<Rightarrow> ('b, 'j) world \<Rightarrow> phase \<Rightarrow> bool" where
  "at_world p steps m0 w ph \<longleftrightarrow>
     transaction_at p (map journal_step_of steps) (map (step_move loc) steps) m0
       (recs (w_journal w)) (occ (w_backend w)) ph"

lemma at_world_fields [simp]:
  "at_world p steps m0 (report_progress x y z w) ph = at_world p steps m0 w ph"
  "at_world p steps m0 (w\<lparr>w_polls := n\<rparr>) ph = at_world p steps m0 w ph"
  by (simp_all add: at_world_def report_progress_def)

lemma at_world_holds:
  "at_world p steps m0 w ph \<Longrightarrow> phase_holds (map (step_move loc) steps) m0 ph (occ (w_backend w))"
  by (simp add: at_world_def transaction_at_def)

text \<open>An append in the world: the record's step of the protocol, if its phase holds.\<close>

lemma with_journal_step:
  assumes "at_world p steps m0 w ph" and "with_journal f w = (res, w')"
    and "\<And>j res' j'. f j = (res', j') \<Longrightarrow> appended_record r (recs j) res' (recs j')"
    and "protocol (length steps) ph r ph'"
    and "phase_holds (map (step_move loc) steps) m0 ph' (occ (w_backend w))"
  shows "w_backend w' = w_backend w \<and> (case res of
      Inr _ \<Rightarrow> at_world p steps m0 w' ph'
    | Inl e \<Rightarrow> (\<exists>ph''. at_world p steps m0 w' ph'') \<and>
        (journal_certainty e \<noteq> MayHaveAppended \<longrightarrow> at_world p steps m0 w' ph))"
proof -
  obtain res' j' where f: "f (w_journal w) = (res', j')" by (cases "f (w_journal w)")
  with assms(2) have w': "res = res'" "w' = w\<lparr>w_journal := j'\<rparr>" by (auto simp: with_journal_def)
  note app = assms(3) [OF f]
  have "protocol (length (map journal_step_of steps)) ph r ph'" using assms(4) by simp
  from transaction_append [OF assms(1) [unfolded at_world_def] app this assms(5)]
    transaction_kept [OF assms(1) [unfolded at_world_def]] app
  show ?thesis by (auto simp: w' at_world_def split: sum.splits)
qed

text \<open>A move in the world.\<close>

lemma rename_world_move:
  assumes "rename_world bops op w = (res, w')"
  shows "w_journal w' = w_journal w \<and>
    renamed (operation_move loc op) (occ (w_backend w)) res (occ (w_backend w'))"
  using assms rename_law by (auto simp: rename_world_def split: prod.splits)

lemma forward_move: "operation_move loc (forward_operation st) = step_move loc st"
  by (simp add: operation_move_def forward_operation_def with_authorization_def step_move_def)

lemma backward_move: "operation_move loc (rollback_operation st) = reverse_move (step_move loc st)"
  by (simp add: operation_move_def rollback_operation_def with_authorization_def step_move_def
      reverse_move_def)

text \<open>The phases a rollback runs through: \<open>r\<close> of \<open>m\<close> completed steps are still applied.\<close>

definition undoable :: "nat \<Rightarrow> nat \<Rightarrow> phase \<Rightarrow> bool" where
  "undoable m r ph \<longleftrightarrow> ph = Running m \<and> r = m \<or> ph = Undoing m r"

lemma undoable_holds:
  "undoable m r ph \<Longrightarrow> phase_holds mvs m0 ph x \<longleftrightarrow> apply_moves (take r mvs) m0 = Some x"
  by (auto simp: undoable_def)

lemma take_move: "i < length steps \<Longrightarrow>
    take (Suc i) (map (step_move loc) steps) = take i (map (step_move loc) steps) @ [step_move loc (steps ! i)]"
  by (simp add: take_Suc_conv_app_nth)

lemma rollback_step_at:
  assumes at: "at_world p steps m0 w ph" and u: "undoable m (Suc i) ph" and i: "i < length steps"
    and r: "rollback_step P i (steps ! i) ix w = (res, ix', w')"
    and P: "port_journal P = jops" "port_backend P = bops"
  shows "case res of
      Inr _ \<Rightarrow> at_world p steps m0 w' (Undoing m i)
    | Inl fails \<Rightarrow> fails \<noteq> [] \<and> (\<exists>ph'. at_world p steps m0 w' ph')"
proof -
  let ?mvs = "map (step_move loc) steps" and ?st = "steps ! i"
  let ?prep = "\<lambda>j. prepared_op jops j i Rollback"
  have pr: "protocol (length steps) ph (Prepared i Rollback) (UndoPending m (Suc i))"
    using u by (auto simp: undoable_def intro: protocol.turn protocol.undo)
  have here: "apply_moves (take (Suc i) ?mvs) m0 = Some (occ (w_backend w))"
    using at_world_holds [OF at] undoable_holds [OF u] by blast
  then obtain m1 where m1: "apply_moves (take i ?mvs) m0 = Some m1"
      "move_enabled (step_move loc ?st) m1" "occ (w_backend w) = move_result (step_move loc ?st) m1"
    unfolding take_move [OF i] apply_moves_snoc by blast
  obtain r1 w1 where s1: "with_journal ?prep w = (r1, w1)" by (cases "with_journal ?prep w")
  note p1 = with_journal_step [OF at s1 prepared_law pr] here
  show ?thesis
  proof (cases r1)
    case (Inl e)
    with r s1 p1 show ?thesis by (auto simp: rollback_step_def P Let_def)
  next
    case ok1: (Inr u1)
    with p1 have at1: "at_world p steps m0 w1 (UndoPending m (Suc i))" "w_backend w1 = w_backend w"
      by auto
    obtain r2 w2 where s2: "rename_world bops (rollback_operation ?st) w1 = (r2, w2)"
      by (cases "rename_world bops (rollback_operation ?st) w1")
    note mv = rename_world_move [OF s2, unfolded backward_move]
    have undo: "move_result (reverse_move (step_move loc ?st)) (occ (w_backend w1)) = m1"
      using undo_move [OF m1(2)] by (simp add: at1(2) m1(3))
    have at2: "at_world p steps m0 w2 (UndoPending m (Suc i))"
      using at1 mv here m1(1) undo
      by (cases r2) (auto simp: at_world_def transaction_at_def)
    show ?thesis
    proof (cases r2)
      case (Inl e)
      show ?thesis
      proof (cases "backend_certainty e = NotApplied_Certain")
        case True
        with Inl mv have same: "occ (w_backend w2) = occ (w_backend w1)" by auto
        obtain r3 w3 where s3: "with_journal (\<lambda>j. not_applied_op jops j i Rollback) w2 = (r3, w3)"
          by (cases "with_journal (\<lambda>j. not_applied_op jops j i Rollback) w2")
        have "phase_holds ?mvs m0 (Undoing m (Suc i)) (occ (w_backend w2))"
          using here same at1(2) by simp
        from with_journal_step [OF at2 s3 not_applied_law protocol.retry this]
        have "\<exists>ph'. at_world p steps m0 w3 ph'" by (auto split: sum.splits)
        with r s1 ok1 s2 Inl True s3 show ?thesis
          by (auto simp: rollback_step_def P Let_def split: sum.splits)
      next
        case False
        with r s1 ok1 s2 Inl at2 show ?thesis by (auto simp: rollback_step_def P Let_def)
      qed
    next
      case ok2: (Inr u2)
      obtain r3 w3 where s3: "with_journal (\<lambda>j. completed_op jops j i Rollback) w2 = (r3, w3)"
        by (cases "with_journal (\<lambda>j. completed_op jops j i Rollback) w2")
      have "phase_holds ?mvs m0 (Undoing m i) (occ (w_backend w2))"
        using mv ok2 undo m1(1) by simp
      from with_journal_step [OF at2 s3 completed_law protocol.undone this]
      show ?thesis using r s1 ok1 s2 ok2 s3
        by (auto simp: rollback_step_def P Let_def split: sum.splits)
    qed
  qed
qed

definition done_steps :: "schedule_step list \<Rightarrow> nat \<Rightarrow> (usize \<times> schedule_step) list" where
  "done_steps steps i = map (\<lambda>k. (k, steps ! k)) [0..<i]"

lemma done_steps_Suc: "done_steps steps (Suc i) = done_steps steps i @ [(i, steps ! i)]"
  by (simp add: done_steps_def)

lemma done_steps_0 [simp]: "done_steps steps 0 = []"
  by (simp add: done_steps_def)

lemma rollback_loop_at:
  assumes "at_world p steps m0 w ph" and "undoable m r ph" and "r \<le> length steps"
    and "rollback_loop P tot (rev (done_steps steps r)) c ix w = (fails, ix', w')"
    and P: "port_journal P = jops" "port_backend P = bops"
  shows "(\<exists>ph'. at_world p steps m0 w' ph') \<and>
    (fails = [] \<longrightarrow> (\<exists>ph'. at_world p steps m0 w' ph' \<and> undoable m 0 ph'))"
  using assms(1-4)
proof (induction r arbitrary: w ph c ix)
  case 0
  then show ?case by auto
next
  case (Suc i)
  obtain res ix1 w1 where s: "rollback_step P i (steps ! i) ix w = (res, ix1, w1)"
    by (cases "rollback_step P i (steps ! i) ix w") auto
  from Suc.prems(3) have i: "i < length steps" by simp
  note st = rollback_step_at [OF Suc.prems(1,2) i s P]
  show ?case
  proof (cases res)
    case (Inl f)
    with st s Suc.prems(4) show ?thesis by (auto simp: done_steps_Suc)
  next
    case (Inr u)
    let ?c = "saturating_add c 1"
    from st Inr have a: "at_world p steps m0 (report_progress RollbackPhase ?c tot w1) (Undoing m i)"
      by simp
    have b: "undoable m i (Undoing m i)" by (simp add: undoable_def)
    from s Inr Suc.prems(4) have c: "rollback_loop P tot (rev (done_steps steps i)) ?c ix1
         (report_progress RollbackPhase ?c tot w1) = (fails, ix', w')"
      by (simp add: done_steps_Suc Let_def)
    show ?thesis by (rule Suc.IH [OF a b _ c]) (use i in simp)
  qed
qed

text \<open>A report and the state it describes.\<close>

definition report_at ::
  "plan_id \<Rightarrow> schedule_step list \<Rightarrow> 'k occupancy \<Rightarrow> execution_report \<Rightarrow> ('b, 'j) world \<Rightarrow> bool" where
  "report_at p steps m0 r w \<longleftrightarrow> (\<exists>ph. at_world p steps m0 w ph) \<and>
     (case report_outcome r of
        Exec_Completed \<Rightarrow> at_world p steps m0 w (Closed Committed)
      | Exec_RolledBack _ \<Rightarrow> at_world p steps m0 w (Closed RolledBack)
      | Exec_RecoveryRequired _ _ \<Rightarrow> True)"

lemma report_at_required [simp]:
  "report_at p steps m0 (make_report q (Exec_RecoveryRequired f fs) ix) w \<longleftrightarrow>
     (\<exists>ph. at_world p steps m0 w ph)"
  by (simp add: report_at_def make_report_def)

lemma rollback_at:
  assumes at: "at_world p steps m0 w ph" and u: "undoable r r ph" and r: "r \<le> length steps"
    and rb: "rollback P p f (done_steps steps r) ix w = (rep, w')"
    and P: "port_journal P = jops" "port_backend P = bops"
  shows "report_at p steps m0 rep w'"
proof -
  let ?mvs = "map (step_move loc) steps" and ?tot = "length (done_steps steps r)"
  obtain fails ix1 w1 where lp: "rollback_loop P ?tot (rev (done_steps steps r)) 0 ix
      (report_progress RollbackPhase 0 ?tot w) = (fails, ix1, w1)"
    by (cases "rollback_loop P ?tot (rev (done_steps steps r)) 0 ix
      (report_progress RollbackPhase 0 ?tot w)") auto
  from at have "at_world p steps m0 (report_progress RollbackPhase 0 ?tot w) ph" by simp
  note loop = rollback_loop_at [OF this u r lp P]
  show ?thesis
  proof (cases "fails = []")
    case False
    with rb lp loop show ?thesis by (auto simp: rollback_def Let_def)
  next
    case True
    with loop obtain ph1 where at1: "at_world p steps m0 w1 ph1" and u1: "undoable r 0 ph1" by auto
    have m0: "occ (w_backend w1) = m0"
      using at_world_holds [OF at1] undoable_holds [OF u1, of ?mvs] by simp
    obtain res w2 where t: "with_journal (\<lambda>j. terminal_op jops j RolledBack) w1 = (res, w2)"
      by (cases "with_journal (\<lambda>j. terminal_op jops j RolledBack) w1")
    have "protocol (length steps) ph1 (Terminal RolledBack) (Closed RolledBack)"
      using u1 by (auto simp: undoable_def intro: protocol.abort protocol.restored)
    from with_journal_step [OF at1 t terminal_law this] m0 show ?thesis
      using rb lp True t
      by (auto simp: rollback_def Let_def P report_at_def make_report_def split: sum.splits)
  qed
qed

lemma stop_required_at:
  "stop_required p f fs ix w = (res, w') \<Longrightarrow> at_world p steps m0 w ph \<Longrightarrow>
     case res of Inl rep \<Rightarrow> report_at p steps m0 rep w' | Inr _ \<Rightarrow> False"
  by (auto simp: stop_required_def)

lemma stop_rollback_at:
  assumes "stop_rollback P p f (done_steps steps r) ix w = (res, w')"
    and "at_world p steps m0 w ph" and "undoable r r ph" and "r \<le> length steps"
    and "port_journal P = jops" "port_backend P = bops"
  shows "case res of Inl rep \<Rightarrow> report_at p steps m0 rep w' | Inr _ \<Rightarrow> False"
  using assms rollback_at by (auto simp: stop_rollback_def split: prod.splits)

text \<open>What a step leaves: a report of the state, or one more completed step.\<close>

definition step_at ::
  "plan_id \<Rightarrow> schedule_step list \<Rightarrow> 'k occupancy \<Rightarrow> nat \<Rightarrow>
     execution_report + (usize \<times> schedule_step) list \<times> indexed_executions \<Rightarrow> ('b, 'j) world \<Rightarrow> bool" where
  "step_at p steps m0 i res w \<longleftrightarrow>
     (case res of
        Inl rep \<Rightarrow> report_at p steps m0 rep w
      | Inr (completed, _) \<Rightarrow>
          completed = done_steps steps (Suc i) \<and> at_world p steps m0 w (Running (Suc i)))"

lemma step_at_stop:
  "(case res of Inl rep \<Rightarrow> report_at p steps m0 rep w | Inr _ \<Rightarrow> False) \<Longrightarrow> step_at p steps m0 i res w"
  by (auto simp: step_at_def split: sum.splits)

lemma apply_forward_at:
  assumes at: "at_world p steps m0 w (ForwardPending i)" and i: "i < length steps"
    and here: "apply_moves (take i (map (step_move loc) steps)) m0 = Some (occ (w_backend w))"
    and fs: "apply_forward P p i (steps ! i) (done_steps steps i) ix w = (res, w')"
    and P: "port_journal P = jops" "port_backend P = bops"
  shows "step_at p steps m0 i res w'"
proof -
  let ?mvs = "map (step_move loc) steps" and ?st = "steps ! i"
  obtain r1 w1 where s1: "rename_world bops (forward_operation ?st) w = (r1, w1)"
    by (cases "rename_world bops (forward_operation ?st) w")
  note mv = rename_world_move [OF s1, unfolded forward_move]
  have moved: "apply_moves (take (Suc i) ?mvs) m0 =
      Some (move_result (step_move loc ?st) (occ (w_backend w)))"
    if "move_enabled (step_move loc ?st) (occ (w_backend w))"
    using here that by (simp only: take_move [OF i] apply_moves_snoc) simp
  have at1: "at_world p steps m0 w1 (ForwardPending i)"
    using at mv here moved by (cases r1) (auto simp: at_world_def transaction_at_def)
  show ?thesis
  proof (cases r1)
    case (Inl e)
    show ?thesis
    proof (cases "backend_certainty e = MayHaveApplied")
      case True
      with fs s1 Inl have "stop_required p (Fail_Backend i e) []
          (set_state (sched_entry ?st) Indeterminate ix) w1 = (res, w')"
        by (simp add: apply_forward_def P)
      from step_at_stop [OF stop_required_at [OF this at1]] show ?thesis .
    next
      case False
      with Inl mv have same: "occ (w_backend w1) = occ (w_backend w)" by auto
      obtain r2 w2 where s2: "with_journal (\<lambda>j. not_applied_op jops j i Forward) w1 = (r2, w2)"
        by (cases "with_journal (\<lambda>j. not_applied_op jops j i Forward) w1")
      have "phase_holds ?mvs m0 (Undoing i i) (occ (w_backend w1))" using here same by simp
      note p2 = with_journal_step [OF at1 s2 not_applied_law protocol.skip this]
      from fs s1 Inl False s2 have "(case r2 of
          Inl je \<Rightarrow> stop_required p (Fail_Backend i e) [Undo_Journal i je] ix w2
        | Inr _ \<Rightarrow> stop_rollback P p (Fail_Backend i e) (done_steps steps i) ix w2) = (res, w')"
        by (simp add: apply_forward_def P split: sum.splits)
      note outcome = this
      have u: "undoable i i (Undoing i i)" and il: "i \<le> length steps"
        using i by (simp_all add: undoable_def)
      show ?thesis
      proof (cases r2)
        case (Inl je)
        with p2 obtain ph where ph: "at_world p steps m0 w2 ph" by auto
        from outcome Inl have "stop_required p (Fail_Backend i e) [Undo_Journal i je] ix w2 = (res, w')"
          by simp
        from step_at_stop [OF stop_required_at [OF this ph]] show ?thesis .
      next
        case (Inr v)
        with outcome have "stop_rollback P p (Fail_Backend i e) (done_steps steps i) ix w2 = (res, w')"
          by simp
        moreover from p2 Inr have "at_world p steps m0 w2 (Undoing i i)" by simp
        ultimately show ?thesis using step_at_stop [OF stop_rollback_at [OF _ _ u il P]] by blast
      qed
    qed
  next
    case (Inr u)
    obtain r2 w2 where s2: "with_journal (\<lambda>j. completed_op jops j i Forward) w1 = (r2, w2)"
      by (cases "with_journal (\<lambda>j. completed_op jops j i Forward) w1")
    have "phase_holds ?mvs m0 (Running (Suc i)) (occ (w_backend w1))" using mv Inr moved by simp
    from with_journal_step [OF at1 s2 completed_law protocol.complete this] show ?thesis
      using fs s1 Inr s2
      by (auto simp: apply_forward_def stop_required_def step_at_def P Let_def done_steps_Suc
          split: sum.splits)
  qed
qed

lemma forward_step_at:
  assumes at: "at_world p steps m0 w (Running i)" and i: "i < length steps"
    and fs: "forward_step P p i (steps ! i) (done_steps steps i) ix w = (res, w')"
    and P: "port_journal P = jops" "port_backend P = bops"
  shows "step_at p steps m0 i res w'"
proof -
  let ?w = "w\<lparr>w_polls := w_polls w + 1\<rparr>"
  have at0: "at_world p steps m0 ?w (Running i)" using at by simp
  have u: "undoable i i (Running i)" and il: "i \<le> length steps" using i by (simp_all add: undoable_def)
  have here: "apply_moves (take i (map (step_move loc) steps)) m0 = Some (occ (w_backend ?w))"
    using at_world_holds [OF at0] by simp
  show ?thesis
  proof (cases "cancellation_requested (port_control P) (w_polls w)")
    case True
    with fs have "stop_rollback P p (Fail_Cancelled i) (done_steps steps i) ix ?w = (res, w')"
      by (simp add: forward_step_def poll_world_def)
    from step_at_stop [OF stop_rollback_at [OF this at0 u il P]] show ?thesis .
  next
    case nc: False
    obtain r1 w1 where s1: "with_journal (\<lambda>j. prepared_op jops j i Forward) ?w = (r1, w1)"
      by (cases "with_journal (\<lambda>j. prepared_op jops j i Forward) ?w")
    note p1 = with_journal_step [OF at0 s1 prepared_law protocol.prepare [OF i]] here
    show ?thesis
    proof (cases r1)
      case (Inl e)
      with p1 obtain ph where ph: "at_world p steps m0 w1 ph" by auto
      show ?thesis
      proof (cases "journal_certainty e = MayHaveAppended")
        case True
        with fs nc s1 Inl have "stop_required p (Fail_Journal i e) [] ix w1 = (res, w')"
          by (simp add: forward_step_def poll_world_def P)
        from step_at_stop [OF stop_required_at [OF this ph]] show ?thesis .
      next
        case False
        with fs nc s1 Inl have "stop_rollback P p (Fail_Journal i e) (done_steps steps i) ix w1 = (res, w')"
          by (simp add: forward_step_def poll_world_def P)
        moreover from p1 Inl False have "at_world p steps m0 w1 (Running i)" by simp
        ultimately show ?thesis using step_at_stop [OF stop_rollback_at [OF _ _ u il P]] by blast
      qed
    next
      case (Inr u1)
      with p1 have "at_world p steps m0 w1 (ForwardPending i)" "w_backend w1 = w_backend w" by auto
      moreover from fs nc s1 Inr have
        "apply_forward P p i (steps ! i) (done_steps steps i) ix w1 = (res, w')"
        by (simp add: forward_step_def poll_world_def P)
      ultimately show ?thesis using apply_forward_at [OF _ i _ _ P] here by simp
    qed
  qed
qed

lemma finalize_at:
  assumes at: "at_world p steps m0 w (Running (length steps))"
    and fin: "finalize P p tot (done_steps steps (length steps)) ix w = (rep, w')"
    and P: "port_journal P = jops" "port_backend P = bops"
  shows "report_at p steps m0 rep w'"
proof -
  let ?n = "length steps"
  let ?w = "(report_progress FinalizingPhase tot tot w)\<lparr>w_polls := w_polls w + 1\<rparr>"
  have at0: "at_world p steps m0 ?w (Running ?n)" using at by simp
  have polls: "w_polls (report_progress FinalizingPhase tot tot w) = w_polls w"
    by (simp add: report_progress_def)
  show ?thesis
  proof (cases "cancellation_requested (port_control P) (w_polls w)")
    case True
    with fin have "rollback P p (Fail_Cancelled tot) (done_steps steps ?n) ix ?w = (rep, w')"
      by (simp add: finalize_def poll_world_def polls)
    then show ?thesis using rollback_at [OF at0 _ _ _ P] by (simp add: undoable_def)
  next
    case False
    obtain r1 w1 where s1: "with_journal (\<lambda>j. terminal_op jops j Committed) ?w = (r1, w1)"
      by (cases "with_journal (\<lambda>j. terminal_op jops j Committed) ?w")
    have "phase_holds (map (step_move loc) steps) m0 (Closed Committed) (occ (w_backend ?w))"
      using at_world_holds [OF at0] by simp
    from with_journal_step [OF at0 s1 terminal_law protocol.commit this] show ?thesis
      using fin False s1
      by (auto simp: finalize_def poll_world_def polls P report_at_def make_report_def
          split: sum.splits)
  qed
qed

lemma forward_loop_at:
  assumes "at_world p steps m0 w (Running i)" and "i + length rest = length steps"
    and "rest = drop i steps"
    and "forward_loop P p tot i rest (done_steps steps i) ix w = (rep, w')"
    and P: "port_journal P = jops" "port_backend P = bops"
  shows "report_at p steps m0 rep w'"
  using assms(1-4)
proof (induction rest arbitrary: i ix w)
  case Nil
  then show ?case using finalize_at [OF _ _ P] by simp
next
  case (Cons st rest)
  from Cons.prems(2,3) have i: "i < length steps" "st = steps ! i" "rest = drop (Suc i) steps"
    by (metis length_greater_0_conv list.simps(3) length_drop zero_less_diff)
      (metis Cons.prems(3) nth_via_drop, metis Cons.prems(3) list.sel(3) tl_drop drop_Suc)
  obtain res w1 where s: "forward_step P p i st (done_steps steps i) ix w = (res, w1)"
    by (cases "forward_step P p i st (done_steps steps i) ix w")
  note st = forward_step_at [OF Cons.prems(1) i(1) s [unfolded i(2)] P]
  show ?case
  proof (cases res)
    case (Inl r)
    with st s Cons.prems(4) show ?thesis by (simp add: step_at_def)
  next
    case (Inr ci)
    then obtain ix1 where res: "res = Inr (done_steps steps (Suc i), ix1)"
      and at1: "at_world p steps m0 w1 (Running (Suc i))"
      using st by (cases ci) (auto simp: step_at_def)
    let ?w = "report_progress ForwardPhase (length (done_steps steps (Suc i))) tot w1"
    have a: "at_world p steps m0 ?w (Running (Suc i))" using at1 by simp
    from s res Cons.prems(4) have
      c: "forward_loop P p tot (Suc i) rest (done_steps steps (Suc i)) ix1 ?w = (rep, w')" by simp
    show ?thesis by (rule Cons.IH [OF a _ i(3) c]) (use Cons.prems(2) in simp)
  qed
qed

lemma unique_temporary_path_occ:
  "unique_temporary_path cancel bops b p row reserved polls = (r, b') \<Longrightarrow> occ b' = occ b"
  by (auto simp: unique_temporary_path_def dest: nonce_law split: sum.splits prod.splits)

lemma loop_iteration_occ:
  "loop_iteration cancel bops plan preds s b = (r, b') \<Longrightarrow> occ b' = occ b"
  by (auto simp: loop_iteration_def cycle_iteration_def Let_def dest: unique_temporary_path_occ
      split: sum.splits prod.splits list.splits)

lemma schedule_loop_occ:
  "schedule_loop cancel bops plan preds s b = (r, b') \<Longrightarrow> occ b' = occ b"
proof (induction "length (ss_indices s)" arbitrary: s b rule: less_induct)
  case less
  obtain q b1 where it: "loop_iteration cancel bops plan preds s b = (q, b1)"
    by (cases "loop_iteration cancel bops plan preds s b")
  note o = loop_iteration_occ [OF it]
  show ?case
  proof (cases "ss_remaining s = 0")
    case True
    with less.prems show ?thesis by (simp add: schedule_loop.simps)
  next
    case False
    show ?thesis
    proof (cases q)
      case (Inl e)
      with False it o less.prems show ?thesis by (simp add: schedule_loop.simps [of _ _ _ _ s])
    next
      case (Inr s')
      with it have "length (ss_indices s') < length (ss_indices s)"
        by (auto dest: loop_iteration_shrinks)
      moreover from False it Inr less.prems have "schedule_loop cancel bops plan preds s' b1 = (r, b')"
        by (simp add: schedule_loop.simps [of _ _ _ _ s])
      ultimately show ?thesis using less.hyps o by simp
    qed
  qed
qed

lemma build_schedule_occ:
  "build_schedule_cancellable cancel bops plan b = (r, b') \<Longrightarrow> occ b' = occ b"
  by (auto simp: build_schedule_cancellable_def dest: schedule_loop_occ
      split: sum.splits prod.splits)

text \<open>
  The transaction of a run. Before it begins nothing has changed; afterwards the journal and the
  filesystem are in a phase of the protocol, which the outcome names.
\<close>

lemma begin_and_run_at:
  assumes run: "begin_and_run P plan steps (map journal_step_of steps) ix w = (res, w')"
    and P: "port_journal P = jops" "port_backend P = bops"
  shows "case res of
      Inl _ \<Rightarrow> occ (w_backend w') = occ (w_backend w) \<and> recs (w_journal w') = recs (w_journal w)
    | Inr rep \<Rightarrow> report_at (plan_id_of plan) steps (occ (w_backend w)) rep w' \<or>
        occ (w_backend w') = occ (w_backend w) \<and> recs (w_journal w') = recs (w_journal w) \<and>
        (report_outcome rep = Exec_Completed \<and> steps = [] \<or>
         (\<exists>f. report_outcome rep = Exec_RecoveryRequired f []))"
proof (cases "steps = [] \<or> \<not> begin_transaction (port_control P)")
  case True
  with run show ?thesis by (cases "steps = []") (auto simp: begin_and_run_def make_report_def)
next
  case False
  let ?p = "plan_id_of plan" and ?m = "map journal_step_of steps"
  obtain r1 j1 where b: "begin_op jops (w_journal w) ?p ?m = (r1, j1)"
    by (cases "begin_op jops (w_journal w) ?p ?m")
  then have s1: "with_journal (\<lambda>j. begin_op jops j ?p ?m) w = (r1, w\<lparr>w_journal := j1\<rparr>)"
    by (simp add: with_journal_def)
  note law = begin_law [OF b]
  let ?w1 = "w\<lparr>w_journal := j1\<rparr>"
  have started: "at_world ?p steps (occ (w_backend w)) ?w1 (Running 0)" if "recs j1 = [Intent ?p ?m]"
    using that by (auto simp: at_world_def transaction_at_def intro: run.stop)
  show ?thesis
  proof (cases r1)
    case (Inl e)
    show ?thesis
    proof (cases "recs j1 = recs (w_journal w)")
      case True
      with run False s1 Inl P show ?thesis
        by (auto simp: begin_and_run_def make_report_def split: if_splits)
    next
      case new: False
      with law Inl have "journal_certainty e = MayHaveAppended" "recs j1 = [Intent ?p ?m]" by auto
      with started run False s1 Inl P show ?thesis by (auto simp: begin_and_run_def)
    qed
  next
    case (Inr u)
    with law have "recs j1 = [Intent ?p ?m]" by auto
    note at0 = started [OF this]
    obtain rep w2 where lp: "forward_loop P ?p (length steps) 0 steps [] ix ?w1 = (rep, w2)"
      by (cases "forward_loop P ?p (length steps) 0 steps [] ix ?w1")
    from forward_loop_at [OF at0, of steps P "length steps" ix rep w2] lp P
    have "report_at ?p steps (occ (w_backend w)) rep w2" by simp
    with run False s1 Inr lp P show ?thesis by (auto simp: begin_and_run_def)
  qed
qed

lemma build_manifest_Inr:
  "build_manifest ctl n steps = Inr (manifest, n') \<Longrightarrow> manifest = map journal_step_of steps"
  by (induction steps arbitrary: n manifest n') (auto simp: and_then_Inr)

lemma execute_at:
  assumes ex: "execute_with_control P plan w = (res, w')"
    and P: "port_journal P = jops" "port_backend P = bops"
  shows "case res of
      Inl _ \<Rightarrow> occ (w_backend w') = occ (w_backend w) \<and> recs (w_journal w') = recs (w_journal w)
    | Inr rep \<Rightarrow> \<exists>cancel steps n b'.
        build_schedule_cancellable cancel bops plan (w_backend w) = (Inr (steps, n), b') \<and>
        (report_at (plan_id_of plan) steps (occ (w_backend w)) rep w' \<or>
         occ (w_backend w') = occ (w_backend w) \<and> recs (w_journal w') = recs (w_journal w) \<and>
         (report_outcome rep = Exec_Completed \<and> steps = [] \<or>
          (\<exists>f. report_outcome rep = Exec_RecoveryRequired f [])))"
proof -
  let ?ctl = "port_control P"
  show ?thesis
  proof (cases "poll ?ctl (w_polls w)")
    case (Inl e)
    with ex show ?thesis by (auto simp: execute_with_control_def)
  next
    case n: (Inr n)
    show ?thesis
    proof (cases "from_plan (plan_entries plan)")
      case (Inl e)
      with n ex show ?thesis by (auto simp: execute_with_control_def)
    next
      case ix: (Inr ix)
      let ?cancel = "\<lambda>k. cancellation_requested ?ctl (n + k)"
      obtain r b where bs: "build_schedule_cancellable ?cancel bops plan (w_backend w) = (r, b)"
        by (cases "build_schedule_cancellable ?cancel bops plan (w_backend w)")
      note o = build_schedule_occ [OF bs]
      show ?thesis
      proof (cases r)
        case (Inl e)
        with n ix bs ex o P show ?thesis by (auto simp: execute_with_control_def)
      next
        case r: (Inr sp)
        obtain steps polls where sp: "sp = (steps, polls)" by (cases sp)
        show ?thesis
        proof (cases "prepare_checks P plan ix steps b (n + polls)")
          case (Inl e)
          with n ix bs r sp ex o P show ?thesis by (auto simp: execute_with_control_def)
        next
          case (Inr mn)
          then obtain n1 where mn: "mn = (map journal_step_of steps, n1)"
            by (cases mn) (auto simp: prepare_checks_def and_then_Inr Let_def dest: build_manifest_Inr)
          let ?w = "report_progress ReadyPhase 0 (length steps) (w\<lparr>w_backend := b, w_polls := n1\<rparr>)"
          from n ix bs r sp Inr mn ex P have
            "begin_and_run P plan steps (map journal_step_of steps) ix ?w = (res, w')"
            by (simp add: execute_with_control_def)
          note run = this
          have ww: "w_backend ?w = b" "w_journal ?w = w_journal w" by (simp_all add: report_progress_def)
          note out = begin_and_run_at [OF run P, unfolded ww o]
          from bs r sp have b: "build_schedule_cancellable ?cancel bops plan (w_backend w) =
              (Inr (steps, polls), b)" by simp
          show ?thesis
          proof (cases res)
            case (Inl e)
            with out show ?thesis by simp
          next
            case (Inr rep)
            with out b show ?thesis by (simp only: sum.case) blast
          qed
        qed
      qed
    qed
  qed
qed

text \<open>
  The outcome of an execution, for a plan that is ready on the observed filesystem. \<open>settled\<close>
  is what a report promises: a completed plan renamed all rows at once, a rolled back one changed
  nothing, and one that needs recovery left the journal of a transaction whose phase describes
  the filesystem, or nothing at all.
\<close>

definition settled ::
  "rename_plan \<Rightarrow> ('b, 'j) world \<Rightarrow> execution_report \<Rightarrow> ('b, 'j) world \<Rightarrow> bool" where
  "settled plan w rep w' \<longleftrightarrow>
     (case report_outcome rep of
        Exec_Completed \<Rightarrow>
          occ (w_backend w') = renamed_occupancy loc plan (occ (w_backend w)) \<and>
          (recs (w_journal w) = [] \<longrightarrow> replay_journal (recs (w_journal w')) = Clean) \<and>
          (recs (w_journal w') = [] \<longrightarrow> occ (w_backend w') = occ (w_backend w))
      | Exec_RolledBack _ \<Rightarrow>
          occ (w_backend w') = occ (w_backend w) \<and> replay_journal (recs (w_journal w')) = Clean
      | Exec_RecoveryRequired _ _ \<Rightarrow>
          (\<exists>steps ph. at_world (plan_id_of plan) steps (occ (w_backend w)) w' ph \<and>
             apply_moves (map (step_move loc) steps) (occ (w_backend w)) =
               Some (renamed_occupancy loc plan (occ (w_backend w)))) \<or>
          occ (w_backend w') = occ (w_backend w) \<and> recs (w_journal w') = recs (w_journal w))"

lemma at_world_replay:
  "at_world p steps m0 w ph \<Longrightarrow> replay_journal (recs (w_journal w)) = classify p ph"
  by (auto simp: at_world_def transaction_at_def replay_run)

lemma at_world_started: "at_world p steps m0 w ph \<Longrightarrow> recs (w_journal w) \<noteq> []"
  by (auto simp: at_world_def transaction_at_def)

theorem execute_settles:
  assumes l: "located loc g K bops plan" and r: "plan_ready loc (occ (w_backend w)) plan"
    and ex: "execute_with_control P plan w = (res, w')"
    and P: "port_journal P = jops" "port_backend P = bops"
  shows "case res of
      Inl _ \<Rightarrow> occ (w_backend w') = occ (w_backend w) \<and> recs (w_journal w') = recs (w_journal w)
    | Inr rep \<Rightarrow> settled plan w rep w'"
proof (cases res)
  case (Inl e)
  with execute_at [OF ex P] show ?thesis by simp
next
  case (Inr rep)
  with execute_at [OF ex P] obtain cancel steps n b' where
    bs: "build_schedule_cancellable cancel bops plan (w_backend w) = (Inr (steps, n), b')" and
    out: "report_at (plan_id_of plan) steps (occ (w_backend w)) rep w' \<or>
       occ (w_backend w') = occ (w_backend w) \<and> recs (w_journal w') = recs (w_journal w) \<and>
       (report_outcome rep = Exec_Completed \<and> steps = [] \<or>
        (\<exists>f. report_outcome rep = Exec_RecoveryRequired f []))" by auto
  from schedule_simultaneous [OF l r bs] have
    all: "apply_moves (map (step_move loc) steps) (occ (w_backend w)) =
      Some (renamed_occupancy loc plan (occ (w_backend w)))" by simp
  have "settled plan w rep w'"
    using out
  proof
    assume at: "report_at (plan_id_of plan) steps (occ (w_backend w)) rep w'"
    show ?thesis
    proof (cases "report_outcome rep")
      case Exec_Completed
      with at have "at_world (plan_id_of plan) steps (occ (w_backend w)) w' (Closed Committed)"
        by (simp add: report_at_def)
      from at_world_replay [OF this] at_world_holds [OF this] at_world_started [OF this] all
        Exec_Completed show ?thesis by (simp add: settled_def)
    next
      case (Exec_RolledBack f)
      with at have "at_world (plan_id_of plan) steps (occ (w_backend w)) w' (Closed RolledBack)"
        by (simp add: report_at_def)
      from at_world_replay [OF this] at_world_holds [OF this] Exec_RolledBack show ?thesis
        by (simp add: settled_def)
    next
      case (Exec_RecoveryRequired f fs)
      with at all show ?thesis unfolding settled_def report_at_def by auto
    qed
  next
    assume same: "occ (w_backend w') = occ (w_backend w) \<and> recs (w_journal w') = recs (w_journal w) \<and>
       (report_outcome rep = Exec_Completed \<and> steps = [] \<or>
        (\<exists>f. report_outcome rep = Exec_RecoveryRequired f []))"
    with all show ?thesis by (auto simp: settled_def replay_journal_def)
  qed
  with Inr show ?thesis by simp
qed

end

interpretation mem: transaction_ports memory_journal_ops mj_records memory_backend_ops
  mb_path_key mb_occupancy
  by unfold_locales

section \<open>The cancellation token\<close>

text \<open>
  Cancellation and begin exclude each other: of all commits only the first can succeed, and it
  does exactly when no request came before it.
\<close>

lemma token_request_nonzero [simp]: "token_request s \<noteq> 0"
proof -
  have "bit (token_request s) 0" by (simp add: token_request_def CANCEL_REQUESTED_def bit_or_iff bit_1_iff)
  then show ?thesis by (metis bit_0_eq bot_apply bot_bool_def zero_neq_one)
qed

lemma token_requested [simp]: "token_is_requested (token_request s)"
proof -
  have "bit (token_request s AND CANCEL_REQUESTED) 0"
    by (simp add: token_request_def CANCEL_REQUESTED_def bit_simps)
  then show ?thesis unfolding token_is_requested_def by (metis bit_0_eq bot_apply bot_bool_def)
qed

lemma run_token_used: "s \<noteq> 0 \<Longrightarrow> True \<notin> set (fst (run_token s ops))"
proof (induction ops arbitrary: s)
  case (Cons op ops)
  show ?case
  proof (cases op)
    case Request
    then show ?thesis using Cons.IH [OF token_request_nonzero] by simp
  next
    case Commit
    with Cons show ?thesis by (simp add: commit_journal_begin_def split: prod.splits) (metis fst_conv)
  qed
qed simp

lemma begin_wins_iff:
  "True \<in> set (fst (run_token token_new ops)) \<longleftrightarrow> (\<exists>rest. ops = Commit # rest)"
proof (cases ops)
  case (Cons op rest)
  show ?thesis
  proof (cases op)
    case Request
    with Cons run_token_used [OF token_request_nonzero, of token_new rest] show ?thesis by simp
  next
    case Commit
    with Cons show ?thesis
      by (simp add: token_new_def commit_journal_begin_def JOURNAL_BEGIN_COMMITTED_def
          split: prod.splits)
  qed
qed simp

end
