(* ===== verification/Recovery_Correct.thy ===== *)
theory Recovery_Correct
  imports Rename_Recovery Executor_Correct
begin

text \<open>
  Recovery restores what the executor left behind. Every state the executor can end in, and so
  every state a crash can leave, has a journal whose phase describes the filesystem
  (\<open>transaction_at\<close>). From such a state recovery decides the open move from what it observes,
  undoes the applied steps in reverse order and ends with the filesystem of before the
  transaction; when an operation fails, the state it leaves is again recoverable.
\<close>

section \<open>The moves of a manifest\<close>

definition manifest_move :: "(legacy_text \<Rightarrow> 'k) \<Rightarrow> journal_step \<Rightarrow> 'k move" where
  "manifest_move loc st = (loc (step_source st), loc (step_destination st), step_expected_source st)"

lemma manifest_move_of [simp]: "manifest_move loc (journal_step_of st) = step_move loc st"
  by (simp add: manifest_move_def step_move_def journal_step_of_def journal_step_new_def
      with_move_authorization_def)

lemma recovery_operation_move:
  "operation_move loc (recovery_operation st False) = manifest_move loc st"
  "operation_move loc (recovery_operation st True) = reverse_move (manifest_move loc st)"
  by (auto simp: recovery_operation_def operation_move_def manifest_move_def reverse_move_def
      with_authorization_def with_legacy_same_parent_authorization_def split: option.splits)

section \<open>The scan of the records\<close>

text \<open>What the first pass knows in each phase.\<close>

fun scanned :: "phase \<Rightarrow> scan_state \<Rightarrow> bool" where
  "scanned (Running m) s \<longleftrightarrow> scan_forward s = [0..<m] \<and> scan_rollback s = [] \<and> scan_prepared s = None"
| "scanned (ForwardPending m) s \<longleftrightarrow>
     scan_forward s = [0..<m] \<and> scan_rollback s = [] \<and> scan_prepared s = Some (m, Forward)"
| "scanned (Undoing m r) s \<longleftrightarrow>
     scan_forward s = [0..<m] \<and> scan_rollback s = [r..<m] \<and> scan_prepared s = None"
| "scanned (UndoPending m r) s \<longleftrightarrow>
     scan_forward s = [0..<m] \<and> scan_rollback s = [r..<m] \<and> scan_prepared s = Some (r - 1, Rollback)"
| "scanned (Closed t) s \<longleftrightarrow> True"

lemma scan_protocol:
  "protocol n ph r ph' \<Longrightarrow> phase_ok n ph \<Longrightarrow> scanned ph s \<Longrightarrow> scanned ph' (scan_record r s)"
proof (induction rule: protocol.induct)
  case (undone m r)
  then show ?case using insort_down [of "Suc r" m] by simp
qed (simp_all add: insort_upto)

lemma scan_run:
  "run n ph rs ph' \<Longrightarrow> phase_ok n ph \<Longrightarrow> scanned ph s \<Longrightarrow> scanned ph' (fold scan_record rs s)"
  by (induction arbitrary: s rule: run.induct) (auto dest: protocol_ok scan_protocol)

lemma scan_records_run:
  assumes "run n (Running 0) rs ph"
  shows "scanned ph (scan_records rs)"
  using scan_run [OF assms, of "\<lparr>scan_forward = [], scan_rollback = [], scan_prepared = None\<rparr>"]
  by (simp add: scan_records_def)

lemma filter_undone: "r \<le> m \<Longrightarrow> filter (\<lambda>i. i \<notin> set [r..<m]) [0..<m] = [0..<r]"
proof -
  assume "r \<le> m"
  then have "[0..<m] = [0..<r] @ [r..<m]" by (metis le0 le_add_diff_inverse upt_add_eq_append)
  then show ?thesis by (simp add: filter_id_conv filter_empty_conv)
qed

lemma remaining_undone:
  "r \<le> m \<Longrightarrow> tr_forward t = [0..<m] \<Longrightarrow> tr_rollback t = [r..<m] \<Longrightarrow>
     remaining_steps t = rev [0..<r]"
  by (simp add: remaining_steps_def filter_undone del: set_upt)

section \<open>Endpoints\<close>

lemma apply_step_Inr:
  assumes "apply_step m st ops b d = Inr m'"
  shows "\<exists>k. endpoint_key ops b (if d then step_destination st else step_source st)
        (if d then step_destination_parent st else step_source_parent st) = Inr k \<and>
      fmlookup m k = Some (Some (step_expected_source st)) \<and> fmlookup m' k = Some None"
  using assms by (cases d) (auto simp: apply_step_def and_then_Inr split: if_splits)

text \<open>A recovery of an open transaction always has something to report.\<close>

lemma recover_step_required: "recover_step P p steps i w = (Inl out, w') \<Longrightarrow> out \<noteq> NotRequired"
  by (auto simp: recover_step_def split: if_splits sum.splits prod.splits)

lemma recover_loop_required: "recover_loop P p steps stps w = (Inl out, w') \<Longrightarrow> out \<noteq> NotRequired"
  by (induction stps arbitrary: w)
    (auto split: sum.splits prod.splits dest: recover_step_required)

lemma recover_transitions_required:
  "recover_transitions P p steps t w = (out, w') \<Longrightarrow> out \<noteq> NotRequired"
  by (auto simp: recover_transitions_def Let_def split: sum.splits prod.splits
      dest: recover_loop_required)

lemma recover_intent_required:
  "recover_intent P p steps records w = (out, w') \<Longrightarrow> out \<noteq> NotRequired"
  by (auto simp: recover_intent_def split: if_splits sum.splits prod.splits option.splits
      dest: recover_transitions_required)

locale recovery_world =
  authorized_journal aops recs + rename_backend bops loc occ
  for aops :: "'j authorized_ops" and recs :: "'j \<Rightarrow> journal_record list"
    and bops :: "'b backend_ops" and loc :: "legacy_text \<Rightarrow> 'k" and occ :: "'b \<Rightarrow> 'k occupancy"
begin

lemma observe_endpoint_Inr:
  assumes "observe_endpoint bops b path parent e kind seen = Inr seen'"
  shows "\<exists>key. endpoint_key bops b path parent = Inr key \<and>
    seen' = fmupd key (occ b (loc path)) seen \<and>
    (\<forall>v. fmlookup seen key = Some v \<longrightarrow> v = occ b (loc path))"
proof -
  from assms obtain snap where s: "observe_op bops b path = Inr snap"
    by (cases "observe_op bops b path") (auto simp: observe_endpoint_def)
  with observe_law [OF s] assms show ?thesis
    by (auto simp: observe_endpoint_def and_then_Inr Let_def split: if_splits option.splits)
qed

lemma observe_endpoint_keeps:
  "observe_endpoint bops b path parent e kind seen = Inr seen' \<Longrightarrow>
     fmlookup seen k = Some v \<Longrightarrow> fmlookup seen' k = Some v"
  by (auto dest!: observe_endpoint_Inr)

lemma observe_loop_keeps:
  "observe_loop bops b steps seen = Inr seen' \<Longrightarrow> fmlookup seen k = Some v \<Longrightarrow>
     fmlookup seen' k = Some v"
  by (induction steps arbitrary: seen) (auto simp: and_then_Inr dest!: observe_endpoint_keeps)

text \<open>The observed map tells the truth about every endpoint of the manifest.\<close>

lemma observe_loop_truth:
  assumes "observe_loop bops b steps seen = Inr seen'" and "st \<in> set steps"
  shows "(\<forall>k. endpoint_key bops b (step_source st) (step_source_parent st) = Inr k \<longrightarrow>
        fmlookup seen' k = Some (occ b (loc (step_source st)))) \<and>
     (\<forall>k. endpoint_key bops b (step_destination st) (step_destination_parent st) = Inr k \<longrightarrow>
        fmlookup seen' k = Some (occ b (loc (step_destination st))))"
  using assms
proof (induction steps arbitrary: seen)
  case (Cons s steps)
  from Cons.prems(1) obtain s1 s2 where o: "observe_endpoint bops b (step_source s) (step_source_parent s)
      (step_expected_source s) (step_kind s) seen = Inr s1"
    "observe_endpoint bops b (step_destination s) (step_destination_parent s)
      (step_expected_source s) (step_kind s) s1 = Inr s2"
    "observe_loop bops b steps s2 = Inr seen'" by (auto simp: and_then_Inr)
  show ?case
  proof (cases "st \<in> set steps")
    case True
    with Cons.IH o(3) show ?thesis by blast
  next
    case False
    with Cons.prems(2) have "st = s" by simp
    with observe_endpoint_Inr [OF o(1)] observe_endpoint_Inr [OF o(2)]
      observe_endpoint_keeps [OF o(2)] observe_loop_keeps [OF o(3)]
    show ?thesis by auto
  qed
qed simp

text \<open>The decision about the open move, read off the entry's location.\<close>

lemma reconcile_prepared_Some:
  assumes r: "reconcile_prepared steps bops b expected observed (Some (i, d)) = Inr res"
    and o: "observe_all steps bops b = Inr observed" and i: "i < length steps"
  shows "\<exists>applied. res = Some \<lparr>prep_step = i, prep_direction = d, prep_applied = applied\<rparr> \<and>
    occ b (loc (if d = Rollback then step_destination (steps ! i) else step_source (steps ! i))) =
      (if applied then None else Some (step_expected_source (steps ! i)))"
proof -
  let ?st = "steps ! i"
  from r obtain candidate where c: "apply_step expected ?st bops b (d = Rollback) = Inr candidate"
    by (auto simp: reconcile_prepared_def and_then_Inr)
  from apply_step_Inr [OF c] obtain k where
    k: "endpoint_key bops b (if d = Rollback then step_destination ?st else step_source ?st)
        (if d = Rollback then step_destination_parent ?st else step_source_parent ?st) = Inr k"
      "fmlookup expected k = Some (Some (step_expected_source ?st))" "fmlookup candidate k = Some None"
    by blast
  let ?path = "if d = Rollback then step_destination ?st else step_source ?st"
  have "?st \<in> set steps" using i by simp
  from observe_loop_truth [OF o [unfolded observe_all_def] this] k(1)
  have seen: "fmlookup observed k = Some (occ b (loc ?path))" by (auto split: if_splits)
  show ?thesis
  proof (cases "expected = observed")
    case True
    with k have "candidate \<noteq> observed" by auto
    with r c True have "res = Some \<lparr>prep_step = i, prep_direction = d, prep_applied = False\<rparr>"
      by (simp add: reconcile_prepared_def)
    with True k(2) seen show ?thesis by (intro exI [of _ False]) simp
  next
    case False
    with r c have "candidate = observed"
        "res = Some \<lparr>prep_step = i, prep_direction = d, prep_applied = True\<rparr>"
      by (auto simp: reconcile_prepared_def split: bool.splits)
    with k(3) seen show ?thesis by (intro exI [of _ True]) simp
  qed
qed

text \<open>The state of a recovery: the phase of the journal describes the filesystem.\<close>

definition recovering ::
  "plan_id \<Rightarrow> journal_step list \<Rightarrow> 'k occupancy \<Rightarrow> 'j \<Rightarrow> 'b \<Rightarrow> phase \<Rightarrow> bool" where
  "recovering p steps m0 j b ph \<longleftrightarrow>
     transaction_at p steps (map (manifest_move loc) steps) m0 (recs j) (occ b) ph"

lemma recovering_holds:
  "recovering p steps m0 j b ph \<Longrightarrow> phase_holds (map (manifest_move loc) steps) m0 ph (occ b)"
  by (simp add: recovering_def transaction_at_def)

lemma recovering_step:
  assumes "recovering p steps m0 j b ph" and "appended_record r (recs j) res (recs j')"
    and "protocol (length steps) ph r ph'"
    and "phase_holds (map (manifest_move loc) steps) m0 ph' (occ b)"
  shows "case res of
      Inr _ \<Rightarrow> recovering p steps m0 j' b ph'
    | Inl _ \<Rightarrow> \<exists>ph''. recovering p steps m0 j' b ph''"
  using transaction_append [OF assms(1) [unfolded recovering_def] assms(2,3,4)]
  by (cases res) (auto simp: recovering_def)

lemma undo_take:
  assumes "i < length steps" and "apply_moves (take (Suc i) (map f steps)) m0 = Some m"
  shows "\<exists>m1. apply_moves (take i (map f steps)) m0 = Some m1 \<and> move_enabled (f (steps ! i)) m1 \<and>
    m = move_result (f (steps ! i)) m1"
  using assms by (simp add: take_Suc_conv_app_nth apply_moves_snoc)

lemma recover_step_at:
  assumes at: "recovering p steps m0 j b ph" and u: "ph = Running (Suc i) \<and> m = Suc i \<or> ph = Undoing m (Suc i)"
    and i: "i < length steps"
    and r: "recover_step P p steps i (b, j, a) = (res, (b', j', a'))"
    and P: "rp_journal P = aops" "rp_backend P = bops"
  shows "case res of
      Inr _ \<Rightarrow> recovering p steps m0 j' b' (Undoing m i)
    | Inl out \<Rightarrow> (\<exists>f. out = StillRequired p f) \<and> (\<exists>ph'. recovering p steps m0 j' b' ph')"
proof -
  let ?mvs = "map (manifest_move loc) steps" and ?mv = "manifest_move loc (steps ! i)"
  have pr: "protocol (length steps) ph (Prepared i Rollback) (UndoPending m (Suc i))"
    using u by (auto intro: protocol.turn protocol.undo)
  have here: "apply_moves (take (Suc i) ?mvs) m0 = Some (occ b)"
    using recovering_holds [OF at] u by auto
  from undo_take [OF i here] obtain m1 where m1: "apply_moves (take i ?mvs) m0 = Some m1"
      "move_enabled ?mv m1" "occ b = move_result ?mv m1" by blast
  obtain r1 a1 j1 where s1: "authorized_prepared_op aops j a i Rollback = (r1, a1, j1)"
    by (cases "authorized_prepared_op aops j a i Rollback") auto
  note p1 = recovering_step [OF at auth_prepared_law [OF s1] pr] here
  show ?thesis
  proof (cases r1)
    case (Inl e)
    with r s1 p1 i show ?thesis by (auto simp: recover_step_def P)
  next
    case ok1: (Inr v1)
    with p1 have at1: "recovering p steps m0 j1 b (UndoPending m (Suc i))" by auto
    obtain r2 b1 where s2: "rename_op bops b (recovery_operation (steps ! i) True) = (r2, b1)"
      by (cases "rename_op bops b (recovery_operation (steps ! i) True)")
    note mv = rename_law [OF s2, unfolded recovery_operation_move]
    have undo: "move_result (reverse_move ?mv) (occ b) = m1"
      using undo_move [OF m1(2)] by (simp add: m1(3))
    have at2: "recovering p steps m0 j1 b1 (UndoPending m (Suc i))"
      using at1 mv here m1(1) undo
      by (cases r2) (auto simp: recovering_def transaction_at_def)
    show ?thesis
    proof (cases r2)
      case (Inl e)
      show ?thesis
      proof (cases "backend_certainty e = NotApplied_Certain")
        case True
        with Inl mv have same: "occ b1 = occ b" by auto
        obtain r3 a2 j2 where s3: "authorized_not_applied_op aops j1 a1 i Rollback = (r3, a2, j2)"
          by (cases "authorized_not_applied_op aops j1 a1 i Rollback") auto
        have "phase_holds ?mvs m0 (Undoing m (Suc i)) (occ b1)" using here same by simp
        from recovering_step [OF at2 auth_not_applied_law [OF s3] protocol.retry this]
        have "\<exists>ph'. recovering p steps m0 j2 b1 ph'" by (auto split: sum.splits)
        with r s1 ok1 s2 Inl True s3 i show ?thesis
          by (auto simp: recover_step_def P split: sum.splits)
      next
        case False
        with r s1 ok1 s2 Inl at2 i show ?thesis by (auto simp: recover_step_def P)
      qed
    next
      case ok2: (Inr v2)
      obtain r3 a2 j2 where s3: "authorized_completed_op aops j1 a1 i Rollback = (r3, a2, j2)"
        by (cases "authorized_completed_op aops j1 a1 i Rollback") auto
      have "phase_holds ?mvs m0 (Undoing m i) (occ b1)" using mv ok2 undo m1(1) by simp
      from recovering_step [OF at2 auth_completed_law [OF s3] protocol.undone this]
      show ?thesis using r s1 ok1 s2 ok2 s3 i
        by (auto simp: recover_step_def P split: sum.splits)
    qed
  qed
qed

lemma recover_loop_at:
  assumes "recovering p steps m0 j b ph" and "ph = Running r \<and> m = r \<or> ph = Undoing m r"
    and "r \<le> length steps"
    and "recover_loop P p steps (rev [0..<r]) (b, j, a) = (res, (b', j', a'))"
    and P: "rp_journal P = aops" "rp_backend P = bops"
  shows "case res of
      Inr _ \<Rightarrow> \<exists>ph'. recovering p steps m0 j' b' ph' \<and> (ph' = Running 0 \<or> ph' = Undoing m 0)
    | Inl out \<Rightarrow> (\<exists>f. out = StillRequired p f) \<and> (\<exists>ph'. recovering p steps m0 j' b' ph')"
  using assms(1-4)
proof (induction r arbitrary: j b a ph)
  case 0
  then show ?case by auto
next
  case (Suc i)
  obtain res1 b1 j1 a1 where s: "recover_step P p steps i (b, j, a) = (res1, (b1, j1, a1))"
    by (cases "recover_step P p steps i (b, j, a)") auto
  from Suc.prems(3) have i: "i < length steps" by simp
  note st = recover_step_at [OF Suc.prems(1) _ i s P, of m] Suc.prems(2)
  show ?case
  proof (cases res1)
    case (Inl out)
    with st s Suc.prems(4) show ?thesis by auto
  next
    case (Inr v)
    with st have at1: "recovering p steps m0 j1 b1 (Undoing m i)" by auto
    from s Inr Suc.prems(4) have
      c: "recover_loop P p steps (rev [0..<i]) (b1, j1, a1) = (res, (b', j', a'))" by simp
    show ?thesis by (rule Suc.IH [OF at1 _ _ c]) (use i in auto)
  qed
qed

text \<open>What a recovery promises from a recoverable state.\<close>

definition recovered_at ::
  "plan_id \<Rightarrow> journal_step list \<Rightarrow> 'k occupancy \<Rightarrow> 'b \<Rightarrow> 'j \<Rightarrow> recovery_outcome \<Rightarrow> 'b \<Rightarrow> 'j \<Rightarrow> bool" where
  "recovered_at p steps m0 b j out b' j' \<longleftrightarrow>
     (case out of
        NotRequired \<Rightarrow> occ b' = occ b \<and> recs j' = recs j
      | Blocked _ _ \<Rightarrow> occ b' = occ b \<and> recs j' = recs j
      | Recovered q _ \<Rightarrow> q = p \<and> occ b' = m0 \<and> replay_journal (recs j') = Clean
      | StillRequired q _ \<Rightarrow> q = p \<and> (\<exists>ph. recovering p steps m0 j' b' ph))"

text \<open>Once the reverse moves start, the outcome is one of these.\<close>

definition decisive :: "recovery_outcome \<Rightarrow> bool" where
  "decisive out \<longleftrightarrow> (case out of Recovered _ _ \<Rightarrow> True | StillRequired _ _ \<Rightarrow> True | _ \<Rightarrow> False)"

lemma recovering_replay:
  "recovering p steps m0 j b ph \<Longrightarrow> replay_journal (recs j) = classify p ph"
  by (auto simp: recovering_def transaction_at_def replay_run)

lemma recover_transitions_at:
  assumes at: "recovering p steps m0 j b ph" and u: "ph = Running r \<and> m = r \<or> ph = Undoing m r"
    and le: "r \<le> m" "m \<le> length steps"
    and t: "tr_forward t = [0..<m]" "tr_rollback t = [r..<m]"
    and rt: "recover_transitions P p steps t (b, j, a) = (out, (b', j', a'))"
    and P: "rp_journal P = aops" "rp_backend P = bops"
  shows "decisive out \<and> recovered_at p steps m0 b j out b' j'"
proof -
  have rem: "remaining_steps t = rev [0..<r]" by (rule remaining_undone [OF le(1) t])
  obtain res b1 j1 a1 where lp: "recover_loop P p steps (rev [0..<r]) (b, j, a) = (res, (b1, j1, a1))"
    by (cases "recover_loop P p steps (rev [0..<r]) (b, j, a)") auto
  have "r \<le> length steps" using le by simp
  note loop = recover_loop_at [OF at u this lp P]
  show ?thesis
  proof (cases res)
    case (Inl o1)
    with loop lp rt rem show ?thesis by (auto simp: recover_transitions_def recovered_at_def decisive_def Let_def)
  next
    case (Inr v)
    with loop obtain ph1 where at1: "recovering p steps m0 j1 b1 ph1"
      and ph1: "ph1 = Running 0 \<or> ph1 = Undoing m 0" by auto
    have m0: "occ b1 = m0" using recovering_holds [OF at1] ph1 by auto
    obtain r2 a2 j2 where s: "authorized_terminal_op aops j1 a1 RolledBack = (r2, a2, j2)"
      by (cases "authorized_terminal_op aops j1 a1 RolledBack") auto
    have pr: "protocol (length steps) ph1 (Terminal RolledBack) (Closed RolledBack)"
      using ph1 by (auto intro: protocol.abort protocol.restored)
    have "phase_holds (map (manifest_move loc) steps) m0 (Closed RolledBack) (occ b1)"
      using m0 by simp
    note last = recovering_step [OF at1 auth_terminal_law [OF s] pr this]
    show ?thesis
    proof (cases r2)
      case (Inl e)
      with last lp rt rem \<open>res = Inr v\<close> s show ?thesis
        by (auto simp: recover_transitions_def recovered_at_def decisive_def P)
    next
      case (Inr w)
      with last have at2: "recovering p steps m0 j2 b1 (Closed RolledBack)" by simp
      from recovering_replay [OF at2] Inr lp rt rem \<open>res = Inr v\<close> s m0 show ?thesis
        by (auto simp: recover_transitions_def recovered_at_def decisive_def P)
    qed
  qed
qed

text \<open>The open move: its durable outcome is the one the filesystem shows.\<close>

lemma move_at_source:
  assumes "apply_moves (take (Suc i) mvs) m0 = Some m'" and "apply_moves (take i mvs) m0 = Some m1"
    and "i < length mvs" and "mvs ! i = (s, d, e)"
  shows "m1 s = Some e \<and> m1 d = None \<and> m' s = None \<and> m' d = Some e"
proof -
  have "take (Suc i) mvs = take i mvs @ [(s, d, e)]" using assms(3,4) by (simp add: take_Suc_conv_app_nth)
  with assms(1,2) have "move_enabled (s, d, e) m1" "m' = move_result (s, d, e) m1"
    by (auto simp: apply_moves_snoc)
  then show ?thesis by (auto simp: move_enabled_def move_result_def)
qed

lemma feasible_take:
  "apply_moves mvs m0 \<noteq> None \<Longrightarrow> \<exists>m. apply_moves (take n mvs) m0 = Some m"
  using apply_moves_take by blast

lemma decided_forward:
  assumes at: "recovering p steps m0 j b (ForwardPending i)"
    and feasible: "apply_moves (map (manifest_move loc) steps) m0 \<noteq> None" and i: "i < length steps"
    and seen: "occ b (loc (step_source (steps ! i))) =
      (if applied then None else Some (step_expected_source (steps ! i)))"
  shows "phase_holds (map (manifest_move loc) steps) m0
    (if applied then Running (Suc i) else Undoing i i) (occ b)"
proof -
  let ?mvs = "map (manifest_move loc) steps"
  obtain m1 m2 where m: "apply_moves (take i ?mvs) m0 = Some m1"
      "apply_moves (take (Suc i) ?mvs) m0 = Some m2"
    using feasible_take [OF feasible, of i] feasible_take [OF feasible, of "Suc i"] by auto
  from move_at_source [OF m(2,1)] i have
    "m1 (loc (step_source (steps ! i))) = Some (step_expected_source (steps ! i)) \<and>
     m2 (loc (step_source (steps ! i))) = None" by (simp add: manifest_move_def)
  with recovering_holds [OF at] m seen show ?thesis by (auto split: if_splits)
qed

lemma decided_backward:
  assumes at: "recovering p steps m0 j b (UndoPending m (Suc i))"
    and feasible: "apply_moves (map (manifest_move loc) steps) m0 \<noteq> None" and i: "i < length steps"
    and seen: "occ b (loc (step_destination (steps ! i))) =
      (if applied then None else Some (step_expected_source (steps ! i)))"
  shows "phase_holds (map (manifest_move loc) steps) m0
    (if applied then Undoing m i else Undoing m (Suc i)) (occ b)"
proof -
  let ?mvs = "map (manifest_move loc) steps"
  obtain m1 m2 where m: "apply_moves (take i ?mvs) m0 = Some m1"
      "apply_moves (take (Suc i) ?mvs) m0 = Some m2"
    using feasible_take [OF feasible, of i] feasible_take [OF feasible, of "Suc i"] by auto
  from move_at_source [OF m(2,1)] i have
    "m1 (loc (step_destination (steps ! i))) = None \<and>
     m2 (loc (step_destination (steps ! i))) = Some (step_expected_source (steps ! i))"
    by (simp add: manifest_move_def)
  with recovering_holds [OF at] m seen show ?thesis by (auto split: if_splits)
qed

text \<open>Recording the open move leads to the phase it decided, with the sets of that phase.\<close>

lemma record_prepared_at:
  assumes at: "recovering p steps m0 j b ph"
    and pr: "protocol (length steps) ph
      (if prep_applied prep then Completed (prep_step prep) (prep_direction prep)
       else NotApplied (prep_step prep) (prep_direction prep)) ph'"
    and holds: "phase_holds (map (manifest_move loc) steps) m0 ph' (occ b)"
    and r: "record_prepared P prep (b, j, a) = (res, (b', j', a'))"
    and P: "rp_journal P = aops" "rp_backend P = bops"
  shows "b' = b \<and> (case res of
      Inr _ \<Rightarrow> recovering p steps m0 j' b ph'
    | Inl _ \<Rightarrow> \<exists>ph''. recovering p steps m0 j' b ph'')"
proof (cases "prep_applied prep")
  case True
  with r P have o: "authorized_completed_op aops j a (prep_step prep) (prep_direction prep) = (res, a', j')"
    and b: "b' = b" by (auto simp: record_prepared_def split: prod.splits)
  from recovering_step [OF at auth_completed_law [OF o] _ holds] pr True b show ?thesis by auto
next
  case False
  with r P have o: "authorized_not_applied_op aops j a (prep_step prep) (prep_direction prep) = (res, a', j')"
    and b: "b' = b" by (auto simp: record_prepared_def split: prod.splits)
  from recovering_step [OF at auth_not_applied_law [OF o] _ holds] pr False b show ?thesis by auto
qed

text \<open>A settled phase with the scan's sets, from which the reverse moves start.\<close>

definition start_at :: "journal_step list \<Rightarrow> phase \<Rightarrow> transition_state \<Rightarrow> bool" where
  "start_at steps ph t \<longleftrightarrow> (\<exists>m r. (ph = Running r \<and> m = r \<or> ph = Undoing m r) \<and>
     r \<le> m \<and> m \<le> length steps \<and> tr_forward t = [0..<m] \<and> tr_rollback t = [r..<m])"

lemma record_and_recover:
  assumes at: "recovering p steps m0 j b ph"
    and pr: "protocol (length steps) ph
      (if prep_applied prep then Completed (prep_step prep) (prep_direction prep)
       else NotApplied (prep_step prep) (prep_direction prep)) ph'"
    and holds: "phase_holds (map (manifest_move loc) steps) m0 ph' (occ b)"
    and start: "start_at steps ph' (after_prepared prep t)"
    and run: "(case record_prepared P prep (b, j, a) of
        (Inl e, w1) \<Rightarrow> (StillRequired p (Recovery_Journal e), w1)
      | (Inr _, w1) \<Rightarrow> recover_transitions P p steps (after_prepared prep t) w1) = (out, (b', j', a'))"
    and P: "rp_journal P = aops" "rp_backend P = bops"
  shows "recovered_at p steps m0 b j out b' j'"
proof -
  obtain res b1 j1 a1 where r: "record_prepared P prep (b, j, a) = (res, (b1, j1, a1))"
    by (cases "record_prepared P prep (b, j, a)") auto
  note rec = record_prepared_at [OF at pr holds r P]
  show ?thesis
  proof (cases res)
    case (Inl e)
    with rec r run show ?thesis by (auto simp: recovered_at_def)
  next
    case (Inr v)
    with rec have at1: "recovering p steps m0 j1 b ph'" and b1: "b1 = b" by auto
    from start obtain m q where mq: "ph' = Running q \<and> m = q \<or> ph' = Undoing m q" "q \<le> m"
        "m \<le> length steps" "tr_forward (after_prepared prep t) = [0..<m]"
        "tr_rollback (after_prepared prep t) = [q..<m]" by (auto simp: start_at_def)
    from r Inr run b1 have
      "recover_transitions P p steps (after_prepared prep t) (b, j1, a1) = (out, (b', j', a'))" by simp
    from recover_transitions_at [OF at1 mq this P] show ?thesis
      by (auto simp: recovered_at_def decisive_def split: recovery_outcome.splits)
  qed
qed

text \<open>The cases of an interrupted phase.\<close>

lemma recover_pending_at:
  assumes at: "recovering p steps m0 j b ph" and ok: "phase_ok (length steps) ph"
    and feasible: "apply_moves (map (manifest_move loc) steps) m0 \<noteq> None"
    and pend: "ph = ForwardPending i \<and> d = Forward \<and> m = i \<or> ph = UndoPending m (Suc i) \<and> d = Rollback"
    and t: "tr_forward t = [0..<m]" "tr_rollback t = [(if d = Forward then i else Suc i)..<m]"
    and seen: "occ b (loc (if d = Rollback then step_destination (steps ! i) else step_source (steps ! i))) =
      (if applied then None else Some (step_expected_source (steps ! i)))"
    and prep: "prep = \<lparr>prep_step = i, prep_direction = d, prep_applied = applied\<rparr>"
    and run: "(case record_prepared P prep (b, j, a) of
        (Inl e, w1) \<Rightarrow> (StillRequired p (Recovery_Journal e), w1)
      | (Inr _, w1) \<Rightarrow> recover_transitions P p steps (after_prepared prep t) w1) = (out, (b', j', a'))"
    and P: "rp_journal P = aops" "rp_backend P = bops"
  shows "recovered_at p steps m0 b j out b' j'"
  using pend
proof
  assume f: "ph = ForwardPending i \<and> d = Forward \<and> m = i"
  with ok have i: "i < length steps" by simp
  let ?next = "if applied then Running (Suc i) else Undoing i i"
  have "phase_holds (map (manifest_move loc) steps) m0 ?next (occ b)"
    using decided_forward [OF _ feasible i] at f seen by simp
  moreover have "protocol (length steps) ph
      (if prep_applied prep then Completed (prep_step prep) (prep_direction prep)
       else NotApplied (prep_step prep) (prep_direction prep)) ?next"
    using f by (auto simp: prep intro: protocol.complete protocol.skip)
  moreover have "start_at steps ?next (after_prepared prep t)"
    using f i t by (auto simp: start_at_def after_prepared_def prep insort_upto)
  ultimately show ?thesis using record_and_recover [OF at _ _ _ run P] by blast
next
  assume u: "ph = UndoPending m (Suc i) \<and> d = Rollback"
  with ok have i: "i < length steps" "Suc i \<le> m" "m \<le> length steps" by simp_all
  let ?next = "if applied then Undoing m i else Undoing m (Suc i)"
  have "phase_holds (map (manifest_move loc) steps) m0 ?next (occ b)"
    using decided_backward [OF _ feasible i(1)] at u seen by simp
  moreover have "protocol (length steps) ph
      (if prep_applied prep then Completed (prep_step prep) (prep_direction prep)
       else NotApplied (prep_step prep) (prep_direction prep)) ?next"
    using u by (auto simp: prep intro: protocol.undone protocol.retry)
  moreover have "start_at steps ?next (after_prepared prep t)"
    using u i t insort_down [of "Suc i" m] by (auto simp: start_at_def after_prepared_def prep)
  ultimately show ?thesis using record_and_recover [OF at _ _ _ run P] by blast
qed

lemma transition_state_of_Inr:
  assumes "transition_state_of records steps bops b = Inr t"
  shows "tr_forward t = scan_forward (scan_records (drop 1 records)) \<and>
    tr_rollback t = scan_rollback (scan_records (drop 1 records)) \<and>
    (\<exists>expected observed. observe_all steps bops b = Inr observed \<and>
       reconcile_prepared steps bops b expected observed (scan_prepared (scan_records (drop 1 records))) =
         Inr (tr_prepared t))"
  using assms by (auto simp: transition_state_of_def and_then_Inr Let_def)

lemma recover_intent_at:
  assumes at: "recovering p steps m0 j b ph" and open_phase: "\<forall>c. ph \<noteq> Closed c"
    and feasible: "apply_moves (map (manifest_move loc) steps) m0 \<noteq> None"
    and ri: "recover_intent P p steps (recs j) (b, j, a) = (out, (b', j', a'))"
    and P: "rp_journal P = aops" "rp_backend P = bops"
  shows "recovered_at p steps m0 b j out b' j'"
proof (cases "list_ex (\<lambda>st. authorization_error (recovery_operation st False) \<noteq> None) steps")
  case True
  with ri show ?thesis by (auto simp: recover_intent_def recovered_at_def)
next
  case auth: False
  show ?thesis
  proof (cases "transition_state_of (recs j) steps bops b")
    case (Inl reason)
    with ri auth P show ?thesis by (auto simp: recover_intent_def recovered_at_def)
  next
    case (Inr t)
    from at obtain rest where rest: "recs j = Intent p steps # rest"
      "run (length steps) (Running 0) rest ph" by (auto simp: recovering_def transaction_at_def)
    have ok: "phase_ok (length steps) ph" using run_ok [OF rest(2)] by simp
    define scan where "scan = scan_records rest"
    have sc: "scanned ph scan" using scan_records_run [OF rest(2)] by (simp add: scan_def)
    from transition_state_of_Inr [OF Inr] rest(1) obtain expected observed where
      t: "tr_forward t = scan_forward scan" "tr_rollback t = scan_rollback scan"
        "observe_all steps bops b = Inr observed"
        "reconcile_prepared steps bops b expected observed (scan_prepared scan) = Inr (tr_prepared t)"
      by (auto simp: scan_def)
    show ?thesis
    proof (cases "scan_prepared scan")
      case None
      with t(4) have "tr_prepared t = None" by (simp add: reconcile_prepared_def split: if_splits)
      with ri auth Inr P have rt: "recover_transitions P p steps t (b, j, a) = (out, (b', j', a'))"
        by (simp add: recover_intent_def)
      from None sc open_phase ok t(1,2) obtain m r where
        mr: "ph = Running r \<and> m = r \<or> ph = Undoing m r" "r \<le> m" "m \<le> length steps"
          "tr_forward t = [0..<m]" "tr_rollback t = [r..<m]"
        by (cases ph) auto
      from recover_transitions_at [OF at mr rt P] show ?thesis by simp
    next
      case (Some id)
      then obtain i d where id: "scan_prepared scan = Some (i, d)" by (cases id) auto
      with sc open_phase ok have pend: "\<exists>m. (ph = ForwardPending i \<and> d = Forward \<and> m = i \<or>
          ph = UndoPending m (Suc i) \<and> d = Rollback) \<and> i < length steps \<and>
          tr_forward t = [0..<m] \<and> tr_rollback t = [(if d = Forward then i else Suc i)..<m]"
        using t(1,2) by (cases ph) auto
      then obtain m where m: "ph = ForwardPending i \<and> d = Forward \<and> m = i \<or>
          ph = UndoPending m (Suc i) \<and> d = Rollback" "i < length steps"
          "tr_forward t = [0..<m]" "tr_rollback t = [(if d = Forward then i else Suc i)..<m]" by blast
      from reconcile_prepared_Some [OF t(4) [unfolded id] t(3) m(2)] obtain applied where
        dec: "tr_prepared t = Some \<lparr>prep_step = i, prep_direction = d, prep_applied = applied\<rparr>"
          "occ b (loc (if d = Rollback then step_destination (steps ! i) else step_source (steps ! i))) =
            (if applied then None else Some (step_expected_source (steps ! i)))" by blast
      from ri auth Inr P dec(1) have
        "(case record_prepared P \<lparr>prep_step = i, prep_direction = d, prep_applied = applied\<rparr> (b, j, a) of
            (Inl e, w1) \<Rightarrow> (StillRequired p (Recovery_Journal e), w1)
          | (Inr _, w1) \<Rightarrow> recover_transitions P p steps
              (after_prepared \<lparr>prep_step = i, prep_direction = d, prep_applied = applied\<rparr> t) w1) =
         (out, (b', j', a'))"
        by (simp add: recover_intent_def)
      from recover_pending_at [OF at ok feasible m(1,3,4) dec(2) refl this P] show ?thesis .
    qed
  qed
qed

text \<open>
  Recovery from any state a transaction can leave behind. A closed journal needs nothing; a
  blocked recovery touches neither the filesystem nor the journal; a finished one restored the
  filesystem of before the transaction; an interrupted one leaves a recoverable state again.
\<close>

theorem recovery_restores:
  assumes at: "recovering p steps m0 j b ph"
    and feasible: "apply_moves (map (manifest_move loc) steps) m0 \<noteq> None"
    and rr: "recovery_rollback P b j = (out, b', j')"
    and P: "rp_journal P = aops" "rp_backend P = bops"
  shows "recovered_at p steps m0 b j out b' j' \<and> (out = NotRequired \<longleftrightarrow> (\<exists>c. ph = Closed c) \<and>
    (\<exists>x j1. authorized_snapshot_op aops j = (Inr x, j1)))"
proof -
  obtain r j1 where s: "authorized_snapshot_op aops j = (r, j1)"
    by (cases "authorized_snapshot_op aops j")
  note law = snapshot_law [OF s]
  show ?thesis
  proof (cases r)
    case (Inl e)
    with s rr P law show ?thesis by (auto simp: recovery_rollback_def recovered_at_def)
  next
    case (Inr ra)
    then obtain a where ra: "ra = (recs j, a)" using law by (cases ra) auto
    from at law have at1: "recovering p steps m0 j1 b ph" by (simp add: recovering_def)
    from at obtain rest where rest: "recs j = Intent p steps # rest"
      by (auto simp: recovering_def transaction_at_def)
    note rp = recovering_replay [OF at]
    show ?thesis
    proof (cases "\<exists>c. ph = Closed c")
      case True
      with rp s Inr ra rr P law show ?thesis
        by (auto simp: recovery_rollback_def recovered_at_def)
    next
      case False
      then have nc: "replay_journal (recs j) \<noteq> Clean" unfolding rp by (cases ph) auto
      have corrupt: "\<not> is_corrupt (replay_journal (recs j))" by (simp add: rp)
      obtain o1 b1 j2 a2 where ri: "recover_intent P p steps (recs j1) (b, j1, a) = (o1, (b1, j2, a2))"
        by (cases "recover_intent P p steps (recs j1) (b, j1, a)") auto
      have rj: "recs j1 = recs j" using law by simp
      from s Inr ra rr P nc corrupt rest ri rj have out: "o1 = out" "b1 = b'" "j2 = j'"
        by (auto simp: recovery_rollback_def Let_def)
      from recover_intent_at [OF at1 _ feasible ri P] False out have
        "recovered_at p steps m0 b j1 out b' j'" by simp
      moreover have "out \<noteq> NotRequired" using recover_intent_required [OF ri] out by simp
      ultimately show ?thesis using rj False by (cases out) (auto simp: recovered_at_def)
    qed
  qed
qed

end

text \<open>The in-memory ports are a recovery world.\<close>

interpretation memr: recovery_world memory_authorized_ops mj_records memory_backend_ops mb_path_key
    mb_occupancy
  by unfold_locales

end
