(* ===== verification/Crash_Recovery.thy ===== *)
theory Crash_Recovery
  imports Memory_Plan Recovery_Correct
begin

text \<open>
  Crashes at any point of a transaction. A crashing port carries the number of mutations it
  survives; from then on every call fails without saying whether it happened and does nothing.
  The executor stops at the first such failure, so the state it leaves is the state of a process
  that died between two mutations. The crashing ports meet the same contracts, so the executor's
  theorem holds for them, and recovery on the surviving state brings the filesystem back.
\<close>

section \<open>Ports that die\<close>

fun die :: "('j \<Rightarrow> journal_result \<times> 'j) \<Rightarrow> 'j \<times> nat \<Rightarrow> journal_result \<times> ('j \<times> nat)" where
  "die f (j, 0) = (Inl (may_have_appended 0), (j, 0))"
| "die f (j, Suc k) = (case f j of (res, j') \<Rightarrow> (res, (j', k)))"

definition crash_journal_ops :: "'j journal_ops \<Rightarrow> ('j \<times> nat) journal_ops" where
  "crash_journal_ops ops =
     \<lparr>begin_op = (\<lambda>s p steps. die (\<lambda>j. begin_op ops j p steps) s),
      prepared_op = (\<lambda>s i d. die (\<lambda>j. prepared_op ops j i d) s),
      completed_op = (\<lambda>s i d. die (\<lambda>j. completed_op ops j i d) s),
      not_applied_op = (\<lambda>s i d. die (\<lambda>j. not_applied_op ops j i d) s),
      terminal_op = (\<lambda>s t. die (\<lambda>j. terminal_op ops j t) s)\<rparr>"

fun die_rename ::
  "('b \<Rightarrow> (backend_error + unit) \<times> 'b) \<Rightarrow> 'b \<times> nat \<Rightarrow> (backend_error + unit) \<times> ('b \<times> nat)" where
  "die_rename f (b, 0) =
     (Inl \<lparr>backend_operation = RenameOp, backend_code = 0, backend_certainty = MayHaveApplied\<rparr>, (b, 0))"
| "die_rename f (b, Suc k) = (case f b of (res, b') \<Rightarrow> (res, (b', k)))"

definition crash_backend_ops :: "'b backend_ops \<Rightarrow> ('b \<times> nat) backend_ops" where
  "crash_backend_ops ops =
     \<lparr>validate_environment_op = (\<lambda>s. validate_environment_op ops (fst s)),
      path_key_op = (\<lambda>s. path_key_op ops (fst s)),
      resolve_source_op = (\<lambda>s. resolve_source_op ops (fst s)),
      planned_entry_key_op = (\<lambda>s. planned_entry_key_op ops (fst s)),
      observe_op = (\<lambda>s. observe_op ops (fst s)),
      same_or_descendant_op = (\<lambda>s. same_or_descendant_op ops (fst s)),
      next_nonce_op = (\<lambda>s. case next_nonce_op ops (fst s) of (res, b') \<Rightarrow> (res, (b', snd s))),
      rename_op = (\<lambda>s op. die_rename (\<lambda>b. rename_op ops b op) s)\<rparr>"

lemma die_appended:
  assumes "die f s = (res, s')"
    and "\<And>res j'. f (fst s) = (res, j') \<Longrightarrow> appended_record r (recs (fst s)) res (recs j')"
  shows "appended_record r (recs (fst s)) res (recs (fst s'))"
proof (cases s)
  case (Pair j k)
  show ?thesis
    using assms by (cases k) (auto simp: Pair split: prod.splits)
qed

context transaction_ports
begin

text \<open>The crashing ports keep the contracts of the ports they wrap.\<close>

lemma crash_journal: "journal_store (crash_journal_ops jops) (\<lambda>s. recs (fst s))"
proof unfold_locales
  fix s :: "'j \<times> nat" and p steps res s'
  assume b: "begin_op (crash_journal_ops jops) s p steps = (res, s')"
  have "appended_record (Intent p steps) (recs (fst s)) res (recs (fst s'))"
    using b begin_law by (intro die_appended) (auto simp: crash_journal_ops_def)
  moreover have "recs (fst s') \<noteq> recs (fst s) \<longrightarrow> recs (fst s) = []"
    using b begin_law by (cases s; cases "snd s") (auto simp: crash_journal_ops_def split: prod.splits)
  ultimately show "appended_record (Intent p steps) (recs (fst s)) res (recs (fst s')) \<and>
      (recs (fst s') \<noteq> recs (fst s) \<longrightarrow> recs (fst s) = [])" ..
qed (auto simp: crash_journal_ops_def intro!: die_appended
      intro: prepared_law completed_law not_applied_law terminal_law)

lemma crash_backend: "rename_backend (crash_backend_ops bops) loc (\<lambda>s. occ (fst s))"
proof unfold_locales
  fix s :: "'b \<times> nat" and op res s'
  assume "rename_op (crash_backend_ops bops) s op = (res, s')"
  then show "renamed (operation_move loc op) (occ (fst s)) res (occ (fst s'))"
    using rename_law by (cases s; cases "snd s") (auto simp: crash_backend_ops_def split: prod.splits)
qed (auto simp: crash_backend_ops_def observe_law resolve_law split: prod.splits
      intro: nonce_law key_law)

lemma crash_ports: "transaction_ports (crash_journal_ops jops) (\<lambda>s. recs (fst s))
    (crash_backend_ops bops) loc (\<lambda>s. occ (fst s))"
  by (intro transaction_ports.intro crash_journal crash_backend)

end

interpretation crash: transaction_ports "crash_journal_ops memory_journal_ops" "\<lambda>s. mj_records (fst s)"
    "crash_backend_ops memory_backend_ops" mb_path_key "\<lambda>s. mb_occupancy (fst s)"
  by (rule mem.crash_ports)

section \<open>Crash, then recover\<close>

lemma memory_plan_crash_located:
  assumes "memory_plan F plan"
  shows "located mb_path_key (key_path F) (plan_keys plan) (crash_backend_ops memory_backend_ops) plan"
  using memory_plan_located [OF assms] unfolding located_def
  by (simp add: crash_backend_ops_def)

text \<open>The state a crashed execution leaves: the files, the records and a phase that fits both.\<close>

definition crashed_at ::
  "(legacy_text \<Rightarrow> 'k) \<Rightarrow> plan_id \<Rightarrow> 'k occupancy \<Rightarrow> 'k occupancy \<Rightarrow> 'k occupancy \<Rightarrow>
     journal_record list \<Rightarrow> bool" where
  "crashed_at loc p m0 m1 m rs \<longleftrightarrow>
     (\<exists>steps phase. transaction_at p steps (map (manifest_move loc) steps) m0 rs m phase \<and>
        apply_moves (map (manifest_move loc) steps) m0 = Some m1)"

definition crashed ::
  "plan_id \<Rightarrow> path_key occupancy \<Rightarrow> path_key occupancy \<Rightarrow> memory_backend \<Rightarrow> memory_journal \<Rightarrow> bool" where
  "crashed p m0 m1 b j \<longleftrightarrow> crashed_at mb_path_key p m0 m1 (mb_occupancy b) (mj_records j)"

lemma replay_Nil [simp]: "replay_journal [] = Clean"
  by (simp add: replay_journal_def)

context transaction_ports
begin

lemma execute_leaves:
  assumes l: "located loc g K bops plan" and ready: "plan_ready loc (occ (w_backend w)) plan"
    and fresh: "recs (w_journal w) = []"
    and run: "execute_with_control P plan w = (res, w')"
    and P: "port_journal P = jops" "port_backend P = bops"
  defines "m1 \<equiv> renamed_occupancy loc plan (occ (w_backend w))"
  shows "(occ (w_backend w') = occ (w_backend w) \<or>
        occ (w_backend w') = m1 \<and> recs (w_journal w') \<noteq> []) \<and>
      replay_journal (recs (w_journal w')) = Clean \<or>
    crashed_at loc (plan_id_of plan) (occ (w_backend w)) m1 (occ (w_backend w')) (recs (w_journal w'))"
proof -
  note out = execute_settles [OF l ready run P]
  show ?thesis
  proof (cases res)
    case (Inl e)
    with out fresh show ?thesis by simp
  next
    case (Inr rep)
    with out have set: "settled plan w rep w'" by simp
    show ?thesis
    proof (cases "report_outcome rep")
      case (Exec_RecoveryRequired f fs)
      with set consider
        steps phase where "at_world (plan_id_of plan) steps (occ (w_backend w)) w' phase"
          "apply_moves (map (step_move loc) steps) (occ (w_backend w)) = Some m1"
        | "occ (w_backend w') = occ (w_backend w)" "recs (w_journal w') = recs (w_journal w)"
        by (auto simp: settled_def m1_def)
      then show ?thesis
      proof cases
        case 1
        then have "crashed_at loc (plan_id_of plan) (occ (w_backend w)) m1 (occ (w_backend w'))
            (recs (w_journal w'))"
          unfolding crashed_at_def at_world_def
          by (intro exI [of _ "map journal_step_of steps"] exI [of _ phase]) (simp add: comp_def)
        then show ?thesis ..
      qed (use fresh in simp)
    qed (use set fresh in \<open>auto simp: settled_def m1_def\<close>)
  qed
qed

end

context recovery_world
begin

lemma recovery_of_settled:
  assumes "replay_journal (recs j) = Clean" and run: "recovery_rollback P b j = (out, b', j')"
    and P: "rp_journal P = aops" "rp_backend P = bops"
  shows "b' = b \<and> recs j' = recs j \<and> (case out of NotRequired \<Rightarrow> True | Blocked _ _ \<Rightarrow> True | _ \<Rightarrow> False)"
proof -
  obtain snap j1 where s: "authorized_snapshot_op aops j = (snap, j1)"
    by (cases "authorized_snapshot_op aops j")
  from snapshot_law [OF s] s assms show ?thesis
    by (auto simp: recovery_rollback_def P split: sum.splits prod.splits)
qed

lemma recovery_of_crash:
  assumes crash: "crashed_at loc p m0 m1 (occ b) (recs j)"
    and run: "recovery_rollback P b j = (out, b', j')"
    and P: "rp_journal P = aops" "rp_backend P = bops"
  shows "case out of
      NotRequired \<Rightarrow> (occ b' = m0 \<or> occ b' = m1) \<and> recs j' = recs j
    | Blocked _ _ \<Rightarrow> occ b' = occ b \<and> recs j' = recs j
    | Recovered q _ \<Rightarrow> q = p \<and> occ b' = m0 \<and> replay_journal (recs j') = Clean
    | StillRequired q _ \<Rightarrow> q = p \<and> crashed_at loc p m0 m1 (occ b') (recs j')"
proof -
  from crash obtain steps phase where s: "recovering p steps m0 j b phase"
    "apply_moves (map (manifest_move loc) steps) m0 = Some m1"
    by (auto simp: crashed_at_def recovering_def)
  then have "apply_moves (map (manifest_move loc) steps) m0 \<noteq> None" by simp
  from recovery_restores [OF s(1) this run P] have
    r: "recovered_at p steps m0 b j out b' j'"
      "out = NotRequired \<Longrightarrow> \<exists>c. phase = Closed c" by auto
  have "occ b = m0 \<or> occ b = m1" if "out = NotRequired"
  proof -
    from r(2) [OF that] obtain c where "phase = Closed c" ..
    with recovering_holds [OF s(1)] s(2) show ?thesis by (cases c) auto
  qed
  with r(1) s(2) show ?thesis
    by (cases out) (auto simp: recovered_at_def crashed_at_def recovering_def intro!: exI [of _ steps])
qed

end

lemma crash_leaves_recoverable:
  assumes plan: "memory_plan F plan" "plan_ready mb_path_key (mb_occupancy b) plan"
    and fresh: "mj_records j = []"
    and w: "w_backend w = (b, kb)" "w_journal w = (j, kj)"
    and P: "port_journal P = crash_journal_ops memory_journal_ops"
      "port_backend P = crash_backend_ops memory_backend_ops"
    and run: "execute_with_control P plan w = (res, w')"
  defines "m1 \<equiv> renamed_occupancy mb_path_key plan (mb_occupancy b)"
    and "b' \<equiv> fst (w_backend w')" and "j' \<equiv> fst (w_journal w')"
  shows "mb_occupancy b' = mb_occupancy b \<and> replay_journal (mj_records j') = Clean \<or>
    mb_occupancy b' = m1 \<and> replay_journal (mj_records j') = Clean \<or>
    crashed (plan_id_of plan) (mb_occupancy b) m1 b' j'"
proof -
  have ready: "plan_ready mb_path_key (mb_occupancy (fst (w_backend w))) plan" using plan(2) w by simp
  have empty: "mj_records (fst (w_journal w)) = []" using fresh w by simp
  from crash.execute_leaves [OF memory_plan_crash_located [OF plan(1)] ready empty run P] w
  show ?thesis unfolding crashed_def b'_def j'_def m1_def by auto
qed

text \<open>Recovery with working ports.\<close>

definition memory_recovery :: "(memory_backend, memory_journal) recovery_ports" where
  "memory_recovery = \<lparr>rp_backend = memory_backend_ops, rp_journal = memory_authorized_ops\<rparr>"

lemma recovery_of_clean:
  "replay_journal (mj_records j) = Clean \<Longrightarrow> recovery_rollback memory_recovery b j = (NotRequired, b, j)"
  by (simp add: recovery_rollback_def memory_recovery_def memory_authorized_ops_def
      mj_authorized_snapshot_def)

lemma recovery_of_crashed:
  assumes "crashed p m0 m1 b j" and run: "recovery_rollback memory_recovery b j = (out, b', j')"
  shows "case out of
      NotRequired \<Rightarrow> (mb_occupancy b' = m0 \<or> mb_occupancy b' = m1) \<and> mj_records j' = mj_records j
    | Blocked _ _ \<Rightarrow> mb_occupancy b' = mb_occupancy b \<and> mj_records j' = mj_records j
    | Recovered q _ \<Rightarrow> q = p \<and> mb_occupancy b' = m0 \<and> replay_journal (mj_records j') = Clean
    | StillRequired q _ \<Rightarrow> q = p \<and> crashed p m0 m1 b' j'"
  unfolding crashed_def
  by (rule memr.recovery_of_crash [OF assms(1) [unfolded crashed_def] run])
    (simp_all add: memory_recovery_def)

end
