(* ===== verification/Rename_Claims.thy ===== *)
theory Rename_Claims
  imports Crash_Recovery
begin

text \<open>
  What a rename transaction guarantees, on the in-memory ports of the repository: the journal
  protocol, the schedule, execution with rollback, crash recovery, the cancellation token and the
  capacity check. The contracts of the ports are locales; the claims are their facts for the
  model's own adapters. The witnesses run on two files that swap their names.
\<close>

section \<open>Two files that swap their names\<close>

abbreviation folder :: legacy_text where
  "folder \<equiv> [99, COLON, BACKSLASH, 100]"

definition file_path :: "u16 \<Rightarrow> legacy_text" where
  "file_path u = [99, COLON, BACKSLASH, 100, BACKSLASH, u]"

definition folder_identity :: entry_identity where
  "folder_identity = \<lparr>volume = 1, file_id = 77\<rparr>"

definition file_identity :: "u128 \<Rightarrow> entry_identity" where
  "file_identity i = \<lparr>volume = 1, file_id = i\<rparr>"

definition swap_backend :: memory_backend where
  "swap_backend = with_parent_identity (with_file (with_file memory_backend_new (file_path 97) 1)
     (file_path 98) 2) folder folder_identity"

definition file_snapshot :: "u128 \<Rightarrow> path_snapshot" where
  "file_snapshot i = \<lparr>snapshot_parent = folder_identity,
     snapshot_entry = Some \<lparr>observed_identity = file_identity i, observed_kind = File, is_reparse_point = False\<rparr>\<rparr>"

definition swap_row :: "entry_id \<Rightarrow> u16 \<Rightarrow> u128 \<Rightarrow> u16 \<Rightarrow> u128 \<Rightarrow> plan_row" where
  "swap_row e u i v j = \<lparr>row_id = e, row_source = file_path u, row_destination = file_path v, row_kind = File,
     row_source_snapshot = file_snapshot i, row_destination_snapshot = file_snapshot j,
     row_source_key = entry_key_from_parts folder_identity [u],
     row_destination_key = entry_key_from_parts folder_identity [v]\<rparr>"

definition swap_plan :: rename_plan where
  "swap_plan = \<lparr>plan_id_of = 5, plan_revision = 1,
     plan_entries = [swap_row 0 97 1 98 2, swap_row 1 98 2 97 1], plan_scope = SameParent\<rparr>"

lemma swap_plan_id [simp]: "plan_id_of swap_plan = 5"
  by (simp add: swap_plan_def)

lemma file_path_inj [simp]: "file_path u = file_path v \<longleftrightarrow> u = v"
  by (simp add: file_path_def)

lemma mb_key_file [simp]:
  "mb_path_key (file_path 97) = file_path 97" "mb_path_key (file_path 98) = file_path 98"
  "mb_path_key (file_path 99) = file_path 99" "mb_path_key folder = folder"
  by (simp_all add: mb_path_key_def file_path_def ascii_lower_def)

lemma parent_units_file:
  "u \<noteq> BACKSLASH \<Longrightarrow> u \<noteq> SLASH \<Longrightarrow> parent_units (file_path u) = folder"
  by (simp add: parent_units_def file_path_def is_separator_def rposition_def)

lemma swap_parent:
  "u \<noteq> BACKSLASH \<Longrightarrow> u \<noteq> SLASH \<Longrightarrow> parent_identity swap_backend (file_path u) = folder_identity"
  by (simp add: parent_identity_def parent_units_file swap_backend_def with_parent_identity_def)

lemma swap_occupancy:
  "mb_occupancy swap_backend = [file_path 97 \<mapsto> file_identity 1, file_path 98 \<mapsto> file_identity 2]"
  by (auto simp: fun_eq_iff mb_occupancy_def swap_backend_def with_parent_identity_def with_file_def
      with_file_identity_def memory_backend_new_def file_identity_def)

lemma addressed_file:
  "mb_path_key (file_path u) = file_path u \<Longrightarrow> u \<noteq> BACKSLASH \<Longrightarrow> u \<noteq> SLASH \<Longrightarrow>
     addressed (\<lambda>_. folder) (file_path u) folder_identity (entry_key_from_parts folder_identity [u])"
  unfolding addressed_def by (rule exI [of _ "[u]"]) (simp add: file_path_def)

lemma swap_memory_plan: "memory_plan (\<lambda>_. folder) swap_plan"
  by (simp add: memory_plan_def plan_parents_def swap_plan_def swap_row_def file_snapshot_def addressed_file)

lemma swap_plan_ready: "plan_ready mb_path_key (mb_occupancy swap_backend) swap_plan"
  unfolding swap_occupancy
  by (simp add: plan_ready_def swap_plan_def swap_row_def row_identity_def observed_at_def
      file_snapshot_def entry_key_inj)

lemma swap_renamed:
  "renamed_occupancy mb_path_key swap_plan (mb_occupancy swap_backend) =
     [file_path 97 \<mapsto> file_identity 2, file_path 98 \<mapsto> file_identity 1]"
  by (auto simp: fun_eq_iff renamed_occupancy_def swap_plan_def swap_row_def swap_occupancy row_identity_def
      observed_at_def file_snapshot_def)

section \<open>The journal\<close>

text \<open>
  C19: replay recognises exactly the write-ahead protocol: it reports corruption exactly for
  records no transaction can have written, and a clean state exactly for the empty journal and
  for a transaction that reached its terminal record.
\<close>

theorem replay_recognises_protocol:
  "(is_corrupt (replay_journal records) \<longleftrightarrow> records \<noteq> [] \<and> \<not> (\<exists>phase. journal_run records phase)) \<and>
   (replay_journal records = Clean \<longleftrightarrow> records = [] \<or> (\<exists>t. journal_run records (Closed t)))"
  using replay_corrupt_iff [of records] replay_clean_iff [of records]
  by (cases "records = []") (auto simp: replay_journal_def)

text \<open>
  An interrupted transaction is classified by its phase: which step is open and in which
  direction, how many steps completed and how many were undone.
\<close>

theorem replay_classifies:
  assumes "run (length steps) (Running 0) rest phase"
  shows "replay_journal (Intent p steps # rest) = classify p phase"
  by (rule replay_run [OF assms])

theorem replay_classifies_witness:
  "replay_journal [Intent 7 [undefined, undefined], Prepared 0 Forward, Completed 0 Forward, Prepared 1 Forward] =
     RecoveryRequired (Some 7) 1 0 (PreparedOnly 1 Forward)"
proof -
  have "run (length [undefined, undefined :: journal_step]) (Running 0)
      [Prepared 0 Forward, Completed 0 Forward, Prepared 1 Forward] (ForwardPending 1)"
    by (auto simp: run_Cons protocol_steps)
  from replay_classifies [OF this, of 7] show ?thesis by simp
qed

text \<open>
  An authorization taken with a snapshot is a compare-and-append: an append through it
  succeeds exactly when no other record was appended in between, and after any other append it
  is refused and the journal stays as it was (up to the saturation of the 64-bit generation).
\<close>

theorem authorized_append_exclusive:
  assumes "mj_authorized_snapshot j = (Inr (records, a), j)" and "\<not> mj_invalidate j"
    and "mj_generation j \<noteq> - 1"
  shows "fst (mj_authorized_push j a r) = Inr () \<and>
    mj_authorized_push (mj_push j other) a r = (Inl (not_appended 2), a, mj_push j other)"
proof -
  have "authorized j a" using assms by (auto simp: mj_authorized_snapshot_def authorized_def)
  with authorized_push_iff [OF assms(2)] authorized_push_stale [OF _ assms(3)] show ?thesis by blast
qed

theorem authorized_append_exclusive_witness:
  "fst (mj_authorized_push (memory_journal_new 3) \<lparr>auth_identity = 3, auth_generation = 0\<rparr> (Terminal Committed)) = Inr ()"
  using authorized_append_exclusive [of "memory_journal_new 3" "[]" "\<lparr>auth_identity = 3, auth_generation = 0\<rparr>"]
  by (simp add: mj_authorized_snapshot_def memory_journal_new_def)

section \<open>Names, identities and authorization\<close>

text \<open>
  The key of a directory entry determines its parent and its leaf: entries of different
  parents, or with different folded names, never share a key.
\<close>

theorem entry_key_injective:
  "entry_key_from_parts parent leaf = entry_key_from_parts parent' leaf' \<longleftrightarrow> parent = parent' \<and> leaf = leaf'"
  by (rule entry_key_inj)

text \<open>
  An operation is authorized exactly when it stays on one volume and either stays in one
  parent or moves a plain file under the scope that allows it.
\<close>

theorem authorization_exact:
  "authorization_error op = None \<longleftrightarrow>
     volume (op_expected_source op) = volume (op_expected_source_parent op) \<and>
     volume (op_expected_source_parent op) = volume (op_expected_destination_parent op) \<and>
     (op_expected_source_parent op = op_expected_destination_parent op \<or>
      op_scope op = SameVolumeFilesOnly \<and> op_kind op = Some File)"
  by (rule authorized_iff)

text \<open>
  C25: the in-memory filesystem keeps the contract of the port: a move that succeeds moved the
  expected entry to an empty place, one that failed for certain changed nothing, and one that
  failed uncertainly did one of the two.
\<close>

theorem memory_rename_contract:
  assumes "mb_rename_no_replace b op = (res, b')"
  shows "case res of
      Inr _ \<Rightarrow> mb_occupancy b (mb_path_key (op_source op)) = Some (op_expected_source op) \<and>
        mb_occupancy b (mb_path_key (op_destination op)) = None \<and>
        mb_occupancy b' = (mb_occupancy b)(mb_path_key (op_source op) := None,
          mb_path_key (op_destination op) := Some (op_expected_source op))
    | Inl e \<Rightarrow> mb_occupancy b' = mb_occupancy b \<or> backend_certainty e = MayHaveApplied"
  using mb_rename_law [OF assms]
  by (cases res) (auto simp: operation_move_def move_enabled_def move_result_def)

theorem memory_rename_contract_witness:
  "\<exists>b'. mb_rename_no_replace swap_backend (with_authorization (file_path 97) (file_path 99)
      (file_identity 1) folder_identity folder_identity File SameParent) = (Inr (), b') \<and>
     mb_occupancy b' = (mb_occupancy swap_backend)(file_path 97 := None, file_path 99 := Some (file_identity 1))"
proof -
  let ?op = "with_authorization (file_path 97) (file_path 99) (file_identity 1) folder_identity
    folder_identity File SameParent"
  have "mb_entries swap_backend (file_path 97) = Some \<lparr>me_identity = file_identity 1, me_kind = File, me_reparse = False\<rparr>"
    "mb_entries swap_backend (file_path 99) = None" "mb_failures swap_backend = Map.empty"
    by (simp_all add: swap_backend_def with_parent_identity_def with_file_def with_file_identity_def
        memory_backend_new_def file_identity_def)
  then have ok: "fst (mb_rename_no_replace swap_backend ?op) = Inr ()"
    by (intro mb_rename_succeeds [where e = "\<lparr>me_identity = file_identity 1, me_kind = File, me_reparse = False\<rparr>"])
      (simp_all add: with_authorization_def authorized_iff swap_parent
        file_identity_def folder_identity_def)
  obtain b' where r: "mb_rename_no_replace swap_backend ?op = (Inr (), b')"
    using ok by (cases "mb_rename_no_replace swap_backend ?op") simp
  from memory_rename_contract [OF r] r show ?thesis by (simp add: with_authorization_def)
qed

section \<open>The transaction\<close>

text \<open>
  C7: the schedule built for a plan that is ready on the filesystem, chains and cycles included,
  never meets an occupied destination or another entry, and its steps together rename all rows
  at once. Building it changes nothing, and it fails only for a cancellation, a backend error,
  a changed parent, or when all candidate names are taken.
\<close>

theorem schedule_renames_at_once:
  assumes "memory_plan F plan" and "plan_ready mb_path_key (mb_occupancy b) plan"
  shows "case build_schedule_cancellable cancel memory_backend_ops plan b of (res, b') \<Rightarrow>
    mb_occupancy b' = mb_occupancy b \<and>
    (case res of
       Inl e \<Rightarrow> e \<noteq> Sched_Invalid \<and> (e = Sched_Cancelled \<longrightarrow> (\<exists>k. cancel k))
     | Inr (steps, _) \<Rightarrow> apply_moves (map (step_move mb_path_key) steps) (mb_occupancy b) =
         Some (renamed_occupancy mb_path_key plan (mb_occupancy b)))"
proof -
  obtain res b' where "build_schedule_cancellable cancel memory_backend_ops plan b = (res, b')"
    by (cases "build_schedule_cancellable cancel memory_backend_ops plan b")
  from rename_backend.schedule_simultaneous [OF mb.rename_backend_axioms memory_plan_located [OF assms(1)] assms(2) this]
    \<open>build_schedule_cancellable cancel memory_backend_ops plan b = (res, b')\<close>
  show ?thesis by (cases res) (auto simp: outside_failure_def)
qed

theorem schedule_renames_at_once_witness:
  "case build_schedule_cancellable (\<lambda>_. False) memory_backend_ops swap_plan swap_backend of (res, _) \<Rightarrow>
    (case res of
       Inl e \<Rightarrow> e \<noteq> Sched_Invalid \<and> e \<noteq> Sched_Cancelled
     | Inr (steps, _) \<Rightarrow> apply_moves (map (step_move mb_path_key) steps) (mb_occupancy swap_backend) =
         Some [file_path 97 \<mapsto> file_identity 2, file_path 98 \<mapsto> file_identity 1])"
  using schedule_renames_at_once [OF swap_memory_plan swap_plan_ready, of "\<lambda>_. False"]
  by (auto simp: swap_renamed split: prod.splits sum.splits)

text \<open>
  C6: executing a confirmed plan is all or nothing. A refusal changed neither the filesystem nor
  the journal; a completed report means that all rows were renamed at once; a rolled-back one
  means that the filesystem is as it was; and one that requires recovery left the journal of a
  transaction whose phase describes the filesystem, whatever failed and whenever it was cancelled.
\<close>

theorem execute_all_or_nothing:
  assumes "memory_plan F plan" and "plan_ready mb_path_key (mb_occupancy (w_backend w)) plan"
    and "port_journal P = memory_journal_ops" and "port_backend P = memory_backend_ops"
  shows "case execute_with_control P plan w of
      (Inl _, w') \<Rightarrow> mb_occupancy (w_backend w') = mb_occupancy (w_backend w) \<and>
        mj_records (w_journal w') = mj_records (w_journal w)
    | (Inr rep, w') \<Rightarrow>
        (case report_outcome rep of
           Exec_Completed \<Rightarrow> mb_occupancy (w_backend w') =
             renamed_occupancy mb_path_key plan (mb_occupancy (w_backend w))
         | Exec_RolledBack _ \<Rightarrow> mb_occupancy (w_backend w') = mb_occupancy (w_backend w) \<and>
             mj_recovery_state (w_journal w') = Clean
         | Exec_RecoveryRequired _ _ \<Rightarrow>
             (\<exists>steps phase. mem.at_world (plan_id_of plan) steps (mb_occupancy (w_backend w)) w' phase \<and>
               apply_moves (map (step_move mb_path_key) steps) (mb_occupancy (w_backend w)) =
                 Some (renamed_occupancy mb_path_key plan (mb_occupancy (w_backend w)))) \<or>
             mb_occupancy (w_backend w') = mb_occupancy (w_backend w) \<and>
             mj_records (w_journal w') = mj_records (w_journal w))"
proof -
  obtain res w' where run: "execute_with_control P plan w = (res, w')"
    by (cases "execute_with_control P plan w")
  from mem.execute_settles [OF memory_plan_located [OF assms(1)] assms(2) run assms(3,4)] run show ?thesis
    by (cases res) (auto simp: mem.settled_def mj_recovery_state_def split: execution_outcome.splits)
qed

definition swap_ports :: "(memory_backend, memory_journal) ports" where
  "swap_ports = \<lparr>port_backend = memory_backend_ops, port_journal = memory_journal_ops,
     port_control = noop_control\<rparr>"

definition swap_world :: "(memory_backend, memory_journal) world" where
  "swap_world = \<lparr>w_backend = swap_backend, w_journal = memory_journal_new 1, w_polls = 0, w_progress = []\<rparr>"

theorem execute_all_or_nothing_witness:
  "case execute_with_control swap_ports swap_plan swap_world of
      (Inl _, w') \<Rightarrow> mb_occupancy (w_backend w') = mb_occupancy swap_backend
    | (Inr rep, w') \<Rightarrow>
        (case report_outcome rep of
           Exec_Completed \<Rightarrow> mb_occupancy (w_backend w') =
             [file_path 97 \<mapsto> file_identity 2, file_path 98 \<mapsto> file_identity 1]
         | Exec_RolledBack _ \<Rightarrow> mb_occupancy (w_backend w') = mb_occupancy swap_backend
         | Exec_RecoveryRequired _ _ \<Rightarrow> True)"
  using execute_all_or_nothing [OF swap_memory_plan, of swap_world swap_ports] swap_plan_ready
  by (auto simp: swap_world_def swap_ports_def swap_renamed
      split: prod.splits sum.splits execution_outcome.splits)

text \<open>
  C8: recovery after a crash. From any state in which the journal's phase describes the
  filesystem, recovery ends with the filesystem of before the transaction and a clean journal,
  or stops without a change, or reports a failure and leaves a state from which it can be run
  again.
\<close>

theorem recovery_restores_all:
  assumes "memr.recovering p steps m0 j b phase"
    and "apply_moves (map (manifest_move mb_path_key) steps) m0 \<noteq> None"
    and "rp_journal P = memory_authorized_ops" and "rp_backend P = memory_backend_ops"
  shows "case recovery_rollback P b j of (out, b', j') \<Rightarrow>
    (case out of
       NotRequired \<Rightarrow> mb_occupancy b' = mb_occupancy b \<and> mj_records j' = mj_records j \<and> (\<exists>t. phase = Closed t)
     | Blocked _ _ \<Rightarrow> mb_occupancy b' = mb_occupancy b \<and> mj_records j' = mj_records j
     | Recovered q _ \<Rightarrow> q = p \<and> mb_occupancy b' = m0 \<and> mj_recovery_state j' = Clean
     | StillRequired q _ \<Rightarrow> q = p \<and> (\<exists>phase'. memr.recovering p steps m0 j' b' phase'))"
proof -
  obtain out b' j' where run: "recovery_rollback P b j = (out, b', j')"
    by (metis prod_cases3)
  from memr.recovery_restores [OF assms(1,2) run assms(3,4)] run show ?thesis
    by (cases out) (auto simp: memr.recovered_at_def mj_recovery_state_def)
qed

definition pending_step :: journal_step where
  "pending_step = with_move_authorization (journal_step_new 0 (file_path 97) (file_path 99)
     (file_identity 1) folder_identity folder_identity NoTemporary) File SameParent"

definition pending_journal :: memory_journal where
  "pending_journal = memory_journal_from_records 1 [Intent 5 [pending_step], Prepared 0 Forward]"

lemma pending_recovering:
  "memr.recovering 5 [pending_step] (mb_occupancy swap_backend) pending_journal swap_backend (ForwardPending 0)"
  by (simp add: memr.recovering_def transaction_at_def pending_journal_def memory_journal_from_records_def
      run_Cons protocol_steps)

lemma pending_feasible:
  "apply_moves (map (manifest_move mb_path_key) [pending_step]) (mb_occupancy swap_backend) \<noteq> None"
  by (simp add: pending_step_def manifest_move_def with_move_authorization_def journal_step_new_def
      move_enabled_def swap_occupancy)

theorem recovery_restores_all_witness:
  "case recovery_rollback memory_recovery swap_backend pending_journal of (out, b', j') \<Rightarrow>
    (case out of
       NotRequired \<Rightarrow> False
     | Blocked _ _ \<Rightarrow> mb_occupancy b' = mb_occupancy swap_backend
     | Recovered q _ \<Rightarrow> q = 5 \<and> mb_occupancy b' = mb_occupancy swap_backend \<and> mj_recovery_state j' = Clean
     | StillRequired q _ \<Rightarrow> q = 5)"
  using recovery_restores_all [OF pending_recovering pending_feasible, of memory_recovery]
  by (auto simp: memory_recovery_def split: prod.splits recovery_outcome.splits)

text \<open>
  C4: a crash anywhere. Execution on ports that die after any number of mutations, followed by
  recovery on what survived, ends with all rows renamed or with the filesystem of before the
  transaction, or stops without touching it, or leaves a state that recovery can be run on again.
\<close>

theorem crash_then_recover:
  assumes "memory_plan F plan" and "plan_ready mb_path_key (mb_occupancy b) plan"
    and "mj_records j = []" and "w_backend w = (b, kb)" and "w_journal w = (j, kj)"
    and "port_journal P = crash_journal_ops memory_journal_ops"
    and "port_backend P = crash_backend_ops memory_backend_ops"
  shows "case execute_with_control P plan w of (_, w') \<Rightarrow>
    (case recovery_rollback memory_recovery (fst (w_backend w')) (fst (w_journal w')) of (out, b', j') \<Rightarrow>
      (case out of
         NotRequired \<Rightarrow> mb_occupancy b' = mb_occupancy b \<or>
           mb_occupancy b' = renamed_occupancy mb_path_key plan (mb_occupancy b)
       | Recovered q _ \<Rightarrow> q = plan_id_of plan \<and> mb_occupancy b' = mb_occupancy b \<and>
           mj_recovery_state j' = Clean
       | Blocked _ _ \<Rightarrow> mb_occupancy b' = mb_occupancy (fst (w_backend w')) \<and>
           mj_records j' = mj_records (fst (w_journal w'))
       | StillRequired q _ \<Rightarrow> q = plan_id_of plan \<and> crashed q (mb_occupancy b)
           (renamed_occupancy mb_path_key plan (mb_occupancy b)) b' j'))"
proof -
  obtain res w' where run: "execute_with_control P plan w = (res, w')"
    by (cases "execute_with_control P plan w")
  let ?m1 = "renamed_occupancy mb_path_key plan (mb_occupancy b)"
  let ?b = "fst (w_backend w')" and ?j = "fst (w_journal w')"
  obtain out b' j' where rec: "recovery_rollback memory_recovery ?b ?j = (out, b', j')"
    by (metis prod_cases3)
  from crash_leaves_recoverable [OF assms run] consider
    "mb_occupancy ?b = mb_occupancy b \<or> mb_occupancy ?b = ?m1" "replay_journal (mj_records ?j) = Clean"
    | "crashed (plan_id_of plan) (mb_occupancy b) ?m1 ?b ?j" by blast
  then show ?thesis
  proof cases
    case 1
    with recovery_of_clean [OF 1(2), of ?b] show ?thesis by (simp add: run)
  next
    case 2
    from recovery_of_crashed [OF 2 rec] show ?thesis
      by (cases out) (simp_all add: run rec mj_recovery_state_def)
  qed
qed

definition dying_ports :: "(memory_backend \<times> nat, memory_journal \<times> nat) ports" where
  "dying_ports = \<lparr>port_backend = crash_backend_ops memory_backend_ops,
     port_journal = crash_journal_ops memory_journal_ops, port_control = noop_control\<rparr>"

definition dying_world :: "nat \<Rightarrow> nat \<Rightarrow> (memory_backend \<times> nat, memory_journal \<times> nat) world" where
  "dying_world kb kj = \<lparr>w_backend = (swap_backend, kb), w_journal = (memory_journal_new 1, kj),
     w_polls = 0, w_progress = []\<rparr>"

theorem crash_then_recover_witness:
  "case execute_with_control dying_ports swap_plan (dying_world 2 9) of (_, w') \<Rightarrow>
    (case recovery_rollback memory_recovery (fst (w_backend w')) (fst (w_journal w')) of (out, b', j') \<Rightarrow>
      (case out of
         NotRequired \<Rightarrow> mb_occupancy b' = mb_occupancy swap_backend \<or>
           mb_occupancy b' = [file_path 97 \<mapsto> file_identity 2, file_path 98 \<mapsto> file_identity 1]
       | Recovered q _ \<Rightarrow> q = 5 \<and> mb_occupancy b' = mb_occupancy swap_backend
       | Blocked _ _ \<Rightarrow> mb_occupancy b' = mb_occupancy (fst (w_backend w'))
       | StillRequired q _ \<Rightarrow> q = 5))"
  using crash_then_recover [OF swap_memory_plan swap_plan_ready, of "memory_journal_new 1" "dying_world 2 9" 2 9
      dying_ports]
  by (auto simp: dying_ports_def dying_world_def memory_journal_new_def swap_renamed
      split: prod.splits recovery_outcome.splits)

section \<open>Cancellation and capacity\<close>

text \<open>
  Cancellation and the begin of the journal exclude each other. In any interleaving of
  requests and begins on one token, a begin wins exactly when it is the very first operation.
\<close>

theorem begin_or_cancel:
  "True \<in> set (fst (run_token token_new operations)) \<longleftrightarrow> (\<exists>rest. operations = Commit # rest)"
  by (rule begin_wins_iff)

text \<open>
  The capacity check accepts a manifest exactly when it has at most 10000 steps and its
  intent frame, counted exactly, fits 16 MiB: the saturating sums never change the decision.
\<close>

theorem capacity_exact:
  "journal_requirements steps = Inr r \<longleftrightarrow>
     length steps \<le> 10000 \<and> manifest_bytes steps \<le> 16 * 1024 * 1024 \<and>
     r = \<lparr>primitive_steps = length steps, intent_frame_bytes = manifest_bytes steps\<rparr>"
  using journal_requirements_Inr [of steps r] by (simp add: journal_limits)

end
