(* ===== verification/Planner_Claims.thy ===== *)
theory Planner_Claims
  imports Planner_Correct Rename_Claims
begin

text \<open>
  What the planner promises, and the whole way from a request to the renamed files on the
  in-memory filesystem. The witnesses plan the swap of two files.
\<close>

section \<open>Errors of the planner\<close>

text \<open>A cancellation is reported only when it was requested, and a block always has issues.\<close>

definition honest :: "cancellation \<Rightarrow> plan_attempt_error \<Rightarrow> bool" where
  "honest cancel e =
     (case e of Plan_Cancelled \<Rightarrow> \<exists>k. cancel k | Plan_Blocked issues \<Rightarrow> issues \<noteq> [])"

named_theorems honesty

lemma plan_poll_honest [honesty]: "plan_poll cancel n = Inl e \<Longrightarrow> honest cancel e"
  by (auto simp: plan_poll_def honest_def split: if_splits)

lemma stage_end_honest [honesty]: "stage_end issues x = Inl e \<Longrightarrow> honest cancel e"
  by (auto simp: stage_end_def honest_def split: if_splits)

lemma each_not_Inl [simp]: "each f x s n \<noteq> Inl e"
  by (simp add: each_def)

lemma for_each_honest:
  assumes "for_each cancel f xs s n = Inl e" and "\<And>x s n e. f x s n = Inl e \<Longrightarrow> honest cancel e"
  shows "honest cancel e"
  using assms(1)
  by (induction xs arbitrary: s n) (auto simp: and_then_Inl dest: plan_poll_honest assms(2))

lemma each_honest [honesty]: "for_each cancel (each f) xs s n = Inl e \<Longrightarrow> honest cancel e"
  by (erule for_each_honest) simp

lemma push_issues_honest [honesty]: "push_issues cancel kind es issues n = Inl e \<Longrightarrow> honest cancel e"
  unfolding push_issues_def by (rule each_honest)

lemma append_duplicate_issues_honest [honesty]:
  "append_duplicate_issues cancel sets kind issues n = Inl e \<Longrightarrow> honest cancel e"
  unfolding append_duplicate_issues_def by (erule for_each_honest) (rule push_issues_honest)

lemma visit_loop_honest:
  "visit_loop k cancel verbatim root visit path s n = Inl e \<Longrightarrow> honest cancel e"
  by (induction k arbitrary: path s n)
    (auto simp: and_then_Inl Let_def dest: plan_poll_honest split: option.splits if_splits prod.splits)

lemma visit_ancestors_honest [honesty]:
  "visit_direct_ancestors cancel visit path s n = Inl e \<Longrightarrow> honest cancel e"
  unfolding visit_direct_ancestors_def Let_def by (rule visit_loop_honest)

lemma inspect_honest [honesty]:
  "inspect ops b cancel directories endpoint candidate observation compare s n = Inl e \<Longrightarrow> honest cancel e"
  by (auto simp: inspect_def split: prod.splits sum.splits if_splits dest: honesty)

lemma plan_row_honest [honesty]: "plan_row_of ops b cancel scope intent n = Inl e \<Longrightarrow> honest cancel e"
  by (auto simp: plan_row_of_def and_then_Inl Let_def split: sum.splits prod.splits if_splits dest: honesty)

lemma group_honest [honesty]: "group_duplicates ops b cancel cands s n = Inl e \<Longrightarrow> honest cancel e"
  by (cases s) (auto simp: group_duplicates_def and_then_Inl dest: honesty)

lemma stages_honest [honesty]:
  "changed_intents cancel entries n = Inl e \<Longrightarrow> honest cancel e"
  "validation_stage cancel entries changed n = Inl e \<Longrightarrow> honest cancel e"
  "environment_stage ops b cancel changed n = Inl e \<Longrightarrow> honest cancel e"
  "duplicates_stage ops b cancel changed n = Inl e \<Longrightarrow> honest cancel e"
  "freeze_stage ops b cancel scope changed n = Inl e \<Longrightarrow> honest cancel e"
  "destination_stage cancel rows n = Inl e \<Longrightarrow> honest cancel e"
  "source_stage ops b cancel entries rows n = Inl e \<Longrightarrow> honest cancel e"
  "directory_stage ops b cancel entries changed s n = Inl e \<Longrightarrow> honest cancel e"
  "occupied_stage cancel rows n = Inl e \<Longrightarrow> honest cancel e"
  "plan_id_cancellable cancel request n = Inl e \<Longrightarrow> honest cancel e"
  by (auto simp: changed_intents_def validation_stage_def environment_stage_def duplicates_stage_def
      freeze_stage_def destination_stage_def source_stage_def append_actual_duplicate_source_issues_def
      directory_stage_def occupied_stage_def plan_id_cancellable_def Let_def and_then_Inl
      split: if_splits dest: honesty dest!: for_each_honest)

text \<open>
  The planner stops for exactly two reasons: a cancellation that was requested, or a block
  with at least one issue. The planner that is never cancelled therefore never takes the branch
  the code marks as unreachable.
\<close>

theorem planner_errors:
  "case plan_cancellable ops b cancel request of
     Inl Plan_Cancelled \<Rightarrow> \<exists>k. cancel k
   | Inl (Plan_Blocked issues) \<Rightarrow> issues \<noteq> []
   | Inr plan \<Rightarrow> plan_revision plan = request_revision request \<and> plan_scope plan = request_scope request"
proof -
  have "honest cancel e" if "plan_cancellable ops b cancel request = Inl e" for e
    using that by (auto simp: plan_cancellable_def Let_def and_then_Inl dest: honesty)
  moreover have "sound_plan ops b request plan" if "plan_cancellable ops b cancel request = Inr plan" for plan
    using that by (rule plan_sound)
  ultimately show ?thesis
    by (auto simp: honest_def sound_plan_def Let_def split: sum.splits plan_attempt_error.splits)
qed

section \<open>The ancestor walk\<close>

text \<open>
  C18: the walk over the ancestors of a path, for every path, visitor and cancellation. Unless it
  is cancelled it calls the visitor on exactly the prefixes of the path that end at a separator after
  the root and have fewer than 256 such separators behind them, the longest first, until the visitor
  says stop; it reports a cancellation only when one was requested.
\<close>

theorem ancestor_walk_exact:
  "(case visit_direct_ancestors cancel visit path s n of
      Inl e \<Rightarrow> e = Plan_Cancelled \<and> (\<exists>m. n \<le> m \<and> cancel m)
    | Inr (s', n') \<Rightarrow> s' = visit_until visit (path_ancestors path) s) \<and>
   sorted_wrt (\<lambda>a a'. length a' < length a) (path_ancestors path) \<and>
   (a \<in> set (path_ancestors path) \<longleftrightarrow>
     (\<exists>i. path_cut path i \<and> a = take i path \<and> card {j. i < j \<and> path_cut path j} < 256))"
  using visit_direct_ancestors_exact [where cancel = cancel and visit = visit and path = path and s = s and n = n]
    path_ancestors_decreasing [of path] path_ancestor_iff [of a path]
  by (simp add: MAX_PLAN_PATH_DEPTH_def)

text \<open>
  The walk counts separators while the depth check that admits the path counts components. For
  \<open>c:\d\<close> followed by 257 separators and a name, two components deep, the walk only visits \<open>c:\d\<close>
  with separators behind it, and nothing above (\<open>redundant_separators_hide_ancestors\<close>).
\<close>

lemma redundant_separators_hide:
  defines "path \<equiv> [99, COLON, BACKSLASH, 100] @ replicate 257 BACKSLASH @ [101]"
  shows "path_component_depth path = 2 \<and> [99, COLON, BACKSLASH, 100] \<notin> set (path_ancestors path)"
proof -
  have "verbatim_drive_root_separator path = None"
    by (simp add: path_def verbatim_drive_root_separator_def)
  then have depth: "path_component_depth path = 2"
    and hidden: "a \<in> set (path_ancestors path) \<Longrightarrow> 4 < length a" for a
    using redundant_separators_hide_ancestors [of "[99, COLON, BACKSLASH, 100]" 257 "[101]" a]
    by (simp_all add: path_component_depth_def path_def is_separator_def is_ancestor_separator_def
        component_runs_skip MAX_PLAN_PATH_DEPTH_def)
  from hidden [of "[99, COLON, BACKSLASH, 100]"] depth show ?thesis by auto
qed

section \<open>Requests that are planned\<close>

lemma never_cancelled:
  "for_each (\<lambda>_. False) (each f) xs s n = Inr (fold f xs s, n + length xs)"
  by (induction xs arbitrary: s n) (auto simp: plan_poll_def each_def)

text \<open>The swap of two files as a request.\<close>

definition swap_intent :: "entry_id \<Rightarrow> u16 \<Rightarrow> u16 \<Rightarrow> rename_intent" where
  "swap_intent e u v = rename_intent_new e (file_path u) folder [v] File"

definition swap_request :: plan_request where
  "swap_request = \<lparr>request_revision = 1, request_entries = [swap_intent 0 97 98, swap_intent 1 98 97],
     request_scope = SameParent\<rparr>"

lemma swap_intent_fields [simp]:
  "intent_id (swap_intent e u v) = e" "intent_source (swap_intent e u v) = file_path u"
  "intent_parent (swap_intent e u v) = folder" "intent_name (swap_intent e u v) = [v]"
  "intent_destination (swap_intent e u v) = file_path v" "intent_kind (swap_intent e u v) = File"
  by (simp_all add: swap_intent_def rename_intent_new_def file_path_def)

lemma swap_request_fields [simp]:
  "request_entries swap_request = [swap_intent 0 97 98, swap_intent 1 98 97]"
  "request_scope swap_request = SameParent" "request_revision swap_request = 1"
  by (simp_all add: swap_request_def)

lemma swap_changed: "changed_intents (\<lambda>_. False) (request_entries swap_request) 0 =
    Inr (request_entries swap_request, 2)"
  unfolding changed_intents_def never_cancelled by (simp add: unchanged_def)

lemma file_paths:
  "is_absolute_windows_path (file_path u)" "path_component_depth (file_path 97) = 2"
  "path_component_depth (file_path 98) = 2" "is_absolute_windows_path folder" "path_component_depth folder = 1"
  by (simp_all add: is_absolute_windows_path_def path_component_depth_def file_path_def
      verbatim_drive_root_separator_def ascii_letter_def is_separator_def is_ancestor_separator_def drop_Cons')

lemma valid_single [simp]:
  "validate_windows_leaf_name [97] = Inr ()" "validate_windows_leaf_name [98] = Inr ()"
  using valid_leaf_iff [of "[97]"] valid_leaf_iff [of "[98]"]
  by (simp_all add: valid_leaf_def forbidden_unit_def base_name_def reserved_bases_def ascii_upper_def)

lemma swap_validated:
  "validation_stage (\<lambda>_. False) (request_entries swap_request) (request_entries swap_request) n = Inr (n + 2)"
  unfolding validation_stage_def never_cancelled
  by (simp add: stage_end_def validate_intent_def source_path_validation_def file_paths MAX_PLAN_PATH_DEPTH_def unchanged_def)

lemma swap_environment:
  "environment_stage memory_backend_ops swap_backend (\<lambda>_. False) (request_entries swap_request) n = Inr (n + 6)"
  by (simp add: environment_stage_def environment_issue_def memory_backend_ops_def each_def plan_poll_def stage_end_def)

lemma file_loop:
  "u \<noteq> BACKSLASH \<Longrightarrow> u \<noteq> SLASH \<Longrightarrow>
     visit_loop (Suc (Suc k)) (\<lambda>_. False) False 2 visit (file_path u) s n =
       (case visit folder s of (stop, s) \<Rightarrow> Inr (s, if stop then n + 1 else n + 2))"
  by (simp add: file_path_def plan_poll_def rposition_def is_ancestor_separator_def truncate_units_def
      split: prod.splits)

lemma file_ancestors:
  "u \<noteq> BACKSLASH \<Longrightarrow> u \<noteq> SLASH \<Longrightarrow>
     visit_direct_ancestors (\<lambda>_. False) visit (file_path u) s n =
       (case visit folder s of (stop, s) \<Rightarrow> Inr (s, if stop then n + 1 else n + 2))"
  using file_loop [of u 254 visit s n]
  by (simp add: visit_direct_ancestors_def MAX_PLAN_PATH_DEPTH_def verbatim_drive_root_separator_def file_path_def)

lemma file_order [simp]:
  "file_path 97 < file_path 98" "\<not> file_path 98 < file_path 97" "file_path u \<noteq> folder" "folder \<noteq> file_path u"
  by (simp_all add: file_path_def)

lemma swap_no_duplicates:
  "\<exists>n'. duplicates_stage memory_backend_ops swap_backend (\<lambda>_. False) (request_entries swap_request) n = Inr n'"
  unfolding duplicates_stage_def never_cancelled fold_push_owners and_then_simps prod.case
  by (simp add: append_duplicate_issues_def push_issues_def file_ancestors
      visit_source_owner_def plan_poll_def stage_end_def)

lemma swap_observed:
  "mb_observe swap_backend (file_path 97) = Inr (file_snapshot 1)"
  "mb_observe swap_backend (file_path 98) = Inr (file_snapshot 2)"
  by (simp_all add: mb_observe_def swap_parent file_snapshot_def)
    (simp_all add: swap_backend_def with_parent_identity_def with_file_def with_file_identity_def file_identity_def)

lemma single_key [simp]:
  "planned_entry_key_op memory_backend_ops b p [97] = Inr (entry_key_from_parts p [97])"
  "planned_entry_key_op memory_backend_ops b p [98] = Inr (entry_key_from_parts p [98])"
  by (simp_all add: memory_backend_ops_def mb_planned_entry_key_def ascii_lower_def)

lemma file_leaf: "u \<noteq> BACKSLASH \<Longrightarrow> u \<noteq> SLASH \<Longrightarrow> path_leaf (file_path u) = [u]"
  by (simp add: path_leaf_def file_path_def rposition_def drop_Cons')

lemma swap_resolved:
  "mb_resolve_source swap_backend (file_path 97) = Inr \<lparr>resolved_path = file_path 97,
     resolved_snapshot = file_snapshot 1, resolved_entry_key = Some (entry_key_from_parts folder_identity [97])\<rparr>"
  "mb_resolve_source swap_backend (file_path 98) = Inr \<lparr>resolved_path = file_path 98,
     resolved_snapshot = file_snapshot 2, resolved_entry_key = Some (entry_key_from_parts folder_identity [98])\<rparr>"
  by (simp_all add: mb_resolve_source_def swap_observed file_snapshot_def file_leaf
      single_key [unfolded memory_backend_ops_def, simplified])

lemma swap_frozen:
  "plan_row_of memory_backend_ops swap_backend (\<lambda>_. False) SameParent (swap_intent 0 97 98) n =
    Inr (Inr (swap_row 0 97 1 98 2), n + 2)"
  "plan_row_of memory_backend_ops swap_backend (\<lambda>_. False) SameParent (swap_intent 1 98 97) n =
    Inr (Inr (swap_row 1 98 2 97 1), n + 2)"
  by (simp_all add: plan_row_of_def swap_resolved swap_observed plan_poll_def check_resolved_def file_snapshot_def
      file_paths file_leaf MAX_PLAN_PATH_DEPTH_def move_issues_def folder_identity_def file_identity_def swap_row_def)

lemma swap_freeze:
  "\<exists>s n'. freeze_stage memory_backend_ops swap_backend (\<lambda>_. False) SameParent (request_entries swap_request) n =
     Inr (s, n') \<and> stage_rows s = [swap_row 0 97 1 98 2, swap_row 1 98 2 97 1]"
  by (simp add: freeze_stage_def swap_frozen plan_poll_def keep_row_def stage_end_def)

abbreviation swap_rows :: "plan_row list" where
  "swap_rows \<equiv> [swap_row 0 97 1 98 2, swap_row 1 98 2 97 1]"

lemma key_order [simp]:
  "entry_key_from_parts p l < entry_key_from_parts p m \<longleftrightarrow> l < m"
  "entry_key_from_parts p l = entry_key_from_parts p m \<longleftrightarrow> l = m"
proof -
  have "xs @ l < xs @ m \<longleftrightarrow> l < m" for xs :: "u16 list"
    by (induction xs) simp_all
  then have "(le_units 4 (volume p) @ le_units 8 (file_id p)) @ l <
      (le_units 4 (volume p) @ le_units 8 (file_id p)) @ m \<longleftrightarrow> l < m" .
  then show "entry_key_from_parts p l < entry_key_from_parts p m \<longleftrightarrow> l < m"
    by (simp add: entry_key_from_parts_def)
qed (simp add: entry_key_inj)

lemma swap_row_fields [simp]:
  "row_id (swap_row e u i v j) = e" "row_source_snapshot (swap_row e u i v j) = file_snapshot i"
  "row_destination_snapshot (swap_row e u i v j) = file_snapshot j"
  "row_source_key (swap_row e u i v j) = entry_key_from_parts folder_identity [u]"
  "row_destination_key (swap_row e u i v j) = entry_key_from_parts folder_identity [v]"
  by (simp_all add: swap_row_def)

lemma swap_stages:
  "\<exists>n'. destination_stage (\<lambda>_. False) swap_rows n = Inr n'"
  "\<exists>n'. occupied_stage (\<lambda>_. False) swap_rows n = Inr n'"
  "directory_stage memory_backend_ops b (\<lambda>_. False) entries (request_entries swap_request) s n = Inr n"
  subgoal unfolding destination_stage_def never_cancelled
    by (simp add: append_duplicate_issues_def stage_end_def)
  subgoal unfolding occupied_stage_def never_cancelled
    by (simp add: occupied_issue_def file_snapshot_def stage_end_def)
  subgoal by (simp add: directory_stage_def)
  done

lemma swap_sources:
  "\<exists>n'. source_stage memory_backend_ops swap_backend (\<lambda>_. False) (request_entries swap_request) swap_rows n = Inr n'"
proof -
  have "(folder_identity, file_identity 1) < (folder_identity, file_identity 2)" "file_identity 2 \<noteq> file_identity 1"
    by (simp_all add: less_entry_identity_ext_def folder_identity_def file_identity_def)
  then show ?thesis
    unfolding source_stage_def append_actual_duplicate_source_issues_def never_cancelled
    by (simp add: push_changed_candidate_def file_snapshot_def unchanged_def shared_def push_issues_def stage_end_def)
qed

lemma swap_planned:
  "\<exists>plan. plan_cancellable memory_backend_ops swap_backend (\<lambda>_. False) swap_request = Inr plan"
proof -
  obtain n1 where 1: "duplicates_stage memory_backend_ops swap_backend (\<lambda>_. False) (request_entries swap_request) 10 = Inr n1"
    using swap_no_duplicates [of 10] by blast
  obtain s n2 where 2: "freeze_stage memory_backend_ops swap_backend (\<lambda>_. False) SameParent
      (request_entries swap_request) n1 = Inr (s, n2)" "stage_rows s = swap_rows" using swap_freeze [of n1] by blast
  obtain n3 where 3: "destination_stage (\<lambda>_. False) swap_rows n2 = Inr n3" using swap_stages(1) by blast
  obtain n4 where 4: "source_stage memory_backend_ops swap_backend (\<lambda>_. False) (request_entries swap_request) swap_rows n3 = Inr n4"
    using swap_sources by blast
  obtain n5 where 5: "occupied_stage (\<lambda>_. False) swap_rows n4 = Inr n5" using swap_stages(2) by blast
  show ?thesis
    unfolding plan_cancellable_def Let_def swap_changed and_then_simps prod.case swap_validated swap_environment
    by (simp add: 1 2 3 4 5 swap_stages(3) plan_poll_def plan_id_cancellable_def never_cancelled
        del: swap_request_fields(1))
qed

lemma swap_coherent: "coherent_request swap_backend swap_request"
proof -
  have "mb_path_key (parent_units (file_path 97)) = folder" "mb_path_key (parent_units (file_path 98)) = folder"
    by (simp_all add: parent_units_file)
  then have "request_folders swap_request = {folder}" by (auto simp: request_folders_def)
  then show ?thesis
    by (simp add: coherent_request_def built_intent_def swap_intent_def rename_intent_new_def file_path_def)
qed

section \<open>Sound plans\<close>

text \<open>
  C9: a plan is sound. Whatever the backend, a plan the planner returns has one row for every
  changed intent, in order, frozen from the backend's own answers at planning time with a move the
  backend would authorize; its identifiers, source paths and destinations are distinct; every
  destination is free or is the source of another row; no source is an ancestor of another by
  path; and no row leaves or enters a directory that the plan itself renames. When the plan renames
  directories, no entry of the request, changed or not, and no destination lies below one of them by
  identity: every ancestor the walk visits (\<open>ancestor_walk_exact\<close>) is either not there, or neither it
  nor its parent is a renamed directory; and no directory is renamed by two rows.
\<close>

theorem planner_sound:
  assumes "plan_cancellable ops b cancel request = Inr plan"
  shows "sound_plan ops b request plan"
  by (rule plan_sound [OF assms])

theorem planner_sound_witness:
  "\<exists>plan. plan_cancellable memory_backend_ops swap_backend (\<lambda>_. False) swap_request = Inr plan \<and>
     sound_plan memory_backend_ops swap_backend swap_request plan"
  using swap_planned planner_sound by metis

section \<open>From a request to the renamed files\<close>

text \<open>The destination of a row receives the entry of its source.\<close>

lemma renamed_row:
  assumes "memory_plan F plan" and "plan_ready mb_path_key m plan" and "row \<in> set (plan_entries plan)"
  shows "renamed_occupancy mb_path_key plan m (mb_path_key (row_destination row)) = m (mb_path_key (row_source row))"
proof -
  have keys: "row_destination_key r = row_destination_key row"
    if "r \<in> set (plan_entries plan)" "mb_path_key (row_destination r) = mb_path_key (row_destination row)" for r
  proof -
    note l = memory_plan_located [OF assms(1), unfolded located_def]
    with that assms(3) have "key_path F (row_destination_key r) = key_path F (row_destination_key row)" by metis
    with l that assms(3) show ?thesis by (metis inj_on_def)
  qed
  have "find (\<lambda>r. mb_path_key (row_destination r) = mb_path_key (row_destination row)) (plan_entries plan) = Some row"
  proof -
    obtain r where r: "find (\<lambda>r. mb_path_key (row_destination r) = mb_path_key (row_destination row)) (plan_entries plan) = Some r"
      using assms(3) by (cases "find (\<lambda>r. mb_path_key (row_destination r) = mb_path_key (row_destination row)) (plan_entries plan)")
        (auto simp: find_None_iff)
    then have "r \<in> set (plan_entries plan)" "row_destination_key r = row_destination_key row"
      using keys by (auto simp: find_Some_iff)
    with assms(2,3) r show ?thesis by (metis distinct_map inj_on_def plan_ready_def)
  qed
  with assms(2,3) show ?thesis by (simp add: renamed_occupancy_def plan_ready_def)
qed

lemma renamed_elsewhere:
  "(\<And>row. row \<in> set (plan_entries plan) \<Longrightarrow> loc (row_destination row) \<noteq> x) \<Longrightarrow>
     renamed_occupancy loc plan m x = (if \<exists>row\<in>set (plan_entries plan). loc (row_source row) = x then None else m x)"
  using find_None_iff [of "\<lambda>row. loc (row_destination row) = x" "plan_entries plan"]
  by (simp add: renamed_occupancy_def)

text \<open>What a request asks for, on the occupancy of the filesystem.\<close>

definition request_applied :: "plan_request \<Rightarrow> path_key occupancy \<Rightarrow> path_key occupancy \<Rightarrow> bool" where
  "request_applied request m m' \<longleftrightarrow>
     (let changed = filter (\<lambda>intent. \<not> unchanged intent) (request_entries request);
          sources = (\<lambda>intent. mb_path_key (intent_source intent)) ` set changed;
          destinations = (\<lambda>intent. mb_path_key (intent_destination intent)) ` set changed in
      (\<forall>intent\<in>set changed. m (mb_path_key (intent_source intent)) \<noteq> None \<and>
         m' (mb_path_key (intent_destination intent)) = m (mb_path_key (intent_source intent))) \<and>
      (\<forall>x\<in>sources - destinations. m' x = None) \<and>
      (\<forall>x. x \<notin> sources \<union> destinations \<longrightarrow> m' x = m x))"

lemma renamed_is_applied:
  assumes "plan_cancellable memory_backend_ops b cancel request = Inr plan" and "coherent_request b request"
  shows "request_applied request (mb_occupancy b) (renamed_occupancy mb_path_key plan (mb_occupancy b))"
proof -
  let ?changed = "filter (\<lambda>intent. \<not> unchanged intent) (request_entries request)"
  let ?m = "mb_occupancy b" and ?m' = "renamed_occupancy mb_path_key plan (mb_occupancy b)"
  note ready = coherent_plan_ready [OF assms]
  have rows: "list_all2 (frozen_row memory_backend_ops b (request_scope request)) ?changed (plan_entries plan)"
    using plan_sound [OF assms(1)] by (simp add: sound_plan_def Let_def)
  have src: "map row_source (plan_entries plan) = map intent_source ?changed" by (rule frozen_memory_sources [OF rows])
  have dst: "map row_destination (plan_entries plan) = map intent_destination ?changed"
    using rows by (induction rule: list_all2_induct) (auto simp: frozen_row_def)
  from arg_cong [OF src, of "\<lambda>ps. mb_path_key ` set ps"]
  have s: "(\<lambda>intent. mb_path_key (intent_source intent)) ` set ?changed =
      (\<lambda>row. mb_path_key (row_source row)) ` set (plan_entries plan)"
    by (simp only: set_map image_image)
  from arg_cong [OF dst, of "\<lambda>ps. mb_path_key ` set ps"]
  have d: "(\<lambda>intent. mb_path_key (intent_destination intent)) ` set ?changed =
      (\<lambda>row. mb_path_key (row_destination row)) ` set (plan_entries plan)"
    by (simp only: set_map image_image)
  have "?m (mb_path_key (intent_source intent)) \<noteq> None \<and>
      ?m' (mb_path_key (intent_destination intent)) = ?m (mb_path_key (intent_source intent))"
    if "intent \<in> set ?changed" for intent
  proof -
    from that obtain k where k: "k < length ?changed" "intent = ?changed ! k" by (metis in_set_conv_nth)
    with rows have row: "plan_entries plan ! k \<in> set (plan_entries plan)"
      and frozen: "frozen_row memory_backend_ops b (request_scope request) intent (plan_entries plan ! k)"
      by (auto simp: list_all2_conv_all_nth)
    from frozen have "row_source (plan_entries plan ! k) = intent_source intent"
      "row_destination (plan_entries plan ! k) = intent_destination intent"
      by (auto simp: frozen_row_def dest: mb_resolve_parent)
    moreover from ready row have "?m (mb_path_key (row_source (plan_entries plan ! k))) \<noteq> None"
      by (simp add: plan_ready_def)
    ultimately show ?thesis
      using renamed_row [OF conjunct1 [OF ready] conjunct2 [OF ready] row] by simp
  qed
  moreover have "?m' x = (if \<exists>row\<in>set (plan_entries plan). mb_path_key (row_source row) = x then None else ?m x)"
    if "x \<notin> (\<lambda>row. mb_path_key (row_destination row)) ` set (plan_entries plan)" for x
    by (rule renamed_elsewhere) (use that in auto)
  ultimately show ?thesis
    unfolding request_applied_def Let_def s d by auto
qed

text \<open>
  C2: planning and executing. When a request over the in-memory filesystem is planned, the plan is
  confirmed as it was displayed, and the transaction runs, then a completed run did to the
  filesystem what the request asks for: every changed entry is at its destination, sources that
  are not destinations are empty, and nothing else changed. Every other end is a filesystem as
  before, or a journal from which recovery continues.
\<close>

theorem planned_request_executes:
  assumes "plan_cancellable memory_backend_ops (w_backend w) cancel request = Inr plan"
    and "coherent_request (w_backend w) request"
    and "confirm_presented plan displayed_id displayed_revision = Inr confirmed"
    and "port_journal P = memory_journal_ops" and "port_backend P = memory_backend_ops"
  shows "displayed_revision = request_revision request \<and>
    (case execute_with_control P confirmed w of
      (Inl _, w') \<Rightarrow> mb_occupancy (w_backend w') = mb_occupancy (w_backend w) \<and>
        mj_records (w_journal w') = mj_records (w_journal w)
    | (Inr rep, w') \<Rightarrow>
        (case report_outcome rep of
           Exec_Completed \<Rightarrow>
             request_applied request (mb_occupancy (w_backend w)) (mb_occupancy (w_backend w'))
         | Exec_RolledBack _ \<Rightarrow> mb_occupancy (w_backend w') = mb_occupancy (w_backend w) \<and>
             mj_recovery_state (w_journal w') = Clean
         | Exec_RecoveryRequired _ _ \<Rightarrow>
             (\<exists>steps phase. mem.at_world (plan_id_of plan) steps (mb_occupancy (w_backend w)) w' phase) \<or>
             mb_occupancy (w_backend w') = mb_occupancy (w_backend w) \<and>
             mj_records (w_journal w') = mj_records (w_journal w)))"
proof -
  from assms(3) have c: "confirmed = plan" "plan_revision plan = displayed_revision"
    by (auto simp: confirm_presented_def split: if_splits)
  note ready = coherent_plan_ready [OF assms(1,2)]
  obtain res w' where run: "execute_with_control P plan w = (res, w')"
    by (cases "execute_with_control P plan w")
  from mem.execute_settles [OF memory_plan_located [OF conjunct1 [OF ready]] conjunct2 [OF ready] run assms(4,5)]
    run renamed_is_applied [OF assms(1,2)] plan_sound [OF assms(1)] c
  show ?thesis
    by (cases res) (auto simp: mem.settled_def mj_recovery_state_def sound_plan_def Let_def split: execution_outcome.splits)
qed

theorem planned_request_executes_witness:
  "\<exists>plan. plan_cancellable memory_backend_ops swap_backend (\<lambda>_. False) swap_request = Inr plan \<and>
    (case execute_with_control swap_ports plan swap_world of
       (Inl _, w') \<Rightarrow> mb_occupancy (w_backend w') = mb_occupancy swap_backend
     | (Inr rep, w') \<Rightarrow> report_outcome rep = Exec_Completed \<longrightarrow>
         request_applied swap_request (mb_occupancy swap_backend) (mb_occupancy (w_backend w')))"
proof -
  obtain plan where plan: "plan_cancellable memory_backend_ops swap_backend (\<lambda>_. False) swap_request = Inr plan"
    using swap_planned by blast
  have w: "w_backend swap_world = swap_backend" by (simp add: swap_world_def)
  have "confirm_presented plan (plan_id_of plan) (plan_revision plan) = Inr plan" by (simp add: confirm_presented_def)
  from planned_request_executes [of swap_world, unfolded w, OF plan swap_coherent this, of swap_ports] plan
  show ?thesis
    by (auto simp: swap_ports_def w split: prod.splits sum.splits execution_outcome.splits)
qed

end
