(* ===== verification/Quiet_Run.thy ===== *)
theory Quiet_Run
  imports Planner_Correct Crash_Recovery
begin

unbundle bit_operations_syntax

text \<open>
  Total correctness of a run on the in-memory ports: when nothing fails and nobody cancels, the
  schedule is built, every check passes, every step succeeds, and the run completes. The only
  refusal left is the capacity of the journal.
\<close>

section \<open>Temporary names\<close>

text \<open>A temporary name is a valid leaf in lower case, and its nonce can be read off.\<close>

definition plain_unit :: "u16 \<Rightarrow> bool" where
  "plain_unit u \<longleftrightarrow> 48 \<le> u \<and> u \<le> 57 \<or> 97 \<le> u \<and> u \<le> 122 \<or> u = 95 \<or> u = DOT"

lemma hex_digit_values:
  "d < 16 \<Longrightarrow> hex_digit d \<in> set [48, 49, 50, 51, 52, 53, 54, 55, 56, 57, 97, 98, 99, 100, 101, 102]"
  unfolding hex_digit_def by (auto simp: less_Suc_eq eval_nat_numeral)

lemma hex_digit_plain: "d < 16 \<Longrightarrow> plain_unit (hex_digit d)"
  using hex_digit_values [of d] by (auto simp: plain_unit_def)

lemma hex_digit_inj:
  assumes "d < 16" and "e < 16" and "hex_digit d = hex_digit e"
  shows "d = e"
proof -
  have unat: "unat (hex_digit k) = (if k < 10 then 48 + k else 87 + k)" if "k < 16" for k
    using that unfolding hex_digit_def by (simp add: unat_of_nat del: of_nat_add)
  from arg_cong [OF assms(3), of unat] unat [OF assms(1)] unat [OF assms(2)] assms(1,2)
  show ?thesis by (simp split: if_split_asm)
qed

lemma nibble_take_bit: "w AND 15 = take_bit 4 (w :: 'a::len word)"
  by (simp add: take_bit_eq_mask mask_eq_exp_minus_1)

lemma nibble: "unat (w AND 15 :: 'a::len word) < 16"
  unfolding nibble_take_bit unsigned_take_bit_eq using take_bit_nat_less_exp [of 4 "unat w"] by simp

lemma hex_units_inj:
  fixes v w :: "'a::len word"
  assumes "LENGTH('a) \<le> 4 * n" and "hex_units n v = hex_units n w"
  shows "v = w"
proof (rule bit_word_eqI)
  fix k assume k: "k < LENGTH('a)"
  let ?i = "k div 4"
  have i: "?i < n" using k assms(1) by (simp add: less_mult_imp_div_less)
  from assms(2) have "\<forall>i\<in>set (rev [0..<n]). hex_digit (unat (drop_bit (4 * i) v AND 15)) =
      hex_digit (unat (drop_bit (4 * i) w AND 15))"
    unfolding hex_units_def by (simp only: map_eq_conv)
  with i have "hex_digit (unat (drop_bit (4 * ?i) v AND 15)) = hex_digit (unat (drop_bit (4 * ?i) w AND 15))" by simp
  then have "drop_bit (4 * ?i) v AND 15 = drop_bit (4 * ?i) w AND 15"
    using hex_digit_inj [OF nibble nibble] by (simp add: word_unat_eq_iff)
  then have "bit (take_bit 4 (drop_bit (4 * ?i) v)) (k mod 4) = bit (take_bit 4 (drop_bit (4 * ?i) w)) (k mod 4)"
    by (simp only: nibble_take_bit)
  then show "bit v k \<longleftrightarrow> bit w k"
    by (simp add: bit_take_bit_iff bit_drop_bit_eq)
qed

lemma hex_units_plain: "u \<in> set (hex_units n w) \<Longrightarrow> plain_unit u"
  using nibble by (auto simp: hex_units_def intro!: hex_digit_plain)

lemma length_hex_units [simp]: "length (hex_units n w) = n"
  by (simp add: hex_units_def)

lemma ascii_units_literals [simp]:
  "ascii_units ''.__darknamer_'' = [46, 95, 95, 100, 97, 114, 107, 110, 97, 109, 101, 114, 95]"
  "ascii_units ''_'' = [95]" "ascii_units ''.tmp'' = [46, 116, 109, 112]"
  by (simp_all add: ascii_units_def)

lemma temporary_leaf_nonce:
  assumes "temporary_leaf p n e k = temporary_leaf p n' e' k'"
  shows "n = n'"
proof -
  from assms have "hex_units 32 n = hex_units 32 n'" by (simp add: temporary_leaf_def)
  then show ?thesis by (rule hex_units_inj [rotated]) simp
qed

lemma temporary_leaf_plain: "u \<in> set (temporary_leaf p n e k) \<Longrightarrow> plain_unit u"
  by (auto simp: temporary_leaf_def plain_unit_def [of "46"] plain_unit_def [of "95"] dest: hex_units_plain)
    (simp_all add: plain_unit_def)

lemma plain_unit_lower: "plain_unit u \<Longrightarrow> ascii_lower u = u"
  by (auto simp: plain_unit_def ascii_lower_def word_le_nat_alt word_less_nat_alt)

lemma plain_unit_allowed: "plain_unit u \<Longrightarrow> \<not> forbidden_unit u"
  by (auto simp: plain_unit_def forbidden_unit_def word_le_nat_alt word_less_nat_alt)

lemma temporary_leaf_lower [simp]: "map ascii_lower (temporary_leaf p n e k) = temporary_leaf p n e k"
  by (rule map_idI) (simp add: plain_unit_lower temporary_leaf_plain)

lemma temporary_leaf_valid: "valid_leaf (temporary_leaf p n e k)"
  unfolding valid_leaf_iff
proof (intro conjI ballI)
  show "length (temporary_leaf p n e k) \<le> 255" "temporary_leaf p n e k \<noteq> []"
    "last (temporary_leaf p n e k) \<notin> {DOT, 32}" by (simp_all add: temporary_leaf_def)
  show "map ascii_upper (base_name (temporary_leaf p n e k)) \<notin> reserved_bases"
    by (simp add: temporary_leaf_def base_name_def reserved_bases_def)
qed (simp add: plain_unit_allowed temporary_leaf_plain)

section \<open>The schedule is built\<close>

lemma mb_parent_nonce [simp]:
  "parent_identity (b\<lparr>mb_nonce := x\<rparr>) path = parent_identity b path"
  "mb_observe (b\<lparr>mb_nonce := x\<rparr>) path = mb_observe b path"
  "mb_resolve_source (b\<lparr>mb_nonce := x\<rparr>) path = mb_resolve_source b path"
  by (simp_all add: parent_identity_def mb_observe_def mb_resolve_source_def)

lemma temporary_parent:
  assumes "\<forall>u\<in>set leaf. u \<noteq> BACKSLASH \<and> u \<noteq> SLASH"
  shows "parent_identity b (temporary_path row leaf) = parent_identity b (row_source row)"
proof -
  have s: "is_separator = (\<lambda>u. u = BACKSLASH \<or> u = SLASH)" by (simp add: fun_eq_iff is_separator_def)
  have "rposition is_separator (schedule_parent_units (row_source row) @ [BACKSLASH] @ leaf) =
      Some (length (schedule_parent_units (row_source row)))"
    using assms rposition_append [of is_separator "schedule_parent_units (row_source row) @ [BACKSLASH]" leaf]
    by (auto simp: s rposition_snoc rposition_None [THEN iffD2])
  then have "parent_units (temporary_path row leaf) = parent_units (row_source row)"
    by (simp add: parent_units_def temporary_path_def schedule_parent_units_def s split: option.splits)
  then show ?thesis by (simp add: parent_identity_def)
qed

lemma temporary_leaf_separators: "\<forall>u\<in>set (temporary_leaf p n e k). u \<noteq> BACKSLASH \<and> u \<noteq> SLASH"
  using valid_leaf_no_separator [OF temporary_leaf_valid] by blast

text \<open>No entry of the filesystem and no endpoint of the plan has a temporary name of the plan.\<close>

definition unused_temporaries :: "memory_backend \<Rightarrow> rename_plan \<Rightarrow> bool" where
  "unused_temporaries b plan \<longleftrightarrow>
     (\<forall>n e k. (\<forall>p. mb_entries b (p @ BACKSLASH # temporary_leaf (plan_id_of plan) n e k) = None) \<and>
        (\<forall>row\<in>set (plan_entries plan). \<forall>parent.
           row_source_key row \<noteq> entry_key_from_parts parent (temporary_leaf (plan_id_of plan) n e k) \<and>
           row_destination_key row \<noteq> entry_key_from_parts parent (temporary_leaf (plan_id_of plan) n e k)))"

definition temporary_of :: "rename_plan \<Rightarrow> plan_row \<Rightarrow> u128 \<Rightarrow> legacy_text" where
  "temporary_of plan row n = temporary_path row (temporary_leaf (plan_id_of plan) n (row_id row) 0)"

lemma temporary_key:
  "mb_path_key (temporary_of plan row n) =
     mb_path_key (schedule_parent_units (row_source row)) @ BACKSLASH # temporary_leaf (plan_id_of plan) n (row_id row) 0"
  by (simp add: temporary_of_def temporary_path_def mb_path_key_def)

lemma memory_nonce [simp]: "next_nonce_op memory_backend_ops = mb_next_nonce"
  by (simp add: memory_backend_ops_def)

lemma first_candidate:
  assumes parent: "snapshot_parent (row_source_snapshot row) = parent_identity b (row_source row)"
    and nonce: "mb_nonce b \<noteq> - 1" and unused: "unused_temporaries b plan"
    and fresh: "entry_key_from_parts (parent_identity b (row_source row))
      (temporary_leaf (plan_id_of plan) (mb_nonce b) (row_id row) 0) \<notin> reserved"
  shows "unique_temporary_path (\<lambda>_. False) memory_backend_ops b (plan_id_of plan) row reserved polls =
    (Inr (temporary_of plan row (mb_nonce b),
       insert (entry_key_from_parts (parent_identity b (row_source row))
         (temporary_leaf (plan_id_of plan) (mb_nonce b) (row_id row) 0)) reserved, polls + 2),
     b\<lparr>mb_nonce := mb_nonce b + 1\<rparr>)"
proof -
  let ?leaf = "temporary_leaf (plan_id_of plan) (mb_nonce b) (row_id row) 0"
  have ord: "[0..<MAX_TEMP_CANDIDATES] = 0 # [1..<32]" by (simp add: MAX_TEMP_CANDIDATES_def upt_rec)
  have key: "mb_planned_entry_key p ?leaf = Inr (entry_key_from_parts p ?leaf)" for p
    using temporary_leaf_valid [of "plan_id_of plan" "mb_nonce b" "row_id row" 0]
    by (simp add: mb_planned_entry_key_def valid_leaf_def)
  have free: "mb_entries b (mb_path_key (temporary_path row ?leaf)) = None"
    using unused temporary_key [of plan row "mb_nonce b"] by (simp add: unused_temporaries_def temporary_of_def)
  have "try_candidate (\<lambda>_. False) memory_backend_ops (b\<lparr>mb_nonce := mb_nonce b + 1\<rparr>) (plan_id_of plan) row
      (mb_nonce b) reserved (Suc polls) 0 =
    Inr (Some (temporary_of plan row (mb_nonce b), entry_key_from_parts (parent_identity b (row_source row)) ?leaf), polls + 2)"
    using fresh free parent temporary_parent [OF temporary_leaf_separators]
    by (simp add: try_candidate_def check_cancelled_def memory_backend_ops_def key mb_observe_def temporary_of_def Let_def)
  then show ?thesis
    using nonce by (simp add: unique_temporary_path_def check_cancelled_def ord temporary_of_def
        mb_next_nonce_def Let_def)
qed

text \<open>
  The shape of every step, and the invariant of the loop: only the nonce of the backend moves, and
  the reserved temporaries have older nonces.
\<close>

definition step_of_row :: "rename_plan \<Rightarrow> plan_row \<Rightarrow> schedule_step \<Rightarrow> bool" where
  "step_of_row plan row st \<longleftrightarrow>
     (\<exists>ident. source_identity row = Inr ident \<and>
        (direct_step row (plan_scope plan) = Inr st \<or>
         (\<exists>n. st = into_temporary row (plan_scope plan) (temporary_of plan row n) ident \<or>
              st = from_temporary row (plan_scope plan) (temporary_of plan row n) ident)))"

definition planned_step :: "rename_plan \<Rightarrow> schedule_step \<Rightarrow> bool" where
  "planned_step plan st \<longleftrightarrow> (\<exists>row\<in>set (plan_entries plan). step_of_row plan row st)"

definition reserved_names :: "rename_plan \<Rightarrow> u128 \<Rightarrow> path_key set" where
  "reserved_names plan nonce =
     row_source_key ` set (plan_entries plan) \<union> row_destination_key ` set (plan_entries plan) \<union>
     {entry_key_from_parts p (temporary_leaf (plan_id_of plan) n e 0) |p n e. n < nonce}"

definition quiet_state :: "rename_plan \<Rightarrow> memory_backend \<Rightarrow> nat \<Rightarrow> nat \<Rightarrow> schedule_state \<Rightarrow> memory_backend \<Rightarrow> bool" where
  "quiet_state plan b0 budget limit s b \<longleftrightarrow>
     b = b0\<lparr>mb_nonce := mb_nonce b\<rparr> \<and> unat (mb_nonce b) + length (ss_indices s) \<le> budget \<and>
     length (ss_out s) + 2 * length (ss_indices s) \<le> limit \<and>
     ss_reserved s \<subseteq> reserved_names plan (mb_nonce b) \<and>
     (\<forall>st\<in>set (ss_out s). planned_step plan st) \<and>
     (\<forall>i\<in>set (ss_indices s). i < length (plan_entries plan))"

lemma finish_row_quiet:
  assumes "finish_row i s = Inr s'" and "quiet_state plan b0 (Suc budget) (Suc (Suc limit)) s b"
  shows "quiet_state plan b0 budget limit s' b"
  using assms finish_row_shrinks [OF assms(1)]
  by (auto simp: finish_row_def quiet_state_def split: if_splits dest: notin_set_remove1)

lemma push_direct_quiet:
  assumes "push_direct plan i s = Inr s'" and q: "quiet_state plan b0 budget limit s b"
  shows "quiet_state plan b0 budget limit s' b"
proof -
  from assms(1) obtain st where st: "direct_step (plan_entries plan ! i) (plan_scope plan) = Inr st"
    "finish_row i (s\<lparr>ss_out := ss_out s @ [st]\<rparr>) = Inr s'"
    by (auto simp: push_direct_def and_then_Inr split: if_splits)
  then have i: "i \<in> set (ss_indices s)" by (auto simp: finish_row_def split: if_splits)
  with q have row: "plan_entries plan ! i \<in> set (plan_entries plan)" by (auto simp: quiet_state_def)
  with st(1) have "planned_step plan st"
    by (auto simp: planned_step_def step_of_row_def direct_step_def and_then_Inr)
  with q have "quiet_state plan b0 (Suc budget) (Suc (Suc limit)) (s\<lparr>ss_out := ss_out s @ [st]\<rparr>) b" by (simp add: quiet_state_def)
  from finish_row_quiet [OF st(2) this] show ?thesis by simp
qed

lemma push_direct_invalid: "push_direct plan i s = Inl e \<Longrightarrow> e = Sched_Invalid"
  by (auto simp: push_direct_def and_then_Inl direct_step_def source_identity_def finish_row_def split: if_splits)

lemma quiet_fields [simp]:
  "quiet_state plan b0 budget limit (s\<lparr>ss_polls := n\<rparr>) b = quiet_state plan b0 budget limit s b"
  "quiet_state plan b0 budget limit (s\<lparr>ss_ready := r\<rparr>) b = quiet_state plan b0 budget limit s b"
  by (simp_all add: quiet_state_def)

lemma cycle_walk_quiet:
  assumes "quiet_state plan b0 budget limit s b"
  shows "case cycle_walk (\<lambda>_. False) plan preds pivot freed s of
    Inl e \<Rightarrow> e = Sched_Invalid | Inr s' \<Rightarrow> quiet_state plan b0 budget limit s' b"
  using assms
proof (induction "\<lambda>_ :: nat. False" plan preds pivot freed s rule: cycle_walk.induct)
  case (1 plan preds pivot freed s)
  show ?case
  proof (cases "preds ! freed")
    case None
    with 1(2) show ?thesis by (subst cycle_walk.simps) simp
  next
    case (Some i)
    let ?s = "s\<lparr>ss_polls := ss_polls s + 1\<rparr>"
    show ?thesis
    proof (cases "i = pivot")
      case True
      with Some 1(2) show ?thesis by (subst cycle_walk.simps) (simp add: check_cancelled_def)
    next
      case False
      show ?thesis
      proof (cases "push_direct plan i ?s")
        case (Inl e)
        with False Some push_direct_invalid [OF Inl] show ?thesis
          by (subst cycle_walk.simps) (simp add: check_cancelled_def)
      next
        case (Inr s')
        with False Some 1(1) [of i "ss_polls s + 1" s'] push_direct_quiet [OF Inr] 1(2) show ?thesis
          by (subst cycle_walk.simps) (simp add: check_cancelled_def)
      qed
    qed
  qed
qed

lemma unreserved:
  assumes "unused_temporaries b plan"
  shows "entry_key_from_parts parent (temporary_leaf (plan_id_of plan) n e 0) \<notin> reserved_names plan n"
proof -
  from assms have "entry_key_from_parts parent (temporary_leaf (plan_id_of plan) n e 0) \<noteq> row_source_key row \<and>
      entry_key_from_parts parent (temporary_leaf (plan_id_of plan) n e 0) \<noteq> row_destination_key row"
    if "row \<in> set (plan_entries plan)" for row
    using that unfolding unused_temporaries_def by metis
  moreover have "entry_key_from_parts parent (temporary_leaf (plan_id_of plan) n e 0) \<noteq>
      entry_key_from_parts parent' (temporary_leaf (plan_id_of plan) n' e' 0)" if "n' < n" for parent' n' e'
    using that by (auto simp: entry_key_inj dest: temporary_leaf_nonce)
  ultimately show ?thesis unfolding reserved_names_def by blast
qed

definition located_rows :: "memory_backend \<Rightarrow> rename_plan \<Rightarrow> bool" where
  "located_rows b plan \<longleftrightarrow>
     (\<forall>row\<in>set (plan_entries plan). snapshot_parent (row_source_snapshot row) = parent_identity b (row_source row))"

lemma cycle_quiet:
  assumes q: "quiet_state plan b0 budget limit s b" and budget: "budget < 2 ^ 128"
    and plan: "located_rows b0 plan" "unused_temporaries b0 plan"
  shows "case cycle_iteration (\<lambda>_. False) memory_backend_ops plan preds s b of
    (Inl e, _) \<Rightarrow> e = Sched_Invalid | (Inr s', b') \<Rightarrow> quiet_state plan b0 budget limit s' b'"
proof (cases "ss_indices s")
  case Nil
  then show ?thesis by (simp add: cycle_iteration_def)
next
  case (Cons pivot rest)
  let ?row = "plan_entries plan ! pivot" and ?n = "mb_nonce b"
  from q Cons have row: "?row \<in> set (plan_entries plan)" by (simp add: quiet_state_def)
  from q Cons budget have room: "unat ?n + 1 < 2 ^ 128" by (simp add: quiet_state_def)
  then have next1: "?n \<noteq> - 1" "unat (?n + 1) = unat ?n + 1" "?n < ?n + 1"
    by (auto simp: unat_word_ariths word_less_nat_alt unsigned_minus_1_eq_mask mask_eq_exp_minus_1)
  have b: "b = b0\<lparr>mb_nonce := ?n\<rparr>" using q by (simp add: quiet_state_def)
  have pb: "parent_identity b (row_source ?row) = snapshot_parent (row_source_snapshot ?row)"
    using plan(1) row by (subst b) (simp add: located_rows_def)
  have ub: "unused_temporaries b plan" using plan(2) by (subst b) (simp add: unused_temporaries_def)
  have fresh: "entry_key_from_parts (parent_identity b (row_source ?row))
      (temporary_leaf (plan_id_of plan) ?n (row_id ?row) 0) \<notin> ss_reserved s"
    using q unreserved [OF ub] unfolding quiet_state_def by blast
  let ?key = "entry_key_from_parts (parent_identity b (row_source ?row))
      (temporary_leaf (plan_id_of plan) ?n (row_id ?row) 0)"
  let ?b = "b\<lparr>mb_nonce := ?n + 1\<rparr>"
  have b': "?b = b0\<lparr>mb_nonce := ?n + 1\<rparr>"
    using arg_cong [OF b, of "\<lambda>c. c\<lparr>mb_nonce := ?n + 1\<rparr>"] by simp
  note u = first_candidate [OF pb [symmetric] next1(1) ub fresh]
  show ?thesis
  proof (cases "source_identity ?row")
    case (Inl e)
    with Cons u show ?thesis by (simp add: cycle_iteration_def Let_def source_identity_def)
  next
    case (Inr ident)
    let ?s = "s\<lparr>ss_reserved := insert ?key (ss_reserved s), ss_polls := ss_polls s + 2,
      ss_out := ss_out s @ [into_temporary ?row (plan_scope plan) (temporary_of plan ?row ?n) ident]\<rparr>"
    have "reserved_names plan ?n \<subseteq> reserved_names plan (?n + 1)"
      using next1(3) by (auto simp: reserved_names_def intro: less_trans)
    moreover have "?key \<in> reserved_names plan (?n + 1)"
      using next1(3) unfolding reserved_names_def by blast
    moreover have "planned_step plan (into_temporary ?row (plan_scope plan) (temporary_of plan ?row ?n) ident)"
      "planned_step plan (from_temporary ?row (plan_scope plan) (temporary_of plan ?row ?n) ident)"
      using row Inr by (auto simp: planned_step_def step_of_row_def)
    ultimately have s: "quiet_state plan b0 (Suc budget) (Suc limit) ?s ?b"
      and closing: "planned_step plan (from_temporary ?row (plan_scope plan) (temporary_of plan ?row ?n) ident)"
      using q next1(2) b' by (auto simp: quiet_state_def)
    show ?thesis
    proof (cases "cycle_walk (\<lambda>_. False) plan preds pivot pivot ?s")
      case (Inl e)
      with Cons u \<open>source_identity ?row = Inr ident\<close> cycle_walk_quiet [OF s, of preds pivot pivot]
      show ?thesis by (simp add: cycle_iteration_def Let_def)
    next
      case (Inr s1)
      with cycle_walk_quiet [OF s, of preds pivot pivot] closing have
        "quiet_state plan b0 (Suc budget) (Suc (Suc limit)) (s1\<lparr>ss_out := ss_out s1 @
           [from_temporary ?row (plan_scope plan) (temporary_of plan ?row ?n) ident]\<rparr>) ?b"
        by (simp add: quiet_state_def)
      note closed = this
      show ?thesis
      proof (cases "finish_row pivot (s1\<lparr>ss_out := ss_out s1 @
           [from_temporary ?row (plan_scope plan) (temporary_of plan ?row ?n) ident]\<rparr>)")
        case (Inl e)
        with Cons u \<open>source_identity ?row = Inr ident\<close> \<open>cycle_walk _ _ _ _ _ ?s = Inr s1\<close>
        show ?thesis by (simp add: cycle_iteration_def Let_def) (simp add: finish_row_def split: if_splits)
      next
        case (Inr s2)
        with Cons u \<open>source_identity ?row = Inr ident\<close> \<open>cycle_walk _ _ _ _ _ ?s = Inr s1\<close>
          finish_row_quiet [OF Inr closed]
        show ?thesis by (simp add: cycle_iteration_def Let_def)
      qed
    qed
  qed
qed

lemma loop_iteration_quiet:
  assumes q: "quiet_state plan b0 budget limit s b" and budget: "budget < 2 ^ 128"
    and plan: "located_rows b0 plan" "unused_temporaries b0 plan"
  shows "case loop_iteration (\<lambda>_. False) memory_backend_ops plan preds s b of
    (Inl e, _) \<Rightarrow> e = Sched_Invalid | (Inr s', b') \<Rightarrow> quiet_state plan b0 budget limit s' b'"
proof (cases "ss_ready s")
  case Nil
  have "quiet_state plan b0 budget limit (s\<lparr>ss_polls := ss_polls s + 1\<rparr>) b" using q by simp
  from cycle_quiet [OF this budget plan] Nil show ?thesis
    by (simp add: loop_iteration_def check_cancelled_def)
next
  case (Cons i rest)
  let ?s = "s\<lparr>ss_polls := ss_polls s + 1, ss_ready := rest\<rparr>"
  show ?thesis
  proof (cases "push_direct plan i ?s")
    case (Inl e)
    with Cons push_direct_invalid [OF Inl] show ?thesis
      by (simp add: loop_iteration_def check_cancelled_def ready_iteration_def)
  next
    case (Inr s')
    have "quiet_state plan b0 budget limit ?s b" using q by simp
    from push_direct_quiet [OF Inr this] Inr Cons show ?thesis
      by (simp add: loop_iteration_def check_cancelled_def ready_iteration_def split: option.splits)
  qed
qed

lemma schedule_loop_quiet:
  assumes q: "quiet_state plan b0 budget limit s b" and budget: "budget < 2 ^ 128"
    and plan: "located_rows b0 plan" "unused_temporaries b0 plan"
  shows "case schedule_loop (\<lambda>_. False) memory_backend_ops plan preds s b of
    (Inl e, _) \<Rightarrow> e = Sched_Invalid | (Inr s', b') \<Rightarrow> quiet_state plan b0 budget limit s' b'"
  using q
proof (induction "length (ss_indices s)" arbitrary: s b rule: less_induct)
  case less
  show ?case
  proof (cases "ss_remaining s = 0")
    case True
    with less.prems show ?thesis by (subst schedule_loop.simps) simp
  next
    case False
    obtain r b1 where it: "loop_iteration (\<lambda>_. False) memory_backend_ops plan preds s b = (r, b1)"
      by (cases "loop_iteration (\<lambda>_. False) memory_backend_ops plan preds s b")
    note quiet = loop_iteration_quiet [OF less.prems budget plan, of preds, unfolded it]
    show ?thesis
    proof (cases r)
      case (Inl e)
      with False it quiet show ?thesis by (subst schedule_loop.simps) simp
    next
      case (Inr s1)
      from it Inr have "length (ss_indices s1) < length (ss_indices s)" by (auto dest: loop_iteration_shrinks)
      from less.hyps [OF this, of b1] False it quiet Inr show ?thesis by (subst schedule_loop.simps) simp
    qed
  qed
qed

lemma check_times_quiet: "check_times (\<lambda>_. False) polls n = Inr (polls + n)"
  by (induction n arbitrary: polls) (simp_all add: check_cancelled_def)

lemma source_owners_quiet:
  "source_owners_loop (\<lambda>_. False) polls i keys owners = Inl e \<Longrightarrow> e = Sched_Invalid"
  by (induction keys arbitrary: polls i owners) (auto simp: and_then_Inl check_cancelled_def split: if_splits)

lemma dependencies_quiet:
  "dependencies_loop (\<lambda>_. False) polls owners i keys deps preds = Inl e \<Longrightarrow> e = Sched_Invalid"
  by (induction keys arbitrary: polls i deps preds)
    (auto simp: and_then_Inl check_cancelled_def split: if_splits option.splits)

lemma schedule_start_quiet:
  "case schedule_start (\<lambda>_. False) plan of
     Inl e \<Rightarrow> e = Sched_Invalid
   | Inr (preds, s) \<Rightarrow> ss_indices s = [0..<length (plan_entries plan)] \<and> ss_out s = [] \<and>
       ss_reserved s = row_source_key ` set (plan_entries plan) \<union> row_destination_key ` set (plan_entries plan)"
  by (auto simp: schedule_start_def Let_def check_times_quiet and_then_Inl and_then_Inr
      dest: source_owners_quiet dependencies_quiet split: sum.splits prod.splits)

text \<open>The schedule of a ready plan is built, and each of its steps belongs to a row.\<close>

lemma quiet_schedule:
  assumes F: "memory_plan F plan" and ready: "plan_ready mb_path_key (mb_occupancy b) plan"
    and rows: "located_rows b plan" "unused_temporaries b plan"
    and room: "unat (mb_nonce b) + length (plan_entries plan) < 2 ^ 128"
  shows "\<exists>steps n x. build_schedule_cancellable (\<lambda>_. False) memory_backend_ops plan b =
      (Inr (steps, n), b\<lparr>mb_nonce := x\<rparr>) \<and>
    apply_moves (map (step_move mb_path_key) steps) (mb_occupancy b) =
      Some (renamed_occupancy mb_path_key plan (mb_occupancy b)) \<and> (\<forall>st\<in>set steps. planned_step plan st) \<and>
    length steps \<le> 2 * length (plan_entries plan)"
proof -
  obtain res b' where bld: "build_schedule_cancellable (\<lambda>_. False) memory_backend_ops plan b = (res, b')"
    by (cases "build_schedule_cancellable (\<lambda>_. False) memory_backend_ops plan b")
  note all = rename_backend.schedule_simultaneous [OF mb.rename_backend_axioms memory_plan_located [OF F] ready bld]
  have start: "quiet_state plan b (unat (mb_nonce b) + length (plan_entries plan)) (2 * length (plan_entries plan)) s b"
    if "schedule_start (\<lambda>_. False) plan = Inr (preds, s)" for preds s
    using schedule_start_quiet [of plan] that by (auto simp: quiet_state_def reserved_names_def)
  have "case res of Inl e \<Rightarrow> e = Sched_Invalid
    | Inr (steps, n) \<Rightarrow> b' = b\<lparr>mb_nonce := mb_nonce b'\<rparr> \<and> (\<forall>st\<in>set steps. planned_step plan st) \<and>
        length steps \<le> 2 * length (plan_entries plan)"
  proof (cases "schedule_start (\<lambda>_. False) plan")
    case (Inl e)
    with bld schedule_start_quiet [of plan] show ?thesis by (auto simp: build_schedule_cancellable_def)
  next
    case (Inr ps)
    obtain preds s where ps: "ps = (preds, s)" by (cases ps)
    note loop = schedule_loop_quiet [OF start room rows, of preds s preds]
    obtain q b1 where lp: "schedule_loop (\<lambda>_. False) memory_backend_ops plan preds s b = (q, b1)"
      by (cases "schedule_loop (\<lambda>_. False) memory_backend_ops plan preds s b")
    with loop Inr ps bld show ?thesis
      by (cases q) (auto simp: build_schedule_cancellable_def quiet_state_def)
  qed
  with all bld show ?thesis
    by (cases res) (auto simp: outside_failure_def)
qed

section \<open>The checks pass\<close>

text \<open>A row whose observations still hold on the backend.\<close>

definition live_row :: "memory_backend \<Rightarrow> move_scope \<Rightarrow> plan_row \<Rightarrow> bool" where
  "live_row b scope row \<longleftrightarrow>
     mb_resolve_source b (row_source row) =
       Inr \<lparr>resolved_path = row_source row, resolved_snapshot = row_source_snapshot row,
            resolved_entry_key = Some (row_source_key row)\<rparr> \<and>
     mb_observe b (row_destination row) = Inr (row_destination_snapshot row) \<and>
     (\<exists>entry. snapshot_entry (row_source_snapshot row) = Some entry \<and> observed_kind entry = row_kind row \<and>
        authorization_error (with_authorization (row_source row) (row_destination row)
          (observed_identity entry) (snapshot_parent (row_source_snapshot row))
          (snapshot_parent (row_destination_snapshot row)) (row_kind row) scope) = None)"

lemma live_row_nonce [simp]: "live_row (b\<lparr>mb_nonce := x\<rparr>) scope row = live_row b scope row"
  by (simp add: live_row_def)

lemma live_parents:
  assumes "live_row b scope row"
  shows "snapshot_parent (row_source_snapshot row) = parent_identity b (row_source row)"
    and "snapshot_parent (row_destination_snapshot row) = parent_identity b (row_destination row)"
  using assms by (auto simp: live_row_def dest!: mb_resolve_parent mb_observe_parent)

lemma step_facts:
  assumes st: "step_of_row plan row st" and live: "live_row b (plan_scope plan) row"
  shows "sched_entry st = row_id row" "sched_kind st = row_kind row"
    "authorization_error (forward_operation st) = None"
    "parent_identity b (sched_source st) = sched_source_parent st"
    "parent_identity b (sched_destination st) = sched_destination_parent st"
    "row_identity row = Some (sched_identity st)"
    "sched_phase st = IntoTemporary \<Longrightarrow> \<exists>n. sched_destination st = temporary_of plan row n \<and>
       sched_destination_parent st = snapshot_parent (row_source_snapshot row)"
proof -
  note p = live_parents [OF live]
  from live obtain entry where e: "snapshot_entry (row_source_snapshot row) = Some entry"
    and a: "authorization_error (with_authorization (row_source row) (row_destination row)
          (observed_identity entry) (snapshot_parent (row_source_snapshot row))
          (snapshot_parent (row_destination_snapshot row)) (row_kind row) (plan_scope plan)) = None"
    by (auto simp: live_row_def)
  have t: "parent_identity b (temporary_of plan row n) = parent_identity b (row_source row)" for n
    unfolding temporary_of_def by (rule temporary_parent [OF temporary_leaf_separators])
  note defs = step_of_row_def direct_step_def source_identity_def and_then_Inr into_temporary_def from_temporary_def
    e p t
  from st show "sched_entry st = row_id row" "sched_kind st = row_kind row"
    "parent_identity b (sched_source st) = sched_source_parent st"
    "parent_identity b (sched_destination st) = sched_destination_parent st"
    "row_identity row = Some (sched_identity st)"
    by (auto simp: defs row_identity_def observed_at_def)
  from st a show "authorization_error (forward_operation st) = None"
    by (auto simp: defs authorized_iff forward_operation_def with_authorization_def)
  from st show "sched_phase st = IntoTemporary \<Longrightarrow> \<exists>n. sched_destination st = temporary_of plan row n \<and>
       sched_destination_parent st = snapshot_parent (row_source_snapshot row)"
    by (auto simp: defs)
qed

definition indexes :: "indexed_executions \<Rightarrow> plan_row list \<Rightarrow> bool" where
  "indexes ix rows \<longleftrightarrow> (\<forall>row\<in>set rows. find_plan_row ix rows (row_id row) = Some row)"

lemma from_plan_loop_total:
  assumes "distinct (map row_id rows)" and "\<forall>row\<in>set rows. ix_by_id ix (row_id row) = None"
  shows "\<exists>ix'. from_plan_loop rows ix = Inr ix' \<and>
    (\<forall>e. ix_by_id ix' e = (case ix_by_id ix e of Some i \<Rightarrow> Some i
       | None \<Rightarrow> map_of (zip (map row_id rows) [length (ix_values ix)..<length (ix_values ix) + length rows]) e))"
  using assms
proof (induction rows arbitrary: ix)
  case Nil
  then show ?case by (simp split: option.splits)
next
  case (Cons row rows)
  let ?ix = "\<lparr>ix_values = ix_values ix @ [\<lparr>exec_entry = row_id row, exec_state = Restored\<rparr>],
         ix_by_id = (ix_by_id ix)(row_id row \<mapsto> length (ix_values ix))\<rparr>"
  from Cons.prems have "\<forall>r\<in>set rows. ix_by_id ?ix (row_id r) = None" by (simp add: image_iff) metis
  let ?n = "length (ix_values ix)"
  have len: "length (ix_values ?ix) = Suc ?n" by simp
  have "distinct (map row_id rows)" using Cons.prems(1) by simp
  from Cons.IH [OF this \<open>\<forall>r\<in>set rows. ix_by_id ?ix (row_id r) = None\<close>, unfolded len]
  obtain ix' where ix': "from_plan_loop rows ?ix = Inr ix'"
    "\<And>e. ix_by_id ix' e = (case ix_by_id ?ix e of Some i \<Rightarrow> Some i
       | None \<Rightarrow> map_of (zip (map row_id rows) [Suc ?n..<Suc ?n + length rows]) e)"
    by blast
  have upt: "[?n..<?n + length (row # rows)] = ?n # [Suc ?n..<Suc ?n + length rows]"
    by (simp add: upt_conv_Cons del: upt_Suc)
  have "from_plan_loop (row # rows) ix = Inr ix'" using Cons.prems(2) ix'(1) by simp
  moreover have "ix_by_id ix' e = (case ix_by_id ix e of Some i \<Rightarrow> Some i
       | None \<Rightarrow> map_of (zip (map row_id (row # rows)) [?n..<?n + length (row # rows)]) e)" for e
  proof (cases "e = row_id row")
    case True
    with Cons.prems(2) show ?thesis unfolding ix'(2) upt by (simp del: upt_Suc)
  next
    case False
    then show ?thesis unfolding ix'(2) upt by (cases "ix_by_id ix e") (simp_all del: upt_Suc)
  qed
  ultimately show ?case by blast
qed

lemma from_plan_total:
  assumes "distinct (map row_id rows)"
  shows "\<exists>ix. from_plan rows = Inr ix \<and> indexes ix rows"
proof -
  from from_plan_loop_total [OF assms, of "\<lparr>ix_values = [], ix_by_id = Map.empty\<rparr>"] obtain ix where
    ix: "from_plan rows = Inr ix" "\<And>e. ix_by_id ix e = map_of (zip (map row_id rows) [0..<length rows]) e"
    by (auto simp: from_plan_def)
  have "ix_by_id ix (row_id (rows ! i)) = Some i" if "i < length rows" for i
    unfolding ix(2) using that assms
    by (intro map_of_is_SomeI) (auto simp: in_set_zip intro!: exI [of _ i])
  then have "indexes ix rows"
    by (auto simp: indexes_def find_plan_row_def in_set_conv_nth)
  with ix(1) show ?thesis by blast
qed

text \<open>The plan as the run meets it.\<close>

definition live_plan :: "memory_backend \<Rightarrow> rename_plan \<Rightarrow> bool" where
  "live_plan b plan \<longleftrightarrow> distinct (map row_id (plan_entries plan)) \<and>
     (\<forall>row\<in>set (plan_entries plan). live_row b (plan_scope plan) row)"

lemma live_located: "live_plan b plan \<Longrightarrow> located_rows b plan"
  by (auto simp: live_plan_def located_rows_def dest: live_parents)

lemma validate_steps:
  "\<forall>st\<in>set steps. \<exists>row\<in>set rows. sched_entry st = row_id row \<Longrightarrow> indexes ix rows \<Longrightarrow>
     validate_schedule ix steps = Inr ()"
  by (induction steps) (auto simp: indexes_def find_plan_row_def split: option.splits)

lemma authorize_all:
  "\<forall>st\<in>set steps. authorization_error (forward_operation st) = None \<Longrightarrow> authorize_steps steps = Inr ()"
  by (induction steps) auto

abbreviation quiet_control :: "execution_control \<Rightarrow> bool" where
  "quiet_control ctl \<equiv> cancellation_requested ctl = (\<lambda>_. False)"

lemma poll_quiet: "quiet_control ctl \<Longrightarrow> poll ctl n = Inr (n + 1)"
  by (simp add: poll_def)

lemma manifest_quiet:
  "quiet_control ctl \<Longrightarrow> build_manifest ctl n steps = Inr (map journal_step_of steps, n + length steps)"
  by (induction steps arbitrary: n) (simp_all add: poll_quiet)

lemma freeze_rows_quiet:
  assumes "quiet_control ctl" and "\<forall>row\<in>set rows. live_row b scope row"
  shows "\<exists>n'. freeze_rows memory_backend_ops ctl b n rows = Inr n'"
  using assms(2)
proof (induction rows arbitrary: n)
  case (Cons row rows)
  then have "live_row b scope row" by simp
  then have "freeze_row memory_backend_ops ctl b n row = Inr (n + 3)"
    using poll_quiet [OF assms(1)]
    by (auto simp: freeze_row_def live_row_def backend_result_def check_source_def check_destination_def)
  with Cons show ?case by simp
qed simp

lemma freeze_temporaries_quiet:
  assumes "quiet_control ctl" and "indexes ix (plan_entries plan)" and "unused_temporaries b plan"
    and "\<forall>row\<in>set (plan_entries plan). live_row b (plan_scope plan) row"
    and "\<forall>st\<in>set steps. planned_step plan st \<and> sched_phase st = IntoTemporary"
  shows "\<exists>n'. freeze_temporaries memory_backend_ops ctl b ix (plan_entries plan) n steps = Inr n'"
  using assms(5)
proof (induction steps arbitrary: n)
  case (Cons st steps)
  then obtain row where row: "row \<in> set (plan_entries plan)" "step_of_row plan row st"
    and into: "sched_phase st = IntoTemporary" by (auto simp: planned_step_def)
  with assms(4) have live: "live_row b (plan_scope plan) row" by blast
  note facts = step_facts [OF row(2) live]
  from facts(7) [OF into] obtain k where dst: "sched_destination st = temporary_of plan row k"
    "sched_destination_parent st = snapshot_parent (row_source_snapshot row)" by blast
  have "mb_entries b (mb_path_key (temporary_of plan row k)) = None"
    using assms(3) by (simp add: temporary_key unused_temporaries_def)
  then have "\<exists>cur. mb_observe b (sched_destination st) = Inr cur \<and>
      snapshot_parent cur = snapshot_parent (row_source_snapshot row) \<and> snapshot_entry cur = None"
    using facts(5) dst by (auto simp: mb_observe_def)
  moreover have "find_plan_row ix (plan_entries plan) (sched_entry st) = Some row"
    using assms(2) row(1) facts(1) by (simp add: indexes_def)
  ultimately show ?case
    using Cons poll_quiet [OF assms(1)] by (auto simp: backend_result_def check_temporary_def)
qed simp

text \<open>The manifest of a plan of moderate size fits the journal, whatever the schedule.\<close>

definition fits_journal :: "rename_plan \<Rightarrow> bool" where
  "fits_journal plan \<longleftrightarrow>
     (\<exists>longest. (\<forall>row\<in>set (plan_entries plan).
          length (row_source row) \<le> longest \<and> length (row_destination row) \<le> longest) \<and>
        2 * length (plan_entries plan) \<le> MAX_JOURNAL_STEPS \<and>
        12 + 2 * length (plan_entries plan) * (87 + 4 * (longest + 79)) \<le> MAX_JOURNAL_FRAME_BYTES)"

lemma length_temporary: "length (temporary_of plan row n) \<le> length (row_source row) + 79"
  by (auto simp: temporary_of_def temporary_path_def temporary_leaf_def schedule_parent_units_def
      split: option.splits dest: rposition_bound)

lemma step_paths:
  assumes "step_of_row plan row st" and "length (row_source row) \<le> longest" "length (row_destination row) \<le> longest"
  shows "length (sched_source st) \<le> longest + 79 \<and> length (sched_destination st) \<le> longest + 79"
proof -
  have "length (temporary_of plan row n) \<le> longest + 79" for n
    using length_temporary [of plan row n] assms(2) by simp
  with assms show ?thesis
    by (auto simp: step_of_row_def direct_step_def and_then_Inr into_temporary_def from_temporary_def)
qed

lemma sum_list_bound:
  fixes f :: "'a \<Rightarrow> nat"
  shows "\<forall>x\<in>set xs. f x \<le> c \<Longrightarrow> sum_list (map f xs) \<le> length xs * c"
  by (induction xs) auto

lemma manifest_fits:
  assumes "fits_journal plan" and "\<forall>st\<in>set steps. planned_step plan st"
    and "length steps \<le> 2 * length (plan_entries plan)"
  shows "\<exists>r. journal_requirements (map journal_step_of steps) = Inr r"
proof -
  from assms(1) obtain longest where longest: "\<forall>row\<in>set (plan_entries plan).
      length (row_source row) \<le> longest \<and> length (row_destination row) \<le> longest"
    and limits: "2 * length (plan_entries plan) \<le> MAX_JOURNAL_STEPS"
      "12 + 2 * length (plan_entries plan) * (87 + 4 * (longest + 79)) \<le> MAX_JOURNAL_FRAME_BYTES"
    unfolding fits_journal_def by blast
  have "step_bytes (journal_step_of st) \<le> 87 + 4 * (longest + 79)" if "st \<in> set steps" for st
  proof -
    from assms(2) that obtain row where "row \<in> set (plan_entries plan)" "step_of_row plan row st"
      by (auto simp: planned_step_def)
    with longest step_paths [of plan row st longest] show ?thesis
      by (simp add: step_bytes_def journal_step_of_def with_move_authorization_def journal_step_new_def)
  qed
  then have "sum_list (map step_bytes (map journal_step_of steps)) \<le> length steps * (87 + 4 * (longest + 79))"
    unfolding map_map by (intro sum_list_bound) simp
  also have "\<dots> \<le> 2 * length (plan_entries plan) * (87 + 4 * (longest + 79))"
    using assms(3) by (rule mult_right_mono) simp
  finally have "manifest_bytes (map journal_step_of steps) \<le> MAX_JOURNAL_FRAME_BYTES"
    using limits(2) by (simp add: manifest_bytes_def)
  with limits(1) assms(3) show ?thesis by (auto simp: journal_requirements_Inr)
qed

lemma prepare_quiet:
  assumes "quiet_control (port_control P)" and "port_backend P = memory_backend_ops"
    and live: "live_plan b plan" and "unused_temporaries b plan" and ix: "indexes ix (plan_entries plan)"
    and steps: "\<forall>st\<in>set steps. planned_step plan st" "length steps \<le> 2 * length (plan_entries plan)"
    and fits: "fits_journal plan"
  shows "\<exists>n1. prepare_checks P plan ix steps b n = Inr (map journal_step_of steps, n1)"
proof -
  from live have rows: "\<forall>row\<in>set (plan_entries plan). live_row b (plan_scope plan) row"
    by (simp add: live_plan_def)
  have facts: "\<exists>row\<in>set (plan_entries plan). sched_entry st = row_id row"
    "authorization_error (forward_operation st) = None" if "st \<in> set steps" for st
    using steps(1) rows that step_facts [of plan _ st b] unfolding planned_step_def by blast+
  have v: "validate_schedule ix steps = Inr ()" using validate_steps [OF _ ix] facts(1) by blast
  have a: "authorize_steps steps = Inr ()" using authorize_all facts(2) by blast
  have "\<exists>n'. freeze memory_backend_ops (port_control P) b (plan_entries plan) steps ix m = Inr n'" for m
  proof -
    obtain m1 where 1: "freeze_rows memory_backend_ops (port_control P) b m (plan_entries plan) = Inr m1"
      using freeze_rows_quiet [OF assms(1) rows] by blast
    obtain m2 where "freeze_temporaries memory_backend_ops (port_control P) b ix (plan_entries plan) m1
        (filter (\<lambda>st. sched_phase st = IntoTemporary) steps) = Inr m2"
      using freeze_temporaries_quiet [OF assms(1) ix assms(4) rows, of "filter (\<lambda>st. sched_phase st = IntoTemporary) steps" m1]
        steps(1) by auto
    with 1 a show ?thesis by (simp add: freeze_def)
  qed
  then obtain m where "freeze memory_backend_ops (port_control P) b (plan_entries plan) steps ix (n + length steps) = Inr m"
    by blast
  with v assms(2) manifest_fits [OF fits steps] show ?thesis
    by (auto simp: prepare_checks_def Let_def manifest_quiet [OF assms(1)] poll_quiet [OF assms(1)] capacity_result_def)
qed

section \<open>The run completes\<close>

text \<open>Entries with the same identity are of the same kind.\<close>

definition kinds_agree :: "memory_backend \<Rightarrow> bool" where
  "kinds_agree b \<longleftrightarrow>
     (\<forall>e\<in>ran (mb_entries b). \<forall>e'\<in>ran (mb_entries b). me_identity e = me_identity e' \<longrightarrow> me_kind e = me_kind e')"

lemma resolved_entry:
  "mb_resolve_source b path = Inr r \<Longrightarrow> snapshot_entry (resolved_snapshot r) = map_option
     (\<lambda>e. \<lparr>observed_identity = me_identity e, observed_kind = me_kind e, is_reparse_point = me_reparse e\<rparr>)
     (mb_entries b (mb_path_key path))"
  by (auto simp: mb_resolve_source_def mb_observe_def and_then_Inr split: option.splits)

lemma step_kind:
  assumes st: "step_of_row plan row st" and live: "live_row b (plan_scope plan) row" and kinds: "kinds_agree b"
    and e: "e \<in> ran (mb_entries b)" "me_identity e = sched_identity st"
  shows "me_kind e = sched_kind st"
proof -
  from live obtain o1 where o1: "snapshot_entry (row_source_snapshot row) = Some o1" "observed_kind o1 = row_kind row"
    and res: "mb_resolve_source b (row_source row) = Inr \<lparr>resolved_path = row_source row,
        resolved_snapshot = row_source_snapshot row, resolved_entry_key = Some (row_source_key row)\<rparr>"
    by (auto simp: live_row_def)
  from resolved_entry [OF res] o1 obtain e0 where e0: "mb_entries b (mb_path_key (row_source row)) = Some e0"
    "me_identity e0 = observed_identity o1" "me_kind e0 = observed_kind o1"
    by (auto dest: sym)
  have "row_identity row = Some (me_identity e0)" using o1(1) e0(2) by (simp add: row_identity_def observed_at_def)
  with step_facts(6) [OF st live] e(2) have "me_identity e0 = me_identity e" by simp
  moreover have "e0 \<in> ran (mb_entries b)" using e0(1) by (rule ranI)
  ultimately show ?thesis
    using kinds e(1) e0(3) o1(2) step_facts(2) [OF st live] unfolding kinds_agree_def by metis
qed

definition running :: "memory_backend \<Rightarrow> memory_backend \<Rightarrow> bool" where
  "running b0 b \<longleftrightarrow> mb_failures b = Map.empty \<and> mb_parents b = mb_parents b0 \<and>
     ran (mb_entries b) \<subseteq> ran (mb_entries b0)"

lemma running_parent: "running b0 b \<Longrightarrow> parent_identity b path = parent_identity b0 path"
  by (simp add: running_def parent_identity_def)

lemma mb_rename_entries:
  assumes "mb_rename_no_replace b op = (res, b')"
  shows "mb_failures b' = mb_failures b \<and> mb_parents b' = mb_parents b \<and>
    (mb_entries b' = mb_entries b \<or>
     (\<exists>e. mb_entries b (mb_path_key (op_source op)) = Some e \<and>
       mb_entries b' = (mb_entries b)(mb_path_key (op_source op) := None, mb_path_key (op_destination op) \<mapsto> e)))"
  using assms unfolding mb_rename_no_replace_def mb_fail_def Let_def
  by (auto split: option.splits if_splits prod.splits mutation_certainty.splits)

lemma ran_move: "m s = Some e \<Longrightarrow> ran (m(s := None, t \<mapsto> e)) \<subseteq> ran m"
  by (auto simp: ran_def split: if_splits)

lemma mb_rename_running:
  assumes "mb_rename_no_replace b op = (res, b')" and "running b0 b"
  shows "running b0 b'"
  using mb_rename_entries [OF assms(1)] assms(2) ran_move unfolding running_def
  by (metis subset_trans)

lemma forward_succeeds:
  assumes st: "planned_step plan st" and live: "live_plan b0 plan" and kinds: "kinds_agree b0"
    and run: "running b0 b" and enabled: "move_enabled (step_move mb_path_key st) (mb_occupancy b)"
  shows "\<exists>b'. mb_rename_no_replace b (forward_operation st) = (Inr (), b') \<and> running b0 b' \<and>
    mb_occupancy b' = move_result (step_move mb_path_key st) (mb_occupancy b)"
proof -
  from st obtain row where row: "row \<in> set (plan_entries plan)" "step_of_row plan row st"
    by (auto simp: planned_step_def)
  with live have lr: "live_row b0 (plan_scope plan) row" by (simp add: live_plan_def)
  note facts = step_facts [OF row(2) lr]
  from enabled obtain e where e: "mb_entries b (mb_path_key (sched_source st)) = Some e" "me_identity e = sched_identity st"
    and free: "mb_entries b (mb_path_key (sched_destination st)) = None"
    by (auto simp: move_enabled_def step_move_def mb_occupancy_def)
  from e(1) run have "e \<in> ran (mb_entries b0)" by (auto simp: running_def intro: ranI)
  from step_kind [OF row(2) lr kinds this e(2)] have kind: "me_kind e = sched_kind st" .
  have "mb_failures b = Map.empty" using run by (simp add: running_def)
  then have "fst (mb_rename_no_replace b (forward_operation st)) = Inr ()"
    by (intro mb_rename_succeeds [where e = e])
      (use facts e free kind running_parent [OF run] in \<open>simp_all add: forward_operation_def with_authorization_def\<close>)
  then obtain b' where b': "mb_rename_no_replace b (forward_operation st) = (Inr (), b')"
    by (cases "mb_rename_no_replace b (forward_operation st)") simp
  have "operation_move mb_path_key (forward_operation st) = step_move mb_path_key st"
    by (simp add: operation_move_def step_move_def forward_operation_def with_authorization_def)
  with mb_rename_law [OF b'] mb_rename_running [OF b' run] b' show ?thesis by simp
qed

lemma memory_journal_total [simp]:
  "prepared_op memory_journal_ops j i d = (Inr (), mj_push j (Prepared i d))"
  "completed_op memory_journal_ops j i d = (Inr (), mj_push j (Completed i d))"
  "terminal_op memory_journal_ops j t = (Inr (), mj_push j (Terminal t))"
  by (simp_all add: memory_journal_ops_def mj_prepared_def mj_completed_def mj_terminal_def)

lemma memory_rename_op [simp]: "rename_op memory_backend_ops = mb_rename_no_replace"
  by (simp add: memory_backend_ops_def)

lemma forward_loop_completes:
  assumes P: "port_journal P = memory_journal_ops" "port_backend P = memory_backend_ops"
      "quiet_control (port_control P)"
    and live: "live_plan b0 plan" and kinds: "kinds_agree b0"
    and steps: "\<forall>st\<in>set steps. planned_step plan st" and run: "running b0 (w_backend w)"
    and moves: "apply_moves (map (step_move mb_path_key) steps) (mb_occupancy (w_backend w)) \<noteq> None"
  shows "report_outcome (fst (forward_loop P p tot i steps completed ix w)) = Exec_Completed"
  using steps run moves
proof (induction steps arbitrary: i completed ix w)
  case Nil
  with P show ?case
    by (simp add: finalize_def poll_world_def report_progress_def with_journal_def make_report_def)
next
  case (Cons st steps)
  from Cons.prems(3) have enabled: "move_enabled (step_move mb_path_key st) (mb_occupancy (w_backend w))"
    by (auto split: if_splits)
  obtain b' where b': "mb_rename_no_replace (w_backend w) (forward_operation st) = (Inr (), b')" "running b0 b'"
    "mb_occupancy b' = move_result (step_move mb_path_key st) (mb_occupancy (w_backend w))"
    using forward_succeeds [OF _ live kinds Cons.prems(2) enabled] Cons.prems(1) by auto
  have "apply_moves (map (step_move mb_path_key) steps) (mb_occupancy b') \<noteq> None"
    using Cons.prems(3) enabled b'(3) by simp
  define w' where "w' = w\<lparr>w_polls := w_polls w + 1, w_backend := b',
    w_journal := mj_push (mj_push (w_journal w) (Prepared i Forward)) (Completed i Forward),
    w_progress := w_progress w @ [\<lparr>progress_phase = ForwardPhase, progress_completed = length completed + 1,
      progress_total = tot\<rparr>]\<rparr>"
  have "forward_loop P p tot i (st # steps) completed ix w = forward_loop P p tot (i + 1) steps
      (completed @ [(i, st)]) (set_state (sched_entry st) (forward_state (sched_phase st)) ix) w'"
    using P b'(1) by (simp add: forward_step_def apply_forward_def poll_world_def with_journal_def rename_world_def
        report_progress_def Let_def w'_def)
  moreover have "w_backend w' = b'" by (simp add: w'_def)
  ultimately show ?case
    using Cons.IH [of w'] \<open>apply_moves _ (mb_occupancy b') \<noteq> None\<close> b'(2) Cons.prems(1) by simp
qed

text \<open>Nothing fails: no injected failure, enough nonces, no temporary name in use.\<close>

definition quiet :: "memory_backend \<Rightarrow> rename_plan \<Rightarrow> bool" where
  "quiet b plan \<longleftrightarrow> mb_failures b = Map.empty \<and> kinds_agree b \<and> unused_temporaries b plan \<and> fits_journal plan \<and>
     unat (mb_nonce b) + length (plan_entries plan) < 2 ^ 128"

lemma nonce_irrelevant [simp]:
  "unused_temporaries (b\<lparr>mb_nonce := x\<rparr>) plan = unused_temporaries b plan"
  "kinds_agree (b\<lparr>mb_nonce := x\<rparr>) = kinds_agree b"
  by (simp_all add: unused_temporaries_def kinds_agree_def)

lemma quiet_executes:
  assumes P: "port_journal P = memory_journal_ops" "port_backend P = memory_backend_ops"
      "quiet_control (port_control P)" "begin_transaction (port_control P)"
    and plan: "memory_plan F plan" "plan_ready mb_path_key (mb_occupancy (w_backend w)) plan"
    and live: "live_plan (w_backend w) plan" and quiet: "quiet (w_backend w) plan"
    and journal: "mj_records (w_journal w) = []"
  shows "\<exists>rep w'. execute_with_control P plan w = (Inr rep, w') \<and> report_outcome rep = Exec_Completed"
proof -
  let ?b = "w_backend w" and ?ctl = "port_control P"
  have poll: "poll ?ctl n = Inr (n + 1)" for n by (rule poll_quiet [OF P(3)])
  from live from_plan_total obtain ix where ix: "from_plan (plan_entries plan) = Inr ix" "indexes ix (plan_entries plan)"
    by (auto simp: live_plan_def)
  from quiet have q: "unused_temporaries ?b plan" "unat (mb_nonce ?b) + length (plan_entries plan) < 2 ^ 128"
    "mb_failures ?b = Map.empty" "kinds_agree ?b" "fits_journal plan" by (auto simp: quiet_def)
  from quiet_schedule [OF plan live_located [OF live] q(1,2)] obtain steps n x where
    bld: "build_schedule_cancellable (\<lambda>_. False) memory_backend_ops plan ?b = (Inr (steps, n), ?b\<lparr>mb_nonce := x\<rparr>)"
    and moves: "apply_moves (map (step_move mb_path_key) steps) (mb_occupancy ?b) =
      Some (renamed_occupancy mb_path_key plan (mb_occupancy ?b))"
    and steps: "\<forall>st\<in>set steps. planned_step plan st" "length steps \<le> 2 * length (plan_entries plan)" by blast
  let ?b1 = "?b\<lparr>mb_nonce := x\<rparr>"
  have live1: "live_plan ?b1 plan" using live by (simp add: live_plan_def)
  have q1: "unused_temporaries ?b1 plan" "kinds_agree ?b1" "running ?b1 ?b1"
    using q(1,3,4) by (simp_all add: running_def)
  from prepare_quiet [OF P(3,2) live1 q1(1) ix(2) steps q(5), of "w_polls w + 1 + n"]
  obtain n1 where prep: "prepare_checks P plan ix steps ?b1 (w_polls w + 1 + n) = Inr (map journal_step_of steps, n1)"
    by blast
  define w1 where "w1 = report_progress ReadyPhase 0 (length steps) (w\<lparr>w_backend := ?b1, w_polls := n1\<rparr>)"
  have w1: "w_backend w1 = ?b1" "w_journal w1 = w_journal w" by (simp_all add: w1_def report_progress_def)
  define w2 where "w2 = w1\<lparr>w_journal := mj_push (w_journal w) (Intent (plan_id_of plan) (map journal_step_of steps))\<rparr>"
  have "report_outcome (fst (forward_loop P (plan_id_of plan) (length steps) 0 steps [] ix w2)) = Exec_Completed"
    by (rule forward_loop_completes [OF P(1,2,3) live1 q1(2) steps(1)])
      (use q1(3) moves in \<open>simp_all add: w2_def w1\<close>)
  moreover have "execute_with_control P plan w = begin_and_run P plan steps (map journal_step_of steps) ix w1"
    using poll ix(1) bld P(2,3) prep by (simp add: execute_with_control_def w1_def)
  moreover have "begin_op memory_journal_ops (w_journal w) p m = (Inr (), mj_push (w_journal w) (Intent p m))" for p m
    using journal by (simp add: memory_journal_ops_def mj_begin_def)
  ultimately show ?thesis
    using P by (simp add: begin_and_run_def with_journal_def w1 w2_def make_report_def split: prod.splits)
qed

end
