(* ===== verification/Completion_Claims.thy ===== *)
theory Completion_Claims
  imports Planner_Claims Quiet_Run
begin

text \<open>
  Total correctness: when nothing fails, requests are carried out. The witness runs the swap of
  two files, with the concrete plan of the planner.
\<close>

section \<open>A quiet run of a planned request completes\<close>

lemma planned_live:
  assumes "plan_cancellable memory_backend_ops b cancel request = Inr plan"
  shows "live_plan b plan"
proof -
  note sound = plan_sound [OF assms, unfolded sound_plan_def Let_def]
  have "live_row b (plan_scope plan) row" if "row \<in> set (plan_entries plan)" for row
  proof -
    from sound have "list_all2 (frozen_row memory_backend_ops b (request_scope request))
        (filter (\<lambda>intent. \<not> unchanged intent) (request_entries request)) (plan_entries plan)" by blast
    from frozen_member [OF this that] obtain intent where
      f: "frozen_row memory_backend_ops b (request_scope request) intent row" by blast
    then have "row_source row = intent_source intent" by (auto simp: frozen_row_def dest: mb_resolve_parent)
    with f sound show ?thesis by (auto simp: frozen_row_def live_row_def)
  qed
  with sound show ?thesis by (simp add: live_plan_def)
qed

text \<open>
  C1: on a quiet world, that is without injected failures, with nonces left, unused temporary
  names, a plan whose manifest fits the journal and no cancellation, every coherent request that
  the planner accepts is executed to completion, and the filesystem is then what it asks for.
\<close>

theorem planned_request_completes:
  assumes "plan_cancellable memory_backend_ops (w_backend w) cancel request = Inr plan"
    and "coherent_request (w_backend w) request" and "quiet (w_backend w) plan"
    and "mj_records (w_journal w) = []"
    and "port_journal P = memory_journal_ops" and "port_backend P = memory_backend_ops"
    and "port_control P = noop_control"
  shows "\<exists>rep w'. execute_with_control P plan w = (Inr rep, w') \<and> report_outcome rep = Exec_Completed \<and>
    request_applied request (mb_occupancy (w_backend w)) (mb_occupancy (w_backend w')) \<and>
    mj_recovery_state (w_journal w') = Clean"
proof -
  note ready = coherent_plan_ready [OF assms(1,2)]
  have "quiet_control (port_control P)" "begin_transaction (port_control P)"
    by (simp_all add: assms(7) noop_control_def)
  from quiet_executes [OF assms(5,6) this conjunct1 [OF ready] conjunct2 [OF ready] planned_live [OF assms(1)] assms(3,4)]
  obtain rep w' where run: "execute_with_control P plan w = (Inr rep, w')" "report_outcome rep = Exec_Completed" by blast
  from mem.execute_settles [OF memory_plan_located [OF conjunct1 [OF ready]] conjunct2 [OF ready] run(1) assms(5,6)]
    run renamed_is_applied [OF assms(1,2)] assms(4)
  show ?thesis by (auto simp: mem.settled_def mj_recovery_state_def)
qed

lemma swap_plan_rows:
  assumes "plan_cancellable memory_backend_ops swap_backend (\<lambda>_. False) swap_request = Inr plan"
  shows "plan_entries plan = swap_rows"
proof -
  have c: "filter (\<lambda>intent. \<not> unchanged intent) (request_entries swap_request) = request_entries swap_request"
    by (simp add: unchanged_def)
  have "\<exists>n4 s n5. freeze_stage memory_backend_ops swap_backend (\<lambda>_. False) (request_scope swap_request)
       (filter (\<lambda>intent. \<not> unchanged intent) (request_entries swap_request)) n4 = Inr (s, n5) \<and>
       plan_entries plan = stage_rows s"
    by (rule plan_stages [OF assms]) blast
  then obtain n4 s n5 where
    "freeze_stage memory_backend_ops swap_backend (\<lambda>_. False) (request_scope swap_request)
       (request_entries swap_request) n4 = Inr (s, n5)" "plan_entries plan = stage_rows s"
    unfolding c by blast
  with swap_freeze [of n4] show ?thesis by (auto simp del: swap_request_fields(1))
qed

lemma swap_quiet:
  assumes "plan_entries plan = swap_rows"
  shows "quiet swap_backend plan"
proof -
  have long: "length (temporary_leaf p n e k) = 78" for p n e k by (simp add: temporary_leaf_def)
  have entries: "mb_entries swap_backend =
      [file_path 97 \<mapsto> \<lparr>me_identity = file_identity 1, me_kind = File, me_reparse = False\<rparr>,
       file_path 98 \<mapsto> \<lparr>me_identity = file_identity 2, me_kind = File, me_reparse = False\<rparr>]"
    by (simp add: swap_backend_def with_parent_identity_def with_file_def with_file_identity_def
        memory_backend_new_def file_identity_def)
  have "mb_entries swap_backend path = None" if "length path \<noteq> 6" for path
    using that by (auto simp: entries file_path_def)
  then have "mb_entries swap_backend (q @ BACKSLASH # temporary_leaf p n e k) = None" for q p n e k
    by (simp add: long)
  moreover have "[u] \<noteq> temporary_leaf p n e k" for u p n e k
    by (rule notI, drule arg_cong [of _ _ length]) (simp add: long)
  ultimately have "unused_temporaries swap_backend plan"
    by (auto simp: unused_temporaries_def assms entry_key_inj)
  moreover have "fits_journal plan"
    unfolding fits_journal_def by (rule exI [of _ 6]) (simp add: assms swap_row_def file_path_def journal_limits)
  moreover have "kinds_agree swap_backend" by (auto simp: kinds_agree_def entries ran_def)
  moreover have "mb_failures swap_backend = Map.empty" "mb_nonce swap_backend = 1"
    by (simp_all add: swap_backend_def with_parent_identity_def with_file_def with_file_identity_def memory_backend_new_def)
  ultimately show ?thesis by (simp add: quiet_def assms)
qed

theorem planned_request_completes_witness:
  "\<exists>plan rep w'. plan_cancellable memory_backend_ops swap_backend (\<lambda>_. False) swap_request = Inr plan \<and>
     execute_with_control swap_ports plan swap_world = (Inr rep, w') \<and> report_outcome rep = Exec_Completed \<and>
     mb_occupancy (w_backend w') (file_path 97) = Some (file_identity 2) \<and>
     mb_occupancy (w_backend w') (file_path 98) = Some (file_identity 1)"
proof -
  obtain plan where plan: "plan_cancellable memory_backend_ops swap_backend (\<lambda>_. False) swap_request = Inr plan"
    using swap_planned by blast
  have w: "w_backend swap_world = swap_backend" "mj_records (w_journal swap_world) = []"
    by (simp_all add: swap_world_def memory_journal_new_def)
  from planned_request_completes [of swap_world, unfolded w(1), OF plan swap_coherent
      swap_quiet [OF swap_plan_rows [OF plan]] w(2), of swap_ports] obtain rep w' where
    run: "execute_with_control swap_ports plan swap_world = (Inr rep, w')" "report_outcome rep = Exec_Completed"
    and "request_applied swap_request (mb_occupancy swap_backend) (mb_occupancy (w_backend w'))"
    by (auto simp: swap_ports_def)
  then have "mb_occupancy (w_backend w') (file_path 97) = Some (file_identity 2)"
    "mb_occupancy (w_backend w') (file_path 98) = Some (file_identity 1)"
    by (simp_all add: request_applied_def unchanged_def swap_occupancy)
  with plan run show ?thesis by blast
qed

end
