(* ===== verification/Journal_Codec.thy ===== *)
theory Journal_Codec
  imports Journal_Capacity
begin

text \<open>
  The codec of the durable journal (\<open>file_journal.rs\<close>): a stream of frames, each a header of 24
  bytes (magic, version, kind, flags, sequence, payload length, CRC-32) and a payload. The encoder
  writes version 2; the decoder reads versions 1 and 2, validates every field in the code's order
  and tells a final torn frame from every other damage.
\<close>

section \<open>Little-endian bytes\<close>

text \<open>\<open>to_le_bytes\<close> and \<open>from_le_bytes\<close> of the unsigned integers.\<close>

fun le_bytes :: "nat \<Rightarrow> 'a::len word \<Rightarrow> u8 list" where
  "le_bytes 0 w = []"
| "le_bytes (Suc n) w = ucast w # le_bytes n (drop_bit 8 w)"

fun from_le_bytes :: "u8 list \<Rightarrow> 'a::len word" where
  "from_le_bytes [] = 0"
| "from_le_bytes (b # bs) = or (ucast b) (push_bit 8 (from_le_bytes bs))"

lemma length_le_bytes [simp]: "length (le_bytes n w) = n"
  by (induction n arbitrary: w) simp_all

lemma from_le_bytes_take: "from_le_bytes (le_bytes n w) = take_bit (8 * n) w"
proof (induction n arbitrary: w)
  case (Suc n)
  show ?case
    by (rule bit_word_eqI) (auto simp: Suc bit_simps)
qed simp

lemma from_le_bytes_le_bytes [simp]:
  fixes w :: "'a::len word"
  assumes "LENGTH('a) \<le> 8 * n"
  shows "from_le_bytes (le_bytes n w) = w"
  using assms by (simp add: from_le_bytes_take take_bit_word_eq_self)

section \<open>Constants, errors and results\<close>

definition MAGIC :: "u8 list" where
  "MAGIC = [0x44, 0x52, 0x4A, 0x31]"

definition LEGACY_VERSION :: u16 where
  "LEGACY_VERSION = 1"

definition VERSION :: u16 where
  "VERSION = 2"

definition HEADER_BYTES :: usize where
  "HEADER_BYTES = 24"

definition FLAGS_NONE :: u8 where
  "FLAGS_NONE = 0"

lemmas codec_consts = MAGIC_def LEGACY_VERSION_def VERSION_def HEADER_BYTES_def FLAGS_NONE_def

datatype journal_codec_error_kind =
    FileTooLarge
  | TooManyFrames
  | TooManySteps
  | PathTooLong
  | TruncatedFrame
  | InvalidMagic
  | UnsupportedVersion
  | InvalidFlags
  | SequenceMismatch
  | FrameTooLarge
  | ChecksumMismatch
  | UnknownRecordKind
  | UnknownFieldValue
  | InvalidPayload
  | InvalidTransitions
  | IntegerOutOfRange

record journal_codec_error =
  codec_frame :: usize
  codec_kind :: journal_codec_error_kind

definition codec_error :: "usize \<Rightarrow> journal_codec_error_kind \<Rightarrow> journal_codec_error" where
  "codec_error frame kind = \<lparr>codec_frame = frame, codec_kind = kind\<rparr>"

datatype journal_tail_issue = TruncatedHeader | TruncatedPayload

record journal_inspection =
  inspected_records :: "journal_record list"
  inspected_issue :: "journal_tail_issue option"
  valid_bytes :: usize

section \<open>Checksum\<close>

text \<open>One of the eight rounds, one byte, and the fold over the parts.\<close>

definition crc32_round :: "u32 \<Rightarrow> u32" where
  "crc32_round crc = xor (drop_bit 1 crc) (and 0xEDB88320 (0 - and crc 1))"

definition crc32_byte :: "u8 \<Rightarrow> u32 \<Rightarrow> u32" where
  "crc32_byte b crc = (crc32_round ^^ 8) (xor crc (ucast b))"

definition crc32_parts :: "u8 list list \<Rightarrow> u32" where
  "crc32_parts parts = not (fold (fold crc32_byte) parts (- 1))"

section \<open>Field encoders\<close>

definition put_u32 :: "u8 list \<Rightarrow> u32 \<Rightarrow> u8 list" where
  "put_u32 payload v = payload @ le_bytes 4 v"

definition put_u32_len :: "u8 list \<Rightarrow> usize \<Rightarrow> usize \<Rightarrow> journal_codec_error + u8 list" where
  "put_u32_len payload v frame =
     (if v < 2 ^ 32 then Inr (put_u32 payload (of_nat v))
      else Inl (codec_error frame IntegerOutOfRange))"

definition put_u64 :: "u8 list \<Rightarrow> u64 \<Rightarrow> u8 list" where
  "put_u64 payload v = payload @ le_bytes 8 v"

definition put_identity :: "u8 list \<Rightarrow> entry_identity \<Rightarrow> u8 list" where
  "put_identity payload i = payload @ le_bytes 8 (volume i) @ le_bytes 16 (file_id i)"

definition text_bytes :: "legacy_text \<Rightarrow> u8 list" where
  "text_bytes t = concat (map (le_bytes 2) t)"

definition put_text :: "u8 list \<Rightarrow> legacy_text \<Rightarrow> usize \<Rightarrow> journal_codec_error + u8 list" where
  "put_text payload t frame =
     (if MAX_PATH_UNITS < length t then Inl (codec_error frame PathTooLong)
      else case checked_mul (length t) 2 of
        None \<Rightarrow> Inl (codec_error frame IntegerOutOfRange)
      | Some encoded_units \<Rightarrow>
          (case Option.bind (checked_add (length payload) 4) (\<lambda>l. checked_add l encoded_units) of
             None \<Rightarrow> Inl (codec_error frame IntegerOutOfRange)
           | Some prospective \<Rightarrow>
               if MAX_JOURNAL_FRAME_BYTES < prospective then Inl (codec_error frame FrameTooLarge)
               else and_then (put_u32_len payload (length t) frame) (\<lambda>p. Inr (p @ text_bytes t))))"

definition encode_direction :: "journal_direction \<Rightarrow> u8" where
  "encode_direction d = (case d of Forward \<Rightarrow> 0 | Rollback \<Rightarrow> 1)"

definition decode_direction :: "u8 \<Rightarrow> usize \<Rightarrow> journal_codec_error + journal_direction" where
  "decode_direction v frame =
     (if v = 0 then Inr Forward else if v = 1 then Inr Rollback
      else Inl (codec_error frame UnknownFieldValue))"

definition encode_kind :: "entry_kind \<Rightarrow> u8" where
  "encode_kind k = (case k of File \<Rightarrow> 0 | Directory \<Rightarrow> 1)"

definition decode_kind :: "u8 \<Rightarrow> usize \<Rightarrow> journal_codec_error + entry_kind" where
  "decode_kind v frame =
     (if v = 0 then Inr File else if v = 1 then Inr Directory
      else Inl (codec_error frame UnknownFieldValue))"

definition encode_scope :: "move_scope \<Rightarrow> u8" where
  "encode_scope s = (case s of SameParent \<Rightarrow> 0 | SameVolumeFilesOnly \<Rightarrow> 1)"

definition decode_scope :: "u8 \<Rightarrow> usize \<Rightarrow> journal_codec_error + move_scope" where
  "decode_scope v frame =
     (if v = 0 then Inr SameParent else if v = 1 then Inr SameVolumeFilesOnly
      else Inl (codec_error frame UnknownFieldValue))"

definition encode_phase :: "temporary_phase \<Rightarrow> u8" where
  "encode_phase p = (case p of NoTemporary \<Rightarrow> 0 | IntoTemporary \<Rightarrow> 1 | FromTemporary \<Rightarrow> 2)"

definition decode_phase :: "u8 \<Rightarrow> usize \<Rightarrow> journal_codec_error + temporary_phase" where
  "decode_phase v frame =
     (if v = 0 then Inr NoTemporary else if v = 1 then Inr IntoTemporary
      else if v = 2 then Inr FromTemporary
      else Inl (codec_error frame UnknownFieldValue))"

section \<open>Record encoder\<close>

definition encode_step :: "usize \<Rightarrow> u8 list \<Rightarrow> journal_step \<Rightarrow> journal_codec_error + u8 list" where
  "encode_step frame payload st =
     and_then (put_text (put_u32 payload (step_entry st)) (step_source st) frame) (\<lambda>p.
     and_then (put_text p (step_destination st) frame) (\<lambda>p.
       let p = put_identity (put_identity (put_identity p (step_expected_source st))
                 (step_source_parent st)) (step_destination_parent st)
       in case step_kind st of
            None \<Rightarrow> Inl (codec_error frame InvalidPayload)
          | Some kind \<Rightarrow>
              let p = p @ [encode_kind kind, encode_scope (step_scope st),
                           encode_phase (step_temporary_phase st)]
              in if MAX_JOURNAL_FRAME_BYTES < length p then Inl (codec_error frame FrameTooLarge)
                 else Inr p))"

fun encode_steps :: "usize \<Rightarrow> u8 list \<Rightarrow> journal_step list \<Rightarrow> journal_codec_error + u8 list" where
  "encode_steps frame payload [] = Inr payload"
| "encode_steps frame payload (st # sts) =
     and_then (encode_step frame payload st) (\<lambda>p. encode_steps frame p sts)"

definition requirements_error :: "usize \<Rightarrow> journal_capacity_error \<Rightarrow> journal_codec_error" where
  "requirements_error frame e =
     codec_error frame (case capacity_kind e of PrimitiveSteps \<Rightarrow> TooManySteps
                        | IntentFrameBytes \<Rightarrow> FrameTooLarge)"

definition encode_outcome ::
  "u8 \<Rightarrow> usize \<Rightarrow> usize \<Rightarrow> journal_direction \<Rightarrow> journal_codec_error + u8 \<times> u8 list" where
  "encode_outcome kind frame i d =
     and_then (put_u32_len [] i frame) (\<lambda>p. Inr (kind, p @ [encode_direction d]))"

text \<open>The payload starts empty; the result is the kind byte with the payload.\<close>

definition encode_record :: "journal_record \<Rightarrow> usize \<Rightarrow> journal_codec_error + u8 \<times> u8 list" where
  "encode_record r frame =
     (case r of
        Intent plan steps \<Rightarrow>
          (case journal_requirements steps of
             Inl e \<Rightarrow> Inl (requirements_error frame e)
           | Inr _ \<Rightarrow>
               and_then (put_u32_len (put_u64 [] plan) (length steps) frame) (\<lambda>p.
               and_then (encode_steps frame p steps) (\<lambda>p. Inr (1, p))))
      | Prepared i d \<Rightarrow> encode_outcome 2 frame i d
      | Completed i d \<Rightarrow> encode_outcome 3 frame i d
      | NotApplied i d \<Rightarrow> encode_outcome 4 frame i d
      | Terminal t \<Rightarrow> Inr (5, [case t of Committed \<Rightarrow> 0 | RolledBack \<Rightarrow> 1]))"

text \<open>The header up to the checksum that the checksum covers: bytes 4 to 19.\<close>

definition header_fields :: "u8 \<Rightarrow> u64 \<Rightarrow> u32 \<Rightarrow> u8 list" where
  "header_fields kind sequence payload_len =
     le_bytes 2 VERSION @ [kind, FLAGS_NONE] @ le_bytes 8 sequence @ le_bytes 4 payload_len"

definition encode_frame :: "u64 \<Rightarrow> journal_record \<Rightarrow> usize \<Rightarrow> journal_codec_error + u8 list" where
  "encode_frame sequence r frame =
     and_then (encode_record r frame) (\<lambda>(kind, payload).
       if MAX_JOURNAL_FRAME_BYTES < length payload then Inl (codec_error frame FrameTooLarge)
       else if 2 ^ 32 \<le> length payload then Inl (codec_error frame IntegerOutOfRange)
       else let fields = header_fields kind sequence (of_nat (length payload));
                checksum = crc32_parts [fields, payload]
            in Inr (MAGIC @ fields @ le_bytes 4 checksum @ payload))"

fun encode_loop ::
  "u8 list \<Rightarrow> usize \<Rightarrow> journal_record list \<Rightarrow> journal_codec_error + u8 list" where
  "encode_loop bytes index [] = Inr bytes"
| "encode_loop bytes index (r # rs) =
     and_then (encode_frame (of_nat index) r index) (\<lambda>frame.
       if MAX_JOURNAL_FILE_BYTES < saturating_add (length bytes) (length frame)
       then Inl (codec_error index FileTooLarge)
       else encode_loop (bytes @ frame) (index + 1) rs)"

definition encode_journal_records :: "journal_record list \<Rightarrow> journal_codec_error + u8 list" where
  "encode_journal_records records =
     (if MAX_JOURNAL_FRAMES < length records
      then Inl (codec_error MAX_JOURNAL_FRAMES TooManyFrames)
      else encode_loop [] 0 records)"

section \<open>Decoder\<close>

record decoder =
  dec_bytes :: "u8 list"
  dec_offset :: usize
  dec_frame :: usize

definition decoder_new :: "u8 list \<Rightarrow> usize \<Rightarrow> decoder" where
  "decoder_new bytes frame = \<lparr>dec_bytes = bytes, dec_offset = 0, dec_frame = frame\<rparr>"

text \<open>\<open>slice.get(a..b)\<close>.\<close>

definition slice_get :: "'a list \<Rightarrow> nat \<Rightarrow> nat \<Rightarrow> 'a list option" where
  "slice_get xs a b = (if a \<le> b \<and> b \<le> length xs then Some (take (b - a) (drop a xs)) else None)"

type_synonym 'a decoded = "journal_codec_error + 'a \<times> decoder"

definition dec_take :: "usize \<Rightarrow> decoder \<Rightarrow> u8 list decoded" where
  "dec_take count d =
     (case checked_add (dec_offset d) count of
        None \<Rightarrow> Inl (codec_error (dec_frame d) IntegerOutOfRange)
      | Some e \<Rightarrow>
          (case slice_get (dec_bytes d) (dec_offset d) e of
             None \<Rightarrow> Inl (codec_error (dec_frame d) InvalidPayload)
           | Some bs \<Rightarrow> Inr (bs, d\<lparr>dec_offset := e\<rparr>)))"

definition dec_u8 :: "decoder \<Rightarrow> u8 decoded" where
  "dec_u8 d = and_then (dec_take 1 d) (\<lambda>(bs, d). Inr (hd bs, d))"

definition read_fixed :: "nat \<Rightarrow> u8 list \<Rightarrow> usize \<Rightarrow> journal_codec_error + 'a::len word" where
  "read_fixed n bytes frame =
     (if length bytes = n then Inr (from_le_bytes bytes) else Inl (codec_error frame InvalidPayload))"

definition read_fixed_u32 :: "u8 list \<Rightarrow> usize \<Rightarrow> journal_codec_error + u32" where
  "read_fixed_u32 = read_fixed 4"

definition read_fixed_u64 :: "u8 list \<Rightarrow> usize \<Rightarrow> journal_codec_error + u64" where
  "read_fixed_u64 = read_fixed 8"

definition dec_u32 :: "decoder \<Rightarrow> u32 decoded" where
  "dec_u32 d = and_then (dec_take 4 d) (\<lambda>(bs, d).
     and_then (read_fixed_u32 bs (dec_frame d)) (\<lambda>w. Inr (w, d)))"

definition dec_usize_u32 :: "decoder \<Rightarrow> usize decoded" where
  "dec_usize_u32 d = and_then (dec_u32 d) (\<lambda>(w, d). Inr (unat w, d))"

definition dec_u64 :: "decoder \<Rightarrow> u64 decoded" where
  "dec_u64 d = and_then (dec_take 8 d) (\<lambda>(bs, d).
     and_then (read_fixed_u64 bs (dec_frame d)) (\<lambda>w. Inr (w, d)))"

definition dec_u128 :: "decoder \<Rightarrow> u128 decoded" where
  "dec_u128 d = and_then (dec_take 16 d) (\<lambda>(bs, d).
     and_then (read_fixed 16 bs (dec_frame d)) (\<lambda>w. Inr (w, d)))"

definition dec_identity :: "decoder \<Rightarrow> entry_identity decoded" where
  "dec_identity d = and_then (dec_u64 d) (\<lambda>(v, d). and_then (dec_u128 d) (\<lambda>(f, d).
     Inr (\<lparr>volume = v, file_id = f\<rparr>, d)))"

text \<open>\<open>as_chunks::<2>\<close>: the pairs, a last odd byte left out.\<close>

fun units_of_bytes :: "u8 list \<Rightarrow> u16 list" where
  "units_of_bytes (a # b # bs) = from_le_bytes [a, b] # units_of_bytes bs"
| "units_of_bytes _ = []"

definition dec_text :: "decoder \<Rightarrow> legacy_text decoded" where
  "dec_text d = and_then (dec_usize_u32 d) (\<lambda>(units, d).
     if MAX_PATH_UNITS < units then Inl (codec_error (dec_frame d) PathTooLong)
     else case checked_mul units 2 of
       None \<Rightarrow> Inl (codec_error (dec_frame d) IntegerOutOfRange)
     | Some byte_count \<Rightarrow> and_then (dec_take byte_count d) (\<lambda>(bs, d). Inr (units_of_bytes bs, d)))"

definition dec_finish :: "decoder \<Rightarrow> journal_codec_error + unit" where
  "dec_finish d =
     (if dec_offset d = length (dec_bytes d) then Inr ()
      else Inl (codec_error (dec_frame d) InvalidPayload))"

definition decode_step :: "usize \<Rightarrow> u16 \<Rightarrow> decoder \<Rightarrow> journal_step decoded" where
  "decode_step frame version d =
     and_then (dec_u32 d) (\<lambda>(entry, d).
     and_then (dec_text d) (\<lambda>(src, d).
     and_then (dec_text d) (\<lambda>(dst, d).
     and_then (dec_identity d) (\<lambda>(expected, d).
     and_then (dec_identity d) (\<lambda>(src_par, d).
     and_then (dec_identity d) (\<lambda>(dst_par, d).
       if version = LEGACY_VERSION
       then and_then (dec_u8 d) (\<lambda>(b, d). and_then (decode_phase b frame) (\<lambda>ph.
              Inr (legacy_same_parent entry src dst expected src_par dst_par ph, d)))
       else and_then (dec_u8 d) (\<lambda>(b, d). and_then (decode_kind b frame) (\<lambda>kind.
            and_then (dec_u8 d) (\<lambda>(b, d). and_then (decode_scope b frame) (\<lambda>scope.
            and_then (dec_u8 d) (\<lambda>(b, d). and_then (decode_phase b frame) (\<lambda>ph.
              Inr (with_move_authorization
                     (journal_step_new entry src dst expected src_par dst_par ph) kind scope, d)))))))))))))"

fun decode_steps :: "usize \<Rightarrow> u16 \<Rightarrow> nat \<Rightarrow> decoder \<Rightarrow> journal_step list decoded" where
  "decode_steps frame version 0 d = Inr ([], d)"
| "decode_steps frame version (Suc count) d =
     and_then (decode_step frame version d) (\<lambda>(st, d).
     and_then (decode_steps frame version count d) (\<lambda>(sts, d). Inr (st # sts, d)))"

definition decode_outcome :: "usize \<Rightarrow> decoder \<Rightarrow> (usize \<times> journal_direction) decoded" where
  "decode_outcome frame d =
     and_then (dec_usize_u32 d) (\<lambda>(i, d).
     and_then (dec_u8 d) (\<lambda>(b, d).
     and_then (decode_direction b frame) (\<lambda>dir. Inr ((i, dir), d))))"

definition decode_body :: "u8 \<Rightarrow> usize \<Rightarrow> u16 \<Rightarrow> decoder \<Rightarrow> journal_record decoded" where
  "decode_body kind frame version d =
     (if kind = 1 then
        and_then (dec_u64 d) (\<lambda>(plan, d).
        and_then (dec_usize_u32 d) (\<lambda>(count, d).
          if MAX_JOURNAL_STEPS < count then Inl (codec_error frame TooManySteps)
          else and_then (decode_steps frame version count d) (\<lambda>(sts, d). Inr (Intent plan sts, d))))
      else if kind = 2 then and_then (decode_outcome frame d) (\<lambda>((i, dir), d). Inr (Prepared i dir, d))
      else if kind = 3 then and_then (decode_outcome frame d) (\<lambda>((i, dir), d). Inr (Completed i dir, d))
      else if kind = 4 then and_then (decode_outcome frame d) (\<lambda>((i, dir), d). Inr (NotApplied i dir, d))
      else if kind = 5 then
        and_then (dec_u8 d) (\<lambda>(b, d).
          if b = 0 then Inr (Terminal Committed, d)
          else if b = 1 then Inr (Terminal RolledBack, d)
          else Inl (codec_error frame UnknownFieldValue))
      else Inl (codec_error frame UnknownRecordKind))"

definition decode_record ::
  "u8 \<Rightarrow> u8 list \<Rightarrow> usize \<Rightarrow> u16 \<Rightarrow> journal_codec_error + journal_record" where
  "decode_record kind payload frame version =
     and_then (decode_body kind frame version (decoder_new payload frame)) (\<lambda>(r, d).
     and_then (dec_finish d) (\<lambda>_. Inr r))"

section \<open>Inspection of a stream\<close>

definition finish_inspection ::
  "journal_record list \<Rightarrow> journal_tail_issue option \<Rightarrow> usize \<Rightarrow> journal_codec_error + journal_inspection" where
  "finish_inspection records issue valid =
     (if issue \<noteq> None \<and> records = [] then Inl (codec_error 0 TruncatedFrame)
      else if is_corrupt (replay_journal records)
      then Inl (codec_error (saturating_sub (length records) 1) InvalidTransitions)
      else Inr \<lparr>inspected_records = records, inspected_issue = issue, valid_bytes = valid\<rparr>)"

text \<open>
  One pass of the loop at \<open>offset\<close>: it ends with a torn frame, fails, or yields the next record and
  the offset after it.
\<close>

datatype frame_result =
    Torn journal_tail_issue
  | BadFrame journal_codec_error
  | Framed journal_record usize

definition frame_header_error :: "u8 list \<Rightarrow> usize \<Rightarrow> journal_codec_error_kind option" where
  "frame_header_error header frame =
     (if take 4 header \<noteq> MAGIC then Some InvalidMagic
      else let version = from_le_bytes [header ! 4, header ! 5] in
        if version \<noteq> LEGACY_VERSION \<and> version \<noteq> VERSION then Some UnsupportedVersion
      else if header ! 6 < 1 \<or> 5 < header ! 6 then Some UnknownRecordKind
      else if header ! 7 \<noteq> FLAGS_NONE then Some InvalidFlags
      else if from_le_bytes (take 8 (drop 8 header)) \<noteq> (of_nat frame :: u64) then Some SequenceMismatch
      else if MAX_JOURNAL_FRAME_BYTES < unat (from_le_bytes (take 4 (drop 16 header)) :: u32)
      then Some FrameTooLarge
      else None)"

definition inspect_frame :: "u8 list \<Rightarrow> usize \<Rightarrow> usize \<Rightarrow> frame_result" where
  "inspect_frame bytes frame offset =
     (if MAX_JOURNAL_FRAMES \<le> frame then BadFrame (codec_error frame TooManyFrames)
      else case checked_add offset HEADER_BYTES of
        None \<Rightarrow> BadFrame (codec_error frame IntegerOutOfRange)
      | Some header_end \<Rightarrow>
      (case slice_get bytes offset header_end of
        None \<Rightarrow> Torn TruncatedHeader
      | Some header \<Rightarrow>
      (case frame_header_error header frame of
        Some kind \<Rightarrow> BadFrame (codec_error frame kind)
      | None \<Rightarrow>
      (case checked_add header_end (unat (from_le_bytes (take 4 (drop 16 header)) :: u32)) of
        None \<Rightarrow> BadFrame (codec_error frame IntegerOutOfRange)
      | Some frame_end \<Rightarrow>
      (case slice_get bytes header_end frame_end of
        None \<Rightarrow> Torn TruncatedPayload
      | Some payload \<Rightarrow>
          if from_le_bytes (take 4 (drop 20 header)) \<noteq> crc32_parts [take 16 (drop 4 header), payload]
          then BadFrame (codec_error frame ChecksumMismatch)
          else case decode_record (header ! 6) payload frame (from_le_bytes [header ! 4, header ! 5]) of
                 Inl e \<Rightarrow> BadFrame e
               | Inr r \<Rightarrow> Framed r frame_end)))))"

lemma inspect_frame_advances:
  "inspect_frame bytes frame offset = Framed r e \<Longrightarrow> offset + 24 \<le> e \<and> e \<le> length bytes"
  unfolding inspect_frame_def
  by (auto simp: slice_get_def HEADER_BYTES_def split: if_split_asm option.split_asm sum.split_asm)

function inspect_loop ::
  "u8 list \<Rightarrow> journal_record list \<Rightarrow> usize \<Rightarrow> journal_codec_error + journal_inspection" where
  "inspect_loop bytes records offset =
     (if offset < length bytes
      then case inspect_frame bytes (length records) offset of
             Torn issue \<Rightarrow> finish_inspection records (Some issue) offset
           | BadFrame e \<Rightarrow> Inl e
           | Framed r e \<Rightarrow> inspect_loop bytes (records @ [r]) e
      else finish_inspection records None offset)"
  by auto
termination
  by (relation "measure (\<lambda>(bytes, records, offset). length bytes - offset)")
    (auto dest: inspect_frame_advances)

declare inspect_loop.simps [simp del]

definition inspect_journal_records :: "u8 list \<Rightarrow> journal_codec_error + journal_inspection" where
  "inspect_journal_records bytes =
     (if MAX_JOURNAL_FILE_BYTES < length bytes then Inl (codec_error 0 FileTooLarge)
      else inspect_loop bytes [] 0)"

definition decode_journal_records :: "u8 list \<Rightarrow> journal_codec_error + journal_record list" where
  "decode_journal_records bytes =
     and_then (inspect_journal_records bytes) (\<lambda>inspection.
       if inspected_issue inspection \<noteq> None
       then Inl (codec_error (length (inspected_records inspection)) TruncatedFrame)
       else Inr (inspected_records inspection))"

end
