(* ===== verification/Codec_Correct.thy ===== *)
theory Codec_Correct
  imports Journal_Codec
begin

text \<open>
  The decoder inverts the encoder. The bytes of a record are given in closed form; the encoder
  succeeds exactly on the encodable records and produces them, every field decoder reads back its
  field, and a frame is read back in front of any further bytes. A strict prefix of a frame is
  reported as torn.
\<close>

section \<open>Readers\<close>

named_theorems reads_intros \<open>what a field decoder reads\<close>

text \<open>The decoder between the bytes already read and the bytes left.\<close>

definition dec_at :: "u8 list \<Rightarrow> u8 list \<Rightarrow> usize \<Rightarrow> decoder" where
  "dec_at pre post frame =
     \<lparr>dec_bytes = pre @ post, dec_offset = length pre, dec_frame = frame\<rparr>"

definition reads :: "(decoder \<Rightarrow> 'a decoded) \<Rightarrow> u8 list \<Rightarrow> 'a \<Rightarrow> bool" where
  "reads p xs v \<longleftrightarrow> (\<forall>pre post frame. length pre + length xs + length post < USIZE_LIMIT \<longrightarrow>
     p (dec_at pre (xs @ post) frame) = Inr (v, dec_at (pre @ xs) post frame))"

lemma reads_D:
  "reads p xs v \<Longrightarrow> length pre + length xs + length post < USIZE_LIMIT \<Longrightarrow>
     p (dec_at pre (xs @ post) frame) = Inr (v, dec_at (pre @ xs) post frame)"
  by (simp add: reads_def)

lemma reads_bind:
  assumes "reads p xs v" and "reads (q v) ys w"
  shows "reads (\<lambda>d. and_then (p d) (\<lambda>(v, d). q v d)) (xs @ ys) w"
  unfolding reads_def
proof (intro allI impI)
  fix pre post :: "u8 list" and frame
  assume "length pre + length (xs @ ys) + length post < USIZE_LIMIT"
  then show "and_then (p (dec_at pre ((xs @ ys) @ post) frame)) (\<lambda>(v, d). q v d) =
    Inr (w, dec_at (pre @ xs @ ys) post frame)"
    using reads_D [OF assms(1), of pre "ys @ post" frame] reads_D [OF assms(2), of "pre @ xs" post frame]
    by simp
qed

lemma reads_return: "reads (\<lambda>d. Inr (v, d)) [] v"
  by (simp add: reads_def)

lemma reads_pure:
  "r = Inr x \<Longrightarrow> reads (q x) ys w \<Longrightarrow> reads (\<lambda>d. and_then r (\<lambda>x. q x d)) ys w"
  by simp

lemma reads_last:
  "reads p xs v \<Longrightarrow> f v = w \<Longrightarrow> reads (\<lambda>d. and_then (p d) (\<lambda>(v, d). Inr (f v, d))) xs w"
  using reads_bind [of p xs v "\<lambda>v d. Inr (f v, d)" "[]" w] reads_return [of w] by simp

lemma reads_take [reads_intros]: "length xs = n \<Longrightarrow> reads (dec_take n) xs xs"
  by (auto simp: reads_def dec_take_def dec_at_def slice_get_def checked_add_def)

lemma reads_u8 [reads_intros]: "reads dec_u8 [b] b"
  using reads_take [of "[b]" 1] by (simp add: reads_def dec_u8_def)

lemma reads_u32 [reads_intros]: "reads dec_u32 (le_bytes 4 w) w"
  using reads_take [of "le_bytes 4 w" 4] by (simp add: reads_def dec_u32_def read_fixed_u32_def read_fixed_def)

lemma reads_u64 [reads_intros]: "reads dec_u64 (le_bytes 8 w) w"
  using reads_take [of "le_bytes 8 w" 8] by (simp add: reads_def dec_u64_def read_fixed_u64_def read_fixed_def)

lemma reads_u128 [reads_intros]: "reads dec_u128 (le_bytes 16 w) w"
  using reads_take [of "le_bytes 16 w" 16] by (simp add: reads_def dec_u128_def read_fixed_def)

lemma reads_usize [reads_intros]:
  "n < 2 ^ 32 \<Longrightarrow> reads dec_usize_u32 (le_bytes 4 (of_nat n :: u32)) n"
  using reads_u32 [of "of_nat n"] by (simp add: reads_def dec_usize_u32_def unsigned_of_nat take_bit_nat_eq_self)

definition identity_image :: "entry_identity \<Rightarrow> u8 list" where
  "identity_image i = le_bytes 8 (volume i) @ le_bytes 16 (file_id i)"

lemma length_identity_image [simp]: "length (identity_image i) = 24"
  by (simp add: identity_image_def)

lemma reads_identity [reads_intros]: "reads dec_identity (identity_image i) i"
  unfolding dec_identity_def identity_image_def
  by (rule reads_bind reads_last reads_intros)+ simp

lemma length_text_bytes [simp]: "length (text_bytes t) = 2 * length t"
  by (induction t) (simp_all add: text_bytes_def)

lemma units_of_text_bytes [simp]: "units_of_bytes (text_bytes t) = t"
proof (induction t)
  case (Cons u t)
  have "le_bytes 2 u = [ucast u, ucast (drop_bit 8 u)]" by (simp add: numeral_2_eq_2)
  with Cons from_le_bytes_le_bytes [of 2 u] show ?case by (simp add: text_bytes_def)
qed (simp add: text_bytes_def)

definition text_image :: "legacy_text \<Rightarrow> u8 list" where
  "text_image t = le_bytes 4 (of_nat (length t) :: u32) @ text_bytes t"

lemma length_text_image [simp]: "length (text_image t) = 4 + 2 * length t"
  by (simp add: text_image_def)

lemma reads_text [reads_intros]:
  assumes "length t \<le> MAX_PATH_UNITS"
  shows "reads dec_text (text_image t) t"
  unfolding dec_text_def text_image_def
proof (rule reads_bind)
  show "reads dec_usize_u32 (le_bytes 4 (of_nat (length t) :: u32)) (length t)"
    using assms by (intro reads_intros) (simp add: journal_limits)
  have "reads (\<lambda>d. and_then (dec_take (length t * 2) d) (\<lambda>(bs, d). Inr (units_of_bytes bs, d)))
    (text_bytes t) t"
    by (rule reads_last, rule reads_take) simp_all
  then show "reads (\<lambda>d. if MAX_PATH_UNITS < length t then Inl (codec_error (dec_frame d) PathTooLong)
     else case checked_mul (length t) 2 of
       None \<Rightarrow> Inl (codec_error (dec_frame d) IntegerOutOfRange)
     | Some byte_count \<Rightarrow> and_then (dec_take byte_count d) (\<lambda>(bs, d). Inr (units_of_bytes bs, d)))
     (text_bytes t) t"
    using assms by (simp add: checked_mul_def journal_limits)
qed

lemma decode_encode_fields [simp]:
  "decode_direction (encode_direction dir) f = Inr dir"
  "decode_kind (encode_kind k) f = Inr k"
  "decode_scope (encode_scope s) f = Inr s"
  "decode_phase (encode_phase p) f = Inr p"
  by (simp_all add: decode_direction_def encode_direction_def decode_kind_def encode_kind_def
      decode_scope_def encode_scope_def decode_phase_def encode_phase_def
      split: journal_direction.split entry_kind.split move_scope.split temporary_phase.split)

section \<open>Steps\<close>

text \<open>A step the codec can write: a version-2 kind and bounded paths.\<close>

definition encodable_step :: "journal_step \<Rightarrow> bool" where
  "encodable_step st \<longleftrightarrow> step_kind st \<noteq> None \<and> length (step_source st) \<le> MAX_PATH_UNITS \<and>
     length (step_destination st) \<le> MAX_PATH_UNITS"

definition step_image :: "journal_step \<Rightarrow> u8 list" where
  "step_image st =
     le_bytes 4 (step_entry st) @ text_image (step_source st) @ text_image (step_destination st) @
     identity_image (step_expected_source st) @ identity_image (step_source_parent st) @
     identity_image (step_destination_parent st) @ [encode_kind (the (step_kind st))] @
     [encode_scope (step_scope st)] @ [encode_phase (step_temporary_phase st)]"

lemma length_step_image [simp]: "length (step_image st) = step_bytes st"
  by (simp add: step_image_def step_bytes_def)

lemma rebuild_step:
  "step_kind st = Some k \<Longrightarrow>
     with_move_authorization (journal_step_new (step_entry st) (step_source st) (step_destination st)
       (step_expected_source st) (step_source_parent st) (step_destination_parent st)
       (step_temporary_phase st)) k (step_scope st) = st"
  by (simp add: with_move_authorization_def journal_step_new_def)

lemma reads_step [reads_intros]:
  assumes "encodable_step st"
  shows "reads (decode_step frame VERSION) (step_image st) st"
proof -
  from assms obtain k where k: "step_kind st = Some k" by (auto simp: encodable_step_def)
  have l: "length (step_source st) \<le> MAX_PATH_UNITS" "length (step_destination st) \<le> MAX_PATH_UNITS"
    using assms by (simp_all add: encodable_step_def)
  have v: "(VERSION = LEGACY_VERSION) = False" by (simp add: codec_consts)
  have tail: "reads (\<lambda>d. and_then (dec_u8 d) (\<lambda>(b, d). and_then (decode_phase b frame) (\<lambda>ph.
      Inr (with_move_authorization (journal_step_new (step_entry st) (step_source st)
        (step_destination st) (step_expected_source st) (step_source_parent st)
        (step_destination_parent st) ph) k (step_scope st), d))))
      [encode_phase (step_temporary_phase st)] st"
    using reads_u8 [of "encode_phase (step_temporary_phase st)"]
    by (simp add: reads_def rebuild_step k)
  show ?thesis
    unfolding decode_step_def step_image_def v if_False
    by (rule reads_bind reads_pure tail reads_intros l decode_encode_fields | simp add: k)+
qed

lemma put_text_Inr:
  "put_text p t f = Inr q \<longleftrightarrow> q = p @ text_image t \<and> length t \<le> MAX_PATH_UNITS \<and>
     length p + length (text_image t) \<le> MAX_JOURNAL_FRAME_BYTES"
  by (auto simp: put_text_def put_u32_len_def put_u32_def text_image_def checked_mul_def
      checked_add_def journal_limits bind_eq_Some_conv)

lemma encode_step_Inr:
  "encode_step f p st = Inr q \<longleftrightarrow> q = p @ step_image st \<and> encodable_step st \<and>
     length p + step_bytes st \<le> MAX_JOURNAL_FRAME_BYTES"
proof (cases "step_kind st")
  case None
  then show ?thesis
    by (auto simp: encode_step_def and_then_Inr encodable_step_def Let_def)
next
  case (Some k)
  have len: "length p + step_bytes st \<le> MAX_JOURNAL_FRAME_BYTES \<Longrightarrow>
      length p + 8 + 2 * length (step_source st) \<le> MAX_JOURNAL_FRAME_BYTES \<and>
      length p + 12 + 2 * length (step_source st) + 2 * length (step_destination st)
        \<le> MAX_JOURNAL_FRAME_BYTES"
    by (simp add: step_bytes_def)
  show ?thesis
    using Some len
    by (auto simp: encode_step_def and_then_Inr put_text_Inr encodable_step_def Let_def
        step_image_def put_u32_def put_identity_def identity_image_def step_bytes_def)
qed

definition steps_image :: "journal_step list \<Rightarrow> u8 list" where
  "steps_image sts = concat (map step_image sts)"

lemma steps_image_simps [simp]:
  "steps_image [] = []"
  "steps_image (st # sts) = step_image st @ steps_image sts"
  by (simp_all add: steps_image_def)

lemma length_steps_image: "length (steps_image sts) = sum_list (map step_bytes sts)"
  by (induction sts) simp_all

lemma encode_steps_Inr:
  "length p \<le> MAX_JOURNAL_FRAME_BYTES \<Longrightarrow>
     encode_steps f p sts = Inr q \<longleftrightarrow> q = p @ steps_image sts \<and>
       (\<forall>st \<in> set sts. encodable_step st) \<and>
       length p + sum_list (map step_bytes sts) \<le> MAX_JOURNAL_FRAME_BYTES"
proof (induction sts arbitrary: p)
  case (Cons st sts)
  show ?case
    using Cons.IH [of "p @ step_image st"]
    by (auto simp: and_then_Inr encode_step_Inr add.assoc)
qed auto

lemma reads_steps:
  assumes "\<forall>st \<in> set sts. encodable_step st"
  shows "reads (decode_steps frame VERSION (length sts)) (steps_image sts) sts"
  using assms
proof (induction sts)
  case Nil
  then show ?case by (simp add: reads_def)
next
  case (Cons st sts)
  then have "reads (decode_step frame VERSION) (step_image st) st"
    and "reads (decode_steps frame VERSION (length sts)) (steps_image sts) sts"
    by (auto intro: reads_step)
  then show ?case
    by (auto intro!: reads_bind reads_last)
qed

section \<open>Records\<close>

fun encodable :: "journal_record \<Rightarrow> bool" where
  "encodable (Intent plan sts) \<longleftrightarrow> length sts \<le> MAX_JOURNAL_STEPS \<and>
     manifest_bytes sts \<le> MAX_JOURNAL_FRAME_BYTES \<and> (\<forall>st \<in> set sts. encodable_step st)"
| "encodable (Prepared i d) \<longleftrightarrow> i < 2 ^ 32"
| "encodable (Completed i d) \<longleftrightarrow> i < 2 ^ 32"
| "encodable (NotApplied i d) \<longleftrightarrow> i < 2 ^ 32"
| "encodable (Terminal t) \<longleftrightarrow> True"

fun record_kind :: "journal_record \<Rightarrow> u8" where
  "record_kind (Intent plan sts) = 1"
| "record_kind (Prepared i d) = 2"
| "record_kind (Completed i d) = 3"
| "record_kind (NotApplied i d) = 4"
| "record_kind (Terminal t) = 5"

fun record_image :: "journal_record \<Rightarrow> u8 list" where
  "record_image (Intent plan sts) =
     le_bytes 8 plan @ le_bytes 4 (of_nat (length sts) :: u32) @ steps_image sts"
| "record_image (Prepared i d) = le_bytes 4 (of_nat i :: u32) @ [encode_direction d]"
| "record_image (Completed i d) = le_bytes 4 (of_nat i :: u32) @ [encode_direction d]"
| "record_image (NotApplied i d) = le_bytes 4 (of_nat i :: u32) @ [encode_direction d]"
| "record_image (Terminal t) = [case t of Committed \<Rightarrow> 0 | RolledBack \<Rightarrow> 1]"

lemma length_intent_image: "length (record_image (Intent plan sts)) = manifest_bytes sts"
  by (simp add: length_steps_image manifest_bytes_def)

lemma record_image_bounds:
  "encodable r \<Longrightarrow> length (record_image r) \<le> MAX_JOURNAL_FRAME_BYTES"
  using length_intent_image by (cases r) (simp_all add: journal_limits)

lemma encode_outcome_Inr:
  "encode_outcome k f i d = Inr x \<longleftrightarrow>
     i < 2 ^ 32 \<and> x = (k, le_bytes 4 (of_nat i :: u32) @ [encode_direction d])"
  by (auto simp: encode_outcome_def put_u32_len_def put_u32_def)

text \<open>The encoder succeeds on the encodable records and on no other.\<close>

lemma encode_record_Inr:
  "encode_record r f = Inr x \<longleftrightarrow> encodable r \<and> x = (record_kind r, record_image r)"
proof (cases r)
  case (Intent plan sts)
  have len: "length (le_bytes 8 plan @ le_bytes 4 (of_nat (length sts) :: u32)) = 12" by simp
  show ?thesis
  proof (cases "length sts \<le> MAX_JOURNAL_STEPS \<and> manifest_bytes sts \<le> MAX_JOURNAL_FRAME_BYTES")
    case True
    then obtain q where q: "journal_requirements sts = Inr q"
      by (simp add: journal_requirements_Inr)
    have "length sts < 2 ^ 32" using True by (simp add: journal_limits)
    then show ?thesis
      using encode_steps_Inr [of "le_bytes 8 plan @ le_bytes 4 (of_nat (length sts) :: u32)" f sts] True
      by (auto simp: Intent encode_record_def q and_then_Inr put_u32_len_def put_u32_def put_u64_def
          len journal_limits manifest_bytes_def)
  next
    case False
    then obtain e where "journal_requirements sts = Inl e"
      by (cases "journal_requirements sts") (auto simp: journal_requirements_Inr)
    with False show ?thesis by (auto simp: Intent encode_record_def)
  qed
qed (auto simp: encode_record_def encode_outcome_Inr)

lemma reads_outcome:
  "i < 2 ^ 32 \<Longrightarrow>
     reads (decode_outcome f) (le_bytes 4 (of_nat i :: u32) @ [encode_direction d]) (i, d)"
  unfolding decode_outcome_def
  by (rule reads_bind reads_intros | assumption)+
    (use reads_u8 [of "encode_direction d"] in \<open>simp add: reads_def\<close>)

lemma reads_outcome_as:
  assumes "i < 2 ^ 32"
  shows "reads (\<lambda>dd. and_then (decode_outcome f dd) (\<lambda>((i, dir), d). Inr (g i dir, d)))
    (le_bytes 4 (of_nat i :: u32) @ [encode_direction d]) (g i d)"
  using reads_outcome [OF assms, of f d] by (auto simp: reads_def)

lemma reads_body:
  assumes "encodable r"
  shows "reads (decode_body (record_kind r) f VERSION) (record_image r) r"
proof (cases r)
  case (Intent plan sts)
  have count: "length sts \<le> MAX_JOURNAL_STEPS" and sts: "\<forall>st \<in> set sts. encodable_step st"
    using assms Intent by simp_all
  have "reads (\<lambda>d. if MAX_JOURNAL_STEPS < length sts then Inl (codec_error f TooManySteps)
      else and_then (decode_steps f VERSION (length sts) d) (\<lambda>(sts, d). Inr (Intent plan sts, d)))
      (steps_image sts) (Intent plan sts)"
    using count reads_last [OF reads_steps [OF sts], of "Intent plan" "Intent plan sts" f] by simp
  moreover have "length sts < 2 ^ 32" using count by (simp add: journal_limits)
  ultimately show ?thesis
    unfolding Intent record_image.simps record_kind.simps decode_body_def if_P [OF refl]
    by - (rule reads_bind, rule reads_u64, rule reads_bind, rule reads_usize)
next
  case (Prepared i d)
  with assms reads_outcome_as [of i f Prepared d] show ?thesis by (simp add: decode_body_def reads_def)
next
  case (Completed i d)
  with assms reads_outcome_as [of i f Completed d] show ?thesis by (simp add: decode_body_def reads_def)
next
  case (NotApplied i d)
  with assms reads_outcome_as [of i f NotApplied d] show ?thesis by (simp add: decode_body_def reads_def)
next
  case (Terminal t)
  then show ?thesis
    using reads_u8 [of "case t of Committed \<Rightarrow> 0 | RolledBack \<Rightarrow> 1"]
    by (cases t) (simp_all add: decode_body_def reads_def)
qed

lemma decode_record_image:
  assumes "encodable r"
  shows "decode_record (record_kind r) (record_image r) f VERSION = Inr r"
proof -
  have "length (record_image r) < USIZE_LIMIT"
    using record_image_bounds [OF assms] by (simp add: journal_limits)
  with reads_D [OF reads_body [OF assms, of f], of "[]" "[]" f] show ?thesis
    by (simp add: decode_record_def decoder_new_def dec_at_def dec_finish_def)
qed

end
