(* ===== verification/Codec_Stream.thy ===== *)
theory Codec_Stream
  imports Codec_Correct
begin

text \<open>
  Frames and streams: the decoder reads a frame back in front of any further bytes, reports a
  strict prefix of a frame as torn, and so classifies every prefix of an encoded journal.
\<close>

section \<open>One frame\<close>

definition frame_fields :: "nat \<Rightarrow> journal_record \<Rightarrow> u8 list" where
  "frame_fields i r = header_fields (record_kind r) (of_nat i) (of_nat (length (record_image r)))"

definition header_image :: "nat \<Rightarrow> journal_record \<Rightarrow> u8 list" where
  "header_image i r = MAGIC @ frame_fields i r @
     le_bytes 4 (crc32_parts [frame_fields i r, record_image r])"

definition frame_image :: "nat \<Rightarrow> journal_record \<Rightarrow> u8 list" where
  "frame_image i r = header_image i r @ record_image r"

lemma length_frame_fields [simp]: "length (frame_fields i r) = 16"
  by (simp add: frame_fields_def header_fields_def)

lemma length_header_image [simp]: "length (header_image i r) = 24"
  by (simp add: header_image_def codec_consts)

lemma length_frame_image: "length (frame_image i r) = 24 + length (record_image r)"
  by (simp add: frame_image_def)

lemma encode_frame_Inr:
  "encode_frame (of_nat i) r f = Inr x \<longleftrightarrow> encodable r \<and> x = frame_image i r"
proof -
  have "encodable r \<Longrightarrow> length (record_image r) < 2 ^ 32"
    using record_image_bounds [of r] by (simp add: journal_limits)
  then show ?thesis
    using record_image_bounds [of r]
    by (auto simp: encode_frame_def and_then_Inr encode_record_Inr Let_def frame_image_def
        header_image_def frame_fields_def)
qed

lemma le_bytes_numeral:
  "le_bytes (numeral k) w = ucast w # le_bytes (pred_numeral k) (drop_bit 8 w)"
  by (simp add: numeral_eq_Suc)

lemma version_bytes: "le_bytes 2 VERSION = [2, 0]"
  by (simp add: VERSION_def le_bytes_numeral)

lemma header_parts:
  "take 4 (header_image i r) = MAGIC"
  "[header_image i r ! 4, header_image i r ! 5] = le_bytes 2 VERSION"
  "header_image i r ! 6 = record_kind r"
  "header_image i r ! 7 = FLAGS_NONE"
  "take 8 (drop 8 (header_image i r)) = le_bytes 8 (of_nat i :: u64)"
  "take 4 (drop 16 (header_image i r)) = le_bytes 4 (of_nat (length (record_image r)) :: u32)"
  "take 16 (drop 4 (header_image i r)) = frame_fields i r"
  "take 4 (drop 20 (header_image i r)) = le_bytes 4 (crc32_parts [frame_fields i r, record_image r])"
  by (simp_all add: header_image_def frame_fields_def header_fields_def MAGIC_def version_bytes)

lemma record_kind_range: "\<not> record_kind r < 1" "\<not> 5 < record_kind r"
  by (cases r; simp add: word_less_nat_alt)+

lemma frame_length_field:
  "encodable r \<Longrightarrow> unat (of_nat (length (record_image r)) :: u32) = length (record_image r)"
  using record_image_bounds [of r]
  by (simp add: journal_limits unsigned_of_nat take_bit_nat_eq_self)

lemma frame_length_parsed:
  "encodable r \<Longrightarrow>
     unat (from_le_bytes (le_bytes 4 (of_nat (length (record_image r)) :: u32)) :: u32) =
       length (record_image r)"
  by (simp add: frame_length_field)

lemma header_image_valid:
  assumes "encodable r"
  shows "frame_header_error (header_image i r) i = None"
proof -
  have "from_le_bytes (le_bytes 2 VERSION) = VERSION" by simp
  then show ?thesis
    using record_kind_range [of r] record_image_bounds [OF assms] frame_length_field [OF assms]
    by (simp add: frame_header_error_def header_parts Let_def)
qed

lemma slice_get_middle:
  "slice_get (pre @ xs @ post) (length pre) (length pre + length xs) = Some xs"
  by (simp add: slice_get_def)

lemma inspect_whole_frame:
  assumes r: "encodable r" and i: "i < MAX_JOURNAL_FRAMES"
    and size: "length (pre @ frame_image i r @ post) \<le> MAX_JOURNAL_FILE_BYTES"
  shows "inspect_frame (pre @ frame_image i r @ post) i (length pre) =
    Framed r (length pre + length (frame_image i r))"
proof -
  define B where "B = pre @ frame_image i r @ post"
  have h: "slice_get B (length pre) (length pre + 24) = Some (header_image i r)"
    using slice_get_middle [of pre "header_image i r"] by (simp add: B_def frame_image_def)
  have p: "slice_get B (length pre + 24) (length pre + 24 + length (record_image r)) =
      Some (record_image r)"
    using slice_get_middle [of "pre @ header_image i r" "record_image r"]
    by (simp add: B_def frame_image_def add.assoc)
  have c: "checked_add (length pre) HEADER_BYTES = Some (length pre + 24)"
    "checked_add (length pre + 24) (length (record_image r)) =
       Some (length pre + 24 + length (record_image r))"
    using size by (simp_all add: frame_image_def journal_limits HEADER_BYTES_def)
  have n: "\<not> MAX_JOURNAL_FRAMES \<le> i" using i by simp
  have "inspect_frame B i (length pre) = Framed r (length pre + 24 + length (record_image r))"
    unfolding inspect_frame_def if_not_P [OF n] c(1) option.case h header_image_valid [OF r]
      header_parts frame_length_parsed [OF r] c(2) p
    by (simp add: decode_record_image [OF r])
  then show ?thesis by (simp add: B_def length_frame_image add.assoc)
qed

text \<open>The part of a frame that reached the file is a strict prefix: where it was cut.\<close>

definition torn_at :: "nat \<Rightarrow> journal_tail_issue" where
  "torn_at k = (if k < 24 then TruncatedHeader else TruncatedPayload)"

lemma inspect_torn_frame:
  assumes r: "encodable r" and i: "i < MAX_JOURNAL_FRAMES" and k: "k < length (frame_image i r)"
    and size: "length pre + k \<le> MAX_JOURNAL_FILE_BYTES"
  shows "inspect_frame (pre @ take k (frame_image i r)) i (length pre) = Torn (torn_at k)"
proof -
  define B where "B = pre @ take k (frame_image i r)"
  have len: "length B = length pre + k" using k by (simp add: B_def)
  have n: "\<not> MAX_JOURNAL_FRAMES \<le> i" using i by simp
  have c: "checked_add (length pre) HEADER_BYTES = Some (length pre + 24)"
    using size by (simp add: journal_limits HEADER_BYTES_def)
  have "inspect_frame B i (length pre) = Torn (torn_at k)"
  proof (cases "k < 24")
    case True
    then have "slice_get B (length pre) (length pre + 24) = None"
      by (simp add: slice_get_def len)
    then show ?thesis
      unfolding inspect_frame_def if_not_P [OF n] c option.case by (simp add: torn_at_def True)
  next
    case False
    have "take k (frame_image i r) = header_image i r @ take (k - 24) (record_image r)"
      using False by (simp add: frame_image_def)
    then have h: "slice_get B (length pre) (length pre + 24) = Some (header_image i r)"
      using slice_get_middle [of pre "header_image i r"] by (simp add: B_def)
    have p: "slice_get B (length pre + 24) (length pre + 24 + length (record_image r)) = None"
      using k by (simp add: slice_get_def len length_frame_image)
    have c2: "checked_add (length pre + 24) (length (record_image r)) =
       Some (length pre + 24 + length (record_image r))"
      using size record_image_bounds [OF r] by (simp add: journal_limits)
    show ?thesis
      unfolding inspect_frame_def if_not_P [OF n] c option.case h header_image_valid [OF r]
        header_parts frame_length_parsed [OF r] c2 p
      by (simp add: torn_at_def False)
  qed
  then show ?thesis by (simp add: B_def)
qed

section \<open>Streams\<close>

fun stream_image :: "nat \<Rightarrow> journal_record list \<Rightarrow> u8 list" where
  "stream_image i [] = []"
| "stream_image i (r # rs) = frame_image i r @ stream_image (Suc i) rs"

lemma stream_image_append:
  "stream_image i (rs @ ss) = stream_image i rs @ stream_image (i + length rs) ss"
  by (induction rs arbitrary: i) simp_all

lemma encode_loop_Inr:
  "length bytes \<le> MAX_JOURNAL_FILE_BYTES \<Longrightarrow>
     encode_loop bytes i rs = Inr out \<longleftrightarrow> out = bytes @ stream_image i rs \<and>
       (\<forall>r \<in> set rs. encodable r) \<and> length out \<le> MAX_JOURNAL_FILE_BYTES"
proof (induction rs arbitrary: bytes i)
  case (Cons r rs)
  have sat: "MAX_JOURNAL_FILE_BYTES < saturating_add a b \<longleftrightarrow> MAX_JOURNAL_FILE_BYTES < a + b" for a b
    by (auto simp: saturating_add_def journal_limits)
  show ?case
    using Cons.IH [of "bytes @ frame_image i r" "Suc i"]
    by (auto simp: and_then_Inr encode_frame_Inr sat not_less)
qed auto

definition encodable_journal :: "journal_record list \<Rightarrow> bool" where
  "encodable_journal rs \<longleftrightarrow> length rs \<le> MAX_JOURNAL_FRAMES \<and> (\<forall>r \<in> set rs. encodable r) \<and>
     length (stream_image 0 rs) \<le> MAX_JOURNAL_FILE_BYTES"

lemma encode_journal_Inr:
  "encode_journal_records rs = Inr out \<longleftrightarrow> encodable_journal rs \<and> out = stream_image 0 rs"
  using encode_loop_Inr [of "[]" 0 rs out]
  by (auto simp: encode_journal_records_def encodable_journal_def)

lemma encodable_journal_append:
  "encodable_journal (rs @ ss) \<Longrightarrow> encodable_journal rs"
  by (auto simp: encodable_journal_def stream_image_append)

lemma frame_image_nonempty [simp]: "frame_image i r \<noteq> []"
  using length_frame_image [of i r] by (metis add_is_0 list.size(3) zero_neq_numeral)

text \<open>The loop over whole frames.\<close>

lemma inspect_loop_frames:
  assumes "encodable_journal (done_rs @ rs)"
    and "length (stream_image 0 (done_rs @ rs) @ tail) \<le> MAX_JOURNAL_FILE_BYTES"
  shows "inspect_loop (stream_image 0 (done_rs @ rs) @ tail) done_rs (length (stream_image 0 done_rs)) =
    inspect_loop (stream_image 0 (done_rs @ rs) @ tail) (done_rs @ rs)
      (length (stream_image 0 (done_rs @ rs)))"
  using assms
proof (induction rs arbitrary: done_rs)
  case (Cons r rs)
  define B where "B = stream_image 0 (done_rs @ r # rs) @ tail"
  have split: "B = stream_image 0 done_rs @ frame_image (length done_rs) r @
      (stream_image (Suc (length done_rs)) rs @ tail)"
    by (simp add: B_def stream_image_append)
  have r: "encodable r" and n: "length done_rs < MAX_JOURNAL_FRAMES"
    using Cons.prems(1) by (auto simp: encodable_journal_def)
  have "inspect_frame B (length done_rs) (length (stream_image 0 done_rs)) =
      Framed r (length (stream_image 0 done_rs) + length (frame_image (length done_rs) r))"
    unfolding split using Cons.prems(2)
    by (intro inspect_whole_frame [OF r n]) (simp add: stream_image_append)
  moreover have "length (stream_image 0 done_rs) < length B" by (simp add: split)
  ultimately have "inspect_loop B done_rs (length (stream_image 0 done_rs)) =
      inspect_loop B (done_rs @ [r]) (length (stream_image 0 (done_rs @ [r])))"
    by (subst inspect_loop.simps) (simp add: stream_image_append)
  with Cons.IH [of "done_rs @ [r]"] Cons.prems show ?case by (simp add: B_def)
qed simp

lemma inspect_stream:
  assumes "encodable_journal rs"
  shows "inspect_journal_records (stream_image 0 rs) =
    finish_inspection rs None (length (stream_image 0 rs))"
proof -
  have "length (stream_image 0 rs) \<le> MAX_JOURNAL_FILE_BYTES"
    using assms by (simp add: encodable_journal_def)
  then show ?thesis
    using inspect_loop_frames [of "[]" rs "[]"] assms
    by (simp add: inspect_journal_records_def) (simp add: inspect_loop.simps)
qed

lemma inspect_torn_stream:
  assumes js: "encodable_journal (rs @ [r])" and k: "0 < k" "k < length (frame_image (length rs) r)"
  shows "inspect_journal_records (stream_image 0 rs @ take k (frame_image (length rs) r)) =
    finish_inspection rs (Some (torn_at k)) (length (stream_image 0 rs))"
proof -
  define B where "B = stream_image 0 rs @ take k (frame_image (length rs) r)"
  have r: "encodable r" and n: "length rs < MAX_JOURNAL_FRAMES"
    and size: "length (stream_image 0 rs) + length (frame_image (length rs) r) \<le> MAX_JOURNAL_FILE_BYTES"
    using js by (auto simp: encodable_journal_def stream_image_append)
  have len: "length B = length (stream_image 0 rs) + k" using k by (simp add: B_def)
  have "inspect_journal_records B = inspect_loop B rs (length (stream_image 0 rs))"
    using inspect_loop_frames [of "[]" rs "take k (frame_image (length rs) r)"]
      encodable_journal_append [OF js] len size k
    by (simp add: inspect_journal_records_def B_def)
  also have "\<dots> = finish_inspection rs (Some (torn_at k)) (length (stream_image 0 rs))"
    using inspect_torn_frame [OF r n k(2), of "stream_image 0 rs"] size k len
    by (subst inspect_loop.simps) (simp add: B_def)
  finally show ?thesis by (simp add: B_def)
qed

text \<open>Every prefix of a stream is a whole stream or a stream with one torn frame.\<close>

lemma stream_prefix_cases:
  assumes "k \<le> length (stream_image i rs)"
  obtains n where "n \<le> length rs" "take k (stream_image i rs) = stream_image i (take n rs)"
      "k = length (stream_image i (take n rs))"
  | n m where "n < length rs" "0 < m" "m < length (frame_image (i + n) (rs ! n))"
      "take k (stream_image i rs) = stream_image i (take n rs) @ take m (frame_image (i + n) (rs ! n))"
      "k = length (stream_image i (take n rs)) + m"
  using assms
proof (induction rs arbitrary: i k thesis)
  case Nil
  show ?case by (rule Nil.prems(1) [of 0]) (use Nil.prems(3) in simp_all)
next
  case (Cons r rs)
  show ?case
  proof (cases "k < length (frame_image i r)")
    case True
    show ?thesis
    proof (cases "k = 0")
      case True
      show ?thesis by (rule Cons.prems(1) [of 0]) (simp_all add: True)
    next
      case False
      show ?thesis by (rule Cons.prems(2) [of 0 k]) (use True False in simp_all)
    qed
  next
    case False
    define k' where "k' = k - length (frame_image i r)"
    have k: "k = length (frame_image i r) + k'" using False by (simp add: k'_def)
    have "k' \<le> length (stream_image (Suc i) rs)" using Cons.prems(3) by (simp add: k)
    from Cons.IH [OF _ _ this]
    consider n where "n \<le> length rs" "take k' (stream_image (Suc i) rs) = stream_image (Suc i) (take n rs)"
        "k' = length (stream_image (Suc i) (take n rs))"
      | n m where "n < length rs" "0 < m" "m < length (frame_image (Suc i + n) (rs ! n))"
        "take k' (stream_image (Suc i) rs) = stream_image (Suc i) (take n rs) @
           take m (frame_image (Suc i + n) (rs ! n))"
        "k' = length (stream_image (Suc i) (take n rs)) + m" by blast
    then show ?thesis
    proof cases
      case 1
      show ?thesis by (rule Cons.prems(1) [of "Suc n"]) (use 1 in \<open>simp_all add: k\<close>)
    next
      case 2
      show ?thesis by (rule Cons.prems(2) [of "Suc n" m]) (use 2 in \<open>simp_all add: k\<close>)
    qed
  qed
qed

text \<open>A prefix of a journal replay accepts is accepted.\<close>

lemma replay_prefix:
  assumes "\<not> is_corrupt (replay_journal (rs @ ss))"
  shows "\<not> is_corrupt (replay_journal rs)"
proof (cases "rs = []")
  case True
  then show ?thesis by (simp add: replay_journal_def)
next
  case False
  with assms replay_corrupt_iff [of "rs @ ss"] obtain ph where "journal_run (rs @ ss) ph" by auto
  with False obtain ph' where "journal_run rs ph'"
    by (auto simp: journal_run_def run_append append_eq_Cons_conv)
  with False replay_corrupt_iff [of rs] show ?thesis by blast
qed

end
