(* ===== verification/File_Journal.thy ===== *)
theory File_Journal
  imports Journal_Store Codec_Stream Leaf_Name
begin

text \<open>
  The durable journal (\<open>FileJournal\<close> of \<open>file_journal.rs\<close>): one retained file, the records it
  holds, and the flags that stop every further write after an I/O failure or in front of a torn
  tail. The file is the standard library's \<open>File\<close>: its bytes, the cursor, the name its directory
  entry has, and a script that says of each coming system call whether it works, and if not how
  far it got and with which code. Opening takes the results of the calls to the operating system
  as an argument. Paths under the journal root are the leaf alone.
\<close>

section \<open>The retained file\<close>

type_synonym os_code = "int option"

datatype io_outcome = Io_Works | Io_Fails nat os_code

record disk_file =
  file_content :: "u8 list"
  file_cursor :: nat
  file_leaf :: legacy_text
  file_deleted :: bool
  file_script :: "io_outcome list"

definition next_outcome :: "disk_file \<Rightarrow> io_outcome \<times> disk_file" where
  "next_outcome f =
     (case file_script f of [] \<Rightarrow> (Io_Works, f) | x # xs \<Rightarrow> (x, f\<lparr>file_script := xs\<rparr>))"

text \<open>Writing past the end leaves zeros in between.\<close>

definition write_bytes :: "nat \<Rightarrow> u8 list \<Rightarrow> u8 list \<Rightarrow> u8 list" where
  "write_bytes k bs c = take k c @ replicate (k - length c) 0 @ bs @ drop (k + length bs) c"

definition resize_bytes :: "nat \<Rightarrow> u8 list \<Rightarrow> u8 list" where
  "resize_bytes n c = take n c @ replicate (n - length c) 0"

definition put_bytes :: "u8 list \<Rightarrow> disk_file \<Rightarrow> disk_file" where
  "put_bytes bs f = f\<lparr>file_content := write_bytes (file_cursor f) bs (file_content f),
     file_cursor := file_cursor f + length bs\<rparr>"

text \<open>\<open>write_all\<close>: a failing call has written some prefix.\<close>

definition file_write_all :: "u8 list \<Rightarrow> disk_file \<Rightarrow> (os_code + unit) \<times> disk_file" where
  "file_write_all bs f =
     (case next_outcome f of
        (Io_Works, f) \<Rightarrow> (Inr (), put_bytes bs f)
      | (Io_Fails n code, f) \<Rightarrow> (Inl code, put_bytes (take n bs) f))"

text \<open>\<open>flush\<close>, \<open>sync_all\<close>: no effect on the bytes.\<close>

definition file_sync :: "disk_file \<Rightarrow> (os_code + unit) \<times> disk_file" where
  "file_sync f =
     (case next_outcome f of
        (Io_Works, f) \<Rightarrow> (Inr (), f)
      | (Io_Fails n code, f) \<Rightarrow> (Inl code, f))"

text \<open>A failing \<open>set_len\<close>, rename or delete has done nothing or everything.\<close>

definition file_change :: "(disk_file \<Rightarrow> disk_file) \<Rightarrow> disk_file \<Rightarrow> (os_code + unit) \<times> disk_file" where
  "file_change g f =
     (case next_outcome f of
        (Io_Works, f) \<Rightarrow> (Inr (), g f)
      | (Io_Fails n code, f) \<Rightarrow> (Inl code, if n = 0 then f else g f))"

definition file_set_len :: "nat \<Rightarrow> disk_file \<Rightarrow> (os_code + unit) \<times> disk_file" where
  "file_set_len n = file_change (\<lambda>f. f\<lparr>file_content := resize_bytes n (file_content f)\<rparr>)"

definition file_seek :: "nat \<Rightarrow> disk_file \<Rightarrow> (os_code + unit) \<times> disk_file" where
  "file_seek n = file_change (\<lambda>f. f\<lparr>file_cursor := n\<rparr>)"

definition file_rename :: "legacy_text \<Rightarrow> disk_file \<Rightarrow> (os_code + unit) \<times> disk_file" where
  "file_rename leaf = file_change (\<lambda>f. f\<lparr>file_leaf := leaf\<rparr>)"

definition file_mark_delete :: "disk_file \<Rightarrow> (os_code + unit) \<times> disk_file" where
  "file_mark_delete = file_change (\<lambda>f. f\<lparr>file_deleted := True\<rparr>)"

text \<open>\<open>take(limit).read_to_end\<close> from the cursor.\<close>

definition file_read :: "nat \<Rightarrow> disk_file \<Rightarrow> (os_code + u8 list) \<times> disk_file" where
  "file_read limit f =
     (case next_outcome f of
        (Io_Works, f) \<Rightarrow>
          let bs = take limit (drop (file_cursor f) (file_content f))
          in (Inr bs, f\<lparr>file_cursor := file_cursor f + length bs\<rparr>)
      | (Io_Fails n code, f) \<Rightarrow> (Inl code, f\<lparr>file_cursor := file_cursor f + n\<rparr>))"

definition file_position :: "disk_file \<Rightarrow> (os_code + nat) \<times> disk_file" where
  "file_position f =
     (case next_outcome f of
        (Io_Works, f) \<Rightarrow> (Inr (file_cursor f), f)
      | (Io_Fails n code, f) \<Rightarrow> (Inl code, f))"

definition file_length :: "disk_file \<Rightarrow> (os_code + nat) \<times> disk_file" where
  "file_length f =
     (case next_outcome f of
        (Io_Works, f) \<Rightarrow> (Inr (length (file_content f)), f)
      | (Io_Fails n code, f) \<Rightarrow> (Inl code, f))"

text \<open>The question-mark operator in code that changes the file on the way.\<close>

definition io_then ::
  "(os_code + 'a) \<times> disk_file \<Rightarrow> ('a \<Rightarrow> disk_file \<Rightarrow> (os_code + 'b) \<times> disk_file) \<Rightarrow>
     (os_code + 'b) \<times> disk_file" where
  "io_then r g = (case r of (Inl e, f) \<Rightarrow> (Inl e, f) | (Inr x, f) \<Rightarrow> g x f)"

section \<open>Errors\<close>

datatype file_journal_error_kind =
    Io
  | Codec journal_codec_error_kind
  | InvalidFileType
  | RelativeRoot
  | InvalidRoot
  | InvalidLeaf
  | UnsafeCleanupState
  | InvalidCandidateState

record file_journal_error =
  fje_kind :: file_journal_error_kind
  fje_os_code :: os_code

definition fje :: "file_journal_error_kind \<Rightarrow> file_journal_error" where
  "fje k = \<lparr>fje_kind = k, fje_os_code = None\<rparr>"

definition fje_io :: "os_code \<Rightarrow> file_journal_error" where
  "fje_io code = \<lparr>fje_kind = Io, fje_os_code = code\<rparr>"

definition unsafe_cleanup_error :: file_journal_error where
  "unsafe_cleanup_error = fje UnsafeCleanupState"

definition journal_io_may_have_appended :: "os_code \<Rightarrow> journal_error" where
  "journal_io_may_have_appended code =
     may_have_appended (case code of None \<Rightarrow> 6 | Some c \<Rightarrow> if 0 \<le> c then of_int c else 6)"

section \<open>The journal\<close>

datatype file_journal_phase =
    Active
  | Candidate legacy_text
  | PromotionUncertain

record file_journal =
  fj_file :: disk_file
  fj_leaf :: legacy_text
  fj_records :: "journal_record list"
  fj_identity :: u64
  fj_generation :: u64
  fj_next_sequence :: u64
  fj_byte_length :: usize
  fj_torn_prefix :: "usize option"
  fj_tail_issue :: "journal_tail_issue option"
  fj_poisoned :: bool
  fj_phase :: file_journal_phase

definition is_candidate :: "file_journal \<Rightarrow> bool" where
  "is_candidate j = (case fj_phase j of Candidate _ \<Rightarrow> True | _ \<Rightarrow> False)"

definition is_physically_empty_candidate :: "file_journal \<Rightarrow> bool" where
  "is_physically_empty_candidate j \<longleftrightarrow> is_candidate j \<and> \<not> fj_poisoned j \<and> fj_byte_length j = 0 \<and>
     fj_records j = [] \<and> fj_torn_prefix j = None \<and> fj_tail_issue j = None"

definition single_intent :: "journal_record list \<Rightarrow> bool" where
  "single_intent rs = (case rs of [Intent _ _] \<Rightarrow> True | _ \<Rightarrow> False)"

definition is_complete_intent_candidate :: "file_journal \<Rightarrow> bool" where
  "is_complete_intent_candidate j \<longleftrightarrow> is_candidate j \<and> \<not> fj_poisoned j \<and> 0 < fj_byte_length j \<and>
     single_intent (fj_records j) \<and> fj_torn_prefix j = None \<and> fj_tail_issue j = None"

definition is_terminal :: "file_journal \<Rightarrow> bool" where
  "is_terminal j =
     (fj_records j \<noteq> [] \<and> (case last (fj_records j) of Terminal _ \<Rightarrow> True | _ \<Rightarrow> False))"

section \<open>Appending\<close>

text \<open>The three calls that make a frame durable.\<close>

definition write_frame :: "u8 list \<Rightarrow> disk_file \<Rightarrow> (os_code + unit) \<times> disk_file" where
  "write_frame frame f =
     io_then (file_write_all frame f) (\<lambda>_ f. io_then (file_sync f) (\<lambda>_ f. file_sync f))"

definition fj_append :: "journal_record \<Rightarrow> file_journal \<Rightarrow> journal_result \<times> file_journal" where
  "fj_append r j =
     (if fj_poisoned j then (Inl (may_have_appended 8), j)
      else if fj_torn_prefix j \<noteq> None then (Inl (not_appended 7), j)
      else if MAX_JOURNAL_FRAMES \<le> length (fj_records j) then (Inl (not_appended 3), j)
      else case encode_frame (fj_next_sequence j) r (length (fj_records j)) of
        Inl _ \<Rightarrow> (Inl (not_appended 4), j)
      | Inr frame \<Rightarrow>
          if MAX_JOURNAL_FILE_BYTES < saturating_add (fj_byte_length j) (length frame)
          then (Inl (not_appended 5), j)
          else case write_frame frame (fj_file j) of
            (Inl code, f) \<Rightarrow>
              (Inl (journal_io_may_have_appended code), j\<lparr>fj_poisoned := True, fj_file := f\<rparr>)
          | (Inr _, f) \<Rightarrow>
              (Inr (), j\<lparr>fj_file := f, fj_byte_length := fj_byte_length j + length frame,
                 fj_records := fj_records j @ [r], fj_generation := saturating_inc (fj_generation j),
                 fj_next_sequence := saturating_inc (fj_next_sequence j), fj_poisoned := False\<rparr>))"

definition fj_promote_candidate :: "file_journal \<Rightarrow> journal_result \<times> file_journal" where
  "fj_promote_candidate j =
     (case fj_phase j of
        Candidate active_leaf \<Rightarrow>
          (case file_rename active_leaf (fj_file j) of
             (Inl code, f) \<Rightarrow>
               (Inl (journal_io_may_have_appended code),
                j\<lparr>fj_file := f, fj_poisoned := True, fj_phase := PromotionUncertain\<rparr>)
           | (Inr _, f) \<Rightarrow>
               (Inr (), j\<lparr>fj_file := f, fj_leaf := active_leaf, fj_phase := Active, fj_poisoned := False\<rparr>))
      | _ \<Rightarrow> (Inr (), j))"

definition fj_require_active :: "file_journal \<Rightarrow> journal_result" where
  "fj_require_active j =
     (if fj_poisoned j then Inl (may_have_appended 8)
      else if fj_phase j \<noteq> Active then Inl (not_appended 9)
      else Inr ())"

definition fj_begin :: "file_journal \<Rightarrow> plan_id \<Rightarrow> journal_step list \<Rightarrow> journal_result \<times> file_journal" where
  "fj_begin j p steps =
     (if fj_poisoned j then (Inl (may_have_appended 8), j)
      else if fj_records j \<noteq> [] then (Inl (not_appended 1), j)
      else case fj_append (Intent p steps) j of
        (Inl e, j) \<Rightarrow> (Inl e, j)
      | (Inr _, j) \<Rightarrow> fj_promote_candidate j)"

definition fj_append_active :: "file_journal \<Rightarrow> journal_record \<Rightarrow> journal_result \<times> file_journal" where
  "fj_append_active j r =
     (case fj_require_active j of Inl e \<Rightarrow> (Inl e, j) | Inr _ \<Rightarrow> fj_append r j)"

definition fj_prepared :: "file_journal \<Rightarrow> usize \<Rightarrow> journal_direction \<Rightarrow> journal_result \<times> file_journal" where
  "fj_prepared j i d = fj_append_active j (Prepared i d)"

definition fj_completed :: "file_journal \<Rightarrow> usize \<Rightarrow> journal_direction \<Rightarrow> journal_result \<times> file_journal" where
  "fj_completed j i d = fj_append_active j (Completed i d)"

definition fj_not_applied :: "file_journal \<Rightarrow> usize \<Rightarrow> journal_direction \<Rightarrow> journal_result \<times> file_journal" where
  "fj_not_applied j i d = fj_append_active j (NotApplied i d)"

definition fj_terminal :: "file_journal \<Rightarrow> journal_terminal \<Rightarrow> journal_result \<times> file_journal" where
  "fj_terminal j t = fj_append_active j (Terminal t)"

section \<open>Appending with an authorization\<close>

text \<open>The torn tail is cut off: four calls.\<close>

definition cut_tail :: "nat \<Rightarrow> disk_file \<Rightarrow> (os_code + unit) \<times> disk_file" where
  "cut_tail n f =
     io_then (file_set_len n f) (\<lambda>_ f.
     io_then (file_seek n f) (\<lambda>_ f.
     io_then (file_sync f) (\<lambda>_ f. file_sync f)))"

definition fj_cut_tail ::
  "file_journal \<Rightarrow> journal_authorization \<Rightarrow> journal_result \<times> journal_authorization \<times> file_journal" where
  "fj_cut_tail j a =
     (case fj_torn_prefix j of
        None \<Rightarrow> (Inr (), a, j)
      | Some valid \<Rightarrow>
          (case cut_tail valid (fj_file j) of
             (Inl code, f) \<Rightarrow>
               (Inl (journal_io_may_have_appended code), a, j\<lparr>fj_file := f, fj_poisoned := True\<rparr>)
           | (Inr _, f) \<Rightarrow>
               let generation = saturating_inc (fj_generation j)
               in (Inr (), a\<lparr>auth_generation := generation\<rparr>,
                   j\<lparr>fj_file := f, fj_byte_length := valid, fj_torn_prefix := None,
                     fj_tail_issue := None, fj_generation := generation, fj_poisoned := False\<rparr>)))"

definition fj_authorized_append ::
  "file_journal \<Rightarrow> journal_authorization \<Rightarrow> journal_record \<Rightarrow>
     journal_result \<times> journal_authorization \<times> file_journal" where
  "fj_authorized_append j a r =
     (if fj_poisoned j then (Inl (may_have_appended 8), a, j)
      else case fj_require_active j of
        Inl e \<Rightarrow> (Inl e, a, j)
      | Inr _ \<Rightarrow>
          if auth_identity a \<noteq> fj_identity j \<or> auth_generation a \<noteq> fj_generation j
          then (Inl (not_appended 2), a, j)
          else case fj_cut_tail j a of
            (Inl e, a, j) \<Rightarrow> (Inl e, a, j)
          | (Inr _, a, j) \<Rightarrow>
              (case fj_append r j of
                 (Inl e, j) \<Rightarrow> (Inl e, a, j)
               | (Inr _, j) \<Rightarrow> (Inr (), a\<lparr>auth_generation := fj_generation j\<rparr>, j)))"

definition fj_authorized_snapshot :: "file_journal \<Rightarrow> (journal_error + journal_snapshot) \<times> file_journal" where
  "fj_authorized_snapshot j =
     (case fj_require_active j of
        Inl e \<Rightarrow> (Inl e, j)
      | Inr _ \<Rightarrow> (Inr (fj_records j, \<lparr>auth_identity = fj_identity j, auth_generation = fj_generation j\<rparr>), j))"

section \<open>Copying and deleting\<close>

definition read_retained_bytes :: "nat \<Rightarrow> disk_file \<Rightarrow> (os_code + u8 list) \<times> disk_file" where
  "read_retained_bytes byte_len f =
     (if MAX_JOURNAL_FILE_BYTES < byte_len then (Inl None, f)
      else io_then (file_seek 0 f) (\<lambda>_ f. io_then (file_read (saturating_add byte_len 1) f) (\<lambda>bs f.
        if length bs \<noteq> byte_len then (Inl None, f) else (Inr bs, f))))"

text \<open>
  \<open>copy_retained_bytes_to_file\<close>: the output handle must be an empty file at its start; the bytes
  are read, written, flushed and synced.
\<close>

definition copy_retained_bytes_to_file ::
  "nat \<Rightarrow> disk_file \<Rightarrow> disk_file \<Rightarrow> (os_code + nat) \<times> disk_file \<times> disk_file" where
  "copy_retained_bytes_to_file byte_len f out =
     (case file_position out of
        (Inl code, out) \<Rightarrow> (Inl code, f, out)
      | (Inr pos, out) \<Rightarrow>
          if pos \<noteq> 0 then (Inl None, f, out)
          else case file_length out of
            (Inl code, out) \<Rightarrow> (Inl code, f, out)
          | (Inr len, out) \<Rightarrow>
          if len \<noteq> 0 then (Inl None, f, out)
          else case read_retained_bytes byte_len f of
            (Inl _, f) \<Rightarrow> (Inl None, f, out)
          | (Inr bs, f) \<Rightarrow>
              (case write_frame bs out of
                 (Inl _, out) \<Rightarrow> (Inl None, f, out)
               | (Inr _, out) \<Rightarrow> (Inr byte_len, f, out)))"

text \<open>\<open>copy_retained_bytes\<close>: the destination is created after the bytes were read.\<close>

definition copy_retained_bytes ::
  "os_code + disk_file \<Rightarrow> nat \<Rightarrow> disk_file \<Rightarrow> disk_file option \<Rightarrow>
     (os_code + nat) \<times> disk_file \<times> disk_file option" where
  "copy_retained_bytes new_file byte_len f out =
     (case read_retained_bytes byte_len f of
        (Inl code, f) \<Rightarrow> (Inl code, f, out)
      | (Inr bs, f) \<Rightarrow>
          (case new_file of
             Inl code \<Rightarrow> (Inl code, f, out)
           | Inr destination \<Rightarrow>
               (case write_frame bs destination of
                  (Inl _, destination) \<Rightarrow> (Inl None, f, Some destination)
                | (Inr _, destination) \<Rightarrow> (Inr byte_len, f, Some destination))))"

text \<open>\<open>copy_exact_with\<close>: the append cursor is restored, or the journal is poisoned.\<close>

definition fj_copy_exact_with ::
  "(nat \<Rightarrow> disk_file \<Rightarrow> 'o \<Rightarrow> (os_code + nat) \<times> disk_file \<times> 'o) \<Rightarrow> file_journal \<Rightarrow> 'o \<Rightarrow>
     (os_code + nat) \<times> file_journal \<times> 'o" where
  "fj_copy_exact_with copy j out =
     (case file_position (fj_file j) of
        (Inl code, f) \<Rightarrow> (Inl code, j\<lparr>fj_file := f\<rparr>, out)
      | (Inr original, f) \<Rightarrow>
          if original \<noteq> fj_byte_length j
          then (Inl None, j\<lparr>fj_file := f, fj_poisoned := True\<rparr>, out)
          else case copy (fj_byte_length j) f out of
            (copied, f, out) \<Rightarrow>
              (case file_seek original f of
                 (Inl _, f) \<Rightarrow> (Inl None, j\<lparr>fj_file := f, fj_poisoned := True\<rparr>, out)
               | (Inr _, f) \<Rightarrow> (copied, j\<lparr>fj_file := f\<rparr>, out)))"

definition fj_copy_exact_to_file ::
  "file_journal \<Rightarrow> disk_file \<Rightarrow> (os_code + nat) \<times> file_journal \<times> disk_file" where
  "fj_copy_exact_to_file = fj_copy_exact_with copy_retained_bytes_to_file"

definition fj_copy_exact_to_new ::
  "os_code + disk_file \<Rightarrow> file_journal \<Rightarrow> (os_code + nat) \<times> file_journal \<times> disk_file option" where
  "fj_copy_exact_to_new new_file j = fj_copy_exact_with (copy_retained_bytes new_file) j None"

definition mark_retained_file_delete :: "file_journal \<Rightarrow> (file_journal_error + unit) \<times> file_journal" where
  "mark_retained_file_delete j =
     (case file_mark_delete (fj_file j) of
        (Inl code, f) \<Rightarrow> (Inl (fje_io code), j\<lparr>fj_file := f\<rparr>)
      | (Inr _, f) \<Rightarrow> (Inr (), j\<lparr>fj_file := f\<rparr>))"

definition fj_delete_safe :: "file_journal \<Rightarrow> bool" where
  "fj_delete_safe j \<longleftrightarrow> \<not> fj_poisoned j \<and>
     (case fj_phase j of
        Active \<Rightarrow> fj_torn_prefix j = None \<and> fj_tail_issue j = None \<and>
          (fj_records j = [] \<or> is_terminal j \<and> replay_journal (fj_records j) = Clean)
      | Candidate _ \<Rightarrow> is_physically_empty_candidate j
      | PromotionUncertain \<Rightarrow> False)"

definition fj_mark_delete_if_safe :: "file_journal \<Rightarrow> (file_journal_error + unit) \<times> file_journal" where
  "fj_mark_delete_if_safe j =
     (if \<not> fj_delete_safe j then (Inl unsafe_cleanup_error, j) else mark_retained_file_delete j)"

text \<open>
  The probe of the active leaf is a call whose result is an argument: \<open>Inr\<close> when the leaf opens,
  \<open>Inl\<close> the native code otherwise.
\<close>

definition fj_mark_unactivated_intent_delete ::
  "(os_code + unit) \<Rightarrow> file_journal \<Rightarrow> (file_journal_error + unit) \<times> file_journal" where
  "fj_mark_unactivated_intent_delete probe j =
     (if \<not> is_candidate j then (Inl unsafe_cleanup_error, j)
      else if \<not> is_complete_intent_candidate j then (Inl unsafe_cleanup_error, j)
      else case probe of
        Inr _ \<Rightarrow> (Inl unsafe_cleanup_error, j)
      | Inl code \<Rightarrow>
          if code = Some 2 \<or> code = Some 3 then mark_retained_file_delete j
          else if code = Some 32 \<or> code = Some 33 then (Inl unsafe_cleanup_error, j)
          else (Inl (fje_io code), j))"

section \<open>Creating and opening\<close>

record journal_root =
  root_identity :: u64
  root_private :: bool

text \<open>The process-wide counter of identities is an argument.\<close>

definition combined_identity :: "u64 \<Rightarrow> u64 \<Rightarrow> u64" where
  "combined_identity fresh root = xor fresh (word_rotl 29 root)"

definition root_child :: "legacy_text \<Rightarrow> file_journal_error + legacy_text" where
  "root_child leaf =
     (case validate_windows_leaf_name leaf of Inl _ \<Rightarrow> Inl (fje InvalidLeaf) | Inr _ \<Rightarrow> Inr leaf)"

text \<open>What the calls of a creation return; the new file is empty, at its start, under its leaf.\<close>

record create_calls =
  cc_create :: "os_code + disk_file"
  cc_metadata :: "os_code + bool \<times> bool"
  cc_validate :: "os_code + unit"
  cc_clone_root :: "os_code + unit"
  cc_clone_chain :: "os_code + unit"

definition io_result :: "os_code + 'a \<Rightarrow> file_journal_error + 'a" where
  "io_result r = (case r of Inl code \<Rightarrow> Inl (fje_io code) | Inr x \<Rightarrow> Inr x)"

definition validate_file_type :: "os_code + bool \<times> bool \<Rightarrow> file_journal_error + unit" where
  "validate_file_type metadata =
     and_then (io_result metadata) (\<lambda>(is_file, reparse).
       if \<not> is_file \<or> reparse then Inl (fje InvalidFileType) else Inr ())"

definition new_journal ::
  "disk_file \<Rightarrow> legacy_text \<Rightarrow> u64 \<Rightarrow> file_journal_phase \<Rightarrow> file_journal" where
  "new_journal f leaf identity ph =
     \<lparr>fj_file = f, fj_leaf = leaf, fj_records = [], fj_identity = identity, fj_generation = 0,
      fj_next_sequence = 0, fj_byte_length = 0, fj_torn_prefix = None, fj_tail_issue = None,
      fj_poisoned = False, fj_phase = ph\<rparr>"

definition create_checked ::
  "journal_root \<Rightarrow> create_calls \<Rightarrow> u64 \<Rightarrow> legacy_text \<Rightarrow> file_journal_phase \<Rightarrow>
     file_journal_error + file_journal" where
  "create_checked root calls fresh leaf ph =
     and_then (io_result (cc_create calls)) (\<lambda>f.
     and_then (validate_file_type (cc_metadata calls)) (\<lambda>_.
     and_then (io_result (cc_validate calls)) (\<lambda>_.
     and_then (io_result (cc_clone_root calls)) (\<lambda>_.
     and_then (io_result (cc_clone_chain calls)) (\<lambda>_.
       Inr (new_journal f leaf (combined_identity fresh (root_identity root)) ph))))))"

definition fj_create_new ::
  "journal_root \<Rightarrow> create_calls \<Rightarrow> u64 \<Rightarrow> legacy_text \<Rightarrow> file_journal_error + file_journal" where
  "fj_create_new root calls fresh leaf =
     and_then (root_child leaf) (\<lambda>leaf. create_checked root calls fresh leaf Active)"

definition fj_create_candidate ::
  "journal_root \<Rightarrow> create_calls \<Rightarrow> u64 \<Rightarrow> legacy_text \<Rightarrow> legacy_text \<Rightarrow>
     file_journal_error + file_journal" where
  "fj_create_candidate root calls fresh candidate_leaf active_leaf =
     and_then (root_child candidate_leaf) (\<lambda>candidate.
     and_then (root_child active_leaf) (\<lambda>active.
       if candidate = active then Inl (fje InvalidLeaf)
       else create_checked root calls fresh candidate (Candidate active)))"

datatype journal_open_stage = OpenStage | ValidateStage | ReadStage | DecodeStage

record journal_open_failure =
  failed_stage :: journal_open_stage
  failed_kind :: file_journal_error_kind
  failed_os_code :: os_code
  failed_frame :: "usize option"

definition from_file_error :: "journal_open_stage \<Rightarrow> file_journal_error \<Rightarrow> journal_open_failure" where
  "from_file_error stage e =
     \<lparr>failed_stage = stage, failed_kind = fje_kind e, failed_os_code = fje_os_code e, failed_frame = None\<rparr>"

definition from_codec :: "journal_codec_error \<Rightarrow> journal_open_failure" where
  "from_codec e =
     \<lparr>failed_stage = DecodeStage, failed_kind = Codec (codec_kind e), failed_os_code = None,
      failed_frame = Some (codec_frame e)\<rparr>"

definition as_file_error :: "journal_open_failure \<Rightarrow> file_journal_error" where
  "as_file_error e = \<lparr>fje_kind = failed_kind e, fje_os_code = failed_os_code e\<rparr>"

text \<open>A failure, and the file with its observed length once it was open.\<close>

type_synonym existing_open_error = "journal_open_failure \<times> (disk_file \<times> nat) option"

definition is_not_found :: "existing_open_error \<Rightarrow> bool" where
  "is_not_found e \<longleftrightarrow> snd e = None \<and>
     (failed_os_code (fst e) = Some 2 \<or> failed_os_code (fst e) = Some 3)"

text \<open>
  What the calls of an opening return: the attributes of the leaf (symbolic link, reparse point),
  the handle, its metadata (length, regular file, reparse point), the validation of the private
  leaf, whether it has a single link, and the two clones. Seeking and reading act on the file.
\<close>

record open_calls =
  oc_link :: "os_code + bool \<times> bool"
  oc_open :: "os_code + disk_file"
  oc_metadata :: "os_code + u64 \<times> bool \<times> bool"
  oc_validate :: "os_code + unit"
  oc_single_link :: "os_code + bool"
  oc_clone_root :: "os_code + unit"
  oc_clone_chain :: "os_code + unit"

definition reject_final_link :: "os_code + bool \<times> bool \<Rightarrow> file_journal_error + unit" where
  "reject_final_link link =
     and_then (io_result link) (\<lambda>(symlink, reparse).
       if symlink \<or> reparse then Inl (fje InvalidFileType) else Inr ())"

text \<open>Everything after the length is known: seek, read, decode, seek to the end, clone.\<close>

definition fj_resume ::
  "journal_root \<Rightarrow> open_calls \<Rightarrow> u64 \<Rightarrow> legacy_text \<Rightarrow> nat \<Rightarrow> disk_file \<Rightarrow>
     existing_open_error + file_journal" where
  "fj_resume root calls fresh leaf byte_len f =
     (let fail = (\<lambda>e f. Inl (e, Some (f, byte_len)))
      in case io_then (file_seek 0 f) (\<lambda>_ f. file_read (saturating_add MAX_JOURNAL_FILE_BYTES 1) f) of
        (Inl code, f) \<Rightarrow> fail (from_file_error ReadStage (fje_io code)) f
      | (Inr bytes, f) \<Rightarrow>
          if MAX_JOURNAL_FILE_BYTES < length bytes
          then fail (from_file_error ValidateStage (fje (Codec FileTooLarge))) f
          else case inspect_journal_records bytes of
            Inl e \<Rightarrow> fail (from_codec e) f
          | Inr inspection \<Rightarrow>
              (case file_seek (length (file_content f)) f of
                 (Inl code, f) \<Rightarrow> fail (from_file_error ReadStage (fje_io code)) f
               | (Inr _, f) \<Rightarrow>
                   (case (oc_clone_root calls, oc_clone_chain calls) of
                      (Inl code, _) \<Rightarrow> fail (from_file_error ValidateStage (fje_io code)) f
                    | (_, Inl code) \<Rightarrow> fail (from_file_error ValidateStage (fje_io code)) f
                    | _ \<Rightarrow>
                        Inr \<lparr>fj_file = f, fj_leaf = leaf, fj_records = inspected_records inspection,
                          fj_identity = combined_identity fresh (root_identity root),
                          fj_generation = of_nat (length (inspected_records inspection)),
                          fj_next_sequence = of_nat (length (inspected_records inspection)),
                          fj_byte_length = length bytes,
                          fj_torn_prefix = map_option (\<lambda>_. valid_bytes inspection) (inspected_issue inspection),
                          fj_tail_issue = inspected_issue inspection,
                          fj_poisoned = False, fj_phase = Active\<rparr>)))"

definition fj_open_existing_retained ::
  "journal_root \<Rightarrow> open_calls \<Rightarrow> u64 \<Rightarrow> legacy_text \<Rightarrow> existing_open_error + file_journal" where
  "fj_open_existing_retained root calls fresh leaf =
     (case and_then (root_child leaf) (\<lambda>_. reject_final_link (oc_link calls)) of
        Inl e \<Rightarrow> Inl (from_file_error ValidateStage e, None)
      | Inr _ \<Rightarrow>
      (case oc_open calls of
        Inl code \<Rightarrow> Inl (from_file_error OpenStage (fje_io code), None)
      | Inr f \<Rightarrow>
      (case oc_metadata calls of
        Inl code \<Rightarrow> Inl (from_file_error ValidateStage (fje_io code), Some (f, 0))
      | Inr (len, is_file, reparse) \<Rightarrow>
          let byte_len = unat len; fail = (\<lambda>e. Inl (from_file_error ValidateStage e, Some (f, byte_len)))
          in case oc_validate calls of
            Inl code \<Rightarrow> fail (fje_io code)
          | Inr _ \<Rightarrow>
          (case oc_single_link calls of
            Inl code \<Rightarrow> fail (fje_io code)
          | Inr has_one_link \<Rightarrow>
              if \<not> is_file \<or> reparse \<or> \<not> has_one_link then fail (fje InvalidFileType)
              else if MAX_JOURNAL_FILE_BYTES < byte_len then fail (fje (Codec FileTooLarge))
              else fj_resume root calls fresh leaf byte_len f))))"

definition fj_open_existing ::
  "journal_root \<Rightarrow> open_calls \<Rightarrow> u64 \<Rightarrow> legacy_text \<Rightarrow> file_journal_error + file_journal" where
  "fj_open_existing root calls fresh leaf =
     (case fj_open_existing_retained root calls fresh leaf of
        Inl e \<Rightarrow> Inl (as_file_error (fst e))
      | Inr j \<Rightarrow> Inr j)"

definition fj_open_candidate_existing_retained ::
  "journal_root \<Rightarrow> open_calls \<Rightarrow> u64 \<Rightarrow> legacy_text \<Rightarrow> legacy_text \<Rightarrow>
     existing_open_error + file_journal" where
  "fj_open_candidate_existing_retained root calls fresh candidate_leaf active_leaf =
     (case root_child active_leaf of
        Inl e \<Rightarrow> Inl (from_file_error ValidateStage e, None)
      | Inr active \<Rightarrow>
          and_then (fj_open_existing_retained root calls fresh candidate_leaf) (\<lambda>j.
            if fj_records j = [] \<or> single_intent (fj_records j)
            then Inr (j\<lparr>fj_phase := Candidate active\<rparr>)
            else Inl (from_file_error ValidateStage (fje InvalidCandidateState),
                      Some (fj_file j, fj_byte_length j))))"

end
