(* ===== verification/File_Journal_Correct.thy ===== *)
theory File_Journal_Correct
  imports File_Journal
begin

text \<open>
  The file journal keeps the journal's contract on the bytes of its file. The scan of a file gives
  the records of its complete frames and how it ends; the invariant ties the fields of a journal
  that may still write to the scan of its file. Every operation keeps the invariant and changes
  the records in the file as the contract of an append allows, whatever the system calls do.
\<close>

section \<open>The records in a file\<close>

datatype scan_end = AtEnd | StopTorn journal_tail_issue | StopBad journal_codec_error

function scan :: "u8 list \<Rightarrow> nat \<Rightarrow> usize \<Rightarrow> journal_record list \<times> usize \<times> scan_end" where
  "scan bytes frame offset =
     (if offset < length bytes
      then case inspect_frame bytes frame offset of
             Torn issue \<Rightarrow> ([], offset, StopTorn issue)
           | BadFrame e \<Rightarrow> ([], offset, StopBad e)
           | Framed r e \<Rightarrow> (case scan bytes (Suc frame) e of (rs, f, s) \<Rightarrow> (r # rs, f, s))
      else ([], offset, AtEnd))"
  by auto
termination
  by (relation "measure (\<lambda>(bytes, frame, offset). length bytes - offset)")
    (auto dest: inspect_frame_advances)

declare scan.simps [simp del]

lemma scan_stops: "length bytes \<le> offset \<Longrightarrow> scan bytes i offset = ([], offset, AtEnd)"
  by (simp add: scan.simps)

lemma scan_framed:
  "inspect_frame bytes i offset = Framed r e \<Longrightarrow>
     scan bytes i offset = (case scan bytes (Suc i) e of (rs, f, s) \<Rightarrow> (r # rs, f, s))"
  using inspect_frame_advances [of bytes i offset r e] by (simp add: scan.simps [of bytes i offset])

lemma scan_torn:
  "offset < length bytes \<Longrightarrow> inspect_frame bytes i offset = Torn t \<Longrightarrow>
     scan bytes i offset = ([], offset, StopTorn t)"
  by (simp add: scan.simps)

text \<open>The decoder's loop is the scan with the final check of the transitions.\<close>

definition finish_scan ::
  "journal_record list \<times> usize \<times> scan_end \<Rightarrow> journal_codec_error + journal_inspection" where
  "finish_scan x =
     (case x of (rs, e, s) \<Rightarrow>
        (case s of
           AtEnd \<Rightarrow> finish_inspection rs None e
         | StopTorn t \<Rightarrow> finish_inspection rs (Some t) e
         | StopBad err \<Rightarrow> Inl err))"

lemma inspect_loop_scan:
  "inspect_loop bytes acc offset =
     finish_scan (case scan bytes (length acc) offset of (rs, e, s) \<Rightarrow> (acc @ rs, e, s))"
proof (induction bytes acc offset rule: inspect_loop.induct)
  case (1 bytes acc offset)
  show ?case
  proof (cases "offset < length bytes")
    case False
    then show ?thesis by (simp add: inspect_loop.simps scan.simps finish_scan_def)
  next
    case True
    show ?thesis
    proof (cases "inspect_frame bytes (length acc) offset")
      case (Framed r e)
      with 1 [OF True Framed] True show ?thesis
        by (simp add: inspect_loop.simps [of bytes acc] scan_framed split: prod.splits)
    qed (use True in \<open>simp_all add: inspect_loop.simps [of bytes acc] scan.simps [of bytes] finish_scan_def\<close>)
  qed
qed

lemma inspect_records_scan:
  "length bytes \<le> MAX_JOURNAL_FILE_BYTES \<Longrightarrow>
     inspect_journal_records bytes = finish_scan (scan bytes 0 0)"
  by (simp add: inspect_journal_records_def inspect_loop_scan split: prod.splits)

text \<open>A frame depends on its own bytes only.\<close>

lemma slice_get_local:
  "slice_get bs a b = Some xs \<Longrightarrow> b \<le> n \<Longrightarrow> take n bs = take n cs \<Longrightarrow> n \<le> length cs \<Longrightarrow>
     slice_get cs a b = Some xs"
proof -
  assume s: "slice_get bs a b = Some xs" and b: "b \<le> n" and eq: "take n bs = take n cs"
    and n: "n \<le> length cs"
  have "take (b - a) (drop a bs) = take (b - a) (drop a (take n bs))"
    using b by (simp add: drop_take min_def)
  also have "\<dots> = take (b - a) (drop a cs)"
    using b by (simp add: eq drop_take min_def)
  finally show ?thesis using s b n by (auto simp: slice_get_def split: if_splits)
qed

lemma inspect_frame_local:
  assumes f: "inspect_frame bs i off = Framed r e" and e: "e \<le> n"
    and eq: "take n bs = take n cs" and n: "n \<le> length cs"
  shows "inspect_frame cs i off = Framed r e"
proof -
  obtain header payload where
    h: "slice_get bs off (off + HEADER_BYTES) = Some header" and
    p: "slice_get bs (off + HEADER_BYTES) e = Some payload"
    using f unfolding inspect_frame_def
    by (auto split: if_split_asm option.split_asm sum.split_asm)
  have "off + HEADER_BYTES \<le> e" using inspect_frame_advances [OF f] by (simp add: HEADER_BYTES_def)
  then have h': "slice_get cs off (off + HEADER_BYTES) = Some header"
    using slice_get_local [OF h _ eq n] e by simp
  have p': "slice_get cs (off + HEADER_BYTES) e = Some payload"
    using slice_get_local [OF p e eq n] .
  show ?thesis
    using f h p h' p' unfolding inspect_frame_def
    by (auto simp: checked_add_def split: if_split_asm option.split_asm sum.split_asm)
qed

lemma scan_end_bound: "scan bs i off = (rs, e, s) \<Longrightarrow> off \<le> e"
proof (induction bs i off arbitrary: rs rule: scan.induct)
  case (1 bs i off)
  show ?case
  proof (cases "off < length bs \<and> (\<exists>r f. inspect_frame bs i off = Framed r f)")
    case True
    then obtain r f where f: "inspect_frame bs i off = Framed r f" by blast
    obtain rs' where "scan bs (Suc i) f = (rs', e, s)"
      using 1(2) by (cases "scan bs (Suc i) f") (auto simp: scan_framed [OF f])
    from 1(1) [OF _ f this] True inspect_frame_advances [OF f] show ?thesis by simp
  next
    case False
    with 1(2) show ?thesis
      by (cases "inspect_frame bs i off") (auto simp: scan.simps [of bs i] split: if_splits)
  qed
qed

text \<open>What was scanned stays scanned when only later bytes change.\<close>

lemma scan_local:
  assumes "scan bs i off = (rs, e, s)" and "take e bs = take e cs" and "e \<le> length cs"
  shows "scan cs i off =
    (case scan cs (i + length rs) e of (rs', e', s') \<Rightarrow> (rs @ rs', e', s'))"
  using assms
proof (induction bs i off arbitrary: rs rule: scan.induct)
  case (1 bs i off)
  show ?case
  proof (cases "off < length bs \<and> (\<exists>r f. inspect_frame bs i off = Framed r f)")
    case True
    then obtain r f where f: "inspect_frame bs i off = Framed r f" by blast
    obtain rs' where rs': "scan bs (Suc i) f = (rs', e, s)" "rs = r # rs'"
      using 1(2) by (cases "scan bs (Suc i) f") (auto simp: scan_framed [OF f])
    have "inspect_frame cs i off = Framed r f"
      using inspect_frame_local [OF f scan_end_bound [OF rs'(1)] 1(3,4)] .
    with 1(1) [OF _ f rs'(1) 1(3,4)] True rs'(2) show ?thesis
      by (simp add: scan_framed split: prod.splits)
  next
    case False
    with 1(2) have "rs = [] \<and> e = off"
      by (cases "inspect_frame bs i off") (auto simp: scan.simps [of bs i] split: if_splits)
    then show ?thesis by (simp split: prod.splits)
  qed
qed

lemma scan_bytes_bound: "scan bs i off = (rs, e, s) \<Longrightarrow> off \<le> length bs \<Longrightarrow> e \<le> length bs"
proof (induction bs i off arbitrary: rs rule: scan.induct)
  case (1 bs i off)
  show ?case
  proof (cases "off < length bs \<and> (\<exists>r f. inspect_frame bs i off = Framed r f)")
    case True
    then obtain r f where f: "inspect_frame bs i off = Framed r f" by blast
    obtain rs' where "scan bs (Suc i) f = (rs', e, s)"
      using 1(2) by (cases "scan bs (Suc i) f") (auto simp: scan_framed [OF f])
    from 1(1) [OF _ f this] True inspect_frame_advances [OF f] show ?thesis by simp
  next
    case False
    with 1(2,3) show ?thesis
      by (cases "inspect_frame bs i off") (auto simp: scan.simps [of bs i] split: if_splits)
  qed
qed

lemma scan_cut:
  assumes "scan bs 0 0 = (rs, e, s)"
  shows "scan (take e bs) 0 0 = (rs, e, AtEnd)"
  using scan_local [OF assms, of "take e bs"] scan_bytes_bound [OF assms]
  by (simp add: scan_stops)

text \<open>A frame, or a strict prefix of one, behind complete frames.\<close>

lemma scan_snoc:
  assumes s: "scan bs 0 0 = (rs, length bs, AtEnd)" and r: "encodable r"
    and n: "length rs < MAX_JOURNAL_FRAMES"
    and size: "length bs + length (frame_image (length rs) r) \<le> MAX_JOURNAL_FILE_BYTES"
  shows "scan (bs @ frame_image (length rs) r) 0 0 =
    (rs @ [r], length bs + length (frame_image (length rs) r), AtEnd)"
proof -
  have "inspect_frame (bs @ frame_image (length rs) r) (length rs) (length bs) =
      Framed r (length bs + length (frame_image (length rs) r))"
    using inspect_whole_frame [OF r n, of bs "[]"] size by simp
  then show ?thesis
    using scan_local [OF s, of "bs @ frame_image (length rs) r"]
    by (simp add: scan_framed scan_stops)
qed

lemma scan_partial:
  assumes s: "scan bs 0 0 = (rs, length bs, AtEnd)" and r: "encodable r"
    and n: "length rs < MAX_JOURNAL_FRAMES"
    and size: "length bs + length (frame_image (length rs) r) \<le> MAX_JOURNAL_FILE_BYTES"
  shows "scan (bs @ take k (frame_image (length rs) r)) 0 0 =
    (if k = 0 then (rs, length bs, AtEnd)
     else if k < length (frame_image (length rs) r) then (rs, length bs, StopTorn (torn_at k))
     else (rs @ [r], length bs + length (frame_image (length rs) r), AtEnd))"
proof (cases "0 < k \<and> k < length (frame_image (length rs) r)")
  case False
  then show ?thesis using scan_snoc [OF assms] s by auto
next
  case True
  let ?c = "bs @ take k (frame_image (length rs) r)"
  have "inspect_frame ?c (length rs) (length bs) = Torn (torn_at k)"
    using inspect_torn_frame [OF r n _ , of k bs] size True by simp
  with True show ?thesis
    using scan_local [OF s, of ?c] by (simp add: scan_torn)
qed

section \<open>The system calls\<close>

definition same_entry :: "disk_file \<Rightarrow> disk_file \<Rightarrow> bool" where
  "same_entry f g \<longleftrightarrow> file_leaf g = file_leaf f \<and> file_deleted g = file_deleted f"

lemma next_outcome_file:
  "next_outcome f = (x, g) \<Longrightarrow> file_content g = file_content f \<and> file_cursor g = file_cursor f \<and>
     same_entry f g"
  by (auto simp: next_outcome_def same_entry_def split: list.splits)

lemma write_at_end: "write_bytes (length c) bs c = c @ bs"
  by (simp add: write_bytes_def)

lemma file_write_all_at_end:
  assumes "file_write_all bs f = (res, g)" and "file_cursor f = length (file_content f)"
  shows "same_entry f g \<and> (case res of
      Inr _ \<Rightarrow> file_content g = file_content f @ bs \<and> file_cursor g = length (file_content g)
    | Inl _ \<Rightarrow> \<exists>k. file_content g = file_content f @ take k bs)"
proof -
  obtain x f1 where n: "next_outcome f = (x, f1)" by (cases "next_outcome f")
  note f1 = next_outcome_file [OF n]
  show ?thesis
  proof (cases x)
    case Io_Works
    with assms n f1 show ?thesis
      by (auto simp: file_write_all_def put_bytes_def write_at_end same_entry_def)
  next
    case (Io_Fails k code)
    with assms n f1 show ?thesis
      by (auto simp: file_write_all_def put_bytes_def write_at_end same_entry_def)
  qed
qed

lemma file_sync_file:
  "file_sync f = (res, g) \<Longrightarrow> file_content g = file_content f \<and> file_cursor g = file_cursor f \<and>
     same_entry f g"
  using next_outcome_file [of f]
  by (cases "next_outcome f") (auto simp: file_sync_def split: io_outcome.splits)

lemma write_frame_at_end:
  assumes w: "write_frame bs f = (res, g)" and c: "file_cursor f = length (file_content f)"
  shows "same_entry f g \<and> (case res of
      Inr _ \<Rightarrow> file_content g = file_content f @ bs \<and> file_cursor g = length (file_content g)
    | Inl _ \<Rightarrow> \<exists>k. file_content g = file_content f @ take k bs)"
proof -
  obtain r1 f1 where s1: "file_write_all bs f = (r1, f1)" by (cases "file_write_all bs f")
  note a = file_write_all_at_end [OF s1 c]
  show ?thesis
  proof (cases r1)
    case (Inl e)
    with a w s1 show ?thesis by (auto simp: write_frame_def io_then_def)
  next
    case (Inr u)
    obtain r2 f2 where s2: "file_sync f1 = (r2, f2)" by (cases "file_sync f1")
    obtain r3 f3 where s3: "file_sync f2 = (r3, f3)" by (cases "file_sync f2")
    have whole: "\<exists>k. file_content f @ bs = file_content f @ take k bs" by (rule exI [of _ "length bs"]) simp
    from a Inr w s1 s2 s3 file_sync_file [OF s2] file_sync_file [OF s3] whole show ?thesis
      by (cases r2; cases r3) (auto simp: write_frame_def io_then_def same_entry_def)
  qed
qed

lemma file_change_file:
  assumes "file_change h f = (res, g)"
  shows "\<exists>f1. file_content f1 = file_content f \<and> file_cursor f1 = file_cursor f \<and> same_entry f f1 \<and>
    (g = h f1 \<or> g = f1 \<and> isl res)"
  using assms next_outcome_file [of f]
  by (cases "next_outcome f")
    (fastforce simp: file_change_def split: io_outcome.splits if_splits)

lemma cut_tail_file:
  assumes cut: "cut_tail n f = (res, g)" and n: "n \<le> length (file_content f)"
  shows "same_entry f g \<and> (case res of
      Inr _ \<Rightarrow> file_content g = take n (file_content f) \<and> file_cursor g = n
    | Inl _ \<Rightarrow> file_content g = file_content f \<or> file_content g = take n (file_content f))"
proof -
  obtain r1 f1 where s1: "file_set_len n f = (r1, f1)" by (cases "file_set_len n f")
  obtain r2 f2 where s2: "file_seek n f1 = (r2, f2)" by (cases "file_seek n f1")
  obtain r3 f3 where s3: "file_sync f2 = (r3, f3)" by (cases "file_sync f2")
  obtain r4 f4 where s4: "file_sync f3 = (r4, f4)" by (cases "file_sync f3")
  have e1: "same_entry f f1 \<and> (file_content f1 = take n (file_content f) \<or>
      file_content f1 = file_content f \<and> isl r1)"
    using file_change_file [OF s1 [unfolded file_set_len_def]] n
    by (auto simp: resize_bytes_def same_entry_def)
  have e2: "same_entry f1 f2 \<and> file_content f2 = file_content f1 \<and> (isl r2 \<or> file_cursor f2 = n)"
    using file_change_file [OF s2 [unfolded file_seek_def]] by (auto simp: same_entry_def)
  note e3 = file_sync_file [OF s3] and e4 = file_sync_file [OF s4]
  from cut s1 s2 s3 s4 e1 e2 e3 e4 show ?thesis
    by (cases r1; cases r2; cases r3; cases r4) (auto simp: cut_tail_def io_then_def same_entry_def)
qed

section \<open>The invariant\<close>

definition durable :: "file_journal \<Rightarrow> journal_record list" where
  "durable j = fst (scan (file_content (fj_file j)) 0 0)"

definition tail_ok :: "file_journal \<Rightarrow> bool" where
  "tail_ok j \<longleftrightarrow>
     (case fj_torn_prefix j of
        None \<Rightarrow> fj_tail_issue j = None \<and>
          scan (file_content (fj_file j)) 0 0 = (fj_records j, length (file_content (fj_file j)), AtEnd)
      | Some v \<Rightarrow> \<exists>t. fj_tail_issue j = Some t \<and>
          scan (file_content (fj_file j)) 0 0 = (fj_records j, v, StopTorn t))"

text \<open>The file is always one that can be opened again: complete frames and at most one torn one.\<close>

definition sound_bytes :: "u8 list \<Rightarrow> bool" where
  "sound_bytes bs \<longleftrightarrow> length bs \<le> MAX_JOURNAL_FILE_BYTES \<and>
     (case scan bs 0 0 of (_, _, StopBad _) \<Rightarrow> False | _ \<Rightarrow> True)"

definition fj_ok :: "file_journal \<Rightarrow> bool" where
  "fj_ok j \<longleftrightarrow> sound_bytes (file_content (fj_file j)) \<and> (fj_poisoned j \<or>
     (length (fj_records j) \<le> MAX_JOURNAL_FRAMES \<and>
      fj_next_sequence j = of_nat (length (fj_records j)) \<and>
      fj_byte_length j = length (file_content (fj_file j)) \<and>
      fj_byte_length j \<le> MAX_JOURNAL_FILE_BYTES \<and>
      file_cursor (fj_file j) = length (file_content (fj_file j)) \<and> tail_ok j))"

lemma fj_ok_durable: "fj_ok j \<Longrightarrow> \<not> fj_poisoned j \<Longrightarrow> durable j = fj_records j"
  by (auto simp: fj_ok_def tail_ok_def durable_def split: option.splits)

lemma fj_ok_poisoned: "fj_poisoned j \<Longrightarrow> fj_ok j \<longleftrightarrow> sound_bytes (file_content (fj_file j))"
  by (simp add: fj_ok_def)

lemma fj_ok_sound: "fj_ok j \<Longrightarrow> sound_bytes (file_content (fj_file j))"
  by (simp add: fj_ok_def)

lemma saturating_inc_of_nat: "n \<le> MAX_JOURNAL_FRAMES \<Longrightarrow> saturating_inc (of_nat n) = of_nat (Suc n)"
proof -
  assume "n \<le> MAX_JOURNAL_FRAMES"
  then have "unat (of_nat n :: u64) = n"
    by (simp add: journal_limits unsigned_of_nat take_bit_nat_eq_self)
  then have "unat (of_nat n :: u64) \<noteq> unat (- 1 :: u64)"
    using \<open>n \<le> MAX_JOURNAL_FRAMES\<close>
    by (simp add: journal_limits unsigned_minus_1_eq_mask mask_eq_exp_minus_1)
  then have "(of_nat n :: u64) \<noteq> - 1" by metis
  then show ?thesis by (simp add: saturating_inc_def add.commute)
qed

text \<open>One append: the frame is added, nothing happens, or a prefix of it is left and the journal poisoned.\<close>

lemma fj_append_at:
  assumes ok: "fj_ok j" and ap: "fj_append r j = (res, j')"
  shows "fj_ok j' \<and> appended_record r (durable j) res (durable j') \<and>
    fj_phase j' = fj_phase j \<and> fj_identity j' = fj_identity j \<and> fj_leaf j' = fj_leaf j \<and>
    same_entry (fj_file j) (fj_file j') \<and> (res = Inr () \<longrightarrow> \<not> fj_poisoned j \<and> \<not> fj_poisoned j')"
proof (cases "fj_poisoned j \<or> fj_torn_prefix j \<noteq> None \<or> MAX_JOURNAL_FRAMES \<le> length (fj_records j)")
  case True
  with ok ap show ?thesis by (auto simp: fj_append_def same_entry_def split: if_splits)
next
  case False
  let ?c = "file_content (fj_file j)" and ?n = "length (fj_records j)"
  have inv: "fj_next_sequence j = of_nat ?n" "fj_byte_length j = length ?c"
    "length ?c \<le> MAX_JOURNAL_FILE_BYTES" "file_cursor (fj_file j) = length ?c"
    "scan ?c 0 0 = (fj_records j, length ?c, AtEnd)" "fj_tail_issue j = None"
    using ok False by (auto simp: fj_ok_def tail_ok_def)
  have n: "?n < MAX_JOURNAL_FRAMES" and np: "\<not> fj_poisoned j" "fj_torn_prefix j = None" using False by auto
  show ?thesis
  proof (cases "encode_frame (fj_next_sequence j) r ?n")
    case (Inl e)
    with ok ap False show ?thesis by (auto simp: fj_append_def same_entry_def)
  next
    case (Inr frame)
    with inv(1) encode_frame_Inr have r: "encodable r" and frame: "frame = frame_image ?n r" by auto
    show ?thesis
    proof (cases "MAX_JOURNAL_FILE_BYTES < saturating_add (fj_byte_length j) (length frame)")
      case True
      with Inr ok ap False show ?thesis by (auto simp: fj_append_def same_entry_def)
    next
      case room: False
      then have size: "length ?c + length frame \<le> MAX_JOURNAL_FILE_BYTES"
        by (auto simp: inv(2) saturating_add_def journal_limits)
      obtain wr f where w: "write_frame frame (fj_file j) = (wr, f)" by (cases "write_frame frame (fj_file j)")
      note we = write_frame_at_end [OF w inv(4)]
      have dur: "durable j = fj_records j" by (rule fj_ok_durable [OF ok np(1)])
      show ?thesis
      proof (cases wr)
        case (Inl code)
        with we obtain k where k: "file_content f = ?c @ take k frame" by auto
        have sc: "scan (file_content f) 0 0 = (if k = 0 then (fj_records j, length ?c, AtEnd)
            else if k < length frame then (fj_records j, length ?c, StopTorn (torn_at k))
            else (fj_records j @ [r], length ?c + length frame, AtEnd))"
          using scan_partial [OF inv(5) r n, of k] size by (simp add: k frame)
        have "length (file_content f) \<le> MAX_JOURNAL_FILE_BYTES"
          using size by (simp add: k min_def)
        then have "sound_bytes (file_content f)"
          by (simp add: sc sound_bytes_def)
        moreover have "fst (scan (file_content f) 0 0) = fj_records j \<or>
            fst (scan (file_content f) 0 0) = fj_records j @ [r]" by (simp add: sc)
        ultimately show ?thesis using Inr room False w Inl ap we dur
          by (auto simp: fj_append_def durable_def journal_io_may_have_appended_def
              may_have_appended_def fj_ok_poisoned)
      next
        case ok_write: (Inr u)
        have j': "res = Inr ()" "j' = j\<lparr>fj_file := f, fj_byte_length := fj_byte_length j + length frame,
            fj_records := fj_records j @ [r], fj_generation := saturating_inc (fj_generation j),
            fj_next_sequence := saturating_inc (fj_next_sequence j), fj_poisoned := False\<rparr>"
          using Inr room False w ok_write ap by (simp_all add: fj_append_def)
        have "scan (file_content f) 0 0 = (fj_records j @ [r], length ?c + length frame, AtEnd)"
          using scan_snoc [OF inv(5) r n] size we ok_write by (simp add: frame)
        moreover have "saturating_inc (of_nat ?n) = (of_nat (Suc ?n) :: u64)"
          using n by (intro saturating_inc_of_nat) simp
        ultimately show ?thesis
          using we ok_write size n inv np dur
          by (auto simp: j' fj_ok_def tail_ok_def durable_def sound_bytes_def)
      qed
    qed
  qed
qed

lemma fj_promote_at:
  assumes ok: "fj_ok j" and np: "\<not> fj_poisoned j" and pr: "fj_promote_candidate j = (res, j')"
  shows "fj_ok j' \<and> durable j' = durable j \<and> (case res of Inr _ \<Rightarrow> True
    | Inl e \<Rightarrow> journal_certainty e = MayHaveAppended)"
proof (cases "fj_phase j")
  case (Candidate leaf)
  obtain r f where s: "file_rename leaf (fj_file j) = (r, f)" by (cases "file_rename leaf (fj_file j)")
  from file_change_file [OF s [unfolded file_rename_def]]
  have f: "file_content f = file_content (fj_file j)" "file_cursor f = file_cursor (fj_file j)" by auto
  show ?thesis
  proof (cases r)
    case (Inl code)
    with pr Candidate s f fj_ok_sound [OF ok] show ?thesis
      by (auto simp: fj_promote_candidate_def durable_def fj_ok_poisoned journal_io_may_have_appended_def
          may_have_appended_def)
  next
    case (Inr u)
    with pr Candidate s f ok np show ?thesis
      by (auto simp: fj_promote_candidate_def durable_def fj_ok_def tail_ok_def split: option.splits)
  qed
qed (use ok pr in \<open>auto simp: fj_promote_candidate_def\<close>)

lemma fj_begin_at:
  assumes ok: "fj_ok j" and b: "fj_begin j p steps = (res, j')"
  shows "fj_ok j' \<and> appended_record (Intent p steps) (durable j) res (durable j') \<and>
    (durable j' \<noteq> durable j \<longrightarrow> durable j = [])"
proof (cases "fj_poisoned j \<or> fj_records j \<noteq> []")
  case True
  with ok b show ?thesis by (auto simp: fj_begin_def split: if_splits)
next
  case False
  obtain r1 j1 where s: "fj_append (Intent p steps) j = (r1, j1)" by (cases "fj_append (Intent p steps) j")
  note a = fj_append_at [OF ok s]
  have empty: "durable j = []" using fj_ok_durable [OF ok] False by simp
  show ?thesis
  proof (cases r1)
    case (Inl e)
    with False b s a empty show ?thesis by (auto simp: fj_begin_def)
  next
    case (Inr u)
    with False b s have pr: "fj_promote_candidate j1 = (res, j')" by (simp add: fj_begin_def)
    from a Inr have np: "fj_ok j1" "\<not> fj_poisoned j1" by auto
    from fj_promote_at [OF np pr] a Inr empty show ?thesis by (cases res) auto
  qed
qed

lemma fj_append_active_at:
  "fj_ok j \<Longrightarrow> fj_append_active j r = (res, j') \<Longrightarrow>
     fj_ok j' \<and> appended_record r (durable j) res (durable j')"
  using fj_append_at [of j r res j']
  by (auto simp: fj_append_active_def fj_require_active_def split: if_splits)

lemma fj_cut_tail_at:
  assumes ok: "fj_ok j" and np: "\<not> fj_poisoned j" and c: "fj_cut_tail j a = (res, a', j')"
  shows "fj_ok j' \<and> durable j' = durable j \<and> (case res of Inr _ \<Rightarrow> \<not> fj_poisoned j' | Inl _ \<Rightarrow> True)"
proof (cases "fj_torn_prefix j")
  case None
  with assms show ?thesis by (auto simp: fj_cut_tail_def)
next
  case (Some v)
  let ?c = "file_content (fj_file j)"
  obtain t where inv: "length (fj_records j) \<le> MAX_JOURNAL_FRAMES"
    "fj_next_sequence j = of_nat (length (fj_records j))" "length ?c \<le> MAX_JOURNAL_FILE_BYTES"
    "fj_byte_length j = length ?c" "scan ?c 0 0 = (fj_records j, v, StopTorn t)"
    using ok np Some by (auto simp: fj_ok_def tail_ok_def)
  have v: "v \<le> length ?c" using scan_bytes_bound [OF inv(5)] by simp
  note cut = scan_cut [OF inv(5)]
  obtain r f where s: "cut_tail v (fj_file j) = (r, f)" by (cases "cut_tail v (fj_file j)")
  note f = cut_tail_file [OF s v]
  show ?thesis
  proof (cases r)
    case (Inl code)
    with c Some s f cut inv fj_ok_sound [OF ok] show ?thesis
      by (auto simp: fj_cut_tail_def durable_def fj_ok_poisoned sound_bytes_def)
  next
    case (Inr u)
    with c Some s f cut inv v show ?thesis
      by (auto simp: fj_cut_tail_def durable_def fj_ok_def tail_ok_def sound_bytes_def Let_def)
  qed
qed

lemma fj_authorized_append_at:
  assumes ok: "fj_ok j" and ap: "fj_authorized_append j a r = (res, a', j')"
  shows "fj_ok j' \<and> appended_record r (durable j) res (durable j')"
proof (cases "fj_poisoned j \<or> fj_require_active j \<noteq> Inr () \<or> auth_identity a \<noteq> fj_identity j \<or>
    auth_generation a \<noteq> fj_generation j")
  case True
  with ok ap show ?thesis
    by (auto simp: fj_authorized_append_def fj_require_active_def split: if_splits)
next
  case False
  obtain r1 a1 j1 where s1: "fj_cut_tail j a = (r1, a1, j1)" by (cases "fj_cut_tail j a") auto
  have "\<not> fj_poisoned j" using False by simp
  note c = fj_cut_tail_at [OF ok this s1]
  show ?thesis
  proof (cases r1)
    case (Inl e)
    with False ap s1 c show ?thesis by (auto simp: fj_authorized_append_def)
  next
    case (Inr u)
    obtain r2 j2 where s2: "fj_append r j1 = (r2, j2)" by (cases "fj_append r j1")
    from fj_append_at [OF _ s2] c have "fj_ok j2 \<and> appended_record r (durable j) r2 (durable j2)" by simp
    with False ap s1 Inr s2 show ?thesis
      by (cases r2) (auto simp: fj_authorized_append_def)
  qed
qed

text \<open>A failing call either changed nothing or poisoned the journal, which then refuses everything.\<close>

lemma fj_append_failed: "fj_append r j = (Inl e, j') \<Longrightarrow> j' = j \<or> fj_poisoned j'"
  by (auto simp: fj_append_def split: if_splits sum.splits prod.splits)

lemma fj_append_active_failed: "fj_append_active j r = (Inl e, j') \<Longrightarrow> j' = j \<or> fj_poisoned j'"
  by (auto simp: fj_append_active_def split: sum.splits dest: fj_append_failed)

lemma fj_promote_failed: "fj_promote_candidate j = (Inl e, j') \<Longrightarrow> fj_poisoned j'"
  by (auto simp: fj_promote_candidate_def split: file_journal_phase.splits sum.splits prod.splits)

lemma fj_begin_failed: "fj_begin j p steps = (Inl e, j') \<Longrightarrow> j' = j \<or> fj_poisoned j'"
  by (auto simp: fj_begin_def split: if_splits sum.splits prod.splits
      dest: fj_append_failed fj_promote_failed)

text \<open>The calls of the \<open>JournalStore\<close> trait, each named by its record, and a sequence of them.\<close>

fun fj_write :: "journal_record \<Rightarrow> file_journal \<Rightarrow> journal_result \<times> file_journal" where
  "fj_write (Intent p steps) j = fj_begin j p steps"
| "fj_write (Prepared i d) j = fj_prepared j i d"
| "fj_write (Completed i d) j = fj_completed j i d"
| "fj_write (NotApplied i d) j = fj_not_applied j i d"
| "fj_write (Terminal t) j = fj_terminal j t"

lemmas fj_calls = fj_prepared_def fj_completed_def fj_not_applied_def fj_terminal_def

lemma fj_write_at:
  assumes "fj_ok j" and "fj_write r j = (res, j')"
  shows "fj_ok j' \<and> appended_record r (durable j) res (durable j')"
proof (cases r)
  case (Intent p steps)
  with assms fj_begin_at show ?thesis by simp
qed (use assms fj_append_active_at in \<open>simp_all add: fj_calls\<close>)

lemma fj_write_failed: "fj_write r j = (Inl e, j') \<Longrightarrow> j' = j \<or> fj_poisoned j'"
  by (cases r) (auto simp: fj_calls dest: fj_begin_failed fj_append_active_failed)

lemma fj_write_poisoned: "fj_poisoned j \<Longrightarrow> fj_write r j = (Inl (may_have_appended 8), j)"
  by (cases r) (simp_all add: fj_calls fj_begin_def fj_append_active_def fj_require_active_def)

fun fj_writes :: "journal_record list \<Rightarrow> file_journal \<Rightarrow> journal_result list \<times> file_journal" where
  "fj_writes [] j = ([], j)"
| "fj_writes (r # rs) j =
     (case fj_write r j of (res, j) \<Rightarrow> (case fj_writes rs j of (results, j) \<Rightarrow> (res # results, j)))"

definition acknowledged :: "journal_record list \<Rightarrow> journal_result list \<Rightarrow> journal_record list" where
  "acknowledged rs results = map fst (filter (\<lambda>(r, res). res = Inr ()) (zip rs results))"

lemma acknowledged_simps [simp]:
  "acknowledged [] results = []"
  "acknowledged (r # rs) (Inr u # results) = r # acknowledged rs results"
  "acknowledged (r # rs) (Inl e # results) = acknowledged rs results"
  by (simp_all add: acknowledged_def)

lemma fj_writes_poisoned:
  "fj_poisoned j \<Longrightarrow> fj_writes rs j = (results, j') \<Longrightarrow> j' = j \<and> acknowledged rs results = []"
  by (induction rs arbitrary: results) (auto simp: fj_write_poisoned split: prod.splits)

text \<open>The records in the file: the acknowledged ones, and at most one more at the end.\<close>

lemma fj_writes_at:
  assumes "fj_ok j" and "fj_writes rs j = (results, j')"
  shows "fj_ok j' \<and> (\<exists>extra. length extra \<le> 1 \<and> set extra \<subseteq> set rs \<and>
    durable j' = durable j @ acknowledged rs results @ extra \<and> (extra \<noteq> [] \<longrightarrow> fj_poisoned j'))"
  using assms
proof (induction rs arbitrary: j results)
  case Nil
  then show ?case by simp
next
  case (Cons r rs)
  obtain res j1 where s: "fj_write r j = (res, j1)" by (cases "fj_write r j")
  obtain results1 where ss: "fj_writes rs j1 = (results1, j')" and r: "results = res # results1"
    using Cons.prems(2) s by (cases "fj_writes rs j1") auto
  note w = fj_write_at [OF Cons.prems(1) s]
  from Cons.IH [OF _ ss] w obtain extra where ok: "fj_ok j'" and
    ex: "length extra \<le> 1" "set extra \<subseteq> set rs" "durable j' = durable j1 @ acknowledged rs results1 @ extra"
      "extra \<noteq> [] \<longrightarrow> fj_poisoned j'" by auto
  show ?case
  proof (cases res)
    case (Inr u)
    with w ok ex show ?thesis by (auto simp: r intro!: exI [of _ extra])
  next
    case (Inl e)
    show ?thesis
    proof (cases "fj_poisoned j1")
      case False
      with fj_write_failed [of r j e j1] s Inl have "j1 = j" by auto
      with Inl ok ex show ?thesis by (auto simp: r intro!: exI [of _ extra])
    next
      case True
      note p = fj_writes_poisoned [OF True ss]
      from w Inl have "durable j1 = durable j \<or> durable j1 = durable j @ [r]" by auto
      with p Inl ok True show ?thesis
        by (auto simp: r intro: exI [of _ "[]"] exI [of _ "[r]"])
    qed
  qed
qed

section \<open>Deleting and activating\<close>

lemma fj_delete_safe_settled:
  assumes "fj_ok j" and "fj_delete_safe j"
  shows "durable j = [] \<or> (\<exists>t. journal_run (durable j) (Closed t))"
proof -
  have d: "durable j = fj_records j"
    using assms by (intro fj_ok_durable) (auto simp: fj_delete_safe_def)
  show ?thesis
  proof (cases "fj_phase j")
    case Active
    with assms(2) d replay_clean_iff [of "fj_records j"] show ?thesis by (auto simp: fj_delete_safe_def)
  qed (use assms(2) d in \<open>auto simp: fj_delete_safe_def is_physically_empty_candidate_def\<close>)
qed

lemma single_intent_iff: "single_intent rs \<longleftrightarrow> (\<exists>p steps. rs = [Intent p steps])"
  by (auto simp: single_intent_def split: list.splits journal_record.splits)

text \<open>The active name is given to the file only once its manifest is complete.\<close>

lemma fj_begin_stages:
  assumes ok: "fj_ok j" and ph: "fj_phase j = Candidate leaf" and other: "file_leaf (fj_file j) \<noteq> leaf"
    and b: "fj_begin j p steps = (res, j')"
  shows "(file_leaf (fj_file j') = leaf \<longrightarrow> durable j' = [Intent p steps]) \<and>
    (res = Inr () \<longrightarrow> file_leaf (fj_file j') = leaf \<and> fj_phase j' = Active)"
proof (cases "fj_poisoned j \<or> fj_records j \<noteq> []")
  case True
  with b other show ?thesis by (auto simp: fj_begin_def split: if_splits)
next
  case False
  obtain r1 j1 where s: "fj_append (Intent p steps) j = (r1, j1)" by (cases "fj_append (Intent p steps) j")
  note a = fj_append_at [OF ok s]
  have empty: "durable j = []" using fj_ok_durable [OF ok] False by simp
  show ?thesis
  proof (cases r1)
    case (Inl e)
    with False b s a other show ?thesis by (auto simp: fj_begin_def same_entry_def)
  next
    case (Inr u)
    with False b s have pr: "fj_promote_candidate j1 = (res, j')" by (simp add: fj_begin_def)
    from a Inr have j1: "fj_ok j1" "\<not> fj_poisoned j1" "fj_phase j1 = Candidate leaf" "durable j1 = [Intent p steps]"
      using ph empty by auto
    obtain r f where rn: "file_rename leaf (fj_file j1) = (r, f)" by (cases "file_rename leaf (fj_file j1)")
    from file_change_file [OF rn [unfolded file_rename_def]] have "isl r \<or> file_leaf f = leaf" by auto
    with fj_promote_at [OF j1(1,2) pr] pr j1(3,4) rn show ?thesis
      by (cases r) (auto simp: fj_promote_candidate_def)
  qed
qed

section \<open>Copying\<close>

lemma file_read_content: "file_read n f = (res, g) \<Longrightarrow> file_content g = file_content f"
  using next_outcome_file [of f]
  by (cases "next_outcome f") (auto simp: file_read_def Let_def split: io_outcome.splits)

lemma file_seek_content: "file_seek n f = (res, g) \<Longrightarrow> file_content g = file_content f \<and>
    (\<not> isl res \<longrightarrow> file_cursor g = n)"
  using file_change_file [of "\<lambda>f. f\<lparr>file_cursor := n\<rparr>" f res g] by (auto simp: file_seek_def)

lemma file_position_content:
  "file_position f = (res, g) \<Longrightarrow> file_content g = file_content f \<and> file_cursor g = file_cursor f"
  using next_outcome_file [of f]
  by (cases "next_outcome f") (auto simp: file_position_def split: io_outcome.splits)

lemma read_retained_bytes_content:
  assumes "read_retained_bytes n f = (res, g)"
  shows "file_content g = file_content f"
proof -
  obtain r1 f1 where s1: "file_seek 0 f = (r1, f1)" by (cases "file_seek 0 f")
  obtain r2 f2 where s2: "file_read (saturating_add n 1) f1 = (r2, f2)"
    by (cases "file_read (saturating_add n 1) f1")
  from assms s1 s2 file_seek_content [OF s1] file_read_content [OF s2] show ?thesis
    by (auto simp: read_retained_bytes_def io_then_def split: if_splits sum.splits)
qed

lemma copy_to_file_content:
  "copy_retained_bytes_to_file n f out = (res, g, out') \<Longrightarrow> file_content g = file_content f"
  by (auto simp: copy_retained_bytes_to_file_def dest: read_retained_bytes_content
      split: prod.splits sum.splits if_splits)

lemma copy_to_new_content:
  "copy_retained_bytes new_file n f out = (res, g, out') \<Longrightarrow> file_content g = file_content f"
  by (auto simp: copy_retained_bytes_def dest: read_retained_bytes_content
      split: prod.splits sum.splits if_splits)

text \<open>A copy leaves the records, and the journal can go on writing or is poisoned.\<close>

lemma fj_copy_exact_at:
  assumes ok: "fj_ok j" and copy: "fj_copy_exact_with copy j out = (res, j', out')"
    and reads: "\<And>n f out res g out'. copy n f out = (res, g, out') \<Longrightarrow> file_content g = file_content f"
  shows "fj_ok j' \<and> durable j' = durable j \<and> fj_records j' = fj_records j"
proof -
  obtain r1 f1 where s1: "file_position (fj_file j) = (r1, f1)" by (cases "file_position (fj_file j)")
  note c1 = file_position_content [OF s1]
  obtain copied f2 out2 where s2: "copy (fj_byte_length j) f1 out = (copied, f2, out2)"
    by (metis prod_cases3)
  have c2: "file_content f2 = file_content (fj_file j)" using reads [OF s2] c1 by simp
  obtain r3 f3 where s3: "file_seek (fj_byte_length j) f2 = (r3, f3)"
    by (cases "file_seek (fj_byte_length j) f2")
  note c3 = file_seek_content [OF s3]
  have kept: "fj_ok (j\<lparr>fj_file := g\<rparr>)"
    if "file_content g = file_content (fj_file j)" "\<not> fj_poisoned j \<longrightarrow> file_cursor g = fj_byte_length j" for g
    using ok that by (auto simp: fj_ok_def tail_ok_def split: option.splits)
  have poison: "fj_ok (j\<lparr>fj_file := g, fj_poisoned := True\<rparr>)"
    if "file_content g = file_content (fj_file j)" for g
    using fj_ok_sound [OF ok] that by (simp add: fj_ok_poisoned)
  have len: "\<not> fj_poisoned j \<longrightarrow> file_cursor (fj_file j) = fj_byte_length j"
    using ok by (auto simp: fj_ok_def)
  show ?thesis
  proof (cases r1)
    case (Inl code)
    with copy s1 c1 len kept show ?thesis by (auto simp: fj_copy_exact_with_def durable_def)
  next
    case (Inr original)
    show ?thesis
    proof (cases "original = fj_byte_length j")
      case False
      with copy s1 Inr c1 poison show ?thesis by (auto simp: fj_copy_exact_with_def durable_def)
    next
      case True
      with copy s1 Inr s2 s3 c2 c3 kept poison show ?thesis
        by (cases r3) (auto simp: fj_copy_exact_with_def durable_def)
    qed
  qed
qed

lemma fj_copy_exact_to_file_ok:
  "fj_ok j \<Longrightarrow> fj_copy_exact_to_file j out = (res, j', out') \<Longrightarrow> fj_ok j' \<and> durable j' = durable j"
  using fj_copy_exact_at [of j copy_retained_bytes_to_file] copy_to_file_content
  unfolding fj_copy_exact_to_file_def by blast

lemma fj_copy_exact_to_new_ok:
  "fj_ok j \<Longrightarrow> fj_copy_exact_to_new new_file j = (res, j', out') \<Longrightarrow> fj_ok j' \<and> durable j' = durable j"
  using fj_copy_exact_at [of j "copy_retained_bytes new_file"] copy_to_new_content
  unfolding fj_copy_exact_to_new_def by blast

section \<open>The interpretation\<close>

lemma new_journal_ok:
  "file_content f = [] \<Longrightarrow> file_cursor f = 0 \<Longrightarrow> fj_ok (new_journal f leaf i ph)"
  by (simp add: new_journal_def fj_ok_def sound_bytes_def tail_ok_def scan_stops)

text \<open>The journals the invariant describes form a type; the operations of the code act on it.\<close>

typedef durable_journal = "{j. fj_ok j}"
  morphisms raw_journal durable_of
  by (rule exI [of _ "new_journal \<lparr>file_content = [], file_cursor = 0, file_leaf = [],
        file_deleted = False, file_script = []\<rparr> [] 0 Active"])
    (simp add: new_journal_ok)

lemma raw_ok [simp]: "fj_ok (raw_journal j)"
  using raw_journal [of j] by simp

lemma raw_durable_of [simp]: "fj_ok j \<Longrightarrow> raw_journal (durable_of j) = j"
  by (simp add: durable_of_inverse)

definition on_raw :: "(file_journal \<Rightarrow> 'r \<times> file_journal) \<Rightarrow> durable_journal \<Rightarrow> 'r \<times> durable_journal" where
  "on_raw f j = map_prod id durable_of (f (raw_journal j))"

definition on_raw_auth ::
  "(file_journal \<Rightarrow> 'r \<times> journal_authorization \<times> file_journal) \<Rightarrow> durable_journal \<Rightarrow>
     'r \<times> journal_authorization \<times> durable_journal" where
  "on_raw_auth f j = map_prod id (map_prod id durable_of) (f (raw_journal j))"

definition file_journal_ops :: "durable_journal journal_ops" where
  "file_journal_ops =
     \<lparr>begin_op = (\<lambda>j p steps. on_raw (\<lambda>j. fj_begin j p steps) j),
      prepared_op = (\<lambda>j i d. on_raw (\<lambda>j. fj_prepared j i d) j),
      completed_op = (\<lambda>j i d. on_raw (\<lambda>j. fj_completed j i d) j),
      not_applied_op = (\<lambda>j i d. on_raw (\<lambda>j. fj_not_applied j i d) j),
      terminal_op = (\<lambda>j t. on_raw (\<lambda>j. fj_terminal j t) j)\<rparr>"

definition file_authorized_ops :: "durable_journal authorized_ops" where
  "file_authorized_ops =
     \<lparr>authorized_snapshot_op = on_raw fj_authorized_snapshot,
      authorized_prepared_op = (\<lambda>j a i d. on_raw_auth (\<lambda>j. fj_authorized_append j a (Prepared i d)) j),
      authorized_completed_op = (\<lambda>j a i d. on_raw_auth (\<lambda>j. fj_authorized_append j a (Completed i d)) j),
      authorized_not_applied_op = (\<lambda>j a i d. on_raw_auth (\<lambda>j. fj_authorized_append j a (NotApplied i d)) j),
      authorized_terminal_op = (\<lambda>j a t. on_raw_auth (\<lambda>j. fj_authorized_append j a (Terminal t)) j)\<rparr>"

definition durable_records :: "durable_journal \<Rightarrow> journal_record list" where
  "durable_records j = durable (raw_journal j)"

lemma on_raw_D:
  assumes "on_raw f j = (res, j')"
  obtains j1 where "f (raw_journal j) = (res, j1)" and "j' = durable_of j1"
  using assms by (cases "f (raw_journal j)") (auto simp: on_raw_def)

lemma on_raw_appended:
  assumes "on_raw (\<lambda>j. fj_append_active j r) j = (res, j')"
  shows "appended_record r (durable_records j) res (durable_records j')"
proof -
  from assms obtain j1 where "fj_append_active (raw_journal j) r = (res, j1)" "j' = durable_of j1"
    by (rule on_raw_D)
  with fj_append_active_at [OF raw_ok] show ?thesis by (simp add: durable_records_def)
qed

lemma on_raw_authorized:
  assumes "on_raw_auth (\<lambda>j. fj_authorized_append j a r) j = (res, a', j')"
  shows "appended_record r (durable_records j) res (durable_records j')"
proof -
  obtain res1 a1 j1 where s: "fj_authorized_append (raw_journal j) a r = (res1, a1, j1)"
    by (cases "fj_authorized_append (raw_journal j) a r") auto
  with assms fj_authorized_append_at [OF raw_ok s] show ?thesis
    by (auto simp: durable_records_def on_raw_auth_def)
qed

lemma on_raw_snapshot:
  assumes "on_raw fj_authorized_snapshot j = (snap, j')"
  shows "durable_records j' = durable_records j \<and>
    (case snap of Inr (rs, _) \<Rightarrow> rs = durable_records j | Inl _ \<Rightarrow> True)"
proof -
  from assms obtain j1 where s: "fj_authorized_snapshot (raw_journal j) = (snap, j1)" "j' = durable_of j1"
    by (rule on_raw_D)
  have d: "\<not> fj_poisoned (raw_journal j) \<Longrightarrow> fj_records (raw_journal j) = durable_records j"
    using fj_ok_durable [OF raw_ok] by (simp add: durable_records_def)
  from s d show ?thesis
    by (auto simp: fj_authorized_snapshot_def fj_require_active_def durable_records_def
        split: if_splits)
qed

interpretation fj: journal_store file_journal_ops durable_records
proof unfold_locales
  fix j p steps res j'
  assume "begin_op file_journal_ops j p steps = (res, j')"
  then obtain j1 where "fj_begin (raw_journal j) p steps = (res, j1)" "j' = durable_of j1"
    by (auto simp: file_journal_ops_def elim: on_raw_D)
  with fj_begin_at [OF raw_ok] show "appended_record (Intent p steps) (durable_records j) res
      (durable_records j') \<and> (durable_records j' \<noteq> durable_records j \<longrightarrow> durable_records j = [])"
    by (simp add: durable_records_def)
qed (simp_all add: file_journal_ops_def fj_prepared_def fj_completed_def fj_not_applied_def
    fj_terminal_def on_raw_appended)

interpretation fja: authorized_journal file_authorized_ops durable_records
  by unfold_locales (simp_all add: file_authorized_ops_def on_raw_authorized on_raw_snapshot)

end
