(* ===== verification/Durable_Recovery.thy ===== *)
theory Durable_Recovery
  imports Crash_Recovery File_Journal_Correct
begin

text \<open>
  Transactions over the durable journal. The executor and the recovery run on the file journal
  through its contract; a crash leaves a file that opens again, unless not even the manifest is
  complete in it, and the opened journal has exactly the records the crash left.
\<close>

section \<open>The ports\<close>

interpretation filex: transaction_ports file_journal_ops durable_records
    "crash_backend_ops memory_backend_ops" mb_path_key "\<lambda>s. mb_occupancy (fst s)"
  by (intro transaction_ports.intro fj.journal_store_axioms crash.rename_backend_axioms)

interpretation filer: recovery_world file_authorized_ops durable_records memory_backend_ops
    mb_path_key mb_occupancy
  by (intro recovery_world.intro fja.authorized_journal_axioms mb.rename_backend_axioms)

section \<open>Opening a file again\<close>

text \<open>The file after a restart: a fresh handle whose calls work, and working clones.\<close>

definition reboot :: "disk_file \<Rightarrow> disk_file" where
  "reboot f = f\<lparr>file_cursor := 0, file_script := []\<rparr>"

definition clones_work :: "open_calls \<Rightarrow> bool" where
  "clones_work calls \<longleftrightarrow> oc_clone_root calls = Inr () \<and> oc_clone_chain calls = Inr ()"

lemma resume_reads:
  assumes "length (file_content f) \<le> MAX_JOURNAL_FILE_BYTES"
  shows "io_then (file_seek 0 (reboot f))
      (\<lambda>_ f. file_read (saturating_add MAX_JOURNAL_FILE_BYTES 1) f) =
    (Inr (file_content f), (reboot f)\<lparr>file_cursor := length (file_content f)\<rparr>)"
proof -
  have "saturating_add MAX_JOURNAL_FILE_BYTES 1 = MAX_JOURNAL_FILE_BYTES + 1"
    by (simp add: saturating_add_def journal_limits)
  with assms show ?thesis
    by (simp add: io_then_def file_seek_def file_change_def next_outcome_def reboot_def
        file_read_def Let_def)
qed

lemma scan_frames_bound:
  "scan bs i off = (rs, e, s) \<Longrightarrow> i \<le> MAX_JOURNAL_FRAMES \<Longrightarrow> i + length rs \<le> MAX_JOURNAL_FRAMES"
proof (induction bs i off arbitrary: rs rule: scan.induct)
  case (1 bs i off)
  show ?case
  proof (cases "off < length bs \<and> (\<exists>r f. inspect_frame bs i off = Framed r f)")
    case True
    then obtain r f where f: "inspect_frame bs i off = Framed r f" by blast
    obtain rs' where rs': "scan bs (Suc i) f = (rs', e, s)" "rs = r # rs'"
      using 1(2) by (cases "scan bs (Suc i) f") (auto simp: scan_framed [OF f])
    have "i < MAX_JOURNAL_FRAMES"
      using f by (auto simp: inspect_frame_def split: if_split_asm)
    with 1(1) [OF _ f rs'(1)] True rs'(2) show ?thesis by simp
  next
    case False
    with 1(2,3) show ?thesis
      by (cases "inspect_frame bs i off") (auto simp: scan.simps [of bs i] split: if_splits)
  qed
qed

lemma scan_at_end: "scan bs i off = (rs, e, AtEnd) \<Longrightarrow> length bs \<le> e"
proof (induction bs i off arbitrary: rs rule: scan.induct)
  case (1 bs i off)
  show ?case
  proof (cases "off < length bs \<and> (\<exists>r f. inspect_frame bs i off = Framed r f)")
    case True
    then obtain r f where f: "inspect_frame bs i off = Framed r f" by blast
    obtain rs' where "scan bs (Suc i) f = (rs', e, AtEnd)"
      using 1(2) by (cases "scan bs (Suc i) f") (auto simp: scan_framed [OF f])
    from 1(1) [OF _ f this] True show ?thesis by simp
  next
    case False
    with 1(2) show ?thesis
      by (cases "inspect_frame bs i off") (auto simp: scan.simps [of bs i] split: if_splits)
  qed
qed

text \<open>A sound file opens to its records, or is the torn begin of a first frame.\<close>

lemma resume_sound:
  assumes s: "sound_bytes (file_content f)" and calls: "clones_work calls"
    and good: "\<not> is_corrupt (replay_journal (fst (scan (file_content f) 0 0)))"
  shows "case fj_resume root calls fresh leaf n (reboot f) of
      Inl e \<Rightarrow> fst (scan (file_content f) 0 0) = [] \<and> file_content f \<noteq> []
    | Inr j \<Rightarrow> fj_ok j \<and> fj_records j = fst (scan (file_content f) 0 0) \<and>
        durable j = fst (scan (file_content f) 0 0) \<and> file_content (fj_file j) = file_content f"
proof -
  let ?c = "file_content f"
  obtain rs e st where sc: "scan ?c 0 0 = (rs, e, st)" by (cases "scan ?c 0 0") auto
  have len: "length ?c \<le> MAX_JOURNAL_FILE_BYTES" using s by (simp add: sound_bytes_def)
  have bound: "length rs \<le> MAX_JOURNAL_FRAMES" using scan_frames_bound [OF sc] by simp
  note read = resume_reads [OF len]
  have ins: "inspect_journal_records ?c = finish_scan (rs, e, st)"
    using inspect_records_scan [OF len] sc by simp
  have seek: "file_seek (length ?c) ((reboot f)\<lparr>file_cursor := length ?c\<rparr>) =
      (Inr (), (reboot f)\<lparr>file_cursor := length ?c\<rparr>)"
    by (simp add: file_seek_def file_change_def next_outcome_def reboot_def)
  have content: "file_content (reboot f) = ?c" by (simp add: reboot_def)
  have nl: "\<not> MAX_JOURNAL_FILE_BYTES < length ?c" using len by simp
  show ?thesis
  proof (cases st)
    case AtEnd
    have e: "e = length ?c" using scan_at_end [OF sc [unfolded AtEnd]] scan_bytes_bound [OF sc] by simp
    have "inspect_journal_records ?c =
        Inr \<lparr>inspected_records = rs, inspected_issue = None, valid_bytes = length ?c\<rparr>"
      using good by (simp add: ins AtEnd finish_scan_def finish_inspection_def sc e)
    then show ?thesis
      using calls s bound sc AtEnd e unfolding fj_resume_def read
      by (simp add: nl seek content clones_work_def Let_def fj_ok_def tail_ok_def
          durable_def sound_bytes_def)
  next
    case (StopTorn t)
    show ?thesis
    proof (cases "rs = []")
      case True
      then have "inspect_journal_records ?c = Inl (codec_error 0 TruncatedFrame)"
        by (simp add: ins StopTorn finish_scan_def finish_inspection_def)
      moreover have "?c \<noteq> []" using sc StopTorn by (auto simp: scan.simps split: if_splits)
      ultimately show ?thesis
        using True sc unfolding fj_resume_def read by (simp add: nl)
    next
      case False
      then have "inspect_journal_records ?c =
          Inr \<lparr>inspected_records = rs, inspected_issue = Some t, valid_bytes = e\<rparr>"
        using good by (simp add: ins StopTorn finish_scan_def finish_inspection_def sc)
      then show ?thesis
        using calls s bound sc StopTorn unfolding fj_resume_def read
        by (simp add: nl seek content clones_work_def Let_def fj_ok_def tail_ok_def
            durable_def sound_bytes_def)
    qed
  next
    case (StopBad err)
    with s sc show ?thesis by (simp add: sound_bytes_def)
  qed
qed

section \<open>Crash, open, recover\<close>

definition file_recovery :: "(memory_backend, durable_journal) recovery_ports" where
  "file_recovery = \<lparr>rp_backend = memory_backend_ops, rp_journal = file_authorized_ops\<rparr>"

lemma file_recovery_ports:
  "rp_journal file_recovery = file_authorized_ops" "rp_backend file_recovery = memory_backend_ops"
  by (simp_all add: file_recovery_def)

text \<open>The file a journal leaves.\<close>

definition journal_file :: "durable_journal \<Rightarrow> disk_file" where
  "journal_file j = fj_file (raw_journal j)"

lemma durable_records_file: "durable_records j = fst (scan (file_content (journal_file j)) 0 0)"
  by (simp add: durable_records_def durable_def journal_file_def)

lemma journal_file_sound: "sound_bytes (file_content (journal_file j))"
  unfolding journal_file_def by (rule fj_ok_sound) simp

text \<open>What recovery may do with the opened journal, on the filesystem a crash left.\<close>

definition recovery_settles ::
  "plan_id \<Rightarrow> path_key occupancy \<Rightarrow> path_key occupancy \<Rightarrow> memory_backend \<Rightarrow> durable_journal \<Rightarrow> bool" where
  "recovery_settles p m0 m1 b j \<longleftrightarrow>
     (case recovery_rollback file_recovery b j of (out, b', j') \<Rightarrow>
        (case out of
           NotRequired \<Rightarrow> mb_occupancy b' = m0 \<or> mb_occupancy b' = m1
         | Recovered q _ \<Rightarrow> q = p \<and> mb_occupancy b' = m0 \<and> replay_journal (durable_records j') = Clean
         | Blocked _ _ \<Rightarrow> mb_occupancy b' = mb_occupancy b \<and> durable_records j' = durable_records j
         | StillRequired q _ \<Rightarrow> q = p \<and>
             crashed_at mb_path_key p m0 m1 (mb_occupancy b') (durable_records j')))"

lemma recovery_settles_clean:
  assumes "replay_journal (durable_records j) = Clean" and "mb_occupancy b = m0 \<or> mb_occupancy b = m1"
  shows "recovery_settles p m0 m1 b j"
proof -
  obtain out b' j' where run: "recovery_rollback file_recovery b j = (out, b', j')"
    by (metis prod_cases3)
  from filer.recovery_of_settled [OF assms(1) run file_recovery_ports] assms(2) show ?thesis
    by (cases out) (simp_all add: recovery_settles_def run)
qed

lemma recovery_settles_crashed:
  assumes "crashed_at mb_path_key p m0 m1 (mb_occupancy b) (durable_records j)"
  shows "recovery_settles p m0 m1 b j"
proof -
  obtain out b' j' where run: "recovery_rollback file_recovery b j = (out, b', j')"
    by (metis prod_cases3)
  from filer.recovery_of_crash [OF assms run file_recovery_ports] show ?thesis
    by (cases out) (auto simp: recovery_settles_def run)
qed

lemma crashed_at_not_corrupt: "crashed_at loc p m0 m1 m rs \<Longrightarrow> \<not> is_corrupt (replay_journal rs)"
  by (auto simp: crashed_at_def transaction_at_def replay_run)

text \<open>
  The whole story: execute, die anywhere, open the file again, recover.
\<close>

lemma durable_transaction:
  assumes plan: "memory_plan F plan" "plan_ready mb_path_key (mb_occupancy b) plan"
    and fresh: "durable_records (w_journal w) = []" and w: "w_backend w = (b, kb)"
    and P: "port_journal P = file_journal_ops" "port_backend P = crash_backend_ops memory_backend_ops"
    and run: "execute_with_control P plan w = (res, w')"
    and calls: "clones_work calls"
  defines "m0 \<equiv> mb_occupancy b" and "m1 \<equiv> renamed_occupancy mb_path_key plan (mb_occupancy b)"
    and "b' \<equiv> fst (w_backend w')" and "f \<equiv> journal_file (w_journal w')"
  shows "case fj_resume root calls nonce leaf n (reboot f) of
      Inl _ \<Rightarrow> mb_occupancy b' = m0
    | Inr j \<Rightarrow> fj_ok j \<and> fj_records j = durable_records (w_journal w') \<and>
        durable_records (durable_of j) = durable_records (w_journal w') \<and>
        recovery_settles (plan_id_of plan) m0 m1 b' (durable_of j)"
proof -
  have ready: "plan_ready mb_path_key (mb_occupancy (fst (w_backend w))) plan" using plan(2) w by simp
  note left = filex.execute_leaves [OF memory_plan_crash_located [OF plan(1)] ready fresh run P]
  then consider
    (clean) "mb_occupancy b' = m0 \<or> mb_occupancy b' = m1 \<and> durable_records (w_journal w') \<noteq> []"
      "replay_journal (durable_records (w_journal w')) = Clean"
    | (crash) "crashed_at mb_path_key (plan_id_of plan) m0 m1 (mb_occupancy b')
        (durable_records (w_journal w'))"
    using w by (auto simp: m0_def m1_def b'_def)
  note left = this
  have good: "\<not> is_corrupt (replay_journal (fst (scan (file_content f) 0 0)))"
    using left by cases (auto simp: f_def durable_records_file [symmetric] dest: crashed_at_not_corrupt)
  have "sound_bytes (file_content f)" unfolding f_def by (rule journal_file_sound)
  note resumed = resume_sound [OF this calls good, of root nonce leaf n]
  show ?thesis
  proof (cases "fj_resume root calls nonce leaf n (reboot f)")
    case (Inl e)
    with resumed have none: "durable_records (w_journal w') = []"
      by (simp add: f_def durable_records_file)
    from left have "mb_occupancy b' = m0"
    proof cases
      case crash
      with none show ?thesis by (simp add: crashed_at_def transaction_at_def)
    qed (use none in simp)
    with Inl show ?thesis by simp
  next
    case (Inr j)
    with resumed have j: "fj_ok j" "fj_records j = durable_records (w_journal w')" "durable_records (durable_of j) = durable_records (w_journal w')"
      by (simp_all add: durable_records_def durable_def f_def journal_file_def)
    from left have "recovery_settles (plan_id_of plan) m0 m1 b' (durable_of j)"
    proof cases
      case clean
      then show ?thesis using j(3) by (intro recovery_settles_clean) auto
    next
      case crash
      then show ?thesis using j(3) by (intro recovery_settles_crashed) simp
    qed
    with Inr j show ?thesis by simp
  qed
qed

end
