(* ===== verification/Durable_Claims.thy ===== *)
theory Durable_Claims
  imports Durable_Recovery Rename_Claims
begin

text \<open>
  The claims about the durable journal: its codec, the file behind it and the transactions that
  run over it, each with a witness on the journal of a two-file swap.
\<close>

section \<open>The codec\<close>

definition sample_step :: journal_step where
  "sample_step = with_move_authorization
     (journal_step_new 7 (file_path 97) (file_path 99) (file_identity 1) folder_identity folder_identity
       IntoTemporary) Directory SameParent"

definition sample_records :: "journal_record list" where
  "sample_records = [Intent 5 [sample_step], Prepared 0 Forward, Completed 0 Forward, Terminal Committed]"

lemma sample_encodable: "encodable_journal sample_records"
  by (simp add: encodable_journal_def sample_records_def journal_limits sample_step_def
      encodable_step_def with_move_authorization_def journal_step_new_def manifest_bytes_def
      step_bytes_def file_path_def length_frame_image length_steps_image)

lemma sample_clean: "replay_journal sample_records = Clean"
  by (simp add: sample_records_def replay_journal_def replay_start_def transition_defs replay_end_def
      terminal_valid_def insort_insert_key_def)

text \<open>
  C21: the codec is a round trip. Whatever journal the encoder accepts, decoding its bytes gives the
  records back, and fails with the transition error exactly for the journals replay calls corrupt.
\<close>

theorem journal_roundtrip:
  assumes "encode_journal_records records = Inr bytes"
  shows "decode_journal_records bytes =
    (if is_corrupt (replay_journal records)
     then Inl (codec_error (length records - 1) InvalidTransitions) else Inr records)"
proof -
  from assms have j: "encodable_journal records" and b: "bytes = stream_image 0 records"
    by (simp_all add: encode_journal_Inr)
  show ?thesis
    by (simp add: decode_journal_records_def b inspect_stream [OF j] finish_inspection_def saturating_sub_def)
qed

theorem journal_roundtrip_witness:
  "decode_journal_records (stream_image 0 sample_records) = Inr sample_records"
proof -
  have "encode_journal_records sample_records = Inr (stream_image 0 sample_records)"
    by (simp add: encode_journal_Inr sample_encodable)
  from journal_roundtrip [OF this] show ?thesis by (simp add: sample_clean)
qed

text \<open>The inspection of a journal that was cut off inside the frame of its record \<open>n\<close>.\<close>

lemma torn_frame_inspected:
  assumes j: "encodable_journal records" and b: "bytes = stream_image 0 records"
    and clean: "\<not> is_corrupt (replay_journal records)"
    and n: "n < length records" and m: "0 < m" "m < length (frame_image n (records ! n))"
    and cut: "take k bytes = stream_image 0 (take n records) @ take m (frame_image n (records ! n))"
    and v: "v = length (stream_image 0 (take n records))" and k: "k = v + m"
  shows "encode_journal_records (take n records) = Inr (take v bytes)"
    and "\<exists>x. k < x \<and> x \<le> length bytes \<and> encode_journal_records (take (Suc n) records) = Inr (take x bytes)"
    and "inspect_journal_records (take k bytes) =
      (if n = 0 then Inl (codec_error 0 TruncatedFrame)
       else Inr \<lparr>inspected_records = take n records, inspected_issue = Some (torn_at m), valid_bytes = v\<rparr>)"
proof -
  have enc: "encodable_journal (take i records)" for i
    using encodable_journal_append [of "take i records" "drop i records"] j by simp
  have pre: "encode_journal_records (take i records) = Inr (take (length (stream_image 0 (take i records))) bytes)" for i
    using stream_image_append [of 0 "take i records" "drop i records"] enc [of i] by (simp add: b encode_journal_Inr)
  show "encode_journal_records (take n records) = Inr (take v bytes)" using pre [of n] by (simp add: v)
  have snoc: "take (Suc n) records = take n records @ [records ! n]" using n by (simp add: take_Suc_conv_app_nth)
  define x where "x = length (stream_image 0 (take (Suc n) records))"
  have "x = v + length (frame_image n (records ! n))"
    using n by (simp add: x_def v snoc stream_image_append min_def)
  moreover have "x \<le> length bytes"
    using stream_image_append [of 0 "take (Suc n) records" "drop (Suc n) records"] by (simp add: b x_def)
  ultimately show "\<exists>x. k < x \<and> x \<le> length bytes \<and> encode_journal_records (take (Suc n) records) = Inr (take x bytes)"
    using pre [of "Suc n"] m(2) k by (intro exI [of _ x]) (simp add: x_def)
  have "length (take n records) = n" using n by simp
  then have "inspect_journal_records (take k bytes) = finish_inspection (take n records) (Some (torn_at m)) v"
    using inspect_torn_stream [of "take n records" "records ! n" m] enc [of "Suc n"] m snoc by (simp add: v cut)
  moreover have "take n records = [] \<longleftrightarrow> n = 0" using n by auto
  moreover have "\<not> is_corrupt (replay_journal (take n records))"
    using replay_prefix [of "take n records" "drop n records"] clean by simp
  ultimately show "inspect_journal_records (take k bytes) =
      (if n = 0 then Inl (codec_error 0 TruncatedFrame)
       else Inr \<lparr>inspected_records = take n records, inspected_issue = Some (torn_at m), valid_bytes = v\<rparr>)"
    by (simp add: finish_inspection_def)
qed

text \<open>
  C23: a write that is cut off anywhere loses only whole records from the end. The first \<open>k\<close> bytes
  of an encoded journal are opened as the records whose frames are complete in them, the most
  records that fit; the rest is named as a torn header or a torn payload with the length to cut
  back to, and only a file in which not even the first frame is complete is refused.
\<close>

theorem torn_write_keeps_records:
  assumes "encode_journal_records records = Inr bytes"
    and "\<not> is_corrupt (replay_journal records)" and "k \<le> length bytes"
  shows "\<exists>n v. n \<le> length records \<and> v \<le> k \<and>
    encode_journal_records (take n records) = Inr (take v bytes) \<and>
    (v = k \<or> n < length records \<and> (\<exists>x. k < x \<and> x \<le> length bytes \<and>
       encode_journal_records (take (Suc n) records) = Inr (take x bytes))) \<and>
    inspect_journal_records (take k bytes) =
      (if v = k then Inr \<lparr>inspected_records = take n records, inspected_issue = None, valid_bytes = v\<rparr>
       else if n = 0 then Inl (codec_error 0 TruncatedFrame)
       else Inr \<lparr>inspected_records = take n records,
         inspected_issue = Some (if k - v < 24 then TruncatedHeader else TruncatedPayload),
         valid_bytes = v\<rparr>)"
proof -
  from assms(1) have j: "encodable_journal records" and b: "bytes = stream_image 0 records"
    by (simp_all add: encode_journal_Inr)
  from stream_prefix_cases [OF assms(3) [unfolded b]]
  consider (whole) n where "n \<le> length records" "take k bytes = stream_image 0 (take n records)"
      "k = length (stream_image 0 (take n records))"
    | (torn) n m where "n < length records" "0 < m" "m < length (frame_image n (records ! n))"
      "take k bytes = stream_image 0 (take n records) @ take m (frame_image n (records ! n))"
      "k = length (stream_image 0 (take n records)) + m"
    unfolding b by (metis add_0)
  then show ?thesis
  proof cases
    case whole
    have enc: "encodable_journal (take n records)" and good: "\<not> is_corrupt (replay_journal (take n records))"
      using encodable_journal_append [of "take n records" "drop n records"] j
        replay_prefix [of "take n records" "drop n records"] assms(2) by simp_all
    have "inspect_journal_records (take k bytes) =
        Inr \<lparr>inspected_records = take n records, inspected_issue = None, valid_bytes = k\<rparr>"
      by (simp add: whole(2) inspect_stream [OF enc] finish_inspection_def good) (simp add: whole(3))
    with whole enc show ?thesis by (intro exI [of _ n] exI [of _ k]) (simp add: encode_journal_Inr)
  next
    case torn
    define v where "v = length (stream_image 0 (take n records))"
    have k: "k = v + m" using torn(5) by (simp add: v_def)
    note inspected = torn_frame_inspected [OF j b assms(2) torn(1-4) v_def k]
    have "v \<noteq> k" "v \<le> k" "k - v = m" using torn(2) by (simp_all add: k)
    then show ?thesis
      by (intro exI [of _ n] exI [of _ v]) (use torn(1) inspected in \<open>simp add: torn_at_def\<close>)
  qed
qed

theorem torn_write_keeps_records_witness:
  "\<exists>n v. n \<le> length sample_records \<and> v \<le> 30 \<and>
    encode_journal_records (take n sample_records) = Inr (take v (stream_image 0 sample_records)) \<and>
    (v = 30 \<or> n < length sample_records \<and>
      (\<exists>x. 30 < x \<and> x \<le> length (stream_image 0 sample_records) \<and>
        encode_journal_records (take (Suc n) sample_records) = Inr (take x (stream_image 0 sample_records))))"
proof -
  have e: "encode_journal_records sample_records = Inr (stream_image 0 sample_records)"
    by (simp add: encode_journal_Inr sample_encodable)
  have "30 \<le> length (stream_image 0 sample_records)"
    by (simp add: sample_records_def length_frame_image)
  from torn_write_keeps_records [OF e _ this] sample_clean show ?thesis by (metis is_corrupt_simps(1))
qed

section \<open>The file journal\<close>

text \<open>
  C20: what was acknowledged survives. Whatever the system calls do during any sequence of journal
  calls, the file ends with the records that were there, then every acknowledged record in order,
  then at most one record whose call failed, and then the journal refuses further writes. Opened
  after a restart, the file yields exactly these records, if replay accepts them and there is one.
\<close>

theorem acknowledged_records_survive:
  assumes "fj_ok j" and "fj_writes calls j = (results, j')"
  shows "fj_ok j' \<and> (\<exists>extra. length extra \<le> 1 \<and> set extra \<subseteq> set calls \<and>
    durable j' = durable j @ acknowledged calls results @ extra \<and>
    (extra \<noteq> [] \<longrightarrow> fj_poisoned j') \<and>
    (durable j' \<noteq> [] \<and> \<not> is_corrupt (replay_journal (durable j')) \<and> clones_work os \<longrightarrow>
      (\<exists>j2. fj_resume root os nonce leaf n (reboot (fj_file j')) = Inr j2 \<and> fj_ok j2 \<and>
        fj_records j2 = durable j @ acknowledged calls results @ extra)))"
proof -
  from fj_writes_at [OF assms] obtain extra where ok: "fj_ok j'" and
    ex: "length extra \<le> 1" "set extra \<subseteq> set calls"
      "durable j' = durable j @ acknowledged calls results @ extra" "extra \<noteq> [] \<longrightarrow> fj_poisoned j'" by auto
  have "\<exists>j2. fj_resume root os nonce leaf n (reboot (fj_file j')) = Inr j2 \<and> fj_ok j2 \<and>
      fj_records j2 = durable j'"
    if "durable j' \<noteq> []" "\<not> is_corrupt (replay_journal (durable j'))" "clones_work os"
    using resume_sound [OF fj_ok_sound [OF ok] that(3), of root nonce leaf n] that(1,2)
    by (cases "fj_resume root os nonce leaf n (reboot (fj_file j'))") (auto simp: durable_def)
  with ok ex show ?thesis by auto
qed

text \<open>A new file whose fifth system call fails after 20 bytes, with native code 112.\<close>

definition failing_file :: disk_file where
  "failing_file = \<lparr>file_content = [], file_cursor = 0, file_leaf = file_path 106, file_deleted = False,
     file_script = [Io_Works, Io_Works, Io_Works, Io_Works, Io_Fails 20 (Some 112)]\<rparr>"

definition failing_journal :: file_journal where
  "failing_journal = new_journal failing_file (file_path 106) 9 Active"

lemma failing_journal_ok: "fj_ok failing_journal" "durable failing_journal = []"
proof -
  show "fj_ok failing_journal"
    unfolding failing_journal_def by (rule new_journal_ok) (simp_all add: failing_file_def)
  show "durable failing_journal = []"
    by (simp add: durable_def failing_journal_def new_journal_def failing_file_def scan_stops)
qed

definition working_os :: open_calls where
  "working_os = \<lparr>oc_link = Inr (False, False), oc_open = Inr failing_file,
     oc_metadata = Inr (0, True, False), oc_validate = Inr (), oc_single_link = Inr True,
     oc_clone_root = Inr (), oc_clone_chain = Inr ()\<rparr>"

definition private_root :: journal_root where
  "private_root = \<lparr>root_identity = 1, root_private = True\<rparr>"

theorem acknowledged_records_survive_witness:
  "case fj_writes sample_records failing_journal of (results, j') \<Rightarrow> fj_ok j' \<and>
    (\<exists>extra. length extra \<le> 1 \<and> durable j' = acknowledged sample_records results @ extra)"
proof -
  obtain results j' where run: "fj_writes sample_records failing_journal = (results, j')"
    by (cases "fj_writes sample_records failing_journal")
  from acknowledged_records_survive [OF failing_journal_ok(1) run, of working_os private_root 3 "[]" 0]
  obtain extra where "fj_ok j'" "length extra \<le> 1" "durable j' = acknowledged sample_records results @ extra"
    by (auto simp: failing_journal_ok(2))
  then show ?thesis by (auto simp: run)
qed

text \<open>
  C24: a journal is only deleted when nothing depends on it: no records, a transaction with a valid
  terminal record, or a candidate that holds just its manifest while the active name is absent.
\<close>

theorem journal_deletion_safe:
  assumes "fj_ok j" and "\<not> file_deleted (fj_file j)"
    and "(res, j') = fj_mark_delete_if_safe j \<or> (res, j') = fj_mark_unactivated_intent_delete probe j"
    and "file_deleted (fj_file j')"
  shows "durable j = [] \<or> (\<exists>t. journal_run (durable j) (Closed t)) \<or>
    (\<exists>p steps active. durable j = [Intent p steps] \<and> fj_phase j = Candidate active \<and>
      (probe = Inl (Some 2) \<or> probe = Inl (Some 3)))"
proof -
  have kept: False if "j' = j" using that assms(2,4) by simp
  from assms(3) show ?thesis
  proof
    assume d: "(res, j') = fj_mark_delete_if_safe j"
    then have "fj_delete_safe j" using kept by (auto simp: fj_mark_delete_if_safe_def split: if_splits)
    with fj_delete_safe_settled [OF assms(1)] show ?thesis by blast
  next
    assume d: "(res, j') = fj_mark_unactivated_intent_delete probe j"
    then have c: "is_complete_intent_candidate j" "is_candidate j"
      and p: "probe = Inl (Some 2) \<or> probe = Inl (Some 3)"
      using kept by (auto simp: fj_mark_unactivated_intent_delete_def split: if_splits sum.splits)
    then have "durable j = fj_records j"
      by (intro fj_ok_durable [OF assms(1)]) (simp add: is_complete_intent_candidate_def)
    with c p show ?thesis
      by (auto simp: is_complete_intent_candidate_def single_intent_iff is_candidate_def
          split: file_journal_phase.splits)
  qed
qed

theorem journal_deletion_safe_witness:
  "file_deleted (fj_file (snd (fj_mark_delete_if_safe failing_journal))) \<and>
   (durable failing_journal = [] \<or> (\<exists>t. journal_run (durable failing_journal) (Closed t)))"
proof -
  have del: "file_deleted (fj_file (snd (fj_mark_delete_if_safe failing_journal)))"
    by (simp add: fj_mark_delete_if_safe_def fj_delete_safe_def failing_journal_def new_journal_def
        failing_file_def mark_retained_file_delete_def file_mark_delete_def file_change_def next_outcome_def)
  have kept: "\<not> file_deleted (fj_file failing_journal)"
    by (simp add: failing_journal_def new_journal_def failing_file_def)
  have "(fst (fj_mark_delete_if_safe failing_journal), snd (fj_mark_delete_if_safe failing_journal)) =
      fj_mark_delete_if_safe failing_journal" by simp
  from journal_deletion_safe [OF failing_journal_ok(1) kept disjI1 [OF this] del, of "Inr ()"] del
  show ?thesis by simp
qed

section \<open>Transactions over the file\<close>

text \<open>
  C5: a crash anywhere, on durable ports. Execute a plan with the file journal, let any system call
  fail and the process die after any number of renames, restart and open the journal file again.
  Either the file does not open, and then nothing was renamed, or the opened journal has exactly
  the records the crash left, and recovery with it ends with all rows renamed or with the
  filesystem of before, or stops without a change, or leaves a state it can be run on again.
\<close>

theorem durable_crash_recovery:
  assumes "memory_plan F plan" and "plan_ready mb_path_key (mb_occupancy b) plan"
    and "durable_records (w_journal w) = []" and "w_backend w = (b, kb)"
    and "port_journal P = file_journal_ops"
    and "port_backend P = crash_backend_ops memory_backend_ops"
    and "clones_work os"
  shows "case execute_with_control P plan w of (_, w') \<Rightarrow>
    (case fj_resume root os nonce leaf n (reboot (journal_file (w_journal w'))) of
       Inl _ \<Rightarrow> mb_occupancy (fst (w_backend w')) = mb_occupancy b
     | Inr j \<Rightarrow> fj_records j = durable_records (w_journal w') \<and>
        (case recovery_rollback file_recovery (fst (w_backend w')) (durable_of j) of (out, b', j') \<Rightarrow>
          (case out of
             NotRequired \<Rightarrow> mb_occupancy b' = mb_occupancy b \<or>
               mb_occupancy b' = renamed_occupancy mb_path_key plan (mb_occupancy b)
           | Recovered q _ \<Rightarrow> q = plan_id_of plan \<and> mb_occupancy b' = mb_occupancy b \<and>
               replay_journal (durable_records j') = Clean
           | Blocked _ _ \<Rightarrow> mb_occupancy b' = mb_occupancy (fst (w_backend w')) \<and>
               durable_records j' = durable_records (durable_of j)
           | StillRequired q _ \<Rightarrow> q = plan_id_of plan \<and> crashed_at mb_path_key q (mb_occupancy b)
               (renamed_occupancy mb_path_key plan (mb_occupancy b)) (mb_occupancy b')
               (durable_records j'))))"
proof -
  obtain res w' where run: "execute_with_control P plan w = (res, w')"
    by (cases "execute_with_control P plan w")
  note d = durable_transaction [OF assms(1-6) run assms(7), of root nonce leaf n]
  show ?thesis
  proof (cases "fj_resume root os nonce leaf n (reboot (journal_file (w_journal w')))")
    case (Inl e)
    with d show ?thesis by (simp add: run)
  next
    case (Inr j)
    obtain out b' j' where rec: "recovery_rollback file_recovery (fst (w_backend w')) (durable_of j) =
        (out, b', j')" by (metis prod_cases3)
    from d Inr have "fj_records j = durable_records (w_journal w')"
      and "recovery_settles (plan_id_of plan) (mb_occupancy b)
        (renamed_occupancy mb_path_key plan (mb_occupancy b)) (fst (w_backend w')) (durable_of j)"
      by simp_all
    then show ?thesis by (cases out) (simp_all add: run Inr rec recovery_settles_def)
  qed
qed

definition durable_ports :: "(memory_backend \<times> nat, durable_journal) ports" where
  "durable_ports = \<lparr>port_backend = crash_backend_ops memory_backend_ops,
     port_journal = file_journal_ops, port_control = noop_control\<rparr>"

definition durable_world :: "nat \<Rightarrow> (memory_backend \<times> nat, durable_journal) world" where
  "durable_world kb = \<lparr>w_backend = (swap_backend, kb), w_journal = durable_of failing_journal,
     w_polls = 0, w_progress = []\<rparr>"

theorem durable_crash_recovery_witness:
  "case execute_with_control durable_ports swap_plan (durable_world 2) of (_, w') \<Rightarrow>
    (case fj_resume private_root working_os 3 [] 0 (reboot (journal_file (w_journal w'))) of
       Inl _ \<Rightarrow> mb_occupancy (fst (w_backend w')) = mb_occupancy swap_backend
     | Inr j \<Rightarrow> fj_records j = durable_records (w_journal w'))"
proof -
  obtain res w' where run: "execute_with_control durable_ports swap_plan (durable_world 2) = (res, w')"
    by (cases "execute_with_control durable_ports swap_plan (durable_world 2)")
  have fresh: "durable_records (w_journal (durable_world 2)) = []"
    and backend: "w_backend (durable_world 2) = (swap_backend, 2)"
    by (simp_all add: durable_world_def durable_records_def failing_journal_ok)
  have ports: "port_journal durable_ports = file_journal_ops"
    "port_backend durable_ports = crash_backend_ops memory_backend_ops" "clones_work working_os"
    by (simp_all add: durable_ports_def clones_work_def working_os_def)
  show ?thesis
    using durable_crash_recovery [OF swap_memory_plan swap_plan_ready fresh backend ports,
      of private_root 3 "[]" 0]
    by (cases "fj_resume private_root working_os 3 [] 0 (reboot (journal_file (w_journal w')))")
      (simp_all add: run)
qed

end
