(* ===== verification/Report_Correct.thy ===== *)
theory Report_Correct
  imports Rename_Executor
begin

text \<open>
  The per-entry results of a completed run, over any ports: the schedule ends every row with a
  step that is not a move to a temporary name, so a completed report has one entry per row of the
  plan, in its order, and every entry is applied. The user interface updates its list only then.
\<close>

section \<open>The last step of an entry\<close>

text \<open>The state the forward steps leave an entry in.\<close>

definition final_state :: "schedule_step list \<Rightarrow> entry_id \<Rightarrow> rename_state" where
  "final_state steps e =
     foldl (\<lambda>s st. if sched_entry st = e then forward_state (sched_phase st) else s) Restored steps"

lemma final_state_Nil [simp]: "final_state [] e = Restored"
  by (simp add: final_state_def)

lemma final_state_snoc [simp]:
  "final_state (steps @ [st]) e =
     (if sched_entry st = e then forward_state (sched_phase st) else final_state steps e)"
  by (simp add: final_state_def)

lemma final_state_snoc_fun:
  "final_state (steps @ [st]) = (final_state steps)(sched_entry st := forward_state (sched_phase st))"
  by (rule ext) auto

text \<open>The rows that left the set of remaining indices are applied.\<close>

definition finished :: "rename_plan \<Rightarrow> schedule_state \<Rightarrow> bool" where
  "finished plan s \<longleftrightarrow> distinct (ss_indices s) \<and> ss_remaining s = length (ss_indices s) \<and>
     set (ss_indices s) \<subseteq> {..<length (plan_entries plan)} \<and>
     (\<forall>i<length (plan_entries plan). i \<notin> set (ss_indices s) \<longrightarrow>
        final_state (ss_out s) (row_id (plan_entries plan ! i)) = Applied)"

lemma finished_fields [simp]:
  "finished plan (s\<lparr>ss_ready := r\<rparr>) = finished plan s"
  "finished plan (s\<lparr>ss_polls := n\<rparr>) = finished plan s"
  "finished plan (s\<lparr>ss_reserved := R\<rparr>) = finished plan s"
  by (simp_all add: finished_def)

lemma finish_row_finished:
  assumes ids: "distinct (map row_id (plan_entries plan))" and s: "finished plan s"
    and f: "finish_row i (s\<lparr>ss_out := ss_out s @ [st]\<rparr>) = Inr s'"
    and st: "sched_entry st = row_id (plan_entries plan ! i)" "sched_phase st \<noteq> IntoTemporary"
  shows "finished plan s'"
proof -
  from f have i: "i \<in> set (ss_indices s)" and
    s': "ss_indices s' = remove1 i (ss_indices s)" "ss_remaining s' = wrapping_sub (ss_remaining s) 1"
      "ss_out s' = ss_out s @ [st]"
    by (auto simp: finish_row_def split: if_splits)
  have applied: "forward_state (sched_phase st) = Applied"
    using st(2) by (simp add: forward_state_def split: temporary_phase.splits)
  have "1 \<le> length (ss_indices s)" using i by (cases "ss_indices s") auto
  then have wrap: "wrapping_sub (length (ss_indices s)) 1 = length (ss_indices s) - 1" by simp
  have other: "row_id (plan_entries plan ! j) \<noteq> row_id (plan_entries plan ! i)"
    if "j \<noteq> i" "j < length (plan_entries plan)" for j
    using ids that i s by (auto simp: distinct_conv_nth finished_def)
  show ?thesis
    using s i wrap applied other st(1)
    by (auto simp: finished_def s' length_remove1 set_remove1_eq)
qed

lemma push_direct_finished:
  assumes "distinct (map row_id (plan_entries plan))" and "finished plan s"
    and p: "push_direct plan i s = Inr s'"
  shows "finished plan s'"
proof -
  from p obtain st where d: "direct_step (plan_entries plan ! i) (plan_scope plan) = Inr st"
    and f: "finish_row i (s\<lparr>ss_out := ss_out s @ [st]\<rparr>) = Inr s'"
    by (auto simp: push_direct_def and_then_Inr split: if_splits)
  from d have "sched_entry st = row_id (plan_entries plan ! i)" "sched_phase st \<noteq> IntoTemporary"
    by (auto simp: direct_step_def and_then_Inr)
  with finish_row_finished [OF assms(1,2) f] show ?thesis by blast
qed

lemma cycle_walk_finished:
  "distinct (map row_id (plan_entries plan)) \<Longrightarrow> finished plan s \<Longrightarrow> cycle_walk cancel plan preds pivot freed s = Inr s' \<Longrightarrow> finished plan s'"
proof (induction cancel plan preds pivot freed s rule: cycle_walk.induct)
  case (1 cancel plan preds pivot freed s)
  show ?case
  proof (cases "preds ! freed")
    case None
    with 1(3,4) show ?thesis by (simp add: cycle_walk.simps [of cancel plan preds pivot freed])
  next
    case (Some i)
    show ?thesis
    proof (cases "check_cancelled cancel (ss_polls s)")
      case (Inl e)
      with Some 1(4) show ?thesis by (simp add: cycle_walk.simps [of cancel plan preds pivot freed])
    next
      case (Inr polls)
      show ?thesis
      proof (cases "i = pivot")
        case True
        with Some Inr 1(3,4) show ?thesis
          by (auto simp: cycle_walk.simps [of cancel plan preds pivot freed])
      next
        case False
        with Some Inr 1(4) obtain s1 where s1: "push_direct plan i (s\<lparr>ss_polls := polls\<rparr>) = Inr s1"
          and rest: "cycle_walk cancel plan preds pivot i s1 = Inr s'"
          by (auto simp: cycle_walk.simps [of cancel plan preds pivot freed] split: sum.splits)
        have "finished plan s1" using push_direct_finished [OF 1(2) _ s1] 1(3) by simp
        from 1(1) [OF Some Inr False s1 1(2) this rest] show ?thesis .
      qed
    qed
  qed
qed

lemma loop_iteration_finished:
  assumes ids: "distinct (map row_id (plan_entries plan))" and s: "finished plan s"
    and it: "loop_iteration cancel ops plan preds s b = (Inr s', b')"
  shows "finished plan s'"
proof -
  obtain polls where c: "check_cancelled cancel (ss_polls s) = Inr polls"
    using it by (cases "check_cancelled cancel (ss_polls s)") (auto simp: loop_iteration_def)
  let ?s = "s\<lparr>ss_polls := polls\<rparr>"
  show ?thesis
  proof (cases "ss_ready s")
    case (Cons i rest)
    with it c obtain s1 where "push_direct plan i (?s\<lparr>ss_ready := rest\<rparr>) = Inr s1"
      "s' = s1 \<or> (\<exists>r. s' = s1\<lparr>ss_ready := r\<rparr>)"
      by (auto simp: loop_iteration_def ready_iteration_def and_then_Inr split: option.splits if_splits)
    with push_direct_finished [OF ids _ this(1)] s show ?thesis by auto
  next
    case Nil
    with it c have cy: "cycle_iteration cancel ops plan preds ?s b = (Inr s', b')"
      by (simp add: loop_iteration_def)
    then obtain pivot more where p: "ss_indices s = pivot # more"
      by (cases "ss_indices s") (auto simp: cycle_iteration_def)
    from cy p obtain temporary reserved n ident s1 where
      walk: "cycle_walk cancel plan preds pivot pivot (?s\<lparr>ss_reserved := reserved, ss_polls := n,
         ss_out := ss_out s @ [into_temporary (plan_entries plan ! pivot) (plan_scope plan) temporary ident]\<rparr>)
         = Inr s1"
      and fin: "finish_row pivot (s1\<lparr>ss_out := ss_out s1 @
         [from_temporary (plan_entries plan ! pivot) (plan_scope plan) temporary ident]\<rparr>) = Inr s'"
      by (auto simp: cycle_iteration_def Let_def and_then_Inr split: sum.splits prod.splits)
    have "finished plan (s\<lparr>ss_out := ss_out s @
        [into_temporary (plan_entries plan ! pivot) (plan_scope plan) temporary ident]\<rparr>)"
    proof -
      have "row_id (plan_entries plan ! pivot) \<noteq> row_id (plan_entries plan ! j)"
        if "j < length (plan_entries plan)" "j \<notin> set (ss_indices s)" for j
      proof -
        have "pivot < length (plan_entries plan)" "j \<noteq> pivot"
          using s p that by (auto simp: finished_def)
        with ids that show ?thesis by (auto simp: distinct_conv_nth)
      qed
      with s show ?thesis by (auto simp: finished_def into_temporary_def)
    qed
    then have "finished plan (?s\<lparr>ss_reserved := reserved, ss_polls := n, ss_out := ss_out s @
        [into_temporary (plan_entries plan ! pivot) (plan_scope plan) temporary ident]\<rparr>)"
      by (simp add: finished_def)
    from cycle_walk_finished [OF ids this walk] have "finished plan s1" .
    from finish_row_finished [OF ids this fin] show ?thesis by (simp add: from_temporary_def)
  qed
qed

lemma schedule_loop_finished:
  assumes ids: "distinct (map row_id (plan_entries plan))"
  shows "finished plan s \<Longrightarrow> schedule_loop cancel ops plan preds s b = (Inr s', b') \<Longrightarrow>
    finished plan s' \<and> ss_indices s' = []"
proof (induction "length (ss_indices s)" arbitrary: s b rule: less_induct)
  case less
  show ?case
  proof (cases "ss_remaining s = 0")
    case True
    with less.prems show ?thesis by (auto simp: schedule_loop.simps [of _ _ _ _ s] finished_def)
  next
    case False
    with less.prems(2) obtain s1 b1 where it: "loop_iteration cancel ops plan preds s b = (Inr s1, b1)"
      and rest: "schedule_loop cancel ops plan preds s1 b1 = (Inr s', b')"
      by (auto simp: schedule_loop.simps [of _ _ _ _ s] split: prod.splits sum.splits)
    from less.hyps [OF loop_iteration_shrinks [OF it] loop_iteration_finished [OF ids less.prems(1) it] rest]
    show ?thesis .
  qed
qed

lemma build_schedule_finished:
  assumes ids: "distinct (map row_id (plan_entries plan))"
    and b: "build_schedule_cancellable cancel ops plan b = (Inr (steps, n), b')"
    and row: "row \<in> set (plan_entries plan)"
  shows "final_state steps (row_id row) = Applied"
proof -
  from b obtain preds s s' where start: "schedule_start cancel plan = Inr (preds, s)"
    and lp: "schedule_loop cancel ops plan preds s b = (Inr s', b')" and out: "steps = ss_out s'"
    by (auto simp: build_schedule_cancellable_def split: sum.splits prod.splits)
  have "finished plan s"
    using start by (auto simp: schedule_start_def and_then_Inr Let_def finished_def)
  from schedule_loop_finished [OF ids this lp] row show ?thesis
    by (auto simp: finished_def out in_set_conv_nth)
qed

section \<open>The indexed results\<close>

text \<open>The results hold one entry per row, in the state a function gives for its identifier.\<close>

definition results_at ::
  "plan_row list \<Rightarrow> indexed_executions \<Rightarrow> (entry_id \<Rightarrow> rename_state) \<Rightarrow> bool" where
  "results_at rows ix f \<longleftrightarrow>
     ix_values ix = map (\<lambda>row. \<lparr>exec_entry = row_id row, exec_state = f (row_id row)\<rparr>) rows \<and>
     (\<forall>e i. ix_by_id ix e = Some i \<longleftrightarrow> i < length rows \<and> row_id (rows ! i) = e)"

lemma from_plan_loop_at:
  assumes "from_plan_loop rows ix = Inr ix'" and "results_at before ix (\<lambda>_. Restored)"
    and "distinct (map row_id before)"
  shows "results_at (before @ rows) ix' (\<lambda>_. Restored) \<and> distinct (map row_id (before @ rows))"
  using assms
proof (induction rows arbitrary: before ix)
  case (Cons row rows)
  let ?ix = "\<lparr>ix_values = ix_values ix @ [\<lparr>exec_entry = row_id row, exec_state = Restored\<rparr>],
         ix_by_id = (ix_by_id ix)(row_id row \<mapsto> length (ix_values ix))\<rparr>"
  from Cons.prems(1) have none: "ix_by_id ix (row_id row) = None"
    and rest: "from_plan_loop rows ?ix = Inr ix'" by (auto split: if_splits)
  have new: "row_id row \<notin> row_id ` set before"
  proof
    assume "row_id row \<in> row_id ` set before"
    then obtain i where "i < length before" "row_id (before ! i) = row_id row"
      by (auto simp: in_set_conv_nth)
    then have "ix_by_id ix (row_id row) = Some i" using Cons.prems(2) by (simp add: results_at_def)
    with none show False by simp
  qed
  have "row_id (before ! i) \<noteq> row_id row" if "i < length before" for i
    using new that by (metis image_eqI nth_mem)
  then have "results_at (before @ [row]) ?ix (\<lambda>_. Restored)"
    using Cons.prems(2)
    by (auto simp: results_at_def nth_append less_Suc_eq split: if_splits)
  from Cons.IH [OF rest this] Cons.prems(3) new show ?case by auto
qed simp

lemma from_plan_at:
  "from_plan rows = Inr ix \<Longrightarrow> results_at rows ix (\<lambda>_. Restored) \<and> distinct (map row_id rows)"
  using from_plan_loop_at [of rows "\<lparr>ix_values = [], ix_by_id = Map.empty\<rparr>" ix "[]"]
  by (simp add: from_plan_def results_at_def)

lemma set_state_at:
  assumes r: "results_at rows ix f" and d: "distinct (map row_id rows)"
  shows "results_at rows (set_state e st ix) (f(e := st))"
proof (cases "ix_by_id ix e")
  case None
  have "e \<notin> row_id ` set rows"
  proof
    assume "e \<in> row_id ` set rows"
    then obtain i where "i < length rows" "row_id (rows ! i) = e" by (auto simp: in_set_conv_nth)
    then have "ix_by_id ix e = Some i" using r by (simp add: results_at_def)
    with None show False by simp
  qed
  with None r show ?thesis by (auto simp: set_state_def results_at_def)
next
  case (Some i)
  with r have i: "i < length rows" "row_id (rows ! i) = e" by (auto simp: results_at_def)
  have "(ix_values ix)[i := (ix_values ix ! i)\<lparr>exec_state := st\<rparr>] =
      map (\<lambda>row. \<lparr>exec_entry = row_id row, exec_state = (f(e := st)) (row_id row)\<rparr>) rows"
  proof (rule nth_equalityI)
    show "length ((ix_values ix)[i := (ix_values ix ! i)\<lparr>exec_state := st\<rparr>]) = length
      (map (\<lambda>row. \<lparr>exec_entry = row_id row, exec_state = (f(e := st)) (row_id row)\<rparr>) rows)"
      using r by (simp add: results_at_def)
    fix j assume "j < length ((ix_values ix)[i := (ix_values ix ! i)\<lparr>exec_state := st\<rparr>])"
    then have j: "j < length rows" using r by (simp add: results_at_def)
    have "row_id (rows ! j) = e \<longleftrightarrow> j = i" using d i j by (auto simp: distinct_conv_nth)
    then show "(ix_values ix)[i := (ix_values ix ! i)\<lparr>exec_state := st\<rparr>] ! j =
        map (\<lambda>row. \<lparr>exec_entry = row_id row, exec_state = (f(e := st)) (row_id row)\<rparr>) rows ! j"
      using r i j by (auto simp: results_at_def nth_list_update)
  qed
  moreover have "set_state e st ix = ix\<lparr>ix_values := (ix_values ix)[i := (ix_values ix ! i)\<lparr>exec_state := st\<rparr>]\<rparr>"
    using Some r i by (simp add: set_state_def) (simp add: results_at_def)
  ultimately show ?thesis using r by (simp add: results_at_def)
qed

section \<open>Completed runs\<close>

lemma rollback_not_completed: "rollback P p f c ix w = (rep, w') \<Longrightarrow> report_outcome rep \<noteq> Exec_Completed"
  by (auto simp: rollback_def make_report_def Let_def split: prod.splits sum.splits if_splits)

lemma stops_not_completed:
  "stop_required p f fs ix w = (Inl rep, w') \<Longrightarrow> report_outcome rep \<noteq> Exec_Completed"
  "stop_rollback P p f c ix w = (Inl rep, w') \<Longrightarrow> report_outcome rep \<noteq> Exec_Completed"
  "stop_required p f fs ix w \<noteq> (Inr x, w')"
  "stop_rollback P p f c ix w \<noteq> (Inr x, w')"
  by (auto simp: stop_required_def stop_rollback_def make_report_def dest: rollback_not_completed
      split: prod.splits)

lemma forward_step_results:
  assumes s: "forward_step P p i st c ix w = (res, w')"
  shows "case res of
      Inl rep \<Rightarrow> report_outcome rep \<noteq> Exec_Completed
    | Inr (c', ix') \<Rightarrow> ix' = set_state (sched_entry st) (forward_state (sched_phase st)) ix"
  using s stops_not_completed
  by (fastforce simp: forward_step_def apply_forward_def Let_def
      split: prod.splits sum.splits bool.splits if_splits)

lemma forward_loop_results:
  assumes "forward_loop P p tot i steps c ix w = (rep, w')"
    and "results_at rows ix (final_state before)" and d: "distinct (map row_id rows)"
    and "report_outcome rep = Exec_Completed"
  shows "\<exists>ix'. results_at rows ix' (final_state (before @ steps)) \<and> report_entries rep = ix_values ix'"
  using assms(1,2,4)
proof (induction steps arbitrary: before i c ix w)
  case Nil
  then show ?case
    by (auto simp: finalize_def make_report_def dest: rollback_not_completed
        split: prod.splits sum.splits bool.splits)
next
  case (Cons st steps)
  obtain res w1 where s: "forward_step P p i st c ix w = (res, w1)" by (cases "forward_step P p i st c ix w")
  note r = forward_step_results [OF s]
  show ?case
  proof (cases res)
    case (Inl rep')
    with Cons.prems s r show ?thesis by auto
  next
    case (Inr x)
    obtain c1 ix1 where x: "x = (c1, ix1)" by (cases x)
    from r Inr x have "ix1 = set_state (sched_entry st) (forward_state (sched_phase st)) ix" by simp
    with set_state_at [OF Cons.prems(2) d] have "results_at rows ix1 (final_state (before @ [st]))"
      by (simp add: final_state_snoc_fun)
    from Cons.IH [OF _ this Cons.prems(3)] Cons.prems(1) s Inr x show ?thesis by simp
  qed
qed

lemma completed_results:
  assumes ex: "execute_with_control P plan w = (Inr rep, w')" and c: "report_outcome rep = Exec_Completed"
  shows "report_entries rep =
    map (\<lambda>row. \<lparr>exec_entry = row_id row, exec_state = Applied\<rparr>) (plan_entries plan)"
proof -
  from ex obtain n ix where f: "from_plan (plan_entries plan) = Inr ix"
    and ex1: "(case build_schedule_cancellable (\<lambda>k. cancellation_requested (port_control P) (n + k))
        (port_backend P) plan (w_backend w) of
        (Inl e, b) \<Rightarrow> (Inl (schedule_error_to_execute e), w\<lparr>w_backend := b, w_polls := n\<rparr>)
      | (Inr (steps, polls), b) \<Rightarrow>
     (case prepare_checks P plan ix steps b (n + polls) of
        Inl e \<Rightarrow> (Inl e, w\<lparr>w_backend := b, w_polls := n + polls\<rparr>)
      | Inr (manifest, n1) \<Rightarrow>
          begin_and_run P plan steps manifest ix
            (report_progress ReadyPhase 0 (length steps) (w\<lparr>w_backend := b, w_polls := n1\<rparr>)))) =
      (Inr rep, w')"
    by (auto simp: execute_with_control_def Let_def split: sum.splits)
  from ex1 obtain steps polls b manifest w1 where
    bs: "build_schedule_cancellable (\<lambda>k. cancellation_requested (port_control P) (n + k))
        (port_backend P) plan (w_backend w) = (Inr (steps, polls), b)"
    and run: "begin_and_run P plan steps manifest ix w1 = (Inr rep, w')"
    by (auto split: sum.splits prod.splits)
  have "final_state [] = (\<lambda>_. Restored)" by (rule ext) simp
  with from_plan_at [OF f] have at: "results_at (plan_entries plan) ix (final_state [])"
    and ids: "distinct (map row_id (plan_entries plan))" by simp_all
  have applied: "final_state steps (row_id row) = Applied" if "row \<in> set (plan_entries plan)" for row
    by (rule build_schedule_finished [OF ids bs that])
  have "\<exists>ix'. results_at (plan_entries plan) ix' (final_state steps) \<and> report_entries rep = ix_values ix'"
  proof (cases "steps = []")
    case True
    with run at show ?thesis by (auto simp: begin_and_run_def make_report_def)
  next
    case False
    with run c obtain w2 w3 where "forward_loop P (plan_id_of plan) (length steps) 0 steps [] ix w2 = (rep, w3)"
      by (auto simp: begin_and_run_def make_report_def split: if_splits sum.splits prod.splits)
    from forward_loop_results [OF this at ids c] show ?thesis by simp
  qed
  with applied show ?thesis by (auto simp: results_at_def)
qed

end
