(* ===== verification/Rename_Activation.thy ===== *)
theory Rename_Activation
  imports Row_Moves Planner_Correct Report_Correct
begin

text \<open>
  Between the list and the rename engine (\<open>crates/darknamer-app/src/rename/activation.rs\<close>): the
  request built from the rows, the report applied to the rows, the decision about a closed journal
  and the severity of an outcome. The localised messages are left out.
\<close>

definition next_model_revision :: "u64 \<Rightarrow> bool \<Rightarrow> u64" where
  "next_model_revision current changed = (if changed then saturating_inc current else current)"

section \<open>The request\<close>

text \<open>\<open>u32::try_from(index).unwrap_or(u32::MAX)\<close>.\<close>

definition row_entry_id :: "usize \<Rightarrow> entry_id" where
  "row_entry_id i = (if i < 2 ^ 32 then of_nat i else - 1)"

definition row_intent :: "usize \<Rightarrow> legacy_list_item \<Rightarrow> rename_intent" where
  "row_intent i item =
     rename_intent_new (row_entry_id i) (source_path item) (destination_parent item)
       (proposed_name item) (if is_directory item then Directory else File)"

definition build_plan_request :: "legacy_list \<Rightarrow> model_revision \<Rightarrow> plan_request" where
  "build_plan_request l revision =
     \<lparr>request_revision = revision,
      request_entries = map (\<lambda>(i, item). row_intent i item) (enumerate 0 (items l)),
      request_scope = (if \<exists>item\<in>set (items l). moves (planned_change_kind_of item)
                       then SameVolumeFilesOnly else SameParent)\<rparr>"

section \<open>The report\<close>

text \<open>
  The loop over the rows stops at the first that is not found. Every recorded move takes a fresh
  index identity from a process-wide counter, an argument here.
\<close>

fun record_all :: "(nat \<Rightarrow> nat) \<Rightarrow> nat \<Rightarrow> usize list \<Rightarrow> legacy_list \<Rightarrow> bool \<times> legacy_list" where
  "record_all fresh k [] l = (True, l)"
| "record_all fresh k (row # rows) l =
     (case record_move_success row (fresh k) l of
        (found, l) \<Rightarrow> if found then record_all fresh (k + 1) rows l else (False, l))"

definition apply_execution_report ::
  "(nat \<Rightarrow> nat) \<Rightarrow> legacy_list \<Rightarrow> execution_report \<Rightarrow> bool \<times> legacy_list" where
  "apply_execution_report fresh l report =
     (if report_outcome report \<noteq> Exec_Completed \<or>
         (\<exists>entry\<in>set (report_entries report). exec_state entry \<noteq> Applied)
      then (False, l)
      else let rows = sort (map (\<lambda>entry. unat (exec_entry entry)) (report_entries report))
           in if \<exists>row\<in>set rows. length (items l) \<le> row then (False, l)
              else record_all fresh 0 rows l)"

section \<open>Decisions\<close>

datatype journal_cleanup_decision = RemoveEmpty | RemoveTerminal | Retain

definition cleanup_decision :: "journal_record list \<Rightarrow> journal_cleanup_decision" where
  "cleanup_decision records =
     (if records = [] then RemoveEmpty
      else if (case last records of Terminal _ \<Rightarrow> True | _ \<Rightarrow> False) \<and> replay_journal records = Clean
      then RemoveTerminal
      else Retain)"

text \<open>The rows of a blocked plan that the interface marks.\<close>

definition plan_error_rows :: "plan_issue list \<Rightarrow> usize list" where
  "plan_error_rows issues = remdups_adj (sort (map (\<lambda>i. unat (issue_entry i)) issues))"

datatype outcome_presentation = NonModal | Modal

definition execution_outcome_presentation :: "execution_outcome \<Rightarrow> outcome_presentation" where
  "execution_outcome_presentation outcome =
     (case outcome of
        Exec_Completed \<Rightarrow> NonModal
      | Exec_RolledBack (Fail_Cancelled _) \<Rightarrow> NonModal
      | Exec_RolledBack _ \<Rightarrow> Modal
      | Exec_RecoveryRequired _ _ \<Rightarrow> Modal)"

section \<open>From the list to the engine and back\<close>

lemma cleanup_removes_iff:
  "cleanup_decision records \<noteq> Retain \<longleftrightarrow> replay_journal records = Clean"
proof (cases "records = []")
  case True
  then show ?thesis by (simp add: cleanup_decision_def replay_journal_def)
next
  case False
  have "\<exists>t. last records = Terminal t" if clean: "replay_journal records = Clean"
  proof -
    from clean replay_clean_iff False obtain t p steps rest where
      r: "records = Intent p steps # rest" and run: "run (length steps) (Running 0) rest (Closed t)"
      by (auto simp: journal_run_def)
    from run obtain before x where "rest = before @ [x]" by (cases rest rule: rev_cases) auto
    with run r show ?thesis by (auto simp: run_snoc elim: protocol.cases)
  qed
  then show ?thesis using False by (auto simp: cleanup_decision_def split: journal_record.splits)
qed

text \<open>The destination of an intent is the planned path of its row.\<close>

lemma intent_destination_row: "intent_destination (row_intent i item) = planned_path item"
  by (auto simp: row_intent_def rename_intent_new_def planned_path_join destination_separator_units_def
      is_path_separator_def)

lemma row_intent_fields [simp]:
  "intent_source (row_intent i item) = source_path item"
  "intent_name (row_intent i item) = proposed_name item"
  "intent_id (row_intent i item) = row_entry_id i"
  by (simp_all add: row_intent_def rename_intent_new_def)

lemma unat_row_entry_id: "i < 2 ^ 32 \<Longrightarrow> unat (row_entry_id i) = i"
  by (simp add: row_entry_id_def unsigned_of_nat take_bit_nat_eq_self)

definition changed_rows :: "legacy_list \<Rightarrow> usize list" where
  "changed_rows l = filter (\<lambda>i. source_path (items l ! i) \<noteq> planned_path (items l ! i)) [0..<length (items l)]"

lemma changed_intents_rows:
  "filter (\<lambda>intent. \<not> unchanged intent) (request_entries (build_plan_request l revision)) =
     map (\<lambda>i. row_intent i (items l ! i)) (changed_rows l)"
proof -
  have "enumerate 0 (items l) = map (\<lambda>i. (i, items l ! i)) [0..<length (items l)]"
    by (rule nth_equalityI) (simp_all add: nth_enumerate_eq)
  then show ?thesis
    by (simp add: build_plan_request_def filter_map comp_def changed_rows_def unchanged_def
        intent_destination_row)
qed

text \<open>Recording distinct rows settles them and no other.\<close>

definition recordable :: "legacy_list \<Rightarrow> usize \<Rightarrow> bool" where
  "recordable l i \<longleftrightarrow> i < length (items l) \<and> normal_parent (destination_parent (items l ! i)) \<and>
     BACKSLASH \<notin> set (proposed_name (items l ! i))"

definition row_settled :: "legacy_list \<Rightarrow> legacy_list \<Rightarrow> usize \<Rightarrow> bool" where
  "row_settled l l' i \<longleftrightarrow> source_path (items l' ! i) = planned_path (items l ! i) \<and>
     current_name (items l' ! i) = proposed_name (items l ! i) \<and>
     planned_change_kind_of (items l' ! i) = NoChange"

lemma record_move_length [simp]: "length (items (snd (record_move_success i k l))) = length (items l)"
  by (simp add: record_move_success_def Let_def)

lemma record_all_settles:
  assumes "wf_list l" and "distinct rows" and "\<forall>i\<in>set rows. recordable l i"
  shows "case record_all fresh k rows l of (found, l') \<Rightarrow> found \<and> wf_list l' \<and>
    length (items l') = length (items l) \<and> (\<forall>i\<in>set rows. row_settled l l' i) \<and>
    (\<forall>i. i \<notin> set rows \<longrightarrow> items l' ! i = items l ! i)"
  using assms
proof (induction rows arbitrary: k l)
  case (Cons row rows)
  have row: "row < length (items l)" "normal_parent (destination_parent (items l ! row))"
    "BACKSLASH \<notin> set (proposed_name (items l ! row))"
    using Cons.prems(3) by (simp_all add: recordable_def)
  define l1 where "l1 = snd (record_move_success row (fresh k) l)"
  note one = record_move_success_spec [OF Cons.prems(1) row, where fresh = "fresh k", folded l1_def]
  have s: "record_move_success row (fresh k) l = (True, l1)"
    using row(1) by (simp add: l1_def record_move_success_def Let_def)
  have len: "length (items l1) = length (items l)" by (simp add: l1_def)
  have kept: "items l1 ! i = items l ! i" if "i \<in> set rows" for i
  proof -
    have "i \<noteq> row" using Cons.prems(2) that by auto
    with one(5) [of i] show ?thesis by blast
  qed
  have "\<forall>i\<in>set rows. recordable l1 i"
    using Cons.prems(3) kept by (simp add: recordable_def len)
  from Cons.IH [OF one(1) _ this, of "k + 1"] Cons.prems(2) obtain l2 where
    r: "record_all fresh (k + 1) rows l1 = (True, l2)" and l2: "wf_list l2" "length (items l2) = length (items l1)"
      "\<forall>i\<in>set rows. row_settled l1 l2 i" "\<forall>i. i \<notin> set rows \<longrightarrow> items l2 ! i = items l1 ! i"
    by (cases "record_all fresh (k + 1) rows l1") auto
  have "row_settled l l2 i" if "i \<in> set rows" for i
    using l2(3) kept that by (simp add: row_settled_def)
  moreover have "row_settled l l2 row"
    using one(2-4) l2(4) Cons.prems(2) by (simp add: row_settled_def)
  moreover have "items l2 ! i = items l ! i" if "i \<notin> set (row # rows)" for i
    using l2(4) one(5) that by auto
  ultimately show ?case using s r l2(1,2) len by auto
qed simp

text \<open>The entries of a completed report are the changed rows of the list.\<close>

lemma planned_row_ids:
  assumes plan: "plan_cancellable ops b cancel (build_plan_request l revision) = Inr plan"
    and size: "length (items l) \<le> 2 ^ 32"
  shows "map (\<lambda>row. unat (row_id row)) (plan_entries plan) = changed_rows l"
    and "i \<in> set (changed_rows l) \<Longrightarrow> valid_leaf (proposed_name (items l ! i))"
proof -
  let ?changed = "map (\<lambda>i. row_intent i (items l ! i)) (changed_rows l)"
  from plan_sound [OF plan] have "list_all2 (frozen_row ops b (request_scope (build_plan_request l revision)))
      ?changed (plan_entries plan)"
    by (simp add: sound_plan_def Let_def changed_intents_rows)
  then have ids: "map row_id (plan_entries plan) = map intent_id ?changed"
    by (induction rule: list_all2_induct) (simp_all add: frozen_row_def)
  have "map (\<lambda>row. unat (row_id row)) (plan_entries plan) = map unat (map row_id (plan_entries plan))"
    by (simp add: comp_def)
  also have "\<dots> = map (\<lambda>i. unat (row_entry_id i)) (changed_rows l)"
    by (simp add: ids comp_def)
  also have "\<dots> = changed_rows l"
    using size by (intro map_idI) (auto simp: changed_rows_def intro!: unat_row_entry_id)
  finally show "map (\<lambda>row. unat (row_id row)) (plan_entries plan) = changed_rows l" .
  have "validate_windows_leaf_name (intent_name intent) = Inr ()" if "intent \<in> set ?changed" for intent
  proof -
    have "\<exists>n1 n2. validation_stage cancel (request_entries (build_plan_request l revision)) ?changed n1 = Inr n2"
      by (rule plan_stages [OF plan]) (auto simp: changed_intents_rows)
    then show ?thesis using validation_stage_Inr that by blast
  qed
  then show "valid_leaf (proposed_name (items l ! i))" if "i \<in> set (changed_rows l)"
    using that by (force simp: valid_leaf_def)
qed

lemma wf_planned_length:
  assumes "wf_list l" and "i < length (items l)"
  shows "length (planned_path (items l ! i)) < USIZE_LIMIT"
proof -
  have "item_path_units (items l ! i) \<le> path_units (items l)"
    using member_le_sum_list_nth [OF assms(2), of item_path_units] by (simp add: path_units_def)
  then show ?thesis
    using assms(1) by (simp add: wf_list_def within_budget_def length_planned_path item_path_units_def
        budget_defs)
qed

lemma completed_settles_list:
  assumes wf: "wf_list l" and size: "length (items l) \<le> 2 ^ 32"
    and parents: "\<forall>item\<in>set (items l). normal_parent (destination_parent item)"
    and plan: "plan_cancellable ops b cancel (build_plan_request l revision) = Inr plan"
    and run: "execute_with_control P plan w = (Inr rep, w')"
  shows "case apply_execution_report fresh l rep of (applied, l') \<Rightarrow>
    (applied \<longleftrightarrow> report_outcome rep = Exec_Completed) \<and>
    (if applied then wf_list l' \<and> length (items l') = length (items l) \<and>
       (\<forall>i<length (items l). source_path (items l' ! i) = planned_path (items l ! i) \<and>
          planned_change_kind_of (items l' ! i) = NoChange) \<and>
       (\<forall>i<length (items l). source_path (items l ! i) = planned_path (items l ! i) \<longrightarrow>
          items l' ! i = items l ! i)
     else l' = l)"
proof (cases "report_outcome rep = Exec_Completed")
  case False
  then show ?thesis by (simp add: apply_execution_report_def)
next
  case True
  note entries = completed_results [OF run True]
  have rows: "map (\<lambda>entry. unat (exec_entry entry)) (report_entries rep) = changed_rows l"
    using planned_row_ids(1) [OF plan size] by (simp add: entries comp_def)
  have sorted: "sort (changed_rows l) = changed_rows l"
    by (rule sorted_sort_id) (simp add: changed_rows_def sorted_wrt_filter)
  have "\<forall>i\<in>set (changed_rows l). recordable l i"
    using planned_row_ids(2) [OF plan size] parents valid_leaf_no_separator
    by (fastforce simp: recordable_def changed_rows_def)
  note all = record_all_settles [OF wf _ this, of fresh 0]
  obtain l' where r: "record_all fresh 0 (changed_rows l) l = (True, l')" and l': "wf_list l'"
    "length (items l') = length (items l)" "\<forall>i\<in>set (changed_rows l). row_settled l l' i"
    "\<forall>i. i \<notin> set (changed_rows l) \<longrightarrow> items l' ! i = items l ! i"
    using all by (cases "record_all fresh 0 (changed_rows l) l") (auto simp: changed_rows_def)
  have "apply_execution_report fresh l rep = (True, l')"
    using True rows sorted r
    by (auto simp: apply_execution_report_def Let_def entries changed_rows_def)
  moreover have "source_path (items l' ! i) = planned_path (items l ! i) \<and>
      planned_change_kind_of (items l' ! i) = NoChange" if "i < length (items l)" for i
  proof (cases "i \<in> set (changed_rows l)")
    case True
    with l'(3) show ?thesis by (simp add: row_settled_def)
  next
    case False
    then have same: "source_path (items l ! i) = planned_path (items l ! i)" "items l' ! i = items l ! i"
      using that l'(4) by (auto simp: changed_rows_def)
    with planned_path_matches_source_iff [OF wf_planned_length [OF wf that]] show ?thesis
      by (simp add: planned_change_kind_of_def)
  qed
  moreover have "items l' ! i = items l ! i" if "i < length (items l)"
    "source_path (items l ! i) = planned_path (items l ! i)" for i
    using that l'(4) by (simp add: changed_rows_def)
  ultimately show ?thesis using True l'(1,2) by simp
qed

end
