(* ===== verification/Activation_Claims.thy ===== *)
theory Activation_Claims
  imports Rename_Activation Completion_Claims
begin

text \<open>
  The way from the list to the engine and back: the request built from the rows, its plan, its
  execution, and the report applied to the rows. The witness swaps the names of two rows.
\<close>

section \<open>A list whose two rows exchange their names\<close>

definition swap_item :: "u16 \<Rightarrow> u16 \<Rightarrow> legacy_list_item" where
  "swap_item u v = (new_item (file_path u) False 1 0 0)\<lparr>proposed_name := [v]\<rparr>"

definition swap_list :: legacy_list where
  "swap_list = \<lparr>items = [swap_item 97 98, swap_item 98 97], proposed_name_utf16_units = 2,
     planned_path_utf16_units = 12, identity = 0, source_revision = 0\<rparr>"

lemma swap_item_eq:
  "u \<noteq> BACKSLASH \<Longrightarrow> swap_item u v =
     \<lparr>source_path = file_path u, current_name = [u], proposed_name = [v],
      destination_parent = folder, is_directory = False, file_size = 1,
      actual_size = 1, created = 0, modified = 0\<rparr>"
  by (simp add: swap_item_def file_path_def new_item_def new_with_actual_size_def path_name_def
      path_root_def source_parent_units_def rposition_def)

lemma swap_items [simp]: "items swap_list = [swap_item 97 98, swap_item 98 97]"
  by (simp add: swap_list_def)

lemma swap_item_facts:
  "swap_item 97 98 = \<lparr>source_path = file_path 97, current_name = [97], proposed_name = [98],
      destination_parent = folder, is_directory = False, file_size = 1,
      actual_size = 1, created = 0, modified = 0\<rparr>"
  "swap_item 98 97 = \<lparr>source_path = file_path 98, current_name = [98], proposed_name = [97],
      destination_parent = folder, is_directory = False, file_size = 1,
      actual_size = 1, created = 0, modified = 0\<rparr>"
  by (simp_all add: swap_item_eq)

lemma swap_planned_paths:
  "planned_path (swap_item 97 98) = file_path 98" "planned_path (swap_item 98 97) = file_path 97"
  by (simp_all add: swap_item_facts planned_path_def Let_def destination_separator_units_def
      is_path_separator_def file_path_def push_unit_def push_def)

lemma swap_list_wf: "wf_list swap_list"
  by (simp add: swap_list_def wf_list_def within_budget_def counter_simps item_path_units_def
      planned_units_def destination_separator_units_def is_path_separator_def swap_item_facts budget_defs)

lemma swap_list_request: "build_plan_request swap_list 1 = swap_request"
proof -
  have "\<not> moves (planned_change_kind_of (swap_item 97 98))" "\<not> moves (planned_change_kind_of (swap_item 98 97))"
    by (simp_all add: swap_item_facts planned_change_kind_of_def Let_def file_path_def
        source_parent_units_def rposition_def)
  then show ?thesis
    by (simp add: build_plan_request_def swap_request_def row_intent_def swap_intent_def swap_item_facts
        row_entry_id_def)
qed

section \<open>The list follows the files\<close>

lemma changed_request_rows:
  "set (filter (\<lambda>intent. \<not> unchanged intent) (request_entries (build_plan_request l revision))) =
     (\<lambda>i. row_intent i (items l ! i)) `
       {i. i < length (items l) \<and> source_path (items l ! i) \<noteq> planned_path (items l ! i)}"
  by (auto simp: changed_intents_rows changed_rows_def)

lemma requested_rows_follow:
  assumes request: "request_applied (build_plan_request l revision) m m'"
    and free: "\<And>row. row \<in> set rows \<Longrightarrow> m (mb_path_key (row_destination row)) \<noteq> None \<Longrightarrow>
      mb_path_key (row_destination row) \<in> (\<lambda>row. mb_path_key (row_source row)) ` set rows"
    and src: "map row_source rows = map (\<lambda>i. source_path (items l ! i)) (changed_rows l)"
    and dst: "map row_destination rows = map (\<lambda>i. planned_path (items l ! i)) (changed_rows l)"
    and i: "i < length (items l)" and there: "m (mb_path_key (source_path (items l ! i))) \<noteq> None"
    and alone: "\<forall>j<length (items l). j \<noteq> i \<longrightarrow>
      mb_path_key (source_path (items l ! j)) \<noteq> mb_path_key (source_path (items l ! i))"
  shows "m' (mb_path_key (planned_path (items l ! i))) = m (mb_path_key (source_path (items l ! i)))"
proof (cases "source_path (items l ! i) = planned_path (items l ! i)")
  case False
  let ?changed = "filter (\<lambda>intent. \<not> unchanged intent) (request_entries (build_plan_request l revision))"
  have "row_intent i (items l ! i) \<in> set ?changed" using i False unfolding changed_request_rows by blast
  with request have "m' (mb_path_key (intent_destination (row_intent i (items l ! i)))) =
      m (mb_path_key (intent_source (row_intent i (items l ! i))))"
    unfolding request_applied_def Let_def by blast
  then show ?thesis by (simp add: intent_destination_row)
next
  case True
  let ?k = "mb_path_key (source_path (items l ! i))"
  have s: "(\<lambda>row. mb_path_key (row_source row)) ` set rows =
      (\<lambda>i. mb_path_key (source_path (items l ! i))) ` set (changed_rows l)"
    using arg_cong [OF src, of "\<lambda>ps. mb_path_key ` set ps"] by (simp only: set_map image_image)
  have d: "(\<lambda>row. mb_path_key (row_destination row)) ` set rows =
      (\<lambda>i. mb_path_key (planned_path (items l ! i))) ` set (changed_rows l)"
    using arg_cong [OF dst, of "\<lambda>ps. mb_path_key ` set ps"] by (simp only: set_map image_image)
  have no_source: "?k \<notin> (\<lambda>i. mb_path_key (source_path (items l ! i))) ` set (changed_rows l)"
    using alone True by (auto simp: changed_rows_def)
  moreover have "?k \<notin> (\<lambda>i. mb_path_key (planned_path (items l ! i))) ` set (changed_rows l)"
  proof
    assume "?k \<in> (\<lambda>i. mb_path_key (planned_path (items l ! i))) ` set (changed_rows l)"
    then obtain row where "row \<in> set rows" "?k = mb_path_key (row_destination row)"
      unfolding d [symmetric] by blast
    with free [of row] there no_source s show False by metis
  qed
  ultimately have "?k \<notin> (\<lambda>intent. mb_path_key (intent_source intent)) `
        set (filter (\<lambda>intent. \<not> unchanged intent) (request_entries (build_plan_request l revision))) \<union>
      (\<lambda>intent. mb_path_key (intent_destination intent)) `
        set (filter (\<lambda>intent. \<not> unchanged intent) (request_entries (build_plan_request l revision)))"
    by (simp add: changed_intents_rows image_image intent_destination_row)
  with request have "m' ?k = m ?k" unfolding request_applied_def Let_def by blast
  with True show ?thesis by simp
qed

lemma planned_row_free:
  assumes "plan_cancellable memory_backend_ops b cancel request = Inr plan" and "coherent_request b request"
    and row: "row \<in> set (plan_entries plan)" and "mb_occupancy b (mb_path_key (row_destination row)) \<noteq> None"
  shows "mb_path_key (row_destination row) \<in> (\<lambda>row. mb_path_key (row_source row)) ` set (plan_entries plan)"
proof -
  note ready = coherent_plan_ready [OF assms(1,2)]
  note at = memory_plan_located [OF conjunct1 [OF ready], unfolded located_def]
  from ready row assms(4) obtain row' where row': "row' \<in> set (plan_entries plan)"
    "row_destination_key row = row_source_key row'"
    by (auto simp: plan_ready_def)
  with at row have "mb_path_key (row_destination row) = mb_path_key (row_source row')" by metis
  with row'(1) show ?thesis by blast
qed

lemma planned_row_paths:
  assumes "plan_cancellable memory_backend_ops b cancel (build_plan_request l revision) = Inr plan"
  shows "map row_source (plan_entries plan) = map (\<lambda>i. source_path (items l ! i)) (changed_rows l)"
    and "map row_destination (plan_entries plan) = map (\<lambda>i. planned_path (items l ! i)) (changed_rows l)"
proof -
  have rows: "list_all2 (frozen_row memory_backend_ops b (request_scope (build_plan_request l revision)))
      (map (\<lambda>i. row_intent i (items l ! i)) (changed_rows l)) (plan_entries plan)"
    using plan_sound [OF assms] by (simp add: sound_plan_def Let_def changed_intents_rows)
  from frozen_memory_sources [OF rows]
  show "map row_source (plan_entries plan) = map (\<lambda>i. source_path (items l ! i)) (changed_rows l)"
    by (simp add: comp_def)
  from rows have "map row_destination (plan_entries plan) =
      map intent_destination (map (\<lambda>i. row_intent i (items l ! i)) (changed_rows l))"
    by (induction rule: list_all2_induct) (auto simp: frozen_row_def)
  then show "map row_destination (plan_entries plan) = map (\<lambda>i. planned_path (items l ! i)) (changed_rows l)"
    by (simp add: comp_def intent_destination_row)
qed

text \<open>
  C3: the list follows the files. Planning the request built from the rows of a well formed list
  on the in-memory filesystem, executing the plan and applying the report changes the list exactly
  when the run completed. Then no row has a pending change, rows without one are untouched, the
  counters are exact, and every row names the file it named before, at its new path. Any other
  end leaves the list as it was.
\<close>

theorem list_follows_files:
  assumes "wf_list l" and "length (items l) \<le> 2 ^ 32"
    and "\<forall>item\<in>set (items l). normal_parent (destination_parent item)"
    and "plan_cancellable memory_backend_ops (w_backend w) cancel (build_plan_request l revision) = Inr plan"
    and "coherent_request (w_backend w) (build_plan_request l revision)"
    and "port_journal P = memory_journal_ops" and "port_backend P = memory_backend_ops"
    and "execute_with_control P plan w = (Inr rep, w')"
    and "apply_execution_report fresh l rep = (applied, l')"
  shows "(applied \<longleftrightarrow> report_outcome rep = Exec_Completed) \<and>
    (if applied then wf_list l' \<and> length (items l') = length (items l) \<and>
       (\<forall>i<length (items l). source_path (items l' ! i) = planned_path (items l ! i) \<and>
          planned_change_kind_of (items l' ! i) = NoChange \<and>
          (source_path (items l ! i) = planned_path (items l ! i) \<longrightarrow> items l' ! i = items l ! i)) \<and>
       (\<forall>i<length (items l). mb_occupancy (w_backend w) (mb_path_key (source_path (items l ! i))) \<noteq> None \<and>
          (\<forall>j<length (items l). j \<noteq> i \<longrightarrow>
             mb_path_key (source_path (items l ! j)) \<noteq> mb_path_key (source_path (items l ! i))) \<longrightarrow>
          mb_occupancy (w_backend w') (mb_path_key (source_path (items l' ! i))) =
            mb_occupancy (w_backend w) (mb_path_key (source_path (items l ! i))))
     else l' = l)"
proof -
  let ?m = "mb_occupancy (w_backend w)" and ?m' = "mb_occupancy (w_backend w')"
  note list = completed_settles_list [OF assms(1-4,8), of fresh, unfolded assms(9), simplified]
  show ?thesis
  proof (cases applied)
    case False
    with list show ?thesis by simp
  next
    case True
    with list have completed: "report_outcome rep = Exec_Completed"
      and paths: "\<forall>i<length (items l). source_path (items l' ! i) = planned_path (items l ! i)" by simp_all
    note ready = coherent_plan_ready [OF assms(4,5)]
    from mem.execute_settles [OF memory_plan_located [OF conjunct1 [OF ready]] conjunct2 [OF ready] assms(8,6,7)]
      renamed_is_applied [OF assms(4,5)] completed
    have request: "request_applied (build_plan_request l revision) ?m ?m'" by (simp add: mem.settled_def)
    have "?m' (mb_path_key (planned_path (items l ! i))) = ?m (mb_path_key (source_path (items l ! i)))"
      if "i < length (items l)" "?m (mb_path_key (source_path (items l ! i))) \<noteq> None"
        "\<forall>j<length (items l). j \<noteq> i \<longrightarrow>
           mb_path_key (source_path (items l ! j)) \<noteq> mb_path_key (source_path (items l ! i))" for i
      by (rule requested_rows_follow [OF request planned_row_free [OF assms(4,5)]
            planned_row_paths [OF assms(4)] that])
    with list True paths show ?thesis by simp
  qed
qed

theorem list_follows_files_witness:
  "\<exists>plan rep w' l'. plan_cancellable memory_backend_ops swap_backend (\<lambda>_. False) (build_plan_request swap_list 1) = Inr plan \<and>
     execute_with_control swap_ports plan swap_world = (Inr rep, w') \<and>
     apply_execution_report (\<lambda>k. k + 1) swap_list rep = (True, l') \<and>
     source_path (items l' ! 0) = file_path 98 \<and>
     mb_occupancy (w_backend w') (mb_path_key (source_path (items l' ! 0))) = Some (file_identity 1)"
proof -
  obtain plan where plan: "plan_cancellable memory_backend_ops swap_backend (\<lambda>_. False) (build_plan_request swap_list 1) = Inr plan"
    using swap_planned unfolding swap_list_request by blast
  have w: "w_backend swap_world = swap_backend" "mj_records (w_journal swap_world) = []"
    by (simp_all add: swap_world_def memory_journal_new_def)
  have P: "port_journal swap_ports = memory_journal_ops" "port_backend swap_ports = memory_backend_ops"
    "quiet_control (port_control swap_ports)" "begin_transaction (port_control swap_ports)"
    by (simp_all add: swap_ports_def noop_control_def)
  note ready = coherent_plan_ready [OF plan, unfolded swap_list_request, OF swap_coherent]
  note p = plan [unfolded swap_list_request]
  from quiet_executes [OF P, of _ plan swap_world, unfolded w, OF conjunct1 [OF ready] conjunct2 [OF ready]
      planned_live [OF p] swap_quiet [OF swap_plan_rows [OF p]]]
  obtain rep w' where run: "execute_with_control swap_ports plan swap_world = (Inr rep, w')"
    "report_outcome rep = Exec_Completed" by auto
  obtain applied l' where reported: "apply_execution_report (\<lambda>k. k + 1) swap_list rep = (applied, l')"
    by (cases "apply_execution_report (\<lambda>k. k + 1) swap_list rep")
  have normal: "\<forall>item\<in>set (items swap_list). normal_parent (destination_parent item)"
    by (simp add: swap_item_facts normal_parent_def is_path_separator_def)
  have coherent: "coherent_request (w_backend swap_world) (build_plan_request swap_list 1)"
    by (simp add: w swap_list_request swap_coherent)
  have sources: "source_path (swap_item 97 98) = file_path 97" "source_path (swap_item 98 97) = file_path 98"
    by (simp_all add: swap_item_facts)
  have "length (items swap_list) \<le> 2 ^ 32" by simp
  note claim = list_follows_files [OF swap_list_wf this normal plan [folded w(1)] coherent P(1,2) run(1) reported]
  with run(2) have applied by blast
  have two: "length (items swap_list) = 2" by simp
  from claim have rows: "\<forall>i<2. source_path (items l' ! i) = planned_path (items swap_list ! i)"
    and files: "\<forall>i<2. mb_occupancy swap_backend (mb_path_key (source_path (items swap_list ! i))) \<noteq> None \<and>
      (\<forall>j<2. j \<noteq> i \<longrightarrow> mb_path_key (source_path (items swap_list ! j)) \<noteq> mb_path_key (source_path (items swap_list ! i))) \<longrightarrow>
      mb_occupancy (w_backend w') (mb_path_key (source_path (items l' ! i))) =
        mb_occupancy swap_backend (mb_path_key (source_path (items swap_list ! i)))"
    unfolding w(1) two if_P [OF \<open>applied\<close>] by blast+
  from rows have row: "source_path (items l' ! 0) = file_path 98" by (simp add: swap_planned_paths)
  have "mb_occupancy (w_backend w') (mb_path_key (source_path (items l' ! 0))) = Some (file_identity 1)"
    using spec [OF files, of 0] by (simp add: sources swap_occupancy row numeral_2_eq_2 All_less_Suc)
  with row \<open>applied\<close> plan run(1) reported show ?thesis by auto
qed

end
