(* ===== verification/Admission_Sort.thy ===== *)
theory Admission_Sort
  imports Append_Batch Rename_Ports
begin

text \<open>
  The cancellable sort of \<open>crates/darknamer-app/src/admission.rs\<close>: a bottom-up merge sort on two
  index arrays that polls for cancellation before every write. It is the stable sort.
\<close>

datatype admission_cancelled = Admission_Cancelled

section \<open>The loops\<close>

text \<open>A poll of the cancellation callback; it is a function of the number of polls so far.\<close>

definition admission_poll :: "cancellation \<Rightarrow> nat \<Rightarrow> admission_cancelled + nat" where
  "admission_poll cancel n = (if cancel n then Inl Admission_Cancelled else Inr (n + 1))"

text \<open>\<open>while left < middle && right < end\<close>.\<close>

function merge_both ::
  "('p \<Rightarrow> 'p \<Rightarrow> ordering) \<Rightarrow> cancellation \<Rightarrow> 'p list \<Rightarrow> usize list \<Rightarrow> usize \<Rightarrow> usize \<Rightarrow>
   usize \<Rightarrow> usize \<Rightarrow> usize \<Rightarrow> usize list \<Rightarrow> nat \<Rightarrow>
   admission_cancelled + usize \<times> usize \<times> usize \<times> usize list \<times> nat" where
  "merge_both cmp cancel paths order middle stop left right out merged n =
     (if left < middle \<and> right < stop
      then and_then (admission_poll cancel n) (\<lambda>n.
        if cmp (paths ! (order ! left)) (paths ! (order ! right)) \<noteq> Greater
        then merge_both cmp cancel paths order middle stop (left + 1) right (out + 1)
               (merged[out := order ! left]) n
        else merge_both cmp cancel paths order middle stop left (right + 1) (out + 1)
               (merged[out := order ! right]) n)
      else Inr (left, right, out, merged, n))"
  by pat_completeness auto
termination
  by (relation "measure (\<lambda>(cmp, cancel, paths, order, middle, stop, left, right, out, merged, n).
    (middle - left) + (stop - right))") auto

declare merge_both.simps [simp del]

text \<open>\<open>while left < middle\<close>, and the same loop for the right run.\<close>

function copy_run ::
  "cancellation \<Rightarrow> usize list \<Rightarrow> usize \<Rightarrow> usize \<Rightarrow> usize \<Rightarrow> usize list \<Rightarrow> nat \<Rightarrow>
   admission_cancelled + usize \<times> usize list \<times> nat" where
  "copy_run cancel order stop i out merged n =
     (if i < stop
      then and_then (admission_poll cancel n) (\<lambda>n.
        copy_run cancel order stop (i + 1) (out + 1) (merged[out := order ! i]) n)
      else Inr (out, merged, n))"
  by pat_completeness auto
termination
  by (relation "measure (\<lambda>(cancel, order, stop, i, out, merged, n). stop - i)") auto

declare copy_run.simps [simp del]

text \<open>
  One pass over the runs of one width. The width is never 0, and a vector is never longer than
  \<open>usize\<close> can count, which the conditions of the two loops state so that they are total.
\<close>

function merge_pass ::
  "('p \<Rightarrow> 'p \<Rightarrow> ordering) \<Rightarrow> cancellation \<Rightarrow> 'p list \<Rightarrow> usize list \<Rightarrow> usize \<Rightarrow> usize \<Rightarrow> usize list \<Rightarrow> nat \<Rightarrow>
   admission_cancelled + usize list \<times> nat" where
  "merge_pass cmp cancel paths order width start merged n =
     (if start < length paths \<and> 0 < width \<and> length paths < USIZE_LIMIT
      then (let middle = min (saturating_add start width) (length paths);
                stop = min (saturating_add middle width) (length paths)
            in and_then (merge_both cmp cancel paths order middle stop start middle start merged n)
                 (\<lambda>(left, right, out, merged, n).
                    and_then (copy_run cancel order middle left out merged n) (\<lambda>(out, merged, n).
                      and_then (copy_run cancel order stop right out merged n) (\<lambda>(out, merged, n).
                        merge_pass cmp cancel paths order width stop merged n))))
      else Inr (merged, n))"
  by pat_completeness auto
termination
  by (relation "measure (\<lambda>(cmp, cancel, paths, order, width, start, merged, n). length paths - start)")
    (auto simp: saturating_add_def)

declare merge_pass.simps [simp del]

function merge_passes ::
  "('p \<Rightarrow> 'p \<Rightarrow> ordering) \<Rightarrow> cancellation \<Rightarrow> 'p list \<Rightarrow> usize \<Rightarrow> usize list \<Rightarrow> usize list \<Rightarrow> nat \<Rightarrow>
   admission_cancelled + usize list \<times> nat" where
  "merge_passes cmp cancel paths width order merged n =
     (if width < length paths \<and> 0 < width \<and> length paths < USIZE_LIMIT
      then and_then (merge_pass cmp cancel paths order width 0 merged n) (\<lambda>(merged, n).
        merge_passes cmp cancel paths (saturating_mul width 2) merged order n)
      else Inr (order, n))"
  by pat_completeness auto
termination
  by (relation "measure (\<lambda>(cmp, cancel, paths, width, order, merged, n). length paths - width)")
    (auto simp: saturating_mul_def)

declare merge_passes.simps [simp del]

text \<open>Moving the paths out of their slots in the computed order.\<close>

fun take_slots :: "usize list \<Rightarrow> 'p option list \<Rightarrow> 'p list" where
  "take_slots [] slots = []"
| "take_slots (index # order) slots =
     (if index < length slots
      then case slots ! index of
             Some path \<Rightarrow> path # take_slots order (slots[index := None])
           | None \<Rightarrow> take_slots order slots
      else take_slots order slots)"

definition sort_paths_cancellable ::
  "('p \<Rightarrow> 'p \<Rightarrow> ordering) \<Rightarrow> cancellation \<Rightarrow> 'p list \<Rightarrow> nat \<Rightarrow> admission_cancelled + 'p list \<times> nat" where
  "sort_paths_cancellable cmp cancel paths n =
     (if length paths < 2
      then and_then (admission_poll cancel n) (\<lambda>n. Inr (paths, n))
      else and_then (merge_passes cmp cancel paths 1 [0..<length paths] (replicate (length paths) 0) n)
        (\<lambda>(order, n). and_then (admission_poll cancel n) (\<lambda>n.
           Inr (take_slots order (map Some paths), n))))"


section \<open>What the loops compute\<close>

lemma dvd_next:
  fixes a :: nat
  assumes "w dvd a" and "w dvd b" and "a < b"
  shows "a + w \<le> b"
proof -
  from assms have "w dvd b - a" by simp
  then have "w \<le> b - a" using assms(3) by (intro dvd_imp_le) simp_all
  with assms(3) show ?thesis by linarith
qed

definition slice :: "'a list \<Rightarrow> nat \<Rightarrow> nat \<Rightarrow> 'a list" where
  "slice xs i j = take (j - i) (drop i xs)"

lemma length_slice [simp]: "j \<le> length xs \<Longrightarrow> length (slice xs i j) = j - i"
  by (simp add: slice_def)

lemma slice_empty [simp]: "j \<le> i \<Longrightarrow> slice xs i j = []"
  by (simp add: slice_def)

lemma slice_Cons: "i < j \<Longrightarrow> j \<le> length xs \<Longrightarrow> slice xs i j = xs ! i # slice xs (i + 1) j"
  by (simp add: slice_def Cons_nth_drop_Suc [symmetric] take_Cons')

text \<open>The array \<open>xs\<close> with the cells from \<open>i\<close> on overwritten by \<open>ys\<close>.\<close>

definition overwrite :: "'a list \<Rightarrow> nat \<Rightarrow> 'a list \<Rightarrow> 'a list" where
  "overwrite xs i ys = take i xs @ ys @ drop (i + length ys) xs"

lemma length_overwrite [simp]: "i + length ys \<le> length xs \<Longrightarrow> length (overwrite xs i ys) = length xs"
  by (simp add: overwrite_def)

lemma overwrite_Nil [simp]: "overwrite xs i [] = xs"
  by (simp add: overwrite_def)

lemma overwrite_update:
  assumes "i + Suc (length ys) \<le> length xs"
  shows "overwrite (xs[i := y]) (i + 1) ys = overwrite xs i (y # ys)"
  using assms by (simp add: overwrite_def take_Suc_conv_app_nth take_update_cancel)

lemma overwrite_overwrite:
  assumes "i + length ys + length zs \<le> length xs"
  shows "overwrite (overwrite xs i ys) (i + length ys) zs = overwrite xs i (ys @ zs)"
  using assms by (simp add: overwrite_def ac_simps)

lemma slice_overwrite: "i + length ys \<le> length xs \<Longrightarrow> slice (overwrite xs i ys) i (i + length ys) = ys"
  by (simp add: slice_def overwrite_def)

lemma slice_overwrite_before:
  "j \<le> k \<Longrightarrow> k \<le> length xs \<Longrightarrow> slice (overwrite xs k ys) i j = slice xs i j"
  by (simp add: slice_def overwrite_def drop_take)

text \<open>Merging two runs of indices, the left one first among equals.\<close>

fun merge_runs :: "('p \<Rightarrow> 'p \<Rightarrow> ordering) \<Rightarrow> 'p list \<Rightarrow> usize list \<Rightarrow> usize list \<Rightarrow> usize list" where
  "merge_runs cmp paths [] ys = ys"
| "merge_runs cmp paths xs [] = xs"
| "merge_runs cmp paths (x # xs) (y # ys) =
     (if cmp (paths ! x) (paths ! y) \<noteq> Greater then x # merge_runs cmp paths xs (y # ys)
      else y # merge_runs cmp paths (x # xs) ys)"

lemma merge_runs_Nil [simp]: "merge_runs cmp paths xs [] = xs"
  by (cases xs) simp_all

lemma length_merge_runs [simp]: "length (merge_runs cmp paths xs ys) = length xs + length ys"
  by (induction cmp paths xs ys rule: merge_runs.induct) simp_all

lemma set_merge_runs [simp]: "set (merge_runs cmp paths xs ys) = set xs \<union> set ys"
  by (induction cmp paths xs ys rule: merge_runs.induct) auto

lemma admission_poll_Inr [simp]: "admission_poll cancel n = Inr m \<longleftrightarrow> \<not> cancel n \<and> m = n + 1"
  by (auto simp: admission_poll_def)

lemma merge_both_spec:
  assumes "merge_both cmp cancel paths order middle stop left right out merged n = Inr (l', r', o', m', n')"
    and "left \<le> middle" and "right \<le> stop" and "middle \<le> length order" and "stop \<le> length order"
    and "out + (middle - left) + (stop - right) \<le> length merged"
  shows "l' \<le> middle \<and> r' \<le> stop \<and> (l' = middle \<or> r' = stop) \<and> left \<le> l' \<and> right \<le> r' \<and>
    (\<exists>zs. o' = out + length zs \<and> length zs = (l' - left) + (r' - right) \<and> m' = overwrite merged out zs \<and>
      merge_runs cmp paths (slice order left middle) (slice order right stop) =
        zs @ slice order l' middle @ slice order r' stop)"
  using assms
proof (induction cmp cancel paths order middle stop left right out merged n rule: merge_both.induct)
  case (1 cmp cancel paths order middle stop left right out merged n)
  show ?case
  proof (cases "left < middle \<and> right < stop")
    case False
    with "1.prems" have "l' = left" "r' = right" "o' = out" "m' = merged"
      by (simp_all add: merge_both.simps [of cmp cancel paths order middle stop left right out merged n])
    with False "1.prems" show ?thesis by auto
  next
    case True
    from "1.prems"(1) True have poll: "admission_poll cancel n = Inr (n + 1)"
      by (auto simp: merge_both.simps [of cmp cancel paths order middle stop left right out merged n]
          and_then_Inr split: if_splits)
    have left: "slice order left middle = order ! left # slice order (left + 1) middle"
      and right: "slice order right stop = order ! right # slice order (right + 1) stop"
      using True "1.prems" by (simp_all add: slice_Cons)
    show ?thesis
    proof (cases "cmp (paths ! (order ! left)) (paths ! (order ! right)) \<noteq> Greater")
      case le: True
      from "1.prems"(1) have step: "merge_both cmp cancel paths order middle stop (left + 1) right (out + 1)
          (merged[out := order ! left]) (n + 1) = Inr (l', r', o', m', n')"
        unfolding merge_both.simps [of cmp cancel paths order middle stop left right out merged n] poll
        using True le by simp
      have "left + 1 \<le> middle" "out + 1 + (middle - (left + 1)) + (stop - right) \<le> length (merged[out := order ! left])"
        using True "1.prems"(6) by (simp_all only: length_list_update) linarith+
      from "1.IH"(1) [OF True le step this(1) "1.prems"(3-5) this(2)] obtain zs where
        "l' \<le> middle" "r' \<le> stop" "l' = middle \<or> r' = stop" "left + 1 \<le> l'" "right \<le> r'"
        and zs: "o' = out + 1 + length zs" "length zs = (l' - (left + 1)) + (r' - right)"
        "m' = overwrite (merged[out := order ! left]) (out + 1) zs"
        "merge_runs cmp paths (slice order (left + 1) middle) (slice order right stop) =
          zs @ slice order l' middle @ slice order r' stop" by auto
      moreover from this "1.prems"(6) have "out + Suc (length zs) \<le> length merged" by linarith
      then have "m' = overwrite merged out (order ! left # zs)" by (simp only: zs(3) overwrite_update)
      moreover have "o' = out + length (order ! left # zs)" "length (order ! left # zs) = (l' - left) + (r' - right)"
        using zs(1,2) \<open>left + 1 \<le> l'\<close> by simp_all
      moreover have "merge_runs cmp paths (slice order left middle) (slice order right stop) =
          (order ! left # zs) @ slice order l' middle @ slice order r' stop"
        using zs(4) le by (simp add: left right)
      ultimately show ?thesis
        by (intro conjI exI [of _ "order ! left # zs"]) simp_all
    next
      case gt: False
      from "1.prems"(1) have step: "merge_both cmp cancel paths order middle stop left (right + 1) (out + 1)
          (merged[out := order ! right]) (n + 1) = Inr (l', r', o', m', n')"
        unfolding merge_both.simps [of cmp cancel paths order middle stop left right out merged n] poll
        using True gt by simp
      have "right + 1 \<le> stop" "out + 1 + (middle - left) + (stop - (right + 1)) \<le> length (merged[out := order ! right])"
        using True "1.prems"(6) by (simp_all only: length_list_update) linarith+
      from "1.IH"(2) [OF True gt step "1.prems"(2) this(1) "1.prems"(4,5) this(2)] obtain zs where
        "l' \<le> middle" "r' \<le> stop" "l' = middle \<or> r' = stop" "left \<le> l'" "right + 1 \<le> r'"
        and zs: "o' = out + 1 + length zs" "length zs = (l' - left) + (r' - (right + 1))"
        "m' = overwrite (merged[out := order ! right]) (out + 1) zs"
        "merge_runs cmp paths (slice order left middle) (slice order (right + 1) stop) =
          zs @ slice order l' middle @ slice order r' stop" by auto
      moreover from this "1.prems"(6) have "out + Suc (length zs) \<le> length merged" by linarith
      then have "m' = overwrite merged out (order ! right # zs)" by (simp only: zs(3) overwrite_update)
      moreover have "o' = out + length (order ! right # zs)" "length (order ! right # zs) = (l' - left) + (r' - right)"
        using zs(1,2) \<open>right + 1 \<le> r'\<close> \<open>left \<le> l'\<close> by simp_all
      moreover have "merge_runs cmp paths (slice order left middle) (slice order right stop) =
          (order ! right # zs) @ slice order l' middle @ slice order r' stop"
        using zs(4) gt by (simp add: left right)
      ultimately show ?thesis
        by (intro conjI exI [of _ "order ! right # zs"]) simp_all
    qed
  qed
qed

lemma copy_run_spec:
  assumes "copy_run cancel order stop i out merged n = Inr (o', m', n')"
    and "stop \<le> length order" and "out + (stop - i) \<le> length merged"
  shows "o' = out + (stop - i) \<and> m' = overwrite merged out (slice order i stop)"
  using assms
proof (induction cancel order stop i out merged n rule: copy_run.induct)
  case (1 cancel order stop i out merged n)
  show ?case
  proof (cases "i < stop")
    case False
    with "1.prems" show ?thesis by (simp add: copy_run.simps [of cancel order stop i out merged n])
  next
    case True
    from "1.prems"(1) True have poll: "admission_poll cancel n = Inr (n + 1)"
      by (auto simp: copy_run.simps [of cancel order stop i out merged n] and_then_Inr)
    from "1.prems"(1) have step: "copy_run cancel order stop (i + 1) (out + 1) (merged[out := order ! i]) (n + 1) =
        Inr (o', m', n')"
      unfolding copy_run.simps [of cancel order stop i out merged n] poll using True by simp
    have r: "o' = out + 1 + (stop - (i + 1)) \<and>
        m' = overwrite (merged[out := order ! i]) (out + 1) (slice order (i + 1) stop)"
      by (rule "1.IH" [OF True step]) (use True "1.prems" in auto)
    moreover have "out + Suc (length (slice order (i + 1) stop)) \<le> length merged"
      using True "1.prems" by simp
    moreover have "slice order i stop = order ! i # slice order (i + 1) stop"
      using True "1.prems"(2) by (simp add: slice_Cons)
    moreover have "out + 1 + (stop - (i + 1)) = out + (stop - i)" using True by linarith
    ultimately show ?thesis by (metis overwrite_update)
  qed
qed

text \<open>
  One block: after the three loops, the cells from \<open>start\<close> to \<open>stop\<close> hold the merged runs. The
  loop over the blocks carries the rest of the pass.
\<close>

definition run_middle :: "'p list \<Rightarrow> usize \<Rightarrow> usize \<Rightarrow> usize" where
  "run_middle paths width start = min (start + width) (length paths)"

definition merged_block ::
  "('p \<Rightarrow> 'p \<Rightarrow> ordering) \<Rightarrow> 'p list \<Rightarrow> usize list \<Rightarrow> usize \<Rightarrow> usize \<Rightarrow> usize list" where
  "merged_block cmp paths order width start =
     (let middle = run_middle paths width start; stop = run_middle paths width middle
      in merge_runs cmp paths (slice order start middle) (slice order middle stop))"

lemma run_middle_saturating:
  "length paths < USIZE_LIMIT \<Longrightarrow> min (saturating_add start width) (length paths) = run_middle paths width start"
  by (auto simp: saturating_add_def run_middle_def min_def)

lemma merge_pass_step:
  assumes pass: "merge_pass cmp cancel paths order width start merged n = Inr (m', n')"
    and "start < length paths" and "0 < width" and len: "length paths < USIZE_LIMIT"
    and order: "length order = length paths" and merged: "length merged = length paths"
  obtains k where "merge_pass cmp cancel paths order width (run_middle paths width (run_middle paths width start))
      (overwrite merged start (merged_block cmp paths order width start)) k = Inr (m', n')"
    and "start + length (merged_block cmp paths order width start) = run_middle paths width (run_middle paths width start)"
proof -
  define middle where "middle = run_middle paths width start"
  define stop where "stop = run_middle paths width middle"
  have bounds: "start \<le> middle" "middle \<le> stop" "stop \<le> length paths"
    using assms(2) by (auto simp: middle_def stop_def run_middle_def)
  from pass assms(2,3) len obtain l r q m n1 q2 m2 n2 q3 m3 n3 where
    both: "merge_both cmp cancel paths order middle stop start middle start merged n = Inr (l, r, q, m, n1)"
    and c1: "copy_run cancel order middle l q m n1 = Inr (q2, m2, n2)"
    and c2: "copy_run cancel order stop r q2 m2 n2 = Inr (q3, m3, n3)"
    and rest: "merge_pass cmp cancel paths order width stop m3 n3 = Inr (m', n')"
    by (auto simp: merge_pass.simps [of cmp cancel paths order width start merged n] Let_def and_then_Inr
        run_middle_saturating [OF len] middle_def stop_def)
  from merge_both_spec [OF both] bounds order merged obtain zs where
    l: "l \<le> middle" "r \<le> stop" "l = middle \<or> r = stop" "start \<le> l" "middle \<le> r"
    and zs: "q = start + length zs" "length zs = (l - start) + (r - middle)" "m = overwrite merged start zs"
    "merge_runs cmp paths (slice order start middle) (slice order middle stop) =
       zs @ slice order l middle @ slice order r stop" by auto
  have fit: "start + length zs + (middle - l) + (stop - r) = stop" using l zs(2) bounds by linarith
  have m: "length m = length paths" using zs(3) fit bounds merged by simp
  have r1: "q2 = q + (middle - l)" "m2 = overwrite m q (slice order l middle)"
    using copy_run_spec [OF c1] fit bounds order m zs(1) by auto
  have m2: "length m2 = length paths" using r1 fit bounds m order zs(1) by simp
  have r2: "m3 = overwrite m2 q2 (slice order r stop)"
    using copy_run_spec [OF c2] fit bounds order m2 zs(1) r1(1) by auto
  have "m2 = overwrite merged start (zs @ slice order l middle)"
    using overwrite_overwrite [of start zs "slice order l middle" merged] fit bounds order merged
    by (simp add: r1(2) zs(1,3))
  then have "m3 = overwrite merged start (zs @ slice order l middle @ slice order r stop)"
    using overwrite_overwrite [of start "zs @ slice order l middle" "slice order r stop" merged]
      fit bounds order merged r1(1) zs(1) by (simp add: r2 add.assoc)
  then have block: "m3 = overwrite merged start (merged_block cmp paths order width start)"
    by (simp add: merged_block_def middle_def [symmetric] stop_def [symmetric] zs(4))
  have "start + length (merged_block cmp paths order width start) = stop"
    using bounds order by (simp add: merged_block_def middle_def [symmetric] stop_def [symmetric])
  with rest block show thesis using that by (simp add: middle_def stop_def)
qed

section \<open>The passes sort\<close>

text \<open>The order the sort produces: by the comparator, then by position.\<close>

definition before :: "('p \<Rightarrow> 'p \<Rightarrow> ordering) \<Rightarrow> 'p list \<Rightarrow> usize \<Rightarrow> usize \<Rightarrow> bool" where
  "before cmp paths i j \<longleftrightarrow>
     cmp (paths ! i) (paths ! j) = Less \<or> cmp (paths ! i) (paths ! j) = Equal \<and> i < j"

text \<open>A run of \<open>width\<close> cells at \<open>start\<close> holds its own positions in order.\<close>

definition run_sorted :: "('p \<Rightarrow> 'p \<Rightarrow> ordering) \<Rightarrow> 'p list \<Rightarrow> usize \<Rightarrow> usize list \<Rightarrow> usize \<Rightarrow> bool" where
  "run_sorted cmp paths width order start \<longleftrightarrow>
     (let stop = run_middle paths width start; run = slice order start stop
      in sorted_wrt (before cmp paths) run \<and> set run = {start..<stop})"

definition runs_sorted :: "('p \<Rightarrow> 'p \<Rightarrow> ordering) \<Rightarrow> 'p list \<Rightarrow> usize \<Rightarrow> usize list \<Rightarrow> bool" where
  "runs_sorted cmp paths width order \<longleftrightarrow> length order = length paths \<and>
     (\<forall>start<length paths. width dvd start \<longrightarrow> run_sorted cmp paths width order start)"

lemma before_trans:
  assumes "total_cmp cmp" and "before cmp paths i j" and "before cmp paths j k"
  shows "before cmp paths i k"
  using assms(2,3) total_cmp.equal_cong [OF assms(1), of "paths ! i" "paths ! j" "paths ! k"]
    total_cmp.equal_cong_right [OF assms(1), of "paths ! j" "paths ! k" "paths ! i"]
    total_cmp.less_le_trans [OF assms(1), of "paths ! i" "paths ! j" "paths ! k"]
  by (auto simp: before_def)

lemma sorted_merge_runs:
  assumes "total_cmp cmp" and "sorted_wrt (before cmp paths) xs" and "sorted_wrt (before cmp paths) ys"
    and "\<forall>x\<in>set xs. \<forall>y\<in>set ys. x < y"
  shows "sorted_wrt (before cmp paths) (merge_runs cmp paths xs ys)"
  using assms
proof (induction cmp paths xs ys rule: merge_runs.induct)
  case (3 cmp paths x xs y ys)
  note trans = before_trans [OF "3.prems"(1)]
  show ?case
  proof (cases "cmp (paths ! x) (paths ! y) \<noteq> Greater")
    case True
    with "3.prems"(4) have "before cmp paths x y" by (cases "cmp (paths ! x) (paths ! y)") (auto simp: before_def)
    with "3.prems" have "\<forall>z\<in>set xs \<union> set (y # ys). before cmp paths x z" by (auto intro: trans)
    moreover have "sorted_wrt (before cmp paths) (merge_runs cmp paths xs (y # ys))"
      by (rule "3.IH"(1) [OF True "3.prems"(1)]) (use "3.prems" in auto)
    ultimately show ?thesis using True by simp
  next
    case False
    then have "before cmp paths y x"
      using total_cmp.less_iff [OF "3.prems"(1), of "paths ! y" "paths ! x"] by (simp add: before_def)
    with "3.prems" have "\<forall>z\<in>set (x # xs) \<union> set ys. before cmp paths y z" by (auto intro: trans)
    moreover have "sorted_wrt (before cmp paths) (merge_runs cmp paths (x # xs) ys)"
      by (rule "3.IH"(2) [OF False "3.prems"(1)]) (use "3.prems" in auto)
    ultimately show ?thesis using False by simp
  qed
qed simp_all

lemma run_middle_le [simp]: "run_middle paths width start \<le> length paths"
  by (simp add: run_middle_def)

lemma run_middle_double: "run_middle paths width (run_middle paths width start) = run_middle paths (2 * width) start"
  by (simp add: run_middle_def)

text \<open>Merging two adjacent sorted runs gives a sorted run of twice the width.\<close>

lemma merged_block_sorted:
  assumes cmp: "total_cmp cmp" and runs: "runs_sorted cmp paths width order"
    and start: "width dvd start" "start < length paths"
  shows "sorted_wrt (before cmp paths) (merged_block cmp paths order width start) \<and>
    set (merged_block cmp paths order width start) = {start..<run_middle paths (2 * width) start}"
proof -
  define middle where "middle = run_middle paths width start"
  define stop where "stop = run_middle paths width middle"
  have left: "sorted_wrt (before cmp paths) (slice order start middle)" "set (slice order start middle) = {start..<middle}"
    using runs start by (simp_all add: runs_sorted_def run_sorted_def Let_def middle_def)
  have right: "sorted_wrt (before cmp paths) (slice order middle stop) \<and> set (slice order middle stop) = {middle..<stop}"
  proof (cases "start + width < length paths")
    case True
    then have "middle = start + width" "width dvd middle" "middle < length paths"
      using start by (simp_all add: middle_def run_middle_def)
    with runs show ?thesis by (simp add: runs_sorted_def run_sorted_def Let_def stop_def)
  next
    case False
    then have "stop = middle" by (simp add: middle_def stop_def run_middle_def)
    then show ?thesis by simp
  qed
  have "start \<le> middle" "middle \<le> stop" using start(2) by (auto simp: middle_def stop_def run_middle_def)
  then have "set (slice order start middle) \<union> set (slice order middle stop) = {start..<stop}"
    using left(2) right by auto
  moreover have "stop = run_middle paths (2 * width) start"
    by (simp add: stop_def middle_def run_middle_double)
  ultimately show ?thesis
    using sorted_merge_runs [OF cmp left(1) conjunct1 [OF right]] left(2) right
    by (simp add: merged_block_def middle_def [symmetric] stop_def [symmetric])
qed

lemma merge_pass_sorts:
  assumes "total_cmp cmp" and "merge_pass cmp cancel paths order width start merged n = Inr (m', n')"
    and "runs_sorted cmp paths width order" and "0 < width" and "length paths < USIZE_LIMIT"
    and "length merged = length paths" and "2 * width dvd start \<or> start = length paths"
    and "\<forall>s < start. s < length paths \<longrightarrow> 2 * width dvd s \<longrightarrow> run_sorted cmp paths (2 * width) merged s"
  shows "runs_sorted cmp paths (2 * width) m'"
  using assms
proof (induction "length paths - start" arbitrary: start merged n rule: less_induct)
  case less
  show ?case
  proof (cases "start < length paths")
    case False
    with less.prems have "m' = merged" by (simp add: merge_pass.simps [of cmp cancel paths order width start merged n])
    with False less.prems show ?thesis by (simp add: runs_sorted_def)
  next
    case True
    let ?block = "merged_block cmp paths order width start" and ?stop = "run_middle paths (2 * width) start"
    have dvd: "2 * width dvd start" using less.prems(7) True by blast
    then have "width dvd start" by (rule dvd_mult_right)
    note block = merged_block_sorted [OF less.prems(1,3) this True]
    have order: "length order = length paths" using less.prems(3) by (simp add: runs_sorted_def)
    obtain k where rest: "merge_pass cmp cancel paths order width ?stop (overwrite merged start ?block) k = Inr (m', n')"
      and stop: "start + length ?block = ?stop"
      using merge_pass_step [OF less.prems(2) True less.prems(4,5) order less.prems(6)]
      unfolding run_middle_double by blast
    have fit: "start + length ?block \<le> length merged" using stop less.prems(6) by simp
    show ?thesis
    proof (rule less.hyps [OF _ less.prems(1) rest less.prems(3-5)])
      show "length paths - ?stop < length paths - start"
        using True less.prems(4) by (auto simp: run_middle_def)
      show "length (overwrite merged start ?block) = length paths"
        using fit less.prems(6) by simp
      show "2 * width dvd ?stop \<or> ?stop = length paths"
        using dvd by (auto simp: run_middle_def min_def)
      show "\<forall>s<?stop. s < length paths \<longrightarrow> 2 * width dvd s \<longrightarrow>
          run_sorted cmp paths (2 * width) (overwrite merged start ?block) s"
      proof (intro allI impI)
        fix s assume s: "s < ?stop" "s < length paths" "2 * width dvd s"
        show "run_sorted cmp paths (2 * width) (overwrite merged start ?block) s"
        proof (cases "s < start")
          case True
          then have "s + 2 * width \<le> start" by (rule dvd_next [OF s(3) dvd])
          then have "run_middle paths (2 * width) s \<le> start" by (simp add: run_middle_def)
          then have "slice (overwrite merged start ?block) s (run_middle paths (2 * width) s) =
              slice merged s (run_middle paths (2 * width) s)"
            by (rule slice_overwrite_before) (use fit in simp)
          then show ?thesis using less.prems(8) s True by (simp add: run_sorted_def)
        next
          case False
          have "s = start"
          proof (rule ccontr)
            assume "s \<noteq> start"
            with False have "start < s" by simp
            then have "start + 2 * width \<le> s" by (rule dvd_next [OF dvd s(3)])
            with s(1) show False by (simp add: run_middle_def)
          qed
          moreover have "slice (overwrite merged start ?block) start ?stop = ?block"
            using slice_overwrite [OF fit] by (simp add: stop)
          ultimately show ?thesis using block by (simp add: run_sorted_def)
        qed
      qed
    qed
  qed
qed

lemma merge_passes_sort:
  assumes "total_cmp cmp" and "merge_passes cmp cancel paths width order merged n = Inr (order', n')"
    and "runs_sorted cmp paths width order" and "0 < width" and "length paths < USIZE_LIMIT"
    and "length merged = length paths"
  shows "\<exists>width'\<ge>length paths. runs_sorted cmp paths width' order'"
  using assms
proof (induction "length paths - width" arbitrary: width order merged n rule: less_induct)
  case less
  show ?case
  proof (cases "width < length paths")
    case False
    with less.prems have "order' = order"
      by (simp add: merge_passes.simps [of cmp cancel paths width order merged n])
    with False less.prems show ?thesis by (intro exI [of _ width]) simp
  next
    case True
    from less.prems(2,4,5) True obtain m k where
      pass: "merge_pass cmp cancel paths order width 0 merged n = Inr (m, k)"
      and rest: "merge_passes cmp cancel paths (saturating_mul width 2) m order k = Inr (order', n')"
      by (auto simp: merge_passes.simps [of cmp cancel paths width order merged n] and_then_Inr)
    have sorted: "runs_sorted cmp paths (2 * width) m"
      by (rule merge_pass_sorts [OF less.prems(1) pass less.prems(3-6)]) simp_all
    show ?thesis
    proof (cases "2 * width < USIZE_LIMIT")
      case small: True
      then have w: "saturating_mul width 2 = 2 * width" by (simp add: saturating_mul_def)
      show ?thesis
        by (rule less.hyps [OF _ less.prems(1) rest [unfolded w] sorted])
          (use less.prems(3-6) True in \<open>simp_all add: runs_sorted_def\<close>)
    next
      case False
      then have "saturating_mul width 2 = 18446744073709551615" by (simp add: saturating_mul_def)
      with rest have "merge_passes cmp cancel paths 18446744073709551615 m order k = Inr (order', n')" by simp
      with less.prems(5) have "order' = m"
        by (simp add: merge_passes.simps [of cmp cancel paths 18446744073709551615 m order k])
      with sorted False less.prems(5) show ?thesis by (intro exI [of _ "2 * width"]) simp
    qed
  qed
qed

section \<open>The stable sort\<close>

text \<open>Positions break ties, so the order of the indices is total and the sorted list is unique.\<close>

definition position_cmp :: "('p \<Rightarrow> 'p \<Rightarrow> ordering) \<Rightarrow> 'p list \<Rightarrow> usize \<Rightarrow> usize \<Rightarrow> ordering" where
  "position_cmp cmp paths i j = then_with (cmp (paths ! i) (paths ! j)) (cmp_of i j)"

lemma position_cmp_total:
  assumes "total_cmp cmp"
  shows "total_cmp (position_cmp cmp paths)"
proof
  fix i j k :: nat
  note swap = total_cmp.swap [OF assms]
  show "position_cmp cmp paths j i = reverse_ordering (position_cmp cmp paths i j)"
    unfolding position_cmp_def swap [of "paths ! j" "paths ! i"]
    by (cases "cmp (paths ! i) (paths ! j)") (simp_all add: cmp_of_def)
  assume "position_cmp cmp paths i j \<noteq> Greater" "position_cmp cmp paths j k \<noteq> Greater"
  then show "position_cmp cmp paths i k \<noteq> Greater"
    using total_cmp.less_le_trans [OF assms, of "paths ! i" "paths ! j" "paths ! k"]
      total_cmp.equal_cong [OF assms, of "paths ! i" "paths ! j" "paths ! k"]
    by (cases "cmp (paths ! i) (paths ! j)"; cases "cmp (paths ! j) (paths ! k)")
      (auto simp: position_cmp_def then_with_simps)
qed

lemma position_cmp_before: "before cmp paths i j \<Longrightarrow> position_cmp cmp paths i j \<noteq> Greater"
  by (auto simp: before_def position_cmp_def then_with_simps)

lemma stable_sort_positions:
  "sorted_wrt (<) is \<Longrightarrow> stable_sort_by (position_cmp cmp paths) is =
     stable_sort_by (\<lambda>i j. cmp (paths ! i) (paths ! j)) is"
proof (induction "is")
  case (Cons i "is")
  have "insert_by (position_cmp cmp paths) i js = insert_by (\<lambda>i j. cmp (paths ! i) (paths ! j)) i js"
    if "\<forall>j\<in>set js. i < j" for js
    using that by (induction js) (auto simp: position_cmp_def then_with_simps)
  moreover have "set (stable_sort_by (\<lambda>i j. cmp (paths ! i) (paths ! j)) is) = set is"
    by (metis mset_stable_sort_by set_mset_mset)
  ultimately show ?case using Cons by simp
qed simp

lemma sorted_positions_unique:
  assumes "total_cmp cmp" and "sorted_wrt (before cmp paths) order" and "set order = {0..<length paths}"
    and "length order = length paths"
  shows "map ((!) paths) order = stable_sort_by cmp paths" and "distinct order"
proof -
  have "card (set order) = length order" using assms(3,4) by simp
  then show d: "distinct order" by (rule card_distinct)
  let ?c = "position_cmp cmp paths"
  have perm: "mset order = mset (stable_sort_by ?c [0..<length paths])"
    using mset_set_set [OF d] assms(3) by simp
  have "order = stable_sort_by ?c [0..<length paths]"
  proof (rule total_cmp.sorted_unique [OF position_cmp_total [OF assms(1)] perm])
    show "sorted_wrt (\<lambda>i j. ?c i j \<noteq> Greater) order"
      using assms(2) by (rule sorted_wrt_mono_rel [rotated]) (rule position_cmp_before)
    show "sorted_wrt (\<lambda>i j. ?c i j \<noteq> Greater) (stable_sort_by ?c [0..<length paths])"
      by (rule total_cmp.sorted_stable_sort_by [OF position_cmp_total [OF assms(1)]])
  qed (simp add: position_cmp_def then_with_simps)
  also have "\<dots> = stable_sort_by (\<lambda>i j. cmp (paths ! i) (paths ! j)) [0..<length paths]"
    by (rule stable_sort_positions) simp
  finally show "map ((!) paths) order = stable_sort_by cmp paths"
    using map_stable_sort_by [of "(!) paths" cmp "[0..<length paths]"] by (simp add: map_nth)
qed

lemma take_slots_eq:
  "distinct order \<Longrightarrow> \<forall>i\<in>set order. i < length slots \<and> slots ! i \<noteq> None \<Longrightarrow>
     take_slots order slots = map (\<lambda>i. the (slots ! i)) order"
proof (induction order arbitrary: slots)
  case (Cons i order)
  have "take_slots order (slots[i := None]) = map (\<lambda>j. the (slots[i := None] ! j)) order"
    by (rule Cons.IH) (use Cons.prems in \<open>auto simp: nth_list_update\<close>)
  also have "\<dots> = map (\<lambda>j. the (slots ! j)) order"
    using Cons.prems by (auto simp: nth_list_update)
  finally show ?case using Cons.prems by auto
qed simp

lemma sort_paths_sorts:
  assumes cmp: "total_cmp cmp" and len: "length paths < USIZE_LIMIT"
    and sort: "sort_paths_cancellable cmp cancel paths n = Inr (paths', n')"
  shows "paths' = stable_sort_by cmp paths"
proof (cases "length paths < 2")
  case True
  then have "stable_sort_by cmp paths = paths" by (cases paths) (auto simp: less_Suc_eq)
  with True sort show ?thesis by (simp add: sort_paths_cancellable_def and_then_Inr)
next
  case False
  with sort obtain order k where
    passes: "merge_passes cmp cancel paths 1 [0..<length paths] (replicate (length paths) 0) n = Inr (order, k)"
    and taken: "paths' = take_slots order (map Some paths)"
    by (auto simp: sort_paths_cancellable_def and_then_Inr)
  have "run_sorted cmp paths 1 [0..<length paths] start" if "start < length paths" for start
    using that by (simp add: run_sorted_def run_middle_def Let_def slice_Cons)
  then have "runs_sorted cmp paths 1 [0..<length paths]" by (simp add: runs_sorted_def)
  from merge_passes_sort [OF cmp passes this _ len] obtain width where
    width: "length paths \<le> width" and runs: "runs_sorted cmp paths width order" by auto
  have order: "length order = length paths" using runs by (simp add: runs_sorted_def)
  have "run_sorted cmp paths width order 0" using runs False unfolding runs_sorted_def by (auto dest: spec [of _ 0])
  then have sorted: "sorted_wrt (before cmp paths) order" "set order = {0..<length paths}"
    using width order by (simp_all add: run_sorted_def run_middle_def slice_def)
  note unique = sorted_positions_unique [OF cmp sorted order]
  have "take_slots order (map Some paths) = map (\<lambda>i. the (map Some paths ! i)) order"
    by (rule take_slots_eq [OF unique(2)]) (use sorted(2) in auto)
  also have "\<dots> = map ((!) paths) order" using sorted(2) by simp
  finally show ?thesis by (simp add: taken unique(1))
qed

section \<open>Cancellation\<close>

text \<open>The sort stops early only when a poll asks for it.\<close>

named_theorems cancels \<open>an early stop was requested by a poll\<close>

lemma admission_poll_cancels [cancels]: "admission_poll cancel n = Inl e \<Longrightarrow> \<exists>k. cancel k"
  by (auto simp: admission_poll_def split: if_splits)

lemma merge_both_cancels [cancels]:
  "merge_both cmp cancel paths order middle stop left right out merged n = Inl e \<Longrightarrow> \<exists>k. cancel k"
proof (induction cmp cancel paths order middle stop left right out merged n rule: merge_both.induct)
  case (1 cmp cancel paths order middle stop left right out merged n)
  then show ?case
    by (auto simp: merge_both.simps [of cmp cancel paths order middle stop left right out merged n] and_then_Inl
        split: if_splits dest: cancels)
qed

lemma copy_run_cancels [cancels]:
  "copy_run cancel order stop i out merged n = Inl e \<Longrightarrow> \<exists>k. cancel k"
proof (induction cancel order stop i out merged n rule: copy_run.induct)
  case (1 cancel order stop i out merged n)
  then show ?case
    by (auto simp: copy_run.simps [of cancel order stop i out merged n] and_then_Inl
        split: if_splits dest: cancels)
qed

lemma merge_pass_cancels [cancels]:
  "merge_pass cmp cancel paths order width start merged n = Inl e \<Longrightarrow> \<exists>k. cancel k"
proof (induction cmp cancel paths order width start merged n rule: merge_pass.induct)
  case (1 cmp cancel paths order width start merged n)
  then show ?case
    by (auto simp: merge_pass.simps [of cmp cancel paths order width start merged n] Let_def and_then_Inl
        split: if_splits dest: cancels)
qed

lemma merge_passes_cancels [cancels]:
  "merge_passes cmp cancel paths width order merged n = Inl e \<Longrightarrow> \<exists>k. cancel k"
proof (induction cmp cancel paths width order merged n rule: merge_passes.induct)
  case (1 cmp cancel paths width order merged n)
  then show ?case
    by (auto simp: merge_passes.simps [of cmp cancel paths width order merged n] and_then_Inl
        split: if_splits dest: cancels)
qed

lemma sort_paths_cancels [cancels]:
  "sort_paths_cancellable cmp cancel paths n = Inl e \<Longrightarrow> \<exists>k. cancel k"
  by (auto simp: sort_paths_cancellable_def and_then_Inl split: if_splits dest: cancels)

end
