(* ===== verification/Admission.thy ===== *)
theory Admission
  imports Admission_Sort
begin

text \<open>
  Admission of dropped and picked paths: \<open>crates/darknamer-app/src/admission.rs\<close>. Budgets and
  bounds, the adapter to the file system, and the iterative depth-first walk that turns paths into
  rows of the list. Texts for the user are left out.

  The adapter is a record of operations over a state that is passed along, so its answers may
  change during the walk. The type of paths is open: \<open>path_absolute\<close> is the platform's
  \<open>Path::is_absolute\<close>, and \<open>to_legacy\<close> and \<open>path_units\<close> are its conversions.
\<close>

abbreviation MAX_ADMITTED_SOURCES :: usize where "MAX_ADMITTED_SOURCES \<equiv> 10000"
abbreviation MAX_ADMISSION_DEPTH :: usize where "MAX_ADMISSION_DEPTH \<equiv> 256"
abbreviation MAX_IMPORT_BYTES :: usize where "MAX_IMPORT_BYTES \<equiv> 2097152"
abbreviation MAX_ADMITTED_PATH_BYTES :: usize where "MAX_ADMITTED_PATH_BYTES \<equiv> 4194304"

section \<open>Budgets\<close>

datatype path_budget_reservation = Reserved | Exhausted

record path_budget =
  remaining_bytes :: usize

definition path_budget_new :: path_budget where
  "path_budget_new = \<lparr>remaining_bytes = MAX_ADMITTED_PATH_BYTES\<rparr>"

definition from_remaining_bytes :: "usize \<Rightarrow> path_budget" where
  "from_remaining_bytes n =
     \<lparr>remaining_bytes = (if n < MAX_ADMITTED_PATH_BYTES then n else MAX_ADMITTED_PATH_BYTES)\<rparr>"

definition reserve_utf16_units :: "usize \<Rightarrow> path_budget \<Rightarrow> path_budget_reservation \<times> path_budget" where
  "reserve_utf16_units units budget =
     (case checked_mul units 2 of
        None \<Rightarrow> (Exhausted, budget\<lparr>remaining_bytes := 0\<rparr>)
      | Some bytes \<Rightarrow>
          if remaining_bytes budget < bytes then (Exhausted, budget\<lparr>remaining_bytes := 0\<rparr>)
          else (Reserved, budget\<lparr>remaining_bytes := remaining_bytes budget - bytes\<rparr>))"

record bounded_selected =
  take_count :: usize
  selection_truncated :: bool

definition bounded_selection :: "usize \<Rightarrow> usize \<Rightarrow> bounded_selected" where
  "bounded_selection reported remaining =
     (let witness_bound = saturating_add remaining 1
      in \<lparr>take_count = min reported witness_bound, selection_truncated = remaining < reported\<rparr>)"

section \<open>Importing text\<close>

text \<open>The loop returns early at the first line past the limit.\<close>

fun bounded_lines :: "usize \<Rightarrow> u16 list list \<Rightarrow> legacy_text list \<Rightarrow> legacy_text list \<times> bool" where
  "bounded_lines limit [] lines = (lines, False)"
| "bounded_lines limit (units # rest) lines =
     (let first = (case position (\<lambda>u. \<not> is_trim_unit u) units of None \<Rightarrow> length units | Some i \<Rightarrow> i);
          last = (case rposition (\<lambda>u. \<not> is_trim_unit u) units of None \<Rightarrow> first | Some i \<Rightarrow> i + 1)
      in if first = last then bounded_lines limit rest lines
         else let lines = lines @ [take (last - first) (drop first units)]
              in if limit < length lines then (take limit lines, True)
                 else bounded_lines limit rest lines)"

definition bounded_import_lines :: "legacy_text \<Rightarrow> usize \<Rightarrow> legacy_text list \<times> bool" where
  "bounded_import_lines text limit = bounded_lines limit (split_units (\<lambda>u. u = LF) text) []"

section \<open>The adapter and the report\<close>

datatype admission_mode = Direct | Recurse

datatype admission_issue_kind =
    RelativePath | MetadataFailed | ReadDirectoryFailed | ReparsePoint | LimitReached
  | RepeatedDirectory | DepthExceeded | PathBudgetExceeded

datatype admission_operation = Op_Validation | Op_Metadata | Op_ReadDirectory

record admission_adapter_error =
  adapter_operation :: admission_operation
  adapter_code :: "u32 option"

record 'p admission_issue =
  issue_path :: 'p
  issue_reason :: admission_issue_kind
  issue_operation :: "admission_operation option"
  issue_code :: "u32 option"

record admission_metadata =
  meta_is_directory :: bool
  meta_is_reparse_point :: bool
  directory_identity :: "entry_identity option"
  meta_size :: u64
  meta_created :: u64
  meta_modified :: u64

record 'p admission_children =
  child_paths :: "'p list"
  had_errors :: bool
  truncated :: bool
  path_budget_exhausted :: bool

record admission_read_budget =
  path_limit :: usize
  remaining_path_bytes :: usize

datatype admission_read_error = Read_Cancelled | Read_Failed admission_adapter_error

text \<open>\<open>read_children\<close> is \<open>read_children_cancellable\<close>: it polls, and returns the polls so far.\<close>

record ('p, 's) admission_adapter =
  path_absolute :: "'p \<Rightarrow> bool"
  validate_path :: "'p \<Rightarrow> 's \<Rightarrow> (admission_adapter_error + unit) \<times> 's"
  entry_metadata :: "'p \<Rightarrow> 's \<Rightarrow> (admission_adapter_error + admission_metadata) \<times> 's"
  read_children :: "'p \<Rightarrow> admission_read_budget \<Rightarrow> cancellation \<Rightarrow> nat \<Rightarrow> 's \<Rightarrow>
    (admission_read_error + 'p admission_children) \<times> nat \<times> 's"
  to_legacy :: "'p \<Rightarrow> legacy_text"
  path_units_of :: "'p \<Rightarrow> usize"

text \<open>The default method of the trait wraps an enumeration that does not poll.\<close>

definition read_children_default ::
  "('p \<Rightarrow> admission_read_budget \<Rightarrow> 's \<Rightarrow> (admission_adapter_error + 'p admission_children) \<times> 's) \<Rightarrow>
   'p \<Rightarrow> admission_read_budget \<Rightarrow> cancellation \<Rightarrow> nat \<Rightarrow> 's \<Rightarrow>
   (admission_read_error + 'p admission_children) \<times> nat \<times> 's" where
  "read_children_default enumerate_children path budget cancel n s =
     (if cancel n then (Inl Read_Cancelled, n + 1, s)
      else case enumerate_children path budget s of
        (Inl e, s) \<Rightarrow> (Inl (Read_Failed e), n + 1, s)
      | (Inr children, s) \<Rightarrow>
          if cancel (n + 1) then (Inl Read_Cancelled, n + 2, s) else (Inr children, n + 2, s))"

record 'p admission_report =
  report_items :: "legacy_list_item list"
  report_issues :: "'p admission_issue list"

definition admission_issue_of ::
  "'p \<Rightarrow> admission_issue_kind \<Rightarrow> admission_adapter_error option \<Rightarrow> 'p admission_issue" where
  "admission_issue_of path kind error =
     \<lparr>issue_path = path, issue_reason = kind, issue_operation = map_option adapter_operation error,
      issue_code = Option.bind error adapter_code\<rparr>"

section \<open>The walk\<close>

text \<open>The stack holds a path, its depth and its bytes, with the top first.\<close>

record ('p, 's) admission_walk =
  wk_stack :: "('p \<times> usize \<times> usize) list"
  wk_stack_bytes :: usize
  wk_budget :: path_budget
  wk_seen :: "entry_identity set"
  wk_inspected :: usize
  wk_report :: "'p admission_report"
  wk_started :: "usize list"
  wk_polls :: nat
  wk_adapter :: 's

datatype 'w walk_next = Continue 'w | Break 'w

definition walk_poll ::
  "cancellation \<Rightarrow> ('p, 's) admission_walk \<Rightarrow> admission_cancelled + ('p, 's) admission_walk" where
  "walk_poll cancel w = and_then (admission_poll cancel (wk_polls w)) (\<lambda>n. Inr (w\<lparr>wk_polls := n\<rparr>))"

definition push_issue ::
  "'p \<Rightarrow> admission_issue_kind \<Rightarrow> admission_adapter_error option \<Rightarrow>
   ('p, 's) admission_walk \<Rightarrow> ('p, 's) admission_walk" where
  "push_issue path kind error w =
     w\<lparr>wk_report := (wk_report w)\<lparr>report_issues :=
         report_issues (wk_report w) @ [admission_issue_of path kind error]\<rparr>\<rparr>"

definition push_path ::
  "('p, 's) admission_adapter \<Rightarrow> usize \<Rightarrow> 'p \<Rightarrow> ('p, 's) admission_walk \<Rightarrow> ('p, 's) admission_walk" where
  "push_path ops depth path w =
     (let path_bytes = saturating_mul (path_units_of ops path) 2
      in w\<lparr>wk_stack := (path, depth, path_bytes) # wk_stack w,
           wk_stack_bytes := saturating_add (wk_stack_bytes w) path_bytes\<rparr>)"

text \<open>Both loops that push paths poll before each of them; they run over the reversed paths.\<close>

fun push_paths ::
  "('p, 's) admission_adapter \<Rightarrow> cancellation \<Rightarrow> usize \<Rightarrow> 'p list \<Rightarrow> ('p, 's) admission_walk \<Rightarrow>
   admission_cancelled + ('p, 's) admission_walk" where
  "push_paths ops cancel depth [] w = Inr w"
| "push_paths ops cancel depth (path # paths) w =
     and_then (walk_poll cancel w) (\<lambda>w. push_paths ops cancel depth paths (push_path ops depth path w))"

text \<open>How many of the returned children fit the byte budget, and whether one did not.\<close>

fun verified_children ::
  "('p, 's) admission_adapter \<Rightarrow> usize \<Rightarrow> usize \<Rightarrow> usize \<Rightarrow> 'p list \<Rightarrow> usize \<times> bool" where
  "verified_children ops limit verified_bytes verified_len [] = (verified_len, False)"
| "verified_children ops limit verified_bytes verified_len (child # children) =
     (case checked_mul (path_units_of ops child) 2 of
        None \<Rightarrow> (verified_len, True)
      | Some child_bytes \<Rightarrow>
          (case checked_add verified_bytes child_bytes of
             None \<Rightarrow> (verified_len, True)
           | Some next_bytes \<Rightarrow>
               if limit < next_bytes then (verified_len, True)
               else verified_children ops limit next_bytes (verified_len + 1) children))"

definition bounded_children ::
  "('p, 's) admission_adapter \<Rightarrow> admission_read_budget \<Rightarrow> 'p admission_children \<Rightarrow> 'p admission_children" where
  "bounded_children ops budget children =
     (let children = (if path_limit budget < length (child_paths children)
                      then children\<lparr>child_paths := take (path_limit budget) (child_paths children),
                                    truncated := True\<rparr>
                      else children);
          (verified_len, exhausted) =
            verified_children ops (remaining_path_bytes budget) 0 0 (child_paths children)
      in children\<lparr>child_paths := take verified_len (child_paths children),
                  path_budget_exhausted := path_budget_exhausted children \<or> exhausted\<rparr>)"

definition take_children ::
  "('p, 's) admission_adapter \<Rightarrow> ('p \<Rightarrow> 'p \<Rightarrow> ordering) \<Rightarrow> cancellation \<Rightarrow> admission_read_budget \<Rightarrow>
   'p \<Rightarrow> usize \<Rightarrow> 'p admission_children \<Rightarrow> ('p, 's) admission_walk \<Rightarrow>
   admission_cancelled + ('p, 's) admission_walk" where
  "take_children ops cmp cancel budget path depth children w =
     (let children = bounded_children ops budget children
      in and_then (sort_paths_cancellable cmp cancel (child_paths children) (wk_polls w)) (\<lambda>(paths, n).
         and_then (push_paths ops cancel (depth + 1) (rev paths) (w\<lparr>wk_polls := n\<rparr>)) (\<lambda>w.
           let w = (if had_errors children then push_issue path ReadDirectoryFailed None w else w);
               w = (if truncated children then push_issue path LimitReached None w else w)
           in Inr (if path_budget_exhausted children then push_issue path PathBudgetExceeded None w else w))))"

definition admit_directory ::
  "('p, 's) admission_adapter \<Rightarrow> ('p \<Rightarrow> 'p \<Rightarrow> ordering) \<Rightarrow> cancellation \<Rightarrow> usize \<Rightarrow> 'p \<Rightarrow> usize \<Rightarrow>
   ('p, 's) admission_walk \<Rightarrow> admission_cancelled + ('p, 's) admission_walk walk_next" where
  "admit_directory ops cmp cancel capacity path depth w =
     (if MAX_ADMISSION_DEPTH \<le> depth then Inr (Continue (push_issue path DepthExceeded None w))
      else let remaining = saturating_sub (saturating_sub capacity (wk_inspected w)) (length (wk_stack w))
      in if remaining = 0 then Inr (Break (push_issue path LimitReached None w))
      else let budget = \<lparr>path_limit = remaining,
                         remaining_path_bytes = saturating_sub (remaining_bytes (wk_budget w)) (wk_stack_bytes w)\<rparr>
      in case read_children ops path budget cancel (wk_polls w) (wk_adapter w) of
           (result, n, s) \<Rightarrow>
             let w = w\<lparr>wk_polls := n, wk_adapter := s\<rparr>
             in case result of
                  Inl Read_Cancelled \<Rightarrow> Inl Admission_Cancelled
                | Inl (Read_Failed error) \<Rightarrow>
                    Inr (Continue (push_issue path ReadDirectoryFailed (Some error) w))
                | Inr children \<Rightarrow>
                    and_then (take_children ops cmp cancel budget path depth children w)
                      (\<lambda>w. Inr (Continue w)))"

definition admission_row :: "('p, 's) admission_adapter \<Rightarrow> 'p \<Rightarrow> admission_metadata \<Rightarrow> legacy_list_item" where
  "admission_row ops path metadata =
     new_with_actual_size (to_legacy ops path) (meta_is_directory metadata)
       (ucast (meta_size metadata)) (meta_size metadata) (meta_created metadata) (meta_modified metadata)"

definition admit_row ::
  "('p, 's) admission_adapter \<Rightarrow> 'p \<Rightarrow> admission_metadata \<Rightarrow> ('p, 's) admission_walk \<Rightarrow>
   ('p, 's) admission_walk walk_next" where
  "admit_row ops path metadata w =
     (case reserve_utf16_units (length (to_legacy ops path)) (wk_budget w) of
        (Exhausted, budget) \<Rightarrow> Break (push_issue path PathBudgetExceeded None (w\<lparr>wk_budget := budget\<rparr>))
      | (Reserved, budget) \<Rightarrow>
          Continue (w\<lparr>wk_budget := budget,
            wk_report := (wk_report w)\<lparr>report_items :=
              report_items (wk_report w) @ [admission_row ops path metadata]\<rparr>\<rparr>))"

text \<open>What happens to a candidate whose metadata was read.\<close>

definition admit_inspected ::
  "('p, 's) admission_adapter \<Rightarrow> ('p \<Rightarrow> 'p \<Rightarrow> ordering) \<Rightarrow> cancellation \<Rightarrow> admission_mode \<Rightarrow> usize \<Rightarrow>
   'p \<Rightarrow> usize \<Rightarrow> admission_metadata \<Rightarrow> ('p, 's) admission_walk \<Rightarrow>
   admission_cancelled + ('p, 's) admission_walk walk_next" where
  "admit_inspected ops cmp cancel mode capacity path depth metadata w =
     (if meta_is_reparse_point metadata then Inr (Continue (push_issue path ReparsePoint None w))
      else if meta_is_directory metadata
      then if (case directory_identity metadata of None \<Rightarrow> False | Some i \<Rightarrow> i \<in> wk_seen w)
           then Inr (Continue (push_issue path RepeatedDirectory None w))
           else let w = w\<lparr>wk_seen := (case directory_identity metadata of
                            None \<Rightarrow> wk_seen w | Some i \<Rightarrow> insert i (wk_seen w))\<rparr>
                in if mode = Recurse then admit_directory ops cmp cancel capacity path depth w
                   else Inr (admit_row ops path metadata w)
      else Inr (admit_row ops path metadata w))"

definition admit_entry ::
  "('p, 's) admission_adapter \<Rightarrow> ('p \<Rightarrow> 'p \<Rightarrow> ordering) \<Rightarrow> cancellation \<Rightarrow> admission_mode \<Rightarrow> usize \<Rightarrow>
   'p \<Rightarrow> usize \<Rightarrow> usize \<Rightarrow> ('p, 's) admission_walk \<Rightarrow>
   admission_cancelled + ('p, 's) admission_walk walk_next" where
  "admit_entry ops cmp cancel mode capacity path depth path_bytes w =
     and_then (walk_poll cancel (w\<lparr>wk_stack_bytes := saturating_sub (wk_stack_bytes w) path_bytes\<rparr>)) (\<lambda>w.
       if capacity \<le> wk_inspected w then Inr (Break (push_issue path LimitReached None w))
       else let w = w\<lparr>wk_inspected := wk_inspected w + 1, wk_started := wk_started w @ [wk_inspected w + 1]\<rparr>
       in if \<not> path_absolute ops path then Inr (Continue (push_issue path RelativePath None w))
       else case validate_path ops path (wk_adapter w) of
         (Inl error, s) \<Rightarrow> Inr (Continue (push_issue path MetadataFailed (Some error) (w\<lparr>wk_adapter := s\<rparr>)))
       | (Inr _, s) \<Rightarrow> and_then (walk_poll cancel (w\<lparr>wk_adapter := s\<rparr>)) (\<lambda>w.
           case entry_metadata ops path (wk_adapter w) of
             (Inl error, s) \<Rightarrow> Inr (Continue (push_issue path MetadataFailed (Some error) (w\<lparr>wk_adapter := s\<rparr>)))
           | (Inr metadata, s) \<Rightarrow> and_then (walk_poll cancel (w\<lparr>wk_adapter := s\<rparr>)) (\<lambda>w.
               admit_inspected ops cmp cancel mode capacity path depth metadata w)))"

lemma walk_poll_Inr [simp]:
  "walk_poll cancel w = Inr w' \<longleftrightarrow> \<not> cancel (wk_polls w) \<and> w' = w\<lparr>wk_polls := wk_polls w + 1\<rparr>"
  by (auto simp: walk_poll_def and_then_Inr)

lemma push_issue_fields [simp]:
  "wk_stack (push_issue path kind error w) = wk_stack w"
  "wk_stack_bytes (push_issue path kind error w) = wk_stack_bytes w"
  "wk_budget (push_issue path kind error w) = wk_budget w"
  "wk_inspected (push_issue path kind error w) = wk_inspected w"
  "wk_started (push_issue path kind error w) = wk_started w"
  "report_items (wk_report (push_issue path kind error w)) = report_items (wk_report w)"
  "report_issues (wk_report (push_issue path kind error w)) \<noteq> []"
  by (simp_all add: push_issue_def)

lemma push_paths_Inr:
  "push_paths ops cancel depth paths w = Inr w' \<Longrightarrow>
     wk_budget w' = wk_budget w \<and> wk_inspected w' = wk_inspected w \<and> wk_started w' = wk_started w \<and>
     wk_report w' = wk_report w \<and> wk_seen w' = wk_seen w \<and>
     map (\<lambda>(path, depth, _). (path, depth)) (wk_stack w') =
       map (\<lambda>path. (path, depth)) (rev paths) @ map (\<lambda>(path, depth, _). (path, depth)) (wk_stack w)"
  by (induction paths arbitrary: w) (auto simp: and_then_Inr push_path_def Let_def)

lemma take_children_inspected:
  "take_children ops cmp cancel budget path depth children w = Inr w' \<Longrightarrow> wk_inspected w' = wk_inspected w"
  by (auto simp: take_children_def Let_def and_then_Inr dest!: push_paths_Inr)

lemma admit_row_inspected: "admit_row ops path metadata w = Continue w' \<Longrightarrow> wk_inspected w' = wk_inspected w"
  by (auto simp: admit_row_def split: prod.splits path_budget_reservation.splits)

lemma admit_directory_inspected:
  "admit_directory ops cmp cancel capacity path depth w = Inr (Continue w') \<Longrightarrow> wk_inspected w' = wk_inspected w"
  by (auto simp: admit_directory_def Let_def and_then_Inr split: if_splits prod.splits sum.splits
      admission_read_error.splits dest!: take_children_inspected)

lemma admit_inspected_inspected:
  "admit_inspected ops cmp cancel mode capacity path depth metadata w = Inr (Continue w') \<Longrightarrow>
     wk_inspected w' = wk_inspected w"
  by (auto simp: admit_inspected_def Let_def split: if_splits
      dest!: admit_directory_inspected admit_row_inspected)

text \<open>Every iteration that continues has inspected one more candidate, within the capacity.\<close>

lemma admit_entry_inspected:
  assumes "admit_entry ops cmp cancel mode capacity path depth path_bytes w = Inr (Continue w')"
  shows "wk_inspected w' = wk_inspected w + 1 \<and> wk_inspected w < capacity"
  using assms by (auto simp: admit_entry_def Let_def and_then_Inr split: if_splits prod.splits sum.splits
      dest!: admit_inspected_inspected)

function admit_loop ::
  "('p, 's) admission_adapter \<Rightarrow> ('p \<Rightarrow> 'p \<Rightarrow> ordering) \<Rightarrow> cancellation \<Rightarrow> admission_mode \<Rightarrow> usize \<Rightarrow>
   ('p, 's) admission_walk \<Rightarrow> admission_cancelled + ('p, 's) admission_walk" where
  "admit_loop ops cmp cancel mode capacity w =
     (case wk_stack w of
        [] \<Rightarrow> Inr w
      | (path, depth, path_bytes) # stack \<Rightarrow>
          case admit_entry ops cmp cancel mode capacity path depth path_bytes (w\<lparr>wk_stack := stack\<rparr>) of
            Inl e \<Rightarrow> Inl e
          | Inr (Break w) \<Rightarrow> Inr w
          | Inr (Continue w) \<Rightarrow> admit_loop ops cmp cancel mode capacity w)"
  by pat_completeness auto
termination
  by (relation "measure (\<lambda>(ops, cmp, cancel, mode, capacity, w). capacity - wk_inspected w)")
    (auto dest!: admit_entry_inspected)

declare admit_loop.simps [simp del]

definition walk_start :: "path_budget \<Rightarrow> 's \<Rightarrow> ('p, 's) admission_walk" where
  "walk_start path_budget s =
     \<lparr>wk_stack = [], wk_stack_bytes = 0, wk_budget = path_budget, wk_seen = {}, wk_inspected = 0,
      wk_report = \<lparr>report_items = [], report_issues = []\<rparr>, wk_started = [], wk_polls = 0, wk_adapter = s\<rparr>"

text \<open>The result carries the report, and the counts the progress observer was called with.\<close>

definition collect_admission_with_progress ::
  "('p, 's) admission_adapter \<Rightarrow> 'p list \<Rightarrow> admission_mode \<Rightarrow> usize \<Rightarrow> path_budget \<Rightarrow>
   ('p \<Rightarrow> 'p \<Rightarrow> ordering) \<Rightarrow> cancellation \<Rightarrow> 's \<Rightarrow> admission_cancelled + ('p, 's) admission_walk" where
  "collect_admission_with_progress ops roots mode capacity path_budget cmp cancel s =
     (let capacity = min capacity MAX_ADMITTED_SOURCES
      in and_then (walk_poll cancel (walk_start path_budget s)) (\<lambda>w.
         let (w, roots) = (if capacity < length roots
                           then (push_issue (roots ! capacity) LimitReached None w, take capacity roots)
                           else (w, roots))
         in and_then (sort_paths_cancellable cmp cancel roots (wk_polls w)) (\<lambda>(roots, n).
            and_then (push_paths ops cancel 0 (rev roots) (w\<lparr>wk_polls := n\<rparr>)) (\<lambda>w.
              admit_loop ops cmp cancel mode capacity w))))"

definition collect_admission_cancellable_with_budget ::
  "('p, 's) admission_adapter \<Rightarrow> 'p list \<Rightarrow> admission_mode \<Rightarrow> usize \<Rightarrow> path_budget \<Rightarrow>
   ('p \<Rightarrow> 'p \<Rightarrow> ordering) \<Rightarrow> cancellation \<Rightarrow> 's \<Rightarrow> admission_cancelled + 'p admission_report" where
  "collect_admission_cancellable_with_budget ops roots mode capacity path_budget cmp cancel s =
     and_then (collect_admission_with_progress ops roots mode capacity path_budget cmp cancel s)
       (\<lambda>w. Inr (wk_report w))"

definition collect_admission_cancellable ::
  "('p, 's) admission_adapter \<Rightarrow> 'p list \<Rightarrow> admission_mode \<Rightarrow> usize \<Rightarrow>
   ('p \<Rightarrow> 'p \<Rightarrow> ordering) \<Rightarrow> cancellation \<Rightarrow> 's \<Rightarrow> admission_cancelled + 'p admission_report" where
  "collect_admission_cancellable ops roots mode capacity cmp cancel s =
     collect_admission_cancellable_with_budget ops roots mode capacity path_budget_new cmp cancel s"

text \<open>\<open>None\<close> is the branch the code marks as unreachable.\<close>

definition collect_admission ::
  "('p, 's) admission_adapter \<Rightarrow> 'p list \<Rightarrow> admission_mode \<Rightarrow> usize \<Rightarrow> ('p \<Rightarrow> 'p \<Rightarrow> ordering) \<Rightarrow> 's \<Rightarrow>
   'p admission_report option" where
  "collect_admission ops roots mode capacity cmp s =
     (case collect_admission_cancellable ops roots mode capacity cmp (\<lambda>_. False) s of
        Inr report \<Rightarrow> Some report
      | Inl Admission_Cancelled \<Rightarrow> None)"

end
