(* ===== verification/Admission_Correct.thy ===== *)
theory Admission_Correct
  imports Admission
begin

text \<open>
  What the walk of admission guarantees: it stops early only on request, its rows stay within the
  capacity and the byte budget whatever the adapter answers, and without an issue they are the rows
  of the recursive listing, in its order. The contracts of an adapter are locales; the adapter of
  the repository's own tests satisfies them.
\<close>

section \<open>Cancellation\<close>

lemma walk_poll_cancels [cancels]: "walk_poll cancel w = Inl e \<Longrightarrow> \<exists>k. cancel k"
  by (auto simp: walk_poll_def and_then_Inl dest: cancels)

lemma push_paths_cancels [cancels]: "push_paths ops cancel depth paths w = Inl e \<Longrightarrow> \<exists>k. cancel k"
  by (induction paths arbitrary: w) (auto simp: and_then_Inl dest: cancels)

lemma take_children_cancels [cancels]:
  "take_children ops cmp cancel budget path depth children w = Inl e \<Longrightarrow> \<exists>k. cancel k"
  by (auto simp: take_children_def Let_def and_then_Inl dest: cancels)

text \<open>An adapter reports a cancelled read only when a poll asked for it.\<close>

locale polling_adapter =
  fixes ops :: "('p, 's) admission_adapter"
  assumes read_cancelled:
    "read_children ops path budget cancel n s = (Inl Read_Cancelled, n', s') \<Longrightarrow> \<exists>k. cancel k"
begin

lemma admit_directory_cancels [cancels]:
  "admit_directory ops cmp cancel capacity path depth w = Inl e \<Longrightarrow> \<exists>k. cancel k"
  by (auto simp: admit_directory_def Let_def and_then_Inl split: if_splits prod.splits sum.splits
      admission_read_error.splits dest: cancels read_cancelled)

lemma admit_inspected_cancels [cancels]:
  "admit_inspected ops cmp cancel mode capacity path depth metadata w = Inl e \<Longrightarrow> \<exists>k. cancel k"
  by (auto simp: admit_inspected_def Let_def split: if_splits dest: cancels)

lemma admit_entry_cancels [cancels]:
  "admit_entry ops cmp cancel mode capacity path depth path_bytes w = Inl e \<Longrightarrow> \<exists>k. cancel k"
  by (auto simp: admit_entry_def Let_def and_then_Inl split: if_splits prod.splits sum.splits dest: cancels)

lemma admit_loop_cancels [cancels]:
  "admit_loop ops cmp cancel mode capacity w = Inl e \<Longrightarrow> \<exists>k. cancel k"
proof (induction "capacity - wk_inspected w" arbitrary: w rule: less_induct)
  case less
  then obtain path depth bytes stack where
    w: "wk_stack w = (path, depth, bytes) # stack"
    by (cases "wk_stack w") (auto simp: admit_loop.simps [of ops cmp cancel mode capacity w])
  show ?case
  proof (cases "admit_entry ops cmp cancel mode capacity path depth bytes (w\<lparr>wk_stack := stack\<rparr>)")
    case (Inl e')
    then show ?thesis by (rule admit_entry_cancels)
  next
    case (Inr next_walk)
    with less.prems w obtain w' where cont: "next_walk = Continue w'"
      and rest: "admit_loop ops cmp cancel mode capacity w' = Inl e"
      by (cases next_walk) (auto simp: admit_loop.simps [of ops cmp cancel mode capacity w])
    from admit_entry_inspected [OF Inr [unfolded cont]]
    have "capacity - wk_inspected w' < capacity - wk_inspected w" by auto
    from less.hyps [OF this rest] show ?thesis .
  qed
qed

lemma collect_cancels:
  "collect_admission_with_progress ops roots mode capacity path_budget cmp cancel s = Inl e \<Longrightarrow> \<exists>k. cancel k"
  by (auto simp: collect_admission_with_progress_def Let_def and_then_Inl split: if_splits dest: cancels)

lemma collect_never_cancelled:
  "\<exists>report. collect_admission ops roots mode capacity cmp s = Some report"
  by (auto simp: collect_admission_def collect_admission_cancellable_def
      collect_admission_cancellable_with_budget_def and_then_Inl split: sum.split admission_cancelled.split
      dest: collect_cancels)

end

section \<open>Bounds\<close>

text \<open>A row of the report was seen by the adapter as what it says.\<close>

definition admitted_row ::
  "('p, 's) admission_adapter \<Rightarrow> admission_mode \<Rightarrow> legacy_list_item \<Rightarrow> bool" where
  "admitted_row ops mode item \<longleftrightarrow>
     (\<exists>path metadata. path_absolute ops path \<and> (\<exists>s. fst (validate_path ops path s) = Inr ()) \<and>
        (\<exists>s. fst (entry_metadata ops path s) = Inr metadata) \<and> \<not> meta_is_reparse_point metadata \<and>
        (mode = Recurse \<longrightarrow> \<not> meta_is_directory metadata) \<and> item = admission_row ops path metadata)"

definition source_bytes :: "legacy_list_item list \<Rightarrow> nat" where
  "source_bytes rows = sum_list (map (\<lambda>item. 2 * length (source_path item)) rows)"

lemma source_bytes_simps [simp]:
  "source_bytes [] = 0"
  "source_bytes (rows @ [item]) = source_bytes rows + 2 * length (source_path item)"
  by (simp_all add: source_bytes_def)

definition walk_bounded ::
  "('p, 's) admission_adapter \<Rightarrow> admission_mode \<Rightarrow> usize \<Rightarrow> nat \<Rightarrow> ('p, 's) admission_walk \<Rightarrow> bool" where
  "walk_bounded ops mode capacity bytes w \<longleftrightarrow>
     wk_inspected w + length (wk_stack w) \<le> capacity \<and> wk_started w = map Suc [0..<wk_inspected w] \<and>
     length (report_items (wk_report w)) \<le> wk_inspected w \<and>
     source_bytes (report_items (wk_report w)) + remaining_bytes (wk_budget w) \<le> bytes \<and>
     (\<forall>item\<in>set (report_items (wk_report w)). admitted_row ops mode item)"

lemma walk_bounded_push_issue [simp]:
  "walk_bounded ops mode capacity bytes (push_issue path kind error w) = walk_bounded ops mode capacity bytes w"
  by (simp add: walk_bounded_def)

lemma push_paths_bounded:
  assumes "push_paths ops cancel depth paths w = Inr w'" and "walk_bounded ops mode capacity bytes w"
    and "wk_inspected w + length (wk_stack w) + length paths \<le> capacity"
  shows "walk_bounded ops mode capacity bytes w'"
proof -
  note p = push_paths_Inr [OF assms(1)]
  then have "map (\<lambda>(path, depth, _). (path, depth)) (wk_stack w') =
       map (\<lambda>path. (path, depth)) (rev paths) @ map (\<lambda>(path, depth, _). (path, depth)) (wk_stack w)" by blast
  from arg_cong [OF this, of length] have "length (wk_stack w') = length paths + length (wk_stack w)" by simp
  with p assms(2,3) show ?thesis by (simp add: walk_bounded_def)
qed

lemma bounded_children_length [simp]:
  "length (child_paths (bounded_children ops budget children)) \<le> path_limit budget"
  by (auto simp: bounded_children_def Let_def split: prod.split)

lemma sort_paths_length:
  assumes "total_cmp cmp" and "length paths < USIZE_LIMIT"
    and "sort_paths_cancellable cmp cancel paths n = Inr (paths', n')"
  shows "length paths' = length paths"
  using sort_paths_sorts [OF assms] by simp

lemma take_children_bounded:
  assumes "take_children ops cmp cancel budget path depth children w = Inr w'"
    and "total_cmp cmp" and "walk_bounded ops mode capacity bytes w"
    and "wk_inspected w + length (wk_stack w) + path_limit budget \<le> capacity" and "capacity < USIZE_LIMIT"
  shows "walk_bounded ops mode capacity bytes w'"
proof -
  let ?children = "bounded_children ops budget children"
  from assms(1) obtain paths n w1 where
    sort: "sort_paths_cancellable cmp cancel (child_paths ?children) (wk_polls w) = Inr (paths, n)"
    and push: "push_paths ops cancel (depth + 1) (rev paths) (w\<lparr>wk_polls := n\<rparr>) = Inr w1"
    and w': "walk_bounded ops mode capacity bytes w' = walk_bounded ops mode capacity bytes w1"
    by (auto simp: take_children_def Let_def and_then_Inr)
  have limit: "length (child_paths ?children) \<le> path_limit budget" by simp
  with assms(4,5) have "length (child_paths ?children) < USIZE_LIMIT" by linarith
  from sort_paths_length [OF assms(2) this sort] limit have "length paths \<le> path_limit budget" by simp
  with assms(4) have "wk_inspected w + length (wk_stack w) + length paths \<le> capacity" by linarith
  then have "walk_bounded ops mode capacity bytes w1"
    by (intro push_paths_bounded [OF push]) (use assms(3) in \<open>simp_all add: walk_bounded_def\<close>)
  with w' show ?thesis by blast
qed

lemma admit_row_bounded:
  assumes "admit_row ops path metadata w = continuation" and "walk_bounded ops mode capacity bytes w"
    and "length (report_items (wk_report w)) < wk_inspected w"
    and "admitted_row ops mode (admission_row ops path metadata)"
  shows "case continuation of Continue w' \<Rightarrow> walk_bounded ops mode capacity bytes w'
    | Break w' \<Rightarrow> walk_bounded ops mode capacity bytes w'"
  using assms
  by (auto simp: admit_row_def reserve_utf16_units_def walk_bounded_def admission_row_def new_with_actual_size_def
      split: option.splits if_splits)

abbreviation walk_next_all :: "('w \<Rightarrow> bool) \<Rightarrow> 'w walk_next \<Rightarrow> bool" where
  "walk_next_all P continuation \<equiv> (case continuation of Continue w \<Rightarrow> P w | Break w \<Rightarrow> P w)"

lemma admit_directory_bounded:
  assumes "admit_directory ops cmp cancel capacity path depth w = Inr continuation"
    and "total_cmp cmp" and "capacity < USIZE_LIMIT" and "walk_bounded ops mode capacity bytes w"
  shows "walk_next_all (walk_bounded ops mode capacity bytes) continuation"
proof -
  let ?remaining = "capacity - wk_inspected w - length (wk_stack w)"
  have same: "walk_bounded ops mode capacity bytes (w\<lparr>wk_polls := n, wk_adapter := s\<rparr>)" for n s
    using assms(4) by (simp add: walk_bounded_def)
  have kept: "walk_bounded ops mode capacity bytes w'"
    if "take_children ops cmp cancel \<lparr>path_limit = ?remaining, remaining_path_bytes = b\<rparr> path depth children
          (w\<lparr>wk_polls := n, wk_adapter := s\<rparr>) = Inr w'" for b children n s w'
    by (rule take_children_bounded [OF that assms(2) same])
      (use assms(3,4) in \<open>auto simp: walk_bounded_def\<close>)
  show ?thesis
    using assms(1,4) same
    by (auto simp: admit_directory_def saturating_sub_def Let_def and_then_Inr kept
        split: if_splits prod.splits sum.splits admission_read_error.splits)
qed

lemma admit_inspected_bounded:
  assumes "admit_inspected ops cmp cancel mode capacity path depth metadata w = Inr continuation"
    and "total_cmp cmp" and "capacity < USIZE_LIMIT" and "walk_bounded ops mode capacity bytes w"
    and "length (report_items (wk_report w)) < wk_inspected w"
    and seen: "path_absolute ops path" "\<exists>s. fst (validate_path ops path s) = Inr ()"
      "\<exists>s. fst (entry_metadata ops path s) = Inr metadata"
  shows "walk_next_all (walk_bounded ops mode capacity bytes) continuation"
proof -
  define w1 where "w1 = w\<lparr>wk_seen := (case directory_identity metadata of
      None \<Rightarrow> wk_seen w | Some i \<Rightarrow> insert i (wk_seen w))\<rparr>"
  have w1: "walk_bounded ops mode capacity bytes w1" "length (report_items (wk_report w1)) < wk_inspected w1"
    using assms(4,5) by (simp_all add: w1_def walk_bounded_def)
  have row: "admitted_row ops mode (admission_row ops path metadata)"
    if "\<not> meta_is_reparse_point metadata" "mode = Recurse \<longrightarrow> \<not> meta_is_directory metadata"
    using that seen unfolding admitted_row_def by blast
  consider "meta_is_reparse_point metadata" | "\<not> meta_is_reparse_point metadata" "\<not> meta_is_directory metadata"
    | "\<not> meta_is_reparse_point metadata" "meta_is_directory metadata" by blast
  then show ?thesis
  proof cases
    case 1
    with assms(1,4) show ?thesis by (auto simp: admit_inspected_def)
  next
    case 2
    with assms(1) have "admit_row ops path metadata w = continuation" by (simp add: admit_inspected_def)
    from admit_row_bounded [OF this assms(4,5) row] 2 show ?thesis by blast
  next
    case 3
    show ?thesis
    proof (cases "case directory_identity metadata of None \<Rightarrow> False | Some i \<Rightarrow> i \<in> wk_seen w")
      case True
      with 3 assms(1,4) show ?thesis by (auto simp: admit_inspected_def)
    next
      case False
      show ?thesis
      proof (cases "mode = Recurse")
        case True
        with 3 False assms(1) have "admit_directory ops cmp cancel capacity path depth w1 = Inr continuation"
          by (simp add: admit_inspected_def w1_def Let_def)
        from admit_directory_bounded [OF this assms(2,3) w1(1)] show ?thesis .
      next
        case direct: False
        with 3 False assms(1) have "admit_row ops path metadata w1 = continuation"
          by (simp add: admit_inspected_def w1_def Let_def)
        from admit_row_bounded [OF this w1 row] 3 direct show ?thesis by blast
      qed
    qed
  qed
qed

lemma admit_entry_bounded:
  assumes "admit_entry ops cmp cancel mode capacity path depth path_bytes (w\<lparr>wk_stack := stack\<rparr>) = Inr continuation"
    and "total_cmp cmp" and "capacity < USIZE_LIMIT" and "walk_bounded ops mode capacity bytes w"
    and "wk_stack w = entry # stack"
  shows "walk_next_all (walk_bounded ops mode capacity bytes) continuation"
proof -
  define started where "started w1 \<longleftrightarrow> wk_stack w1 = stack \<and> wk_inspected w1 = wk_inspected w + 1 \<and>
    wk_started w1 = wk_started w @ [wk_inspected w + 1] \<and> wk_budget w1 = wk_budget w \<and> wk_report w1 = wk_report w"
    for w1 :: "('a, 'b) admission_walk"
  have bounded: "walk_bounded ops mode capacity bytes w1" "length (report_items (wk_report w1)) < wk_inspected w1"
    if "started w1" for w1
    using assms(4,5) that by (auto simp: walk_bounded_def started_def)
  have room: "wk_inspected w < capacity" using assms(4,5) by (auto simp: walk_bounded_def)
  have inspected: "walk_next_all (walk_bounded ops mode capacity bytes) continuation"
    if "admit_inspected ops cmp cancel mode capacity path depth metadata w1 = Inr continuation" "started w1"
      "path_absolute ops path" "validate_path ops path sv = (Inr (), sv')" "entry_metadata ops path sm = (Inr metadata, sm')"
    for metadata w1 sv sv' sm sm'
    by (rule admit_inspected_bounded [OF that(1) assms(2,3) bounded [OF that(2)] that(3)])
      (metis that(4,5) fst_conv)+
  show ?thesis
    using assms(1) room
    by (auto simp: admit_entry_def Let_def and_then_Inr intro!: bounded(1)
        split: if_splits prod.splits sum.splits elim!: inspected) (simp_all add: started_def)
qed

text \<open>
  The loop keeps the bounds. In particular the check at its head never fires: the frontier is
  bounded when children are read.
\<close>

lemma admit_loop_bounded:
  assumes "admit_loop ops cmp cancel mode capacity w = Inr w'"
    and "total_cmp cmp" and "capacity < USIZE_LIMIT" and "walk_bounded ops mode capacity bytes w"
  shows "walk_bounded ops mode capacity bytes w'"
  using assms(1,4)
proof (induction "capacity - wk_inspected w" arbitrary: w rule: less_induct)
  case less
  show ?case
  proof (cases "wk_stack w")
    case Nil
    with less.prems show ?thesis by (simp add: admit_loop.simps [of ops cmp cancel mode capacity w])
  next
    case (Cons entry stack)
    obtain path depth path_bytes where entry: "entry = (path, depth, path_bytes)" by (cases entry)
    with Cons less.prems(1) obtain continuation where
      step: "admit_entry ops cmp cancel mode capacity path depth path_bytes (w\<lparr>wk_stack := stack\<rparr>) = Inr continuation"
      and rest: "case continuation of Break w1 \<Rightarrow> Inr w' = Inr w1
        | Continue w1 \<Rightarrow> admit_loop ops cmp cancel mode capacity w1 = Inr w'"
      by (auto simp: admit_loop.simps [of ops cmp cancel mode capacity w] split: sum.splits walk_next.splits)
    note kept = admit_entry_bounded [OF step assms(2,3) less.prems(2) Cons]
    show ?thesis
    proof (cases continuation)
      case (Continue w1)
      have "capacity - wk_inspected w1 < capacity - wk_inspected w"
        using admit_entry_inspected [OF step [unfolded Continue]] by auto
      then show ?thesis using less.hyps [of w1] rest kept Continue by simp
    qed (use rest kept in simp)
  qed
qed

text \<open>How the walk starts: with the sorted roots on the stack, and an issue if some were cut off.\<close>

lemma collect_starts:
  assumes "collect_admission_with_progress ops roots mode capacity path_budget cmp cancel s = Inr w"
  obtains w1 paths n w2 where
    "w1 = (if min capacity MAX_ADMITTED_SOURCES < length roots
       then push_issue (roots ! min capacity MAX_ADMITTED_SOURCES) LimitReached None (walk_start path_budget s\<lparr>wk_polls := 1\<rparr>)
       else walk_start path_budget s\<lparr>wk_polls := 1\<rparr>)"
    and "sort_paths_cancellable cmp cancel (take (min capacity MAX_ADMITTED_SOURCES) roots) (wk_polls w1) = Inr (paths, n)"
    and "push_paths ops cancel 0 (rev paths) (w1\<lparr>wk_polls := n\<rparr>) = Inr w2"
    and "admit_loop ops cmp cancel mode (min capacity MAX_ADMITTED_SOURCES) w2 = Inr w"
proof -
  define limit where "limit = min capacity MAX_ADMITTED_SOURCES"
  define w0 :: "('a, 'b) admission_walk" where "w0 = walk_start path_budget s\<lparr>wk_polls := 1\<rparr>"
  define w1 where "w1 = (if limit < length roots then push_issue (roots ! limit) LimitReached None w0 else w0)"
  have polls: "wk_polls (walk_start path_budget s) = 0" by (simp add: walk_start_def)
  from assms have "(let (w, roots) = (if limit < length roots
         then (push_issue (roots ! limit) LimitReached None w0, take limit roots) else (w0, roots))
       in and_then (sort_paths_cancellable cmp cancel roots (wk_polls w)) (\<lambda>(roots, n).
            and_then (push_paths ops cancel 0 (rev roots) (w\<lparr>wk_polls := n\<rparr>)) (\<lambda>w.
              admit_loop ops cmp cancel mode limit w))) = Inr w"
    unfolding collect_admission_with_progress_def Let_def limit_def [symmetric] and_then_Inr walk_poll_Inr polls
    by (auto simp: w0_def)
  then have "and_then (sort_paths_cancellable cmp cancel (take limit roots) (wk_polls w1)) (\<lambda>(roots, n).
      and_then (push_paths ops cancel 0 (rev roots) (w1\<lparr>wk_polls := n\<rparr>)) (\<lambda>w.
        admit_loop ops cmp cancel mode limit w)) = Inr w"
    by (cases "limit < length roots") (simp_all add: w1_def)
  then obtain paths n w2 where "sort_paths_cancellable cmp cancel (take limit roots) (wk_polls w1) = Inr (paths, n)"
    "push_paths ops cancel 0 (rev paths) (w1\<lparr>wk_polls := n\<rparr>) = Inr w2"
    "admit_loop ops cmp cancel mode limit w2 = Inr w"
    by (auto simp: and_then_Inr)
  with that w1_def show thesis unfolding limit_def w0_def by blast
qed

lemma collect_bounded:
  assumes "collect_admission_with_progress ops roots mode capacity path_budget cmp cancel s = Inr w"
    and cmp: "total_cmp cmp"
  shows "walk_bounded ops mode (min capacity MAX_ADMITTED_SOURCES) (remaining_bytes path_budget) w"
proof -
  let ?capacity = "min capacity MAX_ADMITTED_SOURCES"
  let ?roots = "take ?capacity roots"
  from assms(1) obtain w1 paths n w2 where
    w1: "w1 = (if ?capacity < length roots
       then push_issue (roots ! ?capacity) LimitReached None (walk_start path_budget s\<lparr>wk_polls := 1\<rparr>)
       else walk_start path_budget s\<lparr>wk_polls := 1\<rparr>)"
    and sort: "sort_paths_cancellable cmp cancel ?roots (wk_polls w1) = Inr (paths, n)"
    and push: "push_paths ops cancel 0 (rev paths) (w1\<lparr>wk_polls := n\<rparr>) = Inr w2"
    and loop: "admit_loop ops cmp cancel mode ?capacity w2 = Inr w" by (rule collect_starts)
  have start: "walk_bounded ops mode ?capacity (remaining_bytes path_budget) (w1\<lparr>wk_polls := n\<rparr>)"
    "wk_inspected w1 = 0" "wk_stack w1 = []"
    by (simp_all add: w1 walk_bounded_def walk_start_def)
  have "length ?roots < USIZE_LIMIT" by simp
  from sort_paths_length [OF cmp this sort] have "length paths \<le> ?capacity" by (simp only: length_take min.cobounded2)
  then have "walk_bounded ops mode ?capacity (remaining_bytes path_budget) w2"
    by (intro push_paths_bounded [OF push]) (use start in simp_all)
  from admit_loop_bounded [OF loop cmp _ this] show ?thesis by simp
qed

section \<open>The rows of a walk without an issue\<close>

text \<open>The reference: the rows below a path, by recursion over the directory tree.\<close>

primrec listed_rows ::
  "('p \<Rightarrow> 'p \<Rightarrow> ordering) \<Rightarrow> ('p \<Rightarrow> 'p list) \<Rightarrow> ('p \<Rightarrow> bool) \<Rightarrow> ('p \<Rightarrow> legacy_list_item) \<Rightarrow>
   nat \<Rightarrow> 'p \<Rightarrow> legacy_list_item list" where
  "listed_rows cmp children enters row 0 path = (if enters path then [] else [row path])"
| "listed_rows cmp children enters row (Suc depth) path =
     (if enters path
      then concat (map (listed_rows cmp children enters row depth) (stable_sort_by cmp (children path)))
      else [row path])"

text \<open>No issue is ever taken back, so a report without one comes from steps without one.\<close>

definition no_issue :: "('p, 's) admission_walk \<Rightarrow> bool" where
  "no_issue w \<longleftrightarrow> report_issues (wk_report w) = []"

lemma no_issue_push [simp]: "\<not> no_issue (push_issue path kind error w)"
  by (simp add: no_issue_def)

lemma verified_children_all:
  "verified_children ops limit bytes len children = (len', False) \<Longrightarrow> len' = len + length children"
  by (induction ops limit bytes len children rule: verified_children.induct)
    (auto split: option.splits if_splits)

lemma bounded_children_whole:
  assumes "\<not> truncated (bounded_children ops budget children)"
    and "\<not> path_budget_exhausted (bounded_children ops budget children)"
  shows "child_paths (bounded_children ops budget children) = child_paths children \<and>
    \<not> truncated children \<and> \<not> path_budget_exhausted children"
  using assms
  by (auto simp: bounded_children_def Let_def dest!: verified_children_all split: prod.splits if_splits)

lemma had_errors_bounded [simp]: "had_errors (bounded_children ops budget children) = had_errors children"
  by (simp add: bounded_children_def Let_def split: prod.split)

definition stacked :: "('p, 's) admission_walk \<Rightarrow> ('p \<times> usize) list" where
  "stacked w = map (\<lambda>(path, depth, _). (path, depth)) (wk_stack w)"

lemma take_children_no_issue:
  assumes "take_children ops cmp cancel budget path depth children w = Inr w'" and "no_issue w'"
    and cmp: "total_cmp cmp" and limit: "path_limit budget < USIZE_LIMIT"
  shows "no_issue w \<and> report_items (wk_report w') = report_items (wk_report w) \<and>
    stacked w' = map (\<lambda>path. (path, depth + 1)) (stable_sort_by cmp (child_paths children)) @ stacked w \<and>
    \<not> truncated children \<and> \<not> path_budget_exhausted children \<and> \<not> had_errors children"
proof -
  let ?children = "bounded_children ops budget children"
  from assms(1) obtain paths n w1 where
    sort: "sort_paths_cancellable cmp cancel (child_paths ?children) (wk_polls w) = Inr (paths, n)"
    and push: "push_paths ops cancel (depth + 1) (rev paths) (w\<lparr>wk_polls := n\<rparr>) = Inr w1"
    and w': "w' = (let w = (if had_errors children then push_issue path ReadDirectoryFailed None w1 else w1);
                     w = (if truncated ?children then push_issue path LimitReached None w else w)
                 in if path_budget_exhausted ?children then push_issue path PathBudgetExceeded None w else w)"
    by (auto simp: take_children_def Let_def and_then_Inr)
  from assms(2) have flags: "\<not> had_errors children" "\<not> truncated ?children" "\<not> path_budget_exhausted ?children"
    unfolding w' Let_def by (auto split: if_splits)
  then have same: "w' = w1" by (simp add: w')
  note whole = bounded_children_whole [OF flags(2,3)]
  have "length (child_paths ?children) < USIZE_LIMIT"
    using bounded_children_length [of ops budget children] limit by linarith
  from sort_paths_sorts [OF cmp this sort] whole
  have "paths = stable_sort_by cmp (child_paths children)" by simp
  with push_paths_Inr [OF push] assms(2) whole flags(1) show ?thesis
    by (simp add: same stacked_def no_issue_def)
qed

text \<open>
  An adapter over a file system that stands still: the metadata of a path is always the same, and
  a read that reports no error and no bound returned all children, in a fixed order.
\<close>

locale static_adapter = polling_adapter ops
  for ops :: "('p, 's) admission_adapter" +
  fixes children_of :: "'p \<Rightarrow> 'p list" and metadata_of :: "'p \<Rightarrow> admission_metadata"
  assumes metadata_fixed: "entry_metadata ops path s = (Inr metadata, s') \<Longrightarrow> metadata = metadata_of path"
    and children_fixed: "read_children ops path budget cancel n s = (Inr children, n', s') \<Longrightarrow>
      \<not> had_errors children \<Longrightarrow> \<not> truncated children \<Longrightarrow> \<not> path_budget_exhausted children \<Longrightarrow>
      child_paths children = children_of path"
begin

definition rows_below :: "('p \<Rightarrow> 'p \<Rightarrow> ordering) \<Rightarrow> admission_mode \<Rightarrow> nat \<Rightarrow> 'p \<Rightarrow> legacy_list_item list" where
  "rows_below cmp mode = listed_rows cmp children_of
     (\<lambda>path. mode = Recurse \<and> meta_is_directory (metadata_of path))
     (\<lambda>path. admission_row ops path (metadata_of path))"

definition rows_stacked :: "('p \<Rightarrow> 'p \<Rightarrow> ordering) \<Rightarrow> admission_mode \<Rightarrow> ('p \<times> usize) list \<Rightarrow> legacy_list_item list" where
  "rows_stacked cmp mode stack =
     concat (map (\<lambda>(path, depth). rows_below cmp mode (MAX_ADMISSION_DEPTH - depth) path) stack)"

lemma rows_below_row:
  "\<not> (mode = Recurse \<and> meta_is_directory (metadata_of path)) \<Longrightarrow>
     rows_below cmp mode k path = [admission_row ops path (metadata_of path)]"
  by (cases k) (auto simp: rows_below_def)

lemma rows_below_directory:
  assumes "depth < MAX_ADMISSION_DEPTH" and "meta_is_directory (metadata_of path)"
  shows "rows_below cmp Recurse (MAX_ADMISSION_DEPTH - depth) path =
    rows_stacked cmp Recurse (map (\<lambda>path. (path, depth + 1)) (stable_sort_by cmp (children_of path)))"
proof -
  have "MAX_ADMISSION_DEPTH - depth = Suc (MAX_ADMISSION_DEPTH - (depth + 1))" using assms(1) by simp
  then show ?thesis using assms(2) by (simp add: rows_below_def rows_stacked_def comp_def)
qed

lemma admit_row_no_issue:
  assumes "admit_row ops path metadata w = Continue w'"
  shows "no_issue w' = no_issue w \<and> stacked w' = stacked w \<and>
    report_items (wk_report w') = report_items (wk_report w) @ [admission_row ops path metadata]"
  using assms by (auto simp: admit_row_def no_issue_def stacked_def split: prod.splits path_budget_reservation.splits)

lemma admit_directory_no_issue:
  assumes "admit_directory ops cmp cancel capacity path depth w = Inr (Continue w')" and "no_issue w'"
    and cmp: "total_cmp cmp" and "capacity < USIZE_LIMIT" and "meta_is_directory (metadata_of path)"
  shows "no_issue w \<and> report_items (wk_report w') @ rows_stacked cmp Recurse (stacked w') =
    report_items (wk_report w) @ rows_below cmp Recurse (MAX_ADMISSION_DEPTH - depth) path @
      rows_stacked cmp Recurse (stacked w)"
proof -
  let ?budget = "\<lparr>path_limit = capacity - wk_inspected w - length (wk_stack w),
    remaining_path_bytes = remaining_bytes (wk_budget w) - wk_stack_bytes w\<rparr>"
  from assms(1,2) obtain children n s where depth: "depth < MAX_ADMISSION_DEPTH"
    and read: "read_children ops path ?budget cancel (wk_polls w) (wk_adapter w) = (Inr children, n, s)"
    and takes: "take_children ops cmp cancel ?budget path depth children (w\<lparr>wk_polls := n, wk_adapter := s\<rparr>) = Inr w'"
    by (auto simp: admit_directory_def Let_def and_then_Inr saturating_sub_def not_le
        split: if_splits prod.splits sum.splits admission_read_error.splits)
  have "path_limit ?budget < USIZE_LIMIT" using assms(4) by simp
  note t = take_children_no_issue [OF takes assms(2) cmp this]
  have "child_paths children = children_of path"
    by (rule children_fixed [OF read]) (use t in simp_all)
  with t rows_below_directory [OF depth assms(5), of cmp] show ?thesis
    by (simp add: rows_stacked_def no_issue_def stacked_def)
qed

lemma admit_inspected_no_issue:
  assumes "admit_inspected ops cmp cancel mode capacity path depth (metadata_of path) w = Inr (Continue w')"
    and "no_issue w'" and cmp: "total_cmp cmp" and "capacity < USIZE_LIMIT"
  shows "no_issue w \<and> report_items (wk_report w') @ rows_stacked cmp mode (stacked w') =
    report_items (wk_report w) @ rows_below cmp mode (MAX_ADMISSION_DEPTH - depth) path @
      rows_stacked cmp mode (stacked w)"
proof -
  define w1 where "w1 = w\<lparr>wk_seen := (case directory_identity (metadata_of path) of
      None \<Rightarrow> wk_seen w | Some i \<Rightarrow> insert i (wk_seen w))\<rparr>"
  have same: "no_issue w1 = no_issue w" "wk_report w1 = wk_report w" "stacked w1 = stacked w"
    by (simp_all add: w1_def no_issue_def stacked_def)
  consider (row) w2 where "admit_row ops path (metadata_of path) w2 = Continue w'" "w2 = w \<or> w2 = w1"
      "\<not> (mode = Recurse \<and> meta_is_directory (metadata_of path))"
    | (directory) "mode = Recurse" "meta_is_directory (metadata_of path)"
      "admit_directory ops cmp cancel capacity path depth w1 = Inr (Continue w')"
    using assms(1,2) by (auto simp: admit_inspected_def Let_def w1_def split: if_splits)
  then show ?thesis
  proof cases
    case row
    from admit_row_no_issue [OF row(1)] row(2) assms(2) same rows_below_row [OF row(3), of cmp] show ?thesis by auto
  next
    case directory
    from admit_directory_no_issue [OF directory(3) assms(2) cmp assms(4) directory(2)] same directory(1)
    show ?thesis by simp
  qed
qed

lemma admit_entry_no_issue:
  assumes "admit_entry ops cmp cancel mode capacity path depth path_bytes (w\<lparr>wk_stack := stack\<rparr>) = Inr continuation"
    and "case continuation of Continue w' \<Rightarrow> no_issue w' | Break w' \<Rightarrow> no_issue w'"
    and "total_cmp cmp" and "capacity < USIZE_LIMIT" and "wk_stack w = (path, depth, path_bytes) # stack"
  obtains w' where "continuation = Continue w'" and "no_issue w"
    and "report_items (wk_report w') @ rows_stacked cmp mode (stacked w') =
      report_items (wk_report w) @ rows_stacked cmp mode (stacked w)"
proof -
  from assms(1,2) obtain w1 metadata sm sm' where "entry_metadata ops path sm = (Inr metadata, sm')"
    and step: "admit_inspected ops cmp cancel mode capacity path depth metadata w1 = Inr continuation"
    and w1: "wk_stack w1 = stack" "wk_report w1 = wk_report w"
    by (auto simp: admit_entry_def Let_def and_then_Inr split: if_splits prod.splits sum.splits)
  then have step: "admit_inspected ops cmp cancel mode capacity path depth (metadata_of path) w1 = Inr continuation"
    using metadata_fixed by blast
  have "\<exists>w'. continuation = Continue w'"
  proof (cases continuation)
    case (Break w')
    with step assms(2) show ?thesis
      by (auto simp: admit_inspected_def admit_directory_def admit_row_def Let_def and_then_Inr
          split: if_splits prod.splits sum.splits admission_read_error.splits path_budget_reservation.splits)
  qed simp
  then obtain w' where w': "continuation = Continue w'" by blast
  with assms(2) have "no_issue w'" by simp
  from admit_inspected_no_issue [OF step [unfolded w'] this assms(3,4)] w1 assms(5) show thesis
    by (intro that [OF w']) (simp_all add: no_issue_def stacked_def rows_stacked_def)
qed

lemma admit_loop_rows:
  assumes "admit_loop ops cmp cancel mode capacity w = Inr w'" and "no_issue w'"
    and "total_cmp cmp" and "capacity < USIZE_LIMIT"
  shows "no_issue w \<and> report_items (wk_report w') = report_items (wk_report w) @ rows_stacked cmp mode (stacked w)"
  using assms(1)
proof (induction "capacity - wk_inspected w" arbitrary: w rule: less_induct)
  case less
  show ?case
  proof (cases "wk_stack w")
    case Nil
    with less.prems assms(2) show ?thesis
      by (simp add: admit_loop.simps [of ops cmp cancel mode capacity w] stacked_def rows_stacked_def)
  next
    case (Cons entry stack)
    obtain path depth path_bytes where entry: "entry = (path, depth, path_bytes)" by (cases entry)
    with Cons less.prems(1) obtain continuation where
      step: "admit_entry ops cmp cancel mode capacity path depth path_bytes (w\<lparr>wk_stack := stack\<rparr>) = Inr continuation"
      and rest: "case continuation of Break w1 \<Rightarrow> w' = w1
        | Continue w1 \<Rightarrow> admit_loop ops cmp cancel mode capacity w1 = Inr w'"
      by (auto simp: admit_loop.simps [of ops cmp cancel mode capacity w] split: sum.splits walk_next.splits)
    have ih: "no_issue w1 \<and> report_items (wk_report w') = report_items (wk_report w1) @ rows_stacked cmp mode (stacked w1)"
      if "continuation = Continue w1" for w1
    proof (rule less.hyps)
      show "capacity - wk_inspected w1 < capacity - wk_inspected w"
        using admit_entry_inspected [OF step [unfolded that]] by auto
      show "admit_loop ops cmp cancel mode capacity w1 = Inr w'" using rest that by simp
    qed
    have "case continuation of Continue w1 \<Rightarrow> no_issue w1 | Break w1 \<Rightarrow> no_issue w1"
      using ih rest assms(2) by (cases continuation) simp_all
    from admit_entry_no_issue [OF step this assms(3,4) Cons [unfolded entry]] ih show ?thesis by metis
  qed
qed

lemma collect_rows:
  assumes "collect_admission_with_progress ops roots mode capacity path_budget cmp cancel s = Inr w"
    and "no_issue w" and cmp: "total_cmp cmp"
  shows "report_items (wk_report w) =
    concat (map (rows_below cmp mode MAX_ADMISSION_DEPTH) (stable_sort_by cmp roots))"
proof -
  let ?capacity = "min capacity MAX_ADMITTED_SOURCES"
  from assms(1) obtain w1 paths n w2 where
    w1: "w1 = (if ?capacity < length roots
       then push_issue (roots ! ?capacity) LimitReached None (walk_start path_budget s\<lparr>wk_polls := 1\<rparr>)
       else walk_start path_budget s\<lparr>wk_polls := 1\<rparr>)"
    and sort: "sort_paths_cancellable cmp cancel (take ?capacity roots) (wk_polls w1) = Inr (paths, n)"
    and push: "push_paths ops cancel 0 (rev paths) (w1\<lparr>wk_polls := n\<rparr>) = Inr w2"
    and loop: "admit_loop ops cmp cancel mode ?capacity w2 = Inr w" by (rule collect_starts)
  have rows: "no_issue w2" "report_items (wk_report w) = report_items (wk_report w2) @ rows_stacked cmp mode (stacked w2)"
    using admit_loop_rows [OF loop assms(2) cmp] by simp_all
  note p = push_paths_Inr [OF push]
  with rows(1) have "no_issue w1" by (simp add: no_issue_def)
  then have all: "length roots \<le> ?capacity" and start: "report_items (wk_report w1) = []" "wk_stack w1 = []"
    by (auto simp: w1 walk_start_def not_less simp del: min_less_iff_conj split: if_splits)
  have "length (take ?capacity roots) < USIZE_LIMIT" by simp
  from sort_paths_sorts [OF cmp this sort] all have "paths = stable_sort_by cmp roots" by simp
  moreover have "stacked w2 = map (\<lambda>path. (path, 0)) paths" using p start by (simp add: stacked_def)
  ultimately show ?thesis using rows(2) p start by (simp add: rows_stacked_def comp_def)
qed

end

end
