(* ===== verification/Fake_Adapter.thy ===== *)
theory Fake_Adapter
  imports Admission_Correct
begin

text \<open>
  The adapter of the admission tests (\<open>crates/darknamer-app/tests/admission.rs\<close>): a file system in
  maps that counts its calls. It satisfies the contracts of an adapter. Paths are the UTF-16 text;
  a path is absolute when it starts with a slash, as on the hosts where these tests build their
  root that way.
\<close>

record fake_adapter =
  fake_metadata :: "legacy_text \<rightharpoonup> admission_metadata"
  fake_children :: "legacy_text \<rightharpoonup> legacy_text list"
  fake_rejected :: "legacy_text \<rightharpoonup> admission_adapter_error"
  fake_legacy_paths :: "legacy_text \<rightharpoonup> legacy_text"

record fake_calls =
  metadata_calls :: usize
  enumeration_calls :: usize
  materialized_child_path_bytes :: usize
  last_read_budget :: "admission_read_budget option"

definition adapter_error_new :: "admission_operation \<Rightarrow> admission_adapter_error" where
  "adapter_error_new operation = \<lparr>adapter_operation = operation, adapter_code = None\<rparr>"

definition fake_legacy_path :: "fake_adapter \<Rightarrow> legacy_text \<Rightarrow> legacy_text" where
  "fake_legacy_path f path = (case fake_legacy_paths f path of None \<Rightarrow> path | Some legacy \<Rightarrow> legacy)"

definition fake_path_units :: "fake_adapter \<Rightarrow> legacy_text \<Rightarrow> usize" where
  "fake_path_units f path = length (fake_legacy_path f path)"

text \<open>The loop over the children: the paths so far, the bytes left, and whether a child did not fit.\<close>

fun fake_child_loop ::
  "fake_adapter \<Rightarrow> cancellation \<Rightarrow> legacy_text list \<Rightarrow> legacy_text list \<Rightarrow> usize \<Rightarrow> nat \<Rightarrow>
   (admission_read_error + legacy_text list \<times> usize \<times> bool) \<times> nat" where
  "fake_child_loop f cancel [] paths left n = (Inr (paths, left, False), n)"
| "fake_child_loop f cancel (child # children) paths left n =
     (if cancel n then (Inl Read_Cancelled, n + 1)
      else case checked_mul (fake_path_units f child) 2 of
        None \<Rightarrow> (Inr (paths, left, True), n + 1)
      | Some path_bytes \<Rightarrow>
          if left < path_bytes then (Inr (paths, left, True), n + 1)
          else fake_child_loop f cancel children (paths @ [child]) (left - path_bytes) (n + 1))"

definition fake_read_children_bounded ::
  "fake_adapter \<Rightarrow> legacy_text \<Rightarrow> admission_read_budget \<Rightarrow> cancellation \<Rightarrow> nat \<Rightarrow> fake_calls \<Rightarrow>
   (admission_read_error + legacy_text admission_children) \<times> nat \<times> fake_calls" where
  "fake_read_children_bounded f path budget cancel n calls =
     (let calls = calls\<lparr>enumeration_calls := enumeration_calls calls + 1, last_read_budget := Some budget\<rparr>
      in case fake_children f path of
           None \<Rightarrow> (Inl (Read_Failed (adapter_error_new Op_ReadDirectory)), n, calls)
         | Some children \<Rightarrow>
             (case fake_child_loop f cancel (take (path_limit budget) children) [] (remaining_path_bytes budget) n of
                (Inl error, n) \<Rightarrow> (Inl error, n, calls)
              | (Inr (paths, left, exhausted), n) \<Rightarrow>
                  (Inr \<lparr>child_paths = paths, had_errors = False,
                        truncated = path_limit budget < length children, path_budget_exhausted = exhausted\<rparr>,
                   n, calls\<lparr>materialized_child_path_bytes :=
                        saturating_sub (remaining_path_bytes budget) left\<rparr>)))"

definition fake_ops :: "fake_adapter \<Rightarrow> (legacy_text, fake_calls) admission_adapter" where
  "fake_ops f =
     \<lparr>path_absolute = (\<lambda>path. path \<noteq> [] \<and> hd path = SLASH),
      validate_path = (\<lambda>path calls.
        (case fake_rejected f path of None \<Rightarrow> Inr () | Some error \<Rightarrow> Inl error, calls)),
      entry_metadata = (\<lambda>path calls.
        (case fake_metadata f path of None \<Rightarrow> Inl (adapter_error_new Op_Metadata) | Some metadata \<Rightarrow> Inr metadata,
         calls\<lparr>metadata_calls := metadata_calls calls + 1\<rparr>)),
      read_children = fake_read_children_bounded f,
      to_legacy = fake_legacy_path f,
      path_units_of = fake_path_units f\<rparr>"

lemma fake_ops_fields [simp]:
  "path_absolute (fake_ops f) path \<longleftrightarrow> path \<noteq> [] \<and> hd path = SLASH"
  "validate_path (fake_ops f) path calls =
     (case fake_rejected f path of None \<Rightarrow> Inr () | Some error \<Rightarrow> Inl error, calls)"
  "entry_metadata (fake_ops f) path calls =
     (case fake_metadata f path of None \<Rightarrow> Inl (adapter_error_new Op_Metadata) | Some metadata \<Rightarrow> Inr metadata,
      calls\<lparr>metadata_calls := metadata_calls calls + 1\<rparr>)"
  "read_children (fake_ops f) = fake_read_children_bounded f"
  "to_legacy (fake_ops f) = fake_legacy_path f"
  "path_units_of (fake_ops f) = fake_path_units f"
  by (simp_all add: fake_ops_def)

section \<open>The contracts\<close>

lemma fake_child_loop_cancels:
  "fake_child_loop f cancel children paths left n = (Inl e, n') \<Longrightarrow> \<exists>k. cancel k"
  by (induction children arbitrary: paths left n) (auto split: if_splits option.splits)

lemma fake_child_loop_all:
  "fake_child_loop f cancel children paths left n = (Inr (paths', left', False), n') \<Longrightarrow> paths' = paths @ children"
  by (induction children arbitrary: paths left n) (auto split: if_splits option.splits, fastforce)

definition fake_children_of :: "fake_adapter \<Rightarrow> legacy_text \<Rightarrow> legacy_text list" where
  "fake_children_of f path = (case fake_children f path of None \<Rightarrow> [] | Some children \<Rightarrow> children)"

definition fake_metadata_of :: "fake_adapter \<Rightarrow> legacy_text \<Rightarrow> admission_metadata" where
  "fake_metadata_of f path = (case fake_metadata f path of
     None \<Rightarrow> \<lparr>meta_is_directory = False, meta_is_reparse_point = False, directory_identity = None,
              meta_size = 0, meta_created = 0, meta_modified = 0\<rparr>
   | Some metadata \<Rightarrow> metadata)"

interpretation fake: static_adapter "fake_ops f" "fake_children_of f" "fake_metadata_of f" for f
proof
  show "\<exists>k. cancel k"
    if "read_children (fake_ops f) path budget cancel n s = (Inl Read_Cancelled, n', s')"
    for path budget cancel n s n' s'
    using that by (auto simp: fake_read_children_bounded_def Let_def split: option.splits prod.splits sum.splits
        dest: fake_child_loop_cancels)
  show "metadata = fake_metadata_of f path" if "entry_metadata (fake_ops f) path s = (Inr metadata, s')"
    for path s metadata s'
    using that by (auto simp: fake_metadata_of_def split: option.splits)
  show "child_paths children = fake_children_of f path"
    if "read_children (fake_ops f) path budget cancel n s = (Inr children, n', s')"
      "\<not> truncated children" "\<not> path_budget_exhausted children"
    for path budget cancel n s children n' s'
    using that by (auto simp: fake_read_children_bounded_def fake_children_of_def Let_def
        split: option.splits prod.splits sum.splits dest: fake_child_loop_all)
qed

end
