(* ===== verification/Admission_Claims.thy ===== *)
theory Admission_Claims
  imports Fake_Adapter
begin

text \<open>
  The claims about admission, each with a witness on the adapter of the repository's tests: a
  directory with a file and a nested directory, enumerated out of order.
\<close>

section \<open>A small tree\<close>

definition tree_path :: "u16 list \<Rightarrow> legacy_text" where
  "tree_path name = SLASH # name"

definition tree_directory :: "u128 \<Rightarrow> admission_metadata" where
  "tree_directory i = \<lparr>meta_is_directory = True, meta_is_reparse_point = False,
     directory_identity = Some \<lparr>volume = 1, file_id = i\<rparr>, meta_size = 0, meta_created = 1, meta_modified = 2\<rparr>"

definition tree_file :: admission_metadata where
  "tree_file = \<lparr>meta_is_directory = False, meta_is_reparse_point = False, directory_identity = None,
     meta_size = 7, meta_created = 8, meta_modified = 9\<rparr>"

definition small_tree :: fake_adapter where
  "small_tree = \<lparr>fake_metadata = [tree_path [114] \<mapsto> tree_directory 1, tree_path [122] \<mapsto> tree_file,
       tree_path [110] \<mapsto> tree_directory 2, tree_path [97] \<mapsto> tree_file],
     fake_children = [tree_path [114] \<mapsto> [tree_path [122], tree_path [110]], tree_path [110] \<mapsto> [tree_path [97]]],
     fake_rejected = Map.empty, fake_legacy_paths = Map.empty\<rparr>"

definition no_calls :: fake_calls where
  "no_calls = \<lparr>metadata_calls = 0, enumeration_calls = 0, materialized_child_path_bytes = 0, last_read_budget = None\<rparr>"

abbreviation text_cmp :: "legacy_text \<Rightarrow> legacy_text \<Rightarrow> ordering" where
  "text_cmp \<equiv> cmp_slices"

lemma text_cmp_total: "total_cmp text_cmp"
  by unfold_locales (rule cmp_slices_swap, rule cmp_slices_trans)

lemma small_tree_fields [simp]:
  "fake_metadata small_tree [SLASH, 114] = Some (tree_directory 1)"
  "fake_metadata small_tree [SLASH, 122] = Some tree_file"
  "fake_metadata small_tree [SLASH, 110] = Some (tree_directory 2)"
  "fake_metadata small_tree [SLASH, 97] = Some tree_file"
  "fake_children small_tree [SLASH, 114] = Some [[SLASH, 122], [SLASH, 110]]"
  "fake_children small_tree [SLASH, 110] = Some [[SLASH, 97]]"
  "fake_rejected small_tree path = None"
  "fake_legacy_path small_tree path = path"
  "fake_path_units small_tree path = length path"
  by (simp_all add: small_tree_def tree_path_def fake_legacy_path_def fake_path_units_def)

lemma tree_poll [simp]: "walk_poll (\<lambda>_. False) w = Inr (w\<lparr>wk_polls := wk_polls w + 1\<rparr>)"
  by simp

lemma admission_poll_never [simp]: "admission_poll (\<lambda>_. False) n = Inr (n + 1)"
  by simp

lemma sort_one: "sort_paths_cancellable cmp (\<lambda>_. False) [path] n = Inr ([path], n + 1)"
  by (simp add: sort_paths_cancellable_def)

lemma text_cmp_names: "text_cmp [SLASH, 122] [SLASH, 110] = Greater"
  by (simp add: cmp_of_def)

lemma sort_two:
  "sort_paths_cancellable text_cmp (\<lambda>_. False) [[SLASH, 122], [SLASH, 110]] n = Inr ([[SLASH, 110], [SLASH, 122]], n + 3)"
  by (simp add: sort_paths_cancellable_def merge_passes.simps merge_pass.simps merge_both.simps copy_run.simps
      saturating_add_def saturating_mul_def Let_def text_cmp_names del: cmp_slices.simps)

lemma tree_walk:
  "\<exists>w. collect_admission_with_progress (fake_ops small_tree) [tree_path [114]] Recurse 100 path_budget_new
     text_cmp (\<lambda>_. False) no_calls = Inr w \<and> report_issues (wk_report w) = [] \<and> wk_started w = [1, 2, 3, 4]"
  by (simp add: collect_admission_with_progress_def walk_start_def sort_one sort_two tree_path_def
      push_path_def saturating_mul_def saturating_add_def saturating_sub_def Let_def admit_loop.simps admit_entry_def
      admit_inspected_def admit_directory_def admit_row_def reserve_utf16_units_def path_budget_new_def
      fake_read_children_bounded_def take_children_def bounded_children_def checked_mul_def checked_add_def tree_directory_def tree_file_def)

section \<open>The sort\<close>

text \<open>
  C31: The cancellable bottom-up merge sort of the paths is the stable sort. For every total
  comparator it returns the paths in the order of the reference sort, equal paths in their old
  order, and it stops early only when a poll asked for it.
\<close>

theorem admission_sort_stable:
  assumes "total_cmp cmp" and "length paths < USIZE_LIMIT"
  shows "case sort_paths_cancellable cmp cancel paths n of
      Inr (paths', _) \<Rightarrow> paths' = stable_sort_by cmp paths
    | Inl Admission_Cancelled \<Rightarrow> \<exists>k. cancel k"
  using sort_paths_sorts [OF assms] sort_paths_cancels
  by (auto split: sum.split admission_cancelled.split)

theorem admission_sort_stable_witness:
  "sort_paths_cancellable text_cmp (\<lambda>_. False) [[SLASH, 122], [SLASH, 110]] 0 = Inr ([[SLASH, 110], [SLASH, 122]], 3) \<and>
   stable_sort_by text_cmp [[SLASH, 122], [SLASH, 110]] = [[SLASH, 110], [SLASH, 122]]"
  using admission_sort_stable [OF text_cmp_total, of "[[SLASH, 122], [SLASH, 110]]" "\<lambda>_. False" 0]
  by (simp add: sort_two)

section \<open>The walk\<close>

text \<open>
  C12: Admission always ends, on every adapter that reports a cancelled read only when one was
  requested. The collection that is never cancelled returns a report, so the branch the code marks
  as unreachable is; the cancellable one gives up only when a poll asked for it.
\<close>

theorem admission_returns:
  assumes "polling_adapter ops"
  shows "(\<exists>report. collect_admission ops roots mode capacity cmp s = Some report) \<and>
    (case collect_admission_cancellable_with_budget ops roots mode capacity path_budget cmp cancel s of
       Inl Admission_Cancelled \<Rightarrow> \<exists>k. cancel k
     | Inr _ \<Rightarrow> True)"
  using polling_adapter.collect_never_cancelled [OF assms] polling_adapter.collect_cancels [OF assms]
  by (auto simp: collect_admission_cancellable_with_budget_def and_then_Inl split: sum.split admission_cancelled.split)

theorem admission_returns_witness:
  "\<exists>report. collect_admission (fake_ops small_tree) [tree_path [114]] Recurse 100 text_cmp no_calls = Some report"
  using admission_returns [OF fake.polling_adapter_axioms, of small_tree "[tree_path [114]]" Recurse 100 text_cmp no_calls]
  by blast

text \<open>
  C11: Admission stays within its bounds, whatever the adapter answers, also when the file system
  changes during the walk. The observer is told 1, 2, 3 and so on up to at most the capacity and at
  most 10000; there are no more rows than that, their paths fit the byte budget, and every row is an
  absolute path that was validated and observed as what the row says, never as a reparse point, and
  never as a directory when directories are walked.
\<close>

theorem admission_bounded:
  assumes "collect_admission_with_progress ops roots mode capacity path_budget cmp cancel s = Inr w"
    and "total_cmp cmp"
  shows "\<exists>n\<le>min capacity 10000. wk_started w = [1..<n + 1] \<and>
    length (report_items (wk_report w)) \<le> n \<and>
    sum_list (map (\<lambda>item. 2 * length (source_path item)) (report_items (wk_report w))) \<le> remaining_bytes path_budget \<and>
    (\<forall>item\<in>set (report_items (wk_report w)). \<exists>path metadata.
       path_absolute ops path \<and> (\<exists>t. fst (validate_path ops path t) = Inr ()) \<and>
       (\<exists>t. fst (entry_metadata ops path t) = Inr metadata) \<and> \<not> meta_is_reparse_point metadata \<and>
       (mode = Recurse \<longrightarrow> \<not> meta_is_directory metadata) \<and> item = admission_row ops path metadata)"
proof -
  note bounded = collect_bounded [OF assms, unfolded walk_bounded_def source_bytes_def admitted_row_def]
  then have "wk_started w = [1..<wk_inspected w + 1]" by (simp add: map_Suc_upt)
  with bounded show ?thesis by (intro exI [of _ "wk_inspected w"]) simp
qed

theorem admission_bounded_witness:
  "\<exists>w n. collect_admission_with_progress (fake_ops small_tree) [tree_path [114]] Recurse 100 path_budget_new
     text_cmp (\<lambda>_. False) no_calls = Inr w \<and> n \<le> 100 \<and> wk_started w = [1..<n + 1]"
proof -
  obtain w where "collect_admission_with_progress (fake_ops small_tree) [tree_path [114]] Recurse 100 path_budget_new
     text_cmp (\<lambda>_. False) no_calls = Inr w" using tree_walk by blast
  with admission_bounded [OF this text_cmp_total] show ?thesis by fastforce
qed

text \<open>
  C10: Admission without an issue is the recursive listing. On a file system that stands still, a
  report that names no issue has exactly the rows below the sorted roots, in depth-first order with
  the children of every directory sorted: nothing is dropped, repeated or reordered silently.
\<close>

theorem admission_lists_tree:
  assumes "static_adapter ops children_of metadata_of" and "total_cmp cmp"
    and "collect_admission_with_progress ops roots mode capacity path_budget cmp cancel s = Inr w"
    and "report_issues (wk_report w) = []"
  shows "report_items (wk_report w) =
    concat (map (listed_rows cmp children_of
        (\<lambda>path. mode = Recurse \<and> meta_is_directory (metadata_of path))
        (\<lambda>path. admission_row ops path (metadata_of path)) 256)
      (stable_sort_by cmp roots))"
  using static_adapter.collect_rows [OF assms(1,3) _ assms(2)] assms(4)
  by (simp add: no_issue_def static_adapter.rows_below_def [OF assms(1)])

lemma small_tree_rows:
  "listed_rows text_cmp (fake_children_of small_tree)
     (\<lambda>path. meta_is_directory (fake_metadata_of small_tree path)) row 256 [SLASH, 114] =
   [row [SLASH, 97], row [SLASH, 122]]"
proof -
  have leaf: "listed_rows cmp children enters row n path = [row path]" if "\<not> enters path"
    for cmp :: "legacy_text \<Rightarrow> legacy_text \<Rightarrow> ordering" and children enters n path
    using that by (cases n) simp_all
  have kinds: "meta_is_directory (fake_metadata_of small_tree [SLASH, 114])"
    "meta_is_directory (fake_metadata_of small_tree [SLASH, 110])"
    "\<not> meta_is_directory (fake_metadata_of small_tree [SLASH, 122])"
    "\<not> meta_is_directory (fake_metadata_of small_tree [SLASH, 97])"
    by (simp_all add: fake_metadata_of_def tree_directory_def tree_file_def)
  have "listed_rows text_cmp (fake_children_of small_tree)
      (\<lambda>path. meta_is_directory (fake_metadata_of small_tree path)) row (Suc (Suc n)) [SLASH, 114] =
    [row [SLASH, 97], row [SLASH, 122]]" for n
    by (simp add: kinds leaf fake_children_of_def text_cmp_names del: cmp_slices.simps)
  from this [of 254] show ?thesis by simp
qed

theorem admission_lists_tree_witness:
  "\<exists>w. collect_admission_with_progress (fake_ops small_tree) [tree_path [114]] Recurse 100 path_budget_new
     text_cmp (\<lambda>_. False) no_calls = Inr w \<and>
     map source_path (report_items (wk_report w)) = [[SLASH, 97], [SLASH, 122]]"
proof -
  obtain w where run: "collect_admission_with_progress (fake_ops small_tree) [tree_path [114]] Recurse 100 path_budget_new
     text_cmp (\<lambda>_. False) no_calls = Inr w" "report_issues (wk_report w) = []" using tree_walk by blast
  from admission_lists_tree [OF fake.static_adapter_axioms text_cmp_total run] run(1) show ?thesis
    by (simp add: tree_path_def small_tree_rows admission_row_def new_with_actual_size_def)
qed

end
