(* ===== verification/Preview.thy ===== *)
theory Preview
  imports List_Item Rename_Ports
begin

text \<open>
  The preview of the workbench: \<open>crates/darknamer-app/src/preview.rs\<close>. Counts of changed rows, and
  a cache with one diagnostic per row that is refreshed as a whole or after the edit of one row.
  The localised labels and notices are left out. \<open>destination_key\<close> is the closure the caller
  passes; a \<open>BTreeMap\<close> is a map whose keys are visited in order, a \<open>BTreeSet\<close> a set.
\<close>

section \<open>Counts\<close>

record preview_counts =
  shown_total :: usize
  shown_changed :: usize
  shown_selected :: usize

record preview_count_cache =
  cached_total :: usize
  cached_changed :: usize

fun count_changes :: "planned_change_kind list \<Rightarrow> usize \<Rightarrow> usize \<Rightarrow> preview_count_cache" where
  "count_changes [] n changed = \<lparr>cached_total = n, cached_changed = changed\<rparr>"
| "count_changes (change # changes) n changed =
     count_changes changes (saturating_add n 1) (saturating_add changed (of_bool (is_changed change)))"

definition counts_refresh :: "planned_change_kind list \<Rightarrow> preview_count_cache" where
  "counts_refresh changes = count_changes changes 0 0"

definition counts_refresh_one ::
  "usize \<Rightarrow> bool \<Rightarrow> bool \<Rightarrow> preview_count_cache \<Rightarrow> bool \<times> preview_count_cache" where
  "counts_refresh_one model_len previous_changed current_changed c =
     (if cached_total c \<noteq> model_len then (False, c)
      else let next_changed = (if \<not> previous_changed \<and> current_changed then checked_add (cached_changed c) 1
                               else if previous_changed \<and> \<not> current_changed then checked_sub (cached_changed c) 1
                               else Some (cached_changed c))
      in case next_changed of
           None \<Rightarrow> (False, c)
         | Some changed \<Rightarrow>
             if changed \<le> cached_total c then (True, c\<lparr>cached_changed := changed\<rparr>) else (False, c))"

definition counts_with_selected :: "usize \<Rightarrow> preview_count_cache \<Rightarrow> preview_counts" where
  "counts_with_selected selected c =
     \<lparr>shown_total = cached_total c, shown_changed = cached_changed c, shown_selected = selected\<rparr>"

section \<open>Diagnostics of one row\<close>

datatype preview_row_issue =
    No_Issue | EmptyStem | InvalidName windows_leaf_name_error | DuplicateDestination

record preview_row_input =
  input_parent :: legacy_text
  input_current :: legacy_text
  input_proposed :: legacy_text
  input_is_directory :: bool
  input_change :: planned_change_kind

definition preview_name_has_empty_stem :: "legacy_text \<Rightarrow> bool \<Rightarrow> bool" where
  "preview_name_has_empty_stem name dir =
     (if dir then name = [] else rposition (\<lambda>u. u = DOT) name = Some 0)"

definition preview_base_issue :: "legacy_text \<Rightarrow> bool \<Rightarrow> planned_change_kind \<Rightarrow> preview_row_issue" where
  "preview_base_issue proposed dir change =
     (if \<not> renames change then No_Issue
      else case validate_windows_leaf_name proposed of
             Inl error \<Rightarrow> InvalidName error
           | Inr _ \<Rightarrow> if preview_name_has_empty_stem proposed dir then EmptyStem else No_Issue)"

definition is_invalid_name :: "preview_row_issue \<Rightarrow> bool" where
  "is_invalid_name issue = (case issue of InvalidName _ \<Rightarrow> True | _ \<Rightarrow> False)"

definition resolved_preview_issue :: "preview_row_issue \<Rightarrow> planned_change_kind \<Rightarrow> bool \<Rightarrow> preview_row_issue" where
  "resolved_preview_issue base_issue change colliding =
     (if is_invalid_name base_issue then base_issue
      else if is_changed change \<and> colliding then DuplicateDestination
      else base_issue)"

section \<open>The cache\<close>

record 'k cached_preview_row =
  row_key :: 'k
  row_base_issue :: preview_row_issue
  row_issue :: preview_row_issue
  row_change :: planned_change_kind

record 'k preview_cache =
  preview_initialized :: bool
  preview_rows :: "'k cached_preview_row list"
  destination_rows :: "'k \<rightharpoonup> usize set"
  warning_rows :: usize
  invalid_name_rows :: usize
  duplicate_rows :: usize
  blocker_count :: usize

definition preview_cache_new :: "'k preview_cache" where
  "preview_cache_new = \<lparr>preview_initialized = False, preview_rows = [], destination_rows = Map.empty,
     warning_rows = 0, invalid_name_rows = 0, duplicate_rows = 0, blocker_count = 0\<rparr>"

text \<open>Adding a row to the group of its key, which is created when it is vacant.\<close>

definition join_group :: "'k \<Rightarrow> usize \<Rightarrow> ('k \<rightharpoonup> usize set) \<Rightarrow> 'k \<rightharpoonup> usize set" where
  "join_group k row groups =
     groups(k \<mapsto> (case groups k of Some rows \<Rightarrow> insert row rows | None \<Rightarrow> {row}))"

fun index_rows ::
  "(legacy_text \<Rightarrow> legacy_text \<Rightarrow> 'k) \<Rightarrow> preview_row_input list \<Rightarrow> 'k preview_cache \<Rightarrow> 'k preview_cache" where
  "index_rows destination_key [] c = c"
| "index_rows destination_key (input # inputs) c =
     (let row = length (preview_rows c);
          base_issue = preview_base_issue (input_proposed input) (input_is_directory input) (input_change input);
          key = destination_key (input_parent input) (input_proposed input)
      in index_rows destination_key inputs
           (c\<lparr>destination_rows := join_group key row (destination_rows c),
              preview_rows := preview_rows c @
                [\<lparr>row_key = key, row_base_issue = base_issue, row_issue = base_issue,
                  row_change = input_change input\<rparr>]\<rparr>))"

definition count_issue :: "preview_row_issue \<Rightarrow> 'k preview_cache \<Rightarrow> 'k preview_cache" where
  "count_issue issue c =
     (case issue of
        No_Issue \<Rightarrow> c
      | EmptyStem \<Rightarrow> c\<lparr>warning_rows := warning_rows c + 1\<rparr>
      | InvalidName _ \<Rightarrow> c\<lparr>invalid_name_rows := invalid_name_rows c + 1\<rparr>
      | DuplicateDestination \<Rightarrow> c\<lparr>duplicate_rows := duplicate_rows c + 1\<rparr>)"

definition set_issue :: "usize \<Rightarrow> preview_row_issue \<Rightarrow> 'k preview_cache \<Rightarrow> 'k preview_cache" where
  "set_issue row issue c =
     c\<lparr>preview_rows := (preview_rows c)[row := (preview_rows c ! row)\<lparr>row_issue := issue\<rparr>]\<rparr>"

definition resolve_row :: "bool \<Rightarrow> usize \<Rightarrow> 'k preview_cache \<Rightarrow> 'k preview_cache" where
  "resolve_row colliding row c =
     (let cached = preview_rows c ! row;
          issue = resolved_preview_issue (row_base_issue cached) (row_change cached) colliding
      in count_issue issue (set_issue row issue c))"

definition resolve_group :: "usize set \<Rightarrow> 'k preview_cache \<Rightarrow> 'k preview_cache" where
  "resolve_group rows c = fold (resolve_row (1 < card rows)) (sorted_list_of_set rows) c"

definition with_blockers :: "'k preview_cache \<Rightarrow> 'k preview_cache" where
  "with_blockers c = c\<lparr>blocker_count := saturating_add (invalid_name_rows c) (duplicate_rows c)\<rparr>"

definition refresh_by ::
  "(legacy_text \<Rightarrow> legacy_text \<Rightarrow> 'k::linorder) \<Rightarrow> preview_row_input list \<Rightarrow> 'k preview_cache \<Rightarrow> 'k preview_cache" where
  "refresh_by destination_key inputs c =
     (let indexed = index_rows destination_key inputs (preview_cache_new\<lparr>preview_initialized := True\<rparr>)
      in with_blockers (fold (\<lambda>k. resolve_group (the (destination_rows indexed k)))
           (sorted_list_of_set (dom (destination_rows indexed))) indexed))"

section \<open>The refresh of one row\<close>

record preview_issue_update =
  affected_rows :: "usize list"
  previous_changed :: bool
  current_changed :: bool

definition uncount_issue :: "preview_row_issue \<Rightarrow> 'k preview_cache \<Rightarrow> 'k preview_cache" where
  "uncount_issue issue c =
     (case issue of
        No_Issue \<Rightarrow> c
      | EmptyStem \<Rightarrow> c\<lparr>warning_rows := saturating_sub (warning_rows c) 1\<rparr>
      | InvalidName _ \<Rightarrow> c\<lparr>invalid_name_rows := saturating_sub (invalid_name_rows c) 1\<rparr>
      | DuplicateDestination \<Rightarrow> c\<lparr>duplicate_rows := saturating_sub (duplicate_rows c) 1\<rparr>)"

definition replace_issue :: "usize \<Rightarrow> preview_row_issue \<Rightarrow> 'k preview_cache \<Rightarrow> 'k preview_cache" where
  "replace_issue row issue c =
     (let previous = row_issue (preview_rows c ! row)
      in if previous = issue then c
         else set_issue row issue (count_issue issue (uncount_issue previous c)))"

text \<open>Leaving the group of a key, which is removed when it is empty.\<close>

definition leave_group :: "'k \<Rightarrow> usize \<Rightarrow> ('k \<rightharpoonup> usize set) \<Rightarrow> ('k \<rightharpoonup> usize set) option" where
  "leave_group k row groups =
     (case groups k of
        None \<Rightarrow> None
      | Some rows \<Rightarrow>
          let rows = rows - {row}
          in Some (if rows = {} then groups(k := None) else groups(k \<mapsto> rows)))"

definition reissue_row :: "usize \<Rightarrow> 'k preview_cache \<Rightarrow> 'k preview_cache" where
  "reissue_row row c =
     (let cached = preview_rows c ! row;
          colliding = (case destination_rows c (row_key cached) of None \<Rightarrow> False | Some rows \<Rightarrow> 1 < card rows)
      in replace_issue row (resolved_preview_issue (row_base_issue cached) (row_change cached) colliding) c)"

definition refresh_one_by ::
  "(legacy_text \<Rightarrow> legacy_text \<Rightarrow> 'k) \<Rightarrow> usize \<Rightarrow> usize \<Rightarrow> preview_row_input \<Rightarrow> 'k preview_cache \<Rightarrow>
   preview_issue_update option \<times> 'k preview_cache" where
  "refresh_one_by destination_key model_len row input c =
     (if \<not> preview_initialized c \<or> length (preview_rows c) \<noteq> model_len \<or> model_len \<le> row then (None, c)
      else let old = preview_rows c ! row
      in case destination_rows c (row_key old) of
           None \<Rightarrow> (None, c)
         | Some old_group \<Rightarrow>
             if row \<notin> old_group then (None, c)
             else let base_issue = preview_base_issue (input_proposed input) (input_is_directory input) (input_change input);
                      key = destination_key (input_parent input) (input_proposed input)
             in case (if row_key old = key then Some (destination_rows c)
                      else map_option (join_group key row) (leave_group (row_key old) row (destination_rows c))) of
                  None \<Rightarrow> (None, c)
                | Some groups \<Rightarrow>
                    let affected = (if row_key old = key then old_group
                                    else case groups key of None \<Rightarrow> old_group | Some rows \<Rightarrow> old_group \<union> rows);
                        c = c\<lparr>destination_rows := groups,
                             preview_rows := (preview_rows c)[row :=
                               old\<lparr>row_key := key, row_base_issue := base_issue, row_change := input_change input\<rparr>]\<rparr>
                    in (Some \<lparr>affected_rows = sorted_list_of_set affected,
                              previous_changed = is_changed (row_change old),
                              current_changed = is_changed (input_change input)\<rparr>,
                        with_blockers (fold reissue_row (sorted_list_of_set affected) c)))"

section \<open>Reading the cache\<close>

definition preview_issue :: "'k preview_cache \<Rightarrow> usize \<Rightarrow> preview_row_issue" where
  "preview_issue c row = (if row < length (preview_rows c) then row_issue (preview_rows c ! row) else No_Issue)"

definition has_blocker :: "'k preview_cache \<Rightarrow> bool" where
  "has_blocker c \<longleftrightarrow> blocker_count c \<noteq> 0"

definition blocker_rows :: "'k preview_cache \<Rightarrow> usize list" where
  "blocker_rows c =
     List.map_filter (\<lambda>(row, cached). if is_invalid_name (row_issue cached) \<or> row_issue cached = DuplicateDestination
       then Some row else None) (enumerate 0 (preview_rows c))"

end
