(* ===== verification/Preview_Correct.thy ===== *)
theory Preview_Correct
  imports Preview
begin

text \<open>
  The cache of the preview always equals a declarative description of the rows: a full refresh
  computes it, and the refresh of one row after an edit keeps it, so that incremental and full
  refresh agree. The rows reported as affected are all whose diagnostic changed.
\<close>

section \<open>What the cache should be\<close>

type_synonym 'k keying = "legacy_text \<Rightarrow> legacy_text \<Rightarrow> 'k"

definition key_of :: "'k keying \<Rightarrow> preview_row_input \<Rightarrow> 'k" where
  "key_of f input = f (input_parent input) (input_proposed input)"

definition base_of :: "preview_row_input \<Rightarrow> preview_row_issue" where
  "base_of input = preview_base_issue (input_proposed input) (input_is_directory input) (input_change input)"

definition group_of :: "'k list \<Rightarrow> 'k \<Rightarrow> usize set" where
  "group_of ks k = {i. i < length ks \<and> ks ! i = k}"

definition groups_of :: "'k list \<Rightarrow> 'k \<rightharpoonup> usize set" where
  "groups_of ks k = (if group_of ks k = {} then None else Some (group_of ks k))"

text \<open>A row collides when another row has its key.\<close>

definition collides :: "'k list \<Rightarrow> usize \<Rightarrow> bool" where
  "collides ks i \<longleftrightarrow> (\<exists>j<length ks. j \<noteq> i \<and> ks ! j = ks ! i)"

definition cached_of :: "'k list \<Rightarrow> preview_row_input list \<Rightarrow> usize \<Rightarrow> 'k cached_preview_row" where
  "cached_of ks inputs i =
     \<lparr>row_key = ks ! i, row_base_issue = base_of (inputs ! i),
      row_issue = resolved_preview_issue (base_of (inputs ! i)) (input_change (inputs ! i)) (collides ks i),
      row_change = input_change (inputs ! i)\<rparr>"

definition count_where :: "(preview_row_issue \<Rightarrow> bool) \<Rightarrow> 'k cached_preview_row list \<Rightarrow> nat" where
  "count_where p rows = length (filter (\<lambda>cached. p (row_issue cached)) rows)"

definition counted :: "'k preview_cache \<Rightarrow> bool" where
  "counted c \<longleftrightarrow> warning_rows c = count_where (\<lambda>x. x = EmptyStem) (preview_rows c) \<and>
     invalid_name_rows c = count_where is_invalid_name (preview_rows c) \<and>
     duplicate_rows c = count_where (\<lambda>x. x = DuplicateDestination) (preview_rows c)"

definition preview_of :: "'k keying \<Rightarrow> preview_row_input list \<Rightarrow> 'k preview_cache" where
  "preview_of f inputs =
     (let ks = map (key_of f) inputs; rows = map (cached_of ks inputs) [0..<length inputs]
      in \<lparr>preview_initialized = True, preview_rows = rows, destination_rows = groups_of ks,
          warning_rows = count_where (\<lambda>x. x = EmptyStem) rows,
          invalid_name_rows = count_where is_invalid_name rows,
          duplicate_rows = count_where (\<lambda>x. x = DuplicateDestination) rows,
          blocker_count = count_where is_invalid_name rows + count_where (\<lambda>x. x = DuplicateDestination) rows\<rparr>)"

lemma finite_group_of [simp]: "finite (group_of ks k)"
  by (simp add: group_of_def)

lemma dom_groups_of: "dom (groups_of ks) = set ks"
proof -
  have "groups_of ks k \<noteq> None \<longleftrightarrow> k \<in> set ks" for k
    by (auto simp: groups_of_def group_of_def in_set_conv_nth)
  then show ?thesis unfolding dom_def by blast
qed

lemma card_group_collides:
  assumes "i < length ks"
  shows "1 < card (group_of ks (ks ! i)) \<longleftrightarrow> collides ks i"
proof -
  have i: "i \<in> group_of ks (ks ! i)" using assms by (simp add: group_of_def)
  have "1 < card (group_of ks (ks ! i)) \<longleftrightarrow> group_of ks (ks ! i) \<noteq> {i}"
    using i card_1_singletonE [of "group_of ks (ks ! i)"] card_gt_0_iff [of "group_of ks (ks ! i)"]
    by (metis One_nat_def Suc_lessI card.empty card_1_singleton_iff finite_group_of less_numeral_extra(4)
        singletonD card_gt_0_iff empty_iff)
  also have "\<dots> \<longleftrightarrow> collides ks i" using i assms by (auto simp: group_of_def collides_def)
  finally show ?thesis .
qed

section \<open>Counters\<close>

lemma count_where_update:
  assumes "i < length rows"
  shows "count_where p (rows[i := cached]) + of_bool (p (row_issue (rows ! i))) =
    count_where p rows + of_bool (p (row_issue cached))"
proof -
  have u: "rows[i := cached] = take i rows @ cached # drop (Suc i) rows" using assms by (simp add: upd_conv_take_nth_drop)
  have r: "rows = take i rows @ rows ! i # drop (Suc i) rows" using assms by (simp add: id_take_nth_drop [symmetric])
  have "count_where p rows = count_where p (take i rows @ rows ! i # drop (Suc i) rows)" using r by simp
  then show ?thesis by (simp add: u count_where_def)
qed

lemma count_where_same:
  "i < length rows \<Longrightarrow> row_issue cached = row_issue (rows ! i) \<Longrightarrow> count_where p (rows[i := cached]) = count_where p rows"
  using count_where_update [of i rows p cached] by simp

lemma count_where_positive: "i < length rows \<Longrightarrow> p (row_issue (rows ! i)) \<Longrightarrow> 0 < count_where p rows"
  by (auto simp: count_where_def filter_empty_conv)

lemma set_issue_fields [simp]:
  "preview_initialized (set_issue row issue c) = preview_initialized c"
  "destination_rows (set_issue row issue c) = destination_rows c"
  "length (preview_rows (set_issue row issue c)) = length (preview_rows c)"
  by (simp_all add: set_issue_def)

lemma replace_issue_rows:
  "row < length (preview_rows c) \<Longrightarrow> preview_rows (replace_issue row issue c) =
     (preview_rows c)[row := (preview_rows c ! row)\<lparr>row_issue := issue\<rparr>]"
proof (cases "row_issue (preview_rows c ! row) = issue")
  case True
  then have "(preview_rows c ! row)\<lparr>row_issue := issue\<rparr> = preview_rows c ! row"
    by (cases "preview_rows c ! row") simp
  with True show ?thesis by (metis list_update_id replace_issue_def)
next
  case False
  then show ?thesis
    by (simp add: replace_issue_def Let_def set_issue_def count_issue_def uncount_issue_def
        split: preview_row_issue.split)
qed

lemma replace_issue_fields [simp]:
  "destination_rows (replace_issue row issue c) = destination_rows c"
  "preview_initialized (replace_issue row issue c) = preview_initialized c"
  by (auto simp: replace_issue_def Let_def count_issue_def uncount_issue_def split: preview_row_issue.split)

lemma replace_issue_counted:
  assumes "counted c" and "row < length (preview_rows c)"
  shows "counted (replace_issue row issue c)"
proof (cases "row_issue (preview_rows c ! row) = issue")
  case True
  with assms(1) show ?thesis by (simp add: replace_issue_def)
next
  case False
  let ?rows = "preview_rows c" and ?new = "(preview_rows c ! row)\<lparr>row_issue := issue\<rparr>"
  note counts = count_where_update [OF assms(2), of _ ?new]
  note positive = count_where_positive [OF assms(2)]
  show ?thesis
    using assms(1) False counts [of "\<lambda>x. x = EmptyStem"] counts [of is_invalid_name]
      counts [of "\<lambda>x. x = DuplicateDestination"] positive [of "\<lambda>x. x = EmptyStem"]
      positive [of is_invalid_name] positive [of "\<lambda>x. x = DuplicateDestination"]
    by (auto simp: replace_issue_def counted_def set_issue_def count_issue_def uncount_issue_def Let_def
        saturating_sub_def is_invalid_name_def split: preview_row_issue.splits)
qed

section \<open>A full refresh\<close>

lemma groups_of_snoc: "groups_of (ks @ [k]) = join_group k (length ks) (groups_of ks)"
proof
  fix x
  have "group_of (ks @ [k]) x = (if x = k then insert (length ks) (group_of ks x) else group_of ks x)"
    by (auto simp: group_of_def nth_append less_Suc_eq)
  then show "groups_of (ks @ [k]) x = join_group k (length ks) (groups_of ks) x"
    by (cases "x = k") (simp_all add: groups_of_def join_group_def)
qed

definition unresolved :: "'k keying \<Rightarrow> preview_row_input \<Rightarrow> 'k cached_preview_row" where
  "unresolved f input = \<lparr>row_key = key_of f input, row_base_issue = base_of input, row_issue = base_of input,
     row_change = input_change input\<rparr>"

lemma index_rows_eq:
  "destination_rows c = groups_of (map row_key (preview_rows c)) \<Longrightarrow>
     index_rows f inputs c = c\<lparr>destination_rows := groups_of (map row_key (preview_rows c) @ map (key_of f) inputs),
       preview_rows := preview_rows c @ map (unresolved f) inputs\<rparr>"
proof (induction inputs arbitrary: c)
  case (Cons input inputs)
  let ?c = "c\<lparr>destination_rows := join_group (key_of f input) (length (preview_rows c)) (destination_rows c),
    preview_rows := preview_rows c @ [unresolved f input]\<rparr>"
  have "destination_rows ?c = groups_of (map row_key (preview_rows ?c))"
    using groups_of_snoc [of "map row_key (preview_rows c)"] by (simp add: Cons.prems unresolved_def)
  from Cons.IH [OF this] show ?case
    by (simp add: unresolved_def key_of_def base_of_def Let_def)
qed simp

text \<open>The cache while the rows of a set are resolved.\<close>

definition issue_of :: "'k list \<Rightarrow> preview_row_input list \<Rightarrow> usize \<Rightarrow> preview_row_issue" where
  "issue_of ks inputs i = row_issue (cached_of ks inputs i)"

definition resolving :: "'k keying \<Rightarrow> preview_row_input list \<Rightarrow> usize set \<Rightarrow> 'k preview_cache" where
  "resolving f inputs R =
     (let ks = map (key_of f) inputs; issue = issue_of ks inputs
      in \<lparr>preview_initialized = True,
          preview_rows = map (\<lambda>i. if i \<in> R then cached_of ks inputs i else unresolved f (inputs ! i)) [0..<length inputs],
          destination_rows = groups_of ks,
          warning_rows = card {i\<in>R. issue i = EmptyStem},
          invalid_name_rows = card {i\<in>R. is_invalid_name (issue i)},
          duplicate_rows = card {i\<in>R. issue i = DuplicateDestination}, blocker_count = 0\<rparr>)"

lemma card_insert_where:
  assumes "finite R" and "i \<notin> R"
  shows "card {j \<in> insert i R. p j} = card {j\<in>R. p j} + of_bool (p i)"
proof -
  have "{j \<in> insert i R. p j} = (if p i then insert i {j\<in>R. p j} else {j\<in>R. p j})" by auto
  with assms show ?thesis by simp
qed

lemma resolve_row_step:
  assumes "i < length inputs" and "i \<notin> R" and "finite R"
  shows "resolve_row (collides (map (key_of f) inputs) i) i (resolving f inputs R) = resolving f inputs (insert i R)"
proof -
  let ?ks = "map (key_of f) inputs"
  let ?row = "\<lambda>R i. if i \<in> R then cached_of ?ks inputs i else unresolved f (inputs ! i)"
  let ?issue = "issue_of ?ks inputs i"
  have cached: "preview_rows (resolving f inputs R) ! i = unresolved f (inputs ! i)"
    using assms by (simp add: resolving_def Let_def)
  have issue: "resolved_preview_issue (row_base_issue (unresolved f (inputs ! i)))
      (row_change (unresolved f (inputs ! i))) (collides ?ks i) = ?issue"
    by (simp add: unresolved_def issue_of_def cached_of_def)
  have new: "(unresolved f (inputs ! i))\<lparr>row_issue := ?issue\<rparr> = cached_of ?ks inputs i"
    using assms(1) by (simp add: unresolved_def issue_of_def cached_of_def)
  have rows: "(map (?row R) [0..<length inputs])[i := cached_of ?ks inputs i] = map (?row (insert i R)) [0..<length inputs]"
  proof (rule nth_equalityI)
    fix j assume "j < length ((map (?row R) [0..<length inputs])[i := cached_of ?ks inputs i])"
    then show "(map (?row R) [0..<length inputs])[i := cached_of ?ks inputs i] ! j = map (?row (insert i R)) [0..<length inputs] ! j"
      using assms(1) by (cases "j = i") simp_all
  qed simp
  have shown: "preview_rows (resolving f inputs R) = map (?row R) [0..<length inputs]"
    by (simp add: resolving_def Let_def)
  note counts = card_insert_where [OF assms(3,2)]
  have "resolve_row (collides ?ks i) i (resolving f inputs R) =
      count_issue ?issue (set_issue i ?issue (resolving f inputs R))"
    by (simp only: resolve_row_def Let_def cached issue)
  also have "set_issue i ?issue (resolving f inputs R) =
      (resolving f inputs R)\<lparr>preview_rows := map (?row (insert i R)) [0..<length inputs]\<rparr>"
    unfolding set_issue_def cached new unfolding shown rows by (rule refl)
  also have "count_issue ?issue \<dots> = resolving f inputs (insert i R)"
    unfolding resolving_def Let_def counts [of "\<lambda>i. issue_of ?ks inputs i = EmptyStem"]
      counts [of "\<lambda>i. is_invalid_name (issue_of ?ks inputs i)"]
      counts [of "\<lambda>i. issue_of ?ks inputs i = DuplicateDestination"]
    by (cases ?issue) (simp_all add: count_issue_def is_invalid_name_def)
  finally show ?thesis .
qed

lemma resolve_rows:
  assumes "distinct rows" and "\<forall>i\<in>set rows. i < length inputs \<and> i \<notin> R" and "finite R"
  shows "fold (\<lambda>i. resolve_row (collides (map (key_of f) inputs) i) i) rows (resolving f inputs R) =
    resolving f inputs (R \<union> set rows)"
  using assms
proof (induction rows arbitrary: R)
  case (Cons i rows)
  then have "fold (\<lambda>i. resolve_row (collides (map (key_of f) inputs) i) i) rows (resolving f inputs (insert i R)) =
      resolving f inputs (insert i R \<union> set rows)"
    by (intro Cons.IH) auto
  with Cons.prems show ?case by (simp add: resolve_row_step)
qed simp

lemma resolve_groups:
  fixes f :: "'k::linorder keying"
  assumes "distinct ks" and "\<forall>k\<in>set ks. group_of (map (key_of f) inputs) k \<inter> R = {}" and "finite R"
  shows "fold (\<lambda>k. resolve_group (group_of (map (key_of f) inputs) k)) ks (resolving f inputs R) =
    resolving f inputs (R \<union> (\<Union>k\<in>set ks. group_of (map (key_of f) inputs) k))"
  using assms
proof (induction ks arbitrary: R)
  case (Cons k ks)
  let ?group = "group_of (map (key_of f) inputs)"
  have member: "i < length inputs \<and> map (key_of f) inputs ! i = k" if "i \<in> ?group k" for i
    using that by (simp add: group_of_def)
  have same: "resolve_row (1 < card (?group k)) i = resolve_row (collides (map (key_of f) inputs) i) i"
    if "i \<in> ?group k" for i
    using card_group_collides [of i "map (key_of f) inputs"] member [OF that] by simp
  have "resolve_group (?group k) (resolving f inputs R) =
      fold (\<lambda>i. resolve_row (collides (map (key_of f) inputs) i) i) (sorted_list_of_set (?group k)) (resolving f inputs R)"
    unfolding resolve_group_def by (rule fold_cong) (simp_all only: same set_sorted_list_of_set finite_group_of)
  also have "\<dots> = resolving f inputs (R \<union> ?group k)"
    using resolve_rows [of "sorted_list_of_set (?group k)" inputs R f] Cons.prems member by auto
  finally have step: "resolve_group (?group k) (resolving f inputs R) = resolving f inputs (R \<union> ?group k)" .
  have "?group k' \<inter> (R \<union> ?group k) = {}" if "k' \<in> set ks" for k'
    using Cons.prems that by (auto simp: group_of_def)
  with Cons.prems have "fold (\<lambda>k. resolve_group (?group k)) ks (resolving f inputs (R \<union> ?group k)) =
      resolving f inputs (R \<union> ?group k \<union> (\<Union>k\<in>set ks. ?group k))"
    by (intro Cons.IH) auto
  then show ?case by (simp add: step Un_assoc)
qed simp

lemma count_where_card:
  "count_where p (map g [0..<n]) = card {i \<in> {0..<n}. p (row_issue (g i))}"
  by (simp add: count_where_def filter_map distinct_length_filter comp_def Int_def conj_commute)

lemma resolving_all:
  assumes "length inputs < USIZE_LIMIT"
  shows "with_blockers (resolving f inputs {0..<length inputs}) = preview_of f inputs"
proof -
  let ?ks = "map (key_of f) inputs" and ?all = "{0..<length inputs}"
  let ?rows = "map (cached_of ?ks inputs) [0..<length inputs]"
  have rows: "map (\<lambda>i. if i \<in> ?all then cached_of ?ks inputs i else unresolved f (inputs ! i)) [0..<length inputs] = ?rows"
    by simp
  have counts: "card {i \<in> ?all. p (issue_of ?ks inputs i)} = count_where p ?rows" for p
    by (simp add: count_where_card issue_of_def)
  have "count_where is_invalid_name rows + count_where (\<lambda>x. x = DuplicateDestination) rows \<le> length rows"
    for rows :: "'a cached_preview_row list"
    by (induction rows) (auto simp: is_invalid_name_def count_where_def)
  from this [of ?rows] have "count_where is_invalid_name ?rows + count_where (\<lambda>x. x = DuplicateDestination) ?rows < USIZE_LIMIT"
    using assms by simp
  then show ?thesis
    unfolding resolving_def preview_of_def Let_def with_blockers_def rows counts [of is_invalid_name]
      counts [of "\<lambda>x. x = EmptyStem"] counts [of "\<lambda>x. x = DuplicateDestination"]
    by (simp add: saturating_add_def)
qed

lemma refresh_by_eq:
  fixes f :: "'k::linorder keying"
  assumes "length inputs < USIZE_LIMIT"
  shows "refresh_by f inputs c = preview_of f inputs"
proof -
  let ?ks = "map (key_of f) inputs"
  have indexed: "index_rows f inputs (preview_cache_new\<lparr>preview_initialized := True\<rparr>) = resolving f inputs {}"
  proof -
    have "map (unresolved f) inputs = map (\<lambda>i. unresolved f (inputs ! i)) [0..<length inputs]"
      by (rule nth_equalityI) simp_all
    then show ?thesis
      by (subst index_rows_eq) (simp_all add: preview_cache_new_def resolving_def groups_of_def group_of_def Let_def fun_eq_iff)
  qed
  note dom = dom_groups_of [of ?ks]
  have the: "the (groups_of ?ks k) = group_of ?ks k" if "k \<in> set ?ks" for k
    using that by (auto simp: groups_of_def group_of_def in_set_conv_nth)
  have "fold (\<lambda>k. resolve_group (the (groups_of ?ks k))) (sorted_list_of_set (set ?ks)) (resolving f inputs {}) =
      fold (\<lambda>k. resolve_group (group_of ?ks k)) (sorted_list_of_set (set ?ks)) (resolving f inputs {})"
    by (rule fold_cong) (use the in auto)
  also have "\<dots> = resolving f inputs (\<Union>k\<in>set ?ks. group_of ?ks k)"
    using resolve_groups [of "sorted_list_of_set (set ?ks)" f inputs "{}"] by simp
  also have "(\<Union>k\<in>set ?ks. group_of ?ks k) = {0..<length inputs}"
    by (auto simp: group_of_def) (metis nth_mem)
  finally have "fold (\<lambda>k. resolve_group (the (groups_of ?ks k))) (sorted_list_of_set (set ?ks)) (resolving f inputs {}) =
      resolving f inputs {0..<length inputs}" .
  moreover have "destination_rows (resolving f inputs {}) = groups_of ?ks" by (simp add: resolving_def Let_def)
  ultimately show ?thesis
    using resolving_all [OF assms, of f] by (simp add: refresh_by_def indexed dom)
qed

section \<open>The refresh of one row\<close>

lemma moved_groups:
  assumes "row < length ks" and "ks ! row \<noteq> k"
  shows "map_option (join_group k row) (leave_group (ks ! row) row (groups_of ks)) = Some (groups_of (ks[row := k]))"
proof -
  have old: "groups_of ks (ks ! row) = Some (group_of ks (ks ! row))"
    using assms(1) by (auto simp: groups_of_def group_of_def)
  have group: "group_of (ks[row := k]) x = (if x = k then insert row (group_of ks x) else group_of ks x - {row})" for x
    using assms by (auto simp: group_of_def nth_list_update)
  have same: "group_of ks x - {row} = group_of ks x" if "x \<noteq> ks ! row" for x
    using that by (auto simp: group_of_def)
  have "join_group k row (if group_of ks (ks ! row) - {row} = {} then (groups_of ks)(ks ! row := None)
        else (groups_of ks)(ks ! row \<mapsto> group_of ks (ks ! row) - {row})) = groups_of (ks[row := k])"
  proof
    fix x
    show "join_group k row (if group_of ks (ks ! row) - {row} = {} then (groups_of ks)(ks ! row := None)
        else (groups_of ks)(ks ! row \<mapsto> group_of ks (ks ! row) - {row})) x = groups_of (ks[row := k]) x"
      using assms(2) same [of x] by (auto simp: join_group_def groups_of_def group)
  qed
  then show ?thesis by (simp add: leave_group_def old Let_def)
qed

lemma colliding_group:
  assumes "i < length ks"
  shows "(case groups_of ks (ks ! i) of None \<Rightarrow> False | Some rows \<Rightarrow> 1 < card rows) = collides ks i"
proof -
  have "groups_of ks (ks ! i) = Some (group_of ks (ks ! i))"
    using assms by (auto simp: groups_of_def group_of_def)
  with card_group_collides [OF assms] show ?thesis by simp
qed

text \<open>Reissuing rows gives each of them the diagnostic of the new keys.\<close>

definition same_input :: "'k cached_preview_row \<Rightarrow> 'k cached_preview_row \<Rightarrow> bool" where
  "same_input a b \<longleftrightarrow> row_key a = row_key b \<and> row_base_issue a = row_base_issue b \<and> row_change a = row_change b"

lemma reissue_rows:
  assumes "counted c" and "length (preview_rows c) = length inputs" and "length ks = length inputs"
    and "destination_rows c = groups_of ks" and "preview_initialized c"
    and "\<forall>i<length inputs. same_input (preview_rows c ! i) (cached_of ks inputs i)"
    and "\<forall>i\<in>set rows. i < length inputs"
  shows "let c' = fold reissue_row rows c in counted c' \<and> preview_initialized c' \<and> destination_rows c' = groups_of ks \<and>
    length (preview_rows c') = length inputs \<and>
    (\<forall>i<length inputs. preview_rows c' ! i = (if i \<in> set rows then cached_of ks inputs i else preview_rows c ! i))"
  using assms
proof (induction rows arbitrary: c)
  case (Cons row rows)
  have row: "row < length inputs" using Cons.prems(7) by simp
  define c1 where "c1 = reissue_row row c"
  have input: "same_input (preview_rows c ! row) (cached_of ks inputs row)" using Cons.prems(6) row by blast
  then have issue: "reissue_row row c = replace_issue row (row_issue (cached_of ks inputs row)) c"
    using colliding_group [of row ks] row Cons.prems(3)
    by (simp add: reissue_row_def Let_def same_input_def Cons.prems(4) cached_of_def)
  have "(preview_rows c ! row)\<lparr>row_issue := row_issue (cached_of ks inputs row)\<rparr> = cached_of ks inputs row"
    using input by (cases "preview_rows c ! row") (simp add: same_input_def cached_of_def)
  then have rows: "preview_rows c1 = (preview_rows c)[row := cached_of ks inputs row]"
    using row Cons.prems(2) by (simp add: c1_def issue replace_issue_rows)
  have "counted c1" using replace_issue_counted [OF Cons.prems(1)] row Cons.prems(2) by (simp add: c1_def issue)
  moreover have "\<forall>i<length inputs. same_input (preview_rows c1 ! i) (cached_of ks inputs i)"
    using Cons.prems(2,6) row by (auto simp: rows nth_list_update same_input_def)
  moreover have "destination_rows c1 = groups_of ks" "preview_initialized c1"
    using Cons.prems(4,5) by (simp_all add: c1_def issue)
  ultimately have "let c' = fold reissue_row rows c1 in counted c' \<and> preview_initialized c' \<and>
      destination_rows c' = groups_of ks \<and> length (preview_rows c') = length inputs \<and>
      (\<forall>i<length inputs. preview_rows c' ! i = (if i \<in> set rows then cached_of ks inputs i else preview_rows c1 ! i))"
    using Cons.prems(2,3,7) by (intro Cons.IH) (simp_all add: rows)
  then show ?case
    using Cons.prems(2) row by (auto simp: Let_def c1_def [symmetric] rows nth_list_update)
qed (simp add: Let_def)

lemma preview_of_eqI:
  assumes "counted c" and "preview_initialized c" and "destination_rows c = groups_of (map (key_of f) inputs)"
    and "preview_rows c = map (cached_of (map (key_of f) inputs) inputs) [0..<length inputs]"
    and "length inputs < USIZE_LIMIT"
  shows "with_blockers c = preview_of f inputs"
proof -
  let ?rows = "preview_rows c"
  have "count_where is_invalid_name rows + count_where (\<lambda>x. x = DuplicateDestination) rows \<le> length rows"
    for rows :: "'a cached_preview_row list"
    by (induction rows) (auto simp: is_invalid_name_def count_where_def)
  from this [of ?rows] have "count_where is_invalid_name ?rows + count_where (\<lambda>x. x = DuplicateDestination) ?rows < USIZE_LIMIT"
    using assms(4,5) by simp
  then show ?thesis
    using assms by (cases c) (simp add: with_blockers_def preview_of_def Let_def counted_def saturating_add_def)
qed

lemma preview_of_fields [simp]:
  "preview_initialized (preview_of f inputs)" "destination_rows (preview_of f inputs) = groups_of (map (key_of f) inputs)"
  "preview_rows (preview_of f inputs) = map (cached_of (map (key_of f) inputs) inputs) [0..<length inputs]"
  "counted (preview_of f inputs)"
  by (simp_all add: preview_of_def Let_def counted_def)

lemma refresh_one_eq:
  fixes f :: "'k keying" and inputs :: "preview_row_input list" and input :: preview_row_input and row :: usize
  assumes row: "row < length inputs" and len: "length inputs < USIZE_LIMIT"
  defines "ks \<equiv> map (key_of f) inputs" and "ks' \<equiv> map (key_of f) (inputs[row := input])"
  shows "refresh_one_by f (length inputs) row input (preview_of f inputs) =
    (Some \<lparr>affected_rows = sorted_list_of_set (group_of ks (ks ! row) \<union> group_of ks' (ks' ! row)),
       previous_changed = is_changed (input_change (inputs ! row)), current_changed = is_changed (input_change input)\<rparr>,
     preview_of f (inputs[row := input]))"
    and "i < length inputs \<Longrightarrow> i \<notin> group_of ks (ks ! row) \<union> group_of ks' (ks' ! row) \<Longrightarrow>
      cached_of ks' (inputs[row := input]) i = cached_of ks inputs i"
proof -
  let ?inputs = "inputs[row := input]" and ?affected = "group_of ks (ks ! row) \<union> group_of ks' (ks' ! row)"
  have ks': "ks' = ks[row := key_of f input]" "ks' ! row = key_of f input" "length ks = length inputs"
    using row by (simp_all add: ks_def ks'_def map_update)
  have same: "cached_of ks' ?inputs i = cached_of ks inputs i" if "i < length inputs" "i \<notin> ?affected" for i
  proof -
    have "i \<noteq> row" "ks ! i \<noteq> ks ! row" using that row by (auto simp: group_of_def ks'(3))
    moreover have "ks' ! i \<noteq> ks' ! row" using that by (auto simp: group_of_def ks'(1,3))
    moreover from calculation have "ks' ! i = ks ! i" by (simp add: ks'(1))
    ultimately have i: "i \<noteq> row" "ks ! i \<noteq> ks ! row" "ks ! i \<noteq> key_of f input" by (simp_all add: ks'(2))
    have "j < length ks' \<and> j \<noteq> i \<and> ks' ! j = ks' ! i \<longleftrightarrow> j < length ks \<and> j \<noteq> i \<and> ks ! j = ks ! i" for j
      using i row by (cases "j = row") (auto simp: ks'(1,3))
    then have "collides ks' i = collides ks i" by (auto simp: collides_def)
    with i show ?thesis by (simp add: cached_of_def ks'(1) base_of_def)
  qed
  then show "i < length inputs \<Longrightarrow> i \<notin> ?affected \<Longrightarrow> cached_of ks' ?inputs i = cached_of ks inputs i" .
  define c1 where "c1 = (preview_of f inputs)\<lparr>destination_rows := groups_of ks',
    preview_rows := (preview_rows (preview_of f inputs))[row := (cached_of ks inputs row)
      \<lparr>row_key := key_of f input, row_base_issue := base_of input, row_change := input_change input\<rparr>]\<rparr>"
  have affected: "?affected \<subseteq> {0..<length inputs}" "row \<in> ?affected" "finite ?affected"
    using row by (auto simp: group_of_def ks')
  have "counted c1"
    using row preview_of_fields(4) [of f inputs]
    by (simp add: counted_def c1_def ks_def [symmetric] count_where_same)
  moreover have "\<forall>i<length inputs. same_input (preview_rows c1 ! i) (cached_of ks' ?inputs i)"
    using row by (auto simp: c1_def ks_def [symmetric] same_input_def cached_of_def nth_list_update ks'(1,3))
  moreover have "length (preview_rows c1) = length inputs" "destination_rows c1 = groups_of ks'" "preview_initialized c1"
    by (simp_all add: c1_def)
  ultimately have "let c' = fold reissue_row (sorted_list_of_set ?affected) c1 in counted c' \<and> preview_initialized c' \<and>
      destination_rows c' = groups_of ks' \<and> length (preview_rows c') = length ?inputs \<and>
      (\<forall>i<length ?inputs. preview_rows c' ! i =
         (if i \<in> set (sorted_list_of_set ?affected) then cached_of ks' ?inputs i else preview_rows c1 ! i))"
    using affected by (intro reissue_rows) (auto simp: ks'_def)
  then have c': "counted (fold reissue_row (sorted_list_of_set ?affected) c1)"
      "preview_initialized (fold reissue_row (sorted_list_of_set ?affected) c1)"
      "destination_rows (fold reissue_row (sorted_list_of_set ?affected) c1) = groups_of ks'"
      "length (preview_rows (fold reissue_row (sorted_list_of_set ?affected) c1)) = length inputs"
      "\<forall>i<length inputs. preview_rows (fold reissue_row (sorted_list_of_set ?affected) c1) ! i =
        (if i \<in> ?affected then cached_of ks' ?inputs i else preview_rows c1 ! i)"
    using affected(3) by (simp_all add: Let_def)
  have "preview_rows c1 ! i = cached_of ks' ?inputs i" if "i < length inputs" "i \<notin> ?affected" for i
  proof -
    have "i \<noteq> row" using that(2) affected(2) by blast
    with that same [OF that] show ?thesis by (simp add: c1_def ks_def [symmetric])
  qed
  then have "preview_rows (fold reissue_row (sorted_list_of_set ?affected) c1) =
      map (cached_of ks' ?inputs) [0..<length ?inputs]"
    using c'(4,5) by (intro nth_equalityI) simp_all
  with c' len have final: "with_blockers (fold reissue_row (sorted_list_of_set ?affected) c1) = preview_of f ?inputs"
    by (intro preview_of_eqI) (simp_all add: ks'_def)
  have old: "groups_of ks (ks ! row) = Some (group_of ks (ks ! row))" "row \<in> group_of ks (ks ! row)"
    using row by (auto simp: groups_of_def group_of_def ks'(3))
  have new: "groups_of ks' (key_of f input) = Some (group_of ks' (key_of f input))"
    using row by (auto simp: groups_of_def group_of_def ks')
  have cached: "preview_rows (preview_of f inputs) ! row = cached_of ks inputs row"
    using row by (simp add: ks_def)
  have keys: "(if ks ! row = key_of f input then Some (groups_of ks)
      else map_option (join_group (key_of f input) row) (leave_group (ks ! row) row (groups_of ks))) = Some (groups_of ks')"
  proof (cases "ks ! row = key_of f input")
    case True
    then have "ks' = ks" using list_update_id [of ks row] by (simp add: ks'(1))
    with True show ?thesis by simp
  next
    case False
    with moved_groups [of row ks] row show ?thesis by (simp add: ks'(1,3))
  qed
  have union: "(if ks ! row = key_of f input then group_of ks (ks ! row)
      else case groups_of ks' (key_of f input) of None \<Rightarrow> group_of ks (ks ! row)
        | Some rows \<Rightarrow> group_of ks (ks ! row) \<union> rows) = ?affected"
  proof (cases "ks ! row = key_of f input")
    case True
    then have "ks' = ks" using list_update_id [of ks row] by (simp add: ks'(1))
    with True show ?thesis by (simp add: ks'(2))
  qed (simp add: new ks'(2))
  have fields: "row_key (cached_of ks inputs row) = ks ! row"
    "row_change (cached_of ks inputs row) = input_change (inputs ! row)"
    "destination_rows (preview_of f inputs) = groups_of ks"
    by (simp_all add: cached_of_def ks_def)
  show "refresh_one_by f (length inputs) row input (preview_of f inputs) =
    (Some \<lparr>affected_rows = sorted_list_of_set ?affected,
       previous_changed = is_changed (input_change (inputs ! row)), current_changed = is_changed (input_change input)\<rparr>,
     preview_of f ?inputs)"
    using row old(2) final
    unfolding refresh_one_by_def Let_def cached fields old(1) option.case
      key_of_def [of f input, symmetric] base_of_def [of input, symmetric] keys union
    by (simp add: c1_def cached ks_def [symmetric])
qed

section \<open>Blockers and counts\<close>

lemma count_where_zero: "count_where p rows = 0 \<longleftrightarrow> (\<forall>cached\<in>set rows. \<not> p (row_issue cached))"
  by (simp add: count_where_def filter_empty_conv)

lemma preview_blocker_iff:
  "has_blocker (preview_of f inputs) \<longleftrightarrow>
     (\<exists>i<length inputs. renames (input_change (inputs ! i)) \<and> \<not> valid_leaf (input_proposed (inputs ! i)) \<or>
        is_changed (input_change (inputs ! i)) \<and> collides (map (key_of f) inputs) i)"
proof -
  have base: "is_invalid_name (base_of input) \<longleftrightarrow> renames (input_change input) \<and> \<not> valid_leaf (input_proposed input)"
    for input
    by (auto simp: base_of_def preview_base_issue_def is_invalid_name_def valid_leaf_def split: sum.split)
  have blocked: "is_invalid_name (resolved_preview_issue b change collide) \<or>
      resolved_preview_issue b change collide = DuplicateDestination \<longleftrightarrow>
      is_invalid_name b \<or> is_changed change \<and> collide" if "b \<noteq> DuplicateDestination" for b change collide
    using that by (auto simp: resolved_preview_issue_def is_invalid_name_def)
  have "base_of input \<noteq> DuplicateDestination" for input
    by (auto simp: base_of_def preview_base_issue_def split: sum.split)
  note blocked = blocked [OF this]
  have "has_blocker (preview_of f inputs) \<longleftrightarrow> (\<exists>i<length inputs.
      is_invalid_name (issue_of (map (key_of f) inputs) inputs i) \<or>
      issue_of (map (key_of f) inputs) inputs i = DuplicateDestination)"
    by (auto simp: has_blocker_def preview_of_def Let_def count_where_zero issue_of_def)
  then show ?thesis by (simp add: issue_of_def cached_of_def blocked base)
qed

lemma count_changes_eq:
  "n + length changes < USIZE_LIMIT \<Longrightarrow> m \<le> n \<Longrightarrow> count_changes changes n m =
     \<lparr>cached_total = n + length changes, cached_changed = m + length (filter is_changed changes)\<rparr>"
proof (induction changes arbitrary: n m)
  case (Cons change changes)
  then have "saturating_add n 1 = n + 1" "saturating_add m (of_bool (is_changed change)) = m + of_bool (is_changed change)"
    by (auto simp: saturating_add_def)
  with Cons show ?case by simp
qed simp

lemma counts_refresh_eq:
  "length changes < USIZE_LIMIT \<Longrightarrow> counts_refresh changes =
     \<lparr>cached_total = length changes, cached_changed = length (filter is_changed changes)\<rparr>"
  by (simp add: counts_refresh_def count_changes_eq)

lemma counts_refresh_one_eq:
  assumes "row < length changes" and "length changes < USIZE_LIMIT"
  shows "counts_refresh_one (length changes) (is_changed (changes ! row)) (is_changed change) (counts_refresh changes) =
    (True, counts_refresh (changes[row := change]))"
proof -
  let ?n = "length (filter is_changed changes)" and ?m = "length (filter is_changed (changes[row := change]))"
  have r: "changes = take row changes @ changes ! row # drop (Suc row) changes"
    using assms(1) by (rule id_take_nth_drop)
  have "?n = length (filter is_changed (take row changes @ changes ! row # drop (Suc row) changes))" using r by simp
  then have n: "?n = length (filter is_changed (take row changes)) + of_bool (is_changed (changes ! row)) +
      length (filter is_changed (drop (Suc row) changes))" by simp
  have m: "?m = length (filter is_changed (take row changes)) + of_bool (is_changed change) +
      length (filter is_changed (drop (Suc row) changes))"
    using assms(1) by (simp add: upd_conv_take_nth_drop)
  have "?m \<le> length changes" using length_filter_le [of is_changed "changes[row := change]"] by simp
  moreover have "?n \<le> length changes" by (rule length_filter_le)
  ultimately show ?thesis
    using n m assms(2) by (auto simp: counts_refresh_one_def counts_refresh_eq Let_def split: option.splits)
qed

end
