(* ===== verification/Preview_Claims.thy ===== *)
theory Preview_Claims
  imports Preview_Correct "HOL-Library.List_Lexorder"
begin

text \<open>
  The claims about the preview, with witnesses on two rows of which the second is edited to the
  name of the first.
\<close>

definition joined_key :: "legacy_text \<Rightarrow> legacy_text \<Rightarrow> u16 list" where
  "joined_key parent name = parent @ BACKSLASH # name"

definition sample_input :: "u16 \<Rightarrow> u16 \<Rightarrow> preview_row_input" where
  "sample_input u v = \<lparr>input_parent = [99, COLON], input_current = [u], input_proposed = [v],
     input_is_directory = False, input_change = (if u = v then NoChange else Rename)\<rparr>"

lemma sample_collides:
  "collides (map (key_of joined_key) [sample_input 97 120, sample_input 98 120]) 0"
  by (auto simp: collides_def sample_input_def key_of_def intro!: exI [of _ 1])

lemma sample_name: "validate_windows_leaf_name [120] = Inr ()"
  using valid_leaf_iff [of "[120]"]
  by (simp add: valid_leaf_def forbidden_unit_def base_name_def reserved_bases_def ascii_upper_def)

lemma sample_input_fields [simp]:
  "input_proposed (sample_input u v) = [v]" "input_is_directory (sample_input u v) = False"
  "u \<noteq> v \<Longrightarrow> input_change (sample_input u v) = Rename"
  by (simp_all add: sample_input_def)

text \<open>
  C13: The incremental refresh of the preview equals a full one. After the edit of one row the
  cache is what a full refresh of the edited rows computes, whatever the closure for the destination
  keys; every row whose diagnostic differs is reported as affected; and the reported flags bring the
  cached counts to those of a full count.
\<close>

theorem preview_incremental:
  fixes f :: "legacy_text \<Rightarrow> legacy_text \<Rightarrow> 'k::linorder"
  assumes "row < length inputs" and "length inputs < USIZE_LIMIT"
  shows "case refresh_one_by f (length inputs) row input (refresh_by f inputs c) of (update, c') \<Rightarrow>
    c' = refresh_by f (inputs[row := input]) c0 \<and>
    (\<exists>u. update = Some u \<and>
       (\<forall>i<length inputs. preview_issue c' i \<noteq> preview_issue (refresh_by f inputs c) i \<longrightarrow> i \<in> set (affected_rows u)) \<and>
       counts_refresh_one (length inputs) (previous_changed u) (current_changed u)
           (counts_refresh (map input_change inputs)) =
         (True, counts_refresh (map input_change (inputs[row := input]))))"
proof -
  let ?ks = "map (key_of f) inputs" and ?ks' = "map (key_of f) (inputs[row := input])"
  have full: "refresh_by f inputs c = preview_of f inputs"
    "refresh_by f (inputs[row := input]) c0 = preview_of f (inputs[row := input])"
    using assms(2) by (simp_all add: refresh_by_eq)
  have "preview_issue (preview_of f (inputs[row := input])) i = preview_issue (preview_of f inputs) i"
    if "i < length inputs" "i \<notin> group_of ?ks (?ks ! row) \<union> group_of ?ks' (?ks' ! row)" for i
    using refresh_one_eq(2) [OF assms that] that(1) by (simp add: preview_issue_def)
  moreover have "counts_refresh_one (length inputs) (is_changed (input_change (inputs ! row))) (is_changed (input_change input))
      (counts_refresh (map input_change inputs)) = (True, counts_refresh (map input_change (inputs[row := input])))"
    using counts_refresh_one_eq [of row "map input_change inputs" "input_change input"] assms by (simp add: map_update)
  ultimately show ?thesis
    unfolding full refresh_one_eq(1) [OF assms, of f input] by auto
qed

theorem preview_incremental_witness:
  "case refresh_one_by joined_key 2 1 (sample_input 98 120)
       (refresh_by joined_key [sample_input 97 120, sample_input 98 98] preview_cache_new) of (update, c') \<Rightarrow>
     update \<noteq> None \<and> preview_issue c' 0 = DuplicateDestination"
proof -
  let ?old = "[sample_input 97 120, sample_input 98 98]" and ?new = "[sample_input 97 120, sample_input 98 120]"
  have "preview_issue (refresh_by joined_key ?new preview_cache_new) 0 = DuplicateDestination"
    using sample_collides
    by (simp add: refresh_by_eq preview_issue_def cached_of_def resolved_preview_issue_def is_invalid_name_def
        base_of_def preview_base_issue_def sample_name preview_name_has_empty_stem_def rposition_def)
  with preview_incremental [of 1 ?old joined_key "sample_input 98 120" preview_cache_new preview_cache_new]
  show ?thesis by (auto simp: numeral_2_eq_2 split: prod.splits)
qed

text \<open>
  C32: The preview blocks exactly the edits that cannot be applied as they are: there is a blocker
  if and only if some row is renamed to an invalid Windows name, or some changed row has the
  destination of another row.
\<close>

theorem preview_blocks_exact:
  fixes f :: "legacy_text \<Rightarrow> legacy_text \<Rightarrow> 'k::linorder"
  assumes "length inputs < USIZE_LIMIT"
  shows "has_blocker (refresh_by f inputs c) \<longleftrightarrow>
    (\<exists>i<length inputs. renames (input_change (inputs ! i)) \<and> \<not> valid_leaf (input_proposed (inputs ! i)) \<or>
       is_changed (input_change (inputs ! i)) \<and>
       (\<exists>j<length inputs. j \<noteq> i \<and> f (input_parent (inputs ! j)) (input_proposed (inputs ! j)) =
          f (input_parent (inputs ! i)) (input_proposed (inputs ! i))))"
proof -
  have "collides (map (key_of f) inputs) i \<longleftrightarrow> (\<exists>j<length inputs. j \<noteq> i \<and>
      f (input_parent (inputs ! j)) (input_proposed (inputs ! j)) = f (input_parent (inputs ! i)) (input_proposed (inputs ! i)))"
    if "i < length inputs" for i
    using that by (auto simp: collides_def key_of_def)
  then show ?thesis by (auto simp: refresh_by_eq [OF assms] preview_blocker_iff)
qed

theorem preview_blocks_exact_witness:
  "has_blocker (refresh_by joined_key [sample_input 97 120, sample_input 98 120] preview_cache_new) \<and>
   \<not> has_blocker (refresh_by joined_key [sample_input 97 97, sample_input 98 98] preview_cache_new)"
proof
  have "length [sample_input 97 120, sample_input 98 120] < USIZE_LIMIT" by simp
  note exact = preview_blocks_exact [OF this, of joined_key preview_cache_new]
  show "has_blocker (refresh_by joined_key [sample_input 97 120, sample_input 98 120] preview_cache_new)"
    unfolding exact by (rule exI [of _ 0]) (auto simp: sample_input_def intro: exI [of _ 1])
  have "length [sample_input 97 97, sample_input 98 98] < USIZE_LIMIT" by simp
  from preview_blocks_exact [OF this, of joined_key preview_cache_new]
  show "\<not> has_blocker (refresh_by joined_key [sample_input 97 97, sample_input 98 98] preview_cache_new)"
    by (auto simp: sample_input_def less_Suc_eq)
qed

end
