(* ===== verification/Checked_Words.thy ===== *)
theory Checked_Words
  imports Prelude
begin

text \<open>
  \<open>u64::checked_add(1)\<close>, with which the queues of the application number their requests.
\<close>

definition u64_checked_inc :: "u64 \<Rightarrow> u64 option" where
  "u64_checked_inc n = (if n = - 1 then None else Some (n + 1))"

lemma u64_checked_inc_less:
  assumes "u64_checked_inc n = Some m"
  shows "n < m"
proof -
  from assms have n: "n \<noteq> - 1" and m: "m = n + 1" by (auto simp: u64_checked_inc_def split: if_splits)
  from n have "1 + n \<noteq> 0" by (metis add.commute eq_neg_iff_add_eq_0)
  then have "unat (1 + n) = Suc (unat n)" by (rule unatSuc)
  then show ?thesis by (simp add: m word_less_nat_alt add.commute)
qed

lemma u64_checked_inc_pos: "u64_checked_inc n = Some m \<Longrightarrow> 0 < m"
  by (rule le_less_trans [OF _ u64_checked_inc_less]) simp_all

end
