(* ===== verification/Icon_Requests.thy ===== *)
theory Icon_Requests
  imports Checked_Words "HOL-Library.Multiset"
begin

text \<open>
  The bounded queue of shell-icon requests: \<open>crates/darknamer-app/src/icon_requests.rs\<close>. One worker
  takes a request at a time, the interface drains the results, and a new generation invalidates what
  is queued and undrained while the call of the worker goes on. The operations are the steps of a
  machine; its invariant bounds the work in the slots and keeps old results out.
\<close>

abbreviation MAX_PENDING_ICON_REQUESTS :: usize where "MAX_PENDING_ICON_REQUESTS \<equiv> 64"

datatype 'k request_key = Bootstrap | Class 'k

record request_token =
  token_session :: u64
  token_generation :: u64
  token_serial :: u64

record 'k icon_request =
  request_token_of :: request_token
  request_key_of :: "'k request_key"

record ('k, 'r) icon_completion =
  completion_request :: "'k icon_request"
  completion_result :: 'r

datatype submit_disposition =
  Queued | Coalesced | DeferredStaleInFlight | Saturated | IdentifierExhausted | Retired

datatype completion_disposition = Published | Discarded | Unexpected

record ('k, 'r) icon_requests =
  icon_session :: u64
  icon_generation :: u64
  next_serial :: u64
  queued :: "'k icon_request list"
  in_flight :: "'k icon_request option"
  completed :: "('k, 'r) icon_completion list"
  retired :: bool

definition icon_requests_new :: "u64 \<Rightarrow> ('k, 'r) icon_requests" where
  "icon_requests_new s = \<lparr>icon_session = s, icon_generation = 0, next_serial = 0, queued = [],
     in_flight = None, completed = [], retired = False\<rparr>"

definition in_flight_count :: "('k, 'r) icon_requests \<Rightarrow> usize" where
  "in_flight_count q = of_bool (in_flight q \<noteq> None)"

definition pending_count :: "('k, 'r) icon_requests \<Rightarrow> usize" where
  "pending_count q = length (queued q) + in_flight_count q + length (completed q)"

definition icon_submit ::
  "'k request_key \<Rightarrow> ('k, 'r) icon_requests \<Rightarrow> submit_disposition \<times> ('k, 'r) icon_requests" where
  "icon_submit key q =
     (if retired q then (Retired, q)
      else if \<exists>r. in_flight q = Some r \<and> request_key_of r = key
      then (if token_generation (request_token_of (the (in_flight q))) = icon_generation q
            then Coalesced else DeferredStaleInFlight, q)
      else if (\<exists>r\<in>set (queued q). request_key_of r = key) \<or>
              (\<exists>c\<in>set (completed q). request_key_of (completion_request c) = key)
      then (Coalesced, q)
      else if pending_count q = MAX_PENDING_ICON_REQUESTS then (Saturated, q)
      else case u64_checked_inc (next_serial q) of
             None \<Rightarrow> (IdentifierExhausted, q)
           | Some serial \<Rightarrow>
               (Queued, q\<lparr>next_serial := serial,
                  queued := queued q @ [\<lparr>request_token_of = \<lparr>token_session = icon_session q,
                      token_generation = icon_generation q, token_serial = serial\<rparr>,
                    request_key_of = key\<rparr>]\<rparr>))"

definition icon_take_next :: "('k, 'r) icon_requests \<Rightarrow> 'k icon_request option \<times> ('k, 'r) icon_requests" where
  "icon_take_next q =
     (if retired q \<or> in_flight q \<noteq> None then (None, q)
      else case queued q of
             [] \<Rightarrow> (None, q)
           | r # rest \<Rightarrow> (Some r, q\<lparr>queued := rest, in_flight := Some r\<rparr>))"

definition icon_complete ::
  "request_token \<Rightarrow> 'r \<Rightarrow> ('k, 'r) icon_requests \<Rightarrow> completion_disposition \<times> ('k, 'r) icon_requests" where
  "icon_complete token result q =
     (if map_option request_token_of (in_flight q) \<noteq> Some token then (Unexpected, q)
      else case in_flight q of
             None \<Rightarrow> (Unexpected, q)
           | Some r \<Rightarrow>
               let q = q\<lparr>in_flight := None\<rparr>
               in if retired q \<or> token_generation (request_token_of r) \<noteq> icon_generation q then (Discarded, q)
                  else (Published, q\<lparr>completed := completed q @
                          [\<lparr>completion_request = r, completion_result = result\<rparr>]\<rparr>))"

definition icon_acknowledge :: "usize \<Rightarrow> ('k, 'r) icon_requests \<Rightarrow> usize \<times> ('k, 'r) icon_requests" where
  "icon_acknowledge n q =
     (let acknowledged = min n (length (completed q))
      in (acknowledged, q\<lparr>completed := drop acknowledged (completed q)\<rparr>))"

definition icon_retire :: "('k, 'r) icon_requests \<Rightarrow> ('k, 'r) icon_requests" where
  "icon_retire q = q\<lparr>retired := True, queued := [], completed := []\<rparr>"

definition icon_advance_generation :: "('k, 'r) icon_requests \<Rightarrow> bool \<times> ('k, 'r) icon_requests" where
  "icon_advance_generation q =
     (if retired q then (False, q)
      else case u64_checked_inc (icon_generation q) of
             None \<Rightarrow> (False, icon_retire q)
           | Some generation \<Rightarrow> (True, q\<lparr>icon_generation := generation, queued := [], completed := []\<rparr>))"

section \<open>The machine\<close>

text \<open>
  A run of the queue from its start, with the tokens of the results it published, latest first.
\<close>

inductive icon_run :: "u64 \<Rightarrow> request_token list \<Rightarrow> ('k, 'r) icon_requests \<Rightarrow> bool" for s where
  start: "icon_run s [] (icon_requests_new s)"
| submit: "icon_run s log q \<Longrightarrow> icon_submit key q = (d, q') \<Longrightarrow> icon_run s log q'"
| take_one: "icon_run s log q \<Longrightarrow> icon_take_next q = (r, q') \<Longrightarrow> icon_run s log q'"
| complete: "icon_run s log q \<Longrightarrow> icon_complete token result q = (e, q') \<Longrightarrow>
    icon_run s (if e = Published then token # log else log) q'"
| acknowledge: "icon_run s log q \<Longrightarrow> icon_acknowledge n q = (k, q') \<Longrightarrow> icon_run s log q'"
| advance: "icon_run s log q \<Longrightarrow> icon_advance_generation q = (b, q') \<Longrightarrow> icon_run s log q'"
| retire: "icon_run s log q \<Longrightarrow> icon_run s log (icon_retire q)"

definition outstanding :: "('k, 'r) icon_requests \<Rightarrow> 'k icon_request list" where
  "outstanding q = (case in_flight q of None \<Rightarrow> [] | Some r \<Rightarrow> [r]) @ queued q"

definition held :: "('k, 'r) icon_requests \<Rightarrow> 'k icon_request list" where
  "held q = outstanding q @ map completion_request (completed q)"

definition serial_of :: "'k icon_request \<Rightarrow> u64" where
  "serial_of r = token_serial (request_token_of r)"

text \<open>The invariant: of the slots, and of the serials still to be answered against the answered ones.\<close>

definition icon_inv :: "('k, 'r) icon_requests \<Rightarrow> bool" where
  "icon_inv q \<longleftrightarrow> length (held q) \<le> MAX_PENDING_ICON_REQUESTS \<and> distinct (map request_key_of (held q)) \<and>
     (\<forall>r\<in>set (held q). token_session (request_token_of r) = icon_session q) \<and>
     (\<forall>r\<in>set (queued q) \<union> completion_request ` set (completed q).
        token_generation (request_token_of r) = icon_generation q) \<and>
     (retired q \<longrightarrow> queued q = [] \<and> completed q = [])"

definition log_inv :: "request_token list \<Rightarrow> ('k, 'r) icon_requests \<Rightarrow> bool" where
  "log_inv log q \<longleftrightarrow> distinct (map serial_of (outstanding q) @ map token_serial log) \<and>
     (\<forall>n\<in>set (map serial_of (outstanding q) @ map token_serial log). n \<le> next_serial q) \<and>
     request_token_of ` completion_request ` set (completed q) \<subseteq> set log"

lemmas icon_defs = icon_inv_def log_inv_def held_def outstanding_def serial_of_def

lemma pending_held: "pending_count q = length (held q)"
  by (auto simp: pending_count_def in_flight_count_def held_def outstanding_def split: option.split)

lemma icon_start_inv: "icon_inv (icon_requests_new s)" "log_inv [] (icon_requests_new s)"
  by (simp_all add: icon_defs icon_requests_new_def)

lemma submit_cases:
  assumes "icon_submit key q = (d, q')"
  obtains (same) "q' = q"
  | (push) serial r where "u64_checked_inc (next_serial q) = Some serial"
      "q' = q\<lparr>next_serial := serial, queued := queued q @ [r]\<rparr>"
      "request_token_of r = \<lparr>token_session = icon_session q, token_generation = icon_generation q,
         token_serial = serial\<rparr>"
      "request_key_of r = key" "key \<notin> request_key_of ` set (held q)"
      "pending_count q \<noteq> MAX_PENDING_ICON_REQUESTS" "\<not> retired q"
proof (cases "d = Queued")
  case False
  with assms have "q' = q" by (auto simp: icon_submit_def split: if_splits option.splits)
  then show ?thesis by (rule same)
next
  case True
  with assms have no: "\<not> retired q" "\<not> (\<exists>r. in_flight q = Some r \<and> request_key_of r = key)"
      "\<not> ((\<exists>r\<in>set (queued q). request_key_of r = key) \<or>
          (\<exists>c\<in>set (completed q). request_key_of (completion_request c) = key))"
      "pending_count q \<noteq> MAX_PENDING_ICON_REQUESTS"
    by (simp_all add: icon_submit_def split: if_splits)
  with assms True obtain serial where "u64_checked_inc (next_serial q) = Some serial"
    "q' = q\<lparr>next_serial := serial, queued := queued q @ [\<lparr>request_token_of = \<lparr>token_session = icon_session q,
       token_generation = icon_generation q, token_serial = serial\<rparr>, request_key_of = key\<rparr>]\<rparr>"
    by (simp add: icon_submit_def split: option.splits)
  moreover have "key \<notin> request_key_of ` set (held q)"
    using no(2,3) by (cases "in_flight q") (auto simp: held_def outstanding_def)
  ultimately show ?thesis using no(1,4) by (intro push) auto
qed

lemma shrink_inv:
  assumes inv: "icon_inv q" and fewer: "mset (held q') \<subseteq># mset (held q)"
    and "icon_session q' = icon_session q"
    and "\<forall>r\<in>set (queued q') \<union> completion_request ` set (completed q').
        token_generation (request_token_of r) = icon_generation q'"
    and "retired q' \<longrightarrow> queued q' = [] \<and> completed q' = []"
  shows "icon_inv q'"
proof -
  from fewer obtain rest where rest: "mset (held q) = mset (held q') + mset rest"
    by (metis ex_mset subset_mset.le_iff_add)
  then have "mset (map request_key_of (held q)) = mset (map request_key_of (held q' @ rest))" by simp
  with inv have "distinct (map request_key_of (held q' @ rest))"
    unfolding icon_inv_def by (metis mset_eq_imp_distinct_iff)
  then have "distinct (map request_key_of (held q'))" by simp
  moreover have "length (held q') \<le> length (held q)"
    using fewer by (metis size_mset size_mset_mono)
  moreover have "set (held q') \<subseteq> set (held q)" using fewer by (metis set_mset_mono set_mset_mset)
  ultimately show ?thesis using assms unfolding icon_inv_def by (auto simp del: One_nat_def)
qed

lemma shrink_log:
  assumes inv: "log_inv log q" and fewer: "mset (outstanding q') \<subseteq># mset (outstanding q)"
    and serial: "next_serial q' = next_serial q"
    and answered: "request_token_of ` completion_request ` set (completed q') \<subseteq> set log"
  shows "log_inv log q'"
proof -
  from fewer obtain rest where rest: "mset (outstanding q) = mset (outstanding q') + mset rest"
    by (metis ex_mset subset_mset.le_iff_add)
  then have same: "mset (map serial_of (outstanding q) @ map token_serial log) =
      mset ((map serial_of (outstanding q') @ map token_serial log) @ map serial_of rest)" by simp
  from inv have "distinct (map serial_of (outstanding q) @ map token_serial log)"
    by (simp only: log_inv_def)
  with same have "distinct ((map serial_of (outstanding q') @ map token_serial log) @ map serial_of rest)"
    by (metis mset_eq_imp_distinct_iff)
  then have one: "distinct (map serial_of (outstanding q') @ map token_serial log)" by (simp only: distinct_append)
  have sub: "set (map serial_of (outstanding q') @ map token_serial log) \<subseteq>
      set (map serial_of (outstanding q) @ map token_serial log)"
    using same by (metis Un_upper1 set_append set_mset_mset)
  from inv have "\<forall>n\<in>set (map serial_of (outstanding q) @ map token_serial log). n \<le> next_serial q"
    unfolding log_inv_def by (elim conjE)
  with sub have "\<forall>n\<in>set (map serial_of (outstanding q') @ map token_serial log). n \<le> next_serial q'"
    unfolding serial by blast
  with one answered show ?thesis by (simp only: log_inv_def)
qed

lemma submit_inv:
  assumes "icon_inv q" and "log_inv log q" and "icon_submit key q = (d, q')"
  shows "icon_inv q' \<and> log_inv log q'"
  using assms(3)
proof (cases rule: submit_cases)
  case same
  with assms show ?thesis by simp
next
  case (push serial r)
  note less = u64_checked_inc_less [OF push(1)]
  have room: "length (held q) < MAX_PENDING_ICON_REQUESTS"
    using push(6) assms(1) by (simp add: pending_held icon_inv_def)
  have held: "mset (held q') = add_mset r (mset (held q))"
    and out: "outstanding q' = outstanding q @ [r]"
    by (simp_all add: push(2) held_def outstanding_def)
  have "mset (map request_key_of (held q')) = mset (map request_key_of (r # held q))" using held by simp
  moreover have "distinct (map request_key_of (r # held q))"
    using push(4,5) assms(1) by (simp add: icon_inv_def)
  ultimately have "distinct (map request_key_of (held q'))" by (metis mset_eq_imp_distinct_iff)
  moreover have "length (held q') = Suc (length (held q))" using held by (metis size_add_mset size_mset)
  moreover have "set (held q') = insert r (set (held q))" using held by (metis set_mset_add_mset_insert set_mset_mset)
  moreover have "queued q' = queued q @ [r]" "completed q' = completed q" "icon_session q' = icon_session q"
      "icon_generation q' = icon_generation q" "retired q' = retired q" by (simp_all add: push(2))
  ultimately have slots: "icon_inv q'" using assms(1) room push(3,7) unfolding icon_inv_def by auto
  have new: "serial_of r = serial" "next_serial q' = serial" "completed q' = completed q"
    using push(3) by (simp_all add: serial_of_def push(2))
  let ?ns = "map serial_of (outstanding q) @ map token_serial log"
  from assms(2) have old: "distinct ?ns" "\<forall>n\<in>set ?ns. n \<le> next_serial q"
    unfolding log_inv_def by blast+
  from old(2) less have below: "\<forall>n\<in>set ?ns. n < serial" by (meson order_le_less_trans)
  then have "serial \<notin> set ?ns" by (meson less_irrefl)
  with old(1) have "distinct (map serial_of (outstanding q') @ map token_serial log)"
    by (auto simp: out new(1))
  moreover have "\<forall>n\<in>set (map serial_of (outstanding q') @ map token_serial log). n \<le> serial"
    using below by (auto simp: out new(1) dest: less_imp_le)
  ultimately have "log_inv log q'" using assms(2) unfolding log_inv_def new by blast
  with slots show ?thesis ..
qed

lemma take_inv:
  assumes "icon_inv q" and "log_inv log q" and "icon_take_next q = (r, q')"
  shows "icon_inv q' \<and> log_inv log q'"
proof (cases "retired q \<or> in_flight q \<noteq> None \<or> queued q = []")
  case True
  with assms show ?thesis by (cases "queued q") (auto simp: icon_take_next_def split: if_splits)
next
  case False
  then obtain x rest where x: "queued q = x # rest" "in_flight q = None" "\<not> retired q"
    by (auto simp: neq_Nil_conv)
  then have "icon_take_next q = (Some x, q\<lparr>queued := rest, in_flight := Some x\<rparr>)"
    by (simp add: icon_take_next_def)
  with assms(3) have q': "q' = q\<lparr>queued := rest, in_flight := Some x\<rparr>" by (metis prod.inject)
  have same: "held q' = held q" "outstanding q' = outstanding q"
    by (simp_all add: q' x held_def outstanding_def)
  have fewer: "mset (held q') \<subseteq># mset (held q)" "mset (outstanding q') \<subseteq># mset (outstanding q)"
    by (simp_all add: same)
  have "icon_inv q'"
    by (rule shrink_inv [OF assms(1) fewer(1)]) (use assms(1) x in \<open>auto simp: q' icon_inv_def\<close>)
  moreover have "log_inv log q'"
    by (rule shrink_log [OF assms(2) fewer(2)]) (use assms(2) in \<open>auto simp: q' log_inv_def\<close>)
  ultimately show ?thesis ..
qed

lemma complete_inv:
  assumes "icon_inv q" and "log_inv log q" and "icon_complete token result q = (e, q')"
  shows "icon_inv q' \<and> log_inv (if e = Published then token # log else log) q'"
proof (cases "map_option request_token_of (in_flight q) = Some token")
  case False
  with assms show ?thesis by (simp add: icon_complete_def)
next
  case True
  then obtain r where r: "in_flight q = Some r" "request_token_of r = token" by auto
  from assms(1) have slots: "\<forall>r\<in>set (queued q) \<union> completion_request ` set (completed q).
        token_generation (request_token_of r) = icon_generation q"
      "retired q \<longrightarrow> queued q = [] \<and> completed q = []" 
    by (blast dest: icon_inv_def [THEN iffD1])+
  from assms(2) have answered: "request_token_of ` completion_request ` set (completed q) \<subseteq> set log"
    by (simp only: log_inv_def)
  show ?thesis
  proof (cases "retired q \<or> token_generation token \<noteq> icon_generation q")
    case True
    with r have "icon_complete token result q = (Discarded, q\<lparr>in_flight := None\<rparr>)"
      by (simp add: icon_complete_def Let_def)
    with assms(3) have q': "q' = q\<lparr>in_flight := None\<rparr>" and e: "e = Discarded" by simp_all
    have "icon_inv q'" by (rule shrink_inv [OF assms(1)])
      (use slots in \<open>simp_all add: q' r(1) held_def outstanding_def\<close>)
    moreover have "log_inv log q'" by (rule shrink_log [OF assms(2)])
      (use answered in \<open>simp_all add: q' r(1) outstanding_def\<close>)
    ultimately show ?thesis by (simp add: e)
  next
    case False
    with r have "icon_complete token result q = (Published, q\<lparr>in_flight := None, completed := completed q @
        [\<lparr>completion_request = r, completion_result = result\<rparr>]\<rparr>)"
      by (simp add: icon_complete_def Let_def)
    with assms(3) have e: "e = Published" and q': "q' = q\<lparr>in_flight := None, completed := completed q @
        [\<lparr>completion_request = r, completion_result = result\<rparr>]\<rparr>" by simp_all
    have "icon_inv q'" by (rule shrink_inv [OF assms(1)])
      (use slots r(2) False in \<open>simp_all add: q' r(1) held_def outstanding_def\<close>)
    moreover have "outstanding q = r # outstanding q'" "next_serial q' = next_serial q"
      "request_token_of ` completion_request ` set (completed q') =
        insert token (request_token_of ` completion_request ` set (completed q))" "serial_of r = token_serial token"
      by (simp_all add: q' r outstanding_def serial_of_def)
    with assms(2) have "log_inv (token # log) q'" unfolding log_inv_def by (auto simp: image_subset_iff)
    ultimately show ?thesis by (simp add: e)
  qed
qed

lemma cleared_inv:
  assumes "icon_inv q" and "log_inv log q" and "queued q' = []" "completed q' = []"
    and "in_flight q' = in_flight q" "icon_session q' = icon_session q" "next_serial q' = next_serial q"
  shows "icon_inv q' \<and> log_inv log q'"
proof
  show "icon_inv q'" by (rule shrink_inv [OF assms(1)]) (use assms in \<open>simp_all add: held_def outstanding_def\<close>)
  show "log_inv log q'" by (rule shrink_log [OF assms(2)]) (use assms in \<open>simp_all add: outstanding_def\<close>)
qed

lemma acknowledge_inv:
  assumes "icon_inv q" and "log_inv log q" and "icon_acknowledge n q = (k, q')"
  shows "icon_inv q' \<and> log_inv log q'"
proof -
  from assms(3) obtain m where q': "q' = q\<lparr>completed := drop m (completed q)\<rparr>"
    by (auto simp: icon_acknowledge_def Let_def)
  have sub: "set (drop m (completed q)) \<subseteq> set (completed q)" by (rule set_drop_subset)
  have "mset (completed q) = mset (take m (completed q)) + mset (drop m (completed q))"
    by (metis append_take_drop_id mset_append)
  then have fewer: "mset (drop m (completed q)) \<subseteq># mset (completed q)" by simp
  have out: "outstanding q' = outstanding q" by (simp add: q' outstanding_def)
  have "mset (held q') \<subseteq># mset (held q)"
    unfolding held_def out using fewer by (simp add: q' image_mset_subseteq_mono)
  then have "icon_inv q'"
    by (rule shrink_inv [OF assms(1)]) (use assms(1) sub in \<open>auto simp: icon_inv_def q'\<close>)
  moreover from assms(2) have "request_token_of ` completion_request ` set (completed q) \<subseteq> set log"
    by (simp only: log_inv_def)
  then have "request_token_of ` completion_request ` set (completed q') \<subseteq> set log"
    using sub by (simp add: q') blast
  then have "log_inv log q'" by (intro shrink_log [OF assms(2)]) (simp_all add: out, simp add: q')
  ultimately show ?thesis ..
qed

lemma retire_inv:
  assumes "icon_inv q" and "log_inv log q"
  shows "icon_inv (icon_retire q) \<and> log_inv log (icon_retire q)"
  by (rule cleared_inv [OF assms]) (simp_all add: icon_retire_def)

lemma advance_inv:
  assumes "icon_inv q" and "log_inv log q" and "icon_advance_generation q = (b, q')"
  shows "icon_inv q' \<and> log_inv log q'"
proof (cases "retired q")
  case True
  with assms show ?thesis by (simp add: icon_advance_generation_def)
next
  case False
  show ?thesis
  proof (cases "u64_checked_inc (icon_generation q)")
    case None
    with assms(3) False retire_inv [OF assms(1,2)] show ?thesis by (simp add: icon_advance_generation_def)
  next
    case (Some g)
    with assms(3) False show ?thesis
      by (intro cleared_inv [OF assms(1,2)]) (auto simp: icon_advance_generation_def)
  qed
qed

lemma icon_run_inv: "icon_run s log q \<Longrightarrow> icon_inv q \<and> log_inv log q"
proof (induction rule: icon_run.induct)
  case start
  show ?case by (simp add: icon_start_inv)
next
  case (submit log q key d q')
  then show ?case using submit_inv by blast
next
  case (take_one log q r q')
  then show ?case using take_inv by blast
next
  case (complete log q token result e q')
  from complete.IH have "icon_inv q" "log_inv log q" by blast+
  then show ?case by (rule complete_inv [OF _ _ complete.hyps(2)])
next
  case (acknowledge log q n k q')
  then show ?case using acknowledge_inv by blast
next
  case (advance log q b q')
  then show ?case using advance_inv by blast
next
  case (retire log q)
  then show ?case using retire_inv by blast
qed

lemma submit_session: "icon_submit key q = (d, q') \<Longrightarrow> icon_session q' = icon_session q"
  by (erule submit_cases) simp_all

lemma icon_run_session: "icon_run s log q \<Longrightarrow> icon_session q = s"
proof (induction rule: icon_run.induct)
  case (submit log q key d q')
  then show ?case using submit_session by metis
qed (auto simp: icon_requests_new_def icon_take_next_def icon_complete_def icon_acknowledge_def
      icon_advance_generation_def icon_retire_def Let_def split: if_splits list.splits option.splits)

end
