(* ===== verification/Icon_Claims.thy ===== *)
theory Icon_Claims
  imports Icon_Requests
begin

text \<open>
  Claims on the queue of icon requests.
\<close>

text \<open>
  C30: However the calls of the interface and of the worker interleave, the queue never holds more
  than sixty-four requests, never two for one key, and every result it offers to the interface was
  asked for in the current generation of the current session; once retired it offers none.
\<close>

theorem icon_requests_bounded_current:
  assumes "icon_run s log q"
  shows "pending_count q \<le> MAX_PENDING_ICON_REQUESTS \<and> distinct (map request_key_of (held q)) \<and>
    (\<forall>c\<in>set (completed q). token_session (request_token_of (completion_request c)) = s \<and>
       token_generation (request_token_of (completion_request c)) = icon_generation q) \<and>
    (retired q \<longrightarrow> completed q = [])"
proof -
  note inv = icon_run_inv [OF assms, THEN conjunct1, unfolded icon_inv_def]
  have "\<forall>c\<in>set (completed q). token_session (request_token_of (completion_request c)) = s \<and>
       token_generation (request_token_of (completion_request c)) = icon_generation q"
  proof
    fix c
    assume c: "c \<in> set (completed q)"
    then have "completion_request c \<in> set (held q)" by (simp add: held_def)
    with c inv icon_run_session [OF assms]
    show "token_session (request_token_of (completion_request c)) = s \<and>
       token_generation (request_token_of (completion_request c)) = icon_generation q" by blast
  qed
  with inv show ?thesis unfolding pending_held by blast
qed

definition icon_q1 :: "(nat, nat) icon_requests" where
  "icon_q1 = snd (icon_submit (Class 5) (icon_requests_new 9))"

definition icon_q2 :: "(nat, nat) icon_requests" where
  "icon_q2 = snd (icon_take_next icon_q1)"

definition icon_q3 :: "(nat, nat) icon_requests" where
  "icon_q3 = snd (icon_complete \<lparr>token_session = 9, token_generation = 0, token_serial = 1\<rparr> 77 icon_q2)"

lemmas icon_qs = icon_q1_def icon_q2_def icon_q3_def icon_submit_def icon_take_next_def icon_complete_def
  icon_requests_new_def u64_checked_inc_def pending_count_def in_flight_count_def Let_def

lemma icon_runs:
  "icon_run 9 [] icon_q2"
  "icon_run 9 [\<lparr>token_session = 9, token_generation = 0, token_serial = 1\<rparr>] icon_q3"
proof -
  have "icon_run 9 [] icon_q1"
    by (rule icon_run.submit [where d = "fst (icon_submit (Class 5) (icon_requests_new 9))", OF icon_run.start])
      (simp add: icon_q1_def prod_eq_iff)
  then show two: "icon_run 9 [] icon_q2"
    by (rule icon_run.take_one [where r = "fst (icon_take_next icon_q1)"]) (simp add: icon_q2_def)
  have "icon_complete \<lparr>token_session = 9, token_generation = 0, token_serial = 1\<rparr> 77 icon_q2 =
      (Published, icon_q3)"
    by (simp add: icon_qs)
  from icon_run.complete [OF two this]
  show "icon_run 9 [\<lparr>token_session = 9, token_generation = 0, token_serial = 1\<rparr>] icon_q3" by simp
qed

theorem icon_requests_bounded_current_witness:
  "pending_count icon_q3 \<le> MAX_PENDING_ICON_REQUESTS \<and> completed icon_q3 \<noteq> []"
proof -
  have "completed icon_q3 \<noteq> []" by (simp add: icon_qs)
  with icon_requests_bounded_current [OF icon_runs(2)] show ?thesis by blast
qed

text \<open>
  C14: No request is answered twice: over any run the published tokens are distinct, every result on
  offer is one of them, and a second report of an answered token, or of one the worker does not hold,
  is refused without touching the queue.
\<close>

theorem icon_answered_once:
  assumes "icon_run s log q"
  shows "distinct log \<and> request_token_of ` completion_request ` set (completed q) \<subseteq> set log \<and>
    (\<forall>token\<in>set log. icon_complete token result q = (Unexpected, q))"
proof -
  have inv: "log_inv log q" using icon_run_inv [OF assms] by blast
  then have "distinct (map token_serial log)" by (simp add: log_inv_def)
  then have "distinct log" by (simp add: distinct_map)
  moreover have "icon_complete token result q = (Unexpected, q)" if "token \<in> set log" for token
  proof (cases "in_flight q")
    case None
    then show ?thesis by (simp add: icon_complete_def)
  next
    case (Some r)
    with inv have "token_serial (request_token_of r) \<notin> token_serial ` set log"
      by (simp add: log_inv_def outstanding_def serial_of_def)
    with that have "request_token_of r \<noteq> token" by blast
    with Some show ?thesis by (simp add: icon_complete_def)
  qed
  ultimately show ?thesis using inv by (simp add: log_inv_def)
qed

theorem icon_answered_once_witness:
  "icon_complete \<lparr>token_session = 9, token_generation = 0, token_serial = 1\<rparr> 78 icon_q3 = (Unexpected, icon_q3)"
  using icon_answered_once [OF icon_runs(2), where result = 78] by simp

end
