(* ===== verification/Preference_Codec.thy ===== *)
theory Preference_Codec
  imports Journal_Codec
begin

text \<open>
  The records of the settings files: \<open>crates/darknamer-app/src/windows/preferences.rs\<close>. Columns,
  appearance and language are fixed-length records with a magic, a version, reserved bytes and an
  FNV-1a checksum; the decoders check all of them. Every field of the output array is written at
  its offset, as the code does.
\<close>

type_synonym i32 = "32 word"

section \<open>The settings\<close>

record column_state =
  column_visible :: bool
  width_dip :: i32
  user_resized :: bool

definition visible_column :: "i32 \<Rightarrow> column_state" where
  "visible_column w = \<lparr>column_visible = True, width_dip = w, user_resized = False\<rparr>"

definition hidden_column :: "i32 \<Rightarrow> column_state" where
  "hidden_column w = \<lparr>column_visible = False, width_dip = w, user_resized = False\<rparr>"

definition default_column_states :: "column_state list" where
  "default_column_states = [visible_column 150, visible_column 150, visible_column 100,
     hidden_column 120, hidden_column 80, hidden_column 120, hidden_column 120]"

datatype app_theme_mode = Theme_System | Theme_Light | Theme_Dark

datatype rail_density_preference = Automatic | Comfortable | Compact | MenuOnly

datatype preview_emphasis = Subtle | Standard | Strong

record ui_appearance =
  theme_mode :: app_theme_mode
  density :: rail_density_preference
  emphasis :: preview_emphasis
  show_separators :: bool
  show_preview_tint :: bool
  show_empty_safety :: bool

datatype language_preference = Lang_System | Korean | English | Japanese

section \<open>Helpers of the codecs\<close>

datatype language_write_stage =
    ResolveParent | PrepareParent | CreateTemporary | WriteTemporary | FlushTemporary
  | SyncTemporary | ReplaceDestination | SyncParent

text \<open>An \<open>io::Error\<close>: invalid data found by the code, a failed stage of a save, or a failed read.\<close>

datatype preference_error = Invalid_Data string | Write_Failed language_write_stage | Load_Failed int

text \<open>\<open>output[offset..].copy_from_slice(source)\<close>.\<close>

definition copy_at :: "usize \<Rightarrow> u8 list \<Rightarrow> u8 list \<Rightarrow> u8 list" where
  "copy_at offset source out = take offset out @ source @ drop (offset + length source) out"

definition fnv_byte :: "u8 \<Rightarrow> u32 \<Rightarrow> u32" where
  "fnv_byte byte hash = xor hash (ucast byte) * 16777619"

definition fnv_checksum :: "u8 list \<Rightarrow> u32" where
  "fnv_checksum bytes = fold fnv_byte bytes 2166136261"

definition flag_byte :: "bool \<Rightarrow> u8" where
  "flag_byte b = of_bool b"

definition decode_flag :: "u8 \<Rightarrow> preference_error + bool" where
  "decode_flag v = (if v = 0 then Inr False else if v = 1 then Inr True
     else Inl (Invalid_Data ''column preference flag is invalid''))"

section \<open>Language\<close>

definition LANGUAGE_MAGIC :: "u8 list" where
  "LANGUAGE_MAGIC = [0x44, 0x52, 0x4C, 0x41, 0x4E, 0x47, 0, 0]"

definition language_byte :: "language_preference \<Rightarrow> u8" where
  "language_byte p = (case p of Lang_System \<Rightarrow> 0 | Korean \<Rightarrow> 1 | English \<Rightarrow> 2 | Japanese \<Rightarrow> 3)"

definition encode_language :: "language_preference \<Rightarrow> u8 list" where
  "encode_language p =
     (let bytes = replicate 20 0;
          bytes = copy_at 0 LANGUAGE_MAGIC bytes;
          bytes = bytes[8 := 1];
          bytes = bytes[12 := language_byte p];
          digest = fnv_checksum (take 16 bytes)
      in copy_at 16 (le_bytes 4 digest) bytes)"

definition decode_language :: "u8 list \<Rightarrow> preference_error + language_preference" where
  "decode_language bytes =
     (if length bytes \<noteq> 20 \<or> take 8 bytes \<noteq> LANGUAGE_MAGIC \<or> bytes ! 8 \<noteq> 1 \<or>
         take 3 (drop 9 bytes) \<noteq> [0, 0, 0] \<or> take 3 (drop 13 bytes) \<noteq> [0, 0, 0] \<or>
         drop 16 bytes \<noteq> le_bytes 4 (fnv_checksum (take 16 bytes))
      then Inl (Invalid_Data ''invalid language preference record'')
      else if bytes ! 12 = 0 then Inr Lang_System
      else if bytes ! 12 = 1 then Inr Korean
      else if bytes ! 12 = 2 then Inr English
      else if bytes ! 12 = 3 then Inr Japanese
      else Inl (Invalid_Data ''unsupported language preference''))"

section \<open>Appearance\<close>

definition APPEARANCE_MAGIC :: "u8 list" where
  "APPEARANCE_MAGIC = [0x44, 0x52, 0x41, 0x50, 0x50, 0x52, 0, 0]"

definition theme_byte :: "app_theme_mode \<Rightarrow> u8" where
  "theme_byte t = (case t of Theme_System \<Rightarrow> 0 | Theme_Light \<Rightarrow> 1 | Theme_Dark \<Rightarrow> 2)"

definition density_byte :: "rail_density_preference \<Rightarrow> u8" where
  "density_byte d = (case d of Automatic \<Rightarrow> 0 | Comfortable \<Rightarrow> 1 | Compact \<Rightarrow> 2 | MenuOnly \<Rightarrow> 3)"

definition emphasis_byte :: "preview_emphasis \<Rightarrow> u8" where
  "emphasis_byte e = (case e of Subtle \<Rightarrow> 0 | Standard \<Rightarrow> 1 | Strong \<Rightarrow> 2)"

definition encode_appearance :: "ui_appearance \<Rightarrow> u8 list" where
  "encode_appearance a =
     (let out = replicate 24 0;
          out = copy_at 0 APPEARANCE_MAGIC out;
          out = out[8 := 1];
          out = out[9 := 8];
          out = out[12 := theme_byte (theme_mode a)];
          out = out[13 := density_byte (density a)];
          out = out[14 := emphasis_byte (emphasis a)];
          out = out[15 := flag_byte (show_separators a)];
          out = out[16 := flag_byte (show_preview_tint a)];
          out = out[17 := flag_byte (show_empty_safety a)];
          checksum = fnv_checksum (take 20 out)
      in copy_at 20 (le_bytes 4 checksum) out)"

definition decode_theme :: "u8 \<Rightarrow> preference_error + app_theme_mode" where
  "decode_theme v = (if v = 0 then Inr Theme_System else if v = 1 then Inr Theme_Light
     else if v = 2 then Inr Theme_Dark else Inl (Invalid_Data ''appearance theme is invalid''))"

definition decode_density :: "u8 \<Rightarrow> preference_error + rail_density_preference" where
  "decode_density v = (if v = 0 then Inr Automatic else if v = 1 then Inr Comfortable
     else if v = 2 then Inr Compact else if v = 3 then Inr MenuOnly
     else Inl (Invalid_Data ''appearance rail density is invalid''))"

definition decode_emphasis :: "u8 \<Rightarrow> preference_error + preview_emphasis" where
  "decode_emphasis v = (if v = 0 then Inr Subtle else if v = 1 then Inr Standard
     else if v = 2 then Inr Strong else Inl (Invalid_Data ''appearance preview emphasis is invalid''))"

definition decode_appearance :: "u8 list \<Rightarrow> preference_error + ui_appearance" where
  "decode_appearance bytes =
     (if length bytes \<noteq> 24 then Inl (Invalid_Data ''appearance preference length is invalid'')
      else if take 8 bytes \<noteq> APPEARANCE_MAGIC \<or> bytes ! 8 \<noteq> 1 \<or> unat (bytes ! 9) \<noteq> 8 \<or>
              take 2 (drop 10 bytes) \<noteq> [0, 0]
      then Inl (Invalid_Data ''appearance preference header is invalid'')
      else if fnv_checksum (take 20 bytes) \<noteq> from_le_bytes (drop 20 bytes)
      then Inl (Invalid_Data ''appearance preference checksum does not match'')
      else if take 2 (drop 18 bytes) \<noteq> [0, 0]
      then Inl (Invalid_Data ''appearance preference reserved bytes are invalid'')
      else and_then (decode_theme (bytes ! 12)) (\<lambda>theme.
           and_then (decode_density (bytes ! 13)) (\<lambda>dens.
           and_then (decode_emphasis (bytes ! 14)) (\<lambda>emph.
           and_then (decode_flag (bytes ! 15)) (\<lambda>separators.
           and_then (decode_flag (bytes ! 16)) (\<lambda>tint.
           and_then (decode_flag (bytes ! 17)) (\<lambda>safety.
             Inr \<lparr>theme_mode = theme, density = dens, emphasis = emph, show_separators = separators,
                  show_preview_tint = tint, show_empty_safety = safety\<rparr>)))))))"

section \<open>Columns\<close>

definition COLUMNS_MAGIC :: "u8 list" where
  "COLUMNS_MAGIC = [0x44, 0x52, 0x43, 0x4F, 0x4C, 0x53, 0, 0]"

definition width_in_range :: "i32 \<Rightarrow> bool" where
  "width_in_range w \<longleftrightarrow> 0 \<le> sint w \<and> sint w \<le> 32768"

text \<open>The loop over the columns; \<open>index\<close> counts them.\<close>

fun encode_columns_from :: "usize \<Rightarrow> column_state list \<Rightarrow> u8 list \<Rightarrow> preference_error + u8 list" where
  "encode_columns_from index [] out = Inr out"
| "encode_columns_from index (column # columns) out =
     (if \<not> width_in_range (width_dip column)
      then Inl (Invalid_Data ''column width is outside the supported range'')
      else let offset = 12 + index * 6;
               out = out[offset := flag_byte (column_visible column)];
               out = out[offset + 1 := flag_byte (user_resized column)];
               out = copy_at (offset + 2) (le_bytes 4 (width_dip column)) out
           in encode_columns_from (index + 1) columns out)"

definition encode_columns :: "column_state list \<Rightarrow> preference_error + u8 list" where
  "encode_columns columns =
     (let out = replicate 58 0;
          out = copy_at 0 COLUMNS_MAGIC out;
          out = out[8 := 1];
          out = out[9 := 7]
      in and_then (encode_columns_from 0 columns out) (\<lambda>out.
           let checksum = fnv_checksum (take 54 out)
           in Inr (copy_at 54 (le_bytes 4 checksum) out)))"

text \<open>The loop overwrites the default columns one by one.\<close>

fun decode_columns_from :: "u8 list \<Rightarrow> usize \<Rightarrow> column_state list \<Rightarrow> preference_error + column_state list" where
  "decode_columns_from bytes index [] = Inr []"
| "decode_columns_from bytes index (column # columns) =
     (let offset = 12 + index * 6
      in and_then (decode_flag (bytes ! offset)) (\<lambda>visible.
         and_then (decode_flag (bytes ! (offset + 1))) (\<lambda>resized.
           let width = from_le_bytes (take 4 (drop (offset + 2) bytes))
           in if \<not> width_in_range width
              then Inl (Invalid_Data ''column width is outside the supported range'')
              else and_then (decode_columns_from bytes (index + 1) columns) (\<lambda>rest.
                Inr (column\<lparr>column_visible := visible, user_resized := resized, width_dip := width\<rparr> # rest)))))"

definition decode_columns :: "u8 list \<Rightarrow> preference_error + column_state list" where
  "decode_columns bytes =
     (if length bytes \<noteq> 58 then Inl (Invalid_Data ''column preference length is invalid'')
      else if take 8 bytes \<noteq> COLUMNS_MAGIC \<or> bytes ! 8 \<noteq> 1 \<or> unat (bytes ! 9) \<noteq> 7 \<or>
              take 2 (drop 10 bytes) \<noteq> [0, 0]
      then Inl (Invalid_Data ''column preference header is invalid'')
      else if fnv_checksum (take 54 bytes) \<noteq> from_le_bytes (drop 54 bytes)
      then Inl (Invalid_Data ''column preference checksum does not match'')
      else decode_columns_from bytes 0 default_column_states)"

section \<open>Bytes of words\<close>

lemma bit_from_le_bytes:
  "bit (from_le_bytes bs :: 'a::len word) i \<Longrightarrow> i < 8 * length bs"
proof (induction bs arbitrary: i)
  case (Cons b bs)
  from Cons.prems consider "bit b i" | "8 \<le> i" "bit (from_le_bytes bs :: 'a word) (i - 8)"
    by (auto simp: bit_simps)
  then show ?case
  proof cases
    case 1
    then have "i < 8" using bit_imp_le_length [of b i] by simp
    then show ?thesis by simp
  next
    case 2
    from Cons.IH [OF 2(2)] 2(1) show ?thesis by simp
  qed
qed simp

lemma le_bytes_from [simp]:
  assumes "length bs = n" and "8 * n \<le> LENGTH('a::len)"
  shows "le_bytes n (from_le_bytes bs :: 'a word) = bs"
  using assms
proof (induction bs arbitrary: n)
  case (Cons b bs)
  then obtain m where n: "n = Suc m" "length bs = m" "8 * m + 8 \<le> LENGTH('a)" by (cases n) auto
  let ?x = "from_le_bytes bs :: 'a word"
  have low: "ucast (or (ucast b) (push_bit 8 ?x)) = b"
    by (rule bit_word_eqI) (use n(3) in \<open>auto simp: bit_simps\<close>)
  have high: "drop_bit 8 (or (ucast b) (push_bit 8 ?x)) = ?x"
  proof (rule bit_word_eqI)
    fix i
    assume "i < LENGTH('a)"
    have "8 + i < LENGTH('a)" if "bit ?x i" using bit_from_le_bytes [OF that] n(2,3) by linarith
    moreover have "\<not> bit b (8 + i)" using bit_imp_le_length [of b "8 + i"] by auto
    ultimately show "bit (drop_bit 8 (or (ucast b) (push_bit 8 ?x))) i = bit ?x i"
      by (auto simp: bit_simps)
  qed
  have "le_bytes n (from_le_bytes (b # bs) :: 'a word) = b # le_bytes m ?x"
    by (simp only: n(1) from_le_bytes.simps le_bytes.simps low high)
  with Cons.IH [OF n(2)] n(3) show ?case by simp
qed simp

lemma flag_byte_eqs [simp]: "decode_flag v = Inr b \<longleftrightarrow> v = flag_byte b"
  by (cases b) (auto simp: decode_flag_def flag_byte_def)

lemma decode_flag_byte: "decode_flag (flag_byte b) = Inr b"
  by simp

section \<open>The images of the records\<close>

lemma length_copy_at [simp]: "offset + length source \<le> length out \<Longrightarrow> length (copy_at offset source out) = length out"
  by (simp add: copy_at_def)

lemmas small_list = numeral_eq_Suc copy_at_def

definition language_body :: "language_preference \<Rightarrow> u8 list" where
  "language_body p = LANGUAGE_MAGIC @ [1, 0, 0, 0, language_byte p, 0, 0, 0]"

lemma encode_language_image: "encode_language p = language_body p @ le_bytes 4 (fnv_checksum (language_body p))"
  by (simp add: encode_language_def language_body_def LANGUAGE_MAGIC_def copy_at_def numeral_eq_Suc Let_def)

definition appearance_body :: "ui_appearance \<Rightarrow> u8 list" where
  "appearance_body a = APPEARANCE_MAGIC @ [1, 8, 0, 0, theme_byte (theme_mode a), density_byte (density a),
     emphasis_byte (emphasis a), flag_byte (show_separators a), flag_byte (show_preview_tint a),
     flag_byte (show_empty_safety a), 0, 0]"

lemma encode_appearance_image:
  "encode_appearance a = appearance_body a @ le_bytes 4 (fnv_checksum (appearance_body a))"
  by (simp add: encode_appearance_def appearance_body_def APPEARANCE_MAGIC_def copy_at_def numeral_eq_Suc Let_def)

text \<open>A stream read piece by piece.\<close>

lemma take_piece: "k \<le> n \<Longrightarrow> take n (drop i xs) = take k (drop i xs) @ take (n - k) (drop (i + k) xs)"
  by (metis add.commute drop_drop le_add_diff_inverse take_add)

lemma take_single: "i < length xs \<Longrightarrow> take n (drop i xs) = (if n = 0 then [] else xs ! i # take (n - 1) (drop (i + 1) xs))"
  by (simp add: Cons_nth_drop_Suc [symmetric] take_Cons')

lemma decode_language_iff: "decode_language bytes = Inr p \<longleftrightarrow> bytes = encode_language p"
proof
  assume "bytes = encode_language p"
  then have bytes: "bytes = language_body p @ le_bytes 4 (fnv_checksum (language_body p))"
    by (simp add: encode_language_image)
  have body: "take 16 bytes = language_body p" "drop 16 bytes = le_bytes 4 (fnv_checksum (language_body p))"
    by (simp_all add: bytes language_body_def LANGUAGE_MAGIC_def)
  have "length bytes = 20" "take 8 bytes = LANGUAGE_MAGIC" "bytes ! 8 = 1" "bytes ! 12 = language_byte p"
      "take 3 (drop 9 bytes) = [0, 0, 0]" "take 3 (drop 13 bytes) = [0, 0, 0]"
    by (simp_all add: bytes language_body_def LANGUAGE_MAGIC_def take_Cons' drop_Cons' nth_Cons')
  then show "decode_language bytes = Inr p"
    by (cases p) (simp_all add: decode_language_def body language_byte_def)
next
  assume ok: "decode_language bytes = Inr p"
  then have f: "length bytes = 20" "take 8 bytes = LANGUAGE_MAGIC" "bytes ! 8 = 1"
      "take 3 (drop 9 bytes) = [0, 0, 0]" "take 3 (drop 13 bytes) = [0, 0, 0]"
      "drop 16 bytes = le_bytes 4 (fnv_checksum (take 16 bytes))"
    by (simp_all only: decode_language_def if_Inl_eq_Inr de_Morgan_disj not_not)
  from ok have p: "bytes ! 12 = language_byte p"
    by (auto simp: decode_language_def language_byte_def split: if_splits)
  have "take 16 bytes = take 8 bytes @ take 8 (drop 8 bytes)" using take_add [of 8 8 bytes] by simp
  also have "take 8 (drop 8 bytes) = [bytes ! 8] @ take 3 (drop 9 bytes) @ [bytes ! 12] @ take 3 (drop 13 bytes)"
    using take_single [of 8 bytes 8] take_piece [of 3 7 9 bytes] take_single [of 12 bytes 4] f(1) by simp
  finally have body: "take 16 bytes = language_body p" by (simp add: f p language_body_def)
  have "bytes = take 16 bytes @ drop 16 bytes" by simp
  also have "\<dots> = encode_language p" by (simp only: f(6) body encode_language_image)
  finally show "bytes = encode_language p" .
qed

lemma decode_theme_iff: "decode_theme v = Inr t \<longleftrightarrow> v = theme_byte t"
  by (cases t) (auto simp: decode_theme_def theme_byte_def)

lemma decode_density_iff: "decode_density v = Inr d \<longleftrightarrow> v = density_byte d"
  by (cases d) (auto simp: decode_density_def density_byte_def)

lemma decode_emphasis_iff: "decode_emphasis v = Inr e \<longleftrightarrow> v = emphasis_byte e"
  by (cases e) (auto simp: decode_emphasis_def emphasis_byte_def)

lemma unat_eq_numeral_byte: "unat (v :: u8) = 7 \<longleftrightarrow> v = 7" "unat (v :: u8) = 8 \<longleftrightarrow> v = 8"
  by (simp_all add: word_unat_eq_iff)

lemma decode_appearance_iff: "decode_appearance bytes = Inr a \<longleftrightarrow> bytes = encode_appearance a"
proof
  assume "bytes = encode_appearance a"
  then have bytes: "bytes = appearance_body a @ le_bytes 4 (fnv_checksum (appearance_body a))"
    by (simp add: encode_appearance_image)
  have body: "take 20 bytes = appearance_body a" "drop 20 bytes = le_bytes 4 (fnv_checksum (appearance_body a))"
    by (simp_all add: bytes appearance_body_def APPEARANCE_MAGIC_def)
  have "length bytes = 24" "take 8 bytes = APPEARANCE_MAGIC" "bytes ! 8 = 1" "bytes ! 9 = 8"
      "take 2 (drop 10 bytes) = [0, 0]" "take 2 (drop 18 bytes) = [0, 0]"
      "bytes ! 12 = theme_byte (theme_mode a)" "bytes ! 13 = density_byte (density a)"
      "bytes ! 14 = emphasis_byte (emphasis a)" "bytes ! 15 = flag_byte (show_separators a)"
      "bytes ! 16 = flag_byte (show_preview_tint a)" "bytes ! 17 = flag_byte (show_empty_safety a)"
    by (simp_all add: bytes appearance_body_def APPEARANCE_MAGIC_def take_Cons' drop_Cons' nth_Cons')
  moreover have "decode_theme (theme_byte (theme_mode a)) = Inr (theme_mode a)"
      "decode_density (density_byte (density a)) = Inr (density a)"
      "decode_emphasis (emphasis_byte (emphasis a)) = Inr (emphasis a)"
    by (simp_all add: decode_theme_iff decode_density_iff decode_emphasis_iff)
  ultimately show "decode_appearance bytes = Inr a"
    by (simp add: decode_appearance_def body decode_flag_byte)
next
  assume ok: "decode_appearance bytes = Inr a"
  then have f: "length bytes = 24" "take 8 bytes = APPEARANCE_MAGIC" "bytes ! 8 = 1" "bytes ! 9 = 8"
      "take 2 (drop 10 bytes) = [0, 0]" "take 2 (drop 18 bytes) = [0, 0]"
      "from_le_bytes (drop 20 bytes) = fnv_checksum (take 20 bytes)"
    by (simp_all only: decode_appearance_def if_Inl_eq_Inr de_Morgan_disj not_not unat_eq_numeral_byte)
  from ok have v: "bytes ! 12 = theme_byte (theme_mode a)" "bytes ! 13 = density_byte (density a)"
      "bytes ! 14 = emphasis_byte (emphasis a)" "bytes ! 15 = flag_byte (show_separators a)"
      "bytes ! 16 = flag_byte (show_preview_tint a)" "bytes ! 17 = flag_byte (show_empty_safety a)"
    by (auto simp: decode_appearance_def and_then_Inr decode_theme_iff decode_density_iff decode_emphasis_iff
        split: if_splits)
  have "take 20 bytes = take 8 bytes @ take 12 (drop 8 bytes)" using take_add [of 8 12 bytes] by simp
  also have "take 12 (drop 8 bytes) = [bytes ! 8, bytes ! 9] @ take 2 (drop 10 bytes) @
      [bytes ! 12, bytes ! 13, bytes ! 14, bytes ! 15, bytes ! 16, bytes ! 17] @ take 2 (drop 18 bytes)"
    using take_single [of 8 bytes 12] take_single [of 9 bytes 11] take_piece [of 2 10 10 bytes]
      take_single [of 12 bytes 8] take_single [of 13 bytes 7] take_single [of 14 bytes 6]
      take_single [of 15 bytes 5] take_single [of 16 bytes 4] take_single [of 17 bytes 3] f(1) by simp
  finally have body: "take 20 bytes = appearance_body a" by (simp add: f v appearance_body_def)
  have "bytes = take 20 bytes @ drop 20 bytes" by simp
  also have "drop 20 bytes = le_bytes 4 (from_le_bytes (drop 20 bytes) :: u32)" using f(1) by simp
  finally show "bytes = encode_appearance a"
    by (simp only: f(7) body encode_appearance_image)
qed

section \<open>Columns\<close>

definition column_image :: "column_state \<Rightarrow> u8 list" where
  "column_image c = [flag_byte (column_visible c), flag_byte (user_resized c)] @ le_bytes 4 (width_dip c)"

lemma length_column_image [simp]: "length (column_image c) = 6"
  by (simp add: column_image_def)

lemma length_column_images [simp]: "length (concat (map column_image cs)) = 6 * length cs"
  by (induction cs) simp_all

lemma column_written:
  assumes "offset + 6 \<le> length out"
  shows "copy_at (offset + 2) (le_bytes 4 (width_dip c))
      (out[offset := flag_byte (column_visible c), offset + 1 := flag_byte (user_resized c)]) =
    copy_at offset (column_image c) out"
  using assms by (simp add: copy_at_def column_image_def take_Suc_conv_app_nth take_update_cancel nth_list_update
      list_eq_iff_nth_eq nth_append min_def add.commute)

lemma copy_at_copy_at:
  "offset + length xs + length ys \<le> length out \<Longrightarrow>
     copy_at (offset + length xs) ys (copy_at offset xs out) = copy_at offset (xs @ ys) out"
  by (simp add: copy_at_def ac_simps)

lemma encode_columns_from_image:
  "12 + (index + length cs) * 6 \<le> length out \<Longrightarrow>
     encode_columns_from index cs out = Inr out' \<longleftrightarrow>
       (\<forall>c\<in>set cs. width_in_range (width_dip c)) \<and>
       out' = copy_at (12 + index * 6) (concat (map column_image cs)) out"
proof (induction cs arbitrary: index out)
  case Nil
  then show ?case by (auto simp: copy_at_def)
next
  case (Cons c cs)
  let ?o = "12 + index * 6"
  let ?out = "copy_at ?o (column_image c) out"
  have bound: "?o + 6 \<le> length out" "?o + 6 + 6 * length cs \<le> length out" using Cons.prems by simp_all
  have len: "length ?out = length out" using bound(1) by simp
  have "encode_columns_from index (c # cs) out = Inr out' \<longleftrightarrow>
      width_in_range (width_dip c) \<and> encode_columns_from (index + 1) cs ?out = Inr out'"
    by (simp only: encode_columns_from.simps Let_def column_written [OF bound(1)] if_Inl_eq_Inr not_not)
  also have "encode_columns_from (index + 1) cs ?out = Inr out' \<longleftrightarrow>
      (\<forall>c\<in>set cs. width_in_range (width_dip c)) \<and>
       out' = copy_at (12 + (index + 1) * 6) (concat (map column_image cs)) ?out"
    by (rule Cons.IH) (use Cons.prems len in simp)
  also have "copy_at (12 + (index + 1) * 6) (concat (map column_image cs)) ?out =
      copy_at ?o (concat (map column_image (c # cs))) out"
    using copy_at_copy_at [of ?o "column_image c" "concat (map column_image cs)" out] bound(2)
    by (simp add: add.commute add.left_commute)
  finally show ?case by auto
qed

lemma column_read:
  assumes "offset + 6 \<le> length bytes"
  shows "take 6 (drop offset bytes) =
    [bytes ! offset, bytes ! (offset + 1)] @ take 4 (drop (offset + 2) bytes)"
  using assms take_single [of offset bytes 6] take_single [of "offset + 1" bytes 5] by simp

lemma decode_column_step:
  assumes "offset + 6 \<le> length bytes"
  shows "bytes ! offset = flag_byte (column_visible c) \<and> bytes ! (offset + 1) = flag_byte (user_resized c) \<and>
      from_le_bytes (take 4 (drop (offset + 2) bytes)) = width_dip c \<longleftrightarrow>
    take 6 (drop offset bytes) = column_image c"
proof -
  let ?w = "take 4 (drop (offset + 2) bytes)"
  have len: "length ?w = 4" using assms by simp
  have "(from_le_bytes ?w = width_dip c) = (?w = le_bytes 4 (width_dip c))"
  proof
    assume "from_le_bytes ?w = width_dip c"
    with le_bytes_from [OF len, where 'a = 32] show "?w = le_bytes 4 (width_dip c)" by simp
  next
    assume w: "?w = le_bytes 4 (width_dip c)"
    show "from_le_bytes ?w = width_dip c" unfolding w by simp
  qed
  then show ?thesis unfolding column_read [OF assms] column_image_def by auto
qed

lemma decode_columns_from_image:
  "12 + (index + length cs) * 6 \<le> length bytes \<Longrightarrow>
     decode_columns_from bytes index cs = Inr out \<longleftrightarrow>
       length out = length cs \<and> (\<forall>c\<in>set out. width_in_range (width_dip c)) \<and>
       take (6 * length cs) (drop (12 + index * 6) bytes) = concat (map column_image out)"
proof (induction cs arbitrary: index out)
  case Nil
  then show ?case by auto
next
  case (Cons c cs)
  let ?o = "12 + index * 6"
  have bound: "?o + 6 \<le> length bytes" using Cons.prems by simp
  have rest: "decode_columns_from bytes (index + 1) cs = Inr out \<longleftrightarrow>
      length out = length cs \<and> (\<forall>c\<in>set out. width_in_range (width_dip c)) \<and>
       take (6 * length cs) (drop (?o + 6) bytes) = concat (map column_image out)" for out
    using Cons.IH [of "index + 1" out] Cons.prems by (simp add: add.commute add.left_commute)
  have split: "take (6 * length (c # cs)) (drop ?o bytes) =
      take 6 (drop ?o bytes) @ take (6 * length cs) (drop (?o + 6) bytes)"
    using take_piece [of 6 "6 * length (c # cs)" ?o bytes] by simp
  have len: "length (take 6 (drop ?o bytes)) = 6" using bound by simp
  show ?case
  proof (cases out)
    case Nil
    then show ?thesis by (auto simp: Let_def and_then_Inr)
  next
    case (Cons d ds)
    have "decode_columns_from bytes index (c # cs) = Inr out \<longleftrightarrow>
        bytes ! ?o = flag_byte (column_visible d) \<and> bytes ! (?o + 1) = flag_byte (user_resized d) \<and>
        from_le_bytes (take 4 (drop (?o + 2) bytes)) = width_dip d \<and> width_in_range (width_dip d) \<and>
        decode_columns_from bytes (index + 1) cs = Inr ds"
      unfolding Cons by (cases c; cases d) (auto simp: Let_def and_then_Inr)
    also have "\<dots> \<longleftrightarrow> take 6 (drop ?o bytes) = column_image d \<and> width_in_range (width_dip d) \<and>
        decode_columns_from bytes (index + 1) cs = Inr ds"
      using decode_column_step [OF bound, of d] by blast
    also have "\<dots> \<longleftrightarrow> length out = length (c # cs) \<and> (\<forall>c\<in>set out. width_in_range (width_dip c)) \<and>
        take (6 * length (c # cs)) (drop ?o bytes) = concat (map column_image out)"
      unfolding rest split Cons using len by (auto simp: append_eq_append_conv)
    finally show ?thesis .
  qed
qed

definition columns_body :: "column_state list \<Rightarrow> u8 list" where
  "columns_body cs = COLUMNS_MAGIC @ [1, 7, 0, 0] @ concat (map column_image cs)"

lemma length_columns_body: "length cs = 7 \<Longrightarrow> length (columns_body cs) = 54"
  by (simp add: columns_body_def COLUMNS_MAGIC_def)

lemma encode_columns_image:
  assumes "length cs = 7"
  shows "encode_columns cs = Inr bytes \<longleftrightarrow> (\<forall>c\<in>set cs. width_in_range (width_dip c)) \<and>
    bytes = columns_body cs @ le_bytes 4 (fnv_checksum (columns_body cs))"
proof -
  let ?out = "(copy_at 0 COLUMNS_MAGIC (replicate 58 0))[8 := 1, 9 := 7]"
  have out: "?out = COLUMNS_MAGIC @ [1, 7, 0, 0] @ replicate 46 0"
    by (simp add: COLUMNS_MAGIC_def copy_at_def numeral_eq_Suc)
  have len: "length (copy_at 0 COLUMNS_MAGIC (replicate 58 0)) = 58" by (simp add: COLUMNS_MAGIC_def)
  have filled: "copy_at 12 (concat (map column_image cs)) ?out = columns_body cs @ replicate 4 0"
    using assms unfolding out by (simp add: copy_at_def columns_body_def COLUMNS_MAGIC_def)
  have "encode_columns_from 0 cs ?out = Inr x \<longleftrightarrow> (\<forall>c\<in>set cs. width_in_range (width_dip c)) \<and>
      x = columns_body cs @ replicate 4 0" for x
    using encode_columns_from_image [of 0 cs ?out x] assms filled len by simp
  moreover have "copy_at 54 (le_bytes 4 (fnv_checksum (take 54 (columns_body cs @ replicate 4 0))))
      (columns_body cs @ replicate 4 0) = columns_body cs @ le_bytes 4 (fnv_checksum (columns_body cs))"
    using length_columns_body [OF assms] by (simp add: copy_at_def)
  ultimately show ?thesis by (auto simp: encode_columns_def Let_def and_then_Inr)
qed

lemma length_default_columns [simp]: "length default_column_states = 7"
  by (simp add: default_column_states_def)

lemma decode_columns_iff:
  "decode_columns bytes = Inr cs \<longleftrightarrow> length cs = 7 \<and> encode_columns cs = Inr bytes"
proof -
  let ?widths = "\<forall>c\<in>set cs. width_in_range (width_dip c)"
  let ?head = "take 8 bytes = COLUMNS_MAGIC \<and> bytes ! 8 = 1 \<and> bytes ! 9 = 7 \<and> take 2 (drop 10 bytes) = [0, 0]"
  have "decode_columns bytes = Inr cs \<longleftrightarrow> length bytes = 58 \<and> ?head \<and>
      from_le_bytes (drop 54 bytes) = fnv_checksum (take 54 bytes) \<and>
      decode_columns_from bytes 0 default_column_states = Inr cs"
    unfolding decode_columns_def by (auto simp: unat_eq_numeral_byte)
  also have "\<dots> \<longleftrightarrow> length bytes = 58 \<and> ?head \<and> from_le_bytes (drop 54 bytes) = fnv_checksum (take 54 bytes) \<and>
      length cs = 7 \<and> ?widths \<and> take 42 (drop 12 bytes) = concat (map column_image cs)"
    using decode_columns_from_image [of 0 default_column_states bytes cs] by auto
  also have "\<dots> \<longleftrightarrow> length cs = 7 \<and> ?widths \<and> bytes = columns_body cs @ le_bytes 4 (fnv_checksum (columns_body cs))"
    (is "?l \<longleftrightarrow> ?r")
  proof
    assume l: ?l
    then have len: "length bytes = 58" by blast
    have "take 54 bytes = take 8 bytes @ take 46 (drop 8 bytes)" using take_piece [of 8 54 0 bytes] by simp
    also have "take 46 (drop 8 bytes) = [bytes ! 8, bytes ! 9] @ take 2 (drop 10 bytes) @ take 42 (drop 12 bytes)"
      using take_single [of 8 bytes 46] take_single [of 9 bytes 45] take_piece [of 2 44 10 bytes] len by simp
    finally have body: "take 54 bytes = columns_body cs" using l by (simp add: columns_body_def)
    have "bytes = take 54 bytes @ drop 54 bytes" by simp
    also have "drop 54 bytes = le_bytes 4 (from_le_bytes (drop 54 bytes) :: u32)" using len by simp
    also have "from_le_bytes (drop 54 bytes) = fnv_checksum (columns_body cs)" using l body by metis
    finally show ?r using l body by simp
  next
    assume r: ?r
    then have len: "length (columns_body cs) = 54" by (simp add: length_columns_body)
    with r have body: "take 54 bytes = columns_body cs" "drop 54 bytes = le_bytes 4 (fnv_checksum (columns_body cs))"
      and all: "length bytes = 58" by simp_all
    have "?head" "take 42 (drop 12 bytes) = concat (map column_image cs)"
      using r by (simp_all add: columns_body_def COLUMNS_MAGIC_def take_Cons' drop_Cons' nth_Cons')
    with r body all show ?l by simp
  qed
  also have "\<dots> \<longleftrightarrow> length cs = 7 \<and> encode_columns cs = Inr bytes" using encode_columns_image by auto
  finally show ?thesis .
qed

end
