(* ===== verification/Preference_Writer.thy ===== *)
theory Preference_Writer
  imports Preference_Codec Checked_Words
begin

text \<open>
  Saving the settings: \<open>crates/darknamer-app/src/windows/preferences.rs\<close> and
  \<open>preference_lifecycle.rs\<close>. A save writes a temporary file and replaces the destination with it.
  One worker per file coalesces the requests, and the interface reads its events into a status that
  says whether everything is on disk. Texts for the user are left out.

  The lock of the queue makes each of its critical sections one step; the worker and the interface
  take their steps in any order.
\<close>

section \<open>Files\<close>

text \<open>What opening and reading a settings file gives.\<close>

datatype settings_read = Missing | Unreadable int | Special int | Found "u8 list"

definition read_columns :: "settings_read \<Rightarrow> preference_error + column_state list option" where
  "read_columns r = (case r of
       Missing \<Rightarrow> Inr None
     | Unreadable code \<Rightarrow> Inl (Load_Failed code)
     | Special code \<Rightarrow> Inl (Invalid_Data ''column preference is not a regular file'')
     | Found contents \<Rightarrow>
         let bytes = take (256 + 1) contents
         in if 256 < length bytes then Inl (Invalid_Data ''column preference exceeds the size limit'')
            else and_then (decode_columns bytes) (\<lambda>columns. Inr (Some columns)))"

definition read_appearance :: "settings_read \<Rightarrow> preference_error + ui_appearance option" where
  "read_appearance r = (case r of
       Missing \<Rightarrow> Inr None
     | Unreadable code \<Rightarrow> Inl (Load_Failed code)
     | Special code \<Rightarrow> Inl (Invalid_Data ''appearance preference is not a regular file'')
     | Found contents \<Rightarrow>
         let bytes = take (64 + 1) contents
         in if 64 < length bytes then Inl (Invalid_Data ''appearance preference exceeds the size limit'')
            else and_then (decode_appearance bytes) (\<lambda>appearance. Inr (Some appearance)))"

definition read_language :: "settings_read \<Rightarrow> preference_error + language_preference option" where
  "read_language r = (case r of
       Missing \<Rightarrow> Inr None
     | Unreadable code \<Rightarrow> Inl (Load_Failed code)
     | Special code \<Rightarrow> Inl (Load_Failed code)
     | Found contents \<Rightarrow> and_then (decode_language (take (20 + 1) contents)) (\<lambda>preference. Inr (Some preference)))"

record column_preferences_load =
  loaded_columns :: "column_state list"
  columns_failure :: "preference_error option"

definition load_or_default :: "settings_read \<Rightarrow> column_state list \<Rightarrow> column_preferences_load" where
  "load_or_default r defaults = (case read_columns r of
       Inr (Some columns) \<Rightarrow> \<lparr>loaded_columns = columns, columns_failure = None\<rparr>
     | Inr None \<Rightarrow> \<lparr>loaded_columns = defaults, columns_failure = None\<rparr>
     | Inl error \<Rightarrow> \<lparr>loaded_columns = defaults, columns_failure = Some error\<rparr>)"

definition default_appearance :: ui_appearance where
  "default_appearance = \<lparr>theme_mode = Theme_System, density = Automatic, emphasis = Standard,
     show_separators = True, show_preview_tint = True, show_empty_safety = True\<rparr>"

record appearance_preferences_load =
  loaded_appearance :: ui_appearance
  appearance_failure :: "preference_error option"

definition load_appearance_or_default :: "settings_read \<Rightarrow> appearance_preferences_load" where
  "load_appearance_or_default r = (case read_appearance r of
       Inr (Some a) \<Rightarrow> \<lparr>loaded_appearance = a, appearance_failure = None\<rparr>
     | Inr None \<Rightarrow> \<lparr>loaded_appearance = default_appearance, appearance_failure = None\<rparr>
     | Inl error \<Rightarrow> \<lparr>loaded_appearance = default_appearance, appearance_failure = Some error\<rparr>)"

record language_preferences_load =
  loaded_language :: language_preference
  language_missing :: bool
  migration_failure :: "preference_error option"
  language_failure :: "preference_error option"

text \<open>A missing language file beside an old settings file means an installation that was Korean.\<close>

definition load_language_or_default :: "settings_read \<Rightarrow> settings_read \<Rightarrow> settings_read \<Rightarrow> language_preferences_load" where
  "load_language_or_default language columns_file appearance_file = (case read_language language of
       Inr (Some preference) \<Rightarrow> \<lparr>loaded_language = preference, language_missing = False,
         migration_failure = None, language_failure = None\<rparr>
     | Inr None \<Rightarrow>
         (let columns = read_columns columns_file; appearance = read_appearance appearance_file;
              legacy = ((\<exists>x. columns = Inr (Some x)) \<or> (\<exists>x. appearance = Inr (Some x)));
              failure = (if legacy then None
                         else case columns of Inl e \<Rightarrow> Some e
                              | Inr _ \<Rightarrow> (case appearance of Inl e \<Rightarrow> Some e | Inr _ \<Rightarrow> None))
          in \<lparr>loaded_language = (if legacy \<or> failure \<noteq> None then Korean else Lang_System),
              language_missing = True, migration_failure = failure, language_failure = None\<rparr>)
     | Inl error \<Rightarrow> \<lparr>loaded_language = Lang_System, language_missing = False, migration_failure = None,
         language_failure = Some error\<rparr>)"

section \<open>Saves\<close>

record settings_file =
  stored_bytes :: "u8 list option"
  temporary_file :: "u8 list option"

text \<open>Which stage fails, how many bytes a failing write leaves, and whether the clean-up fails.\<close>

record save_fault =
  failing_stage :: "language_write_stage option"
  written_bytes :: usize
  cleanup_fails :: bool

definition owned_temp_drop :: "save_fault \<Rightarrow> settings_file \<Rightarrow> settings_file" where
  "owned_temp_drop fault f = (if cleanup_fails fault then f else f\<lparr>temporary_file := None\<rparr>)"

definition persist_encoded :: "save_fault \<Rightarrow> u8 list \<Rightarrow> settings_file \<Rightarrow> (preference_error + unit) \<times> settings_file" where
  "persist_encoded fault bytes f =
     (if failing_stage fault = Some ResolveParent then (Inl (Write_Failed ResolveParent), f)
      else if failing_stage fault = Some PrepareParent then (Inl (Write_Failed PrepareParent), f)
      else if failing_stage fault = Some CreateTemporary then (Inl (Write_Failed CreateTemporary), f)
      else if failing_stage fault = Some WriteTemporary
      then (Inl (Write_Failed WriteTemporary),
            owned_temp_drop fault (f\<lparr>temporary_file := Some (take (written_bytes fault) bytes)\<rparr>))
      else let f = f\<lparr>temporary_file := Some bytes\<rparr>
      in if failing_stage fault = Some FlushTemporary
      then (Inl (Write_Failed FlushTemporary), owned_temp_drop fault f)
      else if failing_stage fault = Some SyncTemporary
      then (Inl (Write_Failed SyncTemporary), owned_temp_drop fault f)
      else if failing_stage fault = Some ReplaceDestination
      then (Inl (Write_Failed ReplaceDestination), owned_temp_drop fault f)
      else let f = f\<lparr>stored_bytes := temporary_file f, temporary_file := None\<rparr>
      in if failing_stage fault = Some SyncParent then (Inl (Write_Failed SyncParent), f)
         else (Inr (), f))"

definition save_columns :: "save_fault \<Rightarrow> column_state list \<Rightarrow> settings_file \<Rightarrow> (preference_error + unit) \<times> settings_file" where
  "save_columns fault columns f = (case encode_columns columns of
       Inl error \<Rightarrow> (Inl error, f)
     | Inr bytes \<Rightarrow> persist_encoded fault bytes f)"

definition save_appearance :: "save_fault \<Rightarrow> ui_appearance \<Rightarrow> settings_file \<Rightarrow> (preference_error + unit) \<times> settings_file" where
  "save_appearance fault a f = persist_encoded fault (encode_appearance a) f"

definition save_language :: "save_fault \<Rightarrow> language_preference \<Rightarrow> settings_file \<Rightarrow> (preference_error + unit) \<times> settings_file" where
  "save_language fault p f = persist_encoded fault (encode_language p) f"

section \<open>The coalescing writer\<close>

record 'a preference_request =
  request_generation :: u64
  request_snapshot :: 'a

datatype preference_write_event =
  Saved u64 | Failed u64 preference_error | Stopped | Panicked

datatype submit_error = Writer_Stopped | Writer_Shutting_Down | Generation_Exhausted

text \<open>
  The queue, the events not yet drained, the generations given out, and the worker: the request it
  saves, whether it has left its loop, whether its thread has ended. \<open>settings\<close> is the file.
\<close>

record ('a, 'f) coalescing_writer =
  pending_request :: "'a preference_request option"
  shutdown_requested :: bool
  write_events :: "preference_write_event list"
  next_generation :: u64
  saving :: "'a preference_request option"
  loop_left :: bool
  thread_finished :: bool
  settings :: 'f

definition writer_spawn :: "'f \<Rightarrow> ('a, 'f) coalescing_writer" where
  "writer_spawn f = \<lparr>pending_request = None, shutdown_requested = False, write_events = [],
     next_generation = 0, saving = None, loop_left = False, thread_finished = False, settings = f\<rparr>"

definition writer_submit ::
  "'a \<Rightarrow> ('a, 'f) coalescing_writer \<Rightarrow> (submit_error + u64) \<times> ('a, 'f) coalescing_writer" where
  "writer_submit snapshot w =
     (if thread_finished w then (Inl Writer_Stopped, w)
      else case u64_checked_inc (next_generation w) of
        None \<Rightarrow> (Inl Generation_Exhausted, w)
      | Some generation \<Rightarrow>
          if shutdown_requested w then (Inl Writer_Shutting_Down, w)
          else (Inr generation, w\<lparr>next_generation := generation,
            pending_request := Some \<lparr>request_generation = generation, request_snapshot = snapshot\<rparr>\<rparr>))"

definition writer_shutdown_with ::
  "'a \<Rightarrow> ('a, 'f) coalescing_writer \<Rightarrow> (submit_error + u64) \<times> ('a, 'f) coalescing_writer" where
  "writer_shutdown_with snapshot w =
     (if thread_finished w then (Inl Writer_Stopped, w)
      else case u64_checked_inc (next_generation w) of
        None \<Rightarrow> (Inl Generation_Exhausted, w)
      | Some generation \<Rightarrow>
          if shutdown_requested w then (Inr (next_generation w), w)
          else (Inr generation, w\<lparr>next_generation := generation,
            pending_request := Some \<lparr>request_generation = generation, request_snapshot = snapshot\<rparr>,
            shutdown_requested := True\<rparr>))"

definition writer_request_shutdown :: "('a, 'f) coalescing_writer \<Rightarrow> ('a, 'f) coalescing_writer" where
  "writer_request_shutdown w = w\<lparr>shutdown_requested := True\<rparr>"

definition writer_drain_events ::
  "('a, 'f) coalescing_writer \<Rightarrow> preference_write_event list \<times> ('a, 'f) coalescing_writer" where
  "writer_drain_events w = (write_events w, w\<lparr>write_events := []\<rparr>)"

text \<open>One step of the worker; it has none while it waits and after its thread ended.\<close>

definition worker_step ::
  "('x \<Rightarrow> 'a \<Rightarrow> 'f \<Rightarrow> (preference_error + unit) \<times> 'f) \<Rightarrow> 'x \<Rightarrow>
   ('a, 'f) coalescing_writer \<Rightarrow> ('a, 'f) coalescing_writer option" where
  "worker_step save fault w =
     (if loop_left w then if thread_finished w then None else Some (w\<lparr>thread_finished := True\<rparr>)
      else case saving w of
        Some r \<Rightarrow>
          (case save fault (request_snapshot r) (settings w) of
             (Inr _, f) \<Rightarrow> Some (w\<lparr>saving := None, settings := f,
               write_events := write_events w @ [Saved (request_generation r)]\<rparr>)
           | (Inl error, f) \<Rightarrow> Some (w\<lparr>saving := None, settings := f,
               write_events := write_events w @ [Failed (request_generation r) error]\<rparr>))
      | None \<Rightarrow>
          (case pending_request w of
             Some r \<Rightarrow> Some (w\<lparr>pending_request := None, saving := Some r\<rparr>)
           | None \<Rightarrow> if shutdown_requested w
                     then Some (w\<lparr>loop_left := True, write_events := write_events w @ [Stopped]\<rparr>)
                     else None))"

definition worker_rank :: "('a, 'f) coalescing_writer \<Rightarrow> nat" where
  "worker_rank w = of_bool (\<not> thread_finished w) + of_bool (\<not> loop_left w) +
     of_bool (saving w \<noteq> None) + 2 * of_bool (pending_request w \<noteq> None)"

lemma worker_step_rank: "worker_step save fault w = Some w' \<Longrightarrow> worker_rank w' < worker_rank w"
  by (auto simp: worker_step_def worker_rank_def split: if_splits option.splits prod.splits sum.splits)

text \<open>The worker alone until it waits or its thread ends; the faults are numbered.\<close>

function worker_run ::
  "('x \<Rightarrow> 'a \<Rightarrow> 'f \<Rightarrow> (preference_error + unit) \<times> 'f) \<Rightarrow> (nat \<Rightarrow> 'x) \<Rightarrow> nat \<Rightarrow>
   ('a, 'f) coalescing_writer \<Rightarrow> ('a, 'f) coalescing_writer" where
  "worker_run save faults n w =
     (case worker_step save (faults n) w of
        None \<Rightarrow> w
      | Some w \<Rightarrow> worker_run save faults (n + 1) w)"
  by pat_completeness auto
termination
  by (relation "measure (\<lambda>(save, faults, n, w). worker_rank w)") (auto dest: worker_step_rank)

declare worker_run.simps [simp del]

definition writer_join ::
  "('x \<Rightarrow> 'a \<Rightarrow> 'f \<Rightarrow> (preference_error + unit) \<times> 'f) \<Rightarrow> (nat \<Rightarrow> 'x) \<Rightarrow>
   ('a, 'f) coalescing_writer \<Rightarrow> ('a, 'f) coalescing_writer" where
  "writer_join save faults w = worker_run save faults 0 (writer_request_shutdown w)"

section \<open>The status the interface keeps\<close>

record writer_status =
  requested_generation :: "u64 option"
  saved_generation :: "u64 option"
  failed_generation :: "u64 option"
  submission_failed :: bool
  terminal_observed :: bool

definition writer_status_new :: writer_status where
  "writer_status_new = \<lparr>requested_generation = None, saved_generation = None, failed_generation = None,
     submission_failed = False, terminal_observed = False\<rparr>"

definition note_submission :: "submit_error + u64 \<Rightarrow> writer_status \<Rightarrow> writer_status" where
  "note_submission result st = (case result of
       Inr generation \<Rightarrow> st\<lparr>requested_generation := Some generation, submission_failed := False\<rparr>
     | Inl _ \<Rightarrow> st\<lparr>submission_failed := True\<rparr>)"

definition acknowledged :: "writer_status \<Rightarrow> bool" where
  "acknowledged st \<longleftrightarrow> \<not> terminal_observed st \<and> \<not> submission_failed st \<and> failed_generation st = None \<and>
     (case requested_generation st of
        None \<Rightarrow> True
      | Some requested \<Rightarrow> 0 < requested \<and> requested < - 1 \<and>
          (case saved_generation st of None \<Rightarrow> False | Some saved \<Rightarrow> requested \<le> saved \<and> saved < - 1))"

datatype write_message = Saved_Again | Save_Failed_Message preference_error | Writer_Stopped_Message

definition observe_event :: "bool \<Rightarrow> preference_write_event \<Rightarrow> writer_status \<Rightarrow> write_message list \<times> writer_status" where
  "observe_event closing event st = (case event of
       Saved generation \<Rightarrow>
         let st = st\<lparr>saved_generation := Some (case saved_generation st of
                       None \<Rightarrow> generation | Some saved \<Rightarrow> max saved generation)\<rparr>
         in if (case failed_generation st of None \<Rightarrow> False | Some failed \<Rightarrow> failed \<le> generation)
            then (if closing then [] else [Saved_Again], st\<lparr>failed_generation := None\<rparr>)
            else ([], st)
     | Failed generation error \<Rightarrow>
         (if closing then [] else [Save_Failed_Message error], st\<lparr>failed_generation := Some generation\<rparr>)
     | Stopped \<Rightarrow> ([], st\<lparr>terminal_observed := True\<rparr>)
     | Panicked \<Rightarrow> (if closing then [] else [Writer_Stopped_Message], st\<lparr>terminal_observed := True\<rparr>))"

fun observe :: "bool \<Rightarrow> preference_write_event list \<Rightarrow> writer_status \<Rightarrow> write_message list \<times> writer_status" where
  "observe closing [] st = ([], st)"
| "observe closing (event # events) st =
     (case observe_event closing event st of (messages, st) \<Rightarrow>
        case observe closing events st of (rest, st) \<Rightarrow> (messages @ rest, st))"

end
