(* ===== verification/Preference_Correct.thy ===== *)
theory Preference_Correct
  imports Preference_Writer
begin

text \<open>
  The contract of a settings store, its three interpretations, and what the writer guarantees over
  any such store: an acknowledged status means that the file holds the last accepted snapshot, and
  a closing writer still handles its final snapshot.
\<close>

section \<open>Stores\<close>

locale settings_store =
  fixes save :: "'x \<Rightarrow> 'a \<Rightarrow> 'f \<Rightarrow> (preference_error + unit) \<times> 'f"
    and load :: "'f \<Rightarrow> 'a option"
    and valid :: "'a \<Rightarrow> bool"
  assumes saved: "valid x \<Longrightarrow> save fault x f = (Inr u, f') \<Longrightarrow> load f' = Some x"
    and not_saved: "valid x \<Longrightarrow> save fault x f = (Inl e, f') \<Longrightarrow> load f' = load f \<or> load f' = Some x"

lemma persist_saved: "persist_encoded fault bytes f = (Inr u, f') \<Longrightarrow> stored_bytes f' = Some bytes \<and> temporary_file f' = None"
  by (auto simp: persist_encoded_def Let_def split: if_splits)

lemma persist_not_saved:
  "persist_encoded fault bytes f = (Inl e, f') \<Longrightarrow> stored_bytes f' = stored_bytes f \<or> stored_bytes f' = Some bytes"
  by (auto simp: persist_encoded_def owned_temp_drop_def Let_def split: if_splits)

definition load_with :: "(settings_read \<Rightarrow> preference_error + 'a option) \<Rightarrow> settings_file \<Rightarrow> 'a option" where
  "load_with r f = (case stored_bytes f of
     None \<Rightarrow> None
   | Some bytes \<Rightarrow> (case r (Found bytes) of Inr x \<Rightarrow> x | Inl _ \<Rightarrow> None))"

lemma length_encode_columns: "length cs = 7 \<Longrightarrow> encode_columns cs = Inr bytes \<Longrightarrow> length bytes = 58"
  using encode_columns_image [of cs bytes] length_columns_body [of cs] by simp

lemma length_encode_appearance: "length (encode_appearance a) = 24"
  by (simp add: encode_appearance_image appearance_body_def APPEARANCE_MAGIC_def)

lemma length_encode_language: "length (encode_language p) = 20"
  by (simp add: encode_language_image language_body_def LANGUAGE_MAGIC_def)

lemma read_columns_encoded:
  "length cs = 7 \<Longrightarrow> encode_columns cs = Inr bytes \<Longrightarrow> read_columns (Found bytes) = Inr (Some cs)"
  using decode_columns_iff [of bytes cs] length_encode_columns [of cs bytes] by (simp add: read_columns_def)

lemma read_appearance_encoded: "read_appearance (Found (encode_appearance a)) = Inr (Some a)"
  using decode_appearance_iff [of "encode_appearance a" a] length_encode_appearance [of a]
  by (simp add: read_appearance_def)

lemma read_language_encoded: "read_language (Found (encode_language p)) = Inr (Some p)"
  using decode_language_iff [of "encode_language p" p] length_encode_language [of p]
  by (simp add: read_language_def)

interpretation columns_store: settings_store save_columns "load_with read_columns" "\<lambda>cs. length cs = 7"
proof
  fix x :: "column_state list" and fault f u f'
  assume x: "length x = 7" and "save_columns fault x f = (Inr u, f')"
  then obtain bytes where "encode_columns x = Inr bytes" "persist_encoded fault bytes f = (Inr u, f')"
    by (auto simp: save_columns_def split: sum.splits)
  with x show "load_with read_columns f' = Some x"
    using persist_saved [of fault bytes f u f'] by (simp add: load_with_def read_columns_encoded)
next
  fix x :: "column_state list" and fault f e f'
  assume x: "length x = 7" and s: "save_columns fault x f = (Inl e, f')"
  show "load_with read_columns f' = load_with read_columns f \<or> load_with read_columns f' = Some x"
  proof (cases "encode_columns x")
    case (Inl e)
    with s show ?thesis by (simp add: save_columns_def)
  next
    case (Inr bytes)
    with s x persist_not_saved [of fault bytes f e f'] show ?thesis
      by (auto simp: save_columns_def load_with_def read_columns_encoded)
  qed
qed

interpretation appearance_store: settings_store save_appearance "load_with read_appearance" "\<lambda>_. True"
proof
  show "load_with read_appearance f' = Some x" if "save_appearance fault x f = (Inr u, f')" for x fault f u f'
    using that persist_saved [of fault "encode_appearance x" f u f']
    by (simp add: save_appearance_def load_with_def read_appearance_encoded)
  show "load_with read_appearance f' = load_with read_appearance f \<or> load_with read_appearance f' = Some x"
    if "save_appearance fault x f = (Inl e, f')" for x fault f e f'
    using that persist_not_saved [of fault "encode_appearance x" f e f']
    by (auto simp: save_appearance_def load_with_def read_appearance_encoded)
qed

interpretation language_store: settings_store save_language "load_with read_language" "\<lambda>_. True"
proof
  show "load_with read_language f' = Some x" if "save_language fault x f = (Inr u, f')" for x fault f u f'
    using that persist_saved [of fault "encode_language x" f u f']
    by (simp add: save_language_def load_with_def read_language_encoded)
  show "load_with read_language f' = load_with read_language f \<or> load_with read_language f' = Some x"
    if "save_language fault x f = (Inl e, f')" for x fault f e f'
    using that persist_not_saved [of fault "encode_language x" f e f']
    by (auto simp: save_language_def load_with_def read_language_encoded)
qed

section \<open>Runs of a writer\<close>

definition accepted_after :: "submit_error + u64 \<Rightarrow> 'a \<Rightarrow> 'a preference_request list \<Rightarrow> 'a preference_request list" where
  "accepted_after result x accepted = (case result of
     Inr g \<Rightarrow> \<lparr>request_generation = g, request_snapshot = x\<rparr> # accepted | Inl _ \<Rightarrow> accepted)"

text \<open>
  The interface and the worker in any order, from any file. The list holds the accepted requests,
  latest first. A shutdown that repeats an earlier one is accepted without its snapshot.
\<close>

inductive writer_reach ::
  "('x \<Rightarrow> 'a \<Rightarrow> 'f \<Rightarrow> (preference_error + unit) \<times> 'f) \<Rightarrow> ('a \<Rightarrow> bool) \<Rightarrow>
   'a preference_request list \<Rightarrow> ('a, 'f) coalescing_writer \<Rightarrow> writer_status \<Rightarrow> bool"
  for save valid where
  spawn: "writer_reach save valid [] (writer_spawn f) writer_status_new"
| submit: "writer_reach save valid accepted w st \<Longrightarrow> valid x \<Longrightarrow> writer_submit x w = (result, w') \<Longrightarrow>
    writer_reach save valid (accepted_after result x accepted) w' (note_submission result st)"
| shutdown_with: "writer_reach save valid accepted w st \<Longrightarrow> valid x \<Longrightarrow>
    writer_shutdown_with x w = (result, w') \<Longrightarrow>
    writer_reach save valid (if shutdown_requested w then accepted else accepted_after result x accepted) w' st"
| request_shutdown: "writer_reach save valid accepted w st \<Longrightarrow>
    writer_reach save valid accepted (writer_request_shutdown w) st"
| worker: "writer_reach save valid accepted w st \<Longrightarrow> worker_step save fault w = Some w' \<Longrightarrow>
    writer_reach save valid accepted w' st"
| drain: "writer_reach save valid accepted w st \<Longrightarrow> writer_drain_events w = (events, w') \<Longrightarrow>
    observe closing events st = (messages, st') \<Longrightarrow> writer_reach save valid accepted w' st'"

definition saved_marks :: "('a, 'f) coalescing_writer \<Rightarrow> writer_status \<Rightarrow> u64 set" where
  "saved_marks w st = {g. Saved g \<in> set (write_events w)} \<union> set_option (saved_generation st)"

definition newest :: "'a preference_request list \<Rightarrow> u64" where
  "newest accepted = (case accepted of [] \<Rightarrow> 0 | r # _ \<Rightarrow> request_generation r)"

text \<open>The requests on their way, oldest first.\<close>

definition in_progress :: "('a, 'f) coalescing_writer \<Rightarrow> 'a preference_request list" where
  "in_progress w = (case saving w of None \<Rightarrow> [] | Some r \<Rightarrow> [r]) @
     (case pending_request w of None \<Rightarrow> [] | Some r \<Rightarrow> [r])"

text \<open>
  What ties the value of the file to the requests: \<open>value\<close> is what the file loads as, \<open>marks\<close> the
  generations known to be saved.
\<close>

definition store_ok ::
  "('a \<Rightarrow> bool) \<Rightarrow> 'a preference_request list \<Rightarrow> 'a preference_request list \<Rightarrow> u64 set \<Rightarrow> 'a option \<Rightarrow> bool" where
  "store_ok valid accepted progress marks v \<longleftrightarrow>
     sorted_wrt (\<lambda>r q. request_generation q < request_generation r) accepted \<and>
     (\<forall>r\<in>set accepted. 0 < request_generation r \<and> valid (request_snapshot r)) \<and>
     sorted_wrt (\<lambda>r q. request_generation r < request_generation q) progress \<and>
     set progress \<subseteq> set accepted \<and>
     (\<forall>g\<in>marks. \<exists>r\<in>set accepted. g \<le> request_generation r \<and> v = Some (request_snapshot r) \<and>
        (\<forall>q\<in>set progress. request_generation r < request_generation q))"

lemma store_mono: "store_ok valid accepted progress marks v \<Longrightarrow> marks' \<subseteq> marks \<Longrightarrow> store_ok valid accepted progress marks' v"
  unfolding store_ok_def by blast

lemma store_accept:
  assumes "store_ok valid accepted progress marks v" and "set kept \<subseteq> set progress"
    and "sorted_wrt (\<lambda>r q. request_generation r < request_generation q) kept"
    and "\<forall>r\<in>set accepted. request_generation r < request_generation x"
    and "0 < request_generation x" "valid (request_snapshot x)"
  shows "store_ok valid (x # accepted) (kept @ [x]) marks v"
proof -
  from assms(1,2) have "set kept \<subseteq> set accepted" unfolding store_ok_def by blast
  then have "sorted_wrt (\<lambda>r q. request_generation r < request_generation q) (kept @ [x])"
    using assms(3,4) by (auto simp: sorted_wrt_append)
  moreover have "\<exists>r\<in>set (x # accepted). g \<le> request_generation r \<and> v = Some (request_snapshot r) \<and>
      (\<forall>q\<in>set (kept @ [x]). request_generation r < request_generation q)" if g: "g \<in> marks" for g
  proof -
    from assms(1) g obtain r where "r \<in> set accepted" "g \<le> request_generation r" "v = Some (request_snapshot r)"
      "\<forall>q\<in>set progress. request_generation r < request_generation q" unfolding store_ok_def by blast
    with assms(2,4) show ?thesis by (intro bexI [of _ r]) auto
  qed
  ultimately show ?thesis using assms(1,4-6) \<open>set kept \<subseteq> set accepted\<close> unfolding store_ok_def by auto
qed

lemma store_saved:
  assumes "store_ok valid accepted (r # rest) marks v"
  shows "store_ok valid accepted rest (insert (request_generation r) marks) (Some (request_snapshot r))"
proof -
  have "\<exists>q\<in>set accepted. g \<le> request_generation q \<and> Some (request_snapshot r) = Some (request_snapshot q) \<and>
      (\<forall>p\<in>set rest. request_generation q < request_generation p)"
    if g: "g \<in> insert (request_generation r) marks" for g
  proof (rule bexI [of _ r])
    from assms g have "g \<le> request_generation r" unfolding store_ok_def by fastforce
    with assms show "g \<le> request_generation r \<and> Some (request_snapshot r) = Some (request_snapshot r) \<and>
      (\<forall>p\<in>set rest. request_generation r < request_generation p)" unfolding store_ok_def by simp
    from assms show "r \<in> set accepted" unfolding store_ok_def by simp
  qed
  with assms show ?thesis unfolding store_ok_def by simp
qed

lemma store_failed:
  assumes "store_ok valid accepted (r # rest) marks v" and "v' = v \<or> v' = Some (request_snapshot r)"
  shows "store_ok valid accepted rest marks v'"
  using assms(2)
proof
  assume "v' = v"
  with assms(1) show ?thesis unfolding store_ok_def by fastforce
next
  assume "v' = Some (request_snapshot r)"
  with store_mono [OF store_saved [OF assms(1)], of marks] show ?thesis by blast
qed

definition writer_ok ::
  "('f \<Rightarrow> 'a option) \<Rightarrow> ('a \<Rightarrow> bool) \<Rightarrow> 'a preference_request list \<Rightarrow> ('a, 'f) coalescing_writer \<Rightarrow> writer_status \<Rightarrow> bool" where
  "writer_ok load valid accepted w st \<longleftrightarrow>
     next_generation w = newest accepted \<and>
     store_ok valid accepted (in_progress w) (saved_marks w st) (load (settings w)) \<and>
     (loop_left w \<longrightarrow> shutdown_requested w \<and> in_progress w = []) \<and> (thread_finished w \<longrightarrow> loop_left w) \<and>
     (\<not> shutdown_requested w \<longrightarrow>
        requested_generation st = (if accepted = [] then None else Some (newest accepted)))"

lemma accepted_le_newest:
  assumes "store_ok valid accepted progress marks v" and "r \<in> set accepted"
  shows "request_generation r \<le> newest accepted"
  using assms by (cases accepted) (auto simp: store_ok_def newest_def intro: less_imp_le)

lemma observe_saved:
  "observe closing events st = (messages, st') \<Longrightarrow>
     set_option (saved_generation st') \<subseteq> {g. Saved g \<in> set events} \<union> set_option (saved_generation st) \<and>
     requested_generation st' = requested_generation st"
proof (induction events arbitrary: st messages)
  case (Cons event events)
  obtain m st1 where first: "observe_event closing event st = (m, st1)" by fastforce
  from Cons.prems first obtain m' where rest: "observe closing events st1 = (m', st')"
    by (auto split: prod.splits)
  have "set_option (saved_generation st1) \<subseteq> {g. Saved g = event} \<union> set_option (saved_generation st) \<and>
      requested_generation st1 = requested_generation st"
    using first by (cases event) (auto simp: observe_event_def Let_def max_def split: if_splits option.splits)
  with Cons.IH [OF rest] show ?case by fastforce
qed simp

context settings_store
begin

lemma ok_accept:
  assumes ok: "writer_ok load valid accepted w st" and x: "valid x"
    and generation: "u64_checked_inc (next_generation w) = Some g"
    and w': "w' = w\<lparr>next_generation := g,
      pending_request := Some \<lparr>request_generation = g, request_snapshot = x\<rparr>, shutdown_requested := b\<rparr>"
    and running: "\<not> shutdown_requested w"
    and st': "b \<or> requested_generation st' = Some g" "saved_generation st' = saved_generation st"
  shows "writer_ok load valid (\<lparr>request_generation = g, request_snapshot = x\<rparr> # accepted) w' st'"
proof -
  let ?r = "\<lparr>request_generation = g, request_snapshot = x\<rparr>"
  let ?kept = "case saving w of None \<Rightarrow> [] | Some r \<Rightarrow> [r]"
  have store: "store_ok valid accepted (in_progress w) (saved_marks w st) (load (settings w))"
    and newest: "next_generation w = newest accepted" using ok by (simp_all add: writer_ok_def)
  have "newest accepted < g" using u64_checked_inc_less [OF generation] newest by simp
  with accepted_le_newest [OF store] have above: "\<forall>r\<in>set accepted. request_generation r < request_generation ?r"
    by (auto intro: le_less_trans)
  have "store_ok valid (?r # accepted) (?kept @ [?r]) (saved_marks w st) (load (settings w))"
    by (rule store_accept [OF store _ _ above])
      (use x u64_checked_inc_pos [OF generation] in \<open>auto simp: in_progress_def split: option.splits\<close>)
  moreover have "in_progress w' = ?kept @ [?r]" by (simp add: w' in_progress_def)
  moreover have "saved_marks w' st' = saved_marks w st" by (simp add: w' saved_marks_def st'(2))
  ultimately show ?thesis
    using ok running st'(1) by (auto simp: writer_ok_def w' newest_def)
qed

lemma ok_submit:
  assumes ok: "writer_ok load valid accepted w st" and x: "valid x" and s: "writer_submit x w = (result, w')"
  shows "writer_ok load valid (accepted_after result x accepted) w' (note_submission result st)"
proof (cases result)
  case (Inl e)
  with s have "w' = w" by (auto simp: writer_submit_def split: if_splits option.splits)
  with ok Inl show ?thesis by (simp add: accepted_after_def note_submission_def writer_ok_def saved_marks_def)
next
  case (Inr g)
  with s have generation: "u64_checked_inc (next_generation w) = Some g" and running: "\<not> shutdown_requested w"
    and w': "w' = w\<lparr>next_generation := g, pending_request := Some \<lparr>request_generation = g, request_snapshot = x\<rparr>\<rparr>"
    by (auto simp: writer_submit_def split: if_splits option.splits)
  have "w' = w\<lparr>next_generation := g, pending_request := Some \<lparr>request_generation = g, request_snapshot = x\<rparr>,
      shutdown_requested := False\<rparr>" using w' running by (cases w) simp
  from ok_accept [OF ok x generation this running, of "note_submission result st"] show ?thesis
    by (simp add: Inr accepted_after_def note_submission_def)
qed

lemma ok_shutdown_with:
  assumes ok: "writer_ok load valid accepted w st" and x: "valid x" and s: "writer_shutdown_with x w = (result, w')"
  shows "writer_ok load valid (if shutdown_requested w then accepted else accepted_after result x accepted) w' st"
proof (cases "shutdown_requested w")
  case True
  with s have "w' = w" by (auto simp: writer_shutdown_with_def split: if_splits option.splits)
  with ok True show ?thesis by simp
next
  case running: False
  show ?thesis
  proof (cases result)
    case (Inl e)
    with s have "w' = w" by (auto simp: writer_shutdown_with_def split: if_splits option.splits)
    with ok Inl show ?thesis by (simp add: accepted_after_def)
  next
    case (Inr g)
    with s running have generation: "u64_checked_inc (next_generation w) = Some g"
      and w': "w' = w\<lparr>next_generation := g,
        pending_request := Some \<lparr>request_generation = g, request_snapshot = x\<rparr>, shutdown_requested := True\<rparr>"
      by (auto simp: writer_shutdown_with_def split: if_splits option.splits)
    from ok_accept [OF ok x generation w' running, of st] running show ?thesis
      by (simp add: Inr accepted_after_def)
  qed
qed

lemma ok_worker:
  assumes ok: "writer_ok load valid accepted w st" and s: "worker_step save fault w = Some w'"
  shows "writer_ok load valid accepted w' st"
proof -
  have store: "store_ok valid accepted (in_progress w) (saved_marks w st) (load (settings w))"
    using ok by (simp add: writer_ok_def)
  consider (ended) "loop_left w" | (save) r where "\<not> loop_left w" "saving w = Some r"
    | (other) "\<not> loop_left w" "saving w = None" by (cases "saving w") auto
  then show ?thesis
  proof cases
    case ended
    with s have w': "w' = w\<lparr>thread_finished := True\<rparr>" by (auto simp: worker_step_def split: if_splits)
    have "in_progress w' = in_progress w" "saved_marks w' st = saved_marks w st"
      by (simp_all add: w' in_progress_def saved_marks_def)
    moreover have none: "in_progress w = []" using ok ended by (simp add: writer_ok_def)
    ultimately show ?thesis using ok ended store [unfolded none] by (simp add: writer_ok_def w')
  next
    case other
    show ?thesis
    proof (cases "pending_request w")
      case (Some r)
      with s other have w': "w' = w\<lparr>pending_request := None, saving := Some r\<rparr>" by (simp add: worker_step_def)
      have "in_progress w' = in_progress w" "saved_marks w' st = saved_marks w st"
        by (simp_all add: w' in_progress_def saved_marks_def Some other)
      with ok show ?thesis by (simp add: writer_ok_def w')
    next
      case None
      with s other have w': "w' = w\<lparr>loop_left := True, write_events := write_events w @ [Stopped]\<rparr>"
        and "shutdown_requested w" by (auto simp: worker_step_def split: if_splits)
      moreover have "in_progress w' = []" "in_progress w = []" "saved_marks w' st = saved_marks w st"
        by (simp_all add: w' in_progress_def saved_marks_def None other)
      ultimately show ?thesis using ok by (simp add: writer_ok_def)
    qed
  next
    case (save r)
    let ?rest = "case pending_request w of None \<Rightarrow> [] | Some r \<Rightarrow> [r]"
    have progress: "in_progress w = r # ?rest" by (simp add: in_progress_def save)
    have r: "valid (request_snapshot r)" using store unfolding progress store_ok_def by simp
    obtain res f where f: "save fault (request_snapshot r) (settings w) = (res, f)" by fastforce
    have "w' = w\<lparr>saving := None, settings := f, write_events := write_events w @
        [case res of Inr _ \<Rightarrow> Saved (request_generation r) | Inl e \<Rightarrow> Failed (request_generation r) e]\<rparr>"
      using s save f by (auto simp: worker_step_def split: sum.splits)
    moreover have "store_ok valid accepted ?rest
        (saved_marks w st \<union> (case res of Inr _ \<Rightarrow> {request_generation r} | Inl _ \<Rightarrow> {})) (load f)"
    proof (cases res)
      case (Inl e)
      with not_saved [OF r] f have "load f = load (settings w) \<or> load f = Some (request_snapshot r)" by blast
      from store_failed [OF store [unfolded progress] this] Inl show ?thesis by simp
    next
      case (Inr u)
      with saved [OF r] f have "load f = Some (request_snapshot r)" by blast
      with store_saved [OF store [unfolded progress]] Inr show ?thesis by simp
    qed
    ultimately show ?thesis using ok save
      by (auto simp: writer_ok_def in_progress_def saved_marks_def split: sum.splits elim!: store_mono)
  qed
qed

lemma ok_drain:
  assumes ok: "writer_ok load valid accepted w st" and d: "writer_drain_events w = (events, w')"
    and o: "observe closing events st = (messages, st')"
  shows "writer_ok load valid accepted w' st'"
proof -
  from d have w': "w' = w\<lparr>write_events := []\<rparr>" "events = write_events w" by (auto simp: writer_drain_events_def)
  have sub: "saved_marks w' st' \<subseteq> saved_marks w st" and req: "requested_generation st' = requested_generation st"
    using observe_saved [OF o] by (auto simp: saved_marks_def w')
  from ok have "store_ok valid accepted (in_progress w) (saved_marks w' st') (load (settings w))"
    by (auto simp: writer_ok_def intro: store_mono [OF _ sub])
  with ok req show ?thesis by (simp add: writer_ok_def w' in_progress_def)
qed

theorem reach_ok: "writer_reach save valid accepted w st \<Longrightarrow> writer_ok load valid accepted w st"
proof (induction rule: writer_reach.induct)
  case (spawn f)
  show ?case by (simp add: writer_ok_def writer_spawn_def writer_status_new_def newest_def store_ok_def
        in_progress_def saved_marks_def)
next
  case (request_shutdown accepted w st)
  then show ?case by (simp add: writer_ok_def writer_request_shutdown_def in_progress_def saved_marks_def)
next
  case (submit accepted w st x result w')
  then show ?case using ok_submit by blast
next
  case (shutdown_with accepted w st x result w')
  from ok_shutdown_with [OF shutdown_with.IH shutdown_with.hyps(2,3)] show ?case .
next
  case (worker accepted w st fault w')
  then show ?case using ok_worker by blast
next
  case (drain accepted w st events w' closing messages st')
  then show ?case using ok_drain by blast
qed

text \<open>
  A status that acknowledges generation \<open>g\<close> means that the file loads as a request no older than
  \<open>g\<close>, also when a shutdown has put its own request behind it; without a shutdown \<open>g\<close> is the last one.
\<close>

lemma acknowledged_superseded:
  assumes "writer_reach save valid accepted w st" and "acknowledged st" and "requested_generation st = Some g"
  shows "\<exists>r\<in>set accepted. g \<le> request_generation r \<and> load (settings w) = Some (request_snapshot r)"
proof -
  from reach_ok [OF assms(1)] have ok: "writer_ok load valid accepted w st" .
  from assms(2,3) obtain h where h: "saved_generation st = Some h" "g \<le> h"
    by (auto simp: acknowledged_def split: option.splits)
  then have "h \<in> saved_marks w st" by (simp add: saved_marks_def)
  with ok obtain r where "r \<in> set accepted" "h \<le> request_generation r" "load (settings w) = Some (request_snapshot r)"
    unfolding writer_ok_def store_ok_def by blast
  with h(2) show ?thesis by (meson order_trans)
qed

theorem acknowledged_saved:
  assumes "writer_reach save valid accepted w st" and "acknowledged st" and "\<not> shutdown_requested w"
  shows "accepted = [] \<or> load (settings w) = Some (request_snapshot (hd accepted))"
proof (cases accepted)
  case (Cons r rest)
  from reach_ok [OF assms(1)] have ok: "writer_ok load valid accepted w st" .
  with Cons assms(3) have "requested_generation st = Some (request_generation r)"
    by (simp add: writer_ok_def newest_def)
  from acknowledged_superseded [OF assms(1,2) this] obtain q where
    q: "q \<in> set accepted" "request_generation r \<le> request_generation q" "load (settings w) = Some (request_snapshot q)"
    by blast
  have "q = r"
  proof (rule ccontr)
    assume "q \<noteq> r"
    with q(1) Cons have "request_generation q < request_generation r"
      using ok by (auto simp: writer_ok_def store_ok_def)
    with q(2) show False by simp
  qed
  with q(3) Cons show ?thesis by simp
qed simp

text \<open>The worker alone, from a state in which it was told to stop.\<close>

lemma run_leaves:
  assumes "\<not> loop_left w" "saving w = None" "pending_request w = None" "shutdown_requested w"
  shows "\<exists>n'. worker_run save faults n w = worker_run save faults n'
    (w\<lparr>loop_left := True, write_events := write_events w @ [Stopped]\<rparr>)"
  by (subst worker_run.simps) (use assms in \<open>auto simp: worker_step_def\<close>)

lemma run_ends:
  assumes "loop_left w"
  shows "worker_run save faults n w = w\<lparr>thread_finished := True\<rparr>"
proof (cases "thread_finished w")
  case True
  then have "w\<lparr>thread_finished := True\<rparr> = w" by (cases w) simp
  with True assms show ?thesis by (subst worker_run.simps) (simp add: worker_step_def)
next
  case False
  with assms show ?thesis
    by (subst worker_run.simps) (simp add: worker_step_def, subst worker_run.simps, simp add: worker_step_def)
qed

lemma run_saves:
  assumes "\<not> loop_left w" "saving w = Some r" and "valid (request_snapshot r)"
  obtains f event n' where
    "worker_run save faults n w = worker_run save faults n'
       (w\<lparr>saving := None, settings := f, write_events := write_events w @ [event]\<rparr>)"
    "event = Saved (request_generation r) \<and> load f = Some (request_snapshot r) \<or>
     (\<exists>e. event = Failed (request_generation r) e)"
proof -
  obtain res f where f: "save (faults n) (request_snapshot r) (settings w) = (res, f)" by fastforce
  show ?thesis
  proof (cases res)
    case (Inl e)
    have "worker_run save faults n w = worker_run save faults (n + 1)
       (w\<lparr>saving := None, settings := f, write_events := write_events w @ [Failed (request_generation r) e]\<rparr>)"
      by (subst worker_run.simps) (use assms f Inl in \<open>simp add: worker_step_def\<close>)
    then show ?thesis by (rule that) simp
  next
    case (Inr u)
    have "worker_run save faults n w = worker_run save faults (n + 1)
       (w\<lparr>saving := None, settings := f, write_events := write_events w @ [Saved (request_generation r)]\<rparr>)"
      by (subst worker_run.simps) (use assms f Inr in \<open>simp add: worker_step_def\<close>)
    then show ?thesis by (rule that) (use saved [OF assms(3) f [unfolded Inr]] in simp)
  qed
qed

lemma run_takes:
  assumes "\<not> loop_left w" "saving w = None" "pending_request w = Some r"
  shows "worker_run save faults n w = worker_run save faults (n + 1) (w\<lparr>pending_request := None, saving := Some r\<rparr>)"
  by (subst worker_run.simps) (use assms in \<open>simp add: worker_step_def\<close>)

text \<open>The last request, once nothing but it is on its way.\<close>

lemma run_last:
  assumes "\<not> loop_left w" "saving w = None" "pending_request w = Some r" "shutdown_requested w"
    and "valid (request_snapshot r)" and "worker_run save faults n w = w'"
  shows "thread_finished w' \<and> (\<exists>event. write_events w' = write_events w @ [event, Stopped] \<and>
    (event = Saved (request_generation r) \<and> load (settings w') = Some (request_snapshot r) \<or>
     (\<exists>e. event = Failed (request_generation r) e)))"
proof -
  let ?t = "w\<lparr>pending_request := None, saving := Some r\<rparr>"
  have "\<not> loop_left ?t" "saving ?t = Some r" using assms(1) by simp_all
  then obtain f event n' where
    s: "worker_run save faults (n + 1) ?t = worker_run save faults n'
       (?t\<lparr>saving := None, settings := f, write_events := write_events ?t @ [event]\<rparr>)"
    and e: "event = Saved (request_generation r) \<and> load f = Some (request_snapshot r) \<or>
     (\<exists>e. event = Failed (request_generation r) e)"
    by (rule run_saves [where faults = faults and n = "n + 1"]) (use assms(5) in simp_all)
  let ?u = "?t\<lparr>saving := None, settings := f, write_events := write_events ?t @ [event]\<rparr>"
  have "\<not> loop_left ?u" "saving ?u = None" "pending_request ?u = None" "shutdown_requested ?u"
    using assms(1,4) by simp_all
  from run_leaves [OF this, of faults n'] obtain n'' where
    "worker_run save faults n' ?u = worker_run save faults n''
      (?u\<lparr>loop_left := True, write_events := write_events ?u @ [Stopped]\<rparr>)" by blast
  then have "w' = ?u\<lparr>loop_left := True, write_events := write_events ?u @ [Stopped], thread_finished := True\<rparr>"
    using assms(6) run_takes [OF assms(1-3), of faults n] s by (simp add: run_ends)
  with e show ?thesis by auto
qed

theorem close_handles_final:
  assumes reach: "writer_reach save valid accepted w st" and "valid x" and "\<not> shutdown_requested w"
    and close: "writer_shutdown_with x w = (Inr g, w')"
    and joined: "writer_join save faults w' = w''"
  shows "thread_finished w'' \<and> (\<exists>events event. write_events w'' = events @ [event, Stopped] \<and>
    (event = Saved g \<and> load (settings w'') = Some x \<or> (\<exists>e. event = Failed g e)))"
proof -
  have ok: "writer_ok load valid accepted w st" using reach_ok [OF reach] .
  with assms(3) have running: "\<not> loop_left w" by (simp add: writer_ok_def)
  let ?r = "\<lparr>request_generation = g, request_snapshot = x\<rparr>"
  obtain w1 where w1: "w1 = writer_request_shutdown w'" by simp
  from close assms(3) have w': "w1 = w\<lparr>next_generation := g, pending_request := Some ?r, shutdown_requested := True\<rparr>"
    unfolding w1 by (auto simp: writer_shutdown_with_def writer_request_shutdown_def split: if_splits option.splits)
  have run: "worker_run save faults 0 w1 = w''" using joined by (simp add: writer_join_def w1)
  have last: "thread_finished w'' \<and> (\<exists>event. write_events w'' = write_events v @ [event, Stopped] \<and>
      (event = Saved g \<and> load (settings w'') = Some x \<or> (\<exists>e. event = Failed g e)))"
    if "\<not> loop_left v" "saving v = None" "pending_request v = Some ?r" "shutdown_requested v"
      "worker_run save faults n v = w''" for v n
    using run_last [OF that(1-4) _ that(5)] \<open>valid x\<close> by simp
  show ?thesis
  proof (cases "saving w")
    case None
    have "\<exists>event. write_events w'' = write_events w1 @ [event, Stopped] \<and>
        (event = Saved g \<and> load (settings w'') = Some x \<or> (\<exists>e. event = Failed g e))" "thread_finished w''"
      using last [of w1 0] run running None by (simp_all add: w')
    then show ?thesis by blast
  next
    case (Some q)
    have "q \<in> set accepted" using ok Some by (simp add: writer_ok_def store_ok_def in_progress_def)
    then have q: "valid (request_snapshot q)" using ok by (simp add: writer_ok_def store_ok_def)
    have "\<not> loop_left w1" "saving w1 = Some q" using running Some by (simp_all add: w')
    then obtain f event n' where "worker_run save faults 0 w1 = worker_run save faults n'
        (w1\<lparr>saving := None, settings := f, write_events := write_events w1 @ [event]\<rparr>)"
      by (rule run_saves [where faults = faults and n = 0]) (use q in simp_all)
    with run have s: "worker_run save faults n' (w1\<lparr>saving := None, settings := f,
        write_events := write_events w1 @ [event]\<rparr>) = w''" by simp
    let ?v = "w1\<lparr>saving := None, settings := f, write_events := write_events w1 @ [event]\<rparr>"
    have "\<not> loop_left ?v" "saving ?v = None" "pending_request ?v = Some ?r" "shutdown_requested ?v"
      using running by (simp_all add: w')
    from last [OF this s] show ?thesis by blast
  qed
qed

end

end
