(* ===== verification/Preference_Claims.thy ===== *)
theory Preference_Claims
  imports Preference_Correct
begin

text \<open>
  Claims on the settings files and their writers.
\<close>

text \<open>
  C22: The settings files have one encoding each: a decoder accepts a byte string with a value
  exactly when the encoder gives that byte string for the value. So every saved setting is read back
  as it was, and no damaged or foreign file passes as another setting than the one that encodes to it.
\<close>

theorem settings_roundtrip:
  "(decode_columns bytes = Inr columns \<longleftrightarrow> length columns = 7 \<and> encode_columns columns = Inr bytes) \<and>
   (decode_appearance bytes = Inr appearance \<longleftrightarrow> bytes = encode_appearance appearance) \<and>
   (decode_language bytes = Inr language \<longleftrightarrow> bytes = encode_language language)"
  by (simp add: decode_columns_iff decode_appearance_iff decode_language_iff)

text \<open>
  C15: An acknowledged status does not lie. However the interface and the worker interleave, whatever
  saves fail and at which stage: when the status of a writer says that everything is acknowledged, the
  settings file is read back as a request no older than the last one submitted. As long as no shutdown
  was requested that is the last accepted request itself; after a shutdown it may be the last submitted
  one while the closing snapshot is still on its way.
\<close>

theorem acknowledged_settings_saved:
  "(writer_reach save_columns (\<lambda>cs. length cs = 7) requests w st \<and> acknowledged st \<longrightarrow>
      (\<not> shutdown_requested w \<longrightarrow> requests = [] \<or>
         load_with read_columns (settings w) = Some (request_snapshot (hd requests))) \<and>
      (case requested_generation st of None \<Rightarrow> True
       | Some g \<Rightarrow> \<exists>r\<in>set requests. g \<le> request_generation r \<and>
           load_with read_columns (settings w) = Some (request_snapshot r))) \<and>
   (writer_reach save_appearance (\<lambda>_. True) requests' w' st' \<and> acknowledged st' \<longrightarrow>
      (\<not> shutdown_requested w' \<longrightarrow> requests' = [] \<or>
         load_with read_appearance (settings w') = Some (request_snapshot (hd requests'))) \<and>
      (case requested_generation st' of None \<Rightarrow> True
       | Some g \<Rightarrow> \<exists>r\<in>set requests'. g \<le> request_generation r \<and>
           load_with read_appearance (settings w') = Some (request_snapshot r))) \<and>
   (writer_reach save_language (\<lambda>_. True) requests'' w'' st'' \<and> acknowledged st'' \<longrightarrow>
      (\<not> shutdown_requested w'' \<longrightarrow> requests'' = [] \<or>
         load_with read_language (settings w'') = Some (request_snapshot (hd requests''))) \<and>
      (case requested_generation st'' of None \<Rightarrow> True
       | Some g \<Rightarrow> \<exists>r\<in>set requests''. g \<le> request_generation r \<and>
           load_with read_language (settings w'') = Some (request_snapshot r)))"
  using columns_store.acknowledged_saved [of requests w st] columns_store.acknowledged_superseded [of requests w st]
    appearance_store.acknowledged_saved [of requests' w' st'] appearance_store.acknowledged_superseded [of requests' w' st']
    language_store.acknowledged_saved [of requests'' w'' st''] language_store.acknowledged_superseded [of requests'' w'' st'']
  by (intro conjI impI) (simp_all split: option.split)

definition no_file :: settings_file where
  "no_file = \<lparr>stored_bytes = None, temporary_file = None\<rparr>"

definition no_fault :: save_fault where
  "no_fault = \<lparr>failing_stage = None, written_bytes = 0, cleanup_fails = False\<rparr>"

definition english_saved :: "(language_preference, settings_file) coalescing_writer" where
  "english_saved = \<lparr>pending_request = None, shutdown_requested = False, write_events = [], next_generation = 1,
     saving = None, loop_left = False, thread_finished = False,
     settings = \<lparr>stored_bytes = Some (encode_language English), temporary_file = None\<rparr>\<rparr>"

definition english_status :: writer_status where
  "english_status = \<lparr>requested_generation = Some 1, saved_generation = Some 1, failed_generation = None,
     submission_failed = False, terminal_observed = False\<rparr>"

definition english_request :: "language_preference preference_request" where
  "english_request = \<lparr>request_generation = 1, request_snapshot = English\<rparr>"

lemmas english_run = writer_spawn_def writer_submit_def u64_checked_inc_def worker_step_def save_language_def
  persist_encoded_def no_fault_def no_file_def english_saved_def english_status_def english_request_def
  accepted_after_def note_submission_def writer_drain_events_def observe_event_def writer_status_new_def Let_def

lemma english_reach: "writer_reach save_language (\<lambda>_. True) [english_request] english_saved english_status"
proof -
  let ?w0 = "writer_spawn no_file"
  let ?w1 = "?w0\<lparr>next_generation := 1, pending_request := Some english_request\<rparr>"
  let ?w2 = "?w1\<lparr>pending_request := None, saving := Some english_request\<rparr>"
  let ?w3 = "english_saved\<lparr>write_events := [Saved 1]\<rparr>"
  let ?st = "writer_status_new\<lparr>requested_generation := Some 1\<rparr>"
  have "writer_submit English ?w0 = (Inr 1, ?w1)" by (simp add: english_run)
  from writer_reach.submit [OF writer_reach.spawn [of save_language _ no_file] TrueI this]
  have "writer_reach save_language (\<lambda>_. True) [english_request] ?w1 ?st" by (simp add: english_run)
  moreover have "worker_step save_language no_fault ?w1 = Some ?w2" by (simp add: english_run)
  ultimately have "writer_reach save_language (\<lambda>_. True) [english_request] ?w2 ?st"
    by (rule writer_reach.worker)
  moreover have "worker_step save_language no_fault ?w2 = Some ?w3" by (simp add: english_run)
  ultimately have "writer_reach save_language (\<lambda>_. True) [english_request] ?w3 ?st"
    by (rule writer_reach.worker)
  moreover have "writer_drain_events ?w3 = ([Saved 1], english_saved)" by (simp add: english_run)
  moreover have "observe False [Saved 1] ?st = ([], english_status)" by (simp add: english_run)
  ultimately show ?thesis by (rule writer_reach.drain)
qed

theorem acknowledged_settings_saved_witness:
  "load_with read_language (settings english_saved) = Some English"
proof -
  have "(1 :: u64) < - 1" by (simp add: word_order.not_eq_extremum [symmetric])
  then have "acknowledged english_status" by (simp add: english_status_def acknowledged_def)
  moreover have "\<not> shutdown_requested english_saved" by (simp add: english_saved_def)
  ultimately show ?thesis
    using acknowledged_settings_saved [THEN conjunct2, THEN conjunct2, rule_format,
        of "[english_request]" english_saved english_status] english_reach
    by (simp add: english_request_def)
qed

text \<open>
  C17: Closing handles the final settings. A shutdown that is accepted with a snapshot ends the
  thread of the writer, and the last thing it does before it stops is to save that snapshot: then the
  file is read back as it, or the failure of exactly this save is reported.
\<close>

theorem close_saves_final:
  assumes "writer_reach save_columns (\<lambda>cs. length cs = 7) requests w st" and "length columns = 7"
    and "\<not> shutdown_requested w" and "writer_shutdown_with columns w = (Inr g, w')"
    and "writer_reach save_appearance (\<lambda>_. True) requests' v st'"
    and "\<not> shutdown_requested v" and "writer_shutdown_with appearance v = (Inr h, v')"
  shows "(case writer_join save_columns faults w' of joined \<Rightarrow>
      thread_finished joined \<and> (\<exists>events event. write_events joined = events @ [event, Stopped] \<and>
        (event = Saved g \<and> load_with read_columns (settings joined) = Some columns \<or> (\<exists>e. event = Failed g e)))) \<and>
    (case writer_join save_appearance faults v' of joined \<Rightarrow>
      thread_finished joined \<and> (\<exists>events event. write_events joined = events @ [event, Stopped] \<and>
        (event = Saved h \<and> load_with read_appearance (settings joined) = Some appearance \<or> (\<exists>e. event = Failed h e))))"
  using columns_store.close_handles_final [OF assms(1-4) refl, of faults]
    appearance_store.close_handles_final [OF assms(5) TrueI assms(6,7) refl, of faults] by simp

theorem close_saves_final_witness:
  "thread_finished (writer_join save_appearance (\<lambda>_. no_fault)
     (snd (writer_shutdown_with default_appearance (writer_spawn no_file))))"
proof -
  let ?c = "writer_spawn no_file :: (column_state list, settings_file) coalescing_writer"
  let ?a = "writer_spawn no_file :: (ui_appearance, settings_file) coalescing_writer"
  have c: "writer_shutdown_with default_column_states ?c = (Inr 1, snd (writer_shutdown_with default_column_states ?c))"
    and a: "writer_shutdown_with default_appearance ?a = (Inr 1, snd (writer_shutdown_with default_appearance ?a))"
    by (simp_all add: writer_shutdown_with_def writer_spawn_def u64_checked_inc_def)
  have "\<not> shutdown_requested ?c" "\<not> shutdown_requested ?a" by (simp_all add: writer_spawn_def)
  from close_saves_final [OF writer_reach.spawn length_default_columns this(1) c writer_reach.spawn this(2) a,
      of "\<lambda>_. no_fault"] show ?thesis by simp
qed

end
