(* ===== verification/Confirmation_Display.thy ===== *)
theory Confirmation_Display
  imports Legacy_Text
begin

text \<open>
  The diagnostics the user confirms: \<open>crates/darknamer-app/src/confirmation_display.rs\<close>. UTF-16
  units become characters or escapes of eight characters, and a rendering that does not fit its
  budget shows the part that differs. A \<open>String\<close> is the list of its scalar values. Localised texts
  are left out.
\<close>

section \<open>Tokens\<close>

datatype glyph = Character nat | Escaped u16

record token =
  token_start :: usize
  token_end :: usize
  token_glyph :: glyph

definition len_utf16 :: "nat \<Rightarrow> usize" where
  "len_utf16 c = (if c < 0x10000 then 1 else 2)"

definition glyph_cost :: "glyph \<Rightarrow> usize" where
  "glyph_cost g = (case g of Character c \<Rightarrow> len_utf16 c | Escaped _ \<Rightarrow> 8)"

definition token_cost :: "token \<Rightarrow> usize" where
  "token_cost t = glyph_cost (token_glyph t)"

definition hex_digit :: "nat \<Rightarrow> nat" where
  "hex_digit n = (if n < 10 then 48 + n else 55 + n)"

text \<open>\<open>{unit:04X}\<close> of a unit has exactly four digits.\<close>

definition hex4 :: "u16 \<Rightarrow> nat list" where
  "hex4 u = map (\<lambda>d. hex_digit (unat u div d mod 16)) [4096, 256, 16, 1]"

definition glyph_text :: "glyph \<Rightarrow> nat list" where
  "glyph_text g = (case g of
     Character c \<Rightarrow> [c]
   | Escaped unit \<Rightarrow> [0x5B, 0x55, 0x2B] @ hex4 unit @ [0x5D])"

definition escaped :: "u16 \<Rightarrow> bool" where
  "escaped unit \<longleftrightarrow> unit \<le> 0x1F \<or> 0x7F \<le> unit \<and> unit \<le> 0x9F \<or> unit = 0x5B \<or> unit = 0x5D \<or> unit = 0x61C \<or>
     0x200E \<le> unit \<and> unit \<le> 0x200F \<or> unit = 0x2026 \<or> 0x2028 \<le> unit \<and> unit \<le> 0x202E \<or>
     0x2066 \<le> unit \<and> unit \<le> 0x2069 \<or> unit = 0xFFFD"

definition high_surrogate :: "u16 \<Rightarrow> bool" where
  "high_surrogate unit \<longleftrightarrow> 0xD800 \<le> unit \<and> unit \<le> 0xDBFF"

definition low_surrogate :: "u16 \<Rightarrow> bool" where
  "low_surrogate unit \<longleftrightarrow> 0xDC00 \<le> unit \<and> unit \<le> 0xDFFF"

definition surrogate :: "u16 \<Rightarrow> bool" where
  "surrogate unit \<longleftrightarrow> 0xD800 \<le> unit \<and> unit \<le> 0xDFFF"

text \<open>\<open>char::from_u32(n).unwrap_or(char::REPLACEMENT_CHARACTER)\<close>.\<close>

definition char_or_replacement :: "nat \<Rightarrow> nat" where
  "char_or_replacement n = (if n < 0xD800 \<or> 0xDFFF < n \<and> n < 0x110000 then n else 0xFFFD)"

definition single_glyph :: "u16 \<Rightarrow> glyph" where
  "single_glyph unit = (if escaped unit \<or> surrogate unit then Escaped unit
     else Character (char_or_replacement (unat unit)))"

definition pair_glyph :: "u16 \<Rightarrow> u16 \<Rightarrow> glyph" where
  "pair_glyph unit low =
     Character (char_or_replacement (0x10000 + (unat unit - 0xD800) * 1024 + unat low - 0xDC00))"

text \<open>The loop over the units; \<open>index\<close> is the position of the first one.\<close>

fun tokens_from :: "usize \<Rightarrow> u16 list \<Rightarrow> token list" where
  "tokens_from index [] = []"
| "tokens_from index [unit] = [\<lparr>token_start = index, token_end = index + 1, token_glyph = single_glyph unit\<rparr>]"
| "tokens_from index (unit # low # units) =
     (if high_surrogate unit \<and> low_surrogate low
      then \<lparr>token_start = index, token_end = index + 2, token_glyph = pair_glyph unit low\<rparr> # tokens_from (index + 2) units
      else \<lparr>token_start = index, token_end = index + 1, token_glyph = single_glyph unit\<rparr> #
             tokens_from (index + 1) (low # units))"

definition tokens :: "u16 list \<Rightarrow> token list" where
  "tokens units = tokens_from 0 units"

definition tokens_cost :: "token list \<Rightarrow> usize" where
  "tokens_cost ts = sum_list (map token_cost ts)"

definition tokens_text :: "token list \<Rightarrow> nat list" where
  "tokens_text ts = concat (map (\<lambda>t. glyph_text (token_glyph t)) ts)"

section \<open>Rendering within a budget\<close>

abbreviation ELLIPSIS :: nat where "ELLIPSIS \<equiv> 0x2026"

text \<open>\<open>while left > 0 && used + tokens[left - 1].cost() <= limit\<close>.\<close>

fun grow_left :: "token list \<Rightarrow> usize \<Rightarrow> usize \<Rightarrow> usize \<Rightarrow> usize \<times> usize" where
  "grow_left ts limit 0 used = (0, used)"
| "grow_left ts limit (Suc left) used =
     (if used + token_cost (ts ! left) \<le> limit then grow_left ts limit left (used + token_cost (ts ! left))
      else (Suc left, used))"

text \<open>\<open>while right < tokens.len() && tokens[right].cost() <= remaining\<close>.\<close>

function grow_right :: "token list \<Rightarrow> usize \<Rightarrow> usize \<Rightarrow> usize \<times> usize" where
  "grow_right ts right remaining =
     (if right < length ts \<and> token_cost (ts ! right) \<le> remaining
      then grow_right ts (right + 1) (remaining - token_cost (ts ! right)) else (right, remaining))"
  by pat_completeness auto
termination by (relation "measure (\<lambda>(ts, right, remaining). length ts - right)") auto

declare grow_right.simps [simp del]

fun fill_left :: "token list \<Rightarrow> usize \<Rightarrow> usize \<Rightarrow> usize" where
  "fill_left ts 0 remaining = 0"
| "fill_left ts (Suc left) remaining =
     (if token_cost (ts ! left) \<le> remaining then fill_left ts left (remaining - token_cost (ts ! left))
      else Suc left)"

text \<open>\<open>while head < end && used + tokens[head].cost() <= limit\<close>.\<close>

function grow_head :: "token list \<Rightarrow> usize \<Rightarrow> usize \<Rightarrow> usize \<Rightarrow> usize \<Rightarrow> usize \<times> usize" where
  "grow_head ts stop limit head used =
     (if head < stop \<and> used + token_cost (ts ! head) \<le> limit
      then grow_head ts stop limit (head + 1) (used + token_cost (ts ! head)) else (head, used))"
  by pat_completeness auto
termination by (relation "measure (\<lambda>(ts, stop, limit, head, used). stop - head)") auto

declare grow_head.simps [simp del]

text \<open>\<open>while tail > head && used + tokens[tail - 1].cost() <= limit\<close>.\<close>

fun grow_tail :: "token list \<Rightarrow> usize \<Rightarrow> usize \<Rightarrow> usize \<Rightarrow> usize \<Rightarrow> usize" where
  "grow_tail ts head limit 0 used = 0"
| "grow_tail ts head limit (Suc tail) used =
     (if head < Suc tail \<and> used + token_cost (ts ! tail) \<le> limit
      then grow_tail ts head limit tail (used + token_cost (ts ! tail)) else Suc tail)"

definition token_slice :: "token list \<Rightarrow> usize \<Rightarrow> usize \<Rightarrow> token list" where
  "token_slice ts i j = take (j - i) (drop i ts)"

text \<open>The focus fits: it is shown with its surroundings.\<close>

definition render_focus :: "token list \<Rightarrow> usize \<Rightarrow> usize \<Rightarrow> usize \<Rightarrow> nat list" where
  "render_focus ts start stop budget =
     (let remaining = budget - tokens_cost (token_slice ts start stop) - 2;
          (left, used) = grow_left ts (remaining div 2) start 0;
          (right, remaining) = grow_right ts stop (remaining - used);
          left = fill_left ts left remaining
      in (if left \<noteq> 0 then [ELLIPSIS] else []) @ tokens_text (token_slice ts left right) @
         (if right \<noteq> length ts then [ELLIPSIS] else []))"

text \<open>The focus does not fit: its ends are shown.\<close>

definition render_ends :: "token list \<Rightarrow> usize \<Rightarrow> usize \<Rightarrow> usize \<Rightarrow> nat list" where
  "render_ends ts start stop budget =
     (let outer = of_bool (start \<noteq> 0) + of_bool (stop \<noteq> length ts);
          available = saturating_sub budget (outer + 1);
          (head, used) = grow_head ts stop (available div 2) start 0;
          tail = grow_tail ts head available stop used
      in (if start \<noteq> 0 then [ELLIPSIS] else []) @ tokens_text (token_slice ts start head) @ [ELLIPSIS] @
         tokens_text (token_slice ts tail stop) @ (if stop \<noteq> length ts then [ELLIPSIS] else []))"

text \<open>\<open>partition_point\<close> on the ordered tokens is the length of the prefix that satisfies the test.\<close>

definition partition_point :: "('a \<Rightarrow> bool) \<Rightarrow> 'a list \<Rightarrow> usize" where
  "partition_point P xs = length (takeWhile P xs)"

definition render :: "token list \<Rightarrow> usize \<Rightarrow> usize \<Rightarrow> usize \<Rightarrow> nat list" where
  "render ts raw_start raw_end budget =
     (if budget = 0 then []
      else if tokens_cost ts \<le> budget then tokens_text ts
      else if budget < 3 then [ELLIPSIS]
      else let start = partition_point (\<lambda>t. token_end t \<le> raw_start) ts;
               stop = max (partition_point (\<lambda>t. token_start t < raw_end) ts) start
           in if saturating_add (tokens_cost (token_slice ts start stop)) 2 \<le> budget
              then render_focus ts start stop budget else render_ends ts start stop budget)"

record display_pair =
  shown_before :: "nat list"
  shown_after :: "nat list"
  elided :: bool
  hidden :: bool

definition display_pair_of :: "u16 list \<Rightarrow> u16 list \<Rightarrow> usize \<Rightarrow> display_pair" where
  "display_pair_of before after budget =
     (let common = length (takeWhile (\<lambda>(a, b). a = b) (zip before after));
          maximum_suffix = min (length before - common) (length after - common);
          suffix = length (takeWhile (\<lambda>(a, b). a = b) (take maximum_suffix (zip (rev before) (rev after))));
          left = tokens before;
          right = tokens after;
          before_text = render left common (length before - suffix) budget;
          after_text = render right common (length after - suffix) budget
      in \<lparr>shown_before = before_text, shown_after = after_text,
          elided = (budget < tokens_cost left \<or> budget < tokens_cost right),
          hidden = (before \<noteq> after \<and> before_text = after_text)\<rparr>)"

definition display_tail :: "u16 list \<Rightarrow> usize \<Rightarrow> nat list" where
  "display_tail units budget = render (tokens units) (length units) (length units) budget"

section \<open>Clipping a diagnostic\<close>

definition text_units :: "nat list \<Rightarrow> usize" where
  "text_units text = sum_list (map len_utf16 text)"

definition starts_escape :: "nat list \<Rightarrow> bool" where
  "starts_escape text \<longleftrightarrow> 8 \<le> length text \<and> take 3 text = [0x5B, 0x55, 0x2B] \<and> text ! 7 = 0x5D \<and>
     (\<forall>c\<in>set (take 8 text). c < 0x80)"

text \<open>The loop; it ends with the part that fits.\<close>

function clip_loop :: "usize \<Rightarrow> usize \<Rightarrow> nat list \<Rightarrow> nat list" where
  "clip_loop budget used [] = []"
| "clip_loop budget used (c # cs) =
     (let width = (if starts_escape (c # cs) then 8 else 1);
          piece = take width (c # cs)
      in if budget - 1 < used + text_units piece then []
         else piece @ clip_loop budget (used + text_units piece) (drop width (c # cs)))"
  by pat_completeness auto
termination by (relation "measure (\<lambda>(budget, used, text). length text)") auto

declare clip_loop.simps(2) [simp del]

definition clip_diagnostic :: "nat list \<Rightarrow> usize \<Rightarrow> nat list" where
  "clip_diagnostic text budget =
     (if text_units text \<le> budget then text
      else if budget = 0 then []
      else clip_loop budget 0 text @ [ELLIPSIS])"

end
