(* ===== verification/Display_Correct.thy ===== *)
theory Display_Correct
  imports Confirmation_Display
begin

text \<open>
  What a rendering of the confirmation shows: tokens lose nothing, their text can be read back, and
  no rendering is longer than its budget.
\<close>

section \<open>Tokens\<close>

definition glyph_units :: "glyph \<Rightarrow> u16 list" where
  "glyph_units g = (case g of Character c \<Rightarrow> encode_utf16_char c | Escaped u \<Rightarrow> [u])"

text \<open>No character of a token opens an escape or is the mark of an elision.\<close>

definition clean_glyph :: "glyph \<Rightarrow> bool" where
  "clean_glyph g = (case g of Character c \<Rightarrow> c \<noteq> 0x5B \<and> c \<noteq> ELLIPSIS | Escaped _ \<Rightarrow> True)"

lemma unat_u16 [simp]: "unat (u :: u16) < 65536"
  using unsigned_less [of u] by simp

lemma single_glyph_units: "glyph_units (single_glyph u) = [u]"
proof (cases "escaped u \<or> surrogate u")
  case True
  then show ?thesis by (simp add: single_glyph_def glyph_units_def)
next
  case False
  then have "unat u < 0xD800 \<or> 0xDFFF < unat u"
    by (auto simp: surrogate_def word_le_nat_alt)
  with unat_u16 [of u] have "char_or_replacement (unat u) = unat u"
    by (auto simp: char_or_replacement_def simp del: unat_u16)
  with False show ?thesis by (simp add: single_glyph_def glyph_units_def encode_scalar_unit)
qed

lemma pair_scalar:
  assumes "high_surrogate u" and "low_surrogate v"
  shows "pair_glyph u v = Character ((unat u - 0xD800) * 1024 + (unat v - 0xDC00) + 0x10000)"
    and "0x10000 \<le> (unat u - 0xD800) * 1024 + (unat v - 0xDC00) + 0x10000"
proof -
  from assms have u: "0xD800 \<le> unat u" "unat u \<le> 0xDBFF" and v: "0xDC00 \<le> unat v" "unat v \<le> 0xDFFF"
    by (simp_all add: high_surrogate_def low_surrogate_def word_le_nat_alt)
  then have "0x10000 + (unat u - 0xD800) * 1024 + unat v - 0xDC00 =
      (unat u - 0xD800) * 1024 + (unat v - 0xDC00) + 0x10000" by linarith
  moreover have "(unat u - 0xD800) * 1024 + (unat v - 0xDC00) + 0x10000 < 0x110000" using u v by linarith
  ultimately show "pair_glyph u v = Character ((unat u - 0xD800) * 1024 + (unat v - 0xDC00) + 0x10000)"
    by (simp add: pair_glyph_def char_or_replacement_def)
qed simp

lemma pair_glyph_units:
  assumes "high_surrogate u" and "low_surrogate v"
  shows "glyph_units (pair_glyph u v) = [u, v]"
proof -
  from assms(1) have "u < 0xDC00"
    by (simp add: high_surrogate_def word_less_nat_alt word_le_nat_alt)
  with encode_surrogate_pair [of u v] assms show ?thesis
    by (simp add: pair_scalar [OF assms] glyph_units_def high_surrogate_def low_surrogate_def)
qed

lemma tokens_from_units:
  "concat (map (\<lambda>t. glyph_units (token_glyph t)) (tokens_from i units)) = units"
  by (induction i units rule: tokens_from.induct) (simp_all add: single_glyph_units pair_glyph_units)

lemma single_glyph_clean: "clean_glyph (single_glyph u)"
proof (cases "escaped u \<or> surrogate u")
  case True
  then show ?thesis by (simp add: single_glyph_def clean_glyph_def)
next
  case False
  then have "u \<noteq> 0x5B" "u \<noteq> 0x2026" by (auto simp: escaped_def)
  then have "unat u \<noteq> 0x5B" "unat u \<noteq> 0x2026" by (auto simp: word_unat_eq_iff)
  then show ?thesis using False
    by (simp add: single_glyph_def clean_glyph_def char_or_replacement_def)
qed

lemma pair_glyph_clean: "high_surrogate u \<Longrightarrow> low_surrogate v \<Longrightarrow> clean_glyph (pair_glyph u v)"
  using pair_scalar [of u v] by (simp add: clean_glyph_def)

lemma tokens_from_clean: "t \<in> set (tokens_from i units) \<Longrightarrow> clean_glyph (token_glyph t)"
proof (induction i units rule: tokens_from.induct)
  case (3 i u v units)
  then show ?case by (auto simp: single_glyph_clean pair_glyph_clean split: if_splits)
qed (simp_all add: single_glyph_clean)

section \<open>Their text\<close>

lemma hex_digit_unique: "m < 16 \<Longrightarrow> n < 16 \<Longrightarrow> hex_digit m = hex_digit n \<Longrightarrow> m = n"
  by (simp add: hex_digit_def split: if_splits)

lemma digits:
  fixes n :: nat
  assumes "16 * a + d = n" and "16 * b + c = a" and "16 * e + f = b"
  shows "n = e * 4096 + f * 256 + c * 16 + d"
  unfolding assms(1) [symmetric] assms(2) [symmetric] assms(3) [symmetric] by simp

lemma hex4_inj:
  assumes "hex4 u = hex4 v"
  shows "u = v"
proof -
  have eq: "unat u div d mod 16 = unat v div d mod 16" if "d \<in> {4096, 256, 16, 1}" for d
    by (rule hex_digit_unique) (use assms that in \<open>auto simp: hex4_def\<close>)
  have split: "n = n div 4096 mod 16 * 4096 + n div 256 mod 16 * 256 + n div 16 mod 16 * 16 + n div 1 mod 16"
    if "n < 65536" for n :: nat
  proof -
    have d: "n div 16 div 16 = n div 256" "n div 256 div 16 = n div 4096"
      using div_mult2_eq [of n 16 16] div_mult2_eq [of n 256 16] by simp_all
    have "n div 4096 < 16" using that by (simp add: less_mult_imp_div_less)
    then have "n div 4096 mod 16 = n div 4096" by (rule mod_less)
    moreover have "n = n div 4096 * 4096 + n div 256 mod 16 * 256 + n div 16 mod 16 * 16 + n mod 16"
    proof (rule digits)
      show "16 * (n div 16) + n mod 16 = n" by (rule mult_div_mod_eq)
      show "16 * (n div 256) + n div 16 mod 16 = n div 16" unfolding d(1) [symmetric] by (rule mult_div_mod_eq)
      show "16 * (n div 4096) + n div 256 mod 16 = n div 256" unfolding d(2) [symmetric] by (rule mult_div_mod_eq)
    qed
    ultimately show ?thesis by (simp only: div_by_1)
  qed
  have "unat u = unat u div 4096 mod 16 * 4096 + unat u div 256 mod 16 * 256 + unat u div 16 mod 16 * 16 + unat u div 1 mod 16"
    by (rule split) simp
  also have "\<dots> = unat v div 4096 mod 16 * 4096 + unat v div 256 mod 16 * 256 + unat v div 16 mod 16 * 16 + unat v div 1 mod 16"
    using eq [of 4096] eq [of 256] eq [of 16] eq [of 1] by simp
  also have "\<dots> = unat v" by (rule split [symmetric]) simp
  finally have "unat u = unat v" .
  then show ?thesis by (simp add: word_unat_eq_iff)
qed

lemma length_hex4 [simp]: "length (hex4 u) = 4"
  by (simp add: hex4_def)

lemma hex4_ascii: "c \<in> set (hex4 u) \<Longrightarrow> c < 0x80"
  by (auto simp: hex4_def hex_digit_def)

lemma glyph_text_prefix_free:
  assumes "clean_glyph g" and "clean_glyph h" and "glyph_text g @ xs = glyph_text h @ ys"
  shows "g = h \<and> xs = ys"
proof (cases g)
  case (Character c)
  with assms show ?thesis by (cases h) (auto simp: glyph_text_def clean_glyph_def)
next
  case (Escaped u)
  show ?thesis
  proof (cases h)
    case (Character c)
    with assms Escaped show ?thesis by (auto simp: glyph_text_def clean_glyph_def)
  next
    case (Escaped v)
    with assms \<open>g = Escaped u\<close> have "hex4 u @ [0x5D] @ xs = hex4 v @ [0x5D] @ ys" by (simp add: glyph_text_def)
    then have "hex4 u = hex4 v" "xs = ys" by simp_all
    with hex4_inj Escaped \<open>g = Escaped u\<close> show ?thesis by blast
  qed
qed

lemma glyph_text_nonempty [simp]: "glyph_text g \<noteq> []"
  by (cases g) (simp_all add: glyph_text_def)

lemma glyph_texts_inj:
  "\<forall>g\<in>set gs. clean_glyph g \<Longrightarrow> \<forall>h\<in>set hs. clean_glyph h \<Longrightarrow>
     concat (map glyph_text gs) = concat (map glyph_text hs) \<Longrightarrow> gs = hs"
proof (induction gs arbitrary: hs)
  case Nil
  then show ?case by (cases hs) auto
next
  case (Cons g gs)
  from Cons.prems(3) obtain h hs' where hs: "hs = h # hs'" by (cases hs) simp_all
  with Cons.prems glyph_text_prefix_free [of g h "concat (map glyph_text gs)" "concat (map glyph_text hs')"]
  have "g = h" "concat (map glyph_text gs) = concat (map glyph_text hs')" by simp_all
  with Cons.IH [of hs'] Cons.prems(1,2) hs show ?case by simp
qed

lemma tokens_text_inj:
  assumes "tokens_text (tokens before) = tokens_text (tokens after)"
  shows "before = after"
proof -
  let ?g = "\<lambda>units. map token_glyph (tokens units)"
  have "concat (map glyph_text (?g before)) = concat (map glyph_text (?g after))"
    using assms by (simp add: tokens_text_def comp_def)
  then have "?g before = ?g after"
    by (intro glyph_texts_inj) (auto simp: tokens_def intro: tokens_from_clean)
  moreover have "concat (map glyph_units (?g units)) = units" for units
    using tokens_from_units [of 0 units] by (simp add: tokens_def comp_def)
  ultimately show ?thesis by metis
qed

lemma text_units_append [simp]: "text_units (xs @ ys) = text_units xs + text_units ys"
  by (simp add: text_units_def)

lemma text_units_simps [simp]: "text_units [] = 0" "text_units (c # cs) = len_utf16 c + text_units cs"
  by (simp_all add: text_units_def)

lemma text_units_ascii: "\<forall>c\<in>set cs. c < 0x80 \<Longrightarrow> text_units cs = length cs"
  by (induction cs) (auto simp: len_utf16_def)

lemma glyph_text_cost: "text_units (glyph_text g) = glyph_cost g"
proof (cases g)
  case (Escaped u)
  have "text_units (hex4 u) = 4" using text_units_ascii [of "hex4 u"] hex4_ascii by simp
  with Escaped show ?thesis by (simp add: glyph_text_def glyph_cost_def len_utf16_def)
qed (simp add: glyph_text_def glyph_cost_def)

lemma tokens_text_cost: "text_units (tokens_text ts) = tokens_cost ts"
  by (induction ts) (simp_all add: tokens_text_def tokens_cost_def token_cost_def glyph_text_cost)

text \<open>A text without cost is empty, so the empty budget hides nothing.\<close>

lemma tokens_cost_zero: "tokens_cost ts = 0 \<Longrightarrow> tokens_text ts = []"
  by (cases ts) (auto simp: tokens_cost_def token_cost_def glyph_cost_def len_utf16_def tokens_text_def
      split: glyph.splits if_splits)

section \<open>Budgets\<close>

lemma slice_join: "i \<le> j \<Longrightarrow> j \<le> k \<Longrightarrow> token_slice ts i k = token_slice ts i j @ token_slice ts j k"
proof -
  assume "i \<le> j" "j \<le> k"
  then have "k - i = (j - i) + (k - j)" "j = (j - i) + i" by simp_all
  then show ?thesis unfolding token_slice_def by (metis drop_drop take_add)
qed

lemma cost_join: "i \<le> j \<Longrightarrow> j \<le> k \<Longrightarrow>
    tokens_cost (token_slice ts i k) = tokens_cost (token_slice ts i j) + tokens_cost (token_slice ts j k)"
  using slice_join [of i j k ts] by (simp add: tokens_cost_def)

lemma cost_one: "i < length ts \<Longrightarrow> tokens_cost (token_slice ts i (Suc i)) = token_cost (ts ! i)"
  by (simp add: token_slice_def tokens_cost_def take_Suc_conv_app_nth take_Suc hd_drop_conv_nth)

lemma cost_empty [simp]: "tokens_cost (token_slice ts i i) = 0"
  by (simp add: token_slice_def tokens_cost_def)

lemma grow_left_cost:
  "grow_left ts limit left used = (l, u) \<Longrightarrow> left \<le> length ts \<Longrightarrow>
     l \<le> left \<and> u = used + tokens_cost (token_slice ts l left) \<and> (used \<le> limit \<longrightarrow> u \<le> limit)"
proof (induction left arbitrary: used)
  case (Suc left)
  show ?case
  proof (cases "used + token_cost (ts ! left) \<le> limit")
    case True
    with Suc.prems have "grow_left ts limit left (used + token_cost (ts ! left)) = (l, u)" by simp
    from Suc.IH [OF this] Suc.prems(2) True have "l \<le> left"
      "u = used + token_cost (ts ! left) + tokens_cost (token_slice ts l left)" "u \<le> limit" by simp_all
    with cost_join [of l left "Suc left" ts] cost_one [of left ts] Suc.prems(2) show ?thesis by simp
  next
    case False
    with Suc.prems show ?thesis by auto
  qed
qed auto

lemma grow_right_cost:
  "grow_right ts right remaining = (r, m) \<Longrightarrow> right \<le> length ts \<Longrightarrow>
     right \<le> r \<and> r \<le> length ts \<and> m + tokens_cost (token_slice ts right r) = remaining"
proof (induction ts right remaining rule: grow_right.induct)
  case (1 ts right remaining)
  show ?case
  proof (cases "right < length ts \<and> token_cost (ts ! right) \<le> remaining")
    case True
    with "1.prems"(1) have "grow_right ts (right + 1) (remaining - token_cost (ts ! right)) = (r, m)"
      by (simp add: grow_right.simps [of ts right])
    from "1.IH" [OF True this] True have "right + 1 \<le> r" "r \<le> length ts"
      "m + tokens_cost (token_slice ts (right + 1) r) = remaining - token_cost (ts ! right)" by simp_all
    with cost_join [of right "Suc right" r ts] cost_one [of right ts] True show ?thesis by simp
  next
    case False
    with "1.prems" show ?thesis by (auto simp: grow_right.simps [of ts right])
  qed
qed

lemma fill_left_cost:
  "left \<le> length ts \<Longrightarrow> fill_left ts left remaining \<le> left \<and>
     tokens_cost (token_slice ts (fill_left ts left remaining) left) \<le> remaining"
proof (induction left arbitrary: remaining)
  case (Suc left)
  show ?case
  proof (cases "token_cost (ts ! left) \<le> remaining")
    case True
    let ?l = "fill_left ts left (remaining - token_cost (ts ! left))"
    from Suc have "?l \<le> left" "tokens_cost (token_slice ts ?l left) \<le> remaining - token_cost (ts ! left)" by simp_all
    with True cost_join [of ?l left "Suc left" ts] cost_one [of left ts] Suc.prems show ?thesis by simp
  qed simp
qed simp

lemma grow_head_cost:
  "grow_head ts stop limit head used = (h, u) \<Longrightarrow> head \<le> stop \<Longrightarrow> stop \<le> length ts \<Longrightarrow>
     head \<le> h \<and> h \<le> stop \<and> u = used + tokens_cost (token_slice ts head h) \<and> (used \<le> limit \<longrightarrow> u \<le> limit)"
proof (induction ts stop limit head used rule: grow_head.induct)
  case (1 ts stop limit head used)
  show ?case
  proof (cases "head < stop \<and> used + token_cost (ts ! head) \<le> limit")
    case True
    with "1.prems"(1) have "grow_head ts stop limit (head + 1) (used + token_cost (ts ! head)) = (h, u)"
      by (simp add: grow_head.simps [of ts stop limit head])
    from "1.IH" [OF True this] True "1.prems"(3) have "head + 1 \<le> h" "h \<le> stop" "u \<le> limit"
      "u = used + token_cost (ts ! head) + tokens_cost (token_slice ts (head + 1) h)" by simp_all
    with cost_join [of head "Suc head" h ts] cost_one [of head ts] True "1.prems"(3) show ?thesis by simp
  next
    case False
    with "1.prems" show ?thesis by (auto simp: grow_head.simps [of ts stop limit head])
  qed
qed

lemma grow_tail_cost:
  "head \<le> tail \<Longrightarrow> tail \<le> length ts \<Longrightarrow> used \<le> limit \<Longrightarrow>
     head \<le> grow_tail ts head limit tail used \<and> grow_tail ts head limit tail used \<le> tail \<and>
     used + tokens_cost (token_slice ts (grow_tail ts head limit tail used) tail) \<le> limit"
proof (induction tail arbitrary: used)
  case (Suc tail)
  show ?case
  proof (cases "head < Suc tail \<and> used + token_cost (ts ! tail) \<le> limit")
    case True
    let ?t = "grow_tail ts head limit tail (used + token_cost (ts ! tail))"
    from Suc.IH [of "used + token_cost (ts ! tail)"] Suc.prems True have "head \<le> ?t" "?t \<le> tail"
      "used + token_cost (ts ! tail) + tokens_cost (token_slice ts ?t tail) \<le> limit" by simp_all
    with True cost_join [of ?t tail "Suc tail" ts] cost_one [of tail ts] Suc.prems(2) show ?thesis by simp
  next
    case False
    with Suc.prems show ?thesis by auto
  qed
qed simp

lemma ellipsis_units [simp]: "len_utf16 ELLIPSIS = 1"
  by (simp add: len_utf16_def)

lemma render_focus_bound:
  assumes "start \<le> stop" "stop \<le> length ts" and "tokens_cost (token_slice ts start stop) + 2 \<le> budget"
  shows "text_units (render_focus ts start stop budget) \<le> budget"
proof -
  let ?focus = "tokens_cost (token_slice ts start stop)"
  let ?remaining = "budget - ?focus - 2"
  obtain left used where l: "grow_left ts (?remaining div 2) start 0 = (left, used)" by fastforce
  obtain right m where r: "grow_right ts stop (?remaining - used) = (right, m)" by fastforce
  let ?left = "fill_left ts left m"
  have left: "left \<le> start" "used = tokens_cost (token_slice ts left start)" "used \<le> ?remaining div 2"
    using grow_left_cost [OF l] assms by simp_all
  have right: "stop \<le> right" "m + tokens_cost (token_slice ts stop right) = ?remaining - used"
    using grow_right_cost [OF r] assms by simp_all
  have fill: "?left \<le> left" "tokens_cost (token_slice ts ?left left) \<le> m"
    using fill_left_cost [of left ts m] left assms by simp_all
  have "tokens_cost (token_slice ts ?left right) =
      tokens_cost (token_slice ts ?left left) + used + ?focus + tokens_cost (token_slice ts stop right)"
    using cost_join [of ?left left right ts] cost_join [of left start right ts] cost_join [of start stop right ts]
      left right fill assms by simp
  also have "\<dots> \<le> budget - 2" using fill(2) right(2) left(3) assms(3) by linarith
  finally have "tokens_cost (token_slice ts ?left right) + 2 \<le> budget" using assms(3) by linarith
  moreover have "text_units (render_focus ts start stop budget) =
      of_bool (?left \<noteq> 0) + tokens_cost (token_slice ts ?left right) + of_bool (right \<noteq> length ts)"
    unfolding render_focus_def Let_def l r prod.case text_units_append tokens_text_cost by simp
  moreover have "of_bool (?left \<noteq> 0) \<le> (1 :: nat)" "of_bool (right \<noteq> length ts) \<le> (1 :: nat)" by simp_all
  ultimately show ?thesis by linarith
qed

lemma render_ends_bound:
  assumes "start \<le> stop" "stop \<le> length ts" and "3 \<le> budget"
  shows "text_units (render_ends ts start stop budget) \<le> budget"
proof -
  let ?outer = "of_bool (start \<noteq> 0) + of_bool (stop \<noteq> length ts) :: nat"
  let ?available = "saturating_sub budget (?outer + 1)"
  obtain head used where h: "grow_head ts stop (?available div 2) start 0 = (head, used)" by fastforce
  let ?tail = "grow_tail ts head ?available stop used"
  have head: "start \<le> head" "head \<le> stop" "used = tokens_cost (token_slice ts start head)"
    "used \<le> ?available div 2" using grow_head_cost [OF h] assms by simp_all
  have "used + tokens_cost (token_slice ts ?tail stop) \<le> ?available"
    using grow_tail_cost [of head stop ts used ?available] head assms by simp
  moreover have "?available + ?outer + 1 = budget" using assms(3) by (simp add: saturating_sub_def)
  moreover have "text_units (if c then [ELLIPSIS] else []) = of_bool c" for c by simp
  ultimately show ?thesis
    unfolding render_ends_def Let_def h prod.case text_units_append tokens_text_cost
    using head(3) by simp
qed

lemma partition_point_le: "partition_point P xs \<le> length xs"
  by (simp add: partition_point_def length_takeWhile_le)

lemma render_bound:
  assumes "budget + 1 < USIZE_LIMIT"
  shows "text_units (render ts raw_start raw_end budget) \<le> budget"
proof -
  let ?start = "partition_point (\<lambda>t. token_end t \<le> raw_start) ts"
  let ?stop = "max (partition_point (\<lambda>t. token_start t < raw_end) ts) ?start"
  have order: "?start \<le> ?stop" "?stop \<le> length ts" using partition_point_le by auto
  show ?thesis
  proof (cases "budget = 0 \<or> tokens_cost ts \<le> budget \<or> budget < 3")
    case True
    then show ?thesis by (auto simp: render_def tokens_text_cost len_utf16_def)
  next
    case False
    show ?thesis
    proof (cases "saturating_add (tokens_cost (token_slice ts ?start ?stop)) 2 \<le> budget")
      case focus: True
      then have "render ts raw_start raw_end budget = render_focus ts ?start ?stop budget"
        using False by (simp add: render_def Let_def)
      moreover have "tokens_cost (token_slice ts ?start ?stop) + 2 \<le> budget"
        using focus assms by (auto simp: saturating_add_def min_def split: if_splits)
      ultimately show ?thesis using render_focus_bound [OF order] by auto
    next
      case ends: False
      then have "render ts raw_start raw_end budget = render_ends ts ?start ?stop budget"
        using False by (simp add: render_def Let_def)
      with render_ends_bound [OF order] False show ?thesis by simp
    qed
  qed
qed

section \<open>Clipping\<close>

lemma clip_loop_bound: "used < budget \<Longrightarrow> used + text_units (clip_loop budget used text) < budget"
proof (induction budget used "text" rule: clip_loop.induct)
  case (2 budget used c cs)
  let ?width = "if starts_escape (c # cs) then 8 else 1 :: nat"
  let ?piece = "take ?width (c # cs)"
  show ?case
  proof (cases "budget - 1 < used + text_units ?piece")
    case True
    with "2.prems" show ?thesis by (simp add: clip_loop.simps(2) [of budget used c cs] Let_def)
  next
    case False
    then have "used + text_units ?piece < budget" using "2.prems" by linarith
    from "2.IH" [OF refl refl False this]
    have "used + text_units ?piece + text_units (clip_loop budget (used + text_units ?piece) (drop ?width (c # cs))) < budget" .
    moreover have "clip_loop budget used (c # cs) =
        ?piece @ clip_loop budget (used + text_units ?piece) (drop ?width (c # cs))"
      using False by (simp only: clip_loop.simps(2) [of budget used c cs] Let_def if_False)
    ultimately show ?thesis by simp
  qed
qed simp

lemma clip_bound: "text_units (clip_diagnostic text budget) \<le> budget"
proof (cases "text_units text \<le> budget \<or> budget = 0")
  case True
  then show ?thesis by (auto simp: clip_diagnostic_def)
next
  case False
  then have "text_units (clip_loop budget 0 text) < budget" using clip_loop_bound [of 0 budget "text"] by simp
  with False show ?thesis by (simp add: clip_diagnostic_def)
qed

lemma starts_escape_text:
  assumes "clean_glyph g"
  shows "starts_escape (glyph_text g @ xs) \<longleftrightarrow> (\<exists>u. g = Escaped u)"
proof (cases g)
  case (Character c)
  with assms show ?thesis by (auto simp: glyph_text_def starts_escape_def clean_glyph_def take_Cons')
next
  case (Escaped u)
  have "take 8 (glyph_text g @ xs) = glyph_text g" "(glyph_text g @ xs) ! 7 = 0x5D" "8 \<le> length (glyph_text g @ xs)"
    by (simp_all add: glyph_text_def Escaped hex4_def)
  moreover have "\<forall>c\<in>set (glyph_text g). c < 0x80" using hex4_ascii [of _ u] by (auto simp: glyph_text_def Escaped)
  moreover have "take 3 (glyph_text g @ xs) = [0x5B, 0x55, 0x2B]" by (simp add: glyph_text_def Escaped)
  ultimately show ?thesis by (simp add: starts_escape_def Escaped)
qed

lemma clip_loop_tokens:
  "\<forall>t\<in>set ts. clean_glyph (token_glyph t) \<Longrightarrow> \<exists>k. clip_loop budget used (tokens_text ts) = tokens_text (take k ts)"
proof (induction ts arbitrary: used)
  case Nil
  then show ?case by (simp add: tokens_text_def)
next
  case (Cons t ts)
  let ?g = "glyph_text (token_glyph t)"
  let ?width = "if starts_escape (?g @ tokens_text ts) then 8 else 1 :: nat"
  have whole: "tokens_text (t # ts) = ?g @ tokens_text ts" by (simp add: tokens_text_def)
  obtain c cs where cs: "?g @ tokens_text ts = c # cs" by (cases "?g @ tokens_text ts") auto
  have piece: "take ?width (?g @ tokens_text ts) = ?g" "drop ?width (?g @ tokens_text ts) = tokens_text ts"
    using starts_escape_text [of "token_glyph t" "tokens_text ts"] Cons.prems
    by (cases "token_glyph t"; simp add: glyph_text_def)+
  have step: "clip_loop budget used (?g @ tokens_text ts) =
      (if budget - 1 < used + text_units ?g then [] else ?g @ clip_loop budget (used + text_units ?g) (tokens_text ts))"
    using clip_loop.simps(2) [of budget used c cs, folded cs, unfolded Let_def] by (simp only: piece)
  show ?case
  proof (cases "budget - 1 < used + text_units ?g")
    case True
    then show ?thesis unfolding whole step by (intro exI [of _ 0]) (simp add: tokens_text_def)
  next
    case False
    from Cons.IH [of "used + text_units ?g"] Cons.prems obtain k where
      "clip_loop budget (used + text_units ?g) (tokens_text ts) = tokens_text (take k ts)" by auto
    with False show ?thesis unfolding whole step by (intro exI [of _ "Suc k"]) (simp add: tokens_text_def)
  qed
qed

end
