(* ===== verification/Display_Claims.thy ===== *)
theory Display_Claims
  imports Display_Correct
begin

text \<open>
  Claims on the diagnostics of the confirmation.
\<close>

text \<open>
  C16: What the user confirms is what differs. The two texts shown for a change never exceed the
  budget; unless something was elided they are equal only for equal names or paths, whatever control
  characters, lone surrogates or brackets these contain; and a pair that shows equal texts for
  different values is marked as hidden.
\<close>

theorem confirmation_pair_exact:
  assumes "budget + 1 < USIZE_LIMIT"
  shows "case display_pair_of before after budget of pair \<Rightarrow>
    text_units (shown_before pair) \<le> budget \<and> text_units (shown_after pair) \<le> budget \<and>
    (elided pair \<or> (shown_before pair = shown_after pair \<longleftrightarrow> before = after)) \<and>
    (hidden pair \<longleftrightarrow> before \<noteq> after \<and> shown_before pair = shown_after pair)"
proof -
  let ?pair = "display_pair_of before after budget"
  have "text_units (shown_before ?pair) \<le> budget" "text_units (shown_after ?pair) \<le> budget"
    by (simp_all add: display_pair_of_def Let_def render_bound [OF assms])
  moreover have "elided ?pair \<or> (shown_before ?pair = shown_after ?pair \<longleftrightarrow> before = after)"
  proof (cases "elided ?pair")
    case False
    then have "tokens_cost (tokens before) \<le> budget" "tokens_cost (tokens after) \<le> budget"
      by (simp_all add: display_pair_of_def Let_def not_less)
    then have "shown_before ?pair = tokens_text (tokens before)" "shown_after ?pair = tokens_text (tokens after)"
      using tokens_text_cost [of "tokens before"] tokens_text_cost [of "tokens after"]
      by (auto simp: display_pair_of_def Let_def render_def tokens_cost_zero)
    with tokens_text_inj show ?thesis by metis
  qed simp
  moreover have "hidden ?pair \<longleftrightarrow> before \<noteq> after \<and> shown_before ?pair = shown_after ?pair"
    by (simp add: display_pair_of_def Let_def)
  ultimately show ?thesis by simp
qed

theorem confirmation_pair_exact_witness:
  "text_units (shown_before (display_pair_of [0x41, 0xD800, 0x5B] [0x41, 0x202E] 56)) \<le> 56 \<and>
   shown_before (display_pair_of [0x41, 0xD800, 0x5B] [0x41, 0x202E] 56) \<noteq>
     shown_after (display_pair_of [0x41, 0xD800, 0x5B] [0x41, 0x202E] 56)"
proof -
  have "\<not> elided (display_pair_of [0x41, 0xD800, 0x5B] [0x41, 0x202E] 56)"
    by (simp add: display_pair_of_def Let_def tokens_def tokens_cost_def token_cost_def glyph_cost_def
        high_surrogate_def low_surrogate_def single_glyph_def escaped_def surrogate_def len_utf16_def
        char_or_replacement_def)
  with confirmation_pair_exact [of 56 "[0x41, 0xD800, 0x5B]" "[0x41, 0x202E]"] show ?thesis by simp
qed

text \<open>
  Clipping never cuts an escape. A diagnostic that is too long for a native tip becomes the text
  of some of its first tokens, whole, and the mark of the elision, within the budget of the tip.
\<close>

theorem clipped_between_tokens:
  "text_units (clip_diagnostic text budget) \<le> budget \<and>
   (clip_diagnostic (tokens_text (tokens units)) budget = tokens_text (tokens units) \<or>
    clip_diagnostic (tokens_text (tokens units)) budget = [] \<or>
    (\<exists>k. clip_diagnostic (tokens_text (tokens units)) budget = tokens_text (take k (tokens units)) @ [ELLIPSIS]))"
proof -
  have "\<forall>t\<in>set (tokens units). clean_glyph (token_glyph t)"
    by (auto simp: tokens_def intro: tokens_from_clean)
  from clip_loop_tokens [OF this, of budget 0] obtain k where
    "clip_loop budget 0 (tokens_text (tokens units)) = tokens_text (take k (tokens units))" ..
  then have "clip_diagnostic (tokens_text (tokens units)) budget = tokens_text (tokens units) \<or>
      clip_diagnostic (tokens_text (tokens units)) budget = [] \<or>
      clip_diagnostic (tokens_text (tokens units)) budget = tokens_text (take k (tokens units)) @ [ELLIPSIS]"
    by (simp add: clip_diagnostic_def)
  with clip_bound [of "text" budget] show ?thesis by blast
qed

end
