(* ===== verification/Spec2Isabelle.thy ===== *)
theory Spec2Isabelle
  imports List_Claims Completion_Claims Durable_Claims Activation_Claims Admission_Claims Preview_Claims
    Icon_Claims Preference_Claims Display_Claims
begin

text \<open>
  DarkReNamer renames batches of files on Windows. This development models its logic, which is
  two programs in one: the list of rows with their proposed names, and the transaction that
  carries the proposals out.

  \<^bold>\<open>The list\<close> (\<open>crates/darknamer-core/src/lib.rs\<close>, \<open>windows_leaf_name.rs\<close>). A \<open>LegacyList\<close> owns the
  rows, two UTF-16 counters with budgets, and an identity with a revision for the append index.
  \<^item> \<open>Legacy_Text\<close>: UTF-16 units, trimming, import and export of lines, the text comparators.
  \<^item> \<open>Leaf_Name\<close>: \<open>validate_windows_leaf_name\<close> and its declarative description.
  \<^item> \<open>List_Item\<close>: a row, its planned path and the kind of its change.
  \<^item> \<open>List_Model\<close>: the list, its counters, the staged update \<open>try_changed_proposals_optional\<close> with all
    budget and allocation errors, and the infallible update.
  \<^item> \<open>Proposal_Transforms\<close>, \<open>Numbering_Import\<close>: the commands on proposed names.
  \<^item> \<open>Row_Moves\<close>: removing and moving rows, recorded moves, destination parents.
  \<^item> \<open>Legacy_Sort\<close>: the comparators, the stable order, and the in-place cycle walk.
  \<^item> \<open>Append_Index\<close>, \<open>Append_Batch\<close>: the chunked index of sources and the batch append.
  \<^item> \<open>List_Machine\<close>: all operations as a step relation with the invariant; \<open>List_Claims\<close>: the claims.

  \<^bold>\<open>The transaction\<close> (\<open>crates/darknamer-app/src/rename\<close>). A request of intents is planned over the
  filesystem port, confirmed, scheduled into primitive moves, and executed under a write-ahead
  journal; an interrupted transaction is rolled back by recovery.
  \<^item> \<open>Rename_Ports\<close>, \<open>Rename_Backend\<close>: the data of \<open>model.rs\<close> and the ports of \<open>ports.rs\<close>. The locale
    \<open>rename_backend\<close> states what the documentation of the filesystem port promises: a move that
    succeeds moved the expected entry to an empty location, a certain failure changed nothing.
  \<^item> \<open>Memory_Backend\<close>: the in-memory filesystem of \<open>memory.rs\<close>, which interprets that locale.
  \<^item> \<open>Rename_Journal\<close>, \<open>Journal_Store\<close>, \<open>Journal_Capacity\<close>: replay of the journal as a recogniser of the
    write-ahead protocol, the in-memory journal with its authorized appends and the locales of the
    journal ports, and the capacity limits of \<open>file_journal.rs\<close>.
  \<^item> \<open>Journal_Codec\<close>, \<open>Codec_Correct\<close>, \<open>Codec_Stream\<close>: the byte format of \<open>file_journal.rs\<close> with its
    frames, checksums and two payload versions, the decoder as the inverse of the encoder, and what
    is left of a stream that was cut off.
  \<^item> \<open>File_Journal\<close>, \<open>File_Journal_Correct\<close>: the durable journal over one retained file, where a script
    says which system calls fail and how many bytes a failing write leaves. The invariant \<open>fj_ok\<close> ties
    the file to the records, and the journals that keep it interpret the journal locales.
  \<^item> \<open>Rename_Planner\<close>, \<open>Planner_Correct\<close>: every stage of \<open>planner.rs\<close>, and what a plan guarantees.
  \<^item> \<open>Rename_Schedule\<close>, \<open>Schedule_Correct\<close>: \<open>schedule.rs\<close>; a schedule renames all rows at once.
  \<^item> \<open>Rename_Executor\<close>, \<open>Executor_Correct\<close>: \<open>executor.rs\<close>; the journal phase describes the filesystem
    after every step, and every end is completed, rolled back or recoverable.
  \<^item> \<open>Rename_Recovery\<close>, \<open>Recovery_Correct\<close>: \<open>recovery.rs\<close>; reconciliation finds the true state.
  \<^item> \<open>Memory_Plan\<close>, \<open>Crash_Recovery\<close>: plans over the in-memory filesystem, and ports that die after a
    given number of mutations, for crashes between any two effects.
  \<^item> \<open>Durable_Recovery\<close>: the executor and recovery over the file journal, interpreted, with the crash
    followed by a reopened file.
  \<^item> \<open>Quiet_Run\<close>: total correctness. When no port fails, the schedule finds its temporary names, the
    journal takes every record and the run completes.
  \<^item> \<open>Rename_Claims\<close>, \<open>Planner_Claims\<close>, \<open>Completion_Claims\<close>, \<open>Durable_Claims\<close>: the claims, up to the way
    from a request to the renamed files.

  \<^bold>\<open>The two together\<close> (\<open>rename/activation.rs\<close>). The list becomes a request, and a completed report is
  applied to the list.
  \<^item> \<open>Report_Correct\<close>: a completed report names every row of its plan, in order, as applied.
  \<^item> \<open>Rename_Activation\<close>: \<open>build_plan_request\<close>, \<open>apply_execution_report\<close> and the decisions beside them;
    \<open>Activation_Claims\<close>: the list follows the files.

  \<^bold>\<open>Around them\<close> (\<open>crates/darknamer-app/src\<close>). How paths get into the list, what the user sees before
  confirming, and the two workers beside the transaction.
  \<^item> \<open>Admission_Sort\<close>, \<open>Admission\<close>, \<open>Admission_Correct\<close>: \<open>admission.rs\<close>; budgets, the cancellable merge
    sort, and the depth-first walk over an adapter. The locales \<open>polling_adapter\<close> and
    \<open>static_adapter\<close> state what the walk needs: a cancelled read was asked for, and a directory that
    does not change is listed completely. \<open>Fake_Adapter\<close> is the adapter of the tests in
    \<open>tests/admission.rs\<close> and interprets them. \<open>Admission_Claims\<close>: the walk ends, keeps its bounds on
    any adapter, and without an issue is the recursive listing.
  \<^item> \<open>Preview\<close>, \<open>Preview_Correct\<close>, \<open>Preview_Claims\<close>: \<open>preview.rs\<close>; the cache with one diagnostic per row,
    whose incremental refresh equals the full one.
  \<^item> \<open>Confirmation_Display\<close>, \<open>Display_Correct\<close>, \<open>Display_Claims\<close>: \<open>confirmation_display.rs\<close>; the escaped
    text of UTF-16 units, which can be read back, rendered within a budget.
  \<^item> \<open>Icon_Requests\<close>, \<open>Icon_Claims\<close>: \<open>icon_requests.rs\<close>; the bounded queue of shell icons as a machine
    whose runs keep the published tokens.
  \<^item> \<open>Preference_Codec\<close>, \<open>Preference_Writer\<close>, \<open>Preference_Correct\<close>, \<open>Preference_Claims\<close>:
    \<open>windows/preferences.rs\<close> and \<open>preference_lifecycle.rs\<close>; the settings files, the save through a
    temporary file with a failure at any stage, and the coalescing writer with its worker as a
    machine. The locale \<open>settings_store\<close> is what the writer needs of a save, interpreted for the
    columns, the appearance and the language. \<open>Checked_Words\<close> numbers the requests of both queues.

  \<^bold>\<open>Conventions.\<close> \<open>usize\<close> is \<open>nat\<close> with the bound \<open>USIZE_LIMIT = 2 ^ 64\<close> and its checked, saturating and
  wrapping operations; units, identities and hashes are words. Errors are sums. A port is a record
  of operations over a state that is passed explicitly. A cancellation callback is a function of the
  number of polls so far. Allocation failures are an oracle over named allocation sites. Loops are
  structural or have a measure; the ancestor walk of the planner takes the 256 iterations the code
  gives it. The release profile aborts on a panic; panics do not occur on the modelled paths. Two
  threads that share a queue under a lock are steps in any order. The walk of admission ends because
  every iteration that continues inspects one more candidate, and the worker of a settings file
  because every step uses up a request or leaves its loop; neither needs fuel.

  \<^bold>\<open>Not modelled.\<close> The Win32 user interface and its worker threads, the Windows adapter and the
  private directory (calls into the operating system), opening the root directory of the journal
  and its runtime lock (handles that are only passed along), geometry and presentation state, the
  bounded read of an import stream, localised strings, and \<open>Display\<close> texts. The type of the paths of
  admission is open; what \<open>Path\<close> does with them belongs to its adapter. Reads of a port are functions of its state, so another process that changes the
  filesystem between two calls is not modelled, except as the injected failures and changed
  identities of the in-memory adapter. \<open>slice::sort_by\<close> is modelled as a stable insertion sort,
  which for a total order is what its documentation promises. The Unicode lower-case table is a
  parameter of the text comparator.
\<close>

end
